(* ===== verification/Prelude.thy ===== *)
theory Prelude
  imports "HOL-Library.Word" "HOL-Library.Monad_Syntax"
begin

unbundle bit_operations_syntax

text \<open>
  Shared vocabulary of the development.

  The kernel targets 32-bit Cortex-M cores, so an address is a 32-bit word and the null pointer
  is the word 0. A kernel operation that may stop the machine (a failed \<open>OS_ASSERT\<close>, a
  dereference of a null or freed task control block, a list walk that never ends) returns
  \<open>'a option\<close>, and \<open>None\<close> says that the call does not return. The theory holds the
  named collections that the component theories fill, count-trailing-zeros as the compiler's
  \<open>__builtin_ctz\<close> computes it, the two ends of a pointer list, and lemmas on words, lists and
  the option monad that several components need.
\<close>

type_synonym u8 = "8 word"
type_synonym u32 = "32 word"
type_synonym ptr = "32 word"

abbreviation (input) NULL :: ptr where "NULL \<equiv> 0"

named_theorems crit_simps \<open>normal forms of the critical-section and trace calls\<close>
named_theorems frame_simps \<open>state components an operation leaves alone\<close>
named_theorems step_simps \<open>unfolding rules of the operations of a component\<close>

section \<open>The two ends of a linked list\<close>

definition first_ptr :: "ptr \<Rightarrow> ptr list \<Rightarrow> ptr" where
  "first_ptr e xs = (case xs of [] \<Rightarrow> e | x # _ \<Rightarrow> x)"

definition last_ptr :: "ptr \<Rightarrow> ptr list \<Rightarrow> ptr" where
  "last_ptr e xs = (if xs = [] then e else last xs)"

lemma first_ptr_simps [simp]:
  "first_ptr e [] = e"
  "first_ptr e (x # xs) = x"
  by (simp_all add: first_ptr_def)

lemma last_ptr_simps [simp]:
  "last_ptr e [] = e"
  "last_ptr e (x # xs) = last_ptr x xs"
  "last_ptr e (xs @ [x]) = x"
  by (simp_all add: last_ptr_def)

lemma first_ptr_append [simp]: "first_ptr e (xs @ ys) = first_ptr (first_ptr e ys) xs"
  by (cases xs) simp_all

lemma last_ptr_append [simp]: "last_ptr e (xs @ ys) = last_ptr (last_ptr e xs) ys"
  by (simp add: last_ptr_def)

lemma first_ptr_mem: "xs \<noteq> [] \<Longrightarrow> first_ptr e xs \<in> set xs"
  by (cases xs) simp_all

lemma last_ptr_mem: "xs \<noteq> [] \<Longrightarrow> last_ptr e xs \<in> set xs"
  by (simp add: last_ptr_def)

lemma first_ptr_NULL_iff: "NULL \<notin> set xs \<Longrightarrow> first_ptr NULL xs = NULL \<longleftrightarrow> xs = []"
  by (cases xs) auto

lemma last_ptr_NULL_iff: "NULL \<notin> set xs \<Longrightarrow> last_ptr NULL xs = NULL \<longleftrightarrow> xs = []"
  by (auto simp: last_ptr_def dest: last_in_set)

section \<open>Lists\<close>

lemma remove1_split: "x \<notin> set as \<Longrightarrow> remove1 x (as @ x # bs) = as @ bs"
  by (induction as) auto

lemma distinct_split:
  assumes "distinct xs" "x \<in> set xs"
  obtains as bs where "xs = as @ x # bs" "x \<notin> set as" "x \<notin> set bs" "remove1 x xs = as @ bs"
proof -
  from assms(2) obtain as bs where xs: "xs = as @ x # bs" by (meson split_list)
  with assms(1) have "x \<notin> set as" "x \<notin> set bs" by auto
  with xs show thesis by (intro that) (auto simp: remove1_split)
qed

section \<open>The option monad\<close>

lemma bind_Some_iff: "(m \<bind> f = Some y) = (\<exists>x. m = Some x \<and> f x = Some y)"
  by (cases m) auto

section \<open>Words\<close>

lemma unat_minus_one_u32: "(w :: u32) \<noteq> 0 \<Longrightarrow> unat (w - 1) = unat w - 1"
  by (simp add: unat_minus_one)

lemma unat_plus_one_u32: "unat (w :: u32) + 1 < 2 ^ 32 \<Longrightarrow> unat (w + 1) = unat w + 1"
  by (simp add: unat_word_ariths)

lemma unat_lt_u32: "unat (w :: u32) < 2 ^ 32"
  using unsigned_less [where 'a = nat and w = w] by simp

lemma of_nat_u32_eq_iff:
  "a < 2 ^ 32 \<Longrightarrow> b < 2 ^ 32 \<Longrightarrow> (of_nat a = (of_nat b :: u32)) = (a = b)"
  by (auto dest: arg_cong [where f = unat] simp: unat_of_nat)

lemma word_gt_0_unat: "(0 < (w :: u32)) = (0 < unat w)"
  by (simp add: word_less_nat_alt)

lemma unat_and_not_mask:
  fixes w :: u32
  shows "unat (w AND NOT (mask k)) = unat w div 2 ^ k * 2 ^ k"
proof -
  have split: "take_bit k w OR (w AND NOT (mask k)) = w"
    by (rule bit_word_eqI) (auto simp: bit_simps)
  have disj: "take_bit k w AND (w AND NOT (mask k)) = 0"
    by (rule bit_word_eqI) (auto simp: bit_simps)
  have "w = take_bit k w + (w AND NOT (mask k))"
    using split disj by (metis disjunctive_add_eq_or)
  then have eq: "w AND NOT (mask k) = w - take_bit k w" by (simp add: algebra_simps)
  have u: "unat (take_bit k w) = unat w mod 2 ^ k"
    by (subst take_bit_eq_mod [symmetric]) (simp add: unsigned_take_bit_eq)
  then have "take_bit k w \<le> w" by (simp add: word_le_nat_alt)
  then have "unat (w AND NOT (mask k)) = unat w - unat w mod 2 ^ k"
    by (simp add: eq unat_sub u)
  then show ?thesis by (simp add: minus_mod_eq_div_mult)
qed

lemma unat_align8: "unat (w AND - 8 :: u32) = unat w div 8 * 8"
  using unat_and_not_mask [of w 3] by (simp flip: minus_exp_eq_not_mask)

lemma unat_align4: "unat (w AND - 4 :: u32) = unat w div 4 * 4"
  using unat_and_not_mask [of w 2] by (simp flip: minus_exp_eq_not_mask)

lemma nat_not_bit: "n < 2 ^ k \<Longrightarrow> \<not> bit (n :: nat) k"
  by (simp add: bit_iff_odd)

subsection \<open>Count trailing zeros\<close>

text \<open>
  \<open>__builtin_ctz\<close>: the position of the lowest set bit. The C builtin is undefined at 0; the
  kernel never calls it there, and the definition returns the width.
\<close>

definition builtin_ctz :: "u32 \<Rightarrow> nat" where
  "builtin_ctz w = length (takeWhile (\<lambda>i. \<not> bit w i) [0..<32])"

lemma builtin_ctz_le: "builtin_ctz w \<le> 32"
  using length_takeWhile_le [of "\<lambda>i. \<not> bit w i" "[0..<32]"] by (simp add: builtin_ctz_def)

lemma builtin_ctz_lower: "i < builtin_ctz w \<Longrightarrow> \<not> bit w i"
proof -
  assume i: "i < builtin_ctz w"
  then have "takeWhile (\<lambda>i. \<not> bit w i) [0..<32] ! i = i"
    using builtin_ctz_le [of w] by (simp add: builtin_ctz_def takeWhile_nth)
  moreover have "takeWhile (\<lambda>i. \<not> bit w i) [0..<32] ! i \<in> set (takeWhile (\<lambda>i. \<not> bit w i) [0..<32])"
    using i by (simp add: builtin_ctz_def)
  ultimately show ?thesis by (metis set_takeWhileD)
qed

lemma builtin_ctz_bit:
  assumes "w \<noteq> 0" shows "builtin_ctz w < 32" "bit w (builtin_ctz w)"
proof -
  from assms obtain j where j: "bit w j" by (metis bit_eqI bit_0_eq bot_apply bot_bool_def)
  then have "j < 32" using bit_imp_le_length [of w j] by simp
  then have "builtin_ctz w \<le> j"
    using j builtin_ctz_lower [of j w] by (meson not_le)
  with \<open>j < 32\<close> show lt: "builtin_ctz w < 32" by simp
  have "\<not> \<not> bit w ([0..<32] ! length (takeWhile (\<lambda>i. \<not> bit w i) [0..<32]))"
    using lt nth_length_takeWhile [of "\<lambda>i. \<not> bit w i" "[0..<32]"] by (simp add: builtin_ctz_def)
  then show "bit w (builtin_ctz w)"
    using lt by (simp add: builtin_ctz_def)
qed

lemma builtin_ctz_Least: "w \<noteq> 0 \<Longrightarrow> builtin_ctz w = (LEAST i. bit w i)"
  by (metis Least_equality builtin_ctz_bit(2) builtin_ctz_lower linorder_not_le)

end
