(* ===== verification/Heap4.thy ===== *)
theory Heap4
  imports Prelude
begin

unbundle bit_operations_syntax

text \<open>
  The coalescing first-fit allocator of \<open>kernel/heap4.c\<close>.

  Block headers are a typed store from addresses to header records; the data areas between
  headers are the byte memory, which only \<open>calloc\<close> and \<open>realloc\<close> touch. A header takes
  12 bytes on the 32-bit target (a pointer, a 32-bit size, a flag byte and three bytes of
  padding). List walks are \<open>partial_function (option)\<close>: a corrupted, cyclic list makes the
  call diverge, which is the value \<open>None\<close>. The application's malloc-failed hook is the
  argument \<open>hook\<close>: what the function behind the pointer does to the allocator when it is
  called with the (aligned) requested size.

  The second half proves that the header list always tiles the heap area, that an allocation
  returns a data area inside the heap that overlaps no live one, that a free gives back exactly
  that area and coalesces, and what happens to the byte accounting.
\<close>

section \<open>Byte memory\<close>

type_synonym mem = "ptr \<Rightarrow> u8"

definition memcpy :: "ptr \<Rightarrow> ptr \<Rightarrow> nat \<Rightarrow> mem \<Rightarrow> mem" where
  "memcpy d s n m = (\<lambda>a. if unat (a - d) < n then m (s + (a - d)) else m a)"

definition memset :: "ptr \<Rightarrow> u8 \<Rightarrow> nat \<Rightarrow> mem \<Rightarrow> mem" where
  "memset p v n m = (\<lambda>a. if unat (a - p) < n then v else m a)"

section \<open>State\<close>

record os_block_header =
  hdr_next :: ptr
  hdr_size :: u32
  hdr_allocated :: u8

record heap4 =
  hdrs :: "ptr \<Rightarrow> os_block_header"
  px_block_list :: ptr
  free_bytes_remaining :: u32
  min_free_bytes_ever :: u32
  heap_initialized :: u32
  malloc_failed_hook :: ptr

type_synonym malloc_hook = "ptr \<Rightarrow> u32 \<Rightarrow> heap4 \<Rightarrow> heap4"

definition OS_CONFIG_HEAP_SIZE :: u32 where "OS_CONFIG_HEAP_SIZE = 10 * 1024"
definition OS_CONFIG_HEAP_ALIGNMENT :: u32 where "OS_CONFIG_HEAP_ALIGNMENT = 8"
definition sizeof_block_header :: u32 where "sizeof_block_header = 12"

definition BLOCK_DATA :: "ptr \<Rightarrow> ptr" where "BLOCK_DATA hdr = hdr + sizeof_block_header"
definition DATA_BLOCK :: "ptr \<Rightarrow> ptr" where "DATA_BLOCK p = p - sizeof_block_header"

definition ALIGN_UP :: "u32 \<Rightarrow> u32" where
  "ALIGN_UP sz = (sz + OS_CONFIG_HEAP_ALIGNMENT - 1) AND NOT (OS_CONFIG_HEAP_ALIGNMENT - 1)"

definition BLOCK_ALLOCATED_BIT :: u32 where "BLOCK_ALLOCATED_BIT = 0x80000000"
definition BLOCK_SIZE_MASK :: u32 where "BLOCK_SIZE_MASK = 0x7FFFFFFF"

section \<open>Internal functions\<close>

definition prv_block_get_size :: "ptr \<Rightarrow> heap4 \<Rightarrow> u32" where
  "prv_block_get_size block h = hdr_size (hdrs h block) AND BLOCK_SIZE_MASK"

definition prv_block_is_allocated :: "ptr \<Rightarrow> heap4 \<Rightarrow> bool" where
  "prv_block_is_allocated block h \<longleftrightarrow> hdr_size (hdrs h block) AND BLOCK_ALLOCATED_BIT \<noteq> 0"

definition upd_hdr :: "ptr \<Rightarrow> (os_block_header \<Rightarrow> os_block_header) \<Rightarrow> heap4 \<Rightarrow> heap4" where
  "upd_hdr b f h = h\<lparr>hdrs := (hdrs h)(b := f (hdrs h b))\<rparr>"

definition prv_block_set_allocated :: "ptr \<Rightarrow> heap4 \<Rightarrow> heap4" where
  "prv_block_set_allocated block h =
     upd_hdr block (\<lambda>c. c\<lparr>hdr_size := hdr_size c OR BLOCK_ALLOCATED_BIT, hdr_allocated := 1\<rparr>) h"

definition prv_block_set_free :: "ptr \<Rightarrow> heap4 \<Rightarrow> heap4" where
  "prv_block_set_free block h =
     upd_hdr block (\<lambda>c. c\<lparr>hdr_size := hdr_size c AND BLOCK_SIZE_MASK, hdr_allocated := 0\<rparr>) h"

text \<open>The walk of \<open>prv_insert_block\<close> to the insertion point, in address order.\<close>

partial_function (option) insert_pos :: "heap4 \<Rightarrow> ptr \<Rightarrow> ptr \<Rightarrow> ptr \<Rightarrow> (ptr \<times> ptr) option" where
  "insert_pos h block prev iter =
     (if iter = NULL then Some (prev, iter)
      else if iter > block then Some (prev, iter)
      else insert_pos h block iter (hdr_next (hdrs h iter)))"

text \<open>Merging a block with its successor in the list: the two coalescing steps share it.\<close>

definition absorb_next :: "ptr \<Rightarrow> ptr \<Rightarrow> heap4 \<Rightarrow> heap4" where
  "absorb_next b nxt h =
     upd_hdr b (\<lambda>c. c\<lparr>hdr_size := (hdr_size c AND BLOCK_SIZE_MASK) + sizeof_block_header
                                     + prv_block_get_size nxt h,
                     hdr_next := hdr_next (hdrs h nxt)\<rparr>) h"

definition coalesce_with_next :: "ptr \<Rightarrow> heap4 \<Rightarrow> heap4" where
  "coalesce_with_next b h =
     (let nxt = hdr_next (hdrs h b) in
      if nxt \<noteq> NULL \<and> BLOCK_DATA b + prv_block_get_size b h = nxt \<and> \<not> prv_block_is_allocated nxt h
      then absorb_next b nxt h else h)"

definition prv_insert_block :: "ptr \<Rightarrow> heap4 \<Rightarrow> heap4 option" where
  "prv_insert_block block_to_insert h =
     do {
       (prev, iter) \<leftarrow> insert_pos h block_to_insert NULL (px_block_list h);
       let h = upd_hdr block_to_insert (\<lambda>c. c\<lparr>hdr_next := iter\<rparr>) h;
       let h = (if prev \<noteq> NULL then upd_hdr prev (\<lambda>c. c\<lparr>hdr_next := block_to_insert\<rparr>) h
                else h\<lparr>px_block_list := block_to_insert\<rparr>);
       let (block_to_insert, h) =
         (if prev \<noteq> NULL \<and> BLOCK_DATA prev + prv_block_get_size prev h = block_to_insert
             \<and> \<not> prv_block_is_allocated prev h
          then (prev, absorb_next prev block_to_insert h)
          else (block_to_insert, h));
       Some (coalesce_with_next block_to_insert h)
     }"

section \<open>Public functions\<close>

definition os_heap_init :: "ptr \<Rightarrow> heap4 \<Rightarrow> heap4" where
  "os_heap_init uc_heap h =
     (let first_block = ALIGN_UP uc_heap;
          h = upd_hdr first_block
                (\<lambda>c. c\<lparr>hdr_next := NULL, hdr_size := OS_CONFIG_HEAP_SIZE - sizeof_block_header,
                       hdr_allocated := 0\<rparr>) h;
          h = h\<lparr>px_block_list := first_block\<rparr>;
          h = h\<lparr>free_bytes_remaining := hdr_size (hdrs h first_block)\<rparr>;
          h = h\<lparr>min_free_bytes_ever := free_bytes_remaining h\<rparr>
      in h\<lparr>heap_initialized := 1\<rparr>)"

text \<open>The first-fit search of \<open>os_heap_alloc\<close>; the result is null when no block fits.\<close>

partial_function (option) find_fit :: "heap4 \<Rightarrow> u32 \<Rightarrow> ptr \<Rightarrow> ptr option" where
  "find_fit h sz block =
     (if block = NULL then Some NULL
      else if \<not> prv_block_is_allocated block h \<and> prv_block_get_size block h \<ge> sz then Some block
      else find_fit h sz (hdr_next (hdrs h block)))"

definition os_heap_alloc :: "malloc_hook \<Rightarrow> u32 \<Rightarrow> heap4 \<Rightarrow> (ptr \<times> heap4) option" where
  "os_heap_alloc hook sz h =
     (if sz = 0 \<or> heap_initialized h = 0 then Some (NULL, h)
      else do {
        let sz = ALIGN_UP sz;
        block \<leftarrow> find_fit h sz (px_block_list h);
        if block = NULL
        then Some (NULL, if malloc_failed_hook h \<noteq> NULL
                         then hook (malloc_failed_hook h) sz h else h)
        else do {
          let block_size = prv_block_get_size block h;
          let h = (if block_size \<ge> sz + sizeof_block_header + OS_CONFIG_HEAP_ALIGNMENT
                   then let new_block = BLOCK_DATA block + sz;
                            h = upd_hdr new_block
                                  (\<lambda>c. c\<lparr>hdr_size := block_size - sz - sizeof_block_header,
                                         hdr_allocated := 0,
                                         hdr_next := hdr_next (hdrs h block)\<rparr>) h;
                            h = upd_hdr block (\<lambda>c. c\<lparr>hdr_size := sz, hdr_next := new_block\<rparr>) h
                        in h\<lparr>free_bytes_remaining :=
                               free_bytes_remaining h - (sz + sizeof_block_header)\<rparr>
                   else h\<lparr>free_bytes_remaining := free_bytes_remaining h - block_size\<rparr>);
          let h = prv_block_set_allocated block h;
          let h = (if free_bytes_remaining h < min_free_bytes_ever h
                   then h\<lparr>min_free_bytes_ever := free_bytes_remaining h\<rparr> else h);
          Some (BLOCK_DATA block, h)
        }
      })"

definition os_heap_calloc ::
    "malloc_hook \<Rightarrow> u32 \<Rightarrow> u32 \<Rightarrow> heap4 \<Rightarrow> mem \<Rightarrow> (ptr \<times> heap4 \<times> mem) option" where
  "os_heap_calloc hook count sz h m =
     do {
       let total = count * sz;
       (p, h) \<leftarrow> os_heap_alloc hook total h;
       Some (p, h, if p \<noteq> NULL then memset p 0 (unat total) m else m)
     }"

text \<open>Taking a block out of the list, the loop inside \<open>os_heap_free\<close>.\<close>

partial_function (option) unlink_block :: "ptr \<Rightarrow> ptr \<Rightarrow> ptr \<Rightarrow> heap4 \<Rightarrow> heap4 option" where
  "unlink_block block prev iter h =
     (if iter = NULL then Some h
      else if iter = block
      then Some (if prev \<noteq> NULL
                 then upd_hdr prev (\<lambda>c. c\<lparr>hdr_next := hdr_next (hdrs h block)\<rparr>) h
                 else h\<lparr>px_block_list := hdr_next (hdrs h block)\<rparr>)
      else unlink_block block iter (hdr_next (hdrs h iter)) h)"

definition os_heap_free :: "ptr \<Rightarrow> heap4 \<Rightarrow> heap4 option" where
  "os_heap_free p h =
     (if p = NULL \<or> heap_initialized h = 0 then Some h
      else let block = DATA_BLOCK p in
        if \<not> prv_block_is_allocated block h then Some h
        else do {
          let h = h\<lparr>free_bytes_remaining := free_bytes_remaining h + prv_block_get_size block h\<rparr>;
          let h = prv_block_set_free block h;
          h \<leftarrow> unlink_block block NULL (px_block_list h) h;
          prv_insert_block block h
        })"

definition os_heap_realloc ::
    "malloc_hook \<Rightarrow> ptr \<Rightarrow> u32 \<Rightarrow> heap4 \<Rightarrow> mem \<Rightarrow> (ptr \<times> heap4 \<times> mem) option" where
  "os_heap_realloc hook p new_size h m =
     (if p = NULL then do { (q, h) \<leftarrow> os_heap_alloc hook new_size h; Some (q, h, m) }
      else if new_size = 0 then do { h \<leftarrow> os_heap_free p h; Some (NULL, h, m) }
      else let block = DATA_BLOCK p;
               old_size = prv_block_get_size block h;
               new_size = ALIGN_UP new_size
           in if new_size \<le> old_size then Some (p, h, m)
              else do {
                (new_ptr, h) \<leftarrow> os_heap_alloc hook new_size h;
                if new_ptr \<noteq> NULL
                then do {
                  let m = memcpy new_ptr p (unat old_size) m;
                  h \<leftarrow> os_heap_free p h;
                  Some (new_ptr, h, m)
                }
                else Some (new_ptr, h, m)
              })"

definition os_heap_get_free_size :: "heap4 \<Rightarrow> u32" where
  "os_heap_get_free_size h = free_bytes_remaining h"

partial_function (option) largest_free :: "heap4 \<Rightarrow> ptr \<Rightarrow> u32 \<Rightarrow> u32 option" where
  "largest_free h block largest =
     (if block = NULL then Some largest
      else let largest' = (if \<not> prv_block_is_allocated block h
                             \<and> prv_block_get_size block h > largest
                           then prv_block_get_size block h else largest)
           in largest_free h (hdr_next (hdrs h block)) largest')"

definition os_heap_get_largest_free_block :: "heap4 \<Rightarrow> u32 option" where
  "os_heap_get_largest_free_block h = largest_free h (px_block_list h) 0"

definition os_heap_get_min_free_size :: "heap4 \<Rightarrow> u32" where
  "os_heap_get_min_free_size h = min_free_bytes_ever h"

definition os_heap_set_malloc_failed_hook :: "ptr \<Rightarrow> heap4 \<Rightarrow> heap4" where
  "os_heap_set_malloc_failed_hook hook h = h\<lparr>malloc_failed_hook := hook\<rparr>"

section \<open>Abstract block lists\<close>

text \<open>
  The heap area is a sequence of blocks, each a header of 12 bytes followed by its data area; a
  block is its data size and whether it is allocated. \<open>hseg\<close> says that the header store
  holds such a sequence from an address on, \<open>heap_ok\<close> that the blocks tile the whole heap
  area of 10240 bytes and that no two free blocks are adjacent, \<open>live\<close> lists the allocated
  data areas as address and size.
\<close>

type_synonym blocks = "(nat \<times> bool) list"

definition adr :: "nat \<Rightarrow> ptr" where "adr n = of_nat n"

lemma adr_eq_iff: "a < 2 ^ 32 \<Longrightarrow> b < 2 ^ 32 \<Longrightarrow> (adr a = adr b) = (a = b)"
  by (simp add: adr_def of_nat_u32_eq_iff)

lemma adr_NULL_iff: "a < 2 ^ 32 \<Longrightarrow> (adr a = NULL) = (a = 0)"
  using adr_eq_iff [of a 0] by (simp add: adr_def)

lemma adr_less_iff: "a < 2 ^ 32 \<Longrightarrow> b < 2 ^ 32 \<Longrightarrow> (adr a < adr b) = (a < b)"
  by (simp add: adr_def word_less_nat_alt unat_of_nat)

lemma adr_add: "adr a + of_nat n = adr (a + n)"
  by (simp add: adr_def)

fun tot :: "blocks \<Rightarrow> nat" where
  "tot [] = 0"
| "tot ((n, f) # bs) = 12 + n + tot bs"

definition enc_size :: "nat \<Rightarrow> bool \<Rightarrow> u32" where
  "enc_size n f = (if f then of_nat n OR BLOCK_ALLOCATED_BIT else of_nat n)"

definition hfirst :: "nat \<Rightarrow> blocks \<Rightarrow> ptr \<Rightarrow> ptr" where
  "hfirst a bs e = (if bs = [] then e else adr a)"

fun hseg :: "(ptr \<Rightarrow> os_block_header) \<Rightarrow> nat \<Rightarrow> blocks \<Rightarrow> ptr \<Rightarrow> bool" where
  "hseg hm a [] e = True"
| "hseg hm a ((n, f) # bs) e \<longleftrightarrow>
     n < 2 ^ 31 \<and> hdr_size (hm (adr a)) = enc_size n f
     \<and> hdr_next (hm (adr a)) = hfirst (a + 12 + n) bs e
     \<and> hseg hm (a + 12 + n) bs e"

lemma tot_append [simp]: "tot (xs @ ys) = tot xs + tot ys"
  by (induction xs rule: tot.induct) auto

lemma hfirst_simps [simp]:
  "hfirst a [] e = e" "hfirst a (b # bs) e = adr a"
  by (simp_all add: hfirst_def)

lemma hfirst_append [simp]: "hfirst a (xs @ ys) e = hfirst a xs (hfirst (a + tot xs) ys e)"
  by (cases xs) (auto simp: hfirst_def)

lemma hseg_append [simp]:
  "hseg hm a (xs @ ys) e \<longleftrightarrow> hseg hm a xs (hfirst (a + tot xs) ys e) \<and> hseg hm (a + tot xs) ys e"
  by (induction hm a xs e rule: hseg.induct) (auto simp: add.assoc)

lemma enc_size_size: "n < 2 ^ 31 \<Longrightarrow> enc_size n f AND BLOCK_SIZE_MASK = of_nat n"
proof -
  assume n: "n < 2 ^ 31"
  have m: "BLOCK_SIZE_MASK = mask 31" by (simp add: BLOCK_SIZE_MASK_def mask_eq_exp_minus_1)
  have t: "take_bit 31 (of_nat n :: u32) = of_nat n"
    using n by (simp add: take_bit_of_nat take_bit_nat_eq_self)
  have "take_bit 31 BLOCK_ALLOCATED_BIT = 0" by (simp add: BLOCK_ALLOCATED_BIT_def)
  with t show ?thesis
    by (simp add: enc_size_def m take_bit_eq_mask [symmetric] take_bit_or)
qed

lemma bit_ALLOCATED: "bit BLOCK_ALLOCATED_BIT i \<longleftrightarrow> i = 31"
proof -
  have B: "BLOCK_ALLOCATED_BIT = push_bit 31 1" by (simp add: BLOCK_ALLOCATED_BIT_def)
  show ?thesis unfolding B by (simp only: bit_push_bit_iff bit_1_iff) auto
qed

lemma enc_size_alloc: "n < 2 ^ 31 \<Longrightarrow> (enc_size n f AND BLOCK_ALLOCATED_BIT = 0) = (\<not> f)"
proof -
  assume n: "n < 2 ^ 31"
  have "(enc_size n f AND BLOCK_ALLOCATED_BIT = 0) = (\<not> bit (enc_size n f) 31)"
    by (simp add: bit_eq_iff [of "enc_size n f AND _"] bit_and_iff bit_ALLOCATED)
      (auto dest: spec [of _ 31])
  also have "\<dots> = (\<not> f)"
    using nat_not_bit [OF n] by (simp add: enc_size_def bit_simps bit_ALLOCATED)
  finally show ?thesis .
qed

lemma enc_size_or: "enc_size n False OR BLOCK_ALLOCATED_BIT = enc_size n True"
  by (simp add: enc_size_def)

lemma ALIGN_UP_unat:
  assumes "unat sz + 8 \<le> 2 ^ 32"
  shows "unat (ALIGN_UP sz) = (unat sz + 7) div 8 * 8"
proof -
  have "unat (sz + 7) = unat sz + 7" using assms by (simp add: unat_word_ariths)
  then show ?thesis
    by (simp add: ALIGN_UP_def OS_CONFIG_HEAP_ALIGNMENT_def unat_align8 add_diff_eq [symmetric])
qed

definition heap_ok :: "nat \<Rightarrow> heap4 \<Rightarrow> blocks \<Rightarrow> bool" where
  "heap_ok start h bs \<longleftrightarrow>
     0 < start \<and> start + 10240 < 2 ^ 32 \<and> tot bs = 10240 \<and> heap_initialized h \<noteq> 0
     \<and> px_block_list h = adr start \<and> hseg (hdrs h) start bs NULL
     \<and> successively (\<lambda>x y. snd x \<or> snd y) bs"

fun live :: "nat \<Rightarrow> blocks \<Rightarrow> (nat \<times> nat) list" where
  "live a [] = []"
| "live a ((n, f) # bs) = (if f then (a + 12, n) # live (a + 12 + n) bs else live (a + 12 + n) bs)"

definition fits :: "nat \<Rightarrow> nat \<times> bool \<Rightarrow> bool" where
  "fits n b \<longleftrightarrow> \<not> snd b \<and> n \<le> fst b"

definition carve :: "nat \<Rightarrow> nat \<Rightarrow> blocks" where
  "carve n k = (if n + 20 \<le> k then [(n, True), (k - n - 12, False)] else [(k, True)])"

fun merge_next :: "nat \<Rightarrow> blocks \<Rightarrow> blocks" where
  "merge_next n ((m, False) # bs) = (n + 12 + m, False) # bs"
| "merge_next n bs = (n, False) # bs"

definition coalesce :: "blocks \<Rightarrow> nat \<Rightarrow> blocks \<Rightarrow> blocks" where
  "coalesce xs n ys =
     (if xs \<noteq> [] \<and> \<not> snd (last xs) then butlast xs @ merge_next (fst (last xs) + 12 + n) ys
      else xs @ merge_next n ys)"

lemma live_append [simp]: "live a (xs @ ys) = live a xs @ live (a + tot xs) ys"
  by (induction a xs rule: live.induct) (auto simp: add.assoc)

lemma live_bounds: "(p, n) \<in> set (live a bs) \<Longrightarrow> a + 12 \<le> p \<and> p + n \<le> a + tot bs"
  by (induction a bs rule: live.induct) (auto split: if_splits)

lemma hseg_upd_outside:
  assumes "x < a \<or> a + tot bs \<le> x" "x < 2 ^ 32" "a + tot bs \<le> 2 ^ 32"
  shows "hseg (hm(adr x := v)) a bs e = hseg hm a bs e"
  using assms
  by (induction hm a bs e rule: hseg.induct) (auto simp: adr_eq_iff)

lemma hseg_end_upd:
  assumes "hseg hm a (xs @ [(n, f)]) e" "a + tot xs + 12 + n \<le> 2 ^ 32"
  shows "hseg (hm(adr (a + tot xs) := (hm (adr (a + tot xs)))\<lparr>hdr_next := e'\<rparr>)) a (xs @ [(n, f)]) e'"
  using assms by (auto simp: hseg_upd_outside)

lemma block_simps:
  assumes "hseg (hdrs h) a ((n, f) # bs) e"
  shows "prv_block_get_size (adr a) h = of_nat n"
    and "prv_block_is_allocated (adr a) h = f"
    and "hdr_next (hdrs h (adr a)) = hfirst (a + 12 + n) bs e"
  using assms by (simp_all add: prv_block_get_size_def prv_block_is_allocated_def
      enc_size_size enc_size_alloc)

lemma find_fit_skip:
  assumes "hseg (hdrs h) a xs e" "0 < a" "a + tot xs < 2 ^ 32" "n < 2 ^ 32"
    and "\<forall>b \<in> set xs. \<not> fits n b"
  shows "find_fit h (of_nat n) (hfirst a xs e) = find_fit h (of_nat n) e"
  using assms
proof (induction xs arbitrary: a)
  case Nil
  then show ?case by simp
next
  case (Cons b xs)
  obtain k f where b: "b = (k, f)" by force
  note s = block_simps [OF Cons.prems(1) [unfolded b]]
  have nz: "adr a \<noteq> 0"
    using Cons.prems(2,3) by (simp add: adr_NULL_iff)
  have "f \<or> k < n" using Cons.prems(5) by (auto simp: b fits_def)
  moreover have "k < 2 ^ 32" using Cons.prems(1) by (simp add: b)
  ultimately have "f \<or> \<not> (of_nat n :: u32) \<le> of_nat k"
    using Cons.prems(4) by (auto simp: word_le_nat_alt unat_of_nat)
  then have "find_fit h (of_nat n) (adr a) = find_fit h (of_nat n) (hfirst (a + 12 + k) xs e)"
    by (subst find_fit.simps) (auto simp: s nz)
  also have "\<dots> = find_fit h (of_nat n) e"
    by (rule Cons.IH) (use Cons.prems in \<open>auto simp: b\<close>)
  finally show ?case by (simp add: b)
qed


lemma find_fit_hit:
  assumes "hseg (hdrs h) a ((k, False) # ys) e" "0 < a" "a < 2 ^ 32" "n \<le> k"
  shows "find_fit h (of_nat n) (adr a) = Some (adr a)"
proof -
  note s = block_simps [OF assms(1)]
  have "(of_nat n :: u32) \<le> of_nat k"
    using assms(1,4) by (simp add: word_le_nat_alt unat_of_nat)
  then show ?thesis using assms(2,3) by (subst find_fit.simps) (simp add: s adr_NULL_iff)
qed

lemma first_fit_cases:
  obtains (none) "\<forall>b \<in> set bs. \<not> fits n b"
  | (some) xs k ys where "bs = xs @ (k, False) # ys" "\<forall>b \<in> set xs. \<not> fits n b" "n \<le> k"
proof (cases "\<exists>b \<in> set bs. fits n b")
  case True
  then obtain xs b ys where "bs = xs @ b # ys" "fits n b" "\<forall>b \<in> set xs. \<not> fits n b"
    by (metis split_list_first_prop)
  then show ?thesis using some [of xs "fst b" ys] by (cases b) (auto simp: fits_def)
next
  case False
  then show ?thesis using none by blast
qed

lemma no_adj_append:
  "successively (\<lambda>x y. snd x \<or> snd y) (xs @ ys) \<longleftrightarrow>
     successively (\<lambda>x y. snd x \<or> snd y) xs \<and> successively (\<lambda>x y. snd x \<or> snd y) ys
     \<and> (xs = [] \<or> ys = [] \<or> snd (last xs) \<or> snd (hd ys))"
  by (auto simp: successively_append_iff)

lemma carve_tot: "n \<le> k \<Longrightarrow> tot (carve n k) = 12 + k"
  by (simp add: carve_def)

lemma heap_ok_carve:
  assumes "successively (\<lambda>x y. snd x \<or> snd y) (xs @ (k, False) # ys)"
  shows "successively (\<lambda>x y. snd x \<or> snd y) (xs @ carve n k @ ys)"
  using assms by (cases ys) (auto simp: no_adj_append carve_def)

lemma set_live_carve:
  "set (live a (xs @ carve n k @ ys)) =
     insert (a + tot xs + 12, if n + 20 \<le> k then n else k) (set (live a (xs @ (k, False) # ys)))"
  by (auto simp: carve_def add.assoc)

lemma BLOCK_DATA_adr [simp]: "BLOCK_DATA (adr a) = adr (a + 12)"
  by (simp add: BLOCK_DATA_def sizeof_block_header_def adr_def)

lemma DATA_BLOCK_adr [simp]: "DATA_BLOCK (adr (a + 12)) = adr a"
  by (simp add: DATA_BLOCK_def sizeof_block_header_def adr_def)

lemma heap_ok_frame [simp]:
  "heap_ok start (h\<lparr>free_bytes_remaining := x\<rparr>) bs = heap_ok start h bs"
  "heap_ok start (h\<lparr>min_free_bytes_ever := x\<rparr>) bs = heap_ok start h bs"
  "heap_ok start (h\<lparr>malloc_failed_hook := q\<rparr>) bs = heap_ok start h bs"
  by (simp_all add: heap_ok_def)

lemma os_heap_alloc_hit:
  assumes ok: "heap_ok start h (xs @ (k, False) # ys)"
    and nofit: "\<forall>b \<in> set xs. \<not> fits n b" and fit: "n \<le> k"
    and sz: "sz \<noteq> 0" "unat (ALIGN_UP sz) = n"
  shows "\<exists>h'. os_heap_alloc hook sz h = Some (adr (start + tot xs + 12), h')
     \<and> heap_ok start h' (xs @ carve n k @ ys)
     \<and> free_bytes_remaining h' = free_bytes_remaining h - (if n + 20 \<le> k then of_nat n + 12 else of_nat k)
     \<and> malloc_failed_hook h' = malloc_failed_hook h"
proof -
  let ?b = "start + tot xs"
  from ok have st: "0 < start" "start + 10240 < 2 ^ 32" and tt: "tot xs + 12 + k + tot ys = 10240"
    and hs: "hseg (hdrs h) start xs (adr ?b)" "hseg (hdrs h) ?b ((k, False) # ys) NULL"
    by (auto simp: heap_ok_def)
  note s = block_simps [OF hs(2)]
  have al: "ALIGN_UP sz = of_nat n" by (simp flip: sz(2))
  have lt: "n < 2 ^ 32" using unat_lt_u32 [of "ALIGN_UP sz"] by (simp add: sz(2))
  have k: "k < 2 ^ 31" "of_nat n \<le> (of_nat k :: u32)"
    using hs(2) fit by (auto simp: word_le_nat_alt unat_of_nat)
  have "find_fit h (of_nat n) (adr start) = find_fit h (of_nat n) (adr ?b)"
    using find_fit_skip [OF hs(1) st(1) _ lt nofit] tt st hs by (cases xs) auto
  also have "\<dots> = Some (adr ?b)"
    using find_fit_hit [OF hs(2) _ _ fit] tt st by simp
  finally have ff: "find_fit h (of_nat n) (adr start) = Some (adr ?b)" .
  have nz: "adr ?b \<noteq> 0" using tt st by (simp add: adr_NULL_iff)
  have cond: "(of_nat n + sizeof_block_header + OS_CONFIG_HEAP_ALIGNMENT \<le> (of_nat k :: u32)) = (n + 20 \<le> k)"
    using fit tt by (simp add: word_le_nat_alt sizeof_block_header_def OS_CONFIG_HEAP_ALIGNMENT_def
        unat_word_ariths unat_of_nat) arith
  have init: "heap_initialized h \<noteq> 0" "px_block_list h = adr start" using ok by (auto simp: heap_ok_def)
  show ?thesis
  proof (cases "n + 20 \<le> k")
    case True
    let ?h = "prv_block_set_allocated (adr ?b)
        (upd_hdr (adr ?b) (\<lambda>c. c\<lparr>hdr_size := of_nat n, hdr_next := adr (?b + 12 + n)\<rparr>)
          (upd_hdr (adr (?b + 12 + n)) (\<lambda>c. c\<lparr>hdr_size := of_nat (k - n - 12), hdr_allocated := 0,
             hdr_next := hdr_next (hdrs h (adr ?b))\<rparr>) h))"
    have "hseg (hdrs ?h) start (xs @ carve n k @ ys) NULL"
      using hs True tt st
      by (simp add: carve_def prv_block_set_allocated_def upd_hdr_def hseg_upd_outside adr_eq_iff
          enc_size_def add.assoc)
    then have "heap_ok start ?h (xs @ carve n k @ ys)"
      using ok heap_ok_carve [of xs k ys n] carve_tot [OF fit] init st tt
      by (auto simp: heap_ok_def prv_block_set_allocated_def upd_hdr_def hfirst_def carve_def)
    moreover have d: "(of_nat k :: u32) - of_nat n - sizeof_block_header = of_nat (k - n - 12)"
      using True by (simp add: sizeof_block_header_def)
    moreover have "os_heap_alloc hook sz h = Some (adr (?b + 12),
        let h = ?h\<lparr>free_bytes_remaining := free_bytes_remaining h - (of_nat n + sizeof_block_header)\<rparr>
        in if free_bytes_remaining h < min_free_bytes_ever h
           then h\<lparr>min_free_bytes_ever := free_bytes_remaining h\<rparr> else h)"
      using True nz init sz(1)
      by (simp add: os_heap_alloc_def Let_def al ff s cond adr_add d
          prv_block_set_allocated_def upd_hdr_def)
    ultimately show ?thesis using True
      by (auto simp: Let_def prv_block_set_allocated_def upd_hdr_def sizeof_block_header_def)
  next
    case False
    let ?h = "prv_block_set_allocated (adr ?b) h"
    have "hseg (hdrs ?h) start (xs @ carve n k @ ys) NULL"
      using hs False tt st
      by (simp add: carve_def prv_block_set_allocated_def upd_hdr_def hseg_upd_outside adr_eq_iff
          enc_size_def add.assoc)
    then have "heap_ok start ?h (xs @ carve n k @ ys)"
      using ok heap_ok_carve [of xs k ys n] carve_tot [OF fit] init st tt
      by (auto simp: heap_ok_def prv_block_set_allocated_def upd_hdr_def hfirst_def carve_def)
    moreover have "os_heap_alloc hook sz h = Some (adr (?b + 12),
        let h = ?h\<lparr>free_bytes_remaining := free_bytes_remaining h - of_nat k\<rparr>
        in if free_bytes_remaining h < min_free_bytes_ever h
           then h\<lparr>min_free_bytes_ever := free_bytes_remaining h\<rparr> else h)"
      using False nz init sz(1)
      by (simp add: os_heap_alloc_def Let_def al ff s cond
          prv_block_set_allocated_def upd_hdr_def)
    ultimately show ?thesis using False by (auto simp: Let_def prv_block_set_allocated_def upd_hdr_def)
  qed
qed

fun hlast :: "ptr \<Rightarrow> nat \<Rightarrow> blocks \<Rightarrow> ptr" where
  "hlast p a [] = p"
| "hlast p a ((n, f) # bs) = hlast (adr a) (a + 12 + n) bs"

lemma hlast_snoc [simp]: "hlast p a (xs @ [(n, f)]) = adr (a + tot xs)"
  by (induction p a xs rule: hlast.induct) (auto simp: add.assoc)

lemma unlink_walk:
  assumes "hseg (hdrs h) a xs e" "0 < a" "a + tot xs \<le> b" "b < 2 ^ 32"
  shows "unlink_block (adr b) p (hfirst a xs e) h = unlink_block (adr b) (hlast p a xs) e h"
  using assms
proof (induction xs arbitrary: a p)
  case (Cons x xs)
  obtain n f where x: "x = (n, f)" by force
  have "unlink_block (adr b) p (adr a) h
      = unlink_block (adr b) (adr a) (hfirst (a + 12 + n) xs e) h"
    using Cons.prems by (subst unlink_block.simps) (auto simp: x adr_NULL_iff adr_eq_iff)
  also have "\<dots> = unlink_block (adr b) (hlast (adr a) (a + 12 + n) xs) e h"
    by (rule Cons.IH) (use Cons.prems in \<open>auto simp: x\<close>)
  finally show ?case by (simp add: x)
qed simp

lemma insert_walk:
  assumes "hseg (hdrs h) a xs e" "0 < a" "a + tot xs \<le> b" "b < 2 ^ 32"
  shows "insert_pos h (adr b) p (hfirst a xs e) = insert_pos h (adr b) (hlast p a xs) e"
  using assms
proof (induction xs arbitrary: a p)
  case (Cons x xs)
  obtain n f where x: "x = (n, f)" by force
  have "insert_pos h (adr b) p (adr a) = insert_pos h (adr b) (adr a) (hfirst (a + 12 + n) xs e)"
    using Cons.prems by (subst insert_pos.simps) (auto simp: x adr_NULL_iff adr_less_iff)
  also have "\<dots> = insert_pos h (adr b) (hlast (adr a) (a + 12 + n) xs) e"
    by (rule Cons.IH) (use Cons.prems in \<open>auto simp: x\<close>)
  finally show ?case by (simp add: x)
qed simp

lemma insert_stop:
  "b < e \<Longrightarrow> e < 2 ^ 32 \<Longrightarrow> insert_pos h (adr b) p (hfirst e ys NULL) = Some (p, hfirst e ys NULL)"
  by (subst insert_pos.simps) (auto simp: hfirst_def adr_less_iff)

lemma absorb_fields [simp]:
  "px_block_list (absorb_next b n h) = px_block_list h"
  "heap_initialized (absorb_next b n h) = heap_initialized h"
  "free_bytes_remaining (absorb_next b n h) = free_bytes_remaining h"
  "malloc_failed_hook (absorb_next b n h) = malloc_failed_hook h"
  by (simp_all add: absorb_next_def upd_hdr_def)

lemma mask_of_nat: "n < 2 ^ 31 \<Longrightarrow> (of_nat n :: u32) AND BLOCK_SIZE_MASK = of_nat n"
  using enc_size_size [of n False] by (simp add: enc_size_def)

lemma hseg_absorb:
  assumes "hseg (hdrs h) a (xs @ (m, False) # (n, False) # ys) e"
    and "a + tot xs + 24 + m + n + tot ys \<le> 2 ^ 32" "m + 12 + n < 2 ^ 31"
  shows "hseg (hdrs (absorb_next (adr (a + tot xs)) (adr (a + tot xs + 12 + m)) h)) a
           (xs @ (m + 12 + n, False) # ys) e"
  using assms
  by (simp add: absorb_next_def upd_hdr_def hseg_upd_outside prv_block_get_size_def
      enc_size_size enc_size_def [of _ False] sizeof_block_header_def add.assoc)
     (simp add: mask_of_nat)

lemma merge_next_cases:
  obtains (free) m zs where "ys = (m, False) # zs" "merge_next n ys = (n + 12 + m, False) # zs"
  | (stop) "merge_next n ys = (n, False) # ys" "ys = [] \<or> (\<exists>m zs. ys = (m, True) # zs)"
  by (cases "(n, ys)" rule: merge_next.cases) auto

lemma coalesce_with_next_hseg:
  assumes hs: "hseg (hdrs h) a (zs @ (k, False) # ys) NULL"
    and b: "0 < a" "a + tot zs + 12 + k + tot ys < 2 ^ 32" "12 + k + tot ys < 2 ^ 31"
  shows "hseg (hdrs (coalesce_with_next (adr (a + tot zs)) h)) a (zs @ merge_next k ys) NULL"
proof -
  from hs have "hseg (hdrs h) (a + tot zs) ((k, False) # ys) NULL" by simp
  note s = block_simps [OF this]
  show ?thesis
  proof (cases rule: merge_next_cases [of ys k])
    case (free m ys')
    from hs free have "hseg (hdrs h) (a + tot zs + 12 + k) ((m, False) # ys') NULL"
      by (simp add: add.assoc)
    note s' = block_simps [OF this]
    have "coalesce_with_next (adr (a + tot zs)) h
        = absorb_next (adr (a + tot zs)) (adr (a + tot zs + 12 + k)) h"
      using b by (simp add: coalesce_with_next_def s s' free adr_add adr_NULL_iff)
    then show ?thesis using hseg_absorb [of h a zs k m ys' NULL] hs free b by simp
  next
    case stop
    then have "coalesce_with_next (adr (a + tot zs)) h = h"
    proof (elim disjE exE)
      assume "ys = []" then show ?thesis by (simp add: coalesce_with_next_def s)
    next
      fix m ys' assume y: "ys = (m, True) # ys'"
      from hs y have "hseg (hdrs h) (a + tot zs + 12 + k) ((m, True) # ys') NULL"
        by (simp add: add.assoc)
      note s' = block_simps [OF this]
      show ?thesis by (simp add: coalesce_with_next_def s s' y)
    qed
    then show ?thesis using hs stop by simp
  qed
qed


text \<open>\<open>os_heap_free\<close> takes the block out of the list and links it back at the same place, marked free.\<close>

lemma relink:
  assumes ok: "heap_ok start h (xs @ (n, True) # ys)"
    and h1: "h1 = prv_block_set_free (adr (start + tot xs)) h"
  shows "\<exists>h2 h3. unlink_block (adr (start + tot xs)) NULL (px_block_list h1) h1 = Some h2
     \<and> insert_pos h2 (adr (start + tot xs)) NULL (px_block_list h2)
         = Some (hlast NULL start xs, hfirst (start + tot xs + 12 + n) ys NULL)
     \<and> h3 = (let h = upd_hdr (adr (start + tot xs)) (\<lambda>c. c\<lparr>hdr_next := hfirst (start + tot xs + 12 + n) ys NULL\<rparr>) h2
             in if xs \<noteq> [] then upd_hdr (hlast NULL start xs) (\<lambda>c. c\<lparr>hdr_next := adr (start + tot xs)\<rparr>) h
                else h\<lparr>px_block_list := adr (start + tot xs)\<rparr>)
     \<and> hseg (hdrs h3) start (xs @ (n, False) # ys) NULL \<and> px_block_list h3 = adr start
     \<and> heap_initialized h3 = heap_initialized h \<and> free_bytes_remaining h3 = free_bytes_remaining h
     \<and> malloc_failed_hook h3 = malloc_failed_hook h"
proof -
  let ?b = "start + tot xs" and ?e = "start + tot xs + 12 + n"
  from ok have st: "0 < start" "start + 10240 < 2 ^ 32" and tt: "tot xs + 12 + n + tot ys = 10240"
    and hs: "hseg (hdrs h) start xs (adr ?b)" "hseg (hdrs h) ?b ((n, True) # ys) NULL"
    and px: "px_block_list h = adr start" "heap_initialized h \<noteq> 0"
    by (auto simp: heap_ok_def)
  have h1s: "hseg (hdrs h1) start xs (adr ?b)" "hseg (hdrs h1) ?b ((n, False) # ys) NULL"
    and h1f: "px_block_list h1 = adr start" "heap_initialized h1 = heap_initialized h"
      "free_bytes_remaining h1 = free_bytes_remaining h" "malloc_failed_hook h1 = malloc_failed_hook h"
    using hs st tt px by (auto simp: h1 prv_block_set_free_def upd_hdr_def hseg_upd_outside
        enc_size_size enc_size_def [of _ False])
  have nz: "adr ?b \<noteq> 0" using st tt by (simp add: adr_NULL_iff)
  have px1: "px_block_list h1 = hfirst start xs (adr ?b)"
    using h1f by (cases xs) auto
  have ul: "unlink_block (adr ?b) NULL (px_block_list h1) h1
      = unlink_block (adr ?b) (hlast NULL start xs) (adr ?b) h1"
    unfolding px1 by (rule unlink_walk) (use h1s st tt in auto)
  show ?thesis
  proof (cases xs rule: rev_cases)
    case Nil
    let ?h2 = "h1\<lparr>px_block_list := hfirst ?e ys NULL\<rparr>"
    have "unlink_block (adr ?b) NULL (px_block_list h1) h1 = Some ?h2"
      unfolding ul using nz h1s(2) by (subst unlink_block.simps) (simp add: Nil)
    moreover have "insert_pos ?h2 (adr ?b) NULL (px_block_list ?h2) = Some (NULL, hfirst ?e ys NULL)"
      using insert_stop [of ?b ?e ?h2 NULL ys] st tt by simp
    ultimately show ?thesis
      using h1s h1f st tt
      by (simp add: Nil Let_def upd_hdr_def hseg_upd_outside)
  next
    case (snoc zs z)
    obtain m f where z: "z = (m, f)" by force
    let ?p = "start + tot zs"
    let ?h2 = "upd_hdr (adr ?p) (\<lambda>c. c\<lparr>hdr_next := hfirst ?e ys NULL\<rparr>) h1"
    have pz: "adr ?p \<noteq> 0" using st tt by (simp add: snoc z adr_NULL_iff)
    have "unlink_block (adr ?b) NULL (px_block_list h1) h1 = Some ?h2"
      unfolding ul using nz pz h1s(2) by (subst unlink_block.simps) (simp add: snoc z)
    moreover have h2: "hseg (hdrs ?h2) start xs (hfirst ?e ys NULL)" "hseg (hdrs ?h2) ?e ys NULL"
      using h1s st tt by (auto simp: snoc z upd_hdr_def hseg_upd_outside add.assoc)
    have "insert_pos ?h2 (adr ?b) NULL (px_block_list ?h2)
        = insert_pos ?h2 (adr ?b) (hlast NULL start xs) (hfirst ?e ys NULL)"
      using insert_walk [OF h2(1), of ?b NULL] st tt h1f by (simp add: snoc z upd_hdr_def hfirst_def)
    then have "insert_pos ?h2 (adr ?b) NULL (px_block_list ?h2)
        = Some (hlast NULL start xs, hfirst ?e ys NULL)"
      using insert_stop [of ?b ?e ?h2 _ ys] st tt by simp
    ultimately show ?thesis
      using h1s h1f st tt
      by (simp add: snoc z Let_def upd_hdr_def hseg_upd_outside adr_eq_iff add.assoc)
  qed
qed

lemma coalesce_with_next_fields [simp]:
  "px_block_list (coalesce_with_next b h) = px_block_list h"
  "heap_initialized (coalesce_with_next b h) = heap_initialized h"
  "free_bytes_remaining (coalesce_with_next b h) = free_bytes_remaining h"
  "malloc_failed_hook (coalesce_with_next b h) = malloc_failed_hook h"
  by (simp_all add: coalesce_with_next_def Let_def)

lemma merge_next_tot [simp]: "tot (merge_next n ys) = 12 + n + tot ys"
  by (cases "(n, ys)" rule: merge_next.cases) auto

lemma live_merge_next [simp]: "live a (merge_next n ys) = live (a + 12 + n) ys"
  by (cases "(n, ys)" rule: merge_next.cases) (auto simp: add.assoc)

lemma coalesce_tot: "tot (coalesce xs n ys) = tot xs + 12 + n + tot ys"
  by (cases xs rule: rev_cases) (auto simp: coalesce_def)

lemma live_coalesce: "live a (coalesce xs n ys) = live a xs @ live (a + tot xs + 12 + n) ys"
  by (cases xs rule: rev_cases) (auto simp: coalesce_def add.assoc)

lemma no_adj_merge_next:
  "successively (\<lambda>x y. snd x \<or> snd y) ((n, True) # ys) \<Longrightarrow>
     successively (\<lambda>x y. snd x \<or> snd y) (merge_next k ys)"
  by (cases "(k, ys)" rule: merge_next.cases) (auto simp: successively_Cons)

lemma merge_next_hd: "merge_next k ys \<noteq> []" "\<not> snd (hd (merge_next k ys))"
  by (cases "(k, ys)" rule: merge_next.cases; simp)+

lemma coalesce_no_adj:
  assumes "successively (\<lambda>x y. snd x \<or> snd y) (xs @ (n, True) # ys)"
  shows "successively (\<lambda>x y. snd x \<or> snd y) (coalesce xs n ys)"
proof (cases xs rule: rev_cases)
  case Nil
  then show ?thesis using assms no_adj_merge_next by (auto simp: coalesce_def)
next
  case (snoc zs z)
  then have "zs = [] \<or> snd (last zs) \<or> snd z"
    and zs: "successively (\<lambda>x y. snd x \<or> snd y) zs" "successively (\<lambda>x y. snd x \<or> snd y) ((n, True) # ys)"
    using assms by (auto simp: no_adj_append)
  then show ?thesis
    using snoc no_adj_merge_next [OF zs(2)] merge_next_hd
    by (auto simp: coalesce_def no_adj_append successively_Cons)
qed

lemma os_heap_free_live:
  assumes ok: "heap_ok start h (xs @ (n, True) # ys)"
  shows "\<exists>h'. os_heap_free (adr (start + tot xs + 12)) h = Some h'
     \<and> heap_ok start h' (coalesce xs n ys)
     \<and> free_bytes_remaining h' = free_bytes_remaining h + of_nat n
     \<and> malloc_failed_hook h' = malloc_failed_hook h"
proof -
  let ?b = "start + tot xs"
  let ?h0 = "h\<lparr>free_bytes_remaining := free_bytes_remaining h + of_nat n\<rparr>"
  from ok have st: "0 < start" "start + 10240 < 2 ^ 32" and tt: "tot xs + 12 + n + tot ys = 10240"
    and hs: "hseg (hdrs h) ?b ((n, True) # ys) NULL" "heap_initialized h \<noteq> 0"
    and adj: "successively (\<lambda>x y. snd x \<or> snd y) (xs @ (n, True) # ys)"
    by (auto simp: heap_ok_def)
  note s = block_simps [OF hs(1)]
  have ok0: "heap_ok start ?h0 (xs @ (n, True) # ys)" using ok by simp
  obtain h2 h3 where
    ul: "unlink_block (adr ?b) NULL (px_block_list (prv_block_set_free (adr ?b) ?h0))
           (prv_block_set_free (adr ?b) ?h0) = Some h2"
    and ip: "insert_pos h2 (adr ?b) NULL (px_block_list h2)
         = Some (hlast NULL start xs, hfirst (?b + 12 + n) ys NULL)"
    and h3: "h3 = (let h = upd_hdr (adr ?b) (\<lambda>c. c\<lparr>hdr_next := hfirst (?b + 12 + n) ys NULL\<rparr>) h2
             in if xs \<noteq> [] then upd_hdr (hlast NULL start xs) (\<lambda>c. c\<lparr>hdr_next := adr ?b\<rparr>) h
                else h\<lparr>px_block_list := adr ?b\<rparr>)"
    and seg: "hseg (hdrs h3) start (xs @ (n, False) # ys) NULL" and px3: "px_block_list h3 = adr start"
    and f3: "heap_initialized h3 = heap_initialized h"
      "free_bytes_remaining h3 = free_bytes_remaining h + of_nat n"
      "malloc_failed_hook h3 = malloc_failed_hook h"
    using relink [OF ok0 refl] by auto
  have nz: "adr (?b + 12) \<noteq> NULL" using st tt by (simp add: adr_NULL_iff)
  have prevnz: "(hlast NULL start xs = NULL) = (xs = [])"
    using st tt by (cases xs rule: rev_cases) (auto simp: adr_NULL_iff)
  let ?merge = "xs \<noteq> [] \<and> BLOCK_DATA (hlast NULL start xs)
       + prv_block_get_size (hlast NULL start xs) h3 = adr ?b
       \<and> \<not> prv_block_is_allocated (hlast NULL start xs) h3"
  have run: "os_heap_free (adr (?b + 12)) h =
      Some (if ?merge then coalesce_with_next (hlast NULL start xs) (absorb_next (hlast NULL start xs) (adr ?b) h3)
            else coalesce_with_next (adr ?b) h3)"
    using nz hs(2)
    by (auto simp: os_heap_free_def Let_def s ul prv_insert_block_def ip h3 prevnz)
  show ?thesis
  proof (cases "xs \<noteq> [] \<and> \<not> snd (last xs)")
    case True
    then obtain zs m where xs: "xs = zs @ [(m, False)]"
      by (metis append_butlast_last_id prod.collapse)
    from seg have "hseg (hdrs h3) (start + tot zs) ((m, False) # (n, False) # ys) NULL"
      by (simp add: xs add.assoc)
    note sp = block_simps [OF this]
    have m: ?merge using sp by (simp add: xs adr_add add.assoc)
    let ?h4 = "absorb_next (adr (start + tot zs)) (adr ?b) h3"
    have "hseg (hdrs ?h4) start (zs @ (m + 12 + n, False) # ys) NULL"
      using hseg_absorb [of h3 start zs m n ys NULL] seg st tt by (simp add: xs add.assoc)
    then have "hseg (hdrs (coalesce_with_next (adr (start + tot zs)) ?h4)) start
        (zs @ merge_next (m + 12 + n) ys) NULL"
      by (rule coalesce_with_next_hseg) (use st tt in \<open>auto simp: xs\<close>)
    then show ?thesis
      using run m coalesce_no_adj [OF adj] coalesce_tot [of xs n ys] st tt hs(2) px3 f3
      by (simp add: heap_ok_def coalesce_def xs)
  next
    case False
    have m: "\<not> ?merge"
    proof (cases xs rule: rev_cases)
      case (snoc zs z)
      then obtain mm where z: "z = (mm, True)" using False by (cases z) auto
      from seg have "hseg (hdrs h3) (start + tot zs) ((mm, True) # (n, False) # ys) NULL"
        by (simp add: snoc z add.assoc)
      from block_simps(2) [OF this] show ?thesis by (simp add: snoc z)
    qed simp
    have "hseg (hdrs (coalesce_with_next (adr ?b) h3)) start (xs @ merge_next n ys) NULL"
      by (rule coalesce_with_next_hseg) (use seg st tt in auto)
    then show ?thesis
      using run m coalesce_no_adj [OF adj] coalesce_tot [of xs n ys] st tt hs(2) px3 f3 False
      by (auto simp: heap_ok_def coalesce_def)
  qed
qed

lemma os_heap_alloc_miss:
  assumes ok: "heap_ok start h bs" and nofit: "\<forall>b \<in> set bs. \<not> fits (unat (ALIGN_UP sz)) b"
    and sz: "sz \<noteq> 0"
  shows "os_heap_alloc hook sz h =
     Some (NULL, if malloc_failed_hook h \<noteq> NULL then hook (malloc_failed_hook h) (ALIGN_UP sz) h else h)"
proof -
  from ok have st: "0 < start" "start + tot bs < 2 ^ 32" "hseg (hdrs h) start bs NULL"
    and px: "px_block_list h = hfirst start bs NULL" "heap_initialized h \<noteq> 0"
    by (auto simp: heap_ok_def hfirst_def)
  have "find_fit h (of_nat (unat (ALIGN_UP sz))) (px_block_list h)
      = find_fit h (of_nat (unat (ALIGN_UP sz))) NULL"
    unfolding px(1) by (rule find_fit_skip) (use st nofit unat_lt_u32 in auto)
  also have "\<dots> = Some NULL" by (subst find_fit.simps) simp
  finally show ?thesis using sz px(2) by (simp add: os_heap_alloc_def Let_def)
qed

lemma live_disjoint:
  assumes "(p, n) \<in> set (live a bs)" "(q, m) \<in> set (live a bs)" "p \<noteq> q"
  shows "p + n + 12 \<le> q \<or> q + m + 12 \<le> p"
  using assms
proof (induction a bs rule: live.induct)
  case (2 a k f bs)
  from "2.prems" show ?case
    using "2.IH"(1) "2.IH"(2) live_bounds [of p n "a + 12 + k" bs] live_bounds [of q m "a + 12 + k" bs]
    by (auto split: if_splits)
qed simp

definition heap_rep :: "nat \<Rightarrow> heap4 \<Rightarrow> (nat \<times> nat) set \<Rightarrow> bool" where
  "heap_rep start h L \<longleftrightarrow> (\<exists>bs. heap_ok start h bs \<and> L = set (live start bs))"

lemma heap_rep_bounds:
  "heap_rep start h L \<Longrightarrow> (p, n) \<in> L \<Longrightarrow> start + 12 \<le> p \<and> p + n \<le> start + 10240"
  using live_bounds [of p n start] by (fastforce simp: heap_rep_def heap_ok_def)

lemma heap_rep_disjoint:
  "heap_rep start h L \<Longrightarrow> (p, n) \<in> L \<Longrightarrow> (q, m) \<in> L \<Longrightarrow> p \<noteq> q \<Longrightarrow> p + n \<le> q \<or> q + m \<le> p"
  using live_disjoint by (fastforce simp: heap_rep_def)

lemma live_split:
  assumes "(p, n) \<in> set (live a bs)"
  obtains xs ys where "bs = xs @ (n, True) # ys" "p = a + tot xs + 12"
  using assms
proof (induction a bs arbitrary: thesis rule: live.induct)
  case (2 a k f bs)
  show ?case
  proof (cases "f \<and> p = a + 12 \<and> n = k")
    case True
    then show ?thesis using "2.prems"(1) [of "[]" bs] by simp
  next
    case False
    then have mem: "(p, n) \<in> set (live (a + 12 + k) bs)" using "2.prems"(2) by (auto split: if_splits)
    obtain xs ys where "bs = xs @ (n, True) # ys" "p = a + 12 + k + tot xs + 12"
      using "2.IH" mem by blast
    then show ?thesis using "2.prems"(1) [of "(k, f) # xs" ys] by simp
  qed
qed simp

lemma heap_rep_alloc:
  assumes "heap_rep start h L" "sz \<noteq> 0" "unat sz + 8 \<le> 2 ^ 32"
  shows "(\<exists>h'. os_heap_alloc hook sz h = Some (NULL, h') \<and> (malloc_failed_hook h = NULL \<longrightarrow> h' = h))
    \<or> (\<exists>p n h'. os_heap_alloc hook sz h = Some (adr p, h') \<and> adr p \<noteq> NULL \<and> unat sz \<le> n
         \<and> (\<forall>m. (p, m) \<notin> L) \<and> heap_rep start h' (insert (p, n) L)
         \<and> malloc_failed_hook h' = malloc_failed_hook h)"
proof -
  from assms(1) obtain bs where ok: "heap_ok start h bs" and L: "L = set (live start bs)"
    by (auto simp: heap_rep_def)
  let ?n = "unat (ALIGN_UP sz)"
  have n: "unat sz \<le> ?n" using ALIGN_UP_unat [OF assms(3)] by simp
  show ?thesis
  proof (cases rule: first_fit_cases [of bs ?n])
    case none
    then show ?thesis using os_heap_alloc_miss [OF ok none assms(2)] by auto
  next
    case (some xs k ys)
    obtain h' where run: "os_heap_alloc hook sz h = Some (adr (start + tot xs + 12), h')"
      and ok': "heap_ok start h' (xs @ carve ?n k @ ys)"
      and hk: "malloc_failed_hook h' = malloc_failed_hook h"
      using os_heap_alloc_hit [OF ok [unfolded some(1)] some(2,3) assms(2) refl] by blast
    let ?k = "if ?n + 20 \<le> k then ?n else k"
    have "heap_rep start h' (insert (start + tot xs + 12, ?k) L)"
      unfolding heap_rep_def L using ok' set_live_carve [of start xs ?n k ys] some(1) by auto
    moreover have "(start + tot xs + 12, m) \<notin> L" for m
      unfolding L some(1) using live_bounds [of _ m start xs] live_bounds [of _ m _ ys] by fastforce
    moreover have "adr (start + tot xs + 12) \<noteq> NULL"
      using ok some(1) by (auto simp: heap_ok_def adr_NULL_iff)
    moreover have "unat sz \<le> ?k" using n some(3) by simp
    ultimately show ?thesis using run hk by blast
  qed
qed

lemma heap_rep_free:
  assumes "heap_rep start h L" "(p, n) \<in> L"
  shows "\<exists>h'. os_heap_free (adr p) h = Some h' \<and> heap_rep start h' (L - {(p, n)})
     \<and> free_bytes_remaining h' = free_bytes_remaining h + of_nat n"
proof -
  from assms obtain bs where ok: "heap_ok start h bs" and L: "L = set (live start bs)"
    by (auto simp: heap_rep_def)
  from assms(2) obtain xs ys where bs: "bs = xs @ (n, True) # ys" and p: "p = start + tot xs + 12"
    unfolding L by (rule live_split)
  obtain h' where run: "os_heap_free (adr p) h = Some h'" and ok': "heap_ok start h' (coalesce xs n ys)"
    and fb: "free_bytes_remaining h' = free_bytes_remaining h + of_nat n"
    using os_heap_free_live [OF ok [unfolded bs]] p by blast
  have "set (live start (coalesce xs n ys)) = L - {(p, n)}"
    unfolding live_coalesce L bs using p live_bounds [of p n start xs] live_bounds [of p n "start + tot xs + 12 + n" ys]
    by (auto simp: add.assoc)
  then show ?thesis using run ok' fb by (auto simp: heap_rep_def)
qed

section \<open>The allocator interface\<close>

text \<open>
  What the clients of the allocator (task creation, queue creation) rely on: live data areas
  are inside the heap and disjoint, an allocation adds one, a free removes it.
\<close>

locale block_allocator =
  fixes alloc :: "u32 \<Rightarrow> 'h \<Rightarrow> (ptr \<times> 'h) option"
    and dealloc :: "ptr \<Rightarrow> 'h \<Rightarrow> 'h option"
    and rep :: "'h \<Rightarrow> (nat \<times> nat) set \<Rightarrow> bool"
    and lo :: nat and hi :: nat
  assumes rep_bounds: "rep h L \<Longrightarrow> (p, n) \<in> L \<Longrightarrow> lo \<le> p \<and> p + n \<le> hi"
    and rep_disjoint: "rep h L \<Longrightarrow> (p, n) \<in> L \<Longrightarrow> (q, m) \<in> L \<Longrightarrow> p \<noteq> q \<Longrightarrow> p + n \<le> q \<or> q + m \<le> p"
    and alloc_law: "rep h L \<Longrightarrow> sz \<noteq> 0 \<Longrightarrow> unat sz + 8 \<le> 2 ^ 32 \<Longrightarrow>
        (\<exists>h'. alloc sz h = Some (NULL, h'))
        \<or> (\<exists>p n h'. alloc sz h = Some (adr p, h') \<and> adr p \<noteq> NULL \<and> unat sz \<le> n
             \<and> (\<forall>m. (p, m) \<notin> L) \<and> rep h' (insert (p, n) L))"
    and dealloc_law: "rep h L \<Longrightarrow> (p, n) \<in> L \<Longrightarrow> \<exists>h'. dealloc (adr p) h = Some h' \<and> rep h' (L - {(p, n)})"
begin

lemma alloc_returns: "rep h L \<Longrightarrow> sz \<noteq> 0 \<Longrightarrow> unat sz + 8 \<le> 2 ^ 32 \<Longrightarrow> alloc sz h \<noteq> None"
  using alloc_law by fastforce

lemma alloc_region:
  assumes "rep h L" "sz \<noteq> 0" "unat sz + 8 \<le> 2 ^ 32" "alloc sz h = Some (p, h')" "p \<noteq> NULL"
  shows "\<exists>a n. p = adr a \<and> unat sz \<le> n \<and> lo \<le> a \<and> a + n \<le> hi \<and> rep h' (insert (a, n) L)
     \<and> (a, n) \<notin> L \<and> (\<forall>(q, m) \<in> L. a + n \<le> q \<or> q + m \<le> a)"
proof -
  from alloc_law [OF assms(1-3)] assms(4,5) obtain a n where a: "p = adr a" "unat sz \<le> n"
    "\<forall>m. (a, m) \<notin> L" "rep h' (insert (a, n) L)" by auto
  have "a + n \<le> q \<or> q + m \<le> a" if "(q, m) \<in> L" for q m
    using rep_disjoint [OF a(4), of a n q m] that a(3) by auto
  with a rep_bounds [OF a(4), of a n] show ?thesis by blast
qed

lemma alloc_dealloc:
  assumes "rep h L" "sz \<noteq> 0" "unat sz + 8 \<le> 2 ^ 32" "alloc sz h = Some (p, h')" "p \<noteq> NULL"
  shows "\<exists>h''. dealloc p h' = Some h'' \<and> rep h'' L"
proof -
  obtain a n where a: "p = adr a" "rep h' (insert (a, n) L)" "(a, n) \<notin> L"
    using alloc_region [OF assms] by blast
  from dealloc_law [OF a(2), of a n] a(3) show ?thesis by (simp add: a(1))
qed

end

interpretation heap4: block_allocator "os_heap_alloc hook" os_heap_free "heap_rep start"
    "start + 12" "start + 10240" for hook start
proof
  fix h L and sz :: u32 assume "heap_rep start h L" "sz \<noteq> 0" "unat sz + 8 \<le> 2 ^ 32"
  from heap_rep_alloc [OF this, of hook]
  show "(\<exists>h'. os_heap_alloc hook sz h = Some (NULL, h'))
        \<or> (\<exists>p n h'. os_heap_alloc hook sz h = Some (adr p, h') \<and> adr p \<noteq> NULL \<and> unat sz \<le> n
             \<and> (\<forall>m. (p, m) \<notin> L) \<and> heap_rep start h' (insert (p, n) L))" by blast
qed (use heap_rep_bounds heap_rep_disjoint heap_rep_free in blast)+

lemma heap_ok_init:
  assumes "0 < unat uc" "unat uc + 10256 < 2 ^ 32"
  shows "heap_ok (unat (ALIGN_UP uc)) (os_heap_init uc h) [(10228, False)]"
proof -
  have u: "unat (ALIGN_UP uc) = (unat uc + 7) div 8 * 8" using assms by (simp add: ALIGN_UP_unat)
  have "0 < (unat uc + 7) div 8 * 8" "(unat uc + 7) div 8 * 8 \<le> unat uc + 7" using assms by auto
  then show ?thesis
    using assms by (simp add: heap_ok_def os_heap_init_def Let_def upd_hdr_def adr_def u [symmetric]
        OS_CONFIG_HEAP_SIZE_def sizeof_block_header_def enc_size_def)
qed

lemma alloc_free_blocks:
  assumes ok: "heap_ok start h bs" and sz: "sz \<noteq> 0"
    and run: "os_heap_alloc hook sz h = Some (p, h')" "p \<noteq> NULL"
  shows "\<exists>h'' k. os_heap_free p h' = Some h'' \<and> heap_ok start h'' bs \<and> (k, False) \<in> set bs
    \<and> free_bytes_remaining h'' = free_bytes_remaining h - (if unat (ALIGN_UP sz) + 20 \<le> k then 12 else 0)"
proof (cases rule: first_fit_cases [of bs "unat (ALIGN_UP sz)"])
  case none
  then show ?thesis using os_heap_alloc_miss [OF ok none sz] run by simp
next
  case (some xs k ys)
  let ?n = "unat (ALIGN_UP sz)"
  let ?k = "if ?n + 20 \<le> k then ?n else k"
  let ?ys = "if ?n + 20 \<le> k then (k - ?n - 12, False) # ys else ys"
  have c: "carve ?n k @ ys = (?k, True) # ?ys" by (simp add: carve_def)
  have p: "p = adr (start + tot xs + 12)" and ok': "heap_ok start h' (xs @ (?k, True) # ?ys)"
    and fb: "free_bytes_remaining h' = free_bytes_remaining h - (if ?n + 20 \<le> k then of_nat ?n + 12 else of_nat k)"
    using os_heap_alloc_hit [OF ok [unfolded some(1)] some(2,3) sz refl, of hook] run c by auto
  obtain h'' where h'': "os_heap_free p h' = Some h''" "heap_ok start h'' (coalesce xs ?k ?ys)"
    "free_bytes_remaining h'' = free_bytes_remaining h' + of_nat ?k"
    using os_heap_free_live [OF ok'] p by blast
  have adj: "xs = [] \<or> snd (last xs)" "ys = [] \<or> snd (hd ys)"
    using ok by (auto simp: heap_ok_def some(1) no_adj_append successively_Cons)
  then have "merge_next k ys = (k, False) # ys"
    by (cases "(k, ys)" rule: merge_next.cases) auto
  with adj have "coalesce xs ?k ?ys = bs"
    using some(3) by (auto simp: coalesce_def some(1))
  moreover have "free_bytes_remaining h'' = free_bytes_remaining h - (if ?n + 20 \<le> k then 12 else 0)"
    using h''(3) fb by (simp split: if_splits)
  ultimately show ?thesis using h''(1,2) some(1) by auto
qed

definition zero_heap :: heap4 where
  "zero_heap = \<lparr>hdrs = (\<lambda>_. \<lparr>hdr_next = 0, hdr_size = 0, hdr_allocated = 0\<rparr>), px_block_list = 0,
     free_bytes_remaining = 0, min_free_bytes_ever = 0, heap_initialized = 0, malloc_failed_hook = 0\<rparr>"

definition no_hook :: malloc_hook where "no_hook p n h = h"

definition boot_heap :: heap4 where "boot_heap = os_heap_init 0x20000000 zero_heap"

lemma boot_heap_ok: "heap_ok 0x20000000 boot_heap [(10228, False)]"
  using heap_ok_init [of "0x20000000" zero_heap]
  by (simp add: boot_heap_def ALIGN_UP_def OS_CONFIG_HEAP_ALIGNMENT_def)

lemma alloc_first_fit:
  assumes "heap_ok start h bs" "sz \<noteq> 0" "unat sz + 8 \<le> 2 ^ 32"
    and "\<exists>b \<in> set bs. fits ((unat sz + 7) div 8 * 8) b"
  shows "\<exists>p n h' bs'. os_heap_alloc hook sz h = Some (adr p, h') \<and> heap_ok start h' bs'
           \<and> unat sz \<le> n \<and> start + 12 \<le> p \<and> p + n \<le> start + 10240
           \<and> set (live start bs') = insert (p, n) (set (live start bs))
           \<and> (\<forall>(q, m) \<in> set (live start bs). p + n \<le> q \<or> q + m \<le> p)"
proof -
  note al = ALIGN_UP_unat [OF assms(3)]
  show ?thesis
  proof (cases rule: first_fit_cases [of bs "unat (ALIGN_UP sz)"])
    case none
    then show ?thesis using assms(4) by (auto simp: al)
  next
    case (some xs k ys)
    let ?n = "unat (ALIGN_UP sz)" and ?p = "start + tot xs + 12"
    let ?k = "if ?n + 20 \<le> k then ?n else k"
    obtain h' where h': "os_heap_alloc hook sz h = Some (adr ?p, h')"
      "heap_ok start h' (xs @ carve ?n k @ ys)"
      using os_heap_alloc_hit [OF assms(1) [unfolded some(1)] some(2,3) assms(2) refl] by blast
    note L = set_live_carve [of start xs ?n k ys]
    have "(?p, ?k) \<in> set (live start (xs @ carve ?n k @ ys))" by (simp only: L) simp
    then have "start + 12 \<le> ?p" "?p + ?k \<le> start + 10240"
      using live_bounds h'(2) by (fastforce simp: heap_ok_def)+
    moreover have "?p + ?k \<le> q \<or> q + m \<le> ?p" if "(q, m) \<in> set (live start bs)" for q m
      using that live_bounds [of q m start xs] live_bounds [of q m "?p + k" ys] some(1,3)
      by (auto simp: add.assoc)
    moreover have "unat sz \<le> ?k" using al some(3) by auto
    moreover have "set (live start (xs @ carve ?n k @ ys)) = insert (?p, ?k) (set (live start bs))"
      by (simp only: L some(1))
    ultimately show ?thesis using h' by blast
  qed
qed

text \<open>
  C12. \<open>os_heap_alloc\<close> returns on every well-formed heap: with a data area of at least the
  requested size, inside the heap and disjoint from every live area, leaving the heap well-formed
  with exactly that area added, if some free block is big enough; and with the null pointer, after
  the malloc-failed hook and nothing else, if none is.
\<close>

theorem os_heap_alloc_correct:
  assumes "heap_ok start h bs" "sz \<noteq> 0" "unat sz + 8 \<le> 2 ^ 32"
  shows "if \<exists>b \<in> set bs. fits ((unat sz + 7) div 8 * 8) b
    then \<exists>p n h' bs'. os_heap_alloc hook sz h = Some (adr p, h') \<and> heap_ok start h' bs'
           \<and> unat sz \<le> n \<and> start + 12 \<le> p \<and> p + n \<le> start + 10240
           \<and> set (live start bs') = insert (p, n) (set (live start bs))
           \<and> (\<forall>(q, m) \<in> set (live start bs). p + n \<le> q \<or> q + m \<le> p)
    else os_heap_alloc hook sz h
           = Some (NULL, if malloc_failed_hook h \<noteq> NULL
                         then hook (malloc_failed_hook h) (ALIGN_UP sz) h else h)"
  using alloc_first_fit [OF assms] os_heap_alloc_miss [OF assms(1) _ assms(2)] ALIGN_UP_unat [OF assms(3)]
  by simp

theorem os_heap_alloc_correct_witness:
  "\<exists>p n h' bs'. os_heap_alloc no_hook 100 boot_heap = Some (adr p, h') \<and> heap_ok 0x20000000 h' bs'
           \<and> 100 \<le> n \<and> 0x20000000 + 12 \<le> p \<and> p + n \<le> 0x20000000 + 10240"
  using os_heap_alloc_correct [OF boot_heap_ok, of 100 no_hook] by (simp add: fits_def) blast

text \<open>
  C13. \<open>os_heap_free\<close> of a live data area returns, leaves a well-formed heap (the blocks tile it, no
  two free blocks adjacent) in which exactly that area is gone, and credits its size to the free
  counter.
\<close>

theorem os_heap_free_correct:
  assumes "heap_ok start h bs" "(p, n) \<in> set (live start bs)"
  shows "\<exists>h' bs'. os_heap_free (adr p) h = Some h' \<and> heap_ok start h' bs'
    \<and> set (live start bs') = set (live start bs) - {(p, n)}
    \<and> free_bytes_remaining h' = free_bytes_remaining h + of_nat n"
  using heap_rep_free [of start h "set (live start bs)" p n] assms by (auto simp: heap_rep_def)

lemma boot_alloc:
  "\<exists>h. os_heap_alloc no_hook 100 boot_heap = Some (adr (0x20000000 + 12), h)
     \<and> heap_ok 0x20000000 h [(104, True), (10112, False)]"
proof -
  have "unat (ALIGN_UP 100) = 104" by (simp add: ALIGN_UP_unat)
  then show ?thesis
    using os_heap_alloc_hit [of "0x20000000" boot_heap "[]" 10228 "[]" 104 100 no_hook] boot_heap_ok
    by (auto simp: carve_def)
qed

theorem os_heap_free_correct_witness:
  "\<exists>h h' bs'. os_heap_alloc no_hook 100 boot_heap = Some (adr (0x20000000 + 12), h)
     \<and> os_heap_free (adr (0x20000000 + 12)) h = Some h' \<and> heap_ok 0x20000000 h' bs'
     \<and> set (live 0x20000000 bs') = {} \<and> free_bytes_remaining h' = free_bytes_remaining h + 104"
proof -
  obtain h where h: "os_heap_alloc no_hook 100 boot_heap = Some (adr (0x20000000 + 12), h)"
    "heap_ok 0x20000000 h [(104, True), (10112, False)]" using boot_alloc by blast
  show ?thesis using os_heap_free_correct [OF h(2), of "0x20000000 + 12" 104] h(1) by simp
qed

text \<open>
  Freeing what was just allocated gives back the same sequence of blocks. The free-byte counter
  is not restored when the block had been split: the 12 bytes of the header made by the split stay
  charged, so \<open>os_heap_get_free_size\<close> drifts down.
\<close>

theorem os_heap_alloc_free_roundtrip:
  assumes "heap_ok start h bs" "sz \<noteq> 0" "os_heap_alloc hook sz h = Some (p, h')" "p \<noteq> NULL"
  shows "\<exists>h'' k. os_heap_free p h' = Some h'' \<and> heap_ok start h'' bs \<and> (k, False) \<in> set bs
    \<and> os_heap_get_free_size h''
        = os_heap_get_free_size h - (if unat (ALIGN_UP sz) + 20 \<le> k then 12 else 0)"
  using alloc_free_blocks [OF assms] by (simp add: os_heap_get_free_size_def)

theorem os_heap_alloc_free_roundtrip_witness:
  "\<exists>h h'. os_heap_alloc no_hook 100 boot_heap = Some (adr (0x20000000 + 12), h)
     \<and> os_heap_free (adr (0x20000000 + 12)) h = Some h' \<and> heap_ok 0x20000000 h' [(10228, False)]
     \<and> os_heap_get_free_size h' = os_heap_get_free_size boot_heap - 12"
proof -
  obtain h where h: "os_heap_alloc no_hook 100 boot_heap = Some (adr (0x20000000 + 12), h)"
    using boot_alloc by blast
  show ?thesis
    using os_heap_alloc_free_roundtrip [OF boot_heap_ok _ h] h
    by (simp add: ALIGN_UP_unat adr_NULL_iff)
qed

lemma live_block_size:
  assumes "heap_ok start h bs" "(p, n) \<in> set (live start bs)"
  shows "prv_block_get_size (DATA_BLOCK (adr p)) h = of_nat n" "n < 10240" "adr p \<noteq> NULL"
proof -
  from assms(2) obtain xs ys where bs: "bs = xs @ (n, True) # ys" and p: "p = start + tot xs + 12"
    by (rule live_split)
  with assms(1) have "hseg (hdrs h) (start + tot xs) ((n, True) # ys) NULL" by (simp add: heap_ok_def)
  from block_simps(1) [OF this] show "prv_block_get_size (DATA_BLOCK (adr p)) h = of_nat n"
    by (simp add: p)
  show "n < 10240" "adr p \<noteq> NULL"
    using assms(1) by (auto simp: bs p heap_ok_def adr_NULL_iff)
qed

lemma memcpy_copied: "i < n \<Longrightarrow> n \<le> 2 ^ 32 \<Longrightarrow> memcpy d s n m (d + of_nat i) = m (s + of_nat i)"
  by (simp add: memcpy_def unat_of_nat)

text \<open>
  Growing a block with \<open>os_heap_realloc\<close> when some free block fits returns a new live area of
  at least the requested size, with the old contents copied to it and the old area freed.
\<close>

theorem os_heap_realloc_grow:
  assumes ok: "heap_ok start h bs" and p: "(p, n) \<in> set (live start bs)"
    and ns: "new_size \<noteq> 0" "unat new_size + 8 \<le> 2 ^ 32" "n < (unat new_size + 7) div 8 * 8"
    and fit: "\<exists>b \<in> set bs. fits ((unat new_size + 7) div 8 * 8) b"
  shows "\<exists>q k h' m'. os_heap_realloc hook (adr p) new_size h m = Some (adr q, h', m')
    \<and> unat new_size \<le> k \<and> (\<forall>i < n. m' (adr (q + i)) = m (adr (p + i)))
    \<and> heap_rep start h' (insert (q, k) (set (live start bs) - {(p, n)}))"
proof -
  let ?ns = "ALIGN_UP new_size"
  note al = ALIGN_UP_unat [OF ns(2)]
  note s = live_block_size [OF ok p]
  have big: "\<not> ?ns \<le> of_nat n" using ns(3) s(2) by (simp add: word_le_nat_alt al unat_of_nat)
  have nz: "?ns \<noteq> 0" using al ns(3) by (metis not_less0 unat_0)
  obtain b where b: "b \<in> set bs" "fits ((unat new_size + 7) div 8 * 8) b" using fit by blast
  have "tot bs = 10240" using ok by (simp add: heap_ok_def)
  moreover have "fst b \<le> tot bs" using b(1) by (induction bs rule: tot.induct) auto
  ultimately have small: "(unat new_size + 7) div 8 * 8 \<le> 10240" using b(2) by (simp add: fits_def)
  have al2: "((unat ?ns + 7) div 8 * 8) = unat ?ns" by (simp add: al)
  have pre: "unat ?ns + 8 \<le> 2 ^ 32" using small by (simp add: al)
  have ft: "\<exists>b \<in> set bs. fits ((unat ?ns + 7) div 8 * 8) b" using b by (subst al2, subst al) blast
  obtain q k h1 bs1 where q: "os_heap_alloc hook ?ns h = Some (adr q, h1)" "heap_ok start h1 bs1"
    "unat ?ns \<le> k" "set (live start bs1) = insert (q, k) (set (live start bs))"
    "\<forall>(q', m) \<in> set (live start bs). q + k \<le> q' \<or> q' + m \<le> q" "start + 12 \<le> q" "q + k \<le> start + 10240"
    using alloc_first_fit [OF ok nz pre ft, of hook] by blast
  have qz: "adr q \<noteq> NULL" using q(2,6,7) by (auto simp: heap_ok_def adr_NULL_iff)
  have ne: "(p, n) \<noteq> (q, k)" using q(5) p q(3) ns(3) by (auto simp: al)
  obtain h2 where h2: "os_heap_free (adr p) h1 = Some h2"
    "heap_rep start h2 (insert (q, k) (set (live start bs)) - {(p, n)})"
    using heap_rep_free [of start h1 "insert (q, k) (set (live start bs))" p n] q(2,4) p
    by (auto simp: heap_rep_def)
  have "os_heap_realloc hook (adr p) new_size h m = Some (adr q, h2, memcpy (adr q) (adr p) n m)"
    using s(3) ns(1) big qz s(2)
    by (simp add: os_heap_realloc_def Let_def s(1) q(1) h2(1) unat_of_nat)
  moreover have "memcpy (adr q) (adr p) n m (adr (q + i)) = m (adr (p + i))" if "i < n" for i
    using memcpy_copied [of i n "adr q" "adr p" m] that s(2) by (simp add: adr_def)
  moreover have "heap_rep start h2 (insert (q, k) (set (live start bs) - {(p, n)}))"
    using h2(2) ne by (auto simp: insert_Diff_if split: if_splits)
  moreover have "unat new_size \<le> k" using q(3) by (simp add: al)
  ultimately show ?thesis by blast
qed

theorem os_heap_realloc_grow_witness:
  "\<exists>h q k h' m'. os_heap_alloc no_hook 100 boot_heap = Some (adr (0x20000000 + 12), h)
     \<and> os_heap_realloc no_hook (adr (0x20000000 + 12)) 200 h ucast = Some (adr q, h', m') \<and> 200 \<le> k
     \<and> (\<forall>i < 104. m' (adr (q + i)) = ucast (adr (0x20000000 + 12 + i))) \<and> heap_rep 0x20000000 h' {(q, k)}"
proof -
  obtain h where h: "os_heap_alloc no_hook 100 boot_heap = Some (adr (0x20000000 + 12), h)"
    "heap_ok 0x20000000 h [(104, True), (10112, False)]" using boot_alloc by blast
  show ?thesis
    using os_heap_realloc_grow [OF h(2), of "0x20000000 + 12" 104 200 no_hook ucast] h(1)
    by (simp add: fits_def del: of_nat_add)
qed

text \<open>
  The rounding of the size in \<open>os_heap_alloc\<close> wraps: a request for more than
  \<open>0xFFFFFFF8\<close> bytes succeeds with a block of fewer than 20 bytes whenever any block is free.
\<close>

theorem os_heap_alloc_size_wraps:
  assumes "heap_ok start h bs" "(k, False) \<in> set bs" "2 ^ 32 < unat sz + 8"
  shows "\<exists>p h' bs' n. os_heap_alloc hook sz h = Some (adr p, h') \<and> adr p \<noteq> NULL \<and> heap_ok start h' bs'
    \<and> (p, n) \<in> set (live start bs') \<and> n < 20"
proof -
  have "unat (sz + 7) = unat sz + 7 - 2 ^ 32"
    using assms(3) unat_lt_u32 [of sz] by (simp add: unat_word_ariths mod_if)
  then have z: "unat (ALIGN_UP sz) = 0"
    using unat_lt_u32 [of sz]
    by (simp add: ALIGN_UP_def OS_CONFIG_HEAP_ALIGNMENT_def unat_align8 add_diff_eq [symmetric])
  have sz: "sz \<noteq> 0" using assms(3) by auto
  show ?thesis
  proof (cases rule: first_fit_cases [of bs 0])
    case none
    then show ?thesis using assms(2) by (auto simp: fits_def)
  next
    case (some xs j ys)
    let ?n = "if 20 \<le> j then 0 else j"
    obtain h' where h': "os_heap_alloc hook sz h = Some (adr (start + tot xs + 12), h')"
      "heap_ok start h' (xs @ carve 0 j @ ys)"
      using os_heap_alloc_hit [OF assms(1) [unfolded some(1)] some(2,3) sz z] by blast
    moreover have "adr (start + tot xs + 12) \<noteq> NULL"
      using assms(1) by (auto simp: heap_ok_def some(1) adr_NULL_iff)
    moreover have "(start + tot xs + 12, ?n) \<in> set (live start (xs @ carve 0 j @ ys))"
      by (simp only: set_live_carve) simp
    moreover have "?n < 20" by simp
    ultimately show ?thesis by blast
  qed
qed

theorem os_heap_alloc_size_wraps_witness:
  "\<exists>p h' bs' n. os_heap_alloc no_hook 0xFFFFFFFF boot_heap = Some (adr p, h') \<and> adr p \<noteq> NULL
     \<and> heap_ok 0x20000000 h' bs' \<and> (p, n) \<in> set (live 0x20000000 bs') \<and> n < 20"
  using os_heap_alloc_size_wraps [OF boot_heap_ok, of 10228 "0xFFFFFFFF" no_hook] by simp

text \<open>
  The first block of an 8-aligned heap is handed out at an address that is 4 modulo 8: the header
  is 12 bytes long, so data areas miss the alignment \<open>OS_CONFIG_HEAP_ALIGNMENT\<close> promises.
\<close>

theorem os_heap_alloc_misaligned:
  assumes "heap_ok start h [(10228, False)]" "start mod 8 = 0" "sz \<noteq> 0" "unat sz \<le> 10224"
  shows "\<exists>p h'. os_heap_alloc hook sz h = Some (p, h') \<and> unat p mod 8 = 4"
proof -
  have u: "unat (ALIGN_UP sz) = (unat sz + 7) div 8 * 8" using assms(4) by (simp add: ALIGN_UP_unat)
  then have "unat (ALIGN_UP sz) \<le> 10228" using assms(4) by presburger
  then obtain h' where "os_heap_alloc hook sz h = Some (adr (start + 12), h')"
    using os_heap_alloc_hit [of start h "[]" 10228 "[]" "unat (ALIGN_UP sz)" sz hook] assms(1,3) by auto
  moreover have "unat (adr (start + 12)) mod 8 = 4"
  proof -
    have "unat (adr (start + 12)) = start + 12"
      using assms(1) by (simp add: heap_ok_def adr_def unat_of_nat del: of_nat_add)
    then show ?thesis using assms(2) by presburger
  qed
  ultimately show ?thesis by blast
qed

theorem os_heap_alloc_misaligned_witness:
  "\<exists>p h'. os_heap_alloc no_hook 100 boot_heap = Some (p, h') \<and> unat p mod 8 = 4"
  using os_heap_alloc_misaligned [OF boot_heap_ok, of 100 no_hook] by simp

end
