(* ===== verification/Os_State.thy ===== *)
theory Os_State
  imports Heap4
begin

unbundle bit_operations_syntax

text \<open>
  The kernel's data: the enumerations of \<open>common/os_types.h\<close>, the configuration constants of
  \<open>config/os_config.h\<close>, the control blocks declared in the headers of \<open>kernel/\<close>, and
  one record \<open>os\<close> holding every static variable of the kernel together with the memory its
  pointers refer to.

  Memory is split by type. Task control blocks live in the partial map \<open>tcbs\<close>: they come
  from the heap and go back to it, and a dereference outside the map (null or freed) does not
  return. The control blocks of queues, semaphores, mutexes, event groups and timers are storage
  the caller owns, so those stores are total. \<open>mem8\<close> is the byte memory the queue buffers and
  items live in, \<open>mem32\<close> the word memory of the task stacks.

  The record \<open>env\<close> is the image the kernel is linked into: the addresses the linker gives to
  static objects, the functions behind the application's callback pointers, and \<open>switch\<close>, what
  the rest of the system does between the moment a task gives up the processor and the moment it
  runs again (\<open>None\<close>: it never runs again).
\<close>

section \<open>Enumerations and configuration\<close>

datatype os_status =
  OS_OK | OS_ERR_NOMEM | OS_ERR_PARAM | OS_ERR_STATE | OS_ERR_FULL | OS_ERR_EMPTY
| OS_ERR_TIMEOUT | OS_ERR_WOULD_BLOCK

datatype os_task_state =
  OS_TASK_READY | OS_TASK_RUNNING | OS_TASK_SUSPENDED | OS_TASK_BLOCKED | OS_TASK_DELETED

datatype os_blocked_reason =
  OS_BLOCKED_NONE | OS_BLOCKED_ON_QUEUE_SEND | OS_BLOCKED_ON_QUEUE_RECV | OS_BLOCKED_ON_SEM_TAKE
| OS_BLOCKED_ON_MUTEX_LOCK | OS_BLOCKED_ON_EVENT_WAIT | OS_BLOCKED_ON_NOTIFY

text \<open>\<open>OS_TRACE_USER_EVENT n\<close> is the value \<open>OS_TRACE_USER + n\<close>, for the events of an application.\<close>

datatype os_trace_event =
  OS_TRACE_TASK_CREATE | OS_TRACE_TASK_DELETE | OS_TRACE_TASK_SWITCH | OS_TRACE_TASK_DELAY
| OS_TRACE_TASK_SUSPEND | OS_TRACE_TASK_RESUME | OS_TRACE_ISR_ENTER | OS_TRACE_ISR_EXIT
| OS_TRACE_QUEUE_SEND | OS_TRACE_QUEUE_RECV | OS_TRACE_SEM_GIVE | OS_TRACE_SEM_TAKE
| OS_TRACE_MUTEX_LOCK | OS_TRACE_MUTEX_UNLOCK | OS_TRACE_USER | OS_TRACE_USER_EVENT u32

datatype os_timer_type = OS_TIMER_ONE_SHOT | OS_TIMER_AUTO_RELOAD

abbreviation (input) OS_CONFIG_MAX_TASKS :: u32 where "OS_CONFIG_MAX_TASKS \<equiv> 16"
abbreviation (input) OS_CONFIG_NUM_PRIORITIES :: u32 where "OS_CONFIG_NUM_PRIORITIES \<equiv> 8"
abbreviation (input) OS_PRIO_LOWEST :: u32 where "OS_PRIO_LOWEST \<equiv> 7"
abbreviation (input) OS_CONFIG_MAX_NAME_LEN :: nat where "OS_CONFIG_MAX_NAME_LEN \<equiv> 16"
abbreviation (input) OS_CONFIG_IDLE_STACK_SIZE :: u32 where "OS_CONFIG_IDLE_STACK_SIZE \<equiv> 256"
abbreviation (input) OS_CONFIG_TIMER_SERVICE_STACK :: u32 where "OS_CONFIG_TIMER_SERVICE_STACK \<equiv> 256"
abbreviation (input) OS_CONFIG_MAX_IDLE_HOOKS :: u32 where "OS_CONFIG_MAX_IDLE_HOOKS \<equiv> 4"
abbreviation (input) OS_CONFIG_MAX_TICK_HOOKS :: u32 where "OS_CONFIG_MAX_TICK_HOOKS \<equiv> 4"
abbreviation (input) OS_CONFIG_TRACE_DEPTH :: nat where "OS_CONFIG_TRACE_DEPTH \<equiv> 32"
abbreviation (input) OS_WDT_MAX_ENTRIES :: u32 where "OS_WDT_MAX_ENTRIES \<equiv> 16"
abbreviation (input) OS_WAIT_FOREVER :: u32 where "OS_WAIT_FOREVER \<equiv> 0xFFFFFFFF"
abbreviation (input) OS_WAIT_NONE :: u32 where "OS_WAIT_NONE \<equiv> 0"
abbreviation (input) OS_STACK_CANARY_VALUE :: u32 where "OS_STACK_CANARY_VALUE \<equiv> 0xCCCCCCCC"
abbreviation (input) OS_CONFIG_TICK_RATE_HZ :: u32 where "OS_CONFIG_TICK_RATE_HZ \<equiv> 1000"
abbreviation (input) OS_CONFIG_CPU_CLOCK_HZ :: u32 where "OS_CONFIG_CPU_CLOCK_HZ \<equiv> 72000000"
abbreviation (input) STACK_FILL :: u32 where "STACK_FILL \<equiv> 0xA5A5A5A5"
abbreviation (input) OS_EVENT_WAIT_ALL :: u32 where "OS_EVENT_WAIT_ALL \<equiv> 0x80000000"
abbreviation (input) OS_EVENT_CLEAR_ON_EXIT :: u32 where "OS_EVENT_CLEAR_ON_EXIT \<equiv> 0x40000000"

section \<open>Control blocks\<close>

record os_tcb =
  stack_ptr :: ptr
  stack_base :: ptr
  stack_size :: u32
  priority :: u32
  tcb_state :: os_task_state
  delay_ticks :: u32
  tcb_name :: string
  entry_func :: ptr
  tcb_param :: ptr
  tcb_next :: ptr
  tcb_prev :: ptr
  pending_delete :: u8
  stack_high_water :: u32
  blocked_on :: ptr
  blocked_reason :: os_blocked_reason
  timed_out :: u8
  event_wait_bits :: u32
  event_wait_options :: u32
  event_return_bits :: u32
  notify_value :: u32
  notify_pending :: u8
  run_time_ticks :: u32

record os_ready_list =
  rl_head :: ptr
  rl_tail :: ptr
  rl_count :: u32

record os_queue =
  q_buffer :: ptr
  item_size :: u32
  max_items :: u32
  q_count :: u32
  q_head :: u32
  q_tail :: u32
  buf_size :: u32
  send_wait_list :: ptr
  recv_wait_list :: ptr

record os_sem =
  sem_count :: u32
  max_count :: u32
  sem_wait_list :: ptr

record os_mutex =
  mutex_owner :: ptr
  lock_count :: u32
  original_prio :: u32
  mutex_wait_list :: ptr

record os_eventgroup =
  eg_bits :: u32
  eg_wait_list :: ptr

record os_timer =
  tm_callback :: ptr
  tm_period :: u32
  tm_remaining :: u32
  tm_type :: os_timer_type
  tm_active :: bool
  tm_name :: string
  tm_next :: ptr

record os_trace_entry =
  te_timestamp :: u32
  te_event :: os_trace_event
  te_param1 :: u32
  te_param2 :: u32

record trace_state =
  trace_buffer :: "nat \<Rightarrow> os_trace_entry"
  trace_head :: u32
  trace_count :: u32
  trace_initialized :: bool

record os_wdt_entry =
  wdt_tcb :: ptr
  wdt_deadline :: u32
  wdt_remaining :: u32
  wdt_callback :: ptr
  wdt_cb_param :: ptr
  wdt_paused :: bool

record wdt_state =
  wdt_table :: "nat \<Rightarrow> os_wdt_entry"
  wdt_count :: u32
  wdt_default_cb :: ptr
  wdt_default_param :: ptr

text \<open>The memory-mapped registers the port layer programs: SCB, SysTick and NVIC.\<close>

record periph =
  scb_aircr :: u32
  scb_shpr :: "nat \<Rightarrow> u32"
  syst_ctrl :: u32
  syst_load :: u32
  syst_val :: u32
  nvic_iser :: "nat \<Rightarrow> u32"
  nvic_icer :: "nat \<Rightarrow> u32"
  nvic_ip :: "nat \<Rightarrow> u32"

section \<open>The kernel state\<close>

record os =
  heap :: heap4
  mem8 :: mem
  mem32 :: "ptr \<Rightarrow> u32"
  tcbs :: "ptr \<rightharpoonup> os_tcb"
  queues :: "ptr \<Rightarrow> os_queue"
  sems :: "ptr \<Rightarrow> os_sem"
  mutexes :: "ptr \<Rightarrow> os_mutex"
  eventgroups :: "ptr \<Rightarrow> os_eventgroup"
  timers :: "ptr \<Rightarrow> os_timer"
  \<comment> \<open>task.c\<close>
  ready_list :: "nat \<Rightarrow> os_ready_list"
  ready_bitmap :: u32
  blocked_list :: ptr
  deferred_delete_list :: ptr
  task_table :: "nat \<Rightarrow> ptr"
  task_count :: u32
  idle_hooks :: "nat \<Rightarrow> ptr"
  idle_hook_count :: u32
  stack_overflow_hook :: ptr
  task_delete_hook :: ptr
  \<comment> \<open>port.c\<close>
  current_task_ptr :: ptr
  primask :: u32
  icsr :: u32
  periph :: periph
  \<comment> \<open>scheduler.c\<close>
  scheduler_running :: bool
  critical_nesting :: u32
  yield_pending :: u32
  saved_mask :: "nat \<Rightarrow> u32"
  last_switch_tick :: u32
  \<comment> \<open>timer.c\<close>
  active_timer_list :: ptr
  expired_list :: ptr
  timer_task_handle :: ptr
  timer_initialized :: bool
  \<comment> \<open>trace.c and watchdog.c\<close>
  trace :: trace_state
  wdt :: wdt_state
  \<comment> \<open>kernel.c\<close>
  system_tick :: u32
  kernel_initialized :: bool
  tick_hooks :: "nat \<Rightarrow> ptr"
  tick_hook_count :: u32

record env =
  uc_heap :: ptr
  idle_task_stack :: ptr
  idle_task_func :: ptr
  timer_task_stack :: ptr
  timer_service_func :: ptr
  timer_sem :: ptr
  call_malloc_failed :: malloc_hook
  call_delete_hook :: "ptr \<Rightarrow> ptr \<Rightarrow> os \<Rightarrow> os option"
  call_tick_hook :: "ptr \<Rightarrow> os \<Rightarrow> os option"
  call_idle_hook :: "ptr \<Rightarrow> os \<Rightarrow> os option"
  call_timer :: "ptr \<Rightarrow> ptr \<Rightarrow> os \<Rightarrow> os option"
  call_wdt :: "ptr \<Rightarrow> ptr \<Rightarrow> ptr \<Rightarrow> os \<Rightarrow> os option"
  switch :: "os \<Rightarrow> os option"

section \<open>Access to task control blocks\<close>

definition get_tcb :: "ptr \<Rightarrow> os \<Rightarrow> os_tcb option" where
  "get_tcb t s = (if t = NULL then None else tcbs s t)"

definition upd_tcb :: "ptr \<Rightarrow> (os_tcb \<Rightarrow> os_tcb) \<Rightarrow> os \<Rightarrow> os option" where
  "upd_tcb t f s = do { c \<leftarrow> get_tcb t s; Some (s\<lparr>tcbs := (tcbs s)(t \<mapsto> f c)\<rparr>) }"

definition OS_ASSERT :: "bool \<Rightarrow> unit option" where
  "OS_ASSERT b = (if b then Some () else None)"

lemma OS_ASSERT_simps [simp]: "OS_ASSERT True = Some ()" "OS_ASSERT False = None"
  by (simp_all add: OS_ASSERT_def)

lemma get_tcb_Some [simp]: "get_tcb t s = Some c \<longleftrightarrow> t \<noteq> NULL \<and> tcbs s t = Some c"
  by (simp add: get_tcb_def)

lemma upd_tcb_Some: "t \<noteq> NULL \<Longrightarrow> tcbs s t = Some c \<Longrightarrow>
    upd_tcb t f s = Some (s\<lparr>tcbs := (tcbs s)(t \<mapsto> f c)\<rparr>)"
  by (simp add: upd_tcb_def get_tcb_def)

end
