(* ===== verification/Critical.thy ===== *)
theory Critical
  imports Os_State
begin

unbundle bit_operations_syntax

text \<open>
  Interrupt masking and the request for a context switch: the PRIMASK critical sections of
  \<open>port/port.c\<close>, the nesting counter of \<open>kernel/scheduler.c\<close>, and the trace ring of
  \<open>kernel/trace.c\<close>, which every other component calls. The configuration is the repository's:
  \<open>OS_CONFIG_USE_INTERRUPT_NESTING\<close> is 0, so the BASEPRI variants are not compiled.
\<close>

section \<open>Port layer\<close>

definition os_port_enter_critical :: "os \<Rightarrow> u32 \<times> os" where
  "os_port_enter_critical s = (primask s, s\<lparr>primask := 1\<rparr>)"

definition os_port_exit_critical :: "u32 \<Rightarrow> os \<Rightarrow> os" where
  "os_port_exit_critical pm s = s\<lparr>primask := pm\<rparr>"

definition SCB_ICSR_PENDSVSET :: u32 where "SCB_ICSR_PENDSVSET = push_bit 28 1"

definition os_port_yield :: "os \<Rightarrow> os" where
  "os_port_yield s = s\<lparr>icsr := icsr s OR SCB_ICSR_PENDSVSET\<rparr>"

definition os_task_set_current :: "ptr \<Rightarrow> os \<Rightarrow> os" where
  "os_task_set_current t s = s\<lparr>current_task_ptr := t\<rparr>"

definition os_task_get_current :: "os \<Rightarrow> ptr" where
  "os_task_get_current s = current_task_ptr s"

section \<open>Critical sections of the scheduler\<close>

definition CRITICAL_NESTING_MAX :: u32 where "CRITICAL_NESTING_MAX = 4"

definition os_sched_init :: "os \<Rightarrow> os" where
  "os_sched_init s = s\<lparr>scheduler_running := False, critical_nesting := 0, yield_pending := 0\<rparr>"

definition os_sched_is_running :: "os \<Rightarrow> bool" where
  "os_sched_is_running s = scheduler_running s"

definition os_sched_enter_critical :: "os \<Rightarrow> os" where
  "os_sched_enter_critical s =
     (let (pm, s) = os_port_enter_critical s;
          s = (if critical_nesting s < CRITICAL_NESTING_MAX
               then s\<lparr>saved_mask := (saved_mask s)(unat (critical_nesting s) := pm)\<rparr> else s)
      in s\<lparr>critical_nesting := critical_nesting s + 1\<rparr>)"

definition os_sched_exit_critical :: "os \<Rightarrow> os" where
  "os_sched_exit_critical s =
     (if critical_nesting s > 0
      then let s = s\<lparr>critical_nesting := critical_nesting s - 1\<rparr>
           in if critical_nesting s = 0 then os_port_exit_critical (saved_mask s 0) s else s
      else s)"

definition os_sched_get_critical_nesting :: "os \<Rightarrow> u32" where
  "os_sched_get_critical_nesting s = critical_nesting s"

definition os_sched_request_switch_from_isr :: "os \<Rightarrow> os" where
  "os_sched_request_switch_from_isr s = s\<lparr>yield_pending := 1\<rparr>"

text \<open>
  \<open>os_sched_yield\<close> pends PendSV; from the caller's point of view the call returns when the
  caller is scheduled again, so the rest of the system, \<open>switch\<close>, runs inside it.
\<close>

definition os_sched_yield :: "env \<Rightarrow> os \<Rightarrow> os option" where
  "os_sched_yield e s =
     (if scheduler_running s then switch e (os_port_yield (s\<lparr>yield_pending := 1\<rparr>)) else Some s)"

section \<open>Trace ring\<close>

definition os_kernel_get_tick :: "os \<Rightarrow> u32" where
  "os_kernel_get_tick s = system_tick s"

definition os_trace_record :: "os_trace_event \<Rightarrow> u32 \<Rightarrow> u32 \<Rightarrow> os \<Rightarrow> os" where
  "os_trace_record event param1 param2 s =
     (if \<not> trace_initialized (trace s) then s
      else let (pm, s) = os_port_enter_critical s;
               tr = trace s;
               tr = tr\<lparr>trace_buffer := (trace_buffer tr)(unat (trace_head tr) :=
                        \<lparr>te_timestamp = os_kernel_get_tick s, te_event = event,
                         te_param1 = param1, te_param2 = param2\<rparr>)\<rparr>;
               tr = tr\<lparr>trace_head := (trace_head tr + 1) mod of_nat OS_CONFIG_TRACE_DEPTH\<rparr>;
               tr = (if trace_count tr < of_nat OS_CONFIG_TRACE_DEPTH
                     then tr\<lparr>trace_count := trace_count tr + 1\<rparr> else tr)
           in os_port_exit_critical pm (s\<lparr>trace := tr\<rparr>))"

definition os_trace_init :: "os \<Rightarrow> os" where
  "os_trace_init s =
     (let s = s\<lparr>trace := (trace s)\<lparr>trace_head := 0, trace_count := 0, trace_initialized := True\<rparr>\<rparr>
      in os_trace_record OS_TRACE_USER 0x424F4F54 0 s)"

definition os_trace_get_count :: "os \<Rightarrow> u32" where
  "os_trace_get_count s = trace_count (trace s)"

text \<open>The output parameter \<open>entry\<close> is the second component; \<open>wants\<close> says whether it is non-null.\<close>

definition os_trace_read :: "u32 \<Rightarrow> bool \<Rightarrow> os \<Rightarrow> os_status \<times> os_trace_entry option" where
  "os_trace_read index wants s =
     (if \<not> wants \<or> index \<ge> trace_count (trace s) then (OS_ERR_PARAM, None)
      else let pos = (if trace_count (trace s) < of_nat OS_CONFIG_TRACE_DEPTH then index
                      else (trace_head (trace s) + index) mod of_nat OS_CONFIG_TRACE_DEPTH)
           in (OS_OK, Some (trace_buffer (trace s) (unat pos))))"

definition os_trace_clear :: "os \<Rightarrow> os" where
  "os_trace_clear s =
     (let (pm, s) = os_port_enter_critical s;
          s = s\<lparr>trace := (trace s)\<lparr>trace_head := 0, trace_count := 0\<rparr>\<rparr>
      in os_port_exit_critical pm s)"

text \<open>\<open>visitor\<close> is the application's callback, threaded over its own state \<open>'v\<close>.\<close>

definition os_trace_iterate :: "(os_trace_entry \<Rightarrow> 'v \<Rightarrow> 'v) option \<Rightarrow> os \<Rightarrow> 'v \<Rightarrow> u32 \<times> 'v" where
  "os_trace_iterate visitor s v =
     (case visitor of
        None \<Rightarrow> (0, v)
      | Some f \<Rightarrow>
          let count = trace_count (trace s)
          in (count, fold (\<lambda>i v. case os_trace_read (of_nat i) True s of
                                   (OS_OK, Some e) \<Rightarrow> f e v | _ \<Rightarrow> v) [0..<unat count] v))"

section \<open>Normal forms\<close>

text \<open>Each call is a record update with unconditional shape, so that proofs can compute through it.\<close>

lemma enter_critical_nf [crit_simps]:
  "os_sched_enter_critical s =
     s\<lparr>primask := 1,
       saved_mask := (if critical_nesting s < 4 then (saved_mask s)(unat (critical_nesting s) := primask s)
                      else saved_mask s),
       critical_nesting := critical_nesting s + 1\<rparr>"
  by (simp add: os_sched_enter_critical_def os_port_enter_critical_def CRITICAL_NESTING_MAX_def Let_def)

lemma exit_critical_nf [crit_simps]:
  "os_sched_exit_critical s =
     s\<lparr>critical_nesting := (if critical_nesting s > 0 then critical_nesting s - 1 else critical_nesting s),
       primask := (if critical_nesting s = 1 then saved_mask s 0 else primask s)\<rparr>"
proof -
  have *: "0 < critical_nesting s \<Longrightarrow> (critical_nesting s - 1 = 0) = (critical_nesting s = 1)" by auto
  show ?thesis
    by (auto simp: os_sched_exit_critical_def os_port_exit_critical_def Let_def * word_neq_0_conv)
qed

definition trace_push :: "u32 \<Rightarrow> os_trace_event \<Rightarrow> u32 \<Rightarrow> u32 \<Rightarrow> trace_state \<Rightarrow> trace_state" where
  "trace_push now ev a b tr =
     (if \<not> trace_initialized tr then tr
      else tr\<lparr>trace_buffer := (trace_buffer tr)(unat (trace_head tr) :=
                \<lparr>te_timestamp = now, te_event = ev, te_param1 = a, te_param2 = b\<rparr>),
             trace_head := (trace_head tr + 1) mod 32,
             trace_count := (if trace_count tr < 32 then trace_count tr + 1 else trace_count tr)\<rparr>)"

lemma trace_record_nf [crit_simps]:
  "os_trace_record ev a b s = s\<lparr>trace := trace_push (system_tick s) ev a b (trace s)\<rparr>"
  by (simp add: os_trace_record_def trace_push_def os_port_enter_critical_def
      os_port_exit_critical_def os_kernel_get_tick_def Let_def)

lemma request_switch_nf [crit_simps]: "os_sched_request_switch_from_isr s = s\<lparr>yield_pending := 1\<rparr>"
  by (simp add: os_sched_request_switch_from_isr_def)

text \<open>
  A balanced critical section gives back the interrupt mask and the nesting depth it found,
  whatever ran in between that is itself balanced. Inside an outer section (depth above 0)
  interrupts were already masked.
\<close>

definition crit_same :: "os \<Rightarrow> os \<Rightarrow> bool" where
  "crit_same s s' \<longleftrightarrow> critical_nesting s' = critical_nesting s \<and> primask s' = primask s
     \<and> (critical_nesting s \<noteq> 0 \<longrightarrow> saved_mask s' 0 = saved_mask s 0)"

lemma crit_same_refl [simp, intro]: "crit_same s s"
  by (simp add: crit_same_def)

lemma crit_same_trans: "crit_same a b \<Longrightarrow> crit_same b c \<Longrightarrow> crit_same a c"
  by (auto simp: crit_same_def)

lemma critical_section_balanced:
  assumes "crit_same (os_sched_enter_critical s) s'" "critical_nesting s \<noteq> - 1"
    and "critical_nesting s \<noteq> 0 \<longrightarrow> primask s = 1"
  shows "crit_same s (os_sched_exit_critical s')"
proof -
  let ?n = "critical_nesting s"
  have "?n + 1 \<noteq> 0" using assms(2) by (metis add_eq_0_iff2 add.inverse_inverse)
  moreover have "?n + 1 = 1 \<longleftrightarrow> ?n = 0" by auto
  moreover have "unat ?n = 0 \<longleftrightarrow> ?n = 0" by (simp add: unat_eq_0)
  ultimately show ?thesis
    using assms by (auto simp: crit_same_def crit_simps word_neq_0_conv)
qed

end
