(* ===== verification/Task_Lists.thy ===== *)
theory Task_Lists
  imports Critical
begin

unbundle bit_operations_syntax

text \<open>
  The intrusive lists of task control blocks: the ready lists with their bitmap and the blocked
  list of \<open>kernel/task.c\<close>, and the priority-ordered wait lists that \<open>queue.c\<close>,
  \<open>semaphore.c\<close>, \<open>mutex.c\<close> and \<open>eventgroup.c\<close> each implement with the same code.

  A list is named by where its head pointer lives (\<open>lid\<close>), as the C code passes the address
  of the head. The abstract state is the family \<open>A\<close> of the lists' contents, and
  \<open>links_ok A s\<close> says that the pointers of \<open>s\<close> represent it: doubly linked through
  \<open>next\<close> and \<open>prev\<close>, pairwise disjoint, the ready lists' tails, counters and bitmap bits
  in step. Every list operation is shown to return and to act on \<open>A\<close> as the list function one
  expects.
\<close>

section \<open>List heads\<close>

datatype lid = Ready nat | Blocked | Deferred | QSend ptr | QRecv ptr | SemW ptr | MutexW ptr | EventW ptr

fun list_head :: "os \<Rightarrow> lid \<Rightarrow> ptr" where
  "list_head s (Ready p) = rl_head (ready_list s p)"
| "list_head s Blocked = blocked_list s"
| "list_head s Deferred = deferred_delete_list s"
| "list_head s (QSend q) = send_wait_list (queues s q)"
| "list_head s (QRecv q) = recv_wait_list (queues s q)"
| "list_head s (SemW x) = sem_wait_list (sems s x)"
| "list_head s (MutexW x) = mutex_wait_list (mutexes s x)"
| "list_head s (EventW x) = eg_wait_list (eventgroups s x)"

fun set_list_head :: "lid \<Rightarrow> ptr \<Rightarrow> os \<Rightarrow> os" where
  "set_list_head (Ready p) h s = s\<lparr>ready_list := (ready_list s)(p := (ready_list s p)\<lparr>rl_head := h\<rparr>)\<rparr>"
| "set_list_head Blocked h s = s\<lparr>blocked_list := h\<rparr>"
| "set_list_head Deferred h s = s\<lparr>deferred_delete_list := h\<rparr>"
| "set_list_head (QSend q) h s = s\<lparr>queues := (queues s)(q := (queues s q)\<lparr>send_wait_list := h\<rparr>)\<rparr>"
| "set_list_head (QRecv q) h s = s\<lparr>queues := (queues s)(q := (queues s q)\<lparr>recv_wait_list := h\<rparr>)\<rparr>"
| "set_list_head (SemW x) h s = s\<lparr>sems := (sems s)(x := (sems s x)\<lparr>sem_wait_list := h\<rparr>)\<rparr>"
| "set_list_head (MutexW x) h s = s\<lparr>mutexes := (mutexes s)(x := (mutexes s x)\<lparr>mutex_wait_list := h\<rparr>)\<rparr>"
| "set_list_head (EventW x) h s = s\<lparr>eventgroups := (eventgroups s)(x := (eventgroups s x)\<lparr>eg_wait_list := h\<rparr>)\<rparr>"

section \<open>Unlinking and priority-ordered insertion\<close>

text \<open>The unlinking code that \<open>task.c\<close> and every wait list share.\<close>

definition unlink :: "lid \<Rightarrow> ptr \<Rightarrow> os \<Rightarrow> os option" where
  "unlink l t s =
     do {
       c \<leftarrow> get_tcb t s;
       s \<leftarrow> (if tcb_prev c \<noteq> NULL then upd_tcb (tcb_prev c) (\<lambda>p. p\<lparr>tcb_next := tcb_next c\<rparr>) s
             else Some (set_list_head l (tcb_next c) s));
       s \<leftarrow> (if tcb_next c \<noteq> NULL then upd_tcb (tcb_next c) (\<lambda>n. n\<lparr>tcb_prev := tcb_prev c\<rparr>) s
             else Some s);
       upd_tcb t (\<lambda>c. c\<lparr>tcb_next := NULL, tcb_prev := NULL\<rparr>) s
     }"

partial_function (option) wait_pos :: "os \<Rightarrow> u32 \<Rightarrow> ptr \<Rightarrow> ptr \<Rightarrow> (ptr \<times> ptr) option" where
  "wait_pos s prio prev iter =
     (if iter = NULL then Some (prev, iter)
      else do {
        c \<leftarrow> get_tcb iter s;
        if prio < priority c then Some (prev, iter) else wait_pos s prio iter (tcb_next c)
      })"

definition wait_insert :: "lid \<Rightarrow> ptr \<Rightarrow> os \<Rightarrow> os option" where
  "wait_insert l t s =
     do {
       c \<leftarrow> get_tcb t s;
       (prev, iter) \<leftarrow> wait_pos s (priority c) NULL (list_head s l);
       s \<leftarrow> upd_tcb t (\<lambda>c. c\<lparr>tcb_next := iter, tcb_prev := prev\<rparr>) s;
       s \<leftarrow> (if iter \<noteq> NULL then upd_tcb iter (\<lambda>c. c\<lparr>tcb_prev := t\<rparr>) s else Some s);
       if prev \<noteq> NULL then upd_tcb prev (\<lambda>c. c\<lparr>tcb_next := t\<rparr>) s
       else Some (set_list_head l t s)
     }"

section \<open>Ready lists\<close>

definition upd_rl :: "nat \<Rightarrow> (os_ready_list \<Rightarrow> os_ready_list) \<Rightarrow> os \<Rightarrow> os" where
  "upd_rl p f s = s\<lparr>ready_list := (ready_list s)(p := f (ready_list s p))\<rparr>"

definition os_task_add_to_ready :: "ptr \<Rightarrow> os \<Rightarrow> os option" where
  "os_task_add_to_ready t s =
     do {
       c \<leftarrow> get_tcb t s;
       _ \<leftarrow> OS_ASSERT (priority c < OS_CONFIG_NUM_PRIORITIES);
       let p = unat (priority c);
       s \<leftarrow> upd_tcb t (\<lambda>c. c\<lparr>tcb_state := OS_TASK_READY, tcb_next := NULL,
                                tcb_prev := rl_tail (ready_list s p)\<rparr>) s;
       s \<leftarrow> (if rl_tail (ready_list s p) \<noteq> NULL
             then upd_tcb (rl_tail (ready_list s p)) (\<lambda>c. c\<lparr>tcb_next := t\<rparr>) s
             else Some ((upd_rl p (\<lambda>r. r\<lparr>rl_head := t\<rparr>) s)\<lparr>ready_bitmap := ready_bitmap s OR push_bit p 1\<rparr>));
       Some (upd_rl p (\<lambda>r. r\<lparr>rl_tail := t, rl_count := rl_count r + 1\<rparr>) s)
     }"

definition os_task_remove_from_ready :: "ptr \<Rightarrow> os \<Rightarrow> os option" where
  "os_task_remove_from_ready t s =
     do {
       c \<leftarrow> get_tcb t s;
       _ \<leftarrow> OS_ASSERT (priority c < OS_CONFIG_NUM_PRIORITIES);
       let p = unat (priority c);
       s \<leftarrow> (if tcb_prev c \<noteq> NULL then upd_tcb (tcb_prev c) (\<lambda>x. x\<lparr>tcb_next := tcb_next c\<rparr>) s
             else Some (upd_rl p (\<lambda>r. r\<lparr>rl_head := tcb_next c\<rparr>) s));
       s \<leftarrow> (if tcb_next c \<noteq> NULL then upd_tcb (tcb_next c) (\<lambda>x. x\<lparr>tcb_prev := tcb_prev c\<rparr>) s
             else Some (upd_rl p (\<lambda>r. r\<lparr>rl_tail := tcb_prev c\<rparr>) s));
       s \<leftarrow> upd_tcb t (\<lambda>c. c\<lparr>tcb_next := NULL, tcb_prev := NULL\<rparr>) s;
       let s = upd_rl p (\<lambda>r. r\<lparr>rl_count := (if rl_count r > 0 then rl_count r - 1 else rl_count r)\<rparr>) s;
       Some (if rl_head (ready_list s p) = NULL
             then s\<lparr>ready_bitmap := ready_bitmap s AND NOT (push_bit p 1)\<rparr> else s)
     }"

definition os_task_find_highest_ready :: "os \<Rightarrow> ptr option" where
  "os_task_find_highest_ready s =
     (if ready_bitmap s = 0 then Some NULL
      else do {
        let prio = builtin_ctz (ready_bitmap s);
        _ \<leftarrow> OS_ASSERT (prio < unat OS_CONFIG_NUM_PRIORITIES);
        Some (rl_head (ready_list s prio))
      })"

section \<open>Blocked list\<close>

definition os_task_add_to_blocked :: "ptr \<Rightarrow> u32 \<Rightarrow> os \<Rightarrow> os option" where
  "os_task_add_to_blocked t timeout s =
     do {
       s \<leftarrow> os_task_remove_from_ready t s;
       s \<leftarrow> upd_tcb t (\<lambda>c. c\<lparr>tcb_state := OS_TASK_BLOCKED, delay_ticks := timeout,
                                tcb_next := blocked_list s\<rparr>) s;
       s \<leftarrow> (if blocked_list s \<noteq> NULL then upd_tcb (blocked_list s) (\<lambda>c. c\<lparr>tcb_prev := t\<rparr>) s
             else Some s);
       Some (s\<lparr>blocked_list := t\<rparr>)
     }"

definition os_task_remove_from_blocked :: "ptr \<Rightarrow> os \<Rightarrow> os option" where
  "os_task_remove_from_blocked t s = unlink Blocked t s"

section \<open>Doubly linked segments\<close>

definition link :: "(ptr \<rightharpoonup> os_tcb) \<Rightarrow> ptr \<rightharpoonup> ptr \<times> ptr" where
  "link m x = map_option (\<lambda>c. (tcb_prev c, tcb_next c)) (m x)"

fun dseg :: "(ptr \<rightharpoonup> os_tcb) \<Rightarrow> ptr \<Rightarrow> ptr list \<Rightarrow> ptr \<Rightarrow> bool" where
  "dseg m p [] n = True"
| "dseg m p (x # xs) n \<longleftrightarrow> x \<noteq> NULL \<and> link m x = Some (p, first_ptr n xs) \<and> dseg m x xs n"

fun sseg :: "(ptr \<rightharpoonup> os_tcb) \<Rightarrow> ptr list \<Rightarrow> bool" where
  "sseg m [] = True"
| "sseg m (x # xs) \<longleftrightarrow> x \<noteq> NULL \<and> map_option tcb_next (m x) = Some (first_ptr NULL xs) \<and> sseg m xs"

definition same_outside :: "ptr set \<Rightarrow> (ptr \<rightharpoonup> os_tcb) \<Rightarrow> (ptr \<rightharpoonup> os_tcb) \<Rightarrow> bool" where
  "same_outside S m m' \<longleftrightarrow> (\<forall>x. x \<notin> S \<longrightarrow> m' x = m x)"

definition erase :: "os_tcb \<Rightarrow> os_tcb" where
  "erase c = c\<lparr>tcb_next := NULL, tcb_prev := NULL\<rparr>"

definition data_eq :: "(ptr \<rightharpoonup> os_tcb) \<Rightarrow> (ptr \<rightharpoonup> os_tcb) \<Rightarrow> bool" where
  "data_eq m m' \<longleftrightarrow> (\<forall>x. map_option erase (m' x) = map_option erase (m x))"

lemma link_upd [simp]:
  "link (m(t \<mapsto> c)) x = (if x = t then Some (tcb_prev c, tcb_next c) else link m x)"
  by (simp add: link_def)

lemma link_Some: "link m x = Some (p, n) \<longleftrightarrow> (\<exists>c. m x = Some c \<and> tcb_prev c = p \<and> tcb_next c = n)"
  by (auto simp: link_def)

lemma dseg_append [simp]:
  "dseg m p (xs @ ys) n \<longleftrightarrow> dseg m p xs (first_ptr n ys) \<and> dseg m (last_ptr p xs) ys n"
  by (induction m p xs n rule: dseg.induct) auto

lemma dseg_upd_outside [simp]: "t \<notin> set xs \<Longrightarrow> dseg (m(t \<mapsto> c)) p xs n = dseg m p xs n"
  by (induction m p xs n rule: dseg.induct) auto

lemma dseg_same_outside:
  "set xs \<inter> S = {} \<Longrightarrow> same_outside S m m' \<Longrightarrow> dseg m' p xs n = dseg m p xs n"
  by (induction m p xs n rule: dseg.induct) (auto simp: same_outside_def link_def)

lemma sseg_same_outside: "set xs \<inter> S = {} \<Longrightarrow> same_outside S m m' \<Longrightarrow> sseg m' xs = sseg m xs"
  by (induction m xs rule: sseg.induct) (auto simp: same_outside_def)

lemma dseg_nonnull: "dseg m p xs n \<Longrightarrow> NULL \<notin> set xs"
  by (induction m p xs n rule: dseg.induct) auto

lemma sseg_nonnull: "sseg m xs \<Longrightarrow> NULL \<notin> set xs"
  by (induction m xs rule: sseg.induct) auto

lemma dseg_Some: "dseg m p xs n \<Longrightarrow> x \<in> set xs \<Longrightarrow> \<exists>c. m x = Some c"
  by (induction m p xs n rule: dseg.induct) (auto simp: link_def)

lemma sseg_Some: "sseg m xs \<Longrightarrow> x \<in> set xs \<Longrightarrow> \<exists>c. m x = Some c"
  by (induction m xs rule: sseg.induct) auto

lemma same_outside_refl [simp]: "same_outside S m m"
  by (simp add: same_outside_def)

lemma same_outside_upd: "same_outside S m m' \<Longrightarrow> t \<in> S \<Longrightarrow> same_outside S m (m'(t \<mapsto> c))"
  by (simp add: same_outside_def)

lemma data_eq_refl [simp]: "data_eq m m"
  by (simp add: data_eq_def)

lemma data_eq_trans: "data_eq a b \<Longrightarrow> data_eq b c \<Longrightarrow> data_eq a c"
  by (simp add: data_eq_def)

lemma data_eq_upd: "data_eq m m' \<Longrightarrow> m' t = Some c \<Longrightarrow> erase c' = erase c \<Longrightarrow> data_eq m (m'(t \<mapsto> c'))"
  by (auto simp: data_eq_def) (metis option.simps(9))

lemma erase_simps [simp]:
  "erase (c\<lparr>tcb_next := x\<rparr>) = erase c" "erase (c\<lparr>tcb_prev := x\<rparr>) = erase c"
  by (simp_all add: erase_def)

lemma erase_fields:
  assumes "erase c' = erase c"
  shows "priority c' = priority c" "tcb_state c' = tcb_state c" "delay_ticks c' = delay_ticks c"
    "blocked_on c' = blocked_on c" "blocked_reason c' = blocked_reason c" "timed_out c' = timed_out c"
    "stack_base c' = stack_base c" "stack_size c' = stack_size c" "stack_ptr c' = stack_ptr c"
    "event_wait_bits c' = event_wait_bits c" "event_wait_options c' = event_wait_options c"
    "event_return_bits c' = event_return_bits c" "notify_value c' = notify_value c"
    "notify_pending c' = notify_pending c" "run_time_ticks c' = run_time_ticks c"
    "stack_high_water c' = stack_high_water c" "tcb_name c' = tcb_name c"
  using assms by (cases c; cases c'; simp add: erase_def)+

lemma data_eq_Some: "data_eq m m' \<Longrightarrow> m x = Some c \<Longrightarrow> \<exists>c'. m' x = Some c' \<and> erase c' = erase c"
  by (auto simp: data_eq_def) (metis map_option_eq_Some option.simps(9))

lemma data_eq_Some_back: "data_eq m m' \<Longrightarrow> m' x = Some c \<Longrightarrow> \<exists>c'. m x = Some c' \<and> erase c = erase c'"
  by (auto simp: data_eq_def) (metis map_option_eq_Some option.simps(9))

lemma data_eq_dom: "data_eq m m' \<Longrightarrow> dom m' = dom m"
  by (auto dest: data_eq_Some data_eq_Some_back)

section \<open>The abstraction relation\<close>

type_synonym tlists = "lid \<Rightarrow> ptr list"

definition seg :: "lid \<Rightarrow> (ptr \<rightharpoonup> os_tcb) \<Rightarrow> ptr list \<Rightarrow> bool" where
  "seg l m xs \<longleftrightarrow> (if l = Deferred then sseg m xs else dseg m NULL xs NULL)"

definition list_ok :: "tlists \<Rightarrow> os \<Rightarrow> bool" where
  "list_ok A s \<longleftrightarrow>
     (\<forall>l. seg l (tcbs s) (A l)) \<and> (\<forall>l. list_head s l = first_ptr NULL (A l))
     \<and> (\<forall>l. distinct (A l)) \<and> (\<forall>l l'. l \<noteq> l' \<longrightarrow> set (A l) \<inter> set (A l') = {})"

definition ready_ok :: "tlists \<Rightarrow> os \<Rightarrow> bool" where
  "ready_ok A s \<longleftrightarrow>
     (\<forall>p. rl_tail (ready_list s p) = last_ptr NULL (A (Ready p))
        \<and> rl_count (ready_list s p) = of_nat (length (A (Ready p))))
     \<and> (\<forall>p. A (Ready p) \<noteq> [] \<longrightarrow> p < 8)
     \<and> (\<forall>i. bit (ready_bitmap s) i \<longleftrightarrow> A (Ready i) \<noteq> [])
     \<and> (\<forall>p. \<forall>t \<in> set (A (Ready p)). \<exists>c. tcbs s t = Some c \<and> unat (priority c) = p)"

definition links_ok :: "tlists \<Rightarrow> os \<Rightarrow> bool" where
  "links_ok A s \<longleftrightarrow> list_ok A s \<and> ready_ok A s"

definition nowhere :: "tlists \<Rightarrow> ptr \<Rightarrow> bool" where
  "nowhere A t \<longleftrightarrow> (\<forall>l. t \<notin> set (A l))"

lemma list_head_set [simp]: "list_head (set_list_head l h s) l = h"
  by (cases l) simp_all

lemma list_head_set_other [simp]: "l \<noteq> l' \<Longrightarrow> list_head (set_list_head l h s) l' = list_head s l'"
  by (cases l; cases l') auto

lemma set_list_head_same [simp]: "set_list_head l (list_head s l) s = s"
  by (cases l) simp_all

lemma set_list_head_tcbs [simp]: "tcbs (set_list_head l h s) = tcbs s"
  by (cases l) simp_all

lemma set_list_head_upd_tcbs [simp]: "(set_list_head l h s)\<lparr>tcbs := m\<rparr> = set_list_head l h (s\<lparr>tcbs := m\<rparr>)"
  by (cases l) simp_all

lemma list_head_tcbs [simp]: "list_head (s\<lparr>tcbs := m\<rparr>) l = list_head s l"
  by (cases l) simp_all

lemma set_list_head_id: "list_head s l = h \<Longrightarrow> set_list_head l h (s\<lparr>tcbs := m\<rparr>) = s\<lparr>tcbs := m\<rparr>"
  by (metis list_head_tcbs set_list_head_same)

lemma get_tcb_set_list_head [simp]: "get_tcb t (set_list_head l h s) = get_tcb t s"
  by (simp add: get_tcb_def)

lemma unlink_split:
  assumes d: "dseg (tcbs s) NULL (as @ t # bs) NULL" and dist: "distinct (as @ t # bs)"
    and hd: "list_head s l = first_ptr NULL (as @ t # bs)"
  shows "\<exists>m'. unlink l t s = Some (set_list_head l (first_ptr NULL (as @ bs)) (s\<lparr>tcbs := m'\<rparr>))
     \<and> dseg m' NULL (as @ bs) NULL \<and> same_outside (set (as @ t # bs)) (tcbs s) m' \<and> data_eq (tcbs s) m'
     \<and> link m' t = Some (NULL, NULL)"
proof -
  have n: "t \<notin> set as" "t \<notin> set bs" "set as \<inter> set bs = {}" "distinct as" "distinct bs" using dist by auto
  from d have tz: "t \<noteq> NULL" and lt: "link (tcbs s) t = Some (last_ptr NULL as, first_ptr NULL bs)"
    and da: "dseg (tcbs s) NULL as t" and db: "dseg (tcbs s) t bs NULL"
    by simp_all
  from lt obtain c where c: "tcbs s t = Some c" "tcb_prev c = last_ptr NULL as" "tcb_next c = first_ptr NULL bs"
    by (auto simp: link_Some)
  let ?c = "c\<lparr>tcb_next := NULL, tcb_prev := NULL\<rparr>"
  note ds = unlink_def get_tcb_def upd_tcb_def
  consider (a) "as = []" "bs = []" | (b) b bs' where "as = []" "bs = b # bs'"
    | (cc) a as' where "as = as' @ [a]" "bs = []" | (dd) a as' b bs' where "as = as' @ [a]" "bs = b # bs'"
    by (metis list.exhaust rev_exhaust)
  then show ?thesis
  proof cases
    case a
    then show ?thesis using c tz
      by (intro exI [of _ "(tcbs s)(t \<mapsto> ?c)"]) (simp add: ds data_eq_upd same_outside_upd)
  next
    case b
    then obtain cb where "tcbs s b = Some cb" "b \<noteq> NULL" using db by (auto simp: link_Some)
    then show ?thesis using c tz b db n
      by (intro exI [of _ "(tcbs s)(b \<mapsto> cb\<lparr>tcb_prev := NULL\<rparr>, t \<mapsto> ?c)"])
        (auto simp: ds link_Some intro!: data_eq_upd same_outside_upd)
  next
    case cc
    then obtain ca where "tcbs s a = Some ca" "a \<noteq> NULL" "tcb_next ca = t" using da by (auto simp: link_Some)
    moreover have "list_head s l = first_ptr NULL as" using hd cc by simp
    ultimately show ?thesis using c tz cc da n
      by (intro exI [of _ "(tcbs s)(a \<mapsto> ca\<lparr>tcb_next := NULL\<rparr>, t \<mapsto> ?c)"])
        (auto simp: ds link_Some set_list_head_id intro!: data_eq_upd same_outside_upd)
  next
    case dd
    then obtain ca where "tcbs s a = Some ca" "a \<noteq> NULL" "tcb_next ca = t" using da by (auto simp: link_Some)
    moreover obtain cb where "tcbs s b = Some cb" "b \<noteq> NULL" "tcb_prev cb = t" using db dd by (auto simp: link_Some)
    moreover have "list_head s l = first_ptr NULL as" using hd dd by simp
    ultimately show ?thesis using c tz dd da db n
      by (intro exI [of _ "(tcbs s)(a \<mapsto> ca\<lparr>tcb_next := b\<rparr>, b \<mapsto> cb\<lparr>tcb_prev := a\<rparr>, t \<mapsto> ?c)"])
        (auto simp: ds link_Some set_list_head_id intro!: data_eq_upd same_outside_upd)
  qed
qed

lemma unlink_dseg:
  assumes "dseg (tcbs s) NULL xs NULL" "distinct xs" "t \<in> set xs" "list_head s l = first_ptr NULL xs"
  shows "\<exists>m'. unlink l t s = Some (set_list_head l (first_ptr NULL (remove1 t xs)) (s\<lparr>tcbs := m'\<rparr>))
     \<and> dseg m' NULL (remove1 t xs) NULL \<and> same_outside (set xs) (tcbs s) m' \<and> data_eq (tcbs s) m'
     \<and> link m' t = Some (NULL, NULL)"
proof -
  from distinct_split [OF assms(2,3)] obtain as bs where xs: "xs = as @ t # bs"
    and rm: "remove1 t xs = as @ bs" by metis
  show ?thesis using unlink_split [of s as t bs l] assms(1,2,4) unfolding rm unfolding xs by blast
qed

definition prio_of :: "(ptr \<rightharpoonup> os_tcb) \<Rightarrow> ptr \<Rightarrow> u32" where
  "prio_of m x = (case m x of Some c \<Rightarrow> priority c | None \<Rightarrow> 0)"

lemma prio_of_data_eq:
  assumes "data_eq m m'"
  shows "prio_of m' x = prio_of m x"
proof -
  have "map_option erase (m' x) = map_option erase (m x)" using assms by (simp add: data_eq_def)
  then show ?thesis by (cases "m x"; cases "m' x") (auto simp: prio_of_def dest: erase_fields(1))
qed

text \<open>Insertion behind the entries of the same or a higher priority.\<close>

definition wait_ins :: "(ptr \<rightharpoonup> os_tcb) \<Rightarrow> ptr \<Rightarrow> ptr list \<Rightarrow> ptr list" where
  "wait_ins m t xs = takeWhile (\<lambda>x. prio_of m x \<le> prio_of m t) xs @ t # dropWhile (\<lambda>x. prio_of m x \<le> prio_of m t) xs"

lemma wait_pos_walk:
  assumes "dseg (tcbs s) p xs NULL"
  shows "wait_pos s prio q (first_ptr NULL xs)
     = Some (last_ptr q (takeWhile (\<lambda>x. prio_of (tcbs s) x \<le> prio) xs),
             first_ptr NULL (dropWhile (\<lambda>x. prio_of (tcbs s) x \<le> prio) xs))"
  using assms
proof (induction xs arbitrary: p q)
  case (Cons x xs)
  then obtain c where "tcbs s x = Some c" "tcb_next c = first_ptr NULL xs" "x \<noteq> NULL"
    by (auto simp: link_Some)
  with Cons show ?case
    by (subst wait_pos.simps) (auto simp: get_tcb_def prio_of_def not_le)
qed (simp add: wait_pos.simps)

lemma insert_split:
  assumes d: "dseg (tcbs s) NULL (as @ bs) NULL" and dist: "distinct (as @ bs)" "t \<notin> set (as @ bs)"
    and t: "t \<noteq> NULL" "tcbs s t = Some c"
    and hd: "list_head s l = first_ptr NULL (as @ bs)"
    and w: "wait_pos s (priority c) NULL (list_head s l) = Some (last_ptr NULL as, first_ptr NULL bs)"
  shows "\<exists>m'. wait_insert l t s = Some (set_list_head l (first_ptr NULL (as @ t # bs)) (s\<lparr>tcbs := m'\<rparr>))
     \<and> dseg m' NULL (as @ t # bs) NULL \<and> same_outside (insert t (set (as @ bs))) (tcbs s) m'
     \<and> data_eq (tcbs s) m'"
proof -
  have n: "t \<notin> set as" "t \<notin> set bs" "set as \<inter> set bs = {}" "distinct as" "distinct bs" using dist by auto
  have da: "dseg (tcbs s) NULL as (first_ptr NULL bs)" and db: "dseg (tcbs s) (last_ptr NULL as) bs NULL"
    using d by simp_all
  have "wait_insert l t s =
     do { s \<leftarrow> upd_tcb t (\<lambda>c. c\<lparr>tcb_next := first_ptr NULL bs, tcb_prev := last_ptr NULL as\<rparr>) s;
          s \<leftarrow> (if first_ptr NULL bs \<noteq> NULL then upd_tcb (first_ptr NULL bs) (\<lambda>c. c\<lparr>tcb_prev := t\<rparr>) s else Some s);
          if last_ptr NULL as \<noteq> NULL then upd_tcb (last_ptr NULL as) (\<lambda>c. c\<lparr>tcb_next := t\<rparr>) s
          else Some (set_list_head l t s) }"
    using t by (simp add: wait_insert_def w get_tcb_def)
  note ds = this get_tcb_def upd_tcb_def
  consider (a) "as = []" "bs = []" | (b) b bs' where "as = []" "bs = b # bs'"
    | (cc) a as' where "as = as' @ [a]" "bs = []" | (dd) a as' b bs' where "as = as' @ [a]" "bs = b # bs'"
    by (metis list.exhaust rev_exhaust)
  then show ?thesis
  proof cases
    case a
    then show ?thesis using t
      by (intro exI [of _ "(tcbs s)(t \<mapsto> c\<lparr>tcb_next := NULL, tcb_prev := NULL\<rparr>)"])
        (simp add: ds data_eq_upd same_outside_upd)
  next
    case b
    then obtain cb where "tcbs s b = Some cb" "b \<noteq> NULL" using db by (auto simp: link_Some)
    then show ?thesis using t b db n
      by (intro exI [of _ "(tcbs s)(t \<mapsto> c\<lparr>tcb_next := b, tcb_prev := NULL\<rparr>, b \<mapsto> cb\<lparr>tcb_prev := t\<rparr>)"])
        (auto simp: ds link_Some intro!: data_eq_upd same_outside_upd)
  next
    case cc
    then obtain ca where "tcbs s a = Some ca" "a \<noteq> NULL" using da by (auto simp: link_Some)
    moreover have "list_head s l = first_ptr NULL as" using hd cc by simp
    ultimately show ?thesis using t cc da n
      by (intro exI [of _ "(tcbs s)(t \<mapsto> c\<lparr>tcb_next := NULL, tcb_prev := a\<rparr>, a \<mapsto> ca\<lparr>tcb_next := t\<rparr>)"])
        (auto simp: ds link_Some set_list_head_id intro!: data_eq_upd same_outside_upd)
  next
    case dd
    then obtain ca where "tcbs s a = Some ca" "a \<noteq> NULL" using da by (auto simp: link_Some)
    moreover obtain cb where "tcbs s b = Some cb" "b \<noteq> NULL" using db dd by (auto simp: link_Some)
    moreover have "list_head s l = first_ptr NULL as" using hd dd by simp
    ultimately show ?thesis using t dd da db n
      by (intro exI [of _ "(tcbs s)(t \<mapsto> c\<lparr>tcb_next := b, tcb_prev := a\<rparr>, b \<mapsto> cb\<lparr>tcb_prev := t\<rparr>, a \<mapsto> ca\<lparr>tcb_next := t\<rparr>)"])
        (auto simp: ds link_Some set_list_head_id intro!: data_eq_upd same_outside_upd)
  qed
qed

lemma wait_insert_dseg:
  assumes d: "dseg (tcbs s) NULL xs NULL" "distinct xs" "t \<notin> set xs" "t \<noteq> NULL" "tcbs s t = Some c"
    and hd: "list_head s l = first_ptr NULL xs"
  shows "\<exists>m'. wait_insert l t s = Some (set_list_head l (first_ptr NULL (wait_ins (tcbs s) t xs)) (s\<lparr>tcbs := m'\<rparr>))
     \<and> dseg m' NULL (wait_ins (tcbs s) t xs) NULL \<and> same_outside (insert t (set xs)) (tcbs s) m'
     \<and> data_eq (tcbs s) m'"
proof -
  let ?P = "\<lambda>x. prio_of (tcbs s) x \<le> prio_of (tcbs s) t"
  have xs: "takeWhile ?P xs @ dropWhile ?P xs = xs" by simp
  have p: "prio_of (tcbs s) t = priority c" using d by (simp add: prio_of_def)
  have "wait_pos s (priority c) NULL (list_head s l)
      = Some (last_ptr NULL (takeWhile ?P xs), first_ptr NULL (dropWhile ?P xs))"
    unfolding hd using wait_pos_walk [OF d(1), of "priority c" NULL] by (simp add: p)
  from insert_split [of s "takeWhile ?P xs" "dropWhile ?P xs" t c l, unfolded xs, OF d hd this]
  show ?thesis by (simp add: wait_ins_def)
qed


section \<open>Ready lists\<close>

lemma rl_collapse:
  "r\<lparr>rl_head := h, rl_tail := t, rl_count := n\<rparr> = \<lparr>rl_head = h, rl_tail = t, rl_count = n\<rparr>"
  "r\<lparr>rl_tail := t, rl_count := n\<rparr> = \<lparr>rl_head = rl_head r, rl_tail = t, rl_count = n\<rparr>"
  "r\<lparr>rl_head := h, rl_count := n\<rparr> = \<lparr>rl_head = h, rl_tail = rl_tail r, rl_count = n\<rparr>"
  "r\<lparr>rl_count := n\<rparr> = \<lparr>rl_head = rl_head r, rl_tail = rl_tail r, rl_count = n\<rparr>"
  for r :: os_ready_list
  by (cases r; simp)+

lemma add_to_ready_dseg:
  assumes d: "dseg (tcbs s) NULL xs NULL" "distinct xs" "t \<notin> set xs" "t \<noteq> NULL" "tcbs s t = Some c"
    and p: "priority c < 8" "p = unat (priority c)"
    and r: "rl_head (ready_list s p) = first_ptr NULL xs" "rl_tail (ready_list s p) = last_ptr NULL xs"
      "rl_count (ready_list s p) = of_nat (length xs)"
    and b: "bit (ready_bitmap s) p \<longleftrightarrow> xs \<noteq> []"
  shows "\<exists>m'. os_task_add_to_ready t s =
       Some (s\<lparr>tcbs := m', ready_list := (ready_list s)(p := \<lparr>rl_head = first_ptr NULL (xs @ [t]), rl_tail = t,
                 rl_count = of_nat (length (xs @ [t]))\<rparr>), ready_bitmap := ready_bitmap s OR push_bit p 1\<rparr>)
     \<and> dseg m' NULL (xs @ [t]) NULL \<and> same_outside (insert t (set xs)) (tcbs s) m'
     \<and> data_eq ((tcbs s)(t \<mapsto> c\<lparr>tcb_state := OS_TASK_READY\<rparr>)) m'"
proof (cases xs rule: rev_cases)
  case Nil
  then show ?thesis using d p r
    by (intro exI [of _ "(tcbs s)(t \<mapsto> c\<lparr>tcb_state := OS_TASK_READY, tcb_next := NULL, tcb_prev := NULL\<rparr>)"])
      (auto simp: os_task_add_to_ready_def get_tcb_def upd_tcb_def upd_rl_def Let_def rl_collapse same_outside_def data_eq_def erase_def)
next
  case (snoc ys a)
  then obtain ca where ca: "tcbs s a = Some ca" "a \<noteq> NULL" using d by (auto simp: link_Some)
  have "ready_bitmap s OR push_bit p 1 = ready_bitmap s"
    using b snoc by (auto intro!: bit_word_eqI simp: bit_simps)
  then show ?thesis using d p r snoc ca
    by (intro exI [of _ "(tcbs s)(t \<mapsto> c\<lparr>tcb_state := OS_TASK_READY, tcb_next := NULL, tcb_prev := a\<rparr>, a \<mapsto> ca\<lparr>tcb_next := t\<rparr>)"])
      (auto simp: os_task_add_to_ready_def get_tcb_def upd_tcb_def upd_rl_def Let_def rl_collapse link_Some same_outside_def
        data_eq_def erase_def algebra_simps)
qed

lemma distinct_ptr_length:
  fixes xs :: "ptr list"
  assumes "distinct xs" "NULL \<notin> set xs"
  shows "length xs < 2 ^ 32"
proof -
  have "card (insert NULL (set xs)) \<le> card (UNIV :: ptr set)" by (rule card_mono) simp_all
  moreover have "card (insert NULL (set xs)) = Suc (length xs)"
    using assms by (simp add: distinct_card)
  ultimately show ?thesis by (simp add: card_word)
qed

lemma of_nat_u32_0_iff: "n < 2 ^ 32 \<Longrightarrow> (of_nat n = (0 :: u32)) = (n = 0)"
  using of_nat_u32_eq_iff [of n 0] by simp

lemma remove_from_ready_split:
  assumes d: "dseg (tcbs s) NULL (as @ t # bs) NULL" "distinct (as @ t # bs)" "tcbs s t = Some c"
    and p: "priority c < 8" "p = unat (priority c)"
    and r: "ready_list s p = \<lparr>rl_head = first_ptr NULL (as @ t # bs), rl_tail = last_ptr NULL (as @ t # bs),
      rl_count = of_nat (length (as @ t # bs))\<rparr>"
  shows "\<exists>m'. os_task_remove_from_ready t s =
       Some (s\<lparr>tcbs := m', ready_list := (ready_list s)(p := \<lparr>rl_head = first_ptr NULL (as @ bs),
                 rl_tail = last_ptr NULL (as @ bs), rl_count = of_nat (length (as @ bs))\<rparr>),
               ready_bitmap := (if as @ bs = [] then ready_bitmap s AND NOT (push_bit p 1) else ready_bitmap s)\<rparr>)
     \<and> dseg m' NULL (as @ bs) NULL \<and> same_outside (set (as @ t # bs)) (tcbs s) m' \<and> data_eq (tcbs s) m'
     \<and> link m' t = Some (NULL, NULL)"
proof -
  have n: "t \<notin> set as" "t \<notin> set bs" "set as \<inter> set bs = {}" "distinct as" "distinct bs" using d(2) by auto
  from d(1) have tz: "t \<noteq> NULL" and da: "dseg (tcbs s) NULL as t" and db: "dseg (tcbs s) t bs NULL"
    and c: "tcb_prev c = last_ptr NULL as" "tcb_next c = first_ptr NULL bs" using d(3) by (auto simp: link_def)
  have "NULL \<notin> set (as @ t # bs)" using dseg_nonnull [OF d(1)] .
  then have z: "NULL \<notin> set as" "NULL \<notin> set bs" by auto
  have len: "(0 :: u32) < of_nat (length as) + (1 + of_nat (length bs))"
    using distinct_ptr_length [OF d(2) dseg_nonnull [OF d(1)]] of_nat_u32_0_iff [of "length (as @ t # bs)"]
    by (simp add: word_neq_0_conv algebra_simps)
  let ?c = "c\<lparr>tcb_next := NULL, tcb_prev := NULL\<rparr>"
  note ds = os_task_remove_from_ready_def get_tcb_def upd_tcb_def upd_rl_def Let_def rl_collapse
  consider (a) "as = []" "bs = []" | (b) b bs' where "as = []" "bs = b # bs'"
    | (cc) a as' where "as = as' @ [a]" "bs = []" | (dd) a as' b bs' where "as = as' @ [a]" "bs = b # bs'"
    by (metis list.exhaust rev_exhaust)
  then show ?thesis
  proof cases
    case a
    then show ?thesis using c tz d(3) p r
      by (intro exI [of _ "(tcbs s)(t \<mapsto> ?c)"]) (simp add: ds data_eq_upd same_outside_upd)
  next
    case b
    then obtain cb where "tcbs s b = Some cb" "b \<noteq> NULL" using db by (auto simp: link_Some)
    then show ?thesis using c tz b db n d(3) p r len
      by (intro exI [of _ "(tcbs s)(b \<mapsto> cb\<lparr>tcb_prev := NULL\<rparr>, t \<mapsto> ?c)"])
        (auto simp: ds link_Some intro!: data_eq_upd same_outside_upd)
  next
    case cc
    then obtain ca where "tcbs s a = Some ca" "a \<noteq> NULL" "tcb_next ca = t" using da by (auto simp: link_Some)
    moreover have "first_ptr a as' \<noteq> NULL" using z cc by (cases as') auto
    ultimately show ?thesis using c tz cc da n d(3) p r len
      by (intro exI [of _ "(tcbs s)(a \<mapsto> ca\<lparr>tcb_next := NULL\<rparr>, t \<mapsto> ?c)"])
        (auto simp: ds link_Some intro!: data_eq_upd same_outside_upd)
  next
    case dd
    then obtain ca where "tcbs s a = Some ca" "a \<noteq> NULL" "tcb_next ca = t" using da by (auto simp: link_Some)
    moreover obtain cb where "tcbs s b = Some cb" "b \<noteq> NULL" "tcb_prev cb = t" using db dd by (auto simp: link_Some)
    moreover have "first_ptr a as' \<noteq> NULL" using z dd by (cases as') auto
    ultimately show ?thesis using c tz dd da db n d(3) p r len
      by (intro exI [of _ "(tcbs s)(a \<mapsto> ca\<lparr>tcb_next := b\<rparr>, b \<mapsto> cb\<lparr>tcb_prev := a\<rparr>, t \<mapsto> ?c)"])
        (auto simp: ds link_Some intro!: data_eq_upd same_outside_upd)
  qed
qed

end
