(* ===== verification/Task_State.thy ===== *)
theory Task_State
  imports Task_Lists
begin

unbundle bit_operations_syntax

text \<open>
  The abstract state of the task lists and the refinement of the list operations of
  \<open>kernel/task.c\<close> and of the wait lists to list functions on it.
\<close>

section \<open>The abstract state\<close>

text \<open>
  \<open>view\<close> is the data of the tasks without the link fields; \<open>rep s A V\<close> says that \<open>s\<close>
  holds the lists \<open>A\<close> and the task data \<open>V\<close>, and \<open>frame s s'\<close> that nothing but the
  task lists and the task data changed.
\<close>

definition view :: "(ptr \<rightharpoonup> os_tcb) \<Rightarrow> ptr \<rightharpoonup> os_tcb" where
  "view m = (\<lambda>x. map_option erase (m x))"

definition rep :: "os \<Rightarrow> tlists \<Rightarrow> (ptr \<rightharpoonup> os_tcb) \<Rightarrow> bool" where
  "rep s A V \<longleftrightarrow> links_ok A s \<and> view (tcbs s) = V"

definition strip_lists :: "os \<Rightarrow> os" where
  "strip_lists s = s\<lparr>tcbs := Map.empty, ready_list := (\<lambda>_. \<lparr>rl_head = 0, rl_tail = 0, rl_count = 0\<rparr>),
     ready_bitmap := 0, blocked_list := 0, deferred_delete_list := 0,
     queues := (\<lambda>q. (queues s q)\<lparr>send_wait_list := 0, recv_wait_list := 0\<rparr>),
     sems := (\<lambda>x. (sems s x)\<lparr>sem_wait_list := 0\<rparr>),
     mutexes := (\<lambda>x. (mutexes s x)\<lparr>mutex_wait_list := 0\<rparr>),
     eventgroups := (\<lambda>x. (eventgroups s x)\<lparr>eg_wait_list := 0\<rparr>)\<rparr>"

definition frame :: "os \<Rightarrow> os \<Rightarrow> bool" where
  "frame s s' \<longleftrightarrow> strip_lists s' = strip_lists s"

lemma frame_refl [simp]: "frame s s"
  by (simp add: frame_def)

lemma frame_trans: "frame a b \<Longrightarrow> frame b c \<Longrightarrow> frame a c"
  by (simp add: frame_def)

lemma frame_os:
  assumes "frame s s'"
  shows "heap s' = heap s" "mem8 s' = mem8 s" "mem32 s' = mem32 s" "timers s' = timers s"
    "task_table s' = task_table s" "task_count s' = task_count s" "idle_hooks s' = idle_hooks s"
    "idle_hook_count s' = idle_hook_count s" "task_delete_hook s' = task_delete_hook s"
    "current_task_ptr s' = current_task_ptr s" "primask s' = primask s" "icsr s' = icsr s"
    "periph s' = periph s" "scheduler_running s' = scheduler_running s"
    "critical_nesting s' = critical_nesting s" "yield_pending s' = yield_pending s"
    "saved_mask s' = saved_mask s" "last_switch_tick s' = last_switch_tick s"
    "active_timer_list s' = active_timer_list s" "expired_list s' = expired_list s"
    "trace s' = trace s" "wdt s' = wdt s" "system_tick s' = system_tick s"
  using assms unfolding frame_def strip_lists_def by (cases s; cases s'; simp)+

lemma frame_tick_hooks:
  assumes "frame s s'"
  shows "tick_hook_count s' = tick_hook_count s" "tick_hooks s' = tick_hooks s" "kernel_initialized s' = kernel_initialized s"
    "timer_initialized s' = timer_initialized s" "timer_task_handle s' = timer_task_handle s" "stack_overflow_hook s' = stack_overflow_hook s"
  using assms unfolding frame_def strip_lists_def by (cases s; cases s'; simp)+

lemma frame_objects:
  assumes "frame s s'"
  shows "q_buffer (queues s' q) = q_buffer (queues s q)" "item_size (queues s' q) = item_size (queues s q)"
    "max_items (queues s' q) = max_items (queues s q)" "q_count (queues s' q) = q_count (queues s q)"
    "q_head (queues s' q) = q_head (queues s q)" "q_tail (queues s' q) = q_tail (queues s q)"
    "buf_size (queues s' q) = buf_size (queues s q)" "sem_count (sems s' x) = sem_count (sems s x)"
    "max_count (sems s' x) = max_count (sems s x)" "mutex_owner (mutexes s' x) = mutex_owner (mutexes s x)"
    "lock_count (mutexes s' x) = lock_count (mutexes s x)"
    "original_prio (mutexes s' x) = original_prio (mutexes s x)"
    "eg_bits (eventgroups s' x) = eg_bits (eventgroups s x)"
proof -
  have "queues (strip_lists s') q = queues (strip_lists s) q" "sems (strip_lists s') x = sems (strip_lists s) x"
    "mutexes (strip_lists s') x = mutexes (strip_lists s) x"
    "eventgroups (strip_lists s') x = eventgroups (strip_lists s) x"
    using assms by (simp_all add: frame_def)
  then show "q_buffer (queues s' q) = q_buffer (queues s q)" "item_size (queues s' q) = item_size (queues s q)"
    "max_items (queues s' q) = max_items (queues s q)" "q_count (queues s' q) = q_count (queues s q)"
    "q_head (queues s' q) = q_head (queues s q)" "q_tail (queues s' q) = q_tail (queues s q)"
    "buf_size (queues s' q) = buf_size (queues s q)" "sem_count (sems s' x) = sem_count (sems s x)"
    "max_count (sems s' x) = max_count (sems s x)" "mutex_owner (mutexes s' x) = mutex_owner (mutexes s x)"
    "lock_count (mutexes s' x) = lock_count (mutexes s x)"
    "original_prio (mutexes s' x) = original_prio (mutexes s x)"
    "eg_bits (eventgroups s' x) = eg_bits (eventgroups s x)"
    by (simp_all add: strip_lists_def) (cases "queues s' q"; cases "queues s q"; cases "sems s' x"; cases "sems s x";
      cases "mutexes s' x"; cases "mutexes s x"; cases "eventgroups s' x"; cases "eventgroups s x"; simp)+
qed

lemma data_eq_view: "data_eq m m' \<longleftrightarrow> view m' = view m"
  by (auto simp: data_eq_def view_def fun_eq_iff)

lemma view_upd [simp]: "view (m(t \<mapsto> c)) = (view m)(t \<mapsto> erase c)"
  by (auto simp: view_def)

lemma view_Some: "view m x = Some d \<longleftrightarrow> (\<exists>c. m x = Some c \<and> erase c = d)"
  by (auto simp: view_def)

lemma view_None [simp]: "view m x = None \<longleftrightarrow> m x = None"
  by (simp add: view_def)

lemma erase_upd [simp]:
  "erase (c\<lparr>tcb_state := a1\<rparr>) = (erase c)\<lparr>tcb_state := a1\<rparr>"
  "erase (c\<lparr>priority := a2\<rparr>) = (erase c)\<lparr>priority := a2\<rparr>"
  "erase (c\<lparr>delay_ticks := a2\<rparr>) = (erase c)\<lparr>delay_ticks := a2\<rparr>"
  "erase (c\<lparr>blocked_on := a3\<rparr>) = (erase c)\<lparr>blocked_on := a3\<rparr>"
  "erase (c\<lparr>blocked_reason := a4\<rparr>) = (erase c)\<lparr>blocked_reason := a4\<rparr>"
  "erase (c\<lparr>timed_out := a5\<rparr>) = (erase c)\<lparr>timed_out := a5\<rparr>"
  "erase (c\<lparr>pending_delete := a5\<rparr>) = (erase c)\<lparr>pending_delete := a5\<rparr>"
  "erase (c\<lparr>stack_high_water := a2\<rparr>) = (erase c)\<lparr>stack_high_water := a2\<rparr>"
  "erase (c\<lparr>stack_ptr := a3\<rparr>) = (erase c)\<lparr>stack_ptr := a3\<rparr>"
  "erase (c\<lparr>event_wait_bits := a2\<rparr>) = (erase c)\<lparr>event_wait_bits := a2\<rparr>"
  "erase (c\<lparr>event_wait_options := a2\<rparr>) = (erase c)\<lparr>event_wait_options := a2\<rparr>"
  "erase (c\<lparr>event_return_bits := a2\<rparr>) = (erase c)\<lparr>event_return_bits := a2\<rparr>"
  "erase (c\<lparr>notify_value := a2\<rparr>) = (erase c)\<lparr>notify_value := a2\<rparr>"
  "erase (c\<lparr>notify_pending := a5\<rparr>) = (erase c)\<lparr>notify_pending := a5\<rparr>"
  "erase (c\<lparr>run_time_ticks := a2\<rparr>) = (erase c)\<lparr>run_time_ticks := a2\<rparr>"
  by (simp_all add: erase_def)

lemma erase_sel [simp]:
  "tcb_state (erase c) = tcb_state c" "priority (erase c) = priority c" "delay_ticks (erase c) = delay_ticks c"
  "blocked_on (erase c) = blocked_on c" "blocked_reason (erase c) = blocked_reason c"
  "timed_out (erase c) = timed_out c" "stack_base (erase c) = stack_base c" "stack_size (erase c) = stack_size c"
  "stack_ptr (erase c) = stack_ptr c" "stack_high_water (erase c) = stack_high_water c"
  "event_wait_bits (erase c) = event_wait_bits c" "event_wait_options (erase c) = event_wait_options c"
  "event_return_bits (erase c) = event_return_bits c" "notify_value (erase c) = notify_value c"
  "notify_pending (erase c) = notify_pending c" "run_time_ticks (erase c) = run_time_ticks c"
  "tcb_name (erase c) = tcb_name c" "pending_delete (erase c) = pending_delete c"
  by (simp_all add: erase_def)

lemma erase_erase [simp]: "erase (erase c) = erase c"
  by (simp add: erase_def)

lemma prio_of_view: "prio_of (view m) x = prio_of m x"
  by (simp add: prio_of_def view_def option.case_eq_if option.map_sel)

section \<open>Congruence and update of the representation\<close>

lemma links_ok_cong:
  assumes "tcbs s' = tcbs s" "ready_list s' = ready_list s" "ready_bitmap s' = ready_bitmap s"
    "\<And>l. list_head s' l = list_head s l"
  shows "links_ok A s' = links_ok A s"
  by (simp add: links_ok_def list_ok_def ready_ok_def assms)

lemma rep_cong:
  assumes "tcbs s' = tcbs s" "ready_list s' = ready_list s" "ready_bitmap s' = ready_bitmap s"
    "\<And>l. list_head s' l = list_head s l"
  shows "rep s' A V = rep s A V"
  using links_ok_cong [OF assms, of A] assms(1) by (simp add: rep_def)

lemma list_head_cong:
  assumes "ready_list s' = ready_list s" "blocked_list s' = blocked_list s"
    "deferred_delete_list s' = deferred_delete_list s" "queues s' = queues s" "sems s' = sems s"
    "mutexes s' = mutexes s" "eventgroups s' = eventgroups s"
  shows "list_head s' l = list_head s l"
  using assms by (cases l) simp_all

lemma rep_other [simp]:
  "rep (s\<lparr>heap := x1\<rparr>) A V = rep s A V" "rep (s\<lparr>mem8 := x2\<rparr>) A V = rep s A V"
  "rep (s\<lparr>mem32 := x3\<rparr>) A V = rep s A V" "rep (s\<lparr>timers := x4\<rparr>) A V = rep s A V"
  "rep (s\<lparr>task_table := x5\<rparr>) A V = rep s A V" "rep (s\<lparr>task_count := x6\<rparr>) A V = rep s A V"
  "rep (s\<lparr>current_task_ptr := x7\<rparr>) A V = rep s A V" "rep (s\<lparr>primask := x8\<rparr>) A V = rep s A V"
  "rep (s\<lparr>icsr := x9\<rparr>) A V = rep s A V" "rep (s\<lparr>scheduler_running := x10\<rparr>) A V = rep s A V"
  "rep (s\<lparr>critical_nesting := x11\<rparr>) A V = rep s A V" "rep (s\<lparr>yield_pending := x12\<rparr>) A V = rep s A V"
  "rep (s\<lparr>saved_mask := x13\<rparr>) A V = rep s A V" "rep (s\<lparr>last_switch_tick := x14\<rparr>) A V = rep s A V"
  "rep (s\<lparr>active_timer_list := x15\<rparr>) A V = rep s A V" "rep (s\<lparr>expired_list := x16\<rparr>) A V = rep s A V"
  "rep (s\<lparr>trace := x17\<rparr>) A V = rep s A V" "rep (s\<lparr>wdt := x18\<rparr>) A V = rep s A V"
  "rep (s\<lparr>system_tick := x19\<rparr>) A V = rep s A V" "rep (s\<lparr>periph := x20\<rparr>) A V = rep s A V"
  "rep (s\<lparr>timer_task_handle := x21\<rparr>) A V = rep s A V" "rep (s\<lparr>timer_initialized := x22\<rparr>) A V = rep s A V"
  "rep (s\<lparr>kernel_initialized := x23\<rparr>) A V = rep s A V" "rep (s\<lparr>idle_hooks := x24\<rparr>) A V = rep s A V"
  "rep (s\<lparr>idle_hook_count := x25\<rparr>) A V = rep s A V" "rep (s\<lparr>stack_overflow_hook := x26\<rparr>) A V = rep s A V"
  "rep (s\<lparr>task_delete_hook := x27\<rparr>) A V = rep s A V" "rep (s\<lparr>tick_hooks := x28\<rparr>) A V = rep s A V"
  "rep (s\<lparr>tick_hook_count := x29\<rparr>) A V = rep s A V"
  by (rule rep_cong; (simp; fail | rule list_head_cong; simp))+

lemma rep_Some: "rep s A V \<Longrightarrow> V t = Some d \<Longrightarrow> \<exists>c. tcbs s t = Some c \<and> erase c = d"
  by (auto simp: rep_def view_Some)

lemma rep_member:
  assumes "rep s A V" "t \<in> set (A l)"
  shows "t \<noteq> NULL" "\<exists>d. V t = Some d"
proof -
  have sg: "seg l (tcbs s) (A l)" using assms(1) by (simp add: rep_def links_ok_def list_ok_def)
  then show "t \<noteq> NULL" using assms(2) dseg_nonnull sseg_nonnull
    by (metis seg_def)
  have "\<exists>c. tcbs s t = Some c" using sg assms(2) dseg_Some sseg_Some by (metis seg_def)
  then show "\<exists>d. V t = Some d" using assms(1) by (auto simp: rep_def view_def)
qed

lemma rep_ready_prio:
  assumes "rep s A V" "t \<in> set (A (Ready p))"
  shows "\<exists>d. V t = Some d \<and> unat (priority d) = p \<and> p < 8 \<and> priority d < 8"
proof -
  have p: "p < 8" using assms by (auto simp: rep_def links_ok_def ready_ok_def)
  have "ready_ok A s" using assms(1) by (simp add: rep_def links_ok_def)
  then obtain c where "tcbs s t = Some c" "unat (priority c) = p"
    using assms(2) unfolding ready_ok_def by blast
  then show ?thesis using assms(1) p by (auto simp: rep_def view_def word_less_nat_alt)
qed

lemma list_ok_update:
  assumes "list_ok A s" and hd: "\<And>l'. list_head s' l' = (if l' = l then first_ptr NULL ys else list_head s l')"
    and so: "same_outside S (tcbs s) (tcbs s')" "S \<subseteq> insert t (set (A l))"
    and ys: "seg l (tcbs s') ys" "distinct ys" "set ys \<subseteq> insert t (set (A l))"
    and t: "\<And>l'. l' \<noteq> l \<Longrightarrow> t \<notin> set (A l')"
  shows "list_ok (A(l := ys)) s'"
proof -
  have dj: "set (A l') \<inter> insert t (set (A l)) = {}" if "l' \<noteq> l" for l'
    using assms(1) t [OF that] that by (auto simp: list_ok_def)
  have "seg l' (tcbs s') (A l')" if "l' \<noteq> l" for l'
  proof -
    have "set (A l') \<inter> S = {}" using dj [OF that] so(2) by auto
    moreover have "seg l' (tcbs s) (A l')" using assms(1) by (simp add: list_ok_def)
    ultimately show ?thesis
      using dseg_same_outside [OF _ so(1)] sseg_same_outside [OF _ so(1)] by (auto simp: seg_def split: if_splits)
  qed
  moreover have "set ((A(l := ys)) a) \<inter> set ((A(l := ys)) b) = {}" if "a \<noteq> b" for a b
  proof -
    have "a \<noteq> l \<Longrightarrow> b \<noteq> l \<Longrightarrow> ?thesis" using that assms(1) by (simp add: list_ok_def)
    moreover have "a = l \<Longrightarrow> ?thesis" using dj [of b] that ys(3) by auto
    moreover have "b = l \<Longrightarrow> ?thesis" using dj [of a] that ys(3) by auto
    ultimately show ?thesis by blast
  qed
  ultimately show ?thesis using assms(1) hd ys(1,2) by (auto simp: list_ok_def)
qed

section \<open>The list operations on the abstract state\<close>

lemma ready_ok_view:
  "ready_ok A s \<longleftrightarrow>
     (\<forall>p. rl_tail (ready_list s p) = last_ptr NULL (A (Ready p))
        \<and> rl_count (ready_list s p) = of_nat (length (A (Ready p))))
     \<and> (\<forall>p. A (Ready p) \<noteq> [] \<longrightarrow> p < 8)
     \<and> (\<forall>i. bit (ready_bitmap s) i \<longleftrightarrow> A (Ready i) \<noteq> [])
     \<and> (\<forall>p. \<forall>t \<in> set (A (Ready p)). \<exists>d. view (tcbs s) t = Some d \<and> unat (priority d) = p)"
proof -
  have "(\<exists>c. tcbs s t = Some c \<and> unat (priority c) = p) \<longleftrightarrow> (\<exists>d. view (tcbs s) t = Some d \<and> unat (priority d) = p)"
    for t p by (auto simp: view_def)
  then show ?thesis unfolding ready_ok_def by simp
qed

lemma rep_list_ok: "rep s A V \<Longrightarrow> list_ok A s" and rep_ready_ok: "rep s A V \<Longrightarrow> ready_ok A s"
  and rep_view: "rep s A V \<Longrightarrow> view (tcbs s) = V"
  by (auto simp: rep_def links_ok_def)

lemma rep_list:
  assumes "rep s A V" "l \<noteq> Deferred"
  shows "dseg (tcbs s) NULL (A l) NULL" "distinct (A l)" "list_head s l = first_ptr NULL (A l)"
  using rep_list_ok [OF assms(1)] assms(2) by (auto simp: list_ok_def seg_def)

lemma rep_disjoint_lists: "rep s A V \<Longrightarrow> t \<in> set (A l) \<Longrightarrow> l' \<noteq> l \<Longrightarrow> t \<notin> set (A l')"
  using rep_list_ok [of s A V] unfolding list_ok_def by blast

lemma rep_ready_list:
  assumes "rep s A V"
  shows "ready_list s p = \<lparr>rl_head = first_ptr NULL (A (Ready p)), rl_tail = last_ptr NULL (A (Ready p)),
     rl_count = of_nat (length (A (Ready p)))\<rparr>"
proof -
  have "rl_tail (ready_list s p) = last_ptr NULL (A (Ready p))"
    "rl_count (ready_list s p) = of_nat (length (A (Ready p)))"
    using rep_ready_ok [OF assms] by (auto simp: ready_ok_def)
  then show ?thesis using rep_list(3) [OF assms, of "Ready p"] by (cases "ready_list s p") simp
qed

text \<open>An update of data fields that is independent of the links.\<close>

definition data_upd :: "(os_tcb \<Rightarrow> os_tcb) \<Rightarrow> bool" where
  "data_upd f \<longleftrightarrow> (\<forall>c. erase (f c) = f (erase c) \<and> tcb_next (f c) = tcb_next c \<and> tcb_prev (f c) = tcb_prev c
     \<and> priority (f c) = priority c)"

lemma dseg_upd_same: "m t = Some c \<Longrightarrow> tcb_next c' = tcb_next c \<Longrightarrow> tcb_prev c' = tcb_prev c \<Longrightarrow>
    dseg (m(t \<mapsto> c')) p xs n = dseg m p xs n"
  by (induction m p xs n rule: dseg.induct) (auto simp: link_def)

lemma sseg_upd_same: "m t = Some c \<Longrightarrow> tcb_next c' = tcb_next c \<Longrightarrow> sseg (m(t \<mapsto> c')) xs = sseg m xs"
  by (induction m xs rule: sseg.induct) auto

lemma upd_tcb_rep:
  assumes "rep s A V" "t \<noteq> NULL" "V t = Some d" "data_upd f"
  shows "\<exists>s'. upd_tcb t f s = Some s' \<and> rep s' A (V(t \<mapsto> f d)) \<and> frame s s'"
proof -
  obtain c where c: "tcbs s t = Some c" "erase c = d" using rep_Some [OF assms(1,3)] by blast
  let ?s = "s\<lparr>tcbs := (tcbs s)(t \<mapsto> f c)\<rparr>"
  have f: "erase (f c) = f d" "tcb_next (f c) = tcb_next c" "tcb_prev (f c) = tcb_prev c" "priority (f c) = priority c"
    "priority d = priority c" using assms(4) c by (auto simp: data_upd_def)
  have v: "view (tcbs ?s) = V(t \<mapsto> f d)" using rep_view [OF assms(1)] f(1) by simp
  have "list_ok A ?s"
    using rep_list_ok [OF assms(1)] dseg_upd_same [of "tcbs s" t c "f c"] sseg_upd_same [of "tcbs s" t c "f c"] c f
    by (simp add: list_ok_def seg_def del: fun_upd_apply)
  moreover have "ready_ok A ?s"
  proof -
    have "priority (f d) = priority d" using assms(4) by (simp add: data_upd_def)
    then have "\<exists>d'. (V(t \<mapsto> f d)) x = Some d' \<and> unat (priority d') = p" if "x \<in> set (A (Ready p))" for x p
      using rep_ready_prio [OF assms(1) that] assms(3) by auto
    then show ?thesis using rep_ready_ok [OF assms(1)] v
      by (simp add: ready_ok_view del: fun_upd_apply)
  qed
  ultimately have "rep ?s A (V(t \<mapsto> f d))" using v by (simp add: rep_def links_ok_def)
  moreover have "frame s ?s" by (simp add: frame_def strip_lists_def)
  ultimately show ?thesis using c assms(2) by (auto simp: upd_tcb_def get_tcb_def)
qed

lemma set_list_head_frame: "frame s (set_list_head l h (s\<lparr>tcbs := m\<rparr>))"
  by (cases l) (simp_all add: frame_def strip_lists_def fun_eq_iff)

definition wait_list :: "lid \<Rightarrow> bool" where
  "wait_list l \<longleftrightarrow> l \<noteq> Deferred \<and> (\<forall>p. l \<noteq> Ready p)"

lemma wait_list_simps [simp]: "wait_list Blocked" "wait_list (QSend q)" "wait_list (QRecv q)" "wait_list (SemW x)"
  "wait_list (MutexW x)" "wait_list (EventW x)"
  by (simp_all add: wait_list_def)

lemma set_list_head_ready [simp]:
  "wait_list l \<Longrightarrow> ready_list (set_list_head l h s) = ready_list s"
  "ready_bitmap (set_list_head l h s) = ready_bitmap s"
  by (cases l; simp add: wait_list_def)+

lemma rep_set_list:
  assumes r: "rep s A V" and l: "wait_list l"
    and m: "dseg m NULL ys NULL" "distinct ys" "set ys \<subseteq> insert t (set (A l))"
      "same_outside (insert t (set (A l))) (tcbs s) m" "data_eq (tcbs s) m" "\<And>l'. l' \<noteq> l \<Longrightarrow> t \<notin> set (A l')"
  shows "rep (set_list_head l (first_ptr NULL ys) (s\<lparr>tcbs := m\<rparr>)) (A(l := ys)) V"
proof -
  let ?s = "set_list_head l (first_ptr NULL ys) (s\<lparr>tcbs := m\<rparr>)"
  have "list_head ?s l' = (if l' = l then first_ptr NULL ys else list_head s l')" for l'
    by (cases "l' = l") simp_all
  then have "list_ok (A(l := ys)) ?s"
    using list_ok_update [OF rep_list_ok [OF r], of ?s l ys "insert t (set (A l))" t] m l
    by (simp add: seg_def wait_list_def)
  moreover have v: "view m = V" using m(5) rep_view [OF r] by (simp add: data_eq_view)
  moreover have "ready_ok (A(l := ys)) ?s"
    using rep_ready_ok [OF r] l rep_view [OF r] v by (auto simp: ready_ok_view wait_list_def)
  ultimately show ?thesis by (simp add: rep_def links_ok_def)
qed

lemma unlink_rep:
  assumes r: "rep s A V" and l: "wait_list l" and t: "t \<in> set (A l)"
  shows "\<exists>s'. unlink l t s = Some s' \<and> rep s' (A(l := remove1 t (A l))) V \<and> frame s s'"
proof -
  have nd: "l \<noteq> Deferred" using l by (simp add: wait_list_def)
  obtain m' where m': "unlink l t s = Some (set_list_head l (first_ptr NULL (remove1 t (A l))) (s\<lparr>tcbs := m'\<rparr>))"
     "dseg m' NULL (remove1 t (A l)) NULL" "same_outside (set (A l)) (tcbs s) m'" "data_eq (tcbs s) m'"
    using unlink_dseg [OF rep_list(1,2) [OF r nd] t rep_list(3) [OF r nd]] by blast
  have "t \<notin> set (A l')" if "l' \<noteq> l" for l' using rep_disjoint_lists [OF r t that] .
  then have "rep (set_list_head l (first_ptr NULL (remove1 t (A l))) (s\<lparr>tcbs := m'\<rparr>)) (A(l := remove1 t (A l))) V"
    using rep_set_list [OF r l m'(2), of t] m'(3,4) rep_list(2) [OF r nd] set_remove1_subset [of t "A l"] t
    by (simp add: insert_absorb)
  then show ?thesis using m'(1) set_list_head_frame by blast
qed

lemma set_wait_ins: "set (wait_ins m t xs) = insert t (set xs)"
proof -
  have "set (takeWhile P xs) \<union> set (dropWhile P xs) = set xs" for P
    by (metis set_append takeWhile_dropWhile_id)
  then show ?thesis by (auto simp: wait_ins_def)
qed

lemma distinct_wait_ins: "distinct xs \<Longrightarrow> t \<notin> set xs \<Longrightarrow> distinct (wait_ins m t xs)"
proof -
  have mid: "distinct (as @ bs) \<Longrightarrow> t \<notin> set (as @ bs) \<Longrightarrow> distinct (as @ t # bs)" for as bs by auto
  assume "distinct xs" "t \<notin> set xs"
  then show ?thesis unfolding wait_ins_def by (intro mid) (simp_all del: set_append)
qed

lemma wait_insert_rep:
  assumes r: "rep s A V" and l: "wait_list l" and t: "nowhere A t" "t \<noteq> NULL" "V t = Some d"
  shows "\<exists>s'. wait_insert l t s = Some s' \<and> rep s' (A(l := wait_ins V t (A l))) V \<and> frame s s'"
proof -
  have nd: "l \<noteq> Deferred" using l by (simp add: wait_list_def)
  obtain c where c: "tcbs s t = Some c" using rep_Some [OF r t(3)] by blast
  have ins: "wait_ins (tcbs s) t (A l) = wait_ins V t (A l)"
    using rep_view [OF r] by (simp add: wait_ins_def flip: prio_of_view [of "tcbs s"])
  have tl: "t \<notin> set (A l')" for l' using t(1) by (simp add: nowhere_def)
  have st: "set (wait_ins V t (A l)) = insert t (set (A l))" by (rule set_wait_ins)
  have dt: "distinct (wait_ins V t (A l))" using rep_list(2) [OF r nd] tl by (rule distinct_wait_ins)
  obtain m' where m': "wait_insert l t s = Some (set_list_head l (first_ptr NULL (wait_ins V t (A l))) (s\<lparr>tcbs := m'\<rparr>))"
     "dseg m' NULL (wait_ins V t (A l)) NULL" "same_outside (insert t (set (A l))) (tcbs s) m'" "data_eq (tcbs s) m'"
    using wait_insert_dseg [OF rep_list(1,2) [OF r nd] tl t(2) c rep_list(3) [OF r nd]] unfolding ins by blast
  show ?thesis
    using rep_set_list [OF r l m'(2) dt _ m'(3,4)] st tl m'(1) set_list_head_frame by blast
qed

lemma rep_set_ready:
  assumes r: "rep s A V" and p: "p < 8"
    and m: "dseg m NULL ys NULL" "distinct ys" "set ys \<subseteq> insert t (set (A (Ready p)))"
      "same_outside (insert t (set (A (Ready p)))) (tcbs s) m" "\<And>l'. l' \<noteq> Ready p \<Longrightarrow> t \<notin> set (A l')"
    and b: "\<And>i. bit b i \<longleftrightarrow> (if i = p then ys \<noteq> [] else bit (ready_bitmap s) i)"
    and v: "view m = V'" "\<And>x q. x \<in> set (A (Ready q)) \<Longrightarrow> x \<noteq> t \<Longrightarrow> V' x = V x"
      "t \<in> set ys \<Longrightarrow> \<exists>d. V' t = Some d \<and> unat (priority d) = p"
  shows "rep (s\<lparr>tcbs := m, ready_list := (ready_list s)(p := \<lparr>rl_head = first_ptr NULL ys, rl_tail = last_ptr NULL ys,
      rl_count = of_nat (length ys)\<rparr>), ready_bitmap := b\<rparr>) (A(Ready p := ys)) V'"
    (is "rep ?s ?A V'")
proof -
  have "list_head ?s l' = (if l' = Ready p then first_ptr NULL ys else list_head s l')" for l'
    by (cases l') auto
  then have "list_ok ?A ?s"
    using list_ok_update [OF rep_list_ok [OF r], of ?s "Ready p" ys "insert t (set (A (Ready p)))" t] m
    by (simp add: seg_def)
  moreover have "ready_ok ?A ?s"
  proof -
    have o: "rl_tail (ready_list s q) = last_ptr NULL (A (Ready q))"
      "rl_count (ready_list s q) = of_nat (length (A (Ready q)))" "A (Ready q) \<noteq> [] \<Longrightarrow> q < 8"
      "bit (ready_bitmap s) q \<longleftrightarrow> A (Ready q) \<noteq> []" for q
      using rep_ready_ok [OF r] by (simp_all add: ready_ok_def)
    have "\<exists>d. V' x = Some d \<and> unat (priority d) = q" if "x \<in> set (?A (Ready q))" for q x
    proof (cases "x = t")
      case True
      then show ?thesis using that m(5) v(3) by (cases "q = p") auto
    next
      case False
      then have "x \<in> set (A (Ready q))" using that m(3) by (auto split: if_splits)
      then show ?thesis using rep_ready_prio [OF r] v(2) False by metis
    qed
    then show ?thesis using o p b v(1) by (simp add: ready_ok_view del: fun_upd_apply) (simp add: o b)
  qed
  ultimately show ?thesis using v(1) by (simp add: rep_def links_ok_def)
qed

lemma ready_frame: "frame s (s\<lparr>tcbs := m, ready_list := rl, ready_bitmap := b\<rparr>)"
  by (simp add: frame_def strip_lists_def)

lemma add_to_ready_rep:
  assumes r: "rep s A V" and t: "nowhere A t" "t \<noteq> NULL" "V t = Some d" and p: "priority d < 8"
  shows "\<exists>s'. os_task_add_to_ready t s = Some s' \<and> frame s s'
     \<and> rep s' (A(Ready (unat (priority d)) := A (Ready (unat (priority d))) @ [t])) (V(t \<mapsto> d\<lparr>tcb_state := OS_TASK_READY\<rparr>))"
proof -
  let ?p = "unat (priority d)" let ?xs = "A (Ready ?p)"
  obtain c where c: "tcbs s t = Some c" "erase c = d" using rep_Some [OF r t(3)] by blast
  have pc: "priority c = priority d" using c(2) by auto
  have p8: "?p < 8" using p by (simp add: word_less_nat_alt)
  have tl: "t \<notin> set (A l')" for l' using t(1) by (simp add: nowhere_def)
  note rl = rep_ready_list [OF r, of ?p]
  have b: "bit (ready_bitmap s) ?p \<longleftrightarrow> ?xs \<noteq> []" using rep_ready_ok [OF r] by (simp add: ready_ok_def)
  have l: "dseg (tcbs s) NULL ?xs NULL" "distinct ?xs" by (rule rep_list [OF r]; simp)+
  have q: "priority c < 8" "?p = unat (priority c)" using p pc by simp_all
  have hd: "rl_head (ready_list s ?p) = first_ptr NULL ?xs" "rl_tail (ready_list s ?p) = last_ptr NULL ?xs"
      "rl_count (ready_list s ?p) = of_nat (length ?xs)" by (simp_all add: rl)
  obtain m' where run: "os_task_add_to_ready t s =
       Some (s\<lparr>tcbs := m', ready_list := (ready_list s)(?p := \<lparr>rl_head = first_ptr NULL (?xs @ [t]), rl_tail = t,
                 rl_count = of_nat (length (?xs @ [t]))\<rparr>), ready_bitmap := ready_bitmap s OR push_bit ?p 1\<rparr>)"
     and m': "dseg m' NULL (?xs @ [t]) NULL" "same_outside (insert t (set ?xs)) (tcbs s) m'"
     "data_eq ((tcbs s)(t \<mapsto> c\<lparr>tcb_state := OS_TASK_READY\<rparr>)) m'"
    using add_to_ready_dseg [OF l tl t(2) c(1) q hd b] by blast
  have v: "view m' = V(t \<mapsto> d\<lparr>tcb_state := OS_TASK_READY\<rparr>)"
    using m'(3) rep_view [OF r] c(2) by (simp add: data_eq_view)
  have bb: "bit (ready_bitmap s OR push_bit ?p 1) i \<longleftrightarrow> (if i = ?p then ?xs @ [t] \<noteq> [] else bit (ready_bitmap s) i)" for i
    using p8 by (auto simp: bit_simps)
  have "last_ptr NULL (?xs @ [t]) = t" by simp
  with rep_set_ready [OF r p8 m'(1) _ _ m'(2) tl bb v] rep_list(2) [OF r, of "Ready ?p"] tl
  show ?thesis using run ready_frame by auto
qed

lemma remove_from_ready_rep:
  assumes r: "rep s A V" and t: "t \<in> set (A (Ready p))"
  shows "\<exists>s'. os_task_remove_from_ready t s = Some s' \<and> rep s' (A(Ready p := remove1 t (A (Ready p)))) V \<and> frame s s'
     \<and> link (tcbs s') t = Some (NULL, NULL)"
proof -
  obtain d where d: "V t = Some d" "unat (priority d) = p" "p < 8" "priority d < 8"
    using rep_ready_prio [OF r t] by blast
  obtain c where c: "tcbs s t = Some c" "erase c = d" using rep_Some [OF r d(1)] by blast
  have pc: "priority c = priority d" using c(2) by auto
  note l = rep_list(1,2) [OF r, of "Ready p"]
  obtain as bs where xs: "A (Ready p) = as @ t # bs" and rm: "remove1 t (A (Ready p)) = as @ bs"
    using distinct_split [OF l(2) t] by (metis lid.distinct(3))
  let ?b = "if as @ bs = [] then ready_bitmap s AND NOT (push_bit p 1) else ready_bitmap s"
  obtain m' where run: "os_task_remove_from_ready t s =
       Some (s\<lparr>tcbs := m', ready_list := (ready_list s)(p := \<lparr>rl_head = first_ptr NULL (as @ bs),
                 rl_tail = last_ptr NULL (as @ bs), rl_count = of_nat (length (as @ bs))\<rparr>), ready_bitmap := ?b\<rparr>)"
     and m': "dseg m' NULL (as @ bs) NULL" "same_outside (set (as @ t # bs)) (tcbs s) m'" "data_eq (tcbs s) m'"
     "link m' t = Some (NULL, NULL)"
    using remove_from_ready_split [of s as t bs c p] l c(1) d pc rep_ready_list [OF r, of p] unfolding xs by auto
  have v: "view m' = V" using m'(3) rep_view [OF r] by (simp add: data_eq_view)
  have "bit (ready_bitmap s) p" using rep_ready_ok [OF r] xs by (simp add: ready_ok_def)
  then have bb: "bit ?b i \<longleftrightarrow> (if i = p then as @ bs \<noteq> [] else bit (ready_bitmap s) i)" for i
    using d(3) by (auto simp: bit_simps possible_bit_def dest: bit_imp_le_length)
  have tl: "t \<notin> set (A l')" if "l' \<noteq> Ready p" for l' using rep_disjoint_lists [OF r t that] .
  have so: "same_outside (insert t (set (A (Ready p)))) (tcbs s) m'" using m'(2) t xs by (simp add: insert_absorb)
  have "rep (s\<lparr>tcbs := m', ready_list := (ready_list s)(p := \<lparr>rl_head = first_ptr NULL (as @ bs),
                 rl_tail = last_ptr NULL (as @ bs), rl_count = of_nat (length (as @ bs))\<rparr>), ready_bitmap := ?b\<rparr>)
        (A(Ready p := as @ bs)) V"
    using l(2) xs d by (intro rep_set_ready [OF r d(3) m'(1) _ _ so tl bb v]) auto
  then show ?thesis unfolding rm using run ready_frame m'(4) by fastforce
qed


lemma push_blocked_rep:
  assumes r: "rep s A V" and t: "nowhere A t" "t \<noteq> NULL" "V t = Some d" and lk: "link (tcbs s) t = Some (NULL, NULL)"
  shows "\<exists>s'. do { s \<leftarrow> upd_tcb t (\<lambda>c. c\<lparr>tcb_state := OS_TASK_BLOCKED, delay_ticks := n, tcb_next := blocked_list s\<rparr>) s;
                s \<leftarrow> (if blocked_list s \<noteq> NULL then upd_tcb (blocked_list s) (\<lambda>c. c\<lparr>tcb_prev := t\<rparr>) s else Some s);
                Some (s\<lparr>blocked_list := t\<rparr>) } = Some s' \<and> frame s s'
     \<and> rep s' (A(Blocked := t # A Blocked)) (V(t \<mapsto> d\<lparr>tcb_state := OS_TASK_BLOCKED, delay_ticks := n\<rparr>))"
    (is "\<exists>s'. ?run = _ \<and> _ \<and> _")
proof -
  obtain c where c: "tcbs s t = Some c" "erase c = d" using rep_Some [OF r t(3)] by blast
  let ?f = "\<lambda>c. c\<lparr>tcb_state := OS_TASK_BLOCKED, delay_ticks := n\<rparr>"
  let ?s1 = "s\<lparr>tcbs := (tcbs s)(t \<mapsto> ?f c)\<rparr>"
  have r1: "rep ?s1 A (V(t \<mapsto> ?f d))"
    using upd_tcb_rep [OF r t(2,3), of ?f] c t(2) by (auto simp: data_upd_def upd_tcb_def get_tcb_def)
  have tl: "t \<notin> set (A l')" for l' using t(1) by (simp add: nowhere_def)
  have l: "dseg (tcbs ?s1) NULL (A Blocked) NULL" "distinct (A Blocked)" "blocked_list s = first_ptr NULL (A Blocked)"
    using rep_list [OF r1, of Blocked] by simp_all
  have pc: "tcb_prev c = NULL" using lk c by (simp add: link_def)
  have "\<exists>m. ?run = Some (set_list_head Blocked t (?s1\<lparr>tcbs := m\<rparr>)) \<and> dseg m NULL (t # A Blocked) NULL
    \<and> same_outside (insert t (set (A Blocked))) (tcbs ?s1) m \<and> data_eq (tcbs ?s1) m"
  proof (cases "A Blocked")
    case Nil
    then show ?thesis using c t(2) l pc
      by (intro exI [of _ "(tcbs s)(t \<mapsto> (?f c)\<lparr>tcb_next := NULL\<rparr>)"])
        (simp add: upd_tcb_def get_tcb_def same_outside_def data_eq_def erase_def)
  next
    case (Cons b bs)
    then obtain cb where cb: "tcbs s b = Some cb" "b \<noteq> NULL" "b \<noteq> t" using l tl [of Blocked] by (auto simp: link_Some split: if_splits)
    then show ?thesis using c t(2) l pc Cons tl [of Blocked]
      by (intro exI [of _ "(tcbs s)(t \<mapsto> (?f c)\<lparr>tcb_next := b\<rparr>, b \<mapsto> cb\<lparr>tcb_prev := t\<rparr>)"])
        (auto simp: upd_tcb_def get_tcb_def same_outside_def data_eq_def erase_def link_Some)
  qed
  then obtain m where m: "?run = Some (set_list_head Blocked t (?s1\<lparr>tcbs := m\<rparr>))" "dseg m NULL (t # A Blocked) NULL"
    "same_outside (insert t (set (A Blocked))) (tcbs ?s1) m" "data_eq (tcbs ?s1) m" by blast
  have "rep (set_list_head Blocked t (?s1\<lparr>tcbs := m\<rparr>)) (A(Blocked := t # A Blocked)) (V(t \<mapsto> ?f d))"
    using rep_set_list [OF r1 _ m(2) _ _ m(3,4)] l(2) tl by simp
  moreover have "frame s (set_list_head Blocked t (?s1\<lparr>tcbs := m\<rparr>))"
    using set_list_head_frame [of s Blocked t m] by simp
  ultimately show ?thesis using m(1) by blast
qed

lemma nowhere_remove1: "rep s A V \<Longrightarrow> t \<in> set (A l) \<Longrightarrow> l \<noteq> Deferred \<Longrightarrow> nowhere (A(l := remove1 t (A l))) t"
  using rep_disjoint_lists [of s A V t l] rep_list(2) [of s A V l] by (simp add: nowhere_def)

lemma add_to_blocked_rep:
  assumes r: "rep s A V" and t: "t \<in> set (A (Ready p))" "V t = Some d"
  shows "\<exists>s'. os_task_add_to_blocked t n s = Some s' \<and> frame s s'
     \<and> rep s' (A(Ready p := remove1 t (A (Ready p)), Blocked := t # A Blocked))
             (V(t \<mapsto> d\<lparr>tcb_state := OS_TASK_BLOCKED, delay_ticks := n\<rparr>))"
proof -
  obtain s1 where s1: "os_task_remove_from_ready t s = Some s1" "rep s1 (A(Ready p := remove1 t (A (Ready p)))) V"
    "frame s s1" "link (tcbs s1) t = Some (NULL, NULL)" using remove_from_ready_rep [OF r t(1)] by blast
  have "nowhere (A(Ready p := remove1 t (A (Ready p)))) t" using nowhere_remove1 [OF r t(1)] by simp
  from push_blocked_rep [OF s1(2) this _ t(2) s1(4), of n] rep_member(1) [OF r t(1)] frame_trans [OF s1(3)]
  show ?thesis by (auto simp: os_task_add_to_blocked_def s1(1))
qed

lemma find_highest_rep:
  assumes r: "rep s A V"
  shows "os_task_find_highest_ready s =
     Some (case List.find (\<lambda>p. A (Ready p) \<noteq> []) [0..<8] of None \<Rightarrow> NULL | Some p \<Rightarrow> hd (A (Ready p)))"
proof -
  have o: "A (Ready q) \<noteq> [] \<Longrightarrow> q < 8" "bit (ready_bitmap s) q \<longleftrightarrow> A (Ready q) \<noteq> []" for q
    using rep_ready_ok [OF r] by (simp_all add: ready_ok_def)
  show ?thesis
  proof (cases "ready_bitmap s = 0")
    case True
    then have "List.find (\<lambda>p. A (Ready p) \<noteq> []) [0..<8] = None" using o(2) by (auto simp: find_None_iff)
    then show ?thesis by (simp add: os_task_find_highest_ready_def True)
  next
    case False
    let ?p = "builtin_ctz (ready_bitmap s)"
    have b: "bit (ready_bitmap s) ?p" using builtin_ctz_bit(2) [OF False] .
    then have ne: "A (Ready ?p) \<noteq> []" "?p < 8" using o by auto
    have "List.find (\<lambda>p. A (Ready p) \<noteq> []) [0..<8] = Some ?p"
      unfolding find_Some_iff using ne builtin_ctz_lower [of _ "ready_bitmap s"] o(2)
      by (intro exI [of _ ?p]) auto
    then show ?thesis using ne False rep_ready_list [OF r, of ?p]
      by (cases "A (Ready ?p)") (simp_all add: os_task_find_highest_ready_def)
  qed
qed

section \<open>Task states\<close>

text \<open>
  The state field of a task agrees with the list it is in: ready or running in the ready list of
  its priority, blocked in the blocked list or a wait list, deleted in the deferred list, suspended
  in none. The wait lists of the synchronization objects are in priority order.
\<close>

definition prio_sorted :: "(ptr \<rightharpoonup> os_tcb) \<Rightarrow> ptr list \<Rightarrow> bool" where
  "prio_sorted V xs \<longleftrightarrow> sorted_wrt (\<lambda>x y. prio_of V x \<le> prio_of V y) xs"

definition runnable :: "os_tcb \<Rightarrow> bool" where
  "runnable d \<longleftrightarrow> tcb_state d = OS_TASK_READY \<or> tcb_state d = OS_TASK_RUNNING"

definition states_ok :: "tlists \<Rightarrow> (ptr \<rightharpoonup> os_tcb) \<Rightarrow> bool" where
  "states_ok A V \<longleftrightarrow>
     (\<forall>t d. V t = Some d \<longrightarrow> priority d < 8
        \<and> (runnable d \<longleftrightarrow> t \<in> set (A (Ready (unat (priority d)))))
        \<and> (tcb_state d = OS_TASK_BLOCKED \<longleftrightarrow> (\<exists>l. wait_list l \<and> t \<in> set (A l)))
        \<and> (t \<in> set (A Deferred) \<longrightarrow> tcb_state d = OS_TASK_DELETED))
     \<and> (\<forall>l. wait_list l \<and> l \<noteq> Blocked \<longrightarrow> prio_sorted V (A l))"

lemma wait_ins_simps:
  "wait_ins m t [] = [t]"
  "wait_ins m t (x # xs) = (if prio_of m x \<le> prio_of m t then x # wait_ins m t xs else t # x # xs)"
  by (simp_all add: wait_ins_def)

lemma prio_sorted_wait_ins: "prio_sorted V xs \<Longrightarrow> prio_sorted V (wait_ins V t xs)"
  by (induction xs) (auto simp: prio_sorted_def wait_ins_simps set_wait_ins)

lemma prio_sorted_remove1: "prio_sorted V xs \<Longrightarrow> prio_sorted V (remove1 t xs)"
  unfolding prio_sorted_def by (induction xs) (auto dest: notin_set_remove1)

lemma prio_sorted_cong: "(\<And>x. x \<in> set xs \<Longrightarrow> prio_of V' x = prio_of V x) \<Longrightarrow> prio_sorted V' xs = prio_sorted V xs"
  unfolding prio_sorted_def by (induction xs) auto

lemma prio_of_upd_same:
  "V t = Some d \<Longrightarrow> priority d' = priority d \<Longrightarrow> prio_of (V(t \<mapsto> d')) = prio_of V"
  by (auto simp: prio_of_def fun_eq_iff)

lemma states_okD:
  assumes "states_ok A V" "V t = Some d"
  shows "priority d < 8" "runnable d \<longleftrightarrow> t \<in> set (A (Ready (unat (priority d))))"
    "tcb_state d = OS_TASK_BLOCKED \<longleftrightarrow> (\<exists>l. wait_list l \<and> t \<in> set (A l))"
    "t \<in> set (A Deferred) \<Longrightarrow> tcb_state d = OS_TASK_DELETED"
  using assms by (auto simp: states_ok_def)

lemma states_ok_sorted: "states_ok A V \<Longrightarrow> wait_list l \<Longrightarrow> l \<noteq> Blocked \<Longrightarrow> prio_sorted V (A l)"
  by (simp add: states_ok_def)

lemma states_ok_move:
  assumes ok: "states_ok A V" and o: "\<And>x l. x \<noteq> t \<Longrightarrow> x \<in> set (A' l) \<longleftrightarrow> x \<in> set (A l)"
    and d: "priority d' < 8" "runnable d' \<longleftrightarrow> t \<in> set (A' (Ready (unat (priority d'))))"
      "tcb_state d' = OS_TASK_BLOCKED \<longleftrightarrow> (\<exists>l. wait_list l \<and> t \<in> set (A' l))"
      "t \<in> set (A' Deferred) \<Longrightarrow> tcb_state d' = OS_TASK_DELETED"
    and so: "\<And>l. wait_list l \<Longrightarrow> l \<noteq> Blocked \<Longrightarrow> prio_sorted (V(t \<mapsto> d')) (A' l)"
  shows "states_ok A' (V(t \<mapsto> d'))"
  unfolding states_ok_def
proof (intro conjI allI impI)
  fix x e assume e: "(V(t \<mapsto> d')) x = Some e"
  show "priority e < 8" using e d(1) states_okD(1) [OF ok, of x] by (auto split: if_splits)
  show "runnable e = (x \<in> set (A' (Ready (unat (priority e)))))"
    using e d(2) states_okD(2) [OF ok, of x] o [of x] by (auto split: if_splits)
  show "(tcb_state e = OS_TASK_BLOCKED) = (\<exists>l. wait_list l \<and> x \<in> set (A' l))"
    using e d(3) states_okD(3) [OF ok, of x] o [of x] by (auto split: if_splits)
  show "tcb_state e = OS_TASK_DELETED" if "x \<in> set (A' Deferred)"
    using e d(4) states_okD(4) [OF ok, of x] o [of x] that by (auto split: if_splits)
qed (use so in auto)

text \<open>The moves the kernel makes, one task at a time.\<close>

lemma states_ok_data:
  assumes ok: "states_ok A V" "V t = Some d" and d: "priority d' = priority d" "runnable d' = runnable d"
    "tcb_state d' = OS_TASK_BLOCKED \<longleftrightarrow> tcb_state d = OS_TASK_BLOCKED"
    "tcb_state d = OS_TASK_DELETED \<Longrightarrow> tcb_state d' = OS_TASK_DELETED"
  shows "states_ok A (V(t \<mapsto> d'))"
  using states_okD [OF ok] d states_ok_sorted [OF ok(1)] prio_of_upd_same [of V t d d'] ok(2)
  by (intro states_ok_move [OF ok(1)]) (auto simp: prio_sorted_def)

lemma states_ok_block:
  assumes ok: "states_ok A V" "V t = Some d" and r: "rep s A V" and t: "t \<in> set (A (Ready p))" and l: "wait_list l"
    and ys: "set ys = insert t (set (A l))" "l \<noteq> Blocked \<Longrightarrow> ys = wait_ins V t (A l)"
    and d': "priority d' = priority d" "tcb_state d' = OS_TASK_BLOCKED"
  shows "states_ok (A(Ready p := remove1 t (A (Ready p)), l := ys)) (V(t \<mapsto> d'))" (is "states_ok ?A _")
proof (rule states_ok_move [OF ok(1)])
  have lp: "l \<noteq> Ready q" "l \<noteq> Deferred" for q using l by (auto simp: wait_list_def)
  have nt: "t \<notin> set (A l')" if "l' \<noteq> Ready p" for l' using rep_disjoint_lists [OF r t that] .
  have dt: "t \<notin> set (remove1 t (A (Ready p)))" using rep_list(2) [OF r, of "Ready p"] by simp
  show "x \<in> set (?A l') \<longleftrightarrow> x \<in> set (A l')" if "x \<noteq> t" for x l' using that ys(1) by auto
  show "priority d' < 8" using states_okD(1) [OF ok] d' by simp
  show "runnable d' \<longleftrightarrow> t \<in> set (?A (Ready (unat (priority d'))))"
    using d'(2) dt nt lp by (auto simp: runnable_def)
  show "tcb_state d' = OS_TASK_BLOCKED \<longleftrightarrow> (\<exists>l. wait_list l \<and> t \<in> set (?A l))"
    using d'(2) l ys(1) by (metis fun_upd_same insertI1)
  show "tcb_state d' = OS_TASK_DELETED" if "t \<in> set (?A Deferred)" using that nt [of Deferred] lp by auto
  have pv: "prio_of (V(t \<mapsto> d')) = prio_of V" using prio_of_upd_same ok(2) d'(1) by blast
  show "prio_sorted (V(t \<mapsto> d')) (?A l')" if "wait_list l'" "l' \<noteq> Blocked" for l'
    using that states_ok_sorted [OF ok(1) that] ys(2) prio_sorted_wait_ins [of V "A l'" t]
    by (auto simp: prio_sorted_def pv wait_list_def)
qed

lemma states_ok_ready:
  assumes ok: "states_ok A V" "V t = Some d" and nw: "\<And>l'. l' \<noteq> l \<Longrightarrow> t \<notin> set (A l')" and l: "wait_list l"
    and ys: "ys = remove1 t (A l)" "t \<notin> set ys"
    and d': "priority d' = priority d" "tcb_state d' = OS_TASK_READY" and p: "p = unat (priority d)"
  shows "states_ok (A(l := ys, Ready p := A (Ready p) @ [t])) (V(t \<mapsto> d'))" (is "states_ok ?A _")
proof (rule states_ok_move [OF ok(1)])
  have lp: "l \<noteq> Ready q" "l \<noteq> Deferred" for q using l by (auto simp: wait_list_def)
  show "x \<in> set (?A l') \<longleftrightarrow> x \<in> set (A l')" if "x \<noteq> t" for x l' using that ys(1) by auto
  show "priority d' < 8" using states_okD(1) [OF ok] d' by simp
  show "runnable d' \<longleftrightarrow> t \<in> set (?A (Ready (unat (priority d'))))"
    using d' p by (simp add: runnable_def)
  show "tcb_state d' = OS_TASK_BLOCKED \<longleftrightarrow> (\<exists>l. wait_list l \<and> t \<in> set (?A l))"
    using d'(2) ys(2) nw by (auto simp: wait_list_def)
  show "tcb_state d' = OS_TASK_DELETED" if "t \<in> set (?A Deferred)" using that nw [of Deferred] lp by auto
  have pv: "prio_of (V(t \<mapsto> d')) = prio_of V" using prio_of_upd_same ok(2) d'(1) by blast
  show "prio_sorted (V(t \<mapsto> d')) (?A l')" if "wait_list l'" "l' \<noteq> Blocked" for l'
    using that states_ok_sorted [OF ok(1) that] ys(1) prio_sorted_remove1 [of V "A l'" t]
    by (auto simp: prio_sorted_def pv wait_list_def)
qed


lemma states_ok_leave:
  assumes ok: "states_ok A V" "V t = Some d" and r: "rep s A V" and t: "t \<in> set (A (Ready p))"
    and d': "priority d' = priority d" "tcb_state d' = OS_TASK_SUSPENDED \<or> tcb_state d' = OS_TASK_DELETED"
  shows "states_ok (A(Ready p := remove1 t (A (Ready p)))) (V(t \<mapsto> d'))" (is "states_ok ?A _")
proof (rule states_ok_move [OF ok(1)])
  have "nowhere ?A t" using nowhere_remove1 [OF r t] by simp
  then have nw: "t \<notin> set (?A l)" for l by (simp add: nowhere_def)
  show "x \<in> set (?A l') \<longleftrightarrow> x \<in> set (A l')" if "x \<noteq> t" for x l' using that by auto
  show "priority d' < 8" using states_okD(1) [OF ok] d' by simp
  show "runnable d' \<longleftrightarrow> t \<in> set (?A (Ready (unat (priority d'))))" using d'(2) nw unfolding runnable_def by fastforce
  show "tcb_state d' = OS_TASK_BLOCKED \<longleftrightarrow> (\<exists>l. wait_list l \<and> t \<in> set (?A l))" using d'(2) nw by fastforce
  show "tcb_state d' = OS_TASK_DELETED" if "t \<in> set (?A Deferred)" using that nw by blast
  have pv: "prio_of (V(t \<mapsto> d')) = prio_of V" using prio_of_upd_same ok(2) d'(1) by blast
  show "prio_sorted (V(t \<mapsto> d')) (?A l')" if "wait_list l'" "l' \<noteq> Blocked" for l'
    using that states_ok_sorted [OF ok(1) that] by (auto simp: prio_sorted_def pv wait_list_def)
qed

lemma states_ok_enter:
  assumes ok: "states_ok A V" and nw: "nowhere A t" and d': "priority d' < 8" "tcb_state d' = OS_TASK_READY"
    and p: "p = unat (priority d')"
  shows "states_ok (A(Ready p := A (Ready p) @ [t])) (V(t \<mapsto> d'))" (is "states_ok ?A _")
proof (rule states_ok_move [OF ok])
  have nt: "t \<notin> set (A l)" for l using nw by (simp add: nowhere_def)
  show "x \<in> set (?A l') \<longleftrightarrow> x \<in> set (A l')" if "x \<noteq> t" for x l' using that by auto
  show "priority d' < 8" using d' by simp
  show "runnable d' \<longleftrightarrow> t \<in> set (?A (Ready (unat (priority d'))))" using d' p by (simp add: runnable_def)
  show "tcb_state d' = OS_TASK_BLOCKED \<longleftrightarrow> (\<exists>l. wait_list l \<and> t \<in> set (?A l))"
    using d'(2) nt by (auto simp: wait_list_def)
  show "tcb_state d' = OS_TASK_DELETED" if "t \<in> set (?A Deferred)" using that nt by auto
  show "prio_sorted (V(t \<mapsto> d')) (?A l')" if "wait_list l'" "l' \<noteq> Blocked" for l'
  proof -
    have "?A l' = A l'" using that by (auto simp: wait_list_def)
    moreover have "prio_sorted (V(t \<mapsto> d')) (A l') = prio_sorted V (A l')"
      using nt by (intro prio_sorted_cong) (auto simp: prio_of_def)
    ultimately show ?thesis using states_ok_sorted [OF ok that] by simp
  qed
qed

text \<open>A task control block that is in no list may change in any way.\<close>

lemma rep_upd_nowhere:
  assumes "rep s A V" "nowhere A t"
  shows "rep (s\<lparr>tcbs := (tcbs s)(t \<mapsto> c)\<rparr>) A (V(t \<mapsto> erase c))"
proof -
  let ?s = "s\<lparr>tcbs := (tcbs s)(t \<mapsto> c)\<rparr>"
  have nt: "t \<notin> set (A l)" for l using assms(2) by (simp add: nowhere_def)
  have so: "same_outside {t} (tcbs s) (tcbs ?s)" by (simp add: same_outside_def)
  have "seg l (tcbs ?s) (A l) = seg l (tcbs s) (A l)" for l
    using nt dseg_same_outside [OF _ so] sseg_same_outside [OF _ so] by (simp add: seg_def)
  then have "list_ok A ?s" using rep_list_ok [OF assms(1)] by (simp add: list_ok_def)
  moreover have "ready_ok A ?s"
  proof -
    have "x \<in> set (A (Ready p)) \<Longrightarrow> x \<noteq> t" for x p using nt by auto
    then show ?thesis using rep_ready_ok [OF assms(1)] by (simp add: ready_ok_view)
  qed
  ultimately show ?thesis using rep_view [OF assms(1)] by (simp add: rep_def links_ok_def)
qed

end
