(* ===== verification/Demo.thy ===== *)
theory Demo
  imports Task_State
begin

unbundle bit_operations_syntax

text \<open>
  A concrete kernel state for the witnesses: a running task, a ready one, a delayed one, a
  suspended one, and one that waits on a semaphore.
\<close>

definition demo_tcb :: "ptr \<Rightarrow> u32 \<Rightarrow> os_task_state \<Rightarrow> u32 \<Rightarrow> os_tcb" where
  "demo_tcb base prio st delay =
     \<lparr>stack_ptr = base + 128, stack_base = base, stack_size = 256, priority = prio, tcb_state = st,
      delay_ticks = delay, tcb_name = ''demo'', entry_func = 0x8000100, tcb_param = 0, tcb_next = NULL,
      tcb_prev = NULL, pending_delete = 0, stack_high_water = 0, blocked_on = NULL,
      blocked_reason = OS_BLOCKED_NONE, timed_out = 0, event_wait_bits = 0, event_wait_options = 0,
      event_return_bits = 0, notify_value = 0, notify_pending = 0, run_time_ticks = 0\<rparr>"

abbreviation "tRun \<equiv> (0x20000100 :: ptr)"
abbreviation "tReady \<equiv> (0x20000200 :: ptr)"
abbreviation "tDelayed \<equiv> (0x20000300 :: ptr)"
abbreviation "tSusp \<equiv> (0x20000400 :: ptr)"
abbreviation "tSem \<equiv> (0x20000500 :: ptr)"
abbreviation "aSem \<equiv> (0x20000900 :: ptr)"
abbreviation "aQ \<equiv> (0x20000980 :: ptr)"
abbreviation "aMutex \<equiv> (0x200009C0 :: ptr)"
abbreviation "aEv \<equiv> (0x20000A00 :: ptr)"

definition demo_tcbs :: "ptr \<rightharpoonup> os_tcb" where
  "demo_tcbs = [tRun \<mapsto> demo_tcb 0x20001000 2 OS_TASK_RUNNING 0, tReady \<mapsto> demo_tcb 0x20001200 2 OS_TASK_READY 0,
     tDelayed \<mapsto> demo_tcb 0x20001400 1 OS_TASK_BLOCKED 3, tSusp \<mapsto> demo_tcb 0x20001600 5 OS_TASK_SUSPENDED 0,
     tSem \<mapsto> (demo_tcb 0x20001800 4 OS_TASK_BLOCKED 10)\<lparr>blocked_on := aSem, blocked_reason := OS_BLOCKED_ON_SEM_TAKE\<rparr>]"

definition demo_lists :: tlists where
  "demo_lists = (\<lambda>_. [])(Ready 2 := [tRun, tReady], Blocked := [tDelayed], SemW aSem := [tSem])"

definition demo :: os where
  "demo =
     \<lparr>heap = zero_heap, mem8 = (\<lambda>_. 0), mem32 = (\<lambda>_. OS_STACK_CANARY_VALUE),
      tcbs = demo_tcbs(tRun \<mapsto> (demo_tcb 0x20001000 2 OS_TASK_RUNNING 0)\<lparr>tcb_next := tReady\<rparr>,
                       tReady \<mapsto> (demo_tcb 0x20001200 2 OS_TASK_READY 0)\<lparr>tcb_prev := tRun\<rparr>),
      queues = (\<lambda>_. \<lparr>q_buffer = 0, item_size = 0, max_items = 0, q_count = 0, q_head = 0, q_tail = 0,
                     buf_size = 0, send_wait_list = 0, recv_wait_list = 0\<rparr>),
      sems = (\<lambda>_. \<lparr>sem_count = 0, max_count = 5, sem_wait_list = 0\<rparr>)(aSem := \<lparr>sem_count = 0, max_count = 5, sem_wait_list = tSem\<rparr>),
      mutexes = (\<lambda>_. \<lparr>mutex_owner = 0, lock_count = 0, original_prio = 0, mutex_wait_list = 0\<rparr>),
      eventgroups = (\<lambda>_. \<lparr>eg_bits = 0, eg_wait_list = 0\<rparr>),
      timers = (\<lambda>_. \<lparr>tm_callback = 0, tm_period = 0, tm_remaining = 0, tm_type = OS_TIMER_ONE_SHOT,
                     tm_active = False, tm_name = [], tm_next = 0\<rparr>),
      ready_list = (\<lambda>_. \<lparr>rl_head = 0, rl_tail = 0, rl_count = 0\<rparr>)(2 := \<lparr>rl_head = tRun, rl_tail = tReady, rl_count = 2\<rparr>),
      ready_bitmap = 4, blocked_list = tDelayed, deferred_delete_list = 0, task_table = (\<lambda>_. 0),
      task_count = 5, idle_hooks = (\<lambda>_. 0), idle_hook_count = 0, stack_overflow_hook = 0,
      task_delete_hook = 0, current_task_ptr = tRun, primask = 0, icsr = 0,
      periph = \<lparr>scb_aircr = 0, scb_shpr = (\<lambda>_. 0), syst_ctrl = 0, syst_load = 0, syst_val = 0,
                nvic_iser = (\<lambda>_. 0), nvic_icer = (\<lambda>_. 0), nvic_ip = (\<lambda>_. 0)\<rparr>,
      scheduler_running = False, critical_nesting = 0, yield_pending = 0, saved_mask = (\<lambda>_. 0),
      last_switch_tick = 0, active_timer_list = 0, expired_list = 0, timer_task_handle = 0,
      timer_initialized = False,
      trace = \<lparr>trace_buffer = (\<lambda>_. \<lparr>te_timestamp = 0, te_event = OS_TRACE_USER, te_param1 = 0, te_param2 = 0\<rparr>),
               trace_head = 0, trace_count = 0, trace_initialized = True\<rparr>,
      wdt = \<lparr>wdt_table = (\<lambda>_. \<lparr>wdt_tcb = 0, wdt_deadline = 0, wdt_remaining = 0, wdt_callback = 0,
                               wdt_cb_param = 0, wdt_paused = False\<rparr>),
             wdt_count = 0, wdt_default_cb = 0, wdt_default_param = 0\<rparr>,
      system_tick = 0, kernel_initialized = True, tick_hooks = (\<lambda>_. 0), tick_hook_count = 0\<rparr>"

definition demo_env :: env where
  "demo_env =
     \<lparr>uc_heap = 0x20000000, idle_task_stack = 0x20002000, idle_task_func = 0x8000200, timer_task_stack = 0x20002200,
      timer_service_func = 0x8000300, timer_sem = 0x20002400, call_malloc_failed = no_hook,
      call_delete_hook = (\<lambda>_ _ s. Some s), call_tick_hook = (\<lambda>_ s. Some s), call_idle_hook = (\<lambda>_ s. Some s),
      call_timer = (\<lambda>_ _ s. Some s), call_wdt = (\<lambda>_ _ _ s. Some s), switch = Some\<rparr>"

lemma demo_view: "view (tcbs demo) = demo_tcbs"
  by (auto simp: demo_def demo_tcbs_def view_def erase_def demo_tcb_def fun_eq_iff)

lemma bit_4: "bit (4 :: u32) i \<longleftrightarrow> i = 2"
proof -
  have "(4 :: u32) = push_bit 2 1" by simp
  then show ?thesis by (simp only: bit_push_bit_iff) (auto simp: bit_1_iff)
qed

lemma demo_rep: "rep demo demo_lists demo_tcbs"
proof -
  have "seg l (tcbs demo) (demo_lists l) \<and> list_head demo l = first_ptr NULL (demo_lists l) \<and> distinct (demo_lists l)" for l
    by (cases l) (auto simp: demo_lists_def demo_def seg_def link_def demo_tcbs_def demo_tcb_def)
  moreover have "set (demo_lists l) \<inter> set (demo_lists l') = {}" if "l \<noteq> l'" for l l'
    using that by (auto simp: demo_lists_def)
  moreover have "ready_ok demo_lists demo"
  proof -
    have "ready_bitmap demo = 4" by (simp add: demo_def)
    then have "bit (ready_bitmap demo) i \<longleftrightarrow> i = 2" for i by (simp only: bit_4)
    moreover have "ready_list demo = (\<lambda>_. \<lparr>rl_head = 0, rl_tail = 0, rl_count = 0\<rparr>)(2 := \<lparr>rl_head = tRun, rl_tail = tReady, rl_count = 2\<rparr>)"
      by (simp add: demo_def)
    ultimately show ?thesis
      by (auto simp: ready_ok_view demo_view demo_lists_def demo_tcbs_def demo_tcb_def)
  qed
  ultimately show ?thesis by (auto simp: rep_def links_ok_def list_ok_def demo_view)
qed

lemma demo_states_ok: "states_ok demo_lists demo_tcbs"
proof -
  have "(\<exists>l. wait_list l \<and> x \<in> set (demo_lists l)) \<longleftrightarrow> x = tDelayed \<or> x = tSem" for x
    by (auto simp: demo_lists_def wait_list_def split: if_splits)
  moreover have "\<not> wait_list (Ready p)" "\<not> wait_list Deferred" for p by (simp_all add: wait_list_def)
  ultimately show ?thesis
    by (auto simp: states_ok_def runnable_def demo_tcbs_def demo_tcb_def demo_lists_def prio_sorted_def split: if_splits)
qed

end
