(* ===== verification/Port.thy ===== *)
theory Port
  imports Critical
begin

unbundle bit_operations_syntax

text \<open>
  The hardware side of \<open>port/port.c\<close> (Cortex-M3) that the kernel calls while it boots and
  creates tasks: the initial stack frame, SysTick, the NVIC and system-handler priorities. The
  critical sections and \<open>os_port_yield\<close> are in \<open>Critical\<close>, the PendSV context switch in
  \<open>Context_Switch\<close>.
\<close>

section \<open>Stack initialization\<close>

definition INITIAL_XPSR :: u32 where "INITIAL_XPSR = 0x01000000"

text \<open>\<open>*(--sp) = v\<close> on a descending stack of words.\<close>

definition push :: "u32 \<Rightarrow> ptr \<times> (ptr \<Rightarrow> u32) \<Rightarrow> ptr \<times> (ptr \<Rightarrow> u32)" where
  "push v st = (let sp = fst st - 4 in (sp, (snd st)(sp := v)))"

definition initial_frame :: "ptr \<Rightarrow> ptr \<Rightarrow> u32 list" where
  "initial_frame func param =
     [INITIAL_XPSR, func, 0xFFFFFFFE, 0x12121212, 0x03030303, 0x02020202, 0x01010101, param,
      0x11111111, 0x10101010, 0x09090909, 0x08080808, 0x07070707, 0x06060606, 0x05050505, 0x04040404]"

definition os_port_stack_init ::
    "ptr \<Rightarrow> ptr \<Rightarrow> ptr \<Rightarrow> u32 \<Rightarrow> (ptr \<Rightarrow> u32) \<Rightarrow> ptr \<times> (ptr \<Rightarrow> u32)" where
  "os_port_stack_init func param base sz m =
     (let sp = ((base + sz) + 7) AND NOT 7
      in fold push (initial_frame func param) (sp, m))"

section \<open>SysTick and interrupt priorities\<close>

definition SYSTICK_LOAD_MAX :: u32 where "SYSTICK_LOAD_MAX = 0x00FFFFFF"
definition SYSTICK_CTRL_ENABLE :: u32 where "SYSTICK_CTRL_ENABLE = push_bit 0 1"
definition SYSTICK_CTRL_TICKINT :: u32 where "SYSTICK_CTRL_TICKINT = push_bit 1 1"
definition SYSTICK_CTRL_CLKSOURCE :: u32 where "SYSTICK_CTRL_CLKSOURCE = push_bit 2 1"

definition os_port_systick_init :: "u32 \<Rightarrow> periph \<Rightarrow> periph" where
  "os_port_systick_init freq_hz r =
     (let reload = OS_CONFIG_CPU_CLOCK_HZ div freq_hz;
          reload = (if reload > SYSTICK_LOAD_MAX then SYSTICK_LOAD_MAX else reload)
      in r\<lparr>syst_load := reload - 1, syst_val := 0,
           syst_ctrl := SYSTICK_CTRL_ENABLE OR SYSTICK_CTRL_TICKINT OR SYSTICK_CTRL_CLKSOURCE\<rparr>)"

definition SCB_AIRCR_VECTKEY :: u32 where "SCB_AIRCR_VECTKEY = 0x05FA0000"
definition SCB_AIRCR_PRIGROUP_MASK :: u32 where "SCB_AIRCR_PRIGROUP_MASK = 0x00000700"

definition os_port_nvic_set_priority_group :: "u32 \<Rightarrow> periph \<Rightarrow> periph" where
  "os_port_nvic_set_priority_group grp r =
     (let aircr = scb_aircr r;
          aircr = aircr AND NOT (SCB_AIRCR_PRIGROUP_MASK OR 0xFFFF);
          aircr = aircr OR (SCB_AIRCR_VECTKEY OR push_bit 8 grp)
      in r\<lparr>scb_aircr := aircr\<rparr>)"

text \<open>
  \<open>irqn\<close> is an \<open>int32_t\<close>, held as its 32 bits. \<open>IP\<close> has 240 entries and
  \<open>SHPR\<close> three; an index outside is a write to some other register, \<open>None\<close> here. The
  array \<open>IP\<close> is declared with elements of 32 bits.
\<close>

definition prio_byte :: "u32 \<Rightarrow> u32" where
  "prio_byte p = push_bit 4 p AND 0xFF"

definition os_port_nvic_set_priority :: "u32 \<Rightarrow> u32 \<Rightarrow> periph \<Rightarrow> periph option" where
  "os_port_nvic_set_priority irqn p r =
     (if 0 \<le> sint irqn
      then if unat irqn < 240 then Some (r\<lparr>nvic_ip := (nvic_ip r)(unat irqn := prio_byte p)\<rparr>) else None
      else let idx = unat (((irqn AND 0xF) - 4) div 4);
               shift = unat ((((irqn AND 0xF) - 4) mod 4) * 8);
               v = scb_shpr r idx AND NOT (push_bit shift 0xFF)
           in if idx < 3
              then Some (r\<lparr>scb_shpr := (scb_shpr r)(idx := v OR push_bit shift (prio_byte p))\<rparr>)
              else None)"

definition os_port_nvic_enable_irq :: "u32 \<Rightarrow> periph \<Rightarrow> periph option" where
  "os_port_nvic_enable_irq irqn r =
     (if 0 \<le> sint irqn
      then if unat (drop_bit 5 irqn) < 8
           then Some (r\<lparr>nvic_iser := (nvic_iser r)(unat (drop_bit 5 irqn) := push_bit (unat (irqn AND 0x1F)) 1)\<rparr>)
           else None
      else Some r)"

definition os_port_nvic_disable_irq :: "u32 \<Rightarrow> periph \<Rightarrow> periph option" where
  "os_port_nvic_disable_irq irqn r =
     (if 0 \<le> sint irqn
      then if unat (drop_bit 5 irqn) < 8
           then Some (r\<lparr>nvic_icer := (nvic_icer r)(unat (drop_bit 5 irqn) := push_bit (unat (irqn AND 0x1F)) 1)\<rparr>)
           else None
      else Some r)"

definition OS_CONFIG_NVIC_PRIGROUP :: u32 where "OS_CONFIG_NVIC_PRIGROUP = 3"
definition OS_CONFIG_PENDSV_PRIORITY :: u32 where "OS_CONFIG_PENDSV_PRIORITY = 0xF"
definition OS_CONFIG_SYSTICK_PRIORITY :: u32 where "OS_CONFIG_SYSTICK_PRIORITY = 0xF"

definition os_port_nvic_set_priority_init :: "periph \<Rightarrow> periph option" where
  "os_port_nvic_set_priority_init r =
     do {
       let r = os_port_nvic_set_priority_group OS_CONFIG_NVIC_PRIGROUP r;
       r \<leftarrow> os_port_nvic_set_priority (- 6) OS_CONFIG_PENDSV_PRIORITY r;
       os_port_nvic_set_priority (- 1) OS_CONFIG_SYSTICK_PRIORITY r
     }"

section \<open>Remaining entry points\<close>

definition os_port_context_switch :: "os \<Rightarrow> os" where
  "os_port_context_switch s = os_port_yield s"

text \<open>
  The stubs the C library links against. \<open>_sbrk\<close> keeps \<open>heap_end\<close>; \<open>ebss\<close> is the linker's
  symbol. \<open>_exit\<close> and a failed assertion stop in a breakpoint loop.
\<close>

definition newlib_kill :: "u32 \<Rightarrow> u32 \<Rightarrow> u32" where "newlib_kill pid sig = - 1"

definition newlib_getpid :: u32 where "newlib_getpid = 1"

definition newlib_sbrk :: "ptr \<Rightarrow> u32 \<Rightarrow> ptr \<Rightarrow> ptr \<times> ptr" where
  "newlib_sbrk ebss incr heap_end =
     (let heap_end = (if heap_end = NULL then ebss else heap_end) in (heap_end, heap_end + incr))"

section \<open>The initial frame\<close>

lemma stack_init_unfold:
  "os_port_stack_init func param base sz m =
    (let top = ((base + sz) + 7) AND NOT 7
     in (top - 64, m(top - 4 := INITIAL_XPSR, top - 8 := func, top - 12 := 0xFFFFFFFE, top - 16 := 0x12121212,
          top - 20 := 0x03030303, top - 24 := 0x02020202, top - 28 := 0x01010101, top - 32 := param,
          top - 36 := 0x11111111, top - 40 := 0x10101010, top - 44 := 0x09090909, top - 48 := 0x08080808,
          top - 52 := 0x07070707, top - 56 := 0x06060606, top - 60 := 0x05050505, top - 64 := 0x04040404)))"
  by (simp add: os_port_stack_init_def initial_frame_def push_def Let_def)

lemma word_8_align: "((w :: u32) AND NOT 7) AND 7 = 0"
  by (rule bit_word_eqI) (auto simp: bit_simps)

lemma unat_and_7: "unat ((x :: u32) AND 7) = unat x mod 8"
proof -
  have "x AND 7 = take_bit 3 x" by (simp add: take_bit_eq_mask mask_eq_exp_minus_1)
  then have "unat (x AND 7) = take_bit 3 (unat x)" by (simp only: unsigned_take_bit_eq)
  then show ?thesis by (simp only: take_bit_eq_mod) simp
qed

lemma and_7_add: "unat ((x + y :: u32) AND 7) = (unat x + unat y) mod 8"
  by (simp add: unat_and_7 unat_word_ariths mod_mod_cancel)

lemma and_7_eq_iff: "(x :: u32) AND 7 = y \<longleftrightarrow> unat x mod 8 = unat y"
  by (metis unat_and_7 word_unat_eq_iff)

lemma and_7_minus_64: "(x :: u32) AND 7 = 0 \<Longrightarrow> (x - 64) AND 7 = 0"
  using and_7_add [of x "- 64"] by (simp add: unat_and_7 and_7_eq_iff mod_add_left_eq [symmetric, of "unat x"])

text \<open>
  \<open>os_port_stack_init\<close> lays out the frame that the context switch pops: from the returned
  stack pointer upwards R4 to R11, then R0 holding the task's parameter, R1 to R3, R12, LR, the entry
  point as PC and the Thumb bit in xPSR. The stack pointer is a multiple of 8, and no other word of
  memory changes.
\<close>

theorem os_port_stack_init_frame:
  "case os_port_stack_init func param base sz m of (sp, m') \<Rightarrow>
     map (\<lambda>i. m' (sp + 4 * of_nat i)) [0..<16]
       = [0x04040404, 0x05050505, 0x06060606, 0x07070707, 0x08080808, 0x09090909, 0x10101010, 0x11111111,
          param, 0x01010101, 0x02020202, 0x03030303, 0x12121212, 0xFFFFFFFE, func, 0x01000000]
     \<and> sp = (((base + sz) + 7) AND NOT 7) - 64 \<and> sp AND 7 = 0
     \<and> {a. m' a \<noteq> m a} \<subseteq> (\<lambda>i. sp + 4 * of_nat i) ` {0..<16}"
proof -
  let ?top = "((base + sz) + 7) AND NOT (7 :: u32)"
  have 1: "[0..<16] = [0, 1, 2, 3, 4, 5, 6, 7, 8, 9, 10, 11, 12, 13, 14, 15 :: nat]" by (simp add: upt_rec)
  have 2: "(\<lambda>i. ?top - 64 + 4 * of_nat i) ` {0..<16}
     = {?top - 64, ?top - 60, ?top - 56, ?top - 52, ?top - 48, ?top - 44, ?top - 40, ?top - 36, ?top - 32,
        ?top - 28, ?top - 24, ?top - 20, ?top - 16, ?top - 12, ?top - 8, ?top - 4 :: u32}"
    by (simp add: atLeastLessThan_upt 1 del: set_upt)
  have 3: "(?top - 64) AND 7 = 0" using and_7_minus_64 [OF word_8_align] .
  show ?thesis
    unfolding stack_init_unfold Let_def prod.case 2 1
    using 3 by (auto simp: INITIAL_XPSR_def)
qed


lemma and_7_plus_4: "(x :: u32) AND 7 = 4 \<Longrightarrow> (x + 4) AND 7 = 0"
  using and_7_add [of x 4] by (simp add: unat_and_7 and_7_eq_iff mod_add_left_eq [symmetric, of "unat x"])

lemma align_plus_3: "(x :: u32) AND 7 = 0 \<Longrightarrow> (x + 3) AND NOT 7 = x"
proof -
  assume x: "x AND 7 = 0"
  have "x AND (7 AND 3) = 0" using x by (simp only: and.assoc [symmetric]) (simp only: and_zero_eq zero_and_eq)
  then have "x + 3 = x OR 3" by (intro disjunctive_add_eq_or) simp
  moreover have "x = (x AND NOT 7) OR (x AND 7)" by (rule bit_word_eqI) (auto simp: bit_simps)
  moreover have "3 AND NOT (7 :: u32) = 0" by simp
  ultimately show ?thesis using x by (simp only: bit.conj_disj_distrib2)
qed

text \<open>
  The top of the stack is rounded up: for a stack that ends at an address that is 4 modulo 8, the
  first word of the frame is stored at the address just past its end.
\<close>

theorem os_port_stack_init_overruns:
  assumes "(base + sz) AND 7 = 4"
  shows "snd (os_port_stack_init func param base sz m) (base + sz) = INITIAL_XPSR"
proof -
  have "(base + sz + 4) AND 7 = 0" using and_7_plus_4 [OF assms] .
  from align_plus_3 [OF this] have "base + sz + 7 AND NOT 7 = base + sz + 4" by (simp add: add.assoc)
  then show ?thesis by (simp add: stack_init_unfold Let_def)
qed


theorem os_port_stack_init_overruns_witness:
  "snd (os_port_stack_init 0x8000101 0 0x2000000C 512 (\<lambda>_. 0)) (0x2000000C + 512) = INITIAL_XPSR"
  by (rule os_port_stack_init_overruns) simp

lemma shpr_masks: "(- 4278190081 :: u32) = 0x00FFFFFF" "(- 16711681 :: u32) = 0xFF00FFFF"
  by simp_all

text \<open>
  \<open>os_port_nvic_set_priority_init\<close> gives SysTick (exception 15) the lowest priority but sets
  the priority byte of exception 10 (byte 2 of SHPR2) instead of the one of PendSV (exception 14,
  byte 2 of SHPR3), which keeps whatever value it had.
\<close>

theorem os_port_nvic_set_priority_init_misses_pendsv:
  "\<exists>r'. os_port_nvic_set_priority_init r = Some r'
     \<and> scb_shpr r' 2 = (scb_shpr r 2 AND 0x00FFFFFF) OR 0xF0000000
     \<and> scb_shpr r' 1 = (scb_shpr r 1 AND 0xFF00FFFF) OR 0x00F00000 \<and> scb_shpr r' 0 = scb_shpr r 0"
  by (simp add: os_port_nvic_set_priority_init_def os_port_nvic_set_priority_def os_port_nvic_set_priority_group_def
      prio_byte_def OS_CONFIG_PENDSV_PRIORITY_def OS_CONFIG_SYSTICK_PRIORITY_def Let_def shpr_masks)

text \<open>
  \<open>os_port_systick_init\<close> programs the number of cycles of a tick minus one, clamped to the 24
  bits of the counter, for every rate from 1 Hz to the CPU clock.
\<close>

theorem os_port_systick_init_reload:
  assumes "0 < unat freq" "unat freq \<le> 72000000"
  shows "unat (syst_load (os_port_systick_init freq r)) + 1 = min (72000000 div unat freq) (2 ^ 24 - 1)"
proof -
  let ?q = "(72000000 :: u32) div freq"
  have q: "unat ?q = 72000000 div unat freq" by (simp add: unat_div)
  have "1 \<le> 72000000 div unat freq" using assms by (simp add: div_greater_zero_iff Suc_le_eq)
  then have "?q \<noteq> 0" using q by (metis unat_0 not_one_le_zero)
  then have "unat (?q - 1) + 1 = unat ?q" by (metis Suc_eq_plus1 unat_minus_one Suc_pred' unat_gt_0)
  then show ?thesis
    by (simp add: os_port_systick_init_def Let_def SYSTICK_LOAD_MAX_def q min_def word_less_nat_alt)
qed

theorem os_port_systick_init_reload_witness:
  "unat (syst_load (os_port_systick_init 1000
     \<lparr>scb_aircr = 0, scb_shpr = (\<lambda>_. 0), syst_ctrl = 0, syst_load = 0, syst_val = 0,
      nvic_iser = (\<lambda>_. 0), nvic_icer = (\<lambda>_. 0), nvic_ip = (\<lambda>_. 0)\<rparr>)) + 1 = 72000"
  using os_port_systick_init_reload [of 1000] by simp

end
