(* ===== verification/Task.thy ===== *)
theory Task
  imports Demo Port
begin

unbundle bit_operations_syntax

text \<open>
  Task management, \<open>kernel/task.c\<close>: creation, deletion (immediate and deferred), suspension,
  delays, priorities, the tick that counts delays down, stack watermarks and the stack canary, the
  task table and the idle hooks. The list primitives are in \<open>Task_Lists\<close>.

  An output parameter is part of the result; a flag says whether the caller passed a non-null
  address where the code tests it.
\<close>

section \<open>Heap access from the kernel\<close>

definition sizeof_tcb :: u32 where "sizeof_tcb = 96"

definition kmalloc :: "env \<Rightarrow> u32 \<Rightarrow> os \<Rightarrow> (ptr \<times> os) option" where
  "kmalloc e n s = do { (p, h) \<leftarrow> os_heap_alloc (call_malloc_failed e) n (heap s); Some (p, s\<lparr>heap := h\<rparr>) }"

definition kfree :: "ptr \<Rightarrow> os \<Rightarrow> os option" where
  "kfree p s = do { h \<leftarrow> os_heap_free p (heap s); Some (s\<lparr>heap := h\<rparr>) }"

text \<open>Freeing a task control block ends its life: later accesses to it do not return.\<close>

definition kfree_tcb :: "ptr \<Rightarrow> os \<Rightarrow> os option" where
  "kfree_tcb t s = do { s \<leftarrow> kfree t s; Some (s\<lparr>tcbs := (tcbs s)(t := None)\<rparr>) }"

section \<open>Stacks\<close>

definition prv_allocate_stack :: "env \<Rightarrow> u32 \<Rightarrow> os \<Rightarrow> (ptr \<times> os) option" where
  "prv_allocate_stack e n s = kmalloc e n s"

definition word_at :: "ptr \<Rightarrow> nat \<Rightarrow> ptr" where "word_at base i = base + 4 * of_nat i"

definition prv_fill_stack :: "ptr \<Rightarrow> u32 \<Rightarrow> (ptr \<Rightarrow> u32) \<Rightarrow> ptr \<Rightarrow> u32" where
  "prv_fill_stack stack sz m =
     (let words = sz div 4;
          m = fold (\<lambda>i m. m(word_at stack i := STACK_FILL)) [0..<unat words] m
      in m(stack := OS_STACK_CANARY_VALUE))"

definition prv_calc_high_water :: "ptr \<Rightarrow> u32 \<Rightarrow> (ptr \<Rightarrow> u32) \<Rightarrow> u32" where
  "prv_calc_high_water base sz m =
     (let words = sz div 4;
          unused = length (takeWhile (\<lambda>i. m (word_at base i) = STACK_FILL) [0..<unat words])
      in sz - of_nat unused * 4)"

section \<open>Initialization and creation\<close>

definition os_task_init_ready_list :: "os \<Rightarrow> os" where
  "os_task_init_ready_list s =
     s\<lparr>ready_list := (\<lambda>i. if i < 8 then \<lparr>rl_head = NULL, rl_tail = NULL, rl_count = 0\<rparr> else ready_list s i),
       ready_bitmap := 0, blocked_list := NULL, deferred_delete_list := NULL, task_count := 0,
       current_task_ptr := NULL, idle_hook_count := 0,
       idle_hooks := (\<lambda>i. if i < 4 then NULL else idle_hooks s i)\<rparr>"

definition strncpy_name :: "string \<Rightarrow> string" where
  "strncpy_name nm = take (OS_CONFIG_MAX_NAME_LEN - 1) nm"

definition new_tcb :: "ptr \<Rightarrow> string option \<Rightarrow> ptr \<Rightarrow> u32 \<Rightarrow> ptr \<Rightarrow> u32 \<Rightarrow> ptr \<Rightarrow> os_tcb" where
  "new_tcb func nm param prio stack sz sp =
     \<lparr>stack_ptr = sp, stack_base = stack, stack_size = sz, priority = prio,
      tcb_state = OS_TASK_READY, delay_ticks = 0,
      tcb_name = (case nm of Some n \<Rightarrow> strncpy_name n | None \<Rightarrow> ''unnamed''),
      entry_func = func, tcb_param = param, tcb_next = NULL, tcb_prev = NULL, pending_delete = 0,
      stack_high_water = 0, blocked_on = NULL, blocked_reason = OS_BLOCKED_NONE, timed_out = 0,
      event_wait_bits = 0, event_wait_options = 0, event_return_bits = 0, notify_value = 0,
      notify_pending = 0, run_time_ticks = 0\<rparr>"

text \<open>The part of \<open>os_task_create\<close> that runs once the stack and the control block are there.\<close>

definition finish_create ::
    "ptr \<Rightarrow> string option \<Rightarrow> ptr \<Rightarrow> u32 \<Rightarrow> ptr \<Rightarrow> u32 \<Rightarrow> ptr \<Rightarrow> os \<Rightarrow> os option" where
  "finish_create func nm param prio stack sz tcb s =
     do {
       let m = prv_fill_stack stack sz (mem32 s);
       let (sp, m) = os_port_stack_init func param stack sz m;
       let s = s\<lparr>mem32 := m, tcbs := (tcbs s)(tcb \<mapsto> new_tcb func nm param prio stack sz sp)\<rparr>;
       let s = s\<lparr>task_table := (task_table s)(unat (task_count s) := tcb), task_count := task_count s + 1\<rparr>;
       s \<leftarrow> os_task_add_to_ready tcb s;
       Some (os_trace_record OS_TRACE_TASK_CREATE tcb prio s)
     }"

text \<open>
  The result is the status, the value stored through \<open>handle\<close> (\<open>NULL\<close> when nothing is
  stored) and the state.
\<close>

definition os_task_create ::
    "env \<Rightarrow> ptr \<Rightarrow> string option \<Rightarrow> ptr \<Rightarrow> u32 \<Rightarrow> ptr \<Rightarrow> u32 \<Rightarrow> bool \<Rightarrow> os \<Rightarrow> (os_status \<times> ptr \<times> os) option" where
  "os_task_create e func nm param prio stack_buf sz wants s =
     (if func = NULL \<or> prio \<ge> OS_CONFIG_NUM_PRIORITIES then Some (OS_ERR_PARAM, NULL, s)
      else if task_count s \<ge> OS_CONFIG_MAX_TASKS then Some (OS_ERR_FULL, NULL, s)
      else if sz < 128 then Some (OS_ERR_PARAM, NULL, s)
      else do {
        (stack, s) \<leftarrow> (if stack_buf = NULL then prv_allocate_stack e sz s else Some (stack_buf, s));
        if stack = NULL then Some (OS_ERR_NOMEM, NULL, s)
        else do {
          (tcb, s) \<leftarrow> kmalloc e sizeof_tcb s;
          if tcb = NULL
          then do {
            s \<leftarrow> (if stack_buf = NULL then kfree stack s else Some s);
            Some (OS_ERR_NOMEM, NULL, s)
          }
          else do {
            s \<leftarrow> finish_create func nm param prio stack sz tcb s;
            Some (OS_OK, if wants then tcb else NULL, s)
          }
        }
      })"

definition os_task_create_idle :: "env \<Rightarrow> os \<Rightarrow> os option" where
  "os_task_create_idle e s =
     do {
       (_, _, s) \<leftarrow> os_task_create e (idle_task_func e) (Some ''IDLE'') NULL OS_PRIO_LOWEST
                      (idle_task_stack e) OS_CONFIG_IDLE_STACK_SIZE False s;
       Some s
     }"

section \<open>Suspension, delays, priorities\<close>

definition os_task_suspend :: "env \<Rightarrow> ptr \<Rightarrow> os \<Rightarrow> (os_status \<times> os) option" where
  "os_task_suspend e tcb s =
     (if tcb = NULL then Some (OS_ERR_PARAM, s)
      else do {
        let s = os_sched_enter_critical s;
        c \<leftarrow> get_tcb tcb s;
        s \<leftarrow> (if tcb_state c = OS_TASK_READY \<or> tcb_state c = OS_TASK_RUNNING
              then do {
                s \<leftarrow> os_task_remove_from_ready tcb s;
                s \<leftarrow> upd_tcb tcb (\<lambda>c. c\<lparr>tcb_state := OS_TASK_SUSPENDED\<rparr>) s;
                Some (os_trace_record OS_TRACE_TASK_SUSPEND tcb 0 s)
              }
              else Some s);
        let s = os_sched_exit_critical s;
        s \<leftarrow> (if tcb = current_task_ptr s then os_sched_yield e s else Some s);
        Some (OS_OK, s)
      })"

definition os_task_create_suspended ::
    "env \<Rightarrow> ptr \<Rightarrow> string option \<Rightarrow> ptr \<Rightarrow> u32 \<Rightarrow> ptr \<Rightarrow> u32 \<Rightarrow> bool \<Rightarrow> os \<Rightarrow> (os_status \<times> ptr \<times> os) option" where
  "os_task_create_suspended e func nm param prio stack_buf sz wants s =
     do {
       (ret, h, s) \<leftarrow> os_task_create e func nm param prio stack_buf sz wants s;
       if ret \<noteq> OS_OK then Some (ret, h, s)
       else do {
         s \<leftarrow> (if wants then do { (_, s) \<leftarrow> os_task_suspend e h s; Some s } else Some s);
         Some (OS_OK, h, s)
       }
     }"

definition os_task_resume :: "ptr \<Rightarrow> os \<Rightarrow> (os_status \<times> os) option" where
  "os_task_resume tcb s =
     (if tcb = NULL then Some (OS_ERR_PARAM, s)
      else do {
        let s = os_sched_enter_critical s;
        c \<leftarrow> get_tcb tcb s;
        s \<leftarrow> (if tcb_state c = OS_TASK_SUSPENDED
              then do {
                s \<leftarrow> os_task_add_to_ready tcb s;
                Some (os_trace_record OS_TRACE_TASK_RESUME tcb 0 s)
              }
              else Some s);
        Some (OS_OK, os_sched_exit_critical s)
      })"

definition os_task_delay :: "env \<Rightarrow> u32 \<Rightarrow> os \<Rightarrow> (os_status \<times> os) option" where
  "os_task_delay e ticks s =
     (if ticks = 0 then do { s \<leftarrow> os_sched_yield e s; Some (OS_OK, s) }
      else do {
        let s = os_sched_enter_critical s;
        s \<leftarrow> os_task_add_to_blocked (current_task_ptr s) ticks s;
        let s = os_trace_record OS_TRACE_TASK_DELAY (current_task_ptr s) ticks s;
        let s = os_sched_exit_critical s;
        s \<leftarrow> os_sched_yield e s;
        Some (OS_OK, s)
      })"

text \<open>\<open>prev\<close> is the content of \<open>*previous_wake_tick\<close> (\<open>None\<close> for a null pointer).\<close>

definition INT32_MAX :: u32 where "INT32_MAX = 0x7FFFFFFF"

definition os_task_delay_until ::
    "env \<Rightarrow> u32 option \<Rightarrow> u32 \<Rightarrow> os \<Rightarrow> (os_status \<times> u32 option \<times> os) option" where
  "os_task_delay_until e prev period s =
     (case prev of
        None \<Rightarrow> Some (OS_ERR_PARAM, prev, s)
      | Some pw \<Rightarrow>
          if period = 0 \<or> period > INT32_MAX then Some (OS_ERR_PARAM, prev, s)
          else do {
            let next_wake = pw + period;
            let ticks_to_delay = next_wake - os_kernel_get_tick s;
            if 0 < sint ticks_to_delay
            then do { (r, s) \<leftarrow> os_task_delay e ticks_to_delay s; Some (r, Some next_wake, s) }
            else Some (OS_OK, Some next_wake, s)
          })"

definition os_task_set_priority :: "ptr \<Rightarrow> u32 \<Rightarrow> os \<Rightarrow> (os_status \<times> os) option" where
  "os_task_set_priority tcb new_prio s =
     (if tcb = NULL \<or> new_prio \<ge> OS_CONFIG_NUM_PRIORITIES then Some (OS_ERR_PARAM, s)
      else do {
        let s = os_sched_enter_critical s;
        c \<leftarrow> get_tcb tcb s;
        s \<leftarrow> (if tcb_state c = OS_TASK_READY
              then do {
                s \<leftarrow> os_task_remove_from_ready tcb s;
                s \<leftarrow> upd_tcb tcb (\<lambda>c. c\<lparr>priority := new_prio\<rparr>) s;
                os_task_add_to_ready tcb s
              }
              else upd_tcb tcb (\<lambda>c. c\<lparr>priority := new_prio\<rparr>) s);
        Some (OS_OK, os_sched_exit_critical s)
      })"

section \<open>Deletion\<close>

definition run_delete_hook :: "env \<Rightarrow> ptr \<Rightarrow> os \<Rightarrow> os option" where
  "run_delete_hook e tcb s =
     (if task_delete_hook s \<noteq> NULL then call_delete_hook e (task_delete_hook s) tcb s else Some s)"

text \<open>The branch of \<open>os_task_delete\<close> for a null handle, which it also takes for the caller's own.\<close>

definition os_task_delete_self :: "env \<Rightarrow> os \<Rightarrow> (os_status \<times> os) option" where
  "os_task_delete_self e s =
     (let tcb = current_task_ptr s in
      if tcb = NULL then Some (OS_ERR_PARAM, s)
      else do {
        let s = os_sched_enter_critical s;
        s \<leftarrow> os_task_remove_from_ready tcb s;
        s \<leftarrow> upd_tcb tcb (\<lambda>c. c\<lparr>tcb_state := OS_TASK_DELETED, pending_delete := 1\<rparr>) s;
        s \<leftarrow> run_delete_hook e tcb s;
        s \<leftarrow> upd_tcb tcb (\<lambda>c. c\<lparr>tcb_next := deferred_delete_list s\<rparr>) s;
        let s = s\<lparr>deferred_delete_list := tcb\<rparr>;
        let s = os_trace_record OS_TRACE_TASK_DELETE tcb 0 s;
        let s = os_sched_exit_critical s;
        s \<leftarrow> os_sched_yield e s;
        Some (OS_OK, s)
      })"

definition free_task :: "env \<Rightarrow> ptr \<Rightarrow> os \<Rightarrow> os option" where
  "free_task e tcb s =
     do {
       c \<leftarrow> get_tcb tcb s;
       s \<leftarrow> (if stack_base c \<noteq> idle_task_stack e then kfree (stack_base c) s else Some s);
       kfree_tcb tcb s
     }"

definition os_task_delete :: "env \<Rightarrow> ptr \<Rightarrow> os \<Rightarrow> (os_status \<times> os) option" where
  "os_task_delete e tcb s =
     (if tcb = NULL \<or> tcb = current_task_ptr s then os_task_delete_self e s
      else do {
        let s = os_sched_enter_critical s;
        c \<leftarrow> get_tcb tcb s;
        s \<leftarrow> (if tcb_state c = OS_TASK_READY then os_task_remove_from_ready tcb s else Some s);
        s \<leftarrow> upd_tcb tcb (\<lambda>c. c\<lparr>tcb_state := OS_TASK_DELETED\<rparr>) s;
        s \<leftarrow> run_delete_hook e tcb s;
        let s = os_trace_record OS_TRACE_TASK_DELETE tcb 0 s;
        s \<leftarrow> free_task e tcb s;
        Some (OS_OK, os_sched_exit_critical s)
      })"

partial_function (option) deferred_walk :: "env \<Rightarrow> ptr \<Rightarrow> os \<Rightarrow> os option" where
  "deferred_walk e tcb s =
     (if tcb = NULL then Some s
      else do {
        c \<leftarrow> get_tcb tcb s;
        s \<leftarrow> free_task e tcb s;
        deferred_walk e (tcb_next c) s
      })"

definition os_task_process_deferred_delete :: "env \<Rightarrow> os \<Rightarrow> os option" where
  "os_task_process_deferred_delete e s =
     do {
       let s = os_sched_enter_critical s;
       let tcb = deferred_delete_list s;
       let s = s\<lparr>deferred_delete_list := NULL\<rparr>;
       let s = os_sched_exit_critical s;
       deferred_walk e tcb s
     }"

section \<open>The tick\<close>

definition wake_delayed :: "ptr \<Rightarrow> os \<Rightarrow> os option" where
  "wake_delayed tcb s =
     do {
       s \<leftarrow> unlink Blocked tcb s;
       c \<leftarrow> get_tcb tcb s;
       s \<leftarrow> (if blocked_on c \<noteq> NULL
             then upd_tcb tcb (\<lambda>c. c\<lparr>timed_out := 1, blocked_on := NULL, blocked_reason := OS_BLOCKED_NONE\<rparr>) s
             else Some s);
       os_task_add_to_ready tcb s
     }"

definition tick_task :: "ptr \<Rightarrow> os \<Rightarrow> os option" where
  "tick_task tcb s =
     do {
       c \<leftarrow> get_tcb tcb s;
       if delay_ticks c > 0
       then do {
         s \<leftarrow> upd_tcb tcb (\<lambda>c. c\<lparr>delay_ticks := delay_ticks c - 1\<rparr>) s;
         if delay_ticks c - 1 = 0 then wake_delayed tcb s else Some s
       }
       else Some s
     }"

partial_function (option) tick_walk :: "ptr \<Rightarrow> os \<Rightarrow> os option" where
  "tick_walk tcb s =
     (if tcb = NULL then Some s
      else do {
        c \<leftarrow> get_tcb tcb s;
        s \<leftarrow> tick_task tcb s;
        tick_walk (tcb_next c) s
      })"

definition update_high_water :: "os \<Rightarrow> os option" where
  "update_high_water s =
     (let cur = current_task_ptr s in
      if cur = NULL then Some s
      else do {
        c \<leftarrow> get_tcb cur s;
        let used = prv_calc_high_water (stack_base c) (stack_size c) (mem32 s);
        if used > stack_high_water c
        then upd_tcb cur (\<lambda>c. c\<lparr>stack_high_water := used\<rparr>) s else Some s
      })"

definition os_task_check_stack_overflow :: "os \<Rightarrow> unit option" where
  "os_task_check_stack_overflow s =
     (let cur = current_task_ptr s in
      if cur = NULL then Some ()
      else do { c \<leftarrow> get_tcb cur s; OS_ASSERT (mem32 s (stack_base c) = OS_STACK_CANARY_VALUE) })"

definition os_task_tick :: "env \<Rightarrow> os \<Rightarrow> os option" where
  "os_task_tick e s =
     do {
       s \<leftarrow> tick_walk (blocked_list s) s;
       s \<leftarrow> update_high_water s;
       _ \<leftarrow> os_task_check_stack_overflow s;
       os_task_process_deferred_delete e s
     }"

section \<open>Queries\<close>

definition os_task_get_name :: "ptr \<Rightarrow> os \<Rightarrow> string option" where
  "os_task_get_name tcb s =
     (if tcb = NULL then Some ''?'' else do { c \<leftarrow> get_tcb tcb s; Some (tcb_name c) })"

definition os_task_get_stack_high_water :: "ptr \<Rightarrow> os \<Rightarrow> u32 option" where
  "os_task_get_stack_high_water tcb s =
     (if tcb = NULL then Some 0 else do { c \<leftarrow> get_tcb tcb s; Some (stack_high_water c) })"

definition os_task_get_state :: "ptr \<Rightarrow> os \<Rightarrow> os_task_state option" where
  "os_task_get_state tcb s =
     (if tcb = NULL then Some OS_TASK_DELETED else do { c \<leftarrow> get_tcb tcb s; Some (tcb_state c) })"

definition os_task_get_priority :: "ptr \<Rightarrow> os \<Rightarrow> u32 option" where
  "os_task_get_priority tcb s =
     (if tcb = NULL then Some OS_PRIO_LOWEST else do { c \<leftarrow> get_tcb tcb s; Some (priority c) })"

definition os_task_get_count :: "os \<Rightarrow> u32" where
  "os_task_get_count s = task_count s"

definition os_task_get_by_index :: "u32 \<Rightarrow> os \<Rightarrow> ptr" where
  "os_task_get_by_index index s = (if index \<ge> task_count s then NULL else task_table s (unat index))"

section \<open>Hooks\<close>

definition hook_index :: "(nat \<Rightarrow> ptr) \<Rightarrow> u32 \<Rightarrow> ptr \<Rightarrow> nat option" where
  "hook_index tab n hook = List.find (\<lambda>i. tab i = hook) [0..<unat n]"

definition hook_shift :: "nat \<Rightarrow> u32 \<Rightarrow> (nat \<Rightarrow> ptr) \<Rightarrow> nat \<Rightarrow> ptr" where
  "hook_shift i n tab = fold (\<lambda>j tab. tab(j := tab (j + 1))) [i..<unat (n - 1)] tab"

definition os_task_register_idle_hook :: "ptr \<Rightarrow> os \<Rightarrow> os_status \<times> os" where
  "os_task_register_idle_hook hook s =
     (if hook = NULL then (OS_ERR_PARAM, s)
      else let s = os_sched_enter_critical s in
        if idle_hook_count s \<ge> OS_CONFIG_MAX_IDLE_HOOKS then (OS_ERR_FULL, os_sched_exit_critical s)
        else if hook_index (idle_hooks s) (idle_hook_count s) hook \<noteq> None
        then (OS_ERR_STATE, os_sched_exit_critical s)
        else let s = s\<lparr>idle_hooks := (idle_hooks s)(unat (idle_hook_count s) := hook),
                       idle_hook_count := idle_hook_count s + 1\<rparr>
             in (OS_OK, os_sched_exit_critical s))"

definition os_task_unregister_idle_hook :: "ptr \<Rightarrow> os \<Rightarrow> os_status \<times> os" where
  "os_task_unregister_idle_hook hook s =
     (if hook = NULL then (OS_ERR_PARAM, s)
      else let s = os_sched_enter_critical s in
        case hook_index (idle_hooks s) (idle_hook_count s) hook of
          None \<Rightarrow> (OS_ERR_PARAM, os_sched_exit_critical s)
        | Some i \<Rightarrow>
            let s = s\<lparr>idle_hooks := hook_shift i (idle_hook_count s) (idle_hooks s)\<rparr>;
                s = s\<lparr>idle_hook_count := idle_hook_count s - 1\<rparr>;
                s = s\<lparr>idle_hooks := (idle_hooks s)(unat (idle_hook_count s) := NULL)\<rparr>
            in (OS_OK, os_sched_exit_critical s))"

definition os_task_set_stack_overflow_hook :: "ptr \<Rightarrow> os \<Rightarrow> os" where
  "os_task_set_stack_overflow_hook hook s = s\<lparr>stack_overflow_hook := hook\<rparr>"

definition os_task_set_delete_hook :: "ptr \<Rightarrow> os \<Rightarrow> os" where
  "os_task_set_delete_hook hook s = s\<lparr>task_delete_hook := hook\<rparr>"

text \<open>
  One turn of the idle task's endless loop, with tickless idle compiled out: the hooks in order,
  the bound re-read at each turn as the C loop does. A hook may change the table, so the loop is a
  partial function.
\<close>

partial_function (option) idle_hooks_from :: "env \<Rightarrow> u32 \<Rightarrow> os \<Rightarrow> os option" where
  "idle_hooks_from e i s =
     (if i < idle_hook_count s
      then do {
        s \<leftarrow> (if idle_hooks s (unat i) \<noteq> NULL then call_idle_hook e (idle_hooks s (unat i)) s else Some s);
        idle_hooks_from e (i + 1) s
      }
      else Some s)"

definition idle_task_turn :: "env \<Rightarrow> os \<Rightarrow> os option" where
  "idle_task_turn e s = (if idle_hook_count s > 0 then idle_hooks_from e 0 s else Some s)"

section \<open>The tick on the abstract state\<close>

definition expire :: "os_tcb \<Rightarrow> os_tcb" where
  "expire d = (if blocked_on d \<noteq> NULL
     then d\<lparr>delay_ticks := 0, timed_out := 1, blocked_on := NULL, blocked_reason := OS_BLOCKED_NONE,
            tcb_state := OS_TASK_READY\<rparr>
     else d\<lparr>delay_ticks := 0, tcb_state := OS_TASK_READY\<rparr>)"

definition ticked :: "os_tcb \<Rightarrow> os_tcb" where
  "ticked d = (if delay_ticks d = 0 then d else if delay_ticks d = 1 then expire d
     else d\<lparr>delay_ticks := delay_ticks d - 1\<rparr>)"

definition due :: "(ptr \<rightharpoonup> os_tcb) \<Rightarrow> ptr \<Rightarrow> bool" where
  "due V t = (case V t of Some d \<Rightarrow> delay_ticks d = 1 | None \<Rightarrow> False)"

lemma get_tcb_rep: "rep s A V \<Longrightarrow> t \<in> set (A l) \<Longrightarrow> \<exists>c d. get_tcb t s = Some c \<and> V t = Some d \<and> erase c = d"
  using rep_member [of s A V t l] rep_Some [of s A V t] by (auto simp: get_tcb_def)

lemma wake_delayed_rep:
  assumes r: "rep s A V" and t: "t \<in> set (A Blocked)" "V t = Some d" and p: "priority d < 8"
  shows "\<exists>s'. wake_delayed t s = Some s' \<and> frame s s'
    \<and> rep s' (A(Blocked := remove1 t (A Blocked), Ready (unat (priority d)) := A (Ready (unat (priority d))) @ [t]))
        (V(t \<mapsto> (if blocked_on d \<noteq> NULL
            then d\<lparr>timed_out := 1, blocked_on := NULL, blocked_reason := OS_BLOCKED_NONE, tcb_state := OS_TASK_READY\<rparr>
            else d\<lparr>tcb_state := OS_TASK_READY\<rparr>)))"
proof -
  have tz: "t \<noteq> NULL" using rep_member(1) [OF r t(1)] .
  let ?A = "A(Blocked := remove1 t (A Blocked))"
  let ?f = "\<lambda>c. c\<lparr>timed_out := 1, blocked_on := NULL, blocked_reason := OS_BLOCKED_NONE\<rparr>"
  let ?d = "if blocked_on d \<noteq> NULL then ?f d else d"
  obtain s1 where s1: "unlink Blocked t s = Some s1" "rep s1 ?A V" "frame s s1"
    using unlink_rep [OF r _ t(1)] by auto
  obtain c where c: "tcbs s1 t = Some c" "erase c = d" using rep_Some [OF s1(2) t(2)] by blast
  obtain s2 where s2: "(if blocked_on c \<noteq> NULL then upd_tcb t ?f s1 else Some s1) = Some s2"
    "rep s2 ?A (V(t \<mapsto> ?d))" "frame s1 s2"
  proof (cases "blocked_on d = NULL")
    case True
    moreover have "blocked_on c = blocked_on d" using c(2) by auto
    ultimately show ?thesis using that [of s1] s1(2) c t(2) by (simp add: fun_upd_idem)
  next
    case False
    have "blocked_on c = blocked_on d" using c(2) by auto
    then show ?thesis using that upd_tcb_rep [OF s1(2) tz t(2), of ?f] False by (auto simp: data_upd_def)
  qed
  have nw: "nowhere ?A t" using nowhere_remove1 [OF r t(1)] by simp
  have "priority ?d = priority d" by simp
  with add_to_ready_rep [OF s2(2) nw tz, of ?d] p obtain s3 where s3: "os_task_add_to_ready t s2 = Some s3"
    "frame s2 s3" "rep s3 (?A(Ready (unat (priority d)) := A (Ready (unat (priority d))) @ [t])) (V(t \<mapsto> ?d\<lparr>tcb_state := OS_TASK_READY\<rparr>))"
    by auto
  have "wake_delayed t s = Some s3" using s1(1) c(1) tz s2(1) s3(1) by (simp add: wake_delayed_def get_tcb_def)
  then show ?thesis using s3(3) frame_trans [OF s1(3) frame_trans [OF s2(3) s3(2)]] by (auto split: if_splits)
qed

lemma tick_task_rep:
  assumes r: "rep s A V" and t: "t \<in> set (A Blocked)" "V t = Some d" and p: "priority d < 8"
  shows "\<exists>s'. tick_task t s = Some s' \<and> frame s s' \<and>
    rep s' (if delay_ticks d = 1
            then A(Blocked := remove1 t (A Blocked), Ready (unat (priority d)) := A (Ready (unat (priority d))) @ [t]) else A)
       (V(t \<mapsto> ticked d))"
proof -
  have tz: "t \<noteq> NULL" using rep_member(1) [OF r t(1)] .
  obtain c where c: "tcbs s t = Some c" "erase c = d" using rep_Some [OF r t(2)] by blast
  have dc: "delay_ticks c = delay_ticks d" using c(2) by auto
  show ?thesis
  proof (cases "delay_ticks d = 0")
    case True
    then show ?thesis using r t(2) c tz dc
      by (auto simp: tick_task_def get_tcb_def ticked_def fun_upd_idem)
  next
    case False
    let ?f = "\<lambda>c. c\<lparr>delay_ticks := delay_ticks c - 1\<rparr>"
    obtain s1 where s1: "upd_tcb t ?f s = Some s1" "rep s1 A (V(t \<mapsto> ?f d))" "frame s s1"
      using upd_tcb_rep [OF r tz t(2), of ?f] by (auto simp: data_upd_def)
    have run: "tick_task t s = (if delay_ticks d = 1 then wake_delayed t s1 else Some s1)"
      using c tz dc False s1(1) by (auto simp: tick_task_def get_tcb_def word_neq_0_conv)
    show ?thesis
    proof (cases "delay_ticks d = 1")
      case True
      then show ?thesis using wake_delayed_rep [OF s1(2) t(1), of "?f d"] p run frame_trans [OF s1(3)]
        by (auto simp: ticked_def expire_def split: if_splits)
    next
      case nd: False
      then show ?thesis using run s1 False by (auto simp: ticked_def)
    qed
  qed
qed


lemma ticked_states_ok:
  assumes r: "rep s A V" and ok: "states_ok A V" and t: "t \<in> set (A Blocked)" "V t = Some d"
  shows "states_ok (if delay_ticks d = 1
      then A(Blocked := remove1 t (A Blocked), Ready (unat (priority d)) := A (Ready (unat (priority d))) @ [t]) else A)
    (V(t \<mapsto> ticked d))"
proof (cases "delay_ticks d = 1")
  case True
  have "t \<notin> set (A l')" if "l' \<noteq> Blocked" for l' using rep_disjoint_lists [OF r t(1) that] .
  with True show ?thesis
    using states_ok_ready [OF ok t(2), of Blocked "remove1 t (A Blocked)" "ticked d"] rep_list(2) [OF r, of Blocked]
    by (simp add: ticked_def expire_def)
next
  case False
  then show ?thesis using ok t(2) by (auto simp: ticked_def runnable_def fun_upd_idem intro: states_ok_data)
qed

text \<open>
  The walk over the blocked list: \<open>zs\<close> is what has been kept so far, \<open>ys\<close> what is left.
\<close>

lemma tick_walk_rep:
  assumes "rep s A V" "A Blocked = zs @ ys" "states_ok A V"
  shows "\<exists>s' A' V'. tick_walk (first_ptr NULL ys) s = Some s' \<and> frame s s' \<and> rep s' A' V' \<and> states_ok A' V'
    \<and> A' Blocked = zs @ filter (\<lambda>t. \<not> due V t) ys
    \<and> (\<forall>p. A' (Ready p) = A (Ready p) @ filter (\<lambda>t. due V t \<and> unat (prio_of V t) = p) ys)
    \<and> (\<forall>l. wait_list l \<and> l \<noteq> Blocked \<or> l = Deferred \<longrightarrow> A' l = A l)
    \<and> (\<forall>t. V' t = (if t \<in> set ys then map_option ticked (V t) else V t))"
  using assms
proof (induction ys arbitrary: s A V zs)
  case Nil
  then show ?case by (subst tick_walk.simps) auto
next
  case (Cons y ys)
  note r = Cons.prems(1) and Ab = Cons.prems(2)
  have y: "y \<in> set (A Blocked)" by (simp add: Ab)
  obtain c d where c: "get_tcb y s = Some c" and d: "V y = Some d" "erase c = d" using get_tcb_rep [OF r y] by blast
  have p: "priority d < 8" using states_okD(1) [OF Cons.prems(3) d(1)] .
  have tz: "y \<noteq> NULL" using rep_member(1) [OF r y] .
  have dd: "dseg (tcbs s) NULL (zs @ y # ys) NULL" "distinct (zs @ y # ys)" using rep_list(1,2) [OF r, of Blocked] Ab by simp_all
  then have nx: "tcb_next c = first_ptr NULL ys" using c by (simp add: link_def get_tcb_def split: if_splits)
  have ny: "y \<notin> set zs" "y \<notin> set ys" using dd(2) by auto
  let ?p = "unat (priority d)"
  let ?A = "if delay_ticks d = 1 then A(Blocked := remove1 y (A Blocked), Ready ?p := A (Ready ?p) @ [y]) else A"
  let ?V = "V(y \<mapsto> ticked d)"
  obtain s1 where s1: "tick_task y s = Some s1" "frame s s1" "rep s1 ?A ?V"
    using tick_task_rep [OF r y d(1) p] by blast
  have run: "tick_walk (first_ptr NULL (y # ys)) s = tick_walk (first_ptr NULL ys) s1"
    by (subst tick_walk.simps) (simp add: c tz s1(1) nx)
  have due: "due V y \<longleftrightarrow> delay_ticks d = 1" using d by (simp add: due_def)
  have same: "due ?V x = due V x" "prio_of ?V x = prio_of V x" if "x \<in> set ys" for x
    using that ny by (auto simp: due_def prio_of_def)
  then have fl: "filter (\<lambda>t. \<not> due ?V t) ys = filter (\<lambda>t. \<not> due V t) ys"
    "filter (\<lambda>t. due ?V t \<and> unat (prio_of ?V t) = q) ys = filter (\<lambda>t. due V t \<and> unat (prio_of V t) = q) ys" for q
    by (auto intro!: filter_cong)
  have py: "prio_of V y = priority d" using d by (simp add: prio_of_def)
  let ?zs = "if delay_ticks d = 1 then zs else zs @ [y]"
  have p1: "?A Blocked = ?zs @ ys" using ny by (simp add: Ab remove1_split)
  have p2: "states_ok ?A ?V" using ticked_states_ok [OF r Cons.prems(3) y d(1)] .
  obtain s' A' V' where s': "tick_walk (first_ptr NULL ys) s1 = Some s'" "frame s1 s'" "rep s' A' V'" "states_ok A' V'"
    "A' Blocked = ?zs @ filter (\<lambda>t. \<not> due V t) ys"
    "\<forall>q. A' (Ready q) = ?A (Ready q) @ filter (\<lambda>t. due V t \<and> unat (prio_of V t) = q) ys"
    "\<forall>l. wait_list l \<and> l \<noteq> Blocked \<or> l = Deferred \<longrightarrow> A' l = ?A l"
    "\<forall>t. V' t = (if t \<in> set ys then map_option ticked (?V t) else ?V t)"
    using Cons.IH [OF s1(3) p1 p2, unfolded fl] by (elim exE conjE) (rule that)
  have "A' (Ready q) = A (Ready q) @ filter (\<lambda>t. due V t \<and> unat (prio_of V t) = q) (y # ys)" for q
    using s'(6) [THEN spec, of q] due py by auto
  moreover have "A' l = A l" if "wait_list l \<and> l \<noteq> Blocked \<or> l = Deferred" for l
    using s'(7) that by (auto simp: wait_list_def)
  moreover have "V' t = (if t \<in> set (y # ys) then map_option ticked (V t) else V t)" for t
    using s'(8) [THEN spec, of t] ny d by auto
  moreover have "A' Blocked = zs @ filter (\<lambda>t. \<not> due V t) (y # ys)" using s'(5) due by auto
  moreover have "tick_walk (first_ptr NULL (y # ys)) s = Some s'" using run s'(1) by simp
  ultimately show ?case using s'(3,4) frame_trans [OF s1(2) s'(2)]
    by (intro exI [of _ s'] exI [of _ A'] exI [of _ V'] conjI allI impI)
qed


lemma rep_blocked_list: "rep s A V \<Longrightarrow> blocked_list s = first_ptr NULL (A Blocked)"
  using rep_list(3) [of s A V Blocked] by simp

lemma rep_Deferred: "rep s A V \<Longrightarrow> deferred_delete_list s = first_ptr NULL (A Deferred)"
  using rep_list_ok [of s A V] by (auto simp: list_ok_def dest: spec [of _ Deferred])

text \<open>The data of the current task after its watermark was brought up to date.\<close>

definition watermark :: "os \<Rightarrow> os_tcb \<Rightarrow> os_tcb" where
  "watermark s d =
     (let used = prv_calc_high_water (stack_base d) (stack_size d) (mem32 s)
      in if used > stack_high_water d then d\<lparr>stack_high_water := used\<rparr> else d)"

lemma update_high_water_rep:
  assumes r: "rep s A V" and ok: "states_ok A V" and cur: "current_task_ptr s = t" "V t = Some d" "t \<noteq> NULL"
  shows "\<exists>s'. update_high_water s = Some s' \<and> frame s s' \<and> rep s' A (V(t \<mapsto> watermark s d))
     \<and> states_ok A (V(t \<mapsto> watermark s d))"
proof -
  obtain c where c: "tcbs s t = Some c" "erase c = d" using rep_Some [OF r cur(2)] by blast
  let ?u = "prv_calc_high_water (stack_base c) (stack_size c) (mem32 s)"
  have e: "stack_base d = stack_base c" "stack_size d = stack_size c" "stack_high_water d = stack_high_water c"
    using c(2) by auto
  have so: "states_ok A (V(t \<mapsto> watermark s d))"
    by (rule states_ok_data [OF ok cur(2)]) (simp_all add: watermark_def Let_def runnable_def)
  show ?thesis
  proof (cases "?u > stack_high_water c")
    case True
    then show ?thesis using upd_tcb_rep [OF r cur(3,2), of "\<lambda>c. c\<lparr>stack_high_water := ?u\<rparr>"] cur c e so
      by (auto simp: update_high_water_def get_tcb_def Let_def watermark_def data_upd_def)
  next
    case False
    then show ?thesis using r cur c e so
      by (auto simp: update_high_water_def get_tcb_def Let_def watermark_def fun_upd_idem)
  qed
qed

definition canary_ok :: "os \<Rightarrow> os_tcb \<Rightarrow> bool" where
  "canary_ok s d \<longleftrightarrow> mem32 s (stack_base d) = OS_STACK_CANARY_VALUE"

lemma deferred_none:
  assumes "rep s A V" "A Deferred = []"
  shows "os_task_process_deferred_delete e s = Some (os_sched_exit_critical (os_sched_enter_critical s))"
proof -
  have "deferred_delete_list s = NULL" using rep_Deferred [OF assms(1)] assms(2) by simp
  then have "s\<lparr>deferred_delete_list := NULL\<rparr> = s" by (metis os.surjective os.update_convs(13))
  then show ?thesis using \<open>deferred_delete_list s = NULL\<close>
    by (simp add: os_task_process_deferred_delete_def crit_simps deferred_walk.simps)
qed

lemma enter_exit_rep: "rep (os_sched_exit_critical (os_sched_enter_critical s)) A V = rep s A V"
  by (simp add: crit_simps)

lemma os_task_tick_rep:
  assumes r: "rep s A V" and ok: "states_ok A V" and df: "A Deferred = []"
    and cur: "current_task_ptr s = t" "V t = Some d" "runnable d" "canary_ok s d"
  shows "\<exists>s' A' V'. os_task_tick e s = Some s' \<and> rep s' A' V' \<and> states_ok A' V'
    \<and> A' Blocked = filter (\<lambda>t. \<not> due V t) (A Blocked)
    \<and> (\<forall>p. A' (Ready p) = A (Ready p) @ filter (\<lambda>t. due V t \<and> unat (prio_of V t) = p) (A Blocked))
    \<and> (\<forall>l. wait_list l \<and> l \<noteq> Blocked \<or> l = Deferred \<longrightarrow> A' l = A l)
    \<and> (\<forall>x. V' x = (if x = t then Some (watermark s d) else if x \<in> set (A Blocked) then map_option ticked (V x) else V x))
    \<and> current_task_ptr s' = t \<and> mem32 s' = mem32 s \<and> (\<exists>s2. frame s s2 \<and> s' = os_sched_exit_critical (os_sched_enter_critical s2))"
proof -
  have tr: "t \<in> set (A (Ready (unat (priority d))))" using states_okD(2) [OF ok cur(2)] cur(3) by simp
  then have tz: "t \<noteq> NULL" and tb: "t \<notin> set (A Blocked)"
    using rep_member(1) [OF r tr] rep_disjoint_lists [OF r tr, of Blocked] by auto
  obtain s1 A' V1 where s1: "tick_walk (first_ptr NULL (A Blocked)) s = Some s1" "frame s s1" "rep s1 A' V1" "states_ok A' V1"
    and A': "A' Blocked = filter (\<lambda>t. \<not> due V t) (A Blocked)"
    "\<forall>p. A' (Ready p) = A (Ready p) @ filter (\<lambda>t. due V t \<and> unat (prio_of V t) = p) (A Blocked)"
    "\<forall>l. wait_list l \<and> l \<noteq> Blocked \<or> l = Deferred \<longrightarrow> A' l = A l"
    and V1: "\<forall>x. V1 x = (if x \<in> set (A Blocked) then map_option ticked (V x) else V x)"
    using tick_walk_rep [OF r, of "[]"] ok by auto
  note f1 = frame_os [OF s1(2)]
  have c1: "current_task_ptr s1 = t" "V1 t = Some d" using V1 tb cur f1 by auto
  obtain s2 where s2: "update_high_water s1 = Some s2" "frame s1 s2" "rep s2 A' (V1(t \<mapsto> watermark s1 d))"
    "states_ok A' (V1(t \<mapsto> watermark s1 d))"
    using update_high_water_rep [OF s1(3,4) c1 tz] by blast
  note f2 = frame_os [OF s2(2)]
  have w: "watermark s1 d = watermark s d" by (simp add: watermark_def f1)
  obtain c2 where c2: "tcbs s2 t = Some c2" "erase c2 = watermark s d" using rep_Some [OF s2(3), of t] w by auto
  have "stack_base c2 = stack_base d"
    using arg_cong [OF c2(2), of stack_base] by (simp add: watermark_def Let_def)
  then have chk: "os_task_check_stack_overflow s2 = Some ()"
    using c2(1) tz cur f1 f2 by (simp add: os_task_check_stack_overflow_def get_tcb_def canary_ok_def)
  have "os_task_tick e s = Some (os_sched_exit_critical (os_sched_enter_critical s2))"
    using s1(1) s2(1) chk deferred_none [OF s2(3)] A'(3) df
    by (simp add: os_task_tick_def rep_blocked_list [OF r])
  moreover have "rep (os_sched_exit_critical (os_sched_enter_critical s2)) A' (V1(t \<mapsto> watermark s d))"
    using s2(3) w by (simp add: enter_exit_rep)
  moreover have "states_ok A' (V1(t \<mapsto> watermark s d))" using s2(4) w by simp
  moreover have "(V1(t \<mapsto> watermark s d)) x
      = (if x = t then Some (watermark s d) else if x \<in> set (A Blocked) then map_option ticked (V x) else V x)" for x
    using V1 by simp
  moreover have "current_task_ptr (os_sched_exit_critical (os_sched_enter_critical s2)) = t"
    "mem32 (os_sched_exit_critical (os_sched_enter_critical s2)) = mem32 s"
    using f1 f2 cur by (simp_all add: crit_simps)
  moreover have "frame s s2" using frame_trans [OF s1(2) s2(2)] .
  ultimately show ?thesis using A'
    by (intro exI [of _ "os_sched_exit_critical (os_sched_enter_critical s2)"], intro exI [of _ A'],
        intro exI [of _ "V1(t \<mapsto> watermark s d)"], intro conjI allI impI exI [of _ s2] refl) (assumption | blast)+
qed

section \<open>Delays end on time\<close>

fun os_task_ticks :: "env \<Rightarrow> nat \<Rightarrow> os \<Rightarrow> os option" where
  "os_task_ticks e 0 s = Some s"
| "os_task_ticks e (Suc n) s = do { s \<leftarrow> os_task_tick e s; os_task_ticks e n s }"

lemma ticks_blocked_rep:
  assumes "rep s A V" "states_ok A V" "A Deferred = []"
    and "current_task_ptr s = t" "V t = Some d" "runnable d" "canary_ok s d"
    and "x \<in> set (A Blocked)" "V x = Some dx" "delay_ticks dx \<noteq> 0" "k \<le> unat (delay_ticks dx)"
  shows "\<exists>s' A' V' d'. os_task_ticks e k s = Some s' \<and> rep s' A' V' \<and> states_ok A' V' \<and> V' x = Some d'
    \<and> (if k = unat (delay_ticks dx) then tcb_state d' = OS_TASK_READY \<and> x \<in> set (A' (Ready (unat (priority dx))))
       else d' = dx\<lparr>delay_ticks := delay_ticks dx - of_nat k\<rparr> \<and> x \<in> set (A' Blocked))"
  using assms
proof (induction k arbitrary: s A V d dx)
  case 0
  then show ?case by (auto simp: unat_eq_0)
next
  case (Suc k)
  note r = Suc.prems(1) and ok = Suc.prems(2) and cur = Suc.prems(4-7) and x = Suc.prems(8-11)
  obtain s1 A1 V1 where s1: "os_task_tick e s = Some s1" "rep s1 A1 V1" "states_ok A1 V1"
    "A1 Blocked = filter (\<lambda>t. \<not> due V t) (A Blocked)"
    "\<forall>p. A1 (Ready p) = A (Ready p) @ filter (\<lambda>t. due V t \<and> unat (prio_of V t) = p) (A Blocked)"
    "\<forall>l. wait_list l \<and> l \<noteq> Blocked \<or> l = Deferred \<longrightarrow> A1 l = A l"
    "\<forall>x. V1 x = (if x = t then Some (watermark s d) else if x \<in> set (A Blocked) then map_option ticked (V x) else V x)"
    "current_task_ptr s1 = t" "mem32 s1 = mem32 s"
    using os_task_tick_rep [OF r ok Suc.prems(3) cur, of e] by (elim exE conjE) (rule that)
  have "t \<in> set (A (Ready (unat (priority d))))" using states_okD(2) [OF ok cur(2)] cur(3) by simp
  then have xt: "x \<noteq> t" using rep_disjoint_lists [OF r, of t "Ready (unat (priority d))" Blocked] x(1) by auto
  have V1x: "V1 x = Some (ticked dx)" using s1(7) xt x by simp
  show ?case
  proof (cases "delay_ticks dx = 1")
    case True
    then have "k = 0" using x(4) by simp
    moreover have "tcb_state (ticked dx) = OS_TASK_READY" using True by (simp add: ticked_def expire_def)
    moreover have "x \<in> set (A1 (Ready (unat (priority dx))))" using s1(5) x True by (simp add: due_def prio_of_def)
    ultimately show ?thesis using s1(1-3) V1x True by auto
  next
    case False
    then have tk: "ticked dx = dx\<lparr>delay_ticks := delay_ticks dx - 1\<rparr>" using x(3) by (simp add: ticked_def)
    have u: "unat (delay_ticks dx - 1) = unat (delay_ticks dx) - 1" using x(3) by (rule unat_minus_one_u32)
    have nz: "delay_ticks dx - 1 \<noteq> 0" using False by simp
    have p: "A1 Deferred = []" "V1 t = Some (watermark s d)" "runnable (watermark s d)" "canary_ok s1 (watermark s d)"
      "x \<in> set (A1 Blocked)" using s1 Suc.prems(3) cur x False
      by (auto simp: watermark_def Let_def runnable_def canary_ok_def due_def)
    have "k \<le> unat (delay_ticks (ticked dx))" using x(4) u tk by simp
    then obtain s' A' V' d' where s': "os_task_ticks e k s1 = Some s'" "rep s' A' V'" "states_ok A' V'" "V' x = Some d'"
      "if k = unat (delay_ticks (ticked dx)) then tcb_state d' = OS_TASK_READY \<and> x \<in> set (A' (Ready (unat (priority (ticked dx)))))
       else d' = (ticked dx)\<lparr>delay_ticks := delay_ticks (ticked dx) - of_nat k\<rparr> \<and> x \<in> set (A' Blocked)"
      using Suc.IH [OF s1(2,3) p(1) s1(8) p(2-5) V1x] nz tk by auto
    have "k = unat (delay_ticks (ticked dx)) \<longleftrightarrow> Suc k = unat (delay_ticks dx)"
      using u tk x(3,4) by auto
    then show ?thesis using s' s1(1) tk
      by (intro exI [of _ s'] exI [of _ A'] exI [of _ V'] exI [of _ d']) (auto simp: algebra_simps)
  qed
qed

lemma ticks_wait_rep:
  assumes "rep s A V" "states_ok A V" "A Deferred = []"
    and "current_task_ptr s = t" "V t = Some d" "runnable d" "canary_ok s d"
    and "x \<in> set (A l)" "wait_list l" "l \<noteq> Blocked" "V x = Some dx"
  shows "\<exists>s' A' V'. os_task_ticks e k s = Some s' \<and> rep s' A' V' \<and> states_ok A' V' \<and> A' l = A l \<and> V' x = Some dx"
  using assms
proof (induction k arbitrary: s A V d)
  case 0
  then show ?case by auto
next
  case (Suc k)
  note r = Suc.prems(1) and ok = Suc.prems(2) and cur = Suc.prems(4-7) and x = Suc.prems(8-11)
  obtain s1 A1 V1 where s1: "os_task_tick e s = Some s1" "rep s1 A1 V1" "states_ok A1 V1"
    "A1 Blocked = filter (\<lambda>t. \<not> due V t) (A Blocked)"
    "\<forall>p. A1 (Ready p) = A (Ready p) @ filter (\<lambda>t. due V t \<and> unat (prio_of V t) = p) (A Blocked)"
    "\<forall>l. wait_list l \<and> l \<noteq> Blocked \<or> l = Deferred \<longrightarrow> A1 l = A l"
    "\<forall>x. V1 x = (if x = t then Some (watermark s d) else if x \<in> set (A Blocked) then map_option ticked (V x) else V x)"
    "current_task_ptr s1 = t" "mem32 s1 = mem32 s"
    using os_task_tick_rep [OF r ok Suc.prems(3) cur, of e] by (elim exE conjE) (rule that)
  have "t \<in> set (A (Ready (unat (priority d))))" using states_okD(2) [OF ok cur(2)] cur(3) by simp
  then have xt: "x \<noteq> t" using rep_disjoint_lists [OF r, of t "Ready (unat (priority d))" l] x(1,2) by (auto simp: wait_list_def)
  have xb: "x \<notin> set (A Blocked)" using rep_disjoint_lists [OF r x(1), of Blocked] x(3) by auto
  have p: "A1 Deferred = []" "V1 t = Some (watermark s d)" "runnable (watermark s d)" "canary_ok s1 (watermark s d)"
      "A1 l = A l" "V1 x = Some dx" using s1 Suc.prems(3) cur x xt xb
      by (auto simp: watermark_def Let_def runnable_def canary_ok_def)
  show ?case using Suc.IH [OF s1(2,3) p(1) s1(8) p(2-4) _ x(2,3) p(6)] p(5) x(1) s1(1) by auto
qed

text \<open>
  C6. \<open>os_task_tick\<close> returns on every well-formed state (lists and task states consistent, no
  deferred deletion pending, the running task's canary intact) and counts every delayed task down:
  the tasks whose delay was 1 leave the blocked list and join the tail of the ready list of their
  priority in the order they had, those with a longer delay lose a tick, those with delay 0 (wait
  forever) and all other tasks stay as they are, and the lists and states are consistent again.
\<close>

theorem os_task_tick_correct:
  assumes "rep s A V" "states_ok A V" "A Deferred = []"
    and "current_task_ptr s = t" "V t = Some d" "runnable d" "canary_ok s d"
  shows "\<exists>s' A' V'. os_task_tick e s = Some s' \<and> rep s' A' V' \<and> states_ok A' V'
    \<and> A' Blocked = filter (\<lambda>t. \<not> due V t) (A Blocked)
    \<and> (\<forall>p. A' (Ready p) = A (Ready p) @ filter (\<lambda>t. due V t \<and> unat (prio_of V t) = p) (A Blocked))
    \<and> (\<forall>l. wait_list l \<and> l \<noteq> Blocked \<or> l = Deferred \<longrightarrow> A' l = A l)
    \<and> (\<forall>x. V' x = (if x = t then Some (watermark s d)
                   else if x \<in> set (A Blocked) then map_option ticked (V x) else V x))"
  using os_task_tick_rep [OF assms, of e] by (elim exE conjE) (intro exI conjI)

lemma demo_run:
  "demo_lists Deferred = []" "current_task_ptr demo = tRun"
  "demo_tcbs tRun = Some (demo_tcb 0x20001000 2 OS_TASK_RUNNING 0)"
  "runnable (demo_tcb 0x20001000 2 OS_TASK_RUNNING 0)" "canary_ok demo (demo_tcb 0x20001000 2 OS_TASK_RUNNING 0)"
  by (simp_all add: demo_lists_def demo_def demo_tcbs_def runnable_def demo_tcb_def canary_ok_def)

theorem os_task_tick_correct_witness:
  "\<exists>s' A' V' d. os_task_tick demo_env demo = Some s' \<and> rep s' A' V' \<and> A' Blocked = [tDelayed]
     \<and> A' (Ready 2) = [tRun, tReady] \<and> V' tDelayed = Some d \<and> delay_ticks d = 2"
proof -
  obtain s' A' V' where "os_task_tick demo_env demo = Some s'" "rep s' A' V'"
    "A' Blocked = filter (\<lambda>t. \<not> due demo_tcbs t) (demo_lists Blocked)"
    "\<forall>p. A' (Ready p) = demo_lists (Ready p)
       @ filter (\<lambda>t. due demo_tcbs t \<and> unat (prio_of demo_tcbs t) = p) (demo_lists Blocked)"
    "\<forall>x. V' x = (if x = tRun then Some (watermark demo (demo_tcb 0x20001000 2 OS_TASK_RUNNING 0))
                 else if x \<in> set (demo_lists Blocked) then map_option ticked (demo_tcbs x) else demo_tcbs x)"
    using os_task_tick_correct [OF demo_rep demo_states_ok demo_run, of demo_env] by blast
  moreover have "\<not> due demo_tcbs tDelayed" "demo_lists Blocked = [tDelayed]" "demo_lists (Ready 2) = [tRun, tReady]"
    "map_option ticked (demo_tcbs tDelayed) = Some ((demo_tcb 0x20001400 1 OS_TASK_BLOCKED 3)\<lparr>delay_ticks := 2\<rparr>)"
    by (simp_all add: due_def demo_tcbs_def demo_tcb_def demo_lists_def ticked_def)
  ultimately show ?thesis by (intro exI [of _ s'] exI [of _ A'] exI [of _ V']) auto
qed

text \<open>
  C28. A delay ends on time: a task in the blocked list with \<open>n > 0\<close> ticks to go is still blocked,
  with \<open>n - k\<close> ticks left and nothing else changed, after \<open>k < n\<close> ticks, and ready after exactly
  \<open>n\<close> of them.
\<close>

theorem delay_ends_on_time:
  assumes "rep s A V" "states_ok A V" "A Deferred = []"
    and "current_task_ptr s = t" "V t = Some d" "runnable d" "canary_ok s d"
    and "x \<in> set (A Blocked)" "V x = Some dx" "delay_ticks dx \<noteq> 0" "k \<le> unat (delay_ticks dx)"
  shows "\<exists>s' A' V' d'. os_task_ticks e k s = Some s' \<and> rep s' A' V' \<and> states_ok A' V' \<and> V' x = Some d'
    \<and> (if k = unat (delay_ticks dx) then tcb_state d' = OS_TASK_READY \<and> x \<in> set (A' (Ready (unat (priority dx))))
       else d' = dx\<lparr>delay_ticks := delay_ticks dx - of_nat k\<rparr> \<and> x \<in> set (A' Blocked))"
  using ticks_blocked_rep [OF assms] .

theorem delay_ends_on_time_witness:
  "\<exists>s' A' V' d'. os_task_ticks demo_env 3 demo = Some s' \<and> rep s' A' V' \<and> V' tDelayed = Some d'
     \<and> tcb_state d' = OS_TASK_READY \<and> tDelayed \<in> set (A' (Ready 1))"
proof -
  have "tDelayed \<in> set (demo_lists Blocked)" "demo_tcbs tDelayed = Some (demo_tcb 0x20001400 1 OS_TASK_BLOCKED 3)"
    "delay_ticks (demo_tcb 0x20001400 1 OS_TASK_BLOCKED 3) \<noteq> 0" "3 \<le> unat (delay_ticks (demo_tcb 0x20001400 1 OS_TASK_BLOCKED 3))"
    by (simp_all add: demo_tcbs_def demo_tcb_def demo_lists_def)
  from delay_ends_on_time [OF demo_rep demo_states_ok demo_run this, of demo_env]
  show ?thesis by (auto simp: demo_tcb_def)
qed

text \<open>
  C29. A task that waits in the list of a queue, semaphore, mutex or event group is in no list that
  the tick looks at: after any number of ticks it is still blocked with the timeout it started
  with, so a finite timeout on these objects never expires.
\<close>

theorem sync_timeout_never_expires:
  assumes "rep s A V" "states_ok A V" "A Deferred = []"
    and "current_task_ptr s = t" "V t = Some d" "runnable d" "canary_ok s d"
    and "x \<in> set (A l)" "wait_list l" "l \<noteq> Blocked" "V x = Some dx"
  shows "\<exists>s' A' V'. os_task_ticks e k s = Some s' \<and> rep s' A' V' \<and> x \<in> set (A' l) \<and> V' x = Some dx"
  using ticks_wait_rep [OF assms, of e k] assms(8) by metis

theorem sync_timeout_never_expires_witness:
  "\<exists>s' A' V'. os_task_ticks demo_env 1000 demo = Some s' \<and> rep s' A' V' \<and> tSem \<in> set (A' (SemW aSem))
     \<and> V' tSem = demo_tcbs tSem"
proof -
  have "tSem \<in> set (demo_lists (SemW aSem))" "wait_list (SemW aSem)" "SemW aSem \<noteq> Blocked"
    "demo_tcbs tSem = Some ((demo_tcb 0x20001800 4 OS_TASK_BLOCKED 10)\<lparr>blocked_on := aSem, blocked_reason := OS_BLOCKED_ON_SEM_TAKE\<rparr>)"
    by (simp_all add: demo_tcbs_def demo_lists_def)
  from sync_timeout_never_expires [OF demo_rep demo_states_ok demo_run this, of demo_env 1000] this(4)
  show ?thesis by simp
qed

section \<open>Delay, suspension, resumption, priority\<close>

definition crit_ok :: "os \<Rightarrow> bool" where
  "crit_ok s \<longleftrightarrow> critical_nesting s \<noteq> - 1 \<and> (critical_nesting s \<noteq> 0 \<longrightarrow> primask s = 1)"

text \<open>What a critical section with a list operation inside leaves of the interrupt state.\<close>

lemma section_crit_same:
  assumes "crit_ok s" "frame (os_sched_enter_critical s) s1" "critical_nesting s2 = critical_nesting s1"
    "primask s2 = primask s1" "saved_mask s2 = saved_mask s1"
  shows "crit_same s (os_sched_exit_critical s2)"
  using assms frame_os [OF assms(2)]
  by (intro critical_section_balanced) (auto simp: crit_same_def crit_ok_def)

lemma enter_rep [simp]: "rep (os_sched_enter_critical s) A V = rep s A V"
  and exit_rep [simp]: "rep (os_sched_exit_critical s) A V = rep s A V"
  and trace_rep [simp]: "rep (os_trace_record ev a b s) A V = rep s A V"
  by (simp_all add: crit_simps)

lemma enter_current [simp]: "current_task_ptr (os_sched_enter_critical s) = current_task_ptr s"
  and exit_current [simp]: "current_task_ptr (os_sched_exit_critical s) = current_task_ptr s"
  and trace_current [simp]: "current_task_ptr (os_trace_record ev a b s) = current_task_ptr s"
  by (simp_all add: crit_simps)

lemma trace_crit [simp]: "critical_nesting (os_trace_record ev a b s) = critical_nesting s"
  "primask (os_trace_record ev a b s) = primask s" "saved_mask (os_trace_record ev a b s) = saved_mask s"
  by (simp_all add: crit_simps)

lemma delay_rep:
  assumes r: "rep s A V" and t: "current_task_ptr s = t" "t \<in> set (A (Ready p))" "V t = Some d" and n: "n \<noteq> 0"
    and c: "crit_ok s"
  shows "\<exists>s1. os_task_delay e n s = map_option (Pair OS_OK) (os_sched_yield e s1)
    \<and> rep s1 (A(Ready p := remove1 t (A (Ready p)), Blocked := t # A Blocked))
          (V(t \<mapsto> d\<lparr>tcb_state := OS_TASK_BLOCKED, delay_ticks := n\<rparr>))
    \<and> crit_same s s1 \<and> current_task_ptr s1 = t
    \<and> frame (s\<lparr>trace := trace s1, primask := primask s1, saved_mask := saved_mask s1, critical_nesting := critical_nesting s1\<rparr>) s1"
proof -
  let ?s = "os_sched_enter_critical s"
  obtain s1 where s1: "os_task_add_to_blocked t n ?s = Some s1" "frame ?s s1"
    "rep s1 (A(Ready p := remove1 t (A (Ready p)), Blocked := t # A Blocked))
          (V(t \<mapsto> d\<lparr>tcb_state := OS_TASK_BLOCKED, delay_ticks := n\<rparr>))"
    using add_to_blocked_rep [of ?s A V t p d n] r t by auto
  have cur: "current_task_ptr s1 = t" using frame_os(10) [OF s1(2)] t(1) by simp
  let ?s2 = "os_trace_record OS_TRACE_TASK_DELAY t n s1"
  have "os_task_delay e n s = map_option (Pair OS_OK) (os_sched_yield e (os_sched_exit_critical ?s2))"
    using n t(1) s1(1) cur by (simp add: os_task_delay_def Let_def map_conv_bind_option comp_def)
  moreover have "crit_same s (os_sched_exit_critical ?s2)"
    by (rule section_crit_same [OF c s1(2)]) simp_all
  moreover have "frame (s\<lparr>trace := trace x, primask := primask x, saved_mask := saved_mask x, critical_nesting := critical_nesting x\<rparr>) x"
    if "x = os_sched_exit_critical ?s2" for x
    using s1(2) unfolding that frame_def strip_lists_def crit_simps by (cases s; cases s1) simp
  ultimately show ?thesis using s1(3) cur by (intro exI [of _ "os_sched_exit_critical ?s2"]) simp
qed

lemma suspend_rep:
  assumes r: "rep s A V" and t: "t \<in> set (A (Ready p))" "V t = Some d" "runnable d" and c: "crit_ok s"
  shows "\<exists>s1. os_task_suspend e t s
        = map_option (Pair OS_OK) (if t = current_task_ptr s then os_sched_yield e s1 else Some s1)
    \<and> rep s1 (A(Ready p := remove1 t (A (Ready p)))) (V(t \<mapsto> d\<lparr>tcb_state := OS_TASK_SUSPENDED\<rparr>))
    \<and> crit_same s s1 \<and> current_task_ptr s1 = current_task_ptr s"
proof -
  let ?s = "os_sched_enter_critical s"
  have tz: "t \<noteq> NULL" using rep_member(1) [OF r t(1)] .
  have r0: "rep ?s A V" using r by simp
  obtain c0 where c0: "get_tcb t ?s = Some c0" "erase c0 = d" using rep_Some [OF r0 t(2)] tz by (auto simp: get_tcb_def)
  have st: "tcb_state c0 = OS_TASK_READY \<or> tcb_state c0 = OS_TASK_RUNNING" using t(3) c0(2) by (auto simp: runnable_def)
  obtain s1 where s1: "os_task_remove_from_ready t ?s = Some s1" "rep s1 (A(Ready p := remove1 t (A (Ready p)))) V" "frame ?s s1"
    using remove_from_ready_rep [OF r0 t(1)] by blast
  obtain s2 where s2: "upd_tcb t (\<lambda>c. c\<lparr>tcb_state := OS_TASK_SUSPENDED\<rparr>) s1 = Some s2" "frame s1 s2"
    "rep s2 (A(Ready p := remove1 t (A (Ready p)))) (V(t \<mapsto> d\<lparr>tcb_state := OS_TASK_SUSPENDED\<rparr>))"
    using upd_tcb_rep [OF s1(2) tz t(2), of "\<lambda>c. c\<lparr>tcb_state := OS_TASK_SUSPENDED\<rparr>"] by (auto simp: data_upd_def)
  have fr: "frame ?s s2" using frame_trans [OF s1(3) s2(2)] .
  let ?s3 = "os_sched_exit_critical (os_trace_record OS_TRACE_TASK_SUSPEND t 0 s2)"
  have cur: "current_task_ptr ?s3 = current_task_ptr s" using frame_os(10) [OF fr] by simp
  have "os_task_suspend e t s = map_option (Pair OS_OK) (if t = current_task_ptr s then os_sched_yield e ?s3 else Some ?s3)"
    using tz c0(1) st s1(1) s2(1) cur by (simp add: os_task_suspend_def get_tcb_def Let_def map_conv_bind_option comp_def)
  moreover have "crit_same s ?s3" by (rule section_crit_same [OF c fr]) simp_all
  ultimately show ?thesis using s2(3) cur by (intro exI [of _ ?s3]) simp
qed

lemma resume_rep:
  assumes r: "rep s A V" and t: "nowhere A t" "t \<noteq> NULL" "V t = Some d" "tcb_state d = OS_TASK_SUSPENDED" "priority d < 8"
    and c: "crit_ok s"
  shows "\<exists>s1. os_task_resume t s = Some (OS_OK, s1)
    \<and> rep s1 (A(Ready (unat (priority d)) := A (Ready (unat (priority d))) @ [t])) (V(t \<mapsto> d\<lparr>tcb_state := OS_TASK_READY\<rparr>))
    \<and> crit_same s s1 \<and> current_task_ptr s1 = current_task_ptr s"
proof -
  let ?s = "os_sched_enter_critical s"
  have r0: "rep ?s A V" using r by simp
  obtain c0 where c0: "get_tcb t ?s = Some c0" "erase c0 = d" using rep_Some [OF r0 t(3)] t(2) by (auto simp: get_tcb_def)
  have st: "tcb_state c0 = OS_TASK_SUSPENDED" using t(4) c0(2) by auto
  obtain s1 where s1: "os_task_add_to_ready t ?s = Some s1" "frame ?s s1"
    "rep s1 (A(Ready (unat (priority d)) := A (Ready (unat (priority d))) @ [t])) (V(t \<mapsto> d\<lparr>tcb_state := OS_TASK_READY\<rparr>))"
    using add_to_ready_rep [OF r0 t(1-3,5)] by blast
  have "crit_same s (os_sched_exit_critical (os_trace_record OS_TRACE_TASK_RESUME t 0 s1))"
    by (rule section_crit_same [OF c s1(2)]) simp_all
  then show ?thesis using t(2) c0(1) st s1(1,3) frame_os(10) [OF s1(2)] by (simp add: os_task_resume_def get_tcb_def Let_def)
qed

lemma suspended_nowhere:
  assumes "rep s A V" "states_ok A V" "V t = Some d" "tcb_state d = OS_TASK_SUSPENDED"
  shows "nowhere A t"
  unfolding nowhere_def
proof
  fix l show "t \<notin> set (A l)"
  proof (cases "wait_list l \<or> l = Deferred")
    case True
    then show ?thesis using states_okD(3,4) [OF assms(2,3)] assms(4) by auto
  next
    case False
    then obtain p where "l = Ready p" by (auto simp: wait_list_def)
    then show ?thesis
      using rep_ready_prio [OF assms(1), of t p] states_okD(2) [OF assms(2,3)] assms(3,4) by (auto simp: runnable_def)
  qed
qed

lemma frame_exit:
  assumes "frame a b" shows "frame (os_sched_exit_critical a) (os_sched_exit_critical b)"
proof -
  have "strip_lists (s\<lparr>critical_nesting := n, primask := p\<rparr>) = (strip_lists s)\<lparr>critical_nesting := n, primask := p\<rparr>" for s n p
    by (simp add: strip_lists_def)
  then show ?thesis using assms frame_os(11,15,17) [OF assms] by (simp add: frame_def exit_critical_nf)
qed

lemma set_priority_ready_rep:
  assumes r: "rep s A V" and t: "t \<in> set (A (Ready p))" "V t = Some d" "tcb_state d = OS_TASK_READY"
    and q: "q < 8" and c: "crit_ok s"
  shows "\<exists>s1. os_task_set_priority t q s = Some (OS_OK, s1) \<and> crit_same s s1
    \<and> frame (os_sched_exit_critical (os_sched_enter_critical s)) s1
    \<and> (let A1 = A(Ready p := remove1 t (A (Ready p)))
       in rep s1 (A1(Ready (unat q) := A1 (Ready (unat q)) @ [t])) (V(t \<mapsto> d\<lparr>priority := q\<rparr>)))"
proof -
  let ?s = "os_sched_enter_critical s" let ?A = "A(Ready p := remove1 t (A (Ready p)))"
  have tz: "t \<noteq> NULL" using rep_member(1) [OF r t(1)] .
  have r0: "rep ?s A V" using r by simp
  obtain c0 where c0: "get_tcb t ?s = Some c0" "erase c0 = d" using rep_Some [OF r0 t(2)] tz by (auto simp: get_tcb_def)
  have st: "tcb_state c0 = OS_TASK_READY" using t(3) c0(2) by auto
  obtain s1 where s1: "os_task_remove_from_ready t ?s = Some s1" "rep s1 ?A V" "frame ?s s1"
    using remove_from_ready_rep [OF r0 t(1)] by blast
  have nw: "nowhere ?A t" using nowhere_remove1 [OF r t(1)] by simp
  obtain c1 where c1: "tcbs s1 t = Some c1" "erase c1 = d" using rep_Some [OF s1(2) t(2)] by blast
  let ?s2 = "s1\<lparr>tcbs := (tcbs s1)(t \<mapsto> c1\<lparr>priority := q\<rparr>)\<rparr>"
  have r2: "rep ?s2 ?A (V(t \<mapsto> d\<lparr>priority := q\<rparr>))"
    using rep_upd_nowhere [OF s1(2) nw, of "c1\<lparr>priority := q\<rparr>"] c1 by simp
  obtain s3 where s3: "os_task_add_to_ready t ?s2 = Some s3" "frame ?s2 s3"
    "rep s3 (?A(Ready (unat q) := ?A (Ready (unat q)) @ [t])) (V(t \<mapsto> d\<lparr>priority := q, tcb_state := OS_TASK_READY\<rparr>))"
    using add_to_ready_rep [OF r2 nw tz, of "d\<lparr>priority := q\<rparr>"] q by auto
  have fr: "frame ?s s3" using frame_trans [OF frame_trans [OF s1(3)] s3(2)] by (simp add: frame_def strip_lists_def)
  have "d\<lparr>priority := q, tcb_state := OS_TASK_READY\<rparr> = d\<lparr>priority := q\<rparr>" using t(3) by (cases d) simp
  moreover have "os_task_set_priority t q s = Some (OS_OK, os_sched_exit_critical s3)"
    using tz q c0(1) st s1(1) c1(1) s3(1) by (simp add: os_task_set_priority_def upd_tcb_def get_tcb_def Let_def not_le)
  moreover have "crit_same s (os_sched_exit_critical s3)" by (rule section_crit_same [OF c fr]) simp_all
  ultimately show ?thesis using s3(3) frame_exit [OF fr] by (simp add: Let_def del: fun_upd_apply)
qed

text \<open>
  \<open>os_task_delay\<close> with a positive number of ticks takes the running task out of its ready list
  and puts it at the front of the blocked list with that delay, keeps the lists and states
  consistent, gives back the interrupt mask and nesting depth it found, and then yields.
\<close>

theorem os_task_delay_correct:
  assumes "rep s A V" "states_ok A V" "crit_ok s" "current_task_ptr s = t" "V t = Some d" "runnable d" "ticks \<noteq> 0"
  shows "\<exists>s1 A1 V1. os_task_delay e ticks s = map_option (Pair OS_OK) (os_sched_yield e s1)
    \<and> A1 = A(Ready (unat (priority d)) := remove1 t (A (Ready (unat (priority d)))), Blocked := t # A Blocked)
    \<and> V1 = V(t \<mapsto> d\<lparr>tcb_state := OS_TASK_BLOCKED, delay_ticks := ticks\<rparr>)
    \<and> rep s1 A1 V1 \<and> states_ok A1 V1 \<and> crit_same s s1 \<and> current_task_ptr s1 = t"
proof -
  let ?p = "unat (priority d)"
  have t: "t \<in> set (A (Ready ?p))" using states_okD(2) [OF assms(2,5)] assms(6) by simp
  have "states_ok (A(Ready ?p := remove1 t (A (Ready ?p)), Blocked := t # A Blocked))
     (V(t \<mapsto> d\<lparr>tcb_state := OS_TASK_BLOCKED, delay_ticks := ticks\<rparr>))"
    by (rule states_ok_block [OF assms(2,5,1) t]) simp_all
  then show ?thesis using delay_rep [OF assms(1,4) t assms(5,7,3), of e] by blast
qed

theorem os_task_delay_correct_witness:
  "\<exists>s1 A1 V1. os_task_delay demo_env 7 demo = map_option (Pair OS_OK) (os_sched_yield demo_env s1)
    \<and> rep s1 A1 V1 \<and> A1 Blocked = [tRun, tDelayed] \<and> A1 (Ready 2) = [tReady]"
proof -
  have "crit_ok demo" by (simp add: crit_ok_def demo_def)
  moreover have "priority (demo_tcb 0x20001000 2 OS_TASK_RUNNING 0) = 2" "demo_lists (Ready 2) = [tRun, tReady]"
    "demo_lists Blocked = [tDelayed]" by (simp_all add: demo_tcb_def demo_lists_def)
  ultimately show ?thesis
    using os_task_delay_correct [OF demo_rep demo_states_ok _ demo_run(2-4), of 7 demo_env] by fastforce
qed

text \<open>
  Suspending a ready task that is not running and resuming it again: the task leaves its ready
  list, no list holds it while it is suspended, and after the resumption it is ready at the tail of
  the list of its priority. Both calls succeed and leave the interrupt state as they found it.
\<close>

theorem suspend_resume_roundtrip:
  assumes "rep s A V" "states_ok A V" "crit_ok s" "V t = Some d" "tcb_state d = OS_TASK_READY" "t \<noteq> current_task_ptr s"
  shows "\<exists>s1 A1 s2. os_task_suspend e t s = Some (OS_OK, s1)
    \<and> rep s1 A1 (V(t \<mapsto> d\<lparr>tcb_state := OS_TASK_SUSPENDED\<rparr>)) \<and> nowhere A1 t
    \<and> os_task_resume t s1 = Some (OS_OK, s2) \<and> crit_same s s2
    \<and> rep s2 (A(Ready (unat (priority d)) := remove1 t (A (Ready (unat (priority d)))) @ [t])) V"
proof -
  let ?p = "unat (priority d)" let ?A = "A(Ready ?p := remove1 t (A (Ready ?p)))"
  have run: "runnable d" using assms(5) by (simp add: runnable_def)
  have t: "t \<in> set (A (Ready ?p))" using states_okD(2) [OF assms(2,4)] run by simp
  obtain s1 where s1: "os_task_suspend e t s = Some (OS_OK, s1)" "rep s1 ?A (V(t \<mapsto> d\<lparr>tcb_state := OS_TASK_SUSPENDED\<rparr>))"
    "crit_same s s1" using suspend_rep [OF assms(1) t assms(4) run assms(3), of e] assms(6) by auto
  have nw: "nowhere ?A t" using nowhere_remove1 [OF assms(1) t] by simp
  have c1: "crit_ok s1" using assms(3) s1(3) by (auto simp: crit_ok_def crit_same_def)
  have "d\<lparr>tcb_state := OS_TASK_SUSPENDED, tcb_state := OS_TASK_READY\<rparr> = d" using assms(5) by (cases d) simp
  then obtain s2 where "os_task_resume t s1 = Some (OS_OK, s2)" "crit_same s1 s2"
     "rep s2 (A(Ready ?p := remove1 t (A (Ready ?p)) @ [t])) V"
    using resume_rep [OF s1(2) nw rep_member(1) [OF assms(1) t], of "d\<lparr>tcb_state := OS_TASK_SUSPENDED\<rparr>"]
      states_okD(1) [OF assms(2,4)] c1 assms(4) by (auto simp: fun_upd_idem)
  then show ?thesis using s1 nw crit_same_trans by blast
qed

theorem suspend_resume_roundtrip_witness:
  "\<exists>s1 A1 s2. os_task_suspend demo_env tReady demo = Some (OS_OK, s1) \<and> nowhere A1 tReady
    \<and> os_task_resume tReady s1 = Some (OS_OK, s2) \<and> rep s2 demo_lists demo_tcbs"
proof -
  have "crit_ok demo" by (simp add: crit_ok_def demo_def)
  moreover have "demo_tcbs tReady = Some (demo_tcb 0x20001200 2 OS_TASK_READY 0)" "tcb_state (demo_tcb 0x20001200 2 OS_TASK_READY 0) = OS_TASK_READY"
    "tReady \<noteq> current_task_ptr demo" "unat (priority (demo_tcb 0x20001200 2 OS_TASK_READY 0)) = 2"
    by (simp_all add: demo_tcbs_def demo_tcb_def demo_def)
  moreover have "demo_lists(Ready 2 := remove1 tReady (demo_lists (Ready 2)) @ [tReady]) = demo_lists"
    by (auto simp: demo_lists_def fun_eq_iff)
  ultimately show ?thesis using suspend_resume_roundtrip [OF demo_rep demo_states_ok, of tReady _ demo_env] by metis
qed

text \<open>
  Changing the priority of a ready task moves it to the tail of the list of its new priority.
\<close>

theorem os_task_set_priority_ready:
  assumes "rep s A V" "states_ok A V" "crit_ok s" "V t = Some d" "tcb_state d = OS_TASK_READY" "q < 8"
  shows "\<exists>s1. os_task_set_priority t q s = Some (OS_OK, s1) \<and> crit_same s s1
    \<and> (let A1 = A(Ready (unat (priority d)) := remove1 t (A (Ready (unat (priority d)))))
       in rep s1 (A1(Ready (unat q) := A1 (Ready (unat q)) @ [t])) (V(t \<mapsto> d\<lparr>priority := q\<rparr>)))"
proof -
  have "t \<in> set (A (Ready (unat (priority d))))" using states_okD(2) [OF assms(2,4)] assms(5) by (simp add: runnable_def)
  from set_priority_ready_rep [OF assms(1) this assms(4,5,6,3)] show ?thesis by blast
qed

theorem os_task_set_priority_ready_witness:
  "\<exists>s1. os_task_set_priority tReady 0 demo = Some (OS_OK, s1)
    \<and> rep s1 (demo_lists(Ready 2 := [tRun], Ready 0 := [tReady])) (demo_tcbs(tReady \<mapsto> demo_tcb 0x20001200 0 OS_TASK_READY 0))"
proof -
  let ?d = "demo_tcb 0x20001200 2 OS_TASK_READY 0"
  have c: "crit_ok demo" by (simp add: crit_ok_def demo_def)
  have d: "demo_tcbs tReady = Some ?d" "tcb_state ?d = OS_TASK_READY" by (simp_all add: demo_tcbs_def demo_tcb_def)
  have e: "unat (priority ?d) = 2" "?d\<lparr>priority := 0\<rparr> = demo_tcb 0x20001200 0 OS_TASK_READY 0" by (simp_all add: demo_tcb_def)
  have l: "remove1 tReady (demo_lists (Ready 2)) = [tRun]" "demo_lists (Ready 0) = []" by (simp_all add: demo_lists_def)
  obtain s1 where s1: "os_task_set_priority tReady 0 demo = Some (OS_OK, s1)"
    and A1: "let A1 = demo_lists(Ready (unat (priority ?d)) := remove1 tReady (demo_lists (Ready (unat (priority ?d)))))
       in rep s1 (A1(Ready (unat 0) := A1 (Ready (unat 0)) @ [tReady])) (demo_tcbs(tReady \<mapsto> ?d\<lparr>priority := 0\<rparr>))"
    using os_task_set_priority_ready [OF demo_rep demo_states_ok c d, of 0] by auto
  have "rep s1 (demo_lists(Ready 2 := [tRun], Ready 0 := [tReady])) (demo_tcbs(tReady \<mapsto> demo_tcb 0x20001200 0 OS_TASK_READY 0))"
    using A1 by (simp add: e l Let_def)
  then show ?thesis using s1 by blast
qed

text \<open>
  Changing the priority of the running task (which is linked at the head of its ready list) does
  not move it: the call reports success and leaves a state that no list contents describe, since the
  task sits in the ready list of another priority than its own.
\<close>

theorem os_task_set_priority_running_breaks:
  assumes "rep s A V" "A (Ready p) = t # ts" "V t = Some d" "tcb_state d = OS_TASK_RUNNING" "q < 8" "unat q \<noteq> p"
  shows "\<exists>s1. os_task_set_priority t q s = Some (OS_OK, s1) \<and> (\<forall>A' V'. \<not> rep s1 A' V')"
proof -
  let ?s = "os_sched_enter_critical s"
  have r0: "rep ?s A V" using assms(1) by simp
  have tz: "t \<noteq> NULL" using rep_member(1) [OF assms(1), of t "Ready p"] assms(2) by simp
  obtain c0 where c0: "tcbs ?s t = Some c0" "erase c0 = d" using rep_Some [OF r0 assms(3)] by blast
  have st: "tcb_state c0 = OS_TASK_RUNNING" using assms(4) c0(2) by auto
  let ?s1 = "os_sched_exit_critical (?s\<lparr>tcbs := (tcbs ?s)(t \<mapsto> c0\<lparr>priority := q\<rparr>)\<rparr>)"
  have run: "os_task_set_priority t q s = Some (OS_OK, ?s1)"
    using tz assms(5) c0(1) st by (simp add: os_task_set_priority_def upd_tcb_def get_tcb_def Let_def not_le)
  have hd: "rl_head (ready_list ?s1 p) = t"
    using rep_ready_list [OF assms(1), of p] assms(2) by (simp add: crit_simps)
  have "\<not> rep ?s1 A' V'" for A' V'
  proof
    assume r: "rep ?s1 A' V'"
    then have "first_ptr NULL (A' (Ready p)) = t" using rep_ready_list [OF r, of p] hd by simp
    then have "t \<in> set (A' (Ready p))" using tz by (cases "A' (Ready p)") auto
    then obtain d' where "V' t = Some d'" "unat (priority d') = p" using rep_ready_prio [OF r] by blast
    moreover have "V' t = Some (erase (c0\<lparr>priority := q\<rparr>))"
      using rep_view [OF r] by (auto simp: crit_simps view_def)
    ultimately show False using assms(6) by auto
  qed
  then show ?thesis using run by blast
qed

theorem os_task_set_priority_running_breaks_witness:
  "\<exists>s1. os_task_set_priority tRun 0 demo = Some (OS_OK, s1) \<and> (\<forall>A' V'. \<not> rep s1 A' V')"
  by (rule os_task_set_priority_running_breaks [OF demo_rep, of 2 _ "[tReady]" "demo_tcb 0x20001000 2 OS_TASK_RUNNING 0"])
    (simp_all add: demo_lists_def demo_tcbs_def demo_tcb_def)

section \<open>Creation on the abstract state\<close>

text \<open>Every task control block is a live area of the heap.\<close>

definition heap_tasks :: "nat \<Rightarrow> heap4 \<Rightarrow> (nat \<times> nat) set \<Rightarrow> (ptr \<rightharpoonup> os_tcb) \<Rightarrow> bool" where
  "heap_tasks start h L V \<longleftrightarrow> heap_rep start h L \<and> malloc_failed_hook h = NULL
     \<and> (\<forall>t. V t \<noteq> None \<longrightarrow> (\<exists>p n. t = adr p \<and> (p, n) \<in> L))"

lemma heap_rep_small: "heap_rep start h L \<Longrightarrow> (p, n) \<in> L \<Longrightarrow> p < 2 ^ 32"
  using heap_rep_bounds [of start h L p n] by (auto simp: heap_rep_def heap_ok_def)

lemma kmalloc_rep:
  assumes h: "heap_tasks start (heap s) L V" and n: "n \<noteq> 0" "unat n + 8 \<le> 2 ^ 32"
  shows "kmalloc e n s = Some (NULL, s)
    \<or> (\<exists>p k h'. kmalloc e n s = Some (adr p, s\<lparr>heap := h'\<rparr>) \<and> adr p \<noteq> NULL \<and> (\<forall>m. (p, m) \<notin> L) \<and> V (adr p) = None
         \<and> heap_tasks start h' (insert (p, k) L) V)"
proof -
  have hr: "heap_rep start (heap s) L" "malloc_failed_hook (heap s) = NULL" using h by (simp_all add: heap_tasks_def)
  from heap_rep_alloc [OF hr(1) n, of "call_malloc_failed e"] show ?thesis
  proof (elim disjE exE conjE)
    fix h' assume "os_heap_alloc (call_malloc_failed e) n (heap s) = Some (NULL, h')" "malloc_failed_hook (heap s) = NULL \<longrightarrow> h' = heap s"
    then show ?thesis using hr(2) by (simp add: kmalloc_def)
  next
    fix p k h' assume a: "os_heap_alloc (call_malloc_failed e) n (heap s) = Some (adr p, h')" "adr p \<noteq> NULL" "\<forall>m. (p, m) \<notin> L"
      "heap_rep start h' (insert (p, k) L)" "malloc_failed_hook h' = malloc_failed_hook (heap s)"
    have "V (adr p) = None"
    proof (rule ccontr)
      assume "V (adr p) \<noteq> None"
      then obtain p' k' where "adr p = adr p'" "(p', k') \<in> L" using h by (auto simp: heap_tasks_def)
      then show False using adr_eq_iff [of p p'] heap_rep_small [OF a(4), of p k] heap_rep_small [OF hr(1), of p' k'] a(3) by auto
    qed
    moreover have "heap_tasks start h' (insert (p, k) L) V" using a(4,5) hr(2) h by (auto simp: heap_tasks_def)
    ultimately show ?thesis using a(1-3) by (auto simp: kmalloc_def)
  qed
qed

lemma no_tcb_nowhere: "rep s A V \<Longrightarrow> V t = None \<Longrightarrow> nowhere A t"
  using rep_member(2) by (fastforce simp: nowhere_def)

lemma erase_new_tcb [simp]: "erase (new_tcb f nm pa pr st sz sp) = new_tcb f nm pa pr st sz sp"
  by (simp add: erase_def new_tcb_def)

text \<open>The second half of a creation, once the control block is there.\<close>

definition created :: "ptr \<Rightarrow> os_tcb \<Rightarrow> os \<Rightarrow> tlists \<Rightarrow> (ptr \<rightharpoonup> os_tcb) \<Rightarrow> os \<Rightarrow> bool" where
  "created t d s A V s' \<longleftrightarrow> t \<noteq> NULL \<and> V t = None
     \<and> rep s' (A(Ready (unat (priority d)) := A (Ready (unat (priority d))) @ [t])) (V(t \<mapsto> d))
     \<and> states_ok (A(Ready (unat (priority d)) := A (Ready (unat (priority d))) @ [t])) (V(t \<mapsto> d))
     \<and> task_count s' = task_count s + 1 \<and> task_table s' = (task_table s)(unat (task_count s) := t)
     \<and> current_task_ptr s' = current_task_ptr s \<and> scheduler_running s' = scheduler_running s \<and> crit_same s s'
     \<and> (stack_ptr d, mem32 s') = os_port_stack_init (entry_func d) (tcb_param d) (stack_base d) (stack_size d)
          (prv_fill_stack (stack_base d) (stack_size d) (mem32 s))"

lemma stack_init_sp: "fst (os_port_stack_init f p b z m) = fst (os_port_stack_init f p b z m')"
  by (simp add: os_port_stack_init_def initial_frame_def push_def Let_def)

lemma finish_create_rep:
  assumes r: "rep s A V" and ok: "states_ok A V" and t: "V t = None" "t \<noteq> NULL" and p: "prio < 8"
    and d: "d = new_tcb f nm pa prio st sz (fst (os_port_stack_init f pa st sz m))"
  shows "\<exists>s'. finish_create f nm pa prio st sz t s = Some s' \<and> created t d s A V s' \<and> heap s' = heap s
     \<and> frame (s\<lparr>mem32 := mem32 s', task_table := task_table s', task_count := task_count s', trace := trace s'\<rparr>) s'"
proof -
  define m1 where "m1 = snd (os_port_stack_init f pa st sz (prv_fill_stack st sz (mem32 s)))"
  have ini: "os_port_stack_init f pa st sz (prv_fill_stack st sz (mem32 s)) = (fst (os_port_stack_init f pa st sz m), m1)"
    using stack_init_sp [of f pa st sz _ m] by (simp add: m1_def prod_eq_iff)
  let ?sa = "s\<lparr>mem32 := m1, task_table := (task_table s)(unat (task_count s) := t), task_count := task_count s + 1\<rparr>"
  let ?sb = "s\<lparr>mem32 := m1, tcbs := (tcbs s)(t \<mapsto> d), task_table := (task_table s)(unat (task_count s) := t), task_count := task_count s + 1\<rparr>"
  have sb: "?sb = ?sa\<lparr>tcbs := (tcbs ?sa)(t \<mapsto> d)\<rparr>" by (cases s) simp
  have nw: "nowhere A t" using no_tcb_nowhere [OF r t(1)] .
  have ra: "rep ?sa A V" using r by simp
  have rb: "rep ?sb A (V(t \<mapsto> d))" unfolding sb using rep_upd_nowhere [OF ra nw, of d] by (simp only: erase_new_tcb d)
  have e: "priority d = prio" "tcb_state d = OS_TASK_READY" "d\<lparr>tcb_state := OS_TASK_READY\<rparr> = d" by (simp_all add: d new_tcb_def)
  obtain s' where s': "os_task_add_to_ready t ?sb = Some s'" "frame ?sb s'"
    "rep s' (A(Ready (unat prio) := A (Ready (unat prio)) @ [t])) (V(t \<mapsto> d))"
    using add_to_ready_rep [OF rb nw t(2), of d] e p by auto
  have "states_ok (A(Ready (unat prio) := A (Ready (unat prio)) @ [t])) (V(t \<mapsto> d))"
    by (rule states_ok_enter [OF ok nw]) (simp_all add: e p)
  moreover have "finish_create f nm pa prio st sz t s = Some (os_trace_record OS_TRACE_TASK_CREATE t prio s')"
    using s'(1) by (simp add: finish_create_def ini Let_def d [symmetric])
  moreover have "created t d s A V (os_trace_record OS_TRACE_TASK_CREATE t prio s')" if "states_ok (A(Ready (unat prio) := A (Ready (unat prio)) @ [t])) (V(t \<mapsto> d))"
    using that s'(3) t frame_os [OF s'(2)] e(1) ini by (simp add: created_def crit_same_def crit_simps) (simp add: d new_tcb_def)
  moreover have "frame (s\<lparr>mem32 := mem32 s', task_table := task_table s', task_count := task_count s', trace := x\<rparr>) (s'\<lparr>trace := x\<rparr>)" for x
    using s'(2) frame_os(3,5,6) [OF s'(2)] unfolding frame_def strip_lists_def by (cases s; cases s') simp
  ultimately show ?thesis using frame_os(1) [OF s'(2)] by (simp add: trace_record_nf)
qed

lemma task_create_rep:
  assumes r: "rep s A V" and ok: "states_ok A V" and h: "heap_tasks start (heap s) L V"
    and a: "func \<noteq> NULL" "prio < 8" "task_count s < 16" "128 \<le> sz" "unat sz + 8 \<le> 2 ^ 32"
  shows "(\<exists>s'. os_task_create e func nm param prio buf sz wants s = Some (OS_ERR_NOMEM, NULL, s') \<and> rep s' A V
        \<and> crit_same s s' \<and> task_count s' = task_count s \<and> heap_rep start (heap s') L)
    \<or> (\<exists>t stack sp L' s' d. os_task_create e func nm param prio buf sz wants s = Some (OS_OK, if wants then t else NULL, s')
        \<and> (buf \<noteq> NULL \<longrightarrow> stack = buf) \<and> sp = fst (os_port_stack_init func param stack sz (mem32 s))
        \<and> d = new_tcb func nm param prio stack sz sp \<and> created t d s A V s' \<and> L \<subseteq> L' \<and> heap_tasks start (heap s') L' (V(t \<mapsto> d)))"
    (is "?fail \<or> ?done")
proof -
  have tz: "sizeof_tcb \<noteq> 0" "unat sizeof_tcb + 8 \<le> 2 ^ 32" by (simp_all add: sizeof_tcb_def)
  have g: "sz \<noteq> 0" "\<not> sz < 128" "\<not> 8 \<le> prio" "\<not> 16 \<le> task_count s" using a by (auto simp: not_le not_less)
  have step: "?fail \<or> ?done"
    if st: "(if buf = NULL then prv_allocate_stack e sz s else Some (buf, s)) = Some (stack, s\<lparr>heap := h1\<rparr>)" "stack \<noteq> NULL"
      and h1: "heap_tasks start h1 L1 V" "L \<subseteq> L1"
      and fr: "buf = NULL \<longrightarrow> (\<exists>p k. stack = adr p \<and> (p, k) \<in> L1 \<and> L1 - {(p, k)} = L)" "buf \<noteq> NULL \<longrightarrow> L1 = L \<and> stack = buf" for stack h1 L1
  proof -
    let ?sa = "s\<lparr>heap := h1\<rparr>"
    have ha: "heap_tasks start (heap ?sa) L1 V" using h1(1) by simp
    from kmalloc_rep [OF ha tz, of e] show ?thesis
    proof (elim disjE exE conjE)
      assume n: "kmalloc e sizeof_tcb ?sa = Some (NULL, ?sa)"
      show ?thesis
      proof (cases "buf = NULL")
        case True
        then obtain p k where p: "stack = adr p" "(p, k) \<in> L1" "L1 - {(p, k)} = L" using fr(1) by blast
        obtain h2 where h2: "os_heap_free (adr p) h1 = Some h2" "heap_rep start h2 L"
          using heap_rep_free [of start h1 L1 p k] h1(1) p(2,3) by (auto simp: heap_tasks_def)
        then have "os_task_create e func nm param prio buf sz wants s = Some (OS_ERR_NOMEM, NULL, s\<lparr>heap := h2\<rparr>)"
          using a(1) g st n True p(1) by (simp add: os_task_create_def kfree_def)
        then show ?thesis using r h2(2) by (intro disjI1 exI [of _ "s\<lparr>heap := h2\<rparr>"]) (simp add: crit_same_def)
      next
        case False
        then have "os_task_create e func nm param prio buf sz wants s = Some (OS_ERR_NOMEM, NULL, ?sa)"
          using a(1) g st n by (simp add: os_task_create_def)
        then show ?thesis using r h1(1) fr(2) False by (intro disjI1 exI [of _ ?sa]) (simp add: crit_same_def heap_tasks_def)
      qed
    next
      fix p k h2 assume n: "kmalloc e sizeof_tcb ?sa = Some (adr p, ?sa\<lparr>heap := h2\<rparr>)" "adr p \<noteq> NULL" "V (adr p) = None"
        "heap_tasks start h2 (insert (p, k) L1) V"
      let ?sb = "?sa\<lparr>heap := h2\<rparr>" let ?sp = "fst (os_port_stack_init func param stack sz (mem32 s))"
      let ?d = "new_tcb func nm param prio stack sz ?sp"
      have rb: "rep ?sb A V" using r by simp
      obtain s' where s': "finish_create func nm param prio stack sz (adr p) ?sb = Some s'" "created (adr p) ?d ?sb A V s'" "heap s' = heap ?sb"
        using finish_create_rep [OF rb ok n(3,2) a(2) refl, of func nm param stack sz "mem32 s"] by blast
      have "os_task_create e func nm param prio buf sz wants s = Some (OS_OK, if wants then adr p else NULL, s')"
        using a(1) g st n(1,2) s'(1) by (simp add: os_task_create_def)
      moreover have "created (adr p) ?d s A V s'" using s'(2) by (simp add: created_def crit_same_def)
      moreover have "heap_tasks start (heap s') (insert (p, k) L1) (V(adr p \<mapsto> ?d))" using n(4) s'(3) by (auto simp: heap_tasks_def)
      moreover have "buf \<noteq> NULL \<longrightarrow> stack = buf" using fr(2) by blast
      moreover have "L \<subseteq> insert (p, k) L1" using h1(2) by blast
      ultimately show ?thesis by blast
    qed
  qed
  show ?thesis
  proof (cases "buf = NULL")
    case False
    then show ?thesis using step [of buf "heap s" L] h by simp
  next
    case True
    from kmalloc_rep [OF h g(1) a(5), of e] show ?thesis
    proof (elim disjE exE conjE)
      assume n: "kmalloc e sz s = Some (NULL, s)"
      then have "os_task_create e func nm param prio buf sz wants s = Some (OS_ERR_NOMEM, NULL, s)"
        using a(1) g True by (simp add: os_task_create_def prv_allocate_stack_def)
      then show ?thesis using r h by (intro disjI1 exI [of _ s]) (simp add: crit_same_def heap_tasks_def)
    next
      fix p k h1 assume n: "kmalloc e sz s = Some (adr p, s\<lparr>heap := h1\<rparr>)" "adr p \<noteq> NULL" "\<forall>m. (p, m) \<notin> L"
        "heap_tasks start h1 (insert (p, k) L) V"
      have "insert (p, k) L - {(p, k)} = L" using n(3) by auto
      then have "\<exists>q j. adr p = adr q \<and> (q, j) \<in> insert (p, k) L \<and> insert (p, k) L - {(q, j)} = L" by blast
      then show ?thesis using step [OF _ n(2,4)] True n(1) by (simp add: prv_allocate_stack_def subset_insertI)
    qed
  qed
qed

text \<open>The lists at boot: nothing waits anywhere in the zeroed objects.\<close>

definition no_waiters :: "os \<Rightarrow> bool" where
  "no_waiters s \<longleftrightarrow> (\<forall>x. send_wait_list (queues s x) = NULL \<and> recv_wait_list (queues s x) = NULL \<and> sem_wait_list (sems s x) = NULL
     \<and> mutex_wait_list (mutexes s x) = NULL \<and> eg_wait_list (eventgroups s x) = NULL)
     \<and> (\<forall>p \<ge> 8. ready_list s p = \<lparr>rl_head = NULL, rl_tail = NULL, rl_count = 0\<rparr>)"

lemma init_ready_list_rep:
  assumes "no_waiters s" "tcbs s = Map.empty"
  shows "rep (os_task_init_ready_list s) (\<lambda>_. []) Map.empty"
proof -
  let ?s = "os_task_init_ready_list s"
  have rl: "ready_list ?s p = \<lparr>rl_head = NULL, rl_tail = NULL, rl_count = 0\<rparr>" for p
    using assms(1) by (cases "p < 8") (simp_all add: os_task_init_ready_list_def no_waiters_def)
  have "list_head ?s l = NULL" for l
    using assms(1) by (cases l) (simp_all add: rl, simp_all add: os_task_init_ready_list_def no_waiters_def)
  then have "list_ok (\<lambda>_. []) ?s" by (simp add: list_ok_def seg_def)
  moreover have "ready_ok (\<lambda>_. []) ?s" by (simp add: ready_ok_def rl) (simp add: os_task_init_ready_list_def)
  moreover have "view (tcbs ?s) = Map.empty" using assms(2) by (simp add: os_task_init_ready_list_def view_def)
  ultimately show "rep ?s (\<lambda>_. []) Map.empty" by (simp add: rep_def links_ok_def)
qed

lemma states_ok_empty: "states_ok (\<lambda>_. []) Map.empty"
  by (simp add: states_ok_def prio_sorted_def)

lemma heap_tasks_boot: "heap_tasks 0x20000000 boot_heap {} Map.empty"
proof -
  have "malloc_failed_hook boot_heap = NULL" by (simp add: boot_heap_def os_heap_init_def zero_heap_def upd_hdr_def Let_def)
  moreover have "set (live 0x20000000 [(10228, False)]) = {}" by simp
  ultimately show ?thesis using boot_heap_ok unfolding heap_tasks_def heap_rep_def by (intro conjI exI) auto
qed

definition blank :: os where
  "blank = os_task_init_ready_list (demo\<lparr>heap := boot_heap, tcbs := Map.empty,
     sems := (\<lambda>_. \<lparr>sem_count = 0, max_count = 0, sem_wait_list = 0\<rparr>), kernel_initialized := False\<rparr>)"

lemma blank_rep: "rep blank (\<lambda>_. []) Map.empty"
  unfolding blank_def by (rule init_ready_list_rep) (simp_all add: no_waiters_def demo_def)

lemma blank_sel: "heap blank = boot_heap" "task_count blank = 0"
  by (simp_all add: blank_def os_task_init_ready_list_def)

text \<open>
  The high-water mark is always the whole stack: the canary that \<open>prv_fill_stack\<close> leaves in the
  lowest word, and that \<open>os_task_tick\<close> insists on, stops the scan for the fill pattern at its first
  word, so a fresh stack and a full one are reported alike.
\<close>

theorem high_water_is_stack_size:
  assumes "m base = OS_STACK_CANARY_VALUE"
  shows "prv_calc_high_water base sz m = sz"
proof -
  have "takeWhile (\<lambda>i. m (word_at base i) = STACK_FILL) [0..<unat (sz div 4)] = []"
    using assms by (cases "unat (sz div 4)") (simp_all add: word_at_def upt_rec takeWhile_eq_Nil_iff)
  then show ?thesis by (simp add: prv_calc_high_water_def Let_def)
qed

theorem high_water_is_stack_size_witness:
  "prv_calc_high_water 0x20001000 512 (prv_fill_stack 0x20001000 512 (\<lambda>_. 0)) = 512"
  by (rule high_water_is_stack_size) (simp add: prv_fill_stack_def Let_def)

text \<open>
  A new priority for any task but the running one: a ready task moves to the tail of its new level, any other only changes its field. The states stay
  consistent unless the task waits in the list of an object, which is kept in the order of priorities.
\<close>

definition reprio :: "ptr \<Rightarrow> os_tcb \<Rightarrow> u32 \<Rightarrow> tlists \<Rightarrow> tlists" where
  "reprio t d q A =
     (if tcb_state d = OS_TASK_READY
      then let A1 = A(Ready (unat (priority d)) := remove1 t (A (Ready (unat (priority d)))))
           in A1(Ready (unat q) := A1 (Ready (unat q)) @ [t])
      else A)"

lemma reprio_other: "(\<And>p. l \<noteq> Ready p) \<Longrightarrow> reprio t d q A l = A l"
  by (auto simp: reprio_def Let_def)

lemma upd_priority_rep:
  assumes r: "rep s A V" and t: "t \<noteq> NULL" "V t = Some d" "\<And>p. t \<notin> set (A (Ready p))"
  shows "\<exists>s'. upd_tcb t (\<lambda>c. c\<lparr>priority := q\<rparr>) s = Some s' \<and> rep s' A (V(t \<mapsto> d\<lparr>priority := q\<rparr>)) \<and> frame s s'"
proof -
  obtain c where c: "tcbs s t = Some c" "erase c = d" using rep_Some [OF r t(2)] by blast
  let ?c = "c\<lparr>priority := q\<rparr>" let ?s = "s\<lparr>tcbs := (tcbs s)(t \<mapsto> ?c)\<rparr>" let ?d = "d\<lparr>priority := q\<rparr>"
  have e: "erase ?c = ?d" using c(2) by (auto simp: erase_def)
  have v: "view (tcbs ?s) = V(t \<mapsto> ?d)" using rep_view [OF r] e by simp
  have "list_ok A ?s"
    using rep_list_ok [OF r] dseg_upd_same [of "tcbs s" t c ?c] sseg_upd_same [of "tcbs s" t c ?c] c(1)
    by (simp add: list_ok_def seg_def del: fun_upd_apply)
  moreover have "ready_ok A ?s"
  proof -
    have "\<exists>d'. (V(t \<mapsto> ?d)) x = Some d' \<and> unat (priority d') = p" if "x \<in> set (A (Ready p))" for x p
      using rep_ready_prio [OF r that] t(3) [of p] that by auto
    then show ?thesis using rep_ready_ok [OF r] v by (simp add: ready_ok_view del: fun_upd_apply)
  qed
  ultimately have "rep ?s A (V(t \<mapsto> ?d))" using v by (simp add: rep_def links_ok_def)
  moreover have "frame s ?s" by (simp add: frame_def strip_lists_def)
  ultimately show ?thesis using c t(1) by (auto simp: upd_tcb_def get_tcb_def)
qed

lemma not_ready_lists:
  assumes "rep s A V" "states_ok A V" "V t = Some d" "\<not> runnable d" shows "t \<notin> set (A (Ready p))"
proof
  assume t: "t \<in> set (A (Ready p))"
  then obtain d' where "V t = Some d'" "unat (priority d') = p" using rep_ready_prio [OF assms(1)] by blast
  then show False using t states_okD(2) [OF assms(2,3)] assms(3,4) by auto
qed

lemma set_priority_rep:
  assumes r: "rep s A V" and ok: "states_ok A V" and t: "t \<noteq> NULL" "V t = Some d" "tcb_state d \<noteq> OS_TASK_RUNNING" and q: "q < 8" and c: "crit_ok s"
  shows "\<exists>s1. os_task_set_priority t q s = Some (OS_OK, s1) \<and> crit_same s s1
    \<and> frame (os_sched_exit_critical (os_sched_enter_critical s)) s1 \<and> rep s1 (reprio t d q A) (V(t \<mapsto> d\<lparr>priority := q\<rparr>))"
proof (cases "tcb_state d = OS_TASK_READY")
  case True
  then have "t \<in> set (A (Ready (unat (priority d))))" using states_okD(2) [OF ok t(2)] by (simp add: runnable_def)
  from set_priority_ready_rep [OF r this t(2) True q c] True show ?thesis by (simp add: reprio_def)
next
  case False
  let ?s = "os_sched_enter_critical s"
  have r0: "rep ?s A V" using r by simp
  have nr: "t \<notin> set (A (Ready p))" for p by (rule not_ready_lists [OF r ok t(2)]) (use False t(3) in \<open>simp add: runnable_def\<close>)
  obtain s1 where s1: "upd_tcb t (\<lambda>c. c\<lparr>priority := q\<rparr>) ?s = Some s1" "rep s1 A (V(t \<mapsto> d\<lparr>priority := q\<rparr>))" "frame ?s s1"
    using upd_priority_rep [OF r0 t(1,2) nr] by blast
  obtain c0 where c0: "get_tcb t ?s = Some c0" "erase c0 = d" using rep_Some [OF r0 t(2)] t(1) by (auto simp: get_tcb_def)
  have st: "tcb_state c0 \<noteq> OS_TASK_READY" using False c0(2) by auto
  have "os_task_set_priority t q s = Some (OS_OK, os_sched_exit_critical s1)"
    using t(1) q c0(1) st s1(1) by (simp add: os_task_set_priority_def Let_def not_le del: get_tcb_Some)
  moreover have "crit_same s (os_sched_exit_critical s1)" by (rule section_crit_same [OF c s1(3)]) simp_all
  moreover have "frame (os_sched_exit_critical ?s) (os_sched_exit_critical s1)"
    using s1(3) frame_os [OF s1(3)] unfolding frame_def strip_lists_def crit_simps by (cases s; cases s1) simp
  ultimately show ?thesis using s1(2) False by (simp add: reprio_def)
qed

lemma states_ok_set_priority:
  assumes r: "rep s A V" and ok: "states_ok A V" and t: "V t = Some d" "tcb_state d \<noteq> OS_TASK_RUNNING" and q: "q < 8"
    and w: "\<And>l. wait_list l \<Longrightarrow> l \<noteq> Blocked \<Longrightarrow> t \<notin> set (A l)"
  shows "states_ok (reprio t d q A) (V(t \<mapsto> d\<lparr>priority := q\<rparr>))"
proof (cases "tcb_state d = OS_TASK_READY")
  case True
  let ?A1 = "A(Ready (unat (priority d)) := remove1 t (A (Ready (unat (priority d)))))"
  have m: "t \<in> set (A (Ready (unat (priority d))))" using True states_okD(2) [OF ok t(1)] by (simp add: runnable_def)
  have nw: "nowhere ?A1 t" using nowhere_remove1 [OF r m] by simp
  have "states_ok ?A1 (V(t \<mapsto> d\<lparr>tcb_state := OS_TASK_SUSPENDED\<rparr>))" by (rule states_ok_leave [OF ok t(1) r m]) simp_all
  from states_ok_enter [OF this nw, of "d\<lparr>priority := q\<rparr>"] q True show ?thesis by (simp add: reprio_def)
next
  case False
  let ?d = "d\<lparr>priority := q\<rparr>"
  have nr: "t \<notin> set (A (Ready p))" for p by (rule not_ready_lists [OF r ok t(1)]) (use False t(2) in \<open>simp add: runnable_def\<close>)
  have "states_ok A (V(t \<mapsto> ?d))"
  proof (rule states_ok_move [OF ok])
    show "runnable ?d \<longleftrightarrow> t \<in> set (A (Ready (unat (priority ?d))))" using False t(2) nr by (simp add: runnable_def)
    show "tcb_state ?d = OS_TASK_BLOCKED \<longleftrightarrow> (\<exists>l. wait_list l \<and> t \<in> set (A l))" using states_okD(3) [OF ok t(1)] by simp
    show "tcb_state ?d = OS_TASK_DELETED" if "t \<in> set (A Deferred)" using states_okD(4) [OF ok t(1) that] by simp
    fix l assume l: "wait_list l" "l \<noteq> Blocked"
    have "prio_of (V(t \<mapsto> ?d)) x = prio_of V x" if "x \<in> set (A l)" for x using w [OF l] that by (auto simp: prio_of_def)
    then show "prio_sorted (V(t \<mapsto> ?d)) (A l)"
      using states_ok_sorted [OF ok l] unfolding prio_sorted_def by (auto elim!: sorted_wrt_mono_rel [rotated])
  qed (use q in simp_all)
  then show ?thesis using False by (simp add: reprio_def)
qed

text \<open>
  A task that waits in the list of an object keeps its place there when its priority changes: the list is then out of
  order, and a later wake-up takes the wrong task.
\<close>

lemma set_priority_unsorts:
  assumes r: "rep s A V" and ok: "states_ok A V" and c: "crit_ok s" and l: "wait_list l" "l \<noteq> Blocked" "A l = t # u # ts"
    and d: "V t = Some d" and q: "q < 8" "prio_of V u < q"
  shows "\<exists>s1. os_task_set_priority t q s = Some (OS_OK, s1) \<and> rep s1 A (V(t \<mapsto> d\<lparr>priority := q\<rparr>))
     \<and> \<not> states_ok A (V(t \<mapsto> d\<lparr>priority := q\<rparr>))"
proof -
  have st: "tcb_state d = OS_TASK_BLOCKED" using states_okD(3) [OF ok d] l(1,3) by auto
  have tz: "t \<noteq> NULL" using rep_member(1) [OF r, of t l] l(3) by simp
  have ut: "u \<noteq> t" using rep_list(2) [OF r, of l] l(1,3) by (auto simp: wait_list_def)
  obtain s1 where s1: "os_task_set_priority t q s = Some (OS_OK, s1)" "rep s1 (reprio t d q A) (V(t \<mapsto> d\<lparr>priority := q\<rparr>))"
    using set_priority_rep [OF r ok tz d _ q(1) c] st by auto
  have "\<not> prio_sorted (V(t \<mapsto> d\<lparr>priority := q\<rparr>)) (A l)" using l(3) q(2) ut by (simp add: prio_sorted_def prio_of_def not_le)
  then have "\<not> states_ok A (V(t \<mapsto> d\<lparr>priority := q\<rparr>))" using states_ok_sorted [OF _ l(1,2)] by blast
  then show ?thesis using s1 st by (simp add: reprio_def)
qed

end
