(* ===== verification/Scheduler.thy ===== *)
theory Scheduler
  imports Task
begin

unbundle bit_operations_syntax

text \<open>
  \<open>os_sched_select_next\<close> of \<open>kernel/scheduler.c\<close>: the choice of the next task with
  round-robin among equals (\<open>OS_CONFIG_USE_TIME_SLICING\<close> is 1) and the run-time statistics. The
  rest of the file, the critical sections and the yield, is in \<open>Critical\<close>.
\<close>

definition account_run_time :: "ptr \<Rightarrow> os \<Rightarrow> os option" where
  "account_run_time current s =
     do {
       let now = os_kernel_get_tick s;
       s \<leftarrow> (if current \<noteq> NULL
             then do {
               c \<leftarrow> get_tcb current s;
               if tcb_state c = OS_TASK_RUNNING
               then upd_tcb current (\<lambda>c. c\<lparr>run_time_ticks := run_time_ticks c + (now - last_switch_tick s)\<rparr>) s
               else Some s
             }
             else Some s);
       Some (s\<lparr>last_switch_tick := now\<rparr>)
     }"

definition demote_current :: "ptr \<Rightarrow> os \<Rightarrow> os option" where
  "demote_current current s =
     (if current \<noteq> NULL
      then do {
        c \<leftarrow> get_tcb current s;
        if tcb_state c = OS_TASK_RUNNING then upd_tcb current (\<lambda>c. c\<lparr>tcb_state := OS_TASK_READY\<rparr>) s
        else Some s
      }
      else Some s)"

definition switch_to :: "ptr \<Rightarrow> ptr \<Rightarrow> os \<Rightarrow> os option" where
  "switch_to current next_task s =
     do {
       s \<leftarrow> account_run_time current s;
       s \<leftarrow> demote_current current s;
       s \<leftarrow> upd_tcb next_task (\<lambda>c. c\<lparr>tcb_state := OS_TASK_RUNNING\<rparr>) s;
       let s = os_trace_record OS_TRACE_TASK_SWITCH current next_task s;
       Some (os_task_set_current next_task s)
     }"

definition os_sched_select_next :: "os \<Rightarrow> os option" where
  "os_sched_select_next s =
     do {
       next_task \<leftarrow> os_task_find_highest_ready s;
       if next_task = NULL then Some s
       else do {
         let current = os_task_get_current s;
         if next_task = current
         then do {
           s \<leftarrow> os_task_remove_from_ready current s;
           s \<leftarrow> os_task_add_to_ready current s;
           next_task \<leftarrow> os_task_find_highest_ready s;
           if next_task = NULL then Some s else switch_to current next_task s
         }
         else switch_to current next_task s
       }
     }"

section \<open>The choice on the abstract state\<close>

text \<open>The data of the task that leaves the processor, and of all tasks after a switch.\<close>

definition outgoing :: "os \<Rightarrow> os_tcb \<Rightarrow> os_tcb" where
  "outgoing s d = (if tcb_state d = OS_TASK_RUNNING
     then d\<lparr>run_time_ticks := run_time_ticks d + (system_tick s - last_switch_tick s), tcb_state := OS_TASK_READY\<rparr>
     else d)"

definition leave_cpu :: "os \<Rightarrow> ptr \<Rightarrow> (ptr \<rightharpoonup> os_tcb) \<Rightarrow> ptr \<rightharpoonup> os_tcb" where
  "leave_cpu s cur V = (if cur = NULL then V else V(cur := map_option (outgoing s) (V cur)))"

definition enter_cpu :: "ptr \<Rightarrow> (ptr \<rightharpoonup> os_tcb) \<Rightarrow> ptr \<rightharpoonup> os_tcb" where
  "enter_cpu x V = V(x := map_option (\<lambda>d. d\<lparr>tcb_state := OS_TASK_RUNNING\<rparr>) (V x))"

text \<open>The current task exists, and no other task is marked as running.\<close>

definition current_ok :: "os \<Rightarrow> (ptr \<rightharpoonup> os_tcb) \<Rightarrow> bool" where
  "current_ok s V \<longleftrightarrow> (current_task_ptr s \<noteq> NULL \<longrightarrow> V (current_task_ptr s) \<noteq> None)
     \<and> (\<forall>t d. V t = Some d \<and> tcb_state d = OS_TASK_RUNNING \<longrightarrow> t = current_task_ptr s \<and> t \<noteq> NULL)"

text \<open>What a switch may change besides the lists and the task data.\<close>

definition switch_frame :: "os \<Rightarrow> os \<Rightarrow> bool" where
  "switch_frame s s' \<longleftrightarrow>
     frame (s\<lparr>last_switch_tick := last_switch_tick s', trace := trace s', current_task_ptr := current_task_ptr s'\<rparr>) s'"

lemma switch_frame_crit: "switch_frame s s' \<Longrightarrow> crit_same s s'"
  using frame_os [of "s\<lparr>last_switch_tick := last_switch_tick s', trace := trace s', current_task_ptr := current_task_ptr s'\<rparr>" s']
  by (simp add: switch_frame_def crit_same_def)

lemma switch_frame_objects:
  assumes "switch_frame s s'"
  shows "sem_count (sems s' x) = sem_count (sems s x)" "max_count (sems s' x) = max_count (sems s x)"
    "mem8 s' = mem8 s" "heap s' = heap s" "system_tick s' = system_tick s" "scheduler_running s' = scheduler_running s"
  using frame_objects [OF assms [unfolded switch_frame_def], of x] frame_os [OF assms [unfolded switch_frame_def]] by simp_all

lemma strip_switch:
  "strip_lists (s\<lparr>last_switch_tick := n\<rparr>) = (strip_lists s)\<lparr>last_switch_tick := n\<rparr>"
  "strip_lists (s\<lparr>trace := tr\<rparr>) = (strip_lists s)\<lparr>trace := tr\<rparr>"
  "strip_lists (s\<lparr>current_task_ptr := x\<rparr>) = (strip_lists s)\<lparr>current_task_ptr := x\<rparr>"
  by (simp_all add: strip_lists_def)

lemma frame_last_switch: "frame s s' \<Longrightarrow> frame (s\<lparr>last_switch_tick := x\<rparr>) (s'\<lparr>last_switch_tick := x\<rparr>)"
  by (simp add: frame_def strip_switch)

lemma switch_frame_pre: "frame s s0 \<Longrightarrow> switch_frame s0 s' \<Longrightarrow> switch_frame s s'"
  by (simp add: switch_frame_def frame_def strip_switch)

lemma leave_cpu_rep:
  assumes r: "rep s A V" and c: "cur \<noteq> NULL \<longrightarrow> V cur \<noteq> None"
  shows "\<exists>s1 s2. account_run_time cur s = Some s1 \<and> demote_current cur s1 = Some s2
     \<and> rep s2 A (leave_cpu s cur V) \<and> frame (s\<lparr>last_switch_tick := system_tick s\<rparr>) s2"
proof (cases "cur = NULL")
  case True
  then show ?thesis using r by (simp add: account_run_time_def demote_current_def leave_cpu_def os_kernel_get_tick_def)
next
  case False
  then obtain d where d: "V cur = Some d" using c by blast
  obtain c0 where c0: "tcbs s cur = Some c0" "erase c0 = d" using rep_Some [OF r d] by blast
  have st: "tcb_state c0 = tcb_state d" using c0(2) by auto
  show ?thesis
  proof (cases "tcb_state d = OS_TASK_RUNNING")
    case True
    let ?f = "\<lambda>c. c\<lparr>run_time_ticks := run_time_ticks c + (system_tick s - last_switch_tick s)\<rparr>"
    let ?g = "\<lambda>c. c\<lparr>tcb_state := OS_TASK_READY\<rparr>"
    obtain s1 where s1: "upd_tcb cur ?f s = Some s1" "rep s1 A (V(cur \<mapsto> ?f d))" "frame s s1"
      using upd_tcb_rep [OF r False d, of ?f] by (auto simp: data_upd_def)
    let ?s1 = "s1\<lparr>last_switch_tick := system_tick s\<rparr>"
    have r1: "rep ?s1 A (V(cur \<mapsto> ?f d))" using s1(2) by simp
    have fr1: "frame (s\<lparr>last_switch_tick := system_tick s\<rparr>) ?s1" using frame_last_switch [OF s1(3)] .
    obtain c1 where c1: "tcbs ?s1 cur = Some c1" "erase c1 = ?f d" using rep_Some [OF r1, of cur "?f d"] by auto
    then have st1: "tcb_state c1 = OS_TASK_RUNNING" using True by (metis erase_sel(1) os_tcb.select_convs(5) os_tcb.surjective os_tcb.update_convs(22))
    obtain s2 where s2: "upd_tcb cur ?g ?s1 = Some s2" "rep s2 A (V(cur \<mapsto> ?g (?f d)))" "frame ?s1 s2"
      using upd_tcb_rep [OF r1 False, of "?f d" ?g] by (auto simp: data_upd_def)
    have "account_run_time cur s = Some ?s1"
      using False c0(1) st True s1(1) by (simp add: account_run_time_def os_kernel_get_tick_def get_tcb_def)
    moreover have "demote_current cur ?s1 = Some s2"
      using False c1(1) st1 s2(1) by (simp add: demote_current_def get_tcb_def)
    moreover have "leave_cpu s cur V = V(cur \<mapsto> ?g (?f d))" using False d True by (simp add: leave_cpu_def outgoing_def)
    ultimately show ?thesis using s2(2) frame_trans [OF fr1 s2(3)] by auto
  next
    case nr: False
    let ?s1 = "s\<lparr>last_switch_tick := system_tick s\<rparr>"
    have "account_run_time cur s = Some ?s1" "demote_current cur ?s1 = Some ?s1"
      using False c0(1) st nr by (simp_all add: account_run_time_def demote_current_def os_kernel_get_tick_def get_tcb_def)
    moreover have "leave_cpu s cur V = V" using False d nr by (auto simp: leave_cpu_def outgoing_def)
    ultimately show ?thesis using r by (intro exI [of _ ?s1]) simp
  qed
qed

lemma switch_to_rep:
  assumes r: "rep s A V" and c: "cur \<noteq> NULL \<longrightarrow> V cur \<noteq> None" and x: "x \<noteq> NULL" "V x \<noteq> None"
  shows "\<exists>s'. switch_to cur x s = Some s' \<and> rep s' A (enter_cpu x (leave_cpu s cur V)) \<and> current_task_ptr s' = x
     \<and> switch_frame s s' \<and> last_switch_tick s' = system_tick s"
proof -
  obtain s1 s2 where s2: "account_run_time cur s = Some s1" "demote_current cur s1 = Some s2"
    "rep s2 A (leave_cpu s cur V)" "frame (s\<lparr>last_switch_tick := system_tick s\<rparr>) s2"
    using leave_cpu_rep [OF r c] by blast
  have "leave_cpu s cur V x \<noteq> None" using x by (auto simp: leave_cpu_def)
  then obtain d where d: "leave_cpu s cur V x = Some d" by blast
  let ?f = "\<lambda>c. c\<lparr>tcb_state := OS_TASK_RUNNING\<rparr>"
  obtain s3 where s3: "upd_tcb x ?f s2 = Some s3" "rep s3 A ((leave_cpu s cur V)(x \<mapsto> ?f d))" "frame s2 s3"
    using upd_tcb_rep [OF s2(3) x(1) d, of ?f] by (auto simp: data_upd_def)
  note fr = frame_os [OF frame_trans [OF s2(4) s3(3)]]
  have "switch_to cur x s = Some (os_task_set_current x (os_trace_record OS_TRACE_TASK_SWITCH cur x s3))"
    using s2(1,2) s3(1) by (simp add: switch_to_def)
  moreover have "enter_cpu x (leave_cpu s cur V) = (leave_cpu s cur V)(x \<mapsto> ?f d)" using d by (simp add: enter_cpu_def)
  moreover have "switch_frame s (os_task_set_current x (os_trace_record OS_TRACE_TASK_SWITCH cur x s3))"
    using frame_trans [OF s2(4) s3(3)] fr(18)
    by (simp add: switch_frame_def os_task_set_current_def crit_simps frame_def strip_switch)
  ultimately show ?thesis
    using s3(2) fr by (simp add: os_task_set_current_def crit_simps)
qed

lemma switched_states_ok:
  assumes ok: "states_ok A V" and x: "V x = Some d" "runnable d"
  shows "states_ok A (enter_cpu x (leave_cpu s cur V))"
proof -
  have 1: "states_ok A (leave_cpu s cur V)"
  proof (cases "cur = NULL \<or> V cur = None")
    case True
    then show ?thesis using ok by (auto simp: leave_cpu_def fun_upd_idem)
  next
    case False
    then obtain e where "V cur = Some e" by blast
    then show ?thesis using states_ok_data [OF ok, of cur e "outgoing s e"] False
      by (auto simp: leave_cpu_def outgoing_def runnable_def fun_upd_idem)
  qed
  have "runnable (outgoing s d)" using x(2) by (auto simp: outgoing_def runnable_def)
  moreover have "leave_cpu s cur V x = Some (if cur \<noteq> NULL \<and> cur = x then outgoing s d else d)"
    using x(1) by (auto simp: leave_cpu_def)
  ultimately obtain e where "leave_cpu s cur V x = Some e" "runnable e"
    using x(2) by (cases "cur \<noteq> NULL \<and> cur = x") auto
  then show ?thesis using states_ok_data [OF 1, of x e "e\<lparr>tcb_state := OS_TASK_RUNNING\<rparr>"]
    by (auto simp: enter_cpu_def runnable_def)
qed

lemma switched_current_ok:
  assumes "current_ok s V" "current_task_ptr s' = x" "V x \<noteq> None" "x \<noteq> NULL"
  shows "current_ok s' (enter_cpu x (leave_cpu s0 (current_task_ptr s) V))"
  using assms by (auto simp: current_ok_def enter_cpu_def leave_cpu_def outgoing_def split: if_splits)

lemma switched_stack_ptr: "map_option stack_ptr (enter_cpu x (leave_cpu s cur V) t) = map_option stack_ptr (V t)"
  by (cases "V t"; cases "t = x"; cases "t = cur"; cases "cur = NULL") (simp_all add: enter_cpu_def leave_cpu_def outgoing_def)

text \<open>A switch changes the state and the run time of a task and nothing else of its control block.\<close>

definition unscheduled :: "os_tcb \<Rightarrow> os_tcb" where
  "unscheduled d = d\<lparr>tcb_state := OS_TASK_READY, run_time_ticks := 0\<rparr>"

lemma unscheduled_sel [simp]:
  "blocked_on (unscheduled d) = blocked_on d" "blocked_reason (unscheduled d) = blocked_reason d" "stack_ptr (unscheduled d) = stack_ptr d"
  "unscheduled (d\<lparr>tcb_state := x\<rparr>) = unscheduled d"
  by (simp_all add: unscheduled_def)

lemma switched_unscheduled: "map_option unscheduled (enter_cpu x (leave_cpu s cur V) t) = map_option unscheduled (V t)"
  by (cases "V t"; cases "t = x"; cases "t = cur"; cases "cur = NULL") (simp_all add: enter_cpu_def leave_cpu_def outgoing_def unscheduled_def)

text \<open>What the choice does to the ready lists: the running task goes behind its equals.\<close>

definition rotated :: "nat \<Rightarrow> ptr \<Rightarrow> tlists \<Rightarrow> tlists" where
  "rotated p cur A = (if hd (A (Ready p)) = cur then A(Ready p := rotate1 (A (Ready p))) else A)"

definition top_level :: "nat \<Rightarrow> tlists \<Rightarrow> bool" where
  "top_level p A \<longleftrightarrow> A (Ready p) \<noteq> [] \<and> (\<forall>q < p. A (Ready q) = [])"

lemma find_highest_top:
  assumes r: "rep s A V" and p: "top_level p A"
  shows "os_task_find_highest_ready s = Some (hd (A (Ready p)))"
proof -
  have "p < 8" using rep_ready_ok [OF r] p by (auto simp: ready_ok_def top_level_def)
  then have "List.find (\<lambda>p. A (Ready p) \<noteq> []) [0..<8] = Some p"
    using p by (auto simp: find_Some_iff top_level_def intro!: exI [of _ p])
  then show ?thesis using find_highest_rep [OF r] by simp
qed

lemma states_ok_rotate:
  "states_ok A V \<Longrightarrow> states_ok (A(Ready p := rotate1 (A (Ready p)))) V"
proof -
  let ?A = "A(Ready p := rotate1 (A (Ready p)))"
  have "set (?A l) = set (A l)" for l by simp
  moreover have "?A l = A l" if "wait_list l" for l using that by (auto simp: wait_list_def)
  ultimately show "states_ok A V \<Longrightarrow> states_ok ?A V" unfolding states_ok_def by presburger
qed

lemma rotate_rep:
  assumes r: "rep s A V" and ok: "states_ok A V" and A: "A (Ready p) = t # ts" and d: "V t = Some d"
  shows "\<exists>s1 s2. os_task_remove_from_ready t s = Some s1 \<and> os_task_add_to_ready t s1 = Some s2
     \<and> rep s2 (A(Ready p := ts @ [t])) (V(t \<mapsto> d\<lparr>tcb_state := OS_TASK_READY\<rparr>)) \<and> frame s s2"
proof -
  have t: "t \<in> set (A (Ready p))" using A by simp
  have p: "unat (priority d) = p" "priority d < 8" using rep_ready_prio [OF r t] d by auto
  obtain s1 where s1: "os_task_remove_from_ready t s = Some s1" "rep s1 (A(Ready p := remove1 t (A (Ready p)))) V" "frame s s1"
    using remove_from_ready_rep [OF r t] by blast
  have nw: "nowhere (A(Ready p := remove1 t (A (Ready p)))) t" using nowhere_remove1 [OF r t] by simp
  obtain s2 where "os_task_add_to_ready t s1 = Some s2" "frame s1 s2"
    "rep s2 (A(Ready p := ts @ [t])) (V(t \<mapsto> d\<lparr>tcb_state := OS_TASK_READY\<rparr>))"
    using add_to_ready_rep [OF s1(2) nw rep_member(1) [OF r t] d p(2)] p(1) A by auto
  then show ?thesis using s1(1) frame_trans [OF s1(3)] by blast
qed

lemma select_next_rep:
  assumes r: "rep s A V" and ok: "states_ok A V" and cur: "current_ok s V" and p: "top_level p A"
  shows "\<exists>s' V'. os_sched_select_next s = Some s' \<and> rep s' (rotated p (current_task_ptr s) A) V'
     \<and> states_ok (rotated p (current_task_ptr s) A) V' \<and> current_ok s' V' \<and> switch_frame s s'
     \<and> current_task_ptr s' = hd (rotated p (current_task_ptr s) A (Ready p))
     \<and> map_option tcb_state (V' (current_task_ptr s')) = Some OS_TASK_RUNNING
     \<and> (\<forall>t. t \<noteq> current_task_ptr s \<and> t \<noteq> current_task_ptr s' \<longrightarrow> V' t = V t)
     \<and> last_switch_tick s' = system_tick s
     \<and> (hd (A (Ready p)) = current_task_ptr s \<longrightarrow> (\<forall>t. map_option run_time_ticks (V' t) = map_option run_time_ticks (V t)))
     \<and> (hd (A (Ready p)) \<noteq> current_task_ptr s \<and> current_task_ptr s \<noteq> NULL
          \<longrightarrow> V' (current_task_ptr s) = map_option (outgoing s) (V (current_task_ptr s)))
     \<and> (\<forall>t. map_option stack_ptr (V' t) = map_option stack_ptr (V t))
     \<and> (\<forall>t. map_option unscheduled (V' t) = map_option unscheduled (V t))"
proof -
  let ?cur = "current_task_ptr s" let ?A = "rotated p ?cur A" let ?x = "hd (?A (Ready p))"
  obtain y ys where A: "A (Ready p) = y # ys" using p by (cases "A (Ready p)") (auto simp: top_level_def)
  have y: "y \<in> set (A (Ready p))" using A by simp
  note hi = find_highest_top [OF r p]
  have xA: "?x \<in> set (A (Ready p))" using A by (cases ys) (auto simp: rotated_def)
  obtain d where d: "V ?x = Some d" "priority d < 8" "unat (priority d) = p" using rep_ready_prio [OF r xA] by blast
  have run: "runnable d" using states_okD(2) [OF ok d(1)] xA d(3) by simp
  have xz: "?x \<noteq> NULL" using rep_member(1) [OF r xA] .
  obtain s0 V0 where s0: "os_sched_select_next s = switch_to ?cur ?x s0" "rep s0 ?A V0" "states_ok ?A V0" "frame s s0"
    "current_ok s0 V0" "\<exists>d0. V0 ?x = Some d0 \<and> runnable d0" "\<forall>t. t \<noteq> ?cur \<longrightarrow> V0 t = V t"
    "y \<noteq> ?cur \<longrightarrow> V0 = V \<and> s0 = s \<and> ?x = y"
    "y = ?cur \<longrightarrow> (\<exists>e. V y = Some e \<and> V0 = V(y \<mapsto> e\<lparr>tcb_state := OS_TASK_READY\<rparr>))"
  proof (cases "y = ?cur")
    case False
    then have "os_sched_select_next s = switch_to ?cur ?x s" "?A = A"
      using hi rep_member(1) [OF r y] A by (simp_all add: os_sched_select_next_def os_task_get_current_def rotated_def)
    then show ?thesis using that [of s V] r ok cur d run A False by simp
  next
    case True
    have eA: "?A = A(Ready p := ys @ [y])" using A True by (simp add: rotated_def)
    obtain e where e: "V y = Some e" using rep_member(2) [OF r y] by blast
    let ?V = "V(y \<mapsto> e\<lparr>tcb_state := OS_TASK_READY\<rparr>)"
    obtain s1 s2 where s2: "os_task_remove_from_ready y s = Some s1" "os_task_add_to_ready y s1 = Some s2"
      "rep s2 ?A ?V" "frame s s2" using rotate_rep [OF r ok A e] eA by auto
    have tl: "top_level p ?A" using p eA by (simp add: top_level_def)
    have re: "runnable e" using states_okD(2) [OF ok e] rep_ready_prio [OF r y] e y by auto
    have "os_sched_select_next s = switch_to ?cur ?x s2"
      using hi find_highest_top [OF s2(3) tl] s2(1,2) True A xz rep_member(1) [OF r y]
      by (simp add: os_sched_select_next_def os_task_get_current_def Let_def)
    moreover have "states_ok ?A ?V"
      using states_ok_rotate [OF states_ok_data [OF ok e, of "e\<lparr>tcb_state := OS_TASK_READY\<rparr>"], of p] re A eA
      by (auto simp: runnable_def)
    moreover have "current_ok s2 ?V" using cur frame_os(10) [OF s2(4)] True rep_member(1) [OF r y] by (auto simp: current_ok_def)
    moreover have "\<exists>d0. ?V ?x = Some d0 \<and> runnable d0" using d run by (auto simp: runnable_def)
    ultimately show ?thesis using that [of s2 ?V] s2(3,4) True e by simp
  qed
  have cs: "current_task_ptr s0 = ?cur" using frame_os(10) [OF s0(4)] .
  have c0: "?cur \<noteq> NULL \<longrightarrow> V0 ?cur \<noteq> None" using s0(5) cs by (simp add: current_ok_def)
  obtain d0 where d0: "V0 ?x = Some d0" "runnable d0" using s0(6) by blast
  obtain s' where s': "switch_to ?cur ?x s0 = Some s'" "rep s' ?A (enter_cpu ?x (leave_cpu s0 ?cur V0))"
    "current_task_ptr s' = ?x" "switch_frame s0 s'" "last_switch_tick s' = system_tick s0"
    using switch_to_rep [OF s0(2) c0 xz] d0(1) by auto
  let ?V = "enter_cpu ?x (leave_cpu s0 ?cur V0)"
  have "states_ok ?A ?V" using switched_states_ok [OF s0(3) d0] .
  moreover have "current_ok s' ?V" using switched_current_ok [OF s0(5) s'(3) _ xz, of s0] d0(1) cs by simp
  moreover have "map_option tcb_state (?V ?x) = Some OS_TASK_RUNNING"
    using d0(1) by (auto simp: enter_cpu_def leave_cpu_def)
  moreover have "\<forall>t. t \<noteq> ?cur \<and> t \<noteq> ?x \<longrightarrow> ?V t = V t" using s0(7) by (simp add: enter_cpu_def leave_cpu_def)
  moreover have "switch_frame s s'" using switch_frame_pre [OF s0(4) s'(4)] .
  moreover have "hd (A (Ready p)) = ?cur \<longrightarrow> (\<forall>t. map_option run_time_ticks (?V t) = map_option run_time_ticks (V t))"
    using s0(9) A by (auto simp: enter_cpu_def leave_cpu_def outgoing_def option.map_comp comp_def)
  moreover have "hd (A (Ready p)) \<noteq> ?cur \<and> ?cur \<noteq> NULL \<longrightarrow> ?V ?cur = map_option (outgoing s) (V ?cur)"
    using s0(8) A by (simp add: enter_cpu_def leave_cpu_def)
  moreover have "\<forall>t. map_option stack_ptr (?V t) = map_option stack_ptr (V t)"
  proof
    fix t
    have "map_option stack_ptr (V0 t) = map_option stack_ptr (V t)" using s0(8,9) by (cases "y = ?cur") auto
    then show "map_option stack_ptr (?V t) = map_option stack_ptr (V t)" by (simp only: switched_stack_ptr)
  qed
  moreover have "\<forall>t. map_option unscheduled (?V t) = map_option unscheduled (V t)"
  proof
    fix t
    have "map_option unscheduled (V0 t) = map_option unscheduled (V t)" using s0(8,9) by (cases "y = ?cur") auto
    then show "map_option unscheduled (?V t) = map_option unscheduled (V t)" by (simp only: switched_unscheduled)
  qed
  ultimately show ?thesis using s0(1) s'(1,2,3,5) frame_os(23) [OF s0(4)] by (intro exI [of _ s'] exI [of _ ?V]) simp
qed

text \<open>Repeated choices, with no other event in between.\<close>

primrec select_n :: "nat \<Rightarrow> os \<Rightarrow> os option" where
  "select_n 0 s = Some s"
| "select_n (Suc k) s = do { s \<leftarrow> os_sched_select_next s; select_n k s }"

lemma hd_rotate: "xs \<noteq> [] \<Longrightarrow> hd (rotate k xs) = xs ! (k mod length xs)"
  by (simp add: hd_conv_nth nth_rotate)

lemma select_n_rep:
  assumes "rep s A V" "states_ok A V" "current_ok s V" "top_level p A" "current_task_ptr s = hd (A (Ready p))"
  shows "\<exists>s' V'. select_n k s = Some s' \<and> rep s' (A(Ready p := rotate k (A (Ready p)))) V'
     \<and> states_ok (A(Ready p := rotate k (A (Ready p)))) V' \<and> current_ok s' V'
     \<and> current_task_ptr s' = hd (rotate k (A (Ready p)))
     \<and> (\<forall>t. map_option run_time_ticks (V' t) = map_option run_time_ticks (V t))"
  using assms
proof (induction k arbitrary: s A V)
  case 0
  then show ?case by auto
next
  case (Suc k)
  let ?A = "A(Ready p := rotate1 (A (Ready p)))"
  have rot: "rotated p (current_task_ptr s) A = ?A" using Suc.prems(5) by (simp add: rotated_def)
  obtain s1 V1 where s1: "os_sched_select_next s = Some s1" "rep s1 ?A V1" "states_ok ?A V1" "current_ok s1 V1"
    "current_task_ptr s1 = hd (?A (Ready p))" "\<forall>t. map_option run_time_ticks (V1 t) = map_option run_time_ticks (V t)"
    using select_next_rep [OF Suc.prems(1-4)] Suc.prems(5) unfolding rot by (elim exE conjE) simp
  have "top_level p ?A" using Suc.prems(4) by (simp add: top_level_def)
  note ih = Suc.IH [OF s1(2-4) this s1(5)]
  have "?A(Ready p := rotate k (?A (Ready p))) = A(Ready p := rotate (Suc k) (A (Ready p)))"
    "rotate k (?A (Ready p)) = rotate (Suc k) (A (Ready p))"
    by (simp_all add: rotate1_rotate_swap fun_eq_iff)
  with ih show ?case using s1(1,6) by (simp del: fun_upd_apply)
qed

text \<open>
  C5. \<open>os_sched_select_next\<close> gives the processor to the head of the highest non-empty ready level,
  after moving the current task behind its equals when it is that head. The chosen task is the only
  one marked as running, no task but it and the outgoing one changes, and the lists and states stay
  consistent.
\<close>

theorem os_sched_select_next_correct:
  assumes "rep s A V" "states_ok A V" "current_ok s V" "top_level p A"
  shows "\<exists>s' V'. os_sched_select_next s = Some s' \<and> rep s' (rotated p (current_task_ptr s) A) V'
     \<and> states_ok (rotated p (current_task_ptr s) A) V' \<and> current_ok s' V' \<and> switch_frame s s'
     \<and> current_task_ptr s' = hd (rotated p (current_task_ptr s) A (Ready p))
     \<and> map_option tcb_state (V' (current_task_ptr s')) = Some OS_TASK_RUNNING
     \<and> (\<forall>t. t \<noteq> current_task_ptr s \<and> t \<noteq> current_task_ptr s' \<longrightarrow> V' t = V t)"
  using select_next_rep [OF assms] by blast

lemma demo_current_ok: "current_ok demo demo_tcbs"
  by (auto simp: current_ok_def demo_def demo_tcbs_def demo_tcb_def split: if_splits)

lemma demo_top_level: "top_level 2 demo_lists"
  by (auto simp: top_level_def demo_lists_def)

lemma demo_head: "hd (demo_lists (Ready 2)) = tRun" "demo_lists (Ready 2) = [tRun, tReady]"
  by (simp_all add: demo_lists_def)

theorem os_sched_select_next_correct_witness:
  "\<exists>s' V'. os_sched_select_next demo = Some s' \<and> rep s' (demo_lists(Ready 2 := [tReady, tRun])) V' \<and> current_task_ptr s' = tReady"
proof -
  have "rotated 2 (current_task_ptr demo) demo_lists = demo_lists(Ready 2 := [tReady, tRun])"
    by (simp add: rotated_def demo_run demo_head)
  then show ?thesis using os_sched_select_next_correct [OF demo_rep demo_states_ok demo_current_ok demo_top_level] by force
qed

text \<open>
  C27. Round robin: when the running task heads the highest non-empty ready level, \<open>k\<close> choices in a
  row bring up the tasks of that level in turn, each once in every round, whatever their number.
\<close>

theorem round_robin:
  assumes "rep s A V" "states_ok A V" "current_ok s V" "top_level p A" "current_task_ptr s = hd (A (Ready p))"
  shows "\<exists>s' V'. select_n k s = Some s' \<and> rep s' (A(Ready p := rotate k (A (Ready p)))) V'
     \<and> current_task_ptr s' = A (Ready p) ! (k mod length (A (Ready p)))"
  using select_n_rep [OF assms, of k] assms(4) hd_rotate [of "A (Ready p)" k] by (auto simp: top_level_def)

theorem round_robin_witness:
  "\<exists>s'. select_n 1 demo = Some s' \<and> current_task_ptr s' = tReady"
proof -
  have "demo_lists (Ready 2) ! (1 mod length (demo_lists (Ready 2))) = tReady" by (simp add: demo_head)
  then show ?thesis
    using round_robin [OF demo_rep demo_states_ok demo_current_ok demo_top_level, of 1] by (auto simp: demo_run demo_head)
qed

text \<open>
  The run time of the outgoing task is added up only when another task heads the highest level.
  When the running task heads it, the round-robin move has already marked it as ready: no task's
  run time changes however many choices are made, although the time of the last switch moves on,
  so the elapsed ticks are lost from the statistics.
\<close>

theorem run_time_lost_in_round_robin:
  assumes "rep s A V" "states_ok A V" "current_ok s V" "top_level p A" "current_task_ptr s = hd (A (Ready p))"
  shows "\<exists>s' V'. select_n k s = Some s' \<and> view (tcbs s') = V'
     \<and> (\<forall>t. map_option run_time_ticks (V' t) = map_option run_time_ticks (V t))"
  using select_n_rep [OF assms, of k] rep_view by blast

theorem run_time_lost_in_round_robin_witness:
  "\<exists>s' V'. select_n 9 demo = Some s' \<and> view (tcbs s') = V' \<and> map_option run_time_ticks (V' tRun) = Some 0"
proof -
  have 1: "map_option run_time_ticks (demo_tcbs tRun) = Some 0" by (simp add: demo_run demo_tcb_def)
  have 2: "current_task_ptr demo = hd (demo_lists (Ready 2))" by (simp add: demo_run demo_head)
  from run_time_lost_in_round_robin [OF demo_rep demo_states_ok demo_current_ok demo_top_level 2, of 9]
  show ?thesis unfolding 1 [symmetric] by blast
qed

end
