(* ===== verification/Wait_Lists.thy ===== *)
theory Wait_Lists
  imports Scheduler
begin

text \<open>
  The blocking and waking code that \<open>queue.c\<close>, \<open>semaphore.c\<close>, \<open>mutex.c\<close> and
  \<open>eventgroup.c\<close> each carry a copy of: \<open>prv_block_task\<close>, \<open>prv_unblock_task\<close>,
  \<open>prv_wake_task\<close>. The copies differ in the list they work on and the fields they set in the
  task control block, which are parameters here; each component instantiates them.
\<close>

definition block_task :: "lid \<Rightarrow> (os_tcb \<Rightarrow> os_tcb) \<Rightarrow> ptr \<Rightarrow> os \<Rightarrow> os option" where
  "block_task l f t s =
     do {
       s \<leftarrow> upd_tcb t f s;
       s \<leftarrow> os_task_remove_from_ready t s;
       s \<leftarrow> upd_tcb t (\<lambda>c. c\<lparr>tcb_state := OS_TASK_BLOCKED\<rparr>) s;
       wait_insert l t s
     }"

definition unblock_task :: "lid \<Rightarrow> ptr \<Rightarrow> os \<Rightarrow> os option" where
  "unblock_task l t s =
     do {
       s \<leftarrow> unlink l t s;
       upd_tcb t (\<lambda>c. c\<lparr>blocked_on := NULL, blocked_reason := OS_BLOCKED_NONE\<rparr>) s
     }"

text \<open>Unblocking and making ready, with the fields \<open>f\<close> sets in between.\<close>

definition release_task :: "lid \<Rightarrow> (os_tcb \<Rightarrow> os_tcb) \<Rightarrow> ptr \<Rightarrow> os \<Rightarrow> os option" where
  "release_task l f t s =
     do {
       s \<leftarrow> unblock_task l t s;
       s \<leftarrow> upd_tcb t f s;
       os_task_add_to_ready t s
     }"

definition wake_task :: "lid \<Rightarrow> os \<Rightarrow> (ptr \<times> os) option" where
  "wake_task l s =
     (let t = list_head s l in
      if t = NULL then Some (NULL, s)
      else do {
        s \<leftarrow> release_task l (\<lambda>c. c\<lparr>delay_ticks := 0, timed_out := 0\<rparr>) t s;
        Some (t, s)
      })"

text \<open>The loops of the delete operations. \<open>queue.c\<close> and \<open>semaphore.c\<close> wake and then mark the task.\<close>

partial_function (option) wake_all :: "lid \<Rightarrow> os \<Rightarrow> os option" where
  "wake_all l s =
     (if list_head s l = NULL then Some s
      else do {
        (t, s) \<leftarrow> wake_task l s;
        s \<leftarrow> (if t \<noteq> NULL then upd_tcb t (\<lambda>c. c\<lparr>timed_out := 1\<rparr>) s else Some s);
        wake_all l s
      })"

text \<open>\<open>mutex.c\<close> and \<open>eventgroup.c\<close> set the fields before the task becomes ready.\<close>

partial_function (option) release_all :: "lid \<Rightarrow> (os_tcb \<Rightarrow> os_tcb) \<Rightarrow> os \<Rightarrow> os option" where
  "release_all l f s =
     (if list_head s l = NULL then Some s
      else do {
        s \<leftarrow> release_task l f (list_head s l) s;
        release_all l f s
      })"

text \<open>The caller's view of a woken task of higher priority.\<close>

definition preempt_running :: "env \<Rightarrow> ptr \<Rightarrow> os \<Rightarrow> os option" where
  "preempt_running e woken s =
     (if woken \<noteq> NULL
      then do {
        w \<leftarrow> get_tcb woken s;
        c \<leftarrow> get_tcb (os_task_get_current s) s;
        if priority w < priority c \<and> tcb_state c = OS_TASK_RUNNING then os_sched_yield e s else Some s
      }
      else Some s)"

definition yield_if_higher :: "env \<Rightarrow> ptr \<Rightarrow> ptr \<Rightarrow> os \<Rightarrow> os option" where
  "yield_if_higher e woken current s =
     (if woken \<noteq> NULL
      then do {
        w \<leftarrow> get_tcb woken s;
        c \<leftarrow> get_tcb current s;
        if priority w < priority c then os_sched_yield e s else Some s
      }
      else Some s)"

section \<open>Waiting and waking on the abstract state\<close>

lemma block_task_rep:
  assumes r: "rep s A V" and t: "t \<in> set (A (Ready p))" "V t = Some d" and f: "data_upd f" and l: "wait_list l"
  shows "\<exists>s'. block_task l f t s = Some s' \<and> frame s s'
     \<and> rep s' (A(Ready p := remove1 t (A (Ready p)), l := wait_ins V t (A l))) (V(t \<mapsto> (f d)\<lparr>tcb_state := OS_TASK_BLOCKED\<rparr>))"
proof -
  have tz: "t \<noteq> NULL" using rep_member(1) [OF r t(1)] .
  let ?A = "A(Ready p := remove1 t (A (Ready p)))" let ?d = "(f d)\<lparr>tcb_state := OS_TASK_BLOCKED\<rparr>"
  have pf: "priority (f d) = priority d" using f by (simp add: data_upd_def)
  obtain s1 where s1: "upd_tcb t f s = Some s1" "rep s1 A (V(t \<mapsto> f d))" "frame s s1"
    using upd_tcb_rep [OF r tz t(2) f] by blast
  obtain s2 where s2: "os_task_remove_from_ready t s1 = Some s2" "rep s2 ?A (V(t \<mapsto> f d))" "frame s1 s2"
    using remove_from_ready_rep [OF s1(2) t(1)] by blast
  obtain s3 where s3: "upd_tcb t (\<lambda>c. c\<lparr>tcb_state := OS_TASK_BLOCKED\<rparr>) s2 = Some s3" "rep s3 ?A (V(t \<mapsto> ?d))" "frame s2 s3"
    using upd_tcb_rep [OF s2(2) tz, of "f d" "\<lambda>c. c\<lparr>tcb_state := OS_TASK_BLOCKED\<rparr>"] by (auto simp: data_upd_def)
  have nw: "nowhere ?A t" using nowhere_remove1 [OF r t(1)] by simp
  have "?A l = A l" using l by (auto simp: wait_list_def)
  moreover have "wait_ins (V(t \<mapsto> ?d)) t (A l) = wait_ins V t (A l)"
    using prio_of_upd_same [of V t d ?d] t(2) pf by (simp add: wait_ins_def)
  ultimately obtain s4 where s4: "wait_insert l t s3 = Some s4" "rep s4 (?A(l := wait_ins V t (A l))) (V(t \<mapsto> ?d))" "frame s3 s4"
    using wait_insert_rep [OF s3(2) l nw tz, of ?d] by auto
  show ?thesis
    using s4 frame_trans [OF s1(3) frame_trans [OF s2(3) frame_trans [OF s3(3) s4(3)]]]
    by (simp add: block_task_def s1(1) s2(1) s3(1))
qed

lemma unblock_task_rep:
  assumes r: "rep s A V" and t: "t \<in> set (A l)" "V t = Some d" and l: "wait_list l"
  shows "\<exists>s'. unblock_task l t s = Some s' \<and> frame s s'
     \<and> rep s' (A(l := remove1 t (A l))) (V(t \<mapsto> d\<lparr>blocked_on := NULL, blocked_reason := OS_BLOCKED_NONE\<rparr>))"
proof -
  have tz: "t \<noteq> NULL" using rep_member(1) [OF r t(1)] .
  obtain s1 where s1: "unlink l t s = Some s1" "rep s1 (A(l := remove1 t (A l))) V" "frame s s1"
    using unlink_rep [OF r l t(1)] by blast
  from upd_tcb_rep [OF s1(2) tz t(2), of "\<lambda>c. c\<lparr>blocked_on := NULL, blocked_reason := OS_BLOCKED_NONE\<rparr>"]
  show ?thesis using frame_trans [OF s1(3)] by (auto simp: unblock_task_def s1(1) data_upd_def)
qed

text \<open>The data of a task that a release with the field updates \<open>f\<close> leaves behind.\<close>

definition released :: "(os_tcb \<Rightarrow> os_tcb) \<Rightarrow> os_tcb \<Rightarrow> os_tcb" where
  "released f d = (f (d\<lparr>blocked_on := NULL, blocked_reason := OS_BLOCKED_NONE\<rparr>))\<lparr>tcb_state := OS_TASK_READY\<rparr>"

definition to_ready :: "lid \<Rightarrow> ptr \<Rightarrow> nat \<Rightarrow> tlists \<Rightarrow> tlists" where
  "to_ready l t p A = A(l := remove1 t (A l), Ready p := A (Ready p) @ [t])"

lemma release_task_rep:
  assumes r: "rep s A V" and t: "t \<in> set (A l)" "V t = Some d" and l: "wait_list l"
    and p: "priority d < 8" and f: "data_upd f"
  shows "\<exists>s'. release_task l f t s = Some s' \<and> frame s s'
     \<and> rep s' (to_ready l t (unat (priority d)) A) (V(t \<mapsto> released f d))"
proof -
  have tz: "t \<noteq> NULL" using rep_member(1) [OF r t(1)] .
  let ?d = "d\<lparr>blocked_on := NULL, blocked_reason := OS_BLOCKED_NONE\<rparr>"
  have pf: "priority (f ?d) = priority d" using f by (simp add: data_upd_def)
  obtain s1 where s1: "unblock_task l t s = Some s1" "frame s s1" "rep s1 (A(l := remove1 t (A l))) (V(t \<mapsto> ?d))"
    using unblock_task_rep [OF r t l] by blast
  obtain s2 where s2: "upd_tcb t f s1 = Some s2" "rep s2 (A(l := remove1 t (A l))) (V(t \<mapsto> f ?d))" "frame s1 s2"
    using upd_tcb_rep [OF s1(3) tz _ f, of ?d] by auto
  have "nowhere (A(l := remove1 t (A l))) t" using nowhere_remove1 [OF r t(1)] l by (simp add: wait_list_def)
  then obtain s3 where s3: "os_task_add_to_ready t s2 = Some s3" "frame s2 s3"
    "rep s3 (A(l := remove1 t (A l), Ready (unat (priority d)) := (A(l := remove1 t (A l))) (Ready (unat (priority d))) @ [t]))
       (V(t \<mapsto> released f d))"
    using add_to_ready_rep [OF s2(2) _ tz, of "f ?d"] p pf by (auto simp: released_def)
  moreover have "(A(l := remove1 t (A l))) (Ready (unat (priority d))) = A (Ready (unat (priority d)))"
    using l by (auto simp: wait_list_def)
  ultimately show ?thesis
    using frame_trans [OF s1(2) frame_trans [OF s2(3) s3(2)]]
    by (simp add: release_task_def s1(1) s2(1) to_ready_def)
qed

lemma wake_task_none: "rep s A V \<Longrightarrow> wait_list l \<Longrightarrow> A l = [] \<Longrightarrow> wake_task l s = Some (NULL, s)"
  using rep_list(3) [of s A V l] by (simp add: wake_task_def wait_list_def)

lemma wake_task_some:
  assumes r: "rep s A V" and A: "A l = t # ts" and t: "V t = Some d" "priority d < 8" and l: "wait_list l"
  shows "\<exists>s'. wake_task l s = Some (t, s') \<and> frame s s'
     \<and> rep s' (to_ready l t (unat (priority d)) A) (V(t \<mapsto> released (\<lambda>c. c\<lparr>delay_ticks := 0, timed_out := 0\<rparr>) d))"
proof -
  have h: "list_head s l = t" using rep_list(3) [OF r, of l] l A by (simp add: wait_list_def)
  moreover have "t \<noteq> NULL" using rep_member(1) [OF r, of t l] A by simp
  moreover have "data_upd (\<lambda>c. c\<lparr>delay_ticks := 0, timed_out := 0\<rparr>)" by (simp add: data_upd_def)
  ultimately show ?thesis using release_task_rep [OF r _ t(1) l t(2)] A by (fastforce simp: wake_task_def)
qed

section \<open>The interface of an object that tasks wait on\<close>

definition park :: "lid \<Rightarrow> (ptr \<rightharpoonup> os_tcb) \<Rightarrow> ptr \<Rightarrow> nat \<Rightarrow> tlists \<Rightarrow> tlists" where
  "park l V t p A = A(Ready p := remove1 t (A (Ready p)), l := wait_ins V t (A l))"

definition waiting :: "(os_tcb \<Rightarrow> os_tcb) \<Rightarrow> os_tcb \<Rightarrow> os_tcb" where
  "waiting f d = (f d)\<lparr>tcb_state := OS_TASK_BLOCKED\<rparr>"

lemma states_ok_park:
  assumes "rep s A V" "states_ok A V" "V t = Some d" "t \<in> set (A (Ready p))" "wait_list l" "data_upd f"
  shows "states_ok (park l V t p A) (V(t \<mapsto> waiting f d))"
  unfolding park_def
  by (rule states_ok_block [OF assms(2,3,1,4,5)]) (use assms(6) in \<open>auto simp: set_wait_ins waiting_def data_upd_def\<close>)

lemma states_ok_release:
  assumes r: "rep s A V" and ok: "states_ok A V" and t: "V t = Some d" "t \<in> set (A l)" and l: "wait_list l" and f: "data_upd f"
  shows "states_ok (to_ready l t (unat (priority d)) A) (V(t \<mapsto> released f d))"
proof -
  have "l \<noteq> Deferred" using l by (simp add: wait_list_def)
  then have "distinct (A l)" using rep_list(2) [OF r] by blast
  then have nt: "t \<notin> set (remove1 t (A l))" by simp
  have nw: "t \<notin> set (A l')" if "l' \<noteq> l" for l' using rep_disjoint_lists [OF r t(2) that] .
  show ?thesis unfolding to_ready_def
    by (rule states_ok_ready [OF ok t(1) nw l refl nt]) (use f in \<open>simp_all add: released_def data_upd_def\<close>)
qed

text \<open>
  \<open>lst\<close> is the list, \<open>mark\<close> what blocking with a timeout writes into the control block,
  \<open>block\<close> and \<open>unblock\<close> the operations. The laws say what the operations do to the abstract
  lists and data; the lemmas are what the components need of them.
\<close>

locale wait_object =
  fixes lst :: lid
    and mark :: "u32 \<Rightarrow> os_tcb \<Rightarrow> os_tcb"
    and block :: "ptr \<Rightarrow> u32 \<Rightarrow> os \<Rightarrow> os option"
    and unblock :: "ptr \<Rightarrow> os \<Rightarrow> os option"
  assumes lst: "wait_list lst" "lst \<noteq> Blocked"
    and mark: "data_upd (mark n)"
    and block: "rep s A V \<Longrightarrow> t \<in> set (A (Ready p)) \<Longrightarrow> V t = Some d \<Longrightarrow>
      \<exists>s'. block t n s = Some s' \<and> frame s s' \<and> rep s' (park lst V t p A) (V(t \<mapsto> waiting (mark n) d))"
    and unblock: "rep s A V \<Longrightarrow> t \<in> set (A lst) \<Longrightarrow> V t = Some d \<Longrightarrow>
      \<exists>s'. unblock t s = Some s' \<and> frame s s' \<and> rep s' (A(lst := remove1 t (A lst)))
        (V(t \<mapsto> d\<lparr>blocked_on := NULL, blocked_reason := OS_BLOCKED_NONE\<rparr>))"
begin

lemma block_consistent:
  assumes "rep s A V" "states_ok A V" "V t = Some d" "runnable d"
  shows "\<exists>s'. block t n s = Some s' \<and> frame s s' \<and> rep s' (park lst V t (unat (priority d)) A) (V(t \<mapsto> waiting (mark n) d))
     \<and> states_ok (park lst V t (unat (priority d)) A) (V(t \<mapsto> waiting (mark n) d))"
proof -
  have "t \<in> set (A (Ready (unat (priority d))))" using states_okD(2) [OF assms(2,3)] assms(4) by simp
  then show ?thesis using block [OF assms(1) _ assms(3)] states_ok_park [OF assms(1-3) _ lst(1) mark] by blast
qed

text \<open>A task that waits is not counted down by the tick, whatever its timeout.\<close>

lemma blocked_not_delayed:
  assumes "rep s A V" "t \<in> set (A (Ready p))"
  shows "t \<in> set (park lst V t p A lst)" "t \<notin> set (park lst V t p A Blocked)"
  using rep_disjoint_lists [OF assms, of Blocked] lst by (auto simp: park_def set_wait_ins wait_list_def)

lemma head_is_highest:
  assumes "states_ok A V" "A lst = t # ts" "u \<in> set ts"
  shows "prio_of V t \<le> prio_of V u"
  using states_ok_sorted [OF assms(1) lst] assms(2,3) by (simp add: prio_sorted_def)

end

definition woken_tcb :: "os_tcb \<Rightarrow> os_tcb" where
  "woken_tcb = released (\<lambda>c. c\<lparr>delay_ticks := 0, timed_out := 0\<rparr>)"

lemma woken_sel [simp]:
  "priority (woken_tcb d) = priority d" "tcb_state (woken_tcb d) = OS_TASK_READY" "delay_ticks (woken_tcb d) = 0"
  "timed_out (woken_tcb d) = 0" "blocked_on (woken_tcb d) = NULL" "blocked_reason (woken_tcb d) = OS_BLOCKED_NONE"
  "stack_ptr (woken_tcb d) = stack_ptr d"
  by (simp_all add: woken_tcb_def released_def)

text \<open>An object that also wakes its first waiter.\<close>

locale wake_object = wait_object +
  fixes wake :: "os \<Rightarrow> (ptr \<times> os) option"
  assumes wake_none: "rep s A V \<Longrightarrow> A lst = [] \<Longrightarrow> wake s = Some (NULL, s)"
    and wake_some: "rep s A V \<Longrightarrow> A lst = t # ts \<Longrightarrow> V t = Some d \<Longrightarrow> priority d < 8 \<Longrightarrow>
      \<exists>s'. wake s = Some (t, s') \<and> frame s s' \<and> rep s' (to_ready lst t (unat (priority d)) A) (V(t \<mapsto> woken_tcb d))"
begin

lemma wake_consistent:
  assumes "rep s A V" "states_ok A V" "A lst = t # ts"
  shows "\<exists>s' d. V t = Some d \<and> wake s = Some (t, s') \<and> frame s s'
     \<and> rep s' (to_ready lst t (unat (priority d)) A) (V(t \<mapsto> woken_tcb d))
     \<and> states_ok (to_ready lst t (unat (priority d)) A) (V(t \<mapsto> woken_tcb d))"
proof -
  have t: "t \<in> set (A lst)" using assms(3) by simp
  obtain d where d: "V t = Some d" using rep_member(2) [OF assms(1) t] by blast
  have "data_upd (\<lambda>c. c\<lparr>delay_ticks := 0, timed_out := 0\<rparr>)" by (simp add: data_upd_def)
  from states_ok_release [OF assms(1,2) d t lst(1) this] wake_some [OF assms(1,3) d states_okD(1) [OF assms(2) d]] d
  show ?thesis by (auto simp: woken_tcb_def)
qed

text \<open>A task that blocks on an object nobody waits for is the one the next wake gives back.\<close>

lemma block_then_wake:
  assumes r: "rep s A V" and ok: "states_ok A V" and d: "V t = Some d" "runnable d" and e: "A lst = []"
  shows "\<exists>s1 s2. block t n s = Some s1 \<and> wake s1 = Some (t, s2)
     \<and> rep s2 (A(Ready (unat (priority d)) := remove1 t (A (Ready (unat (priority d)))) @ [t])) (V(t \<mapsto> woken_tcb (waiting (mark n) d)))"
proof -
  let ?p = "unat (priority d)" let ?A = "park lst V t ?p A" let ?d = "waiting (mark n) d"
  obtain s1 where s1: "block t n s = Some s1" "rep s1 ?A (V(t \<mapsto> ?d))" using block_consistent [OF r ok d] by blast
  have nl: "lst \<noteq> Ready q" for q using lst by (simp add: wait_list_def)
  have l: "?A lst = [t]" using e by (simp add: park_def wait_ins_simps)
  have p: "priority ?d = priority d" using mark [of n] by (simp add: waiting_def data_upd_def)
  obtain s2 where s2: "wake s1 = Some (t, s2)" "rep s2 (to_ready lst t ?p ?A) (V(t \<mapsto> woken_tcb ?d))"
    using wake_some [OF s1(2) l, of ?d] p states_okD(1) [OF ok d(1)] by auto
  have "to_ready lst t ?p ?A = A(Ready ?p := remove1 t (A (Ready ?p)) @ [t])"
    using nl e by (auto simp: to_ready_def park_def wait_ins_simps fun_eq_iff)
  then show ?thesis using s1(1) s2 by auto
qed

end

section \<open>Draining a list\<close>

text \<open>
  The delete operations release every waiter. \<open>run\<close> is the loop and \<open>step\<close> its body; the
  released tasks join the ready lists in the order they waited.
\<close>

definition drained :: "lid \<Rightarrow> (os_tcb \<Rightarrow> os_tcb) \<Rightarrow> tlists \<Rightarrow> (ptr \<rightharpoonup> os_tcb) \<Rightarrow> tlists \<Rightarrow> (ptr \<rightharpoonup> os_tcb) \<Rightarrow> bool" where
  "drained l f A V A' V' \<longleftrightarrow> A' l = []
     \<and> (\<forall>p. A' (Ready p) = A (Ready p) @ filter (\<lambda>t. unat (prio_of V t) = p) (A l))
     \<and> (\<forall>l'. l' \<noteq> l \<and> (wait_list l' \<or> l' = Deferred) \<longrightarrow> A' l' = A l')
     \<and> (\<forall>t. V' t = (if t \<in> set (A l) then map_option (released f) (V t) else V t))"

lemma drain_rep:
  assumes unf: "\<And>s. run s = (if list_head s l = NULL then Some s else step s \<bind> run)"
    and step: "\<And>s A V t ts d. rep s A V \<Longrightarrow> A l = t # ts \<Longrightarrow> V t = Some d \<Longrightarrow> priority d < 8 \<Longrightarrow>
      \<exists>s'. step s = Some s' \<and> frame s s' \<and> rep s' (to_ready l t (unat (priority d)) A) (V(t \<mapsto> released f d))"
    and l: "wait_list l" and f: "data_upd f" and r: "rep s A V" and ok: "states_ok A V"
  shows "\<exists>s' A' V'. run s = Some s' \<and> frame s s' \<and> rep s' A' V' \<and> states_ok A' V' \<and> drained l f A V A' V'"
  using r ok
proof (induction "A l" arbitrary: s A V)
  case Nil
  have "list_head s l = NULL" using rep_list(3) [OF Nil(2), of l] Nil(1) l by (simp add: wait_list_def)
  then have "run s = Some s" by (subst unf) simp
  moreover have "drained l f A V A V" using Nil(1) [symmetric] by (simp add: drained_def)
  ultimately show ?case using Nil by (intro exI conjI) auto
next
  case (Cons t ts)
  note A = Cons(2) [symmetric] and r = Cons(3) and ok = Cons(4)
  have t: "t \<in> set (A l)" using A by simp
  obtain d where d: "V t = Some d" using rep_member(2) [OF r t] by blast
  have p8: "priority d < 8" using states_okD(1) [OF ok d] .
  let ?p = "unat (priority d)" let ?A = "to_ready l t ?p A" let ?V = "V(t \<mapsto> released f d)"
  obtain s1 where s1: "step s = Some s1" "frame s s1" "rep s1 ?A ?V" using step [OF r A d p8] by blast
  have h: "list_head s l \<noteq> NULL" using rep_list(3) [OF r, of l] A l rep_member(1) [OF r t] by (simp add: wait_list_def)
  have run: "run s = run s1" by (subst unf) (simp add: h s1(1))
  have lr: "l \<noteq> Ready q" for q using l by (simp add: wait_list_def)
  have ts: "?A l = ts" using A lr by (simp add: to_ready_def)
  obtain s' A' V' where s': "run s1 = Some s'" "frame s1 s'" "rep s' A' V'" "states_ok A' V'" "drained l f ?A ?V A' V'"
    using Cons(1) [OF ts [symmetric] s1(3) states_ok_release [OF r ok d t l f]] by blast
  have tn: "t \<notin> set ts" using rep_list(2) [OF r, of l] A l by (simp add: wait_list_def)
  have fl: "filter (\<lambda>x. unat (prio_of ?V x) = q) ts = filter (\<lambda>x. unat (prio_of V x) = q) ts" for q
    using tn by (intro filter_cong) (auto simp: prio_of_def)
  have "A' (Ready q) = A (Ready q) @ filter (\<lambda>x. unat (prio_of V x) = q) (t # ts)" for q
    using s'(5) fl [of q] ts lr d by (auto simp: drained_def to_ready_def prio_of_def)
  moreover have "A' l' = A l'" if "l' \<noteq> l" "wait_list l' \<or> l' = Deferred" for l'
    using that s'(5) by (auto simp: drained_def to_ready_def wait_list_def)
  moreover have "V' x = (if x \<in> set (t # ts) then map_option (released f) (V x) else V x)" for x
    using s'(5) ts tn d by (auto simp: drained_def)
  moreover have "A' l = []" using s'(5) by (simp add: drained_def)
  ultimately have "drained l f A V A' V'" using A by (simp add: drained_def)
  then show ?case using run s'(1,3,4) frame_trans [OF s1(2) s'(2)] by auto
qed

lemma release_all_rep:
  assumes "wait_list l" "data_upd f" "rep s A V" "states_ok A V"
  shows "\<exists>s' A' V'. release_all l f s = Some s' \<and> frame s s' \<and> rep s' A' V' \<and> states_ok A' V' \<and> drained l f A V A' V'"
proof (rule drain_rep [OF _ _ assms, where step = "\<lambda>s. release_task l f (list_head s l) s"])
  show "release_all l f s = (if list_head s l = NULL then Some s else release_task l f (list_head s l) s \<bind> release_all l f)" for s
    by (subst release_all.simps) simp
  fix s A V t ts d assume a: "rep s A V" "A l = t # ts" "V t = Some d" "priority d < 8"
  have "list_head s l = t" using rep_list(3) [OF a(1), of l] assms(1) a(2) by (simp add: wait_list_def)
  then show "\<exists>s'. release_task l f (list_head s l) s = Some s' \<and> frame s s' \<and> rep s' (to_ready l t (unat (priority d)) A) (V(t \<mapsto> released f d))"
    using release_task_rep [OF a(1) _ a(3) assms(1) a(4) assms(2)] a(2) by simp
qed

lemma wake_all_rep:
  assumes "wait_list l" "rep s A V" "states_ok A V"
  shows "\<exists>s' A' V'. wake_all l s = Some s' \<and> frame s s' \<and> rep s' A' V' \<and> states_ok A' V'
     \<and> drained l (\<lambda>c. c\<lparr>delay_ticks := 0, timed_out := 1\<rparr>) A V A' V'"
proof (rule drain_rep [OF _ _ assms(1) _ assms(2,3)])
  let ?step = "\<lambda>s. do { (t, s) \<leftarrow> wake_task l s; if t \<noteq> NULL then upd_tcb t (\<lambda>c. c\<lparr>timed_out := 1\<rparr>) s else Some s }"
  show "wake_all l s = (if list_head s l = NULL then Some s else ?step s \<bind> wake_all l)" for s
    by (subst wake_all.simps) (auto split: option.splits bind_splits)
  fix s A V t ts d assume a: "rep s A V" "A l = t # ts" "V t = Some d" "priority d < 8"
  let ?f = "\<lambda>c. c\<lparr>delay_ticks := 0, timed_out := 0\<rparr>"
  obtain s1 where s1: "wake_task l s = Some (t, s1)" "frame s s1"
    "rep s1 (to_ready l t (unat (priority d)) A) (V(t \<mapsto> released ?f d))" using wake_task_some [OF a assms(1)] by blast
  have tz: "t \<noteq> NULL" using rep_member(1) [OF a(1), of t l] a(2) by simp
  obtain s2 where "upd_tcb t (\<lambda>c. c\<lparr>timed_out := 1\<rparr>) s1 = Some s2" "frame s1 s2"
    "rep s2 (to_ready l t (unat (priority d)) A) (V(t \<mapsto> (released ?f d)\<lparr>timed_out := 1\<rparr>))"
    using upd_tcb_rep [OF s1(3) tz, of "released ?f d" "\<lambda>c. c\<lparr>timed_out := 1\<rparr>"] by (auto simp: data_upd_def)
  moreover have "(released ?f d)\<lparr>timed_out := 1\<rparr> = released (\<lambda>c. c\<lparr>delay_ticks := 0, timed_out := 1\<rparr>) d" by (simp add: released_def)
  ultimately show "\<exists>s'. ?step s = Some s' \<and> frame s s' \<and> rep s' (to_ready l t (unat (priority d)) A)
      (V(t \<mapsto> released (\<lambda>c. c\<lparr>delay_ticks := 0, timed_out := 1\<rparr>) d))"
    using s1(1) tz frame_trans [OF s1(2)] by auto
qed (simp add: data_upd_def)

section \<open>The instance shared by the components\<close>

lemma wait_objectI:
  assumes "wait_list l" "l \<noteq> Blocked" "\<And>n. data_upd (mark n)" "\<And>t n s. block t n s = block_task l (mark n) t s"
    "\<And>t s. unblock t s = unblock_task l t s"
  shows "wait_object l mark block unblock"
  using assms block_task_rep unblock_task_rep by unfold_locales (auto simp: park_def waiting_def)

lemma wake_objectI:
  assumes "wait_list l" "l \<noteq> Blocked" "\<And>n. data_upd (mark n)" "\<And>t n s. block t n s = block_task l (mark n) t s"
    "\<And>t s. unblock t s = unblock_task l t s" "\<And>s. wake s = wake_task l s"
  shows "wake_object l mark block unblock wake"
  using wait_objectI [OF assms(1-5)] assms(1,6) wake_task_none wake_task_some
  by (auto simp: wake_object_def wake_object_axioms_def woken_tcb_def)

section \<open>What the callers of the wait lists share\<close>

lemma crit_objects [simp]:
  "sems (os_sched_enter_critical s) = sems s" "sems (os_sched_exit_critical s) = sems s" "sems (os_trace_record ev a b s) = sems s"
  "queues (os_sched_enter_critical s) = queues s" "queues (os_sched_exit_critical s) = queues s" "queues (os_trace_record ev a b s) = queues s"
  "mutexes (os_sched_enter_critical s) = mutexes s" "mutexes (os_sched_exit_critical s) = mutexes s" "mutexes (os_trace_record ev a b s) = mutexes s"
  "eventgroups (os_sched_enter_critical s) = eventgroups s" "eventgroups (os_sched_exit_critical s) = eventgroups s"
  "mem8 (os_sched_enter_critical s) = mem8 s" "mem8 (os_sched_exit_critical s) = mem8 s" "mem8 (os_trace_record ev a b s) = mem8 s"
  "scheduler_running (os_sched_enter_critical s) = scheduler_running s" "scheduler_running (os_sched_exit_critical s) = scheduler_running s"
  by (simp_all add: crit_simps)

lemma empty_section_crit_same:
  "crit_ok s \<Longrightarrow> critical_nesting s2 = critical_nesting (os_sched_enter_critical s) \<Longrightarrow> primask s2 = primask (os_sched_enter_critical s)
    \<Longrightarrow> saved_mask s2 = saved_mask (os_sched_enter_critical s) \<Longrightarrow> crit_same s (os_sched_exit_critical s2)"
  by (rule section_crit_same [of s "os_sched_enter_critical s"]) simp_all

lemma crit_same_via:
  assumes "crit_ok s" "crit_same (os_sched_enter_critical s) s2" "frame s2 s1"
    "critical_nesting s3 = critical_nesting s1" "primask s3 = primask s1" "saved_mask s3 = saved_mask s1"
  shows "crit_same s (os_sched_exit_critical s3)"
  using assms frame_os [OF assms(3)]
  by (intro critical_section_balanced) (auto simp: crit_same_def crit_ok_def)

lemma crit_ok_same: "crit_same s s' \<Longrightarrow> crit_ok s \<Longrightarrow> crit_ok s'"
  by (simp add: crit_same_def crit_ok_def)

lemma head_NULL: "rep s A V \<Longrightarrow> l \<noteq> Deferred \<Longrightarrow> list_head s l = NULL \<longleftrightarrow> A l = []"
  using rep_list(3) [of s A V l] rep_member(1) [of s A V _ l] by (cases "A l") auto

lemma runnable_not_waiting:
  assumes "rep s A V" "states_ok A V" "V c = Some dc" "runnable dc" "t \<in> set (A l)" "wait_list l"
  shows "c \<noteq> t" "c \<noteq> NULL"
proof -
  show "c \<noteq> t" using states_okD(3) [OF assms(2,3)] assms(4-6) by (auto simp: runnable_def)
  show "c \<noteq> NULL" using states_okD(2) [OF assms(2,3)] assms(4) rep_member(1) [OF assms(1)] by blast
qed

lemma rep_priority:
  "rep s A V \<Longrightarrow> V t = Some d \<Longrightarrow> \<exists>c. tcbs s t = Some c \<and> priority c = priority d \<and> tcb_state c = tcb_state d \<and> timed_out c = timed_out d"
  using rep_Some [of s A V t d] by auto

lemma yield_if_higher_rep:
  assumes "rep s A V" "t \<noteq> NULL" "V t = Some d" "c \<noteq> NULL" "V c = Some dc"
  shows "yield_if_higher e t c s = (if priority d < priority dc then os_sched_yield e s else Some s)"
  using rep_priority [OF assms(1,3)] rep_priority [OF assms(1,5)] assms(2,4)
  by (auto simp: yield_if_higher_def get_tcb_def)

lemma preempt_running_rep:
  assumes "rep s A V" "t \<noteq> NULL" "V t = Some d" "current_task_ptr s \<noteq> NULL" "V (current_task_ptr s) = Some dc"
  shows "preempt_running e t s =
    (if priority d < priority dc \<and> tcb_state dc = OS_TASK_RUNNING then os_sched_yield e s else Some s)"
  using rep_priority [OF assms(1,3)] rep_priority [OF assms(1,5)] assms(2,4)
  by (auto simp: preempt_running_def get_tcb_def os_task_get_current_def)

text \<open>
  The common tail of the blocking calls: the caller yields and, when it runs again, reports a
  timeout or success.
\<close>

definition resumed :: "env \<Rightarrow> (os \<Rightarrow> os) \<Rightarrow> os \<Rightarrow> (os_status \<times> os) option" where
  "resumed e fin s =
     do {
       s \<leftarrow> os_sched_yield e s;
       c \<leftarrow> get_tcb (os_task_get_current s) s;
       if timed_out c \<noteq> 0 then Some (OS_ERR_TIMEOUT, s) else Some (OS_OK, fin s)
     }"

section \<open>Task steps\<close>

definition task_running :: "os \<Rightarrow> bool" where
  "task_running s = (case get_tcb (current_task_ptr s) s of Some c \<Rightarrow> tcb_state c = OS_TASK_RUNNING | None \<Rightarrow> False)"

lemma running_rep:
  assumes "rep s A V" "task_running s"
  shows "\<exists>d. V (current_task_ptr s) = Some d \<and> runnable d \<and> current_task_ptr s \<noteq> NULL"
proof -
  obtain c where c: "tcbs s (current_task_ptr s) = Some c" "tcb_state c = OS_TASK_RUNNING" "current_task_ptr s \<noteq> NULL"
    using assms(2) by (auto simp: task_running_def get_tcb_def split: option.splits if_splits)
  have "V (current_task_ptr s) = Some (erase c)" using rep_view [OF assms(1)] c(1) by (auto simp: view_def)
  then show ?thesis using c by (simp add: runnable_def)
qed

lemma yield_stop:
  assumes "switch e = Some"
  shows "\<exists>s'. os_sched_yield e s = Some s' \<and> (\<forall>A V. rep s' A V = rep s A V) \<and> sems s' = sems s \<and> queues s' = queues s \<and> mem8 s' = mem8 s \<and> mutexes s' = mutexes s \<and> eventgroups s' = eventgroups s \<and> crit_same s s'
     \<and> current_task_ptr s' = current_task_ptr s"
  using assms by (simp add: os_sched_yield_def os_port_yield_def crit_same_def)

lemma current_ok_mono:
  "current_ok s V \<Longrightarrow> current_task_ptr s' = current_task_ptr s \<Longrightarrow> V t \<noteq> None \<Longrightarrow> tcb_state d \<noteq> OS_TASK_RUNNING
    \<Longrightarrow> current_ok s' (V(t \<mapsto> d))"
  by (auto simp: current_ok_def)

lemma current_ok_cong: "current_task_ptr s' = current_task_ptr s \<Longrightarrow> current_ok s' V = current_ok s V"
  by (simp add: current_ok_def)

lemma demo_crit_ok: "crit_ok demo"
  by (simp add: crit_ok_def demo_def)

end
