(* ===== verification/Semaphore.thy ===== *)
theory Semaphore
  imports Wait_Lists
begin

unbundle bit_operations_syntax

text \<open>Binary and counting semaphores, \<open>kernel/semaphore.c\<close>.\<close>

section \<open>Operations\<close>

definition upd_sem :: "ptr \<Rightarrow> (os_sem \<Rightarrow> os_sem) \<Rightarrow> os \<Rightarrow> os" where
  "upd_sem x f s = s\<lparr>sems := (sems s)(x := f (sems s x))\<rparr>"

definition sem_block_task :: "ptr \<Rightarrow> ptr \<Rightarrow> u32 \<Rightarrow> os \<Rightarrow> os option" where
  "sem_block_task sem tcb timeout s =
     block_task (SemW sem) (\<lambda>c. c\<lparr>blocked_on := sem, blocked_reason := OS_BLOCKED_ON_SEM_TAKE,
                                 timed_out := 0, delay_ticks := timeout\<rparr>) tcb s"

definition sem_unblock_task :: "ptr \<Rightarrow> ptr \<Rightarrow> os \<Rightarrow> os option" where
  "sem_unblock_task sem tcb s = unblock_task (SemW sem) tcb s"

definition sem_wake_task :: "ptr \<Rightarrow> os \<Rightarrow> (ptr \<times> os) option" where
  "sem_wake_task sem s = wake_task (SemW sem) s"

definition os_sem_create_binary :: "ptr \<Rightarrow> os \<Rightarrow> os_status \<times> os" where
  "os_sem_create_binary sem s =
     (if sem = NULL then (OS_ERR_PARAM, s)
      else (OS_OK, upd_sem sem (\<lambda>x. x\<lparr>sem_count := 0, max_count := 1, sem_wait_list := NULL\<rparr>) s))"

definition os_sem_create_counting :: "ptr \<Rightarrow> u32 \<Rightarrow> u32 \<Rightarrow> os \<Rightarrow> os_status \<times> os" where
  "os_sem_create_counting sem maxc init s =
     (if sem = NULL \<or> maxc = 0 then (OS_ERR_PARAM, s)
      else if init > maxc then (OS_ERR_PARAM, s)
      else (OS_OK, upd_sem sem (\<lambda>x. x\<lparr>sem_count := init, max_count := maxc, sem_wait_list := NULL\<rparr>) s))"

definition os_sem_delete :: "ptr \<Rightarrow> os \<Rightarrow> (os_status \<times> os) option" where
  "os_sem_delete sem s =
     (if sem = NULL then Some (OS_ERR_PARAM, s)
      else do {
        let s = os_sched_enter_critical s;
        s \<leftarrow> wake_all (SemW sem) s;
        let s = upd_sem sem (\<lambda>x. x\<lparr>sem_count := 0, max_count := 0\<rparr>) s;
        Some (OS_OK, os_sched_exit_critical s)
      })"

definition os_sem_take :: "env \<Rightarrow> ptr \<Rightarrow> u32 \<Rightarrow> os \<Rightarrow> (os_status \<times> os) option" where
  "os_sem_take e sem timeout s =
     (if sem = NULL then Some (OS_ERR_PARAM, s)
      else do {
        let s = os_sched_enter_critical s;
        if sem_count (sems s sem) > 0
        then do {
          let s = upd_sem sem (\<lambda>x. x\<lparr>sem_count := sem_count x - 1\<rparr>) s;
          let s = os_trace_record OS_TRACE_SEM_TAKE sem (sem_count (sems s sem)) s;
          Some (OS_OK, os_sched_exit_critical s)
        }
        else if timeout = OS_WAIT_NONE then Some (OS_ERR_EMPTY, os_sched_exit_critical s)
        else do {
          s \<leftarrow> sem_block_task sem (os_task_get_current s) timeout s;
          let s = os_sched_exit_critical s;
          s \<leftarrow> os_sched_yield e s;
          c \<leftarrow> get_tcb (os_task_get_current s) s;
          if timed_out c \<noteq> 0 then Some (OS_ERR_TIMEOUT, s)
          else Some (OS_OK, os_trace_record OS_TRACE_SEM_TAKE sem (sem_count (sems s sem)) s)
        }
      })"

definition os_sem_take_from_isr :: "ptr \<Rightarrow> os \<Rightarrow> os_status \<times> os" where
  "os_sem_take_from_isr sem s =
     (if sem = NULL then (OS_ERR_PARAM, s)
      else let s = os_sched_enter_critical s in
        if sem_count (sems s sem) > 0
        then let s = upd_sem sem (\<lambda>x. x\<lparr>sem_count := sem_count x - 1\<rparr>) s;
                 s = os_trace_record OS_TRACE_SEM_TAKE sem (sem_count (sems s sem)) s
             in (OS_OK, os_sched_exit_critical s)
        else (OS_ERR_EMPTY, os_sched_exit_critical s))"

definition os_sem_give :: "env \<Rightarrow> ptr \<Rightarrow> os \<Rightarrow> (os_status \<times> os) option" where
  "os_sem_give e sem s =
     (if sem = NULL then Some (OS_ERR_PARAM, s)
      else do {
        let s = os_sched_enter_critical s;
        if sem_wait_list (sems s sem) \<noteq> NULL
        then do {
          (woken, s) \<leftarrow> sem_wake_task sem s;
          let current = os_task_get_current s;
          let s = os_trace_record OS_TRACE_SEM_GIVE sem (sem_count (sems s sem)) s;
          let s = os_sched_exit_critical s;
          s \<leftarrow> yield_if_higher e woken current s;
          Some (OS_OK, s)
        }
        else if sem_count (sems s sem) < max_count (sems s sem)
        then do {
          let s = upd_sem sem (\<lambda>x. x\<lparr>sem_count := sem_count x + 1\<rparr>) s;
          let s = os_trace_record OS_TRACE_SEM_GIVE sem (sem_count (sems s sem)) s;
          Some (OS_OK, os_sched_exit_critical s)
        }
        else Some (OS_ERR_FULL, os_sched_exit_critical s)
      })"

definition os_sem_give_from_isr :: "ptr \<Rightarrow> os \<Rightarrow> (os_status \<times> os) option" where
  "os_sem_give_from_isr sem s =
     (if sem = NULL then Some (OS_ERR_PARAM, s)
      else do {
        let s = os_sched_enter_critical s;
        if sem_wait_list (sems s sem) \<noteq> NULL
        then do {
          (woken, s) \<leftarrow> sem_wake_task sem s;
          let s = os_sched_exit_critical s;
          Some (OS_OK, if woken \<noteq> NULL then os_sched_request_switch_from_isr s else s)
        }
        else if sem_count (sems s sem) < max_count (sems s sem)
        then Some (OS_OK, os_sched_exit_critical (upd_sem sem (\<lambda>x. x\<lparr>sem_count := sem_count x + 1\<rparr>) s))
        else Some (OS_ERR_FULL, os_sched_exit_critical s)
      })"

definition os_sem_get_count :: "ptr \<Rightarrow> os \<Rightarrow> u32" where
  "os_sem_get_count sem s = (if sem = NULL then 0 else sem_count (sems s sem))"

definition os_sem_get_count_from_isr :: "ptr \<Rightarrow> os \<Rightarrow> u32 \<times> os" where
  "os_sem_get_count_from_isr sem s =
     (if sem = NULL then (0, s)
      else let s = os_sched_enter_critical s; n = sem_count (sems s sem) in (n, os_sched_exit_critical s))"

definition os_sem_remove_task :: "ptr \<Rightarrow> ptr \<Rightarrow> os \<Rightarrow> os option" where
  "os_sem_remove_task sem tcb s =
     (if sem = NULL \<or> tcb = NULL then Some s
      else do {
        s \<leftarrow> sem_unblock_task sem tcb (os_sched_enter_critical s);
        Some (os_sched_exit_critical s)
      })"

section \<open>Waiting on a semaphore\<close>

definition sem_mark :: "ptr \<Rightarrow> u32 \<Rightarrow> os_tcb \<Rightarrow> os_tcb" where
  "sem_mark x n = (\<lambda>c. c\<lparr>blocked_on := x, blocked_reason := OS_BLOCKED_ON_SEM_TAKE, timed_out := 0, delay_ticks := n\<rparr>)"

interpretation sem: wake_object "SemW x" "sem_mark x" "sem_block_task x" "sem_unblock_task x" "sem_wake_task x" for x
  by (rule wake_objectI)
    (simp_all add: wait_list_def data_upd_def sem_mark_def sem_block_task_def sem_unblock_task_def sem_wake_task_def)

lemma upd_sem_rep [simp]:
  "(\<And>y. sem_wait_list (f y) = sem_wait_list y) \<Longrightarrow> rep (upd_sem x f s) A V = rep s A V"
proof -
  assume f: "\<And>y. sem_wait_list (f y) = sem_wait_list y"
  have "list_head (upd_sem x f s) l = list_head s l" for l by (cases l) (simp_all add: upd_sem_def f)
  then show ?thesis by (intro rep_cong) (simp_all add: upd_sem_def)
qed

lemma upd_sem_sel [simp]:
  "sems (upd_sem x f s) = (sems s)(x := f (sems s x))" "critical_nesting (upd_sem x f s) = critical_nesting s"
  "primask (upd_sem x f s) = primask s" "saved_mask (upd_sem x f s) = saved_mask s"
  "current_task_ptr (upd_sem x f s) = current_task_ptr s" "scheduler_running (upd_sem x f s) = scheduler_running s"
  by (simp_all add: upd_sem_def)

lemma sem_head: "rep s A V \<Longrightarrow> sem_wait_list (sems s x) = NULL \<longleftrightarrow> A (SemW x) = []"
  using head_NULL [of s A V "SemW x"] by simp

lemma sem_waits: "wait_list (SemW x)"
  by (simp add: wait_list_def)

lemma sem_wake_section:
  assumes r: "rep s A V" and ok: "states_ok A V" and A: "A (SemW x) = t # ts"
  shows "\<exists>s1 d. V t = Some d \<and> sem_wake_task x (os_sched_enter_critical s) = Some (t, s1) \<and> frame (os_sched_enter_critical s) s1
     \<and> rep s1 (to_ready (SemW x) t (unat (priority d)) A) (V(t \<mapsto> woken_tcb d))
     \<and> states_ok (to_ready (SemW x) t (unat (priority d)) A) (V(t \<mapsto> woken_tcb d))
     \<and> t \<noteq> NULL \<and> sem_wait_list (sems s x) \<noteq> NULL \<and> current_task_ptr s1 = current_task_ptr s
     \<and> sem_count (sems s1 x) = sem_count (sems s x) \<and> max_count (sems s1 x) = max_count (sems s x)"
proof -
  have r0: "rep (os_sched_enter_critical s) A V" using r by simp
  obtain s1 d where s1: "V t = Some d" "sem_wake_task x (os_sched_enter_critical s) = Some (t, s1)" "frame (os_sched_enter_critical s) s1"
    "rep s1 (to_ready (SemW x) t (unat (priority d)) A) (V(t \<mapsto> woken_tcb d))"
    "states_ok (to_ready (SemW x) t (unat (priority d)) A) (V(t \<mapsto> woken_tcb d))"
    using sem.wake_consistent [OF r0 ok A] by blast
  have "t \<noteq> NULL" using rep_member(1) [OF r, of t "SemW x"] A by simp
  moreover have "sem_wait_list (sems s x) \<noteq> NULL" using sem_head [OF r, of x] A by simp
  ultimately show ?thesis using s1 frame_os(10) [OF s1(3)] frame_objects(8,9) [OF s1(3), of x] by auto
qed

lemma sem_give_wakes:
  assumes r: "rep s A V" and ok: "states_ok A V" and c: "crit_ok s" and x: "x \<noteq> NULL"
    and cur: "V (current_task_ptr s) = Some dc" "runnable dc" and A: "A (SemW x) = t # ts"
  shows "\<exists>s1 d. V t = Some d
     \<and> os_sem_give e x s = map_option (Pair OS_OK) (if priority d < priority dc then os_sched_yield e s1 else Some s1)
     \<and> rep s1 (to_ready (SemW x) t (unat (priority d)) A) (V(t \<mapsto> woken_tcb d))
     \<and> states_ok (to_ready (SemW x) t (unat (priority d)) A) (V(t \<mapsto> woken_tcb d)) \<and> crit_same s s1
     \<and> sem_count (sems s1 x) = sem_count (sems s x) \<and> max_count (sems s1 x) = max_count (sems s x)
     \<and> current_task_ptr s1 = current_task_ptr s"
proof -
  obtain s1 d where s1: "V t = Some d" "sem_wake_task x (os_sched_enter_critical s) = Some (t, s1)" "frame (os_sched_enter_critical s) s1"
    "rep s1 (to_ready (SemW x) t (unat (priority d)) A) (V(t \<mapsto> woken_tcb d))"
    "states_ok (to_ready (SemW x) t (unat (priority d)) A) (V(t \<mapsto> woken_tcb d))"
    "t \<noteq> NULL" "sem_wait_list (sems s x) \<noteq> NULL" "current_task_ptr s1 = current_task_ptr s"
    "sem_count (sems s1 x) = sem_count (sems s x)" "max_count (sems s1 x) = max_count (sems s x)"
    using sem_wake_section [OF r ok A] by (elim exE conjE) (rule that)
  let ?s1 = "os_sched_exit_critical (os_trace_record OS_TRACE_SEM_GIVE x (sem_count (sems s1 x)) s1)"
  have r1: "rep ?s1 (to_ready (SemW x) t (unat (priority d)) A) (V(t \<mapsto> woken_tcb d))" using s1(4) by simp
  note rn = runnable_not_waiting [OF r ok cur, of t "SemW x"]
  have ct: "current_task_ptr s \<noteq> t" "current_task_ptr s \<noteq> NULL" using rn A sem_waits by simp_all
  have "os_sem_give e x s = map_option (Pair OS_OK) (yield_if_higher e t (current_task_ptr s) ?s1)"
    using x s1(2,7,8) by (simp add: os_sem_give_def os_task_get_current_def Let_def map_conv_bind_option comp_def)
  moreover have "yield_if_higher e t (current_task_ptr s) ?s1 = (if priority d < priority dc then os_sched_yield e ?s1 else Some ?s1)"
    using yield_if_higher_rep [OF r1 s1(6), of "woken_tcb d" "current_task_ptr s" dc] ct cur(1) by simp
  moreover have "crit_same s ?s1" by (rule section_crit_same [OF c s1(3)]) simp_all
  ultimately show ?thesis using s1(1,5,8-10) r1 by (intro exI [of _ ?s1] exI [of _ d]) simp
qed

lemma sem_give_counts:
  assumes r: "rep s A V" and c: "crit_ok s" and x: "x \<noteq> NULL" and A: "A (SemW x) = []"
  shows "\<exists>s1. os_sem_give e x s = Some (if sem_count (sems s x) < max_count (sems s x) then OS_OK else OS_ERR_FULL, s1)
     \<and> rep s1 A V \<and> crit_same s s1 \<and> max_count (sems s1 x) = max_count (sems s x)
     \<and> sem_count (sems s1 x) = (if sem_count (sems s x) < max_count (sems s x) then sem_count (sems s x) + 1 else sem_count (sems s x))
     \<and> current_task_ptr s1 = current_task_ptr s"
proof -
  have h: "sem_wait_list (sems s x) = NULL" using sem_head [OF r] A by simp
  show ?thesis using x h r
    by (auto simp: os_sem_give_def Let_def intro!: empty_section_crit_same [OF c])
qed

lemma sem_give_isr:
  assumes r: "rep s A V" and ok: "states_ok A V" and c: "crit_ok s" and x: "x \<noteq> NULL"
  shows "\<exists>s1 st A1 V1. os_sem_give_from_isr x s = Some (st, s1) \<and> rep s1 A1 V1 \<and> states_ok A1 V1 \<and> crit_same s s1
     \<and> max_count (sems s1 x) = max_count (sems s x) \<and> current_task_ptr s1 = current_task_ptr s
     \<and> (case A (SemW x) of
          [] \<Rightarrow> A1 = A \<and> V1 = V \<and> (if sem_count (sems s x) < max_count (sems s x)
                then st = OS_OK \<and> sem_count (sems s1 x) = sem_count (sems s x) + 1
                else st = OS_ERR_FULL \<and> sem_count (sems s1 x) = sem_count (sems s x))
        | t # ts \<Rightarrow> st = OS_OK \<and> sem_count (sems s1 x) = sem_count (sems s x) \<and> yield_pending s1 = 1
            \<and> (\<exists>d. V t = Some d \<and> A1 = to_ready (SemW x) t (unat (priority d)) A \<and> V1 = V(t \<mapsto> woken_tcb d)))"
proof (cases "A (SemW x)")
  case Nil
  then have h: "sem_wait_list (sems s x) = NULL" using sem_head [OF r] by simp
  show ?thesis using x h r ok Nil
    by (auto simp: os_sem_give_from_isr_def Let_def intro!: empty_section_crit_same [OF c])
next
  case (Cons t ts)
  obtain s1 d where s1: "V t = Some d" "sem_wake_task x (os_sched_enter_critical s) = Some (t, s1)" "frame (os_sched_enter_critical s) s1"
    "rep s1 (to_ready (SemW x) t (unat (priority d)) A) (V(t \<mapsto> woken_tcb d))"
    "states_ok (to_ready (SemW x) t (unat (priority d)) A) (V(t \<mapsto> woken_tcb d))"
    "t \<noteq> NULL" "sem_wait_list (sems s x) \<noteq> NULL" "current_task_ptr s1 = current_task_ptr s"
    "sem_count (sems s1 x) = sem_count (sems s x)" "max_count (sems s1 x) = max_count (sems s x)"
    using sem_wake_section [OF r ok Cons] by (elim exE conjE) (rule that)
  let ?s1 = "(os_sched_exit_critical s1)\<lparr>yield_pending := 1\<rparr>"
  have "os_sem_give_from_isr x s = Some (OS_OK, ?s1)"
    using x s1(2,6,7) by (simp add: os_sem_give_from_isr_def request_switch_nf Let_def)
  moreover have "crit_same s ?s1" using section_crit_same [OF c s1(3) refl refl refl] by (simp add: crit_same_def)
  ultimately show ?thesis using s1 Cons by (intro exI [of _ ?s1] exI) auto
qed

lemma sem_take_blocks:
  assumes r: "rep s A V" and ok: "states_ok A V" and c: "crit_ok s" and x: "x \<noteq> NULL"
    and cur: "V (current_task_ptr s) = Some dc" "runnable dc" and n: "sem_count (sems s x) = 0" "n \<noteq> 0"
  shows "\<exists>s1. os_sem_take e x n s = resumed e (\<lambda>s. os_trace_record OS_TRACE_SEM_TAKE x (sem_count (sems s x)) s) s1
     \<and> rep s1 (park (SemW x) V (current_task_ptr s) (unat (priority dc)) A) (V(current_task_ptr s \<mapsto> waiting (sem_mark x n) dc))
     \<and> states_ok (park (SemW x) V (current_task_ptr s) (unat (priority dc)) A) (V(current_task_ptr s \<mapsto> waiting (sem_mark x n) dc))
     \<and> crit_same s s1 \<and> sem_count (sems s1 x) = 0 \<and> max_count (sems s1 x) = max_count (sems s x)
     \<and> current_task_ptr s1 = current_task_ptr s"
proof -
  let ?s = "os_sched_enter_critical s"
  have r0: "rep ?s A V" using r by simp
  obtain s1 where s1: "sem_block_task x (current_task_ptr s) n ?s = Some s1" "frame ?s s1"
    "rep s1 (park (SemW x) V (current_task_ptr s) (unat (priority dc)) A) (V(current_task_ptr s \<mapsto> waiting (sem_mark x n) dc))"
    "states_ok (park (SemW x) V (current_task_ptr s) (unat (priority dc)) A) (V(current_task_ptr s \<mapsto> waiting (sem_mark x n) dc))"
    using sem.block_consistent [OF r0 ok cur] by blast
  have "crit_same s (os_sched_exit_critical s1)" by (rule section_crit_same [OF c s1(2)]) simp_all
  moreover have "os_sem_take e x n s = resumed e (\<lambda>s. os_trace_record OS_TRACE_SEM_TAKE x (sem_count (sems s x)) s) (os_sched_exit_critical s1)"
    using x n s1(1) by (simp add: os_sem_take_def resumed_def os_task_get_current_def Let_def)
  ultimately show ?thesis
    using s1(3,4) frame_os(10) [OF s1(2)] frame_objects(8,9) [OF s1(2), of x] n(1)
    by (intro exI [of _ "os_sched_exit_critical s1"]) simp
qed

lemma sem_take_now:
  assumes "crit_ok s" "x \<noteq> NULL" "0 < sem_count (sems s x)"
  shows "\<exists>s1. os_sem_take e x n s = Some (OS_OK, s1) \<and> sem_count (sems s1 x) = sem_count (sems s x) - 1
     \<and> max_count (sems s1 x) = max_count (sems s x) \<and> crit_same s s1 \<and> current_task_ptr s1 = current_task_ptr s
     \<and> (\<forall>A V. rep s1 A V = rep s A V)"
  using assms by (auto simp: os_sem_take_def Let_def intro!: empty_section_crit_same [OF assms(1)])

lemma sem_take_empty:
  assumes "crit_ok s" "x \<noteq> NULL" "sem_count (sems s x) = 0"
  shows "\<exists>s1. os_sem_take e x 0 s = Some (OS_ERR_EMPTY, s1) \<and> sems s1 = sems s \<and> crit_same s s1
     \<and> current_task_ptr s1 = current_task_ptr s \<and> (\<forall>A V. rep s1 A V = rep s A V)"
  using assms by (auto simp: os_sem_take_def Let_def intro!: empty_section_crit_same [OF assms(1)])

lemma sem_take_isr:
  assumes "crit_ok s" "x \<noteq> NULL"
  shows "\<exists>st s1. os_sem_take_from_isr x s = (st, s1) \<and> crit_same s s1 \<and> current_task_ptr s1 = current_task_ptr s
     \<and> max_count (sems s1 x) = max_count (sems s x) \<and> (\<forall>A V. rep s1 A V = rep s A V)
     \<and> (if sem_count (sems s x) = 0 then st = OS_ERR_EMPTY \<and> sem_count (sems s1 x) = 0
        else st = OS_OK \<and> sem_count (sems s1 x) = sem_count (sems s x) - 1)"
  using assms by (auto simp: os_sem_take_from_isr_def Let_def word_neq_0_conv intro!: empty_section_crit_same [OF assms(1)])

section \<open>Interleavings\<close>

text \<open>
  The steps that may interleave on a semaphore: the scheduler's choice, gives and takes by the
  running task, and gives and takes by interrupt handlers. A task step ends where the call hands
  the processor over; what the others do then are further steps.
\<close>

inductive sem_step :: "env \<Rightarrow> ptr \<Rightarrow> os \<Rightarrow> os \<Rightarrow> bool" for e :: env and x :: ptr where
  schedule: "os_sched_select_next s = Some s' \<Longrightarrow> sem_step e x s s'"
| give: "task_running s \<Longrightarrow> os_sem_give e x s = Some (st, s') \<Longrightarrow> sem_step e x s s'"
| take: "task_running s \<Longrightarrow> os_sem_take e x n s = Some (st, s') \<Longrightarrow> sem_step e x s s'"
| give_isr: "os_sem_give_from_isr x s = Some (st, s') \<Longrightarrow> sem_step e x s s'"
| take_isr: "os_sem_take_from_isr x s = (st, s') \<Longrightarrow> sem_step e x s s'"

inductive_cases sem_stepE: "sem_step e x s s'"

definition sem_inv :: "ptr \<Rightarrow> os \<Rightarrow> bool" where
  "sem_inv x s \<longleftrightarrow> (\<exists>A V. rep s A V \<and> states_ok A V \<and> current_ok s V \<and> crit_ok s
     \<and> sem_count (sems s x) \<le> max_count (sems s x) \<and> (A (SemW x) \<noteq> [] \<longrightarrow> sem_count (sems s x) = 0))"

lemma sem_invI:
  "rep s A V \<Longrightarrow> states_ok A V \<Longrightarrow> current_ok s V \<Longrightarrow> crit_ok s \<Longrightarrow> sem_count (sems s x) \<le> max_count (sems s x)
    \<Longrightarrow> (A (SemW x) \<noteq> [] \<longrightarrow> sem_count (sems s x) = 0) \<Longrightarrow> sem_inv x s"
  unfolding sem_inv_def by blast

lemma sem_invE:
  assumes "sem_inv x s"
  obtains A V where "rep s A V" "states_ok A V" "current_ok s V" "crit_ok s"
    "sem_count (sems s x) \<le> max_count (sems s x)" "A (SemW x) \<noteq> [] \<longrightarrow> sem_count (sems s x) = 0"
  using assms unfolding sem_inv_def by blast

lemma sem_inv_select:
  assumes "sem_inv x s"
  shows "\<exists>s'. os_sched_select_next s = Some s' \<and> sem_inv x s'"
proof -
  obtain A V where i: "rep s A V" "states_ok A V" "current_ok s V" "crit_ok s"
    "sem_count (sems s x) \<le> max_count (sems s x)" "A (SemW x) \<noteq> [] \<longrightarrow> sem_count (sems s x) = 0"
    using assms by (rule sem_invE)
  show ?thesis
  proof (cases "\<exists>p. A (Ready p) \<noteq> []")
    case True
    define p where "p = (LEAST p. A (Ready p) \<noteq> [])"
    have p: "top_level p A" using True LeastI_ex [OF True] not_less_Least unfolding top_level_def p_def by blast
    obtain s' V' where s': "os_sched_select_next s = Some s'" "rep s' (rotated p (current_task_ptr s) A) V'"
      "states_ok (rotated p (current_task_ptr s) A) V'" "current_ok s' V'" "switch_frame s s'"
      using select_next_rep [OF i(1-3) p] by blast
    have "rotated p (current_task_ptr s) A (SemW x) = A (SemW x)" by (simp add: rotated_def)
    then show ?thesis
      using s' i(5,6) switch_frame_objects(1,2) [OF s'(5)] crit_ok_same [OF switch_frame_crit [OF s'(5)] i(4)]
      by (auto intro!: sem_invI [OF s'(2-4)])
  next
    case False
    then have "List.find (\<lambda>p. A (Ready p) \<noteq> []) [0..<8] = None" by (simp add: find_None_iff)
    then have "os_sched_select_next s = Some s" using find_highest_rep [OF i(1)] by (simp add: os_sched_select_next_def)
    then show ?thesis using assms by blast
  qed
qed

lemma sem_inv_give:
  assumes "sem_inv x s" "task_running s" "switch e = Some"
  shows "\<exists>st s'. os_sem_give e x s = Some (st, s') \<and> sem_inv x s'"
proof (cases "x = NULL")
  case True
  then show ?thesis using assms by (auto simp: os_sem_give_def)
next
  case x: False
  obtain A V where i: "rep s A V" "states_ok A V" "current_ok s V" "crit_ok s"
    "sem_count (sems s x) \<le> max_count (sems s x)" "A (SemW x) \<noteq> [] \<longrightarrow> sem_count (sems s x) = 0"
    using assms(1) by (rule sem_invE)
  obtain dc where dc: "V (current_task_ptr s) = Some dc" "runnable dc" using running_rep [OF i(1) assms(2)] by blast
  show ?thesis
  proof (cases "A (SemW x)")
    case Nil
    obtain s1 where s1: "os_sem_give e x s = Some (if sem_count (sems s x) < max_count (sems s x) then OS_OK else OS_ERR_FULL, s1)"
      "rep s1 A V" "crit_same s s1" "max_count (sems s1 x) = max_count (sems s x)"
      "sem_count (sems s1 x) = (if sem_count (sems s x) < max_count (sems s x) then sem_count (sems s x) + 1 else sem_count (sems s x))"
      "current_task_ptr s1 = current_task_ptr s" using sem_give_counts [OF i(1,4) x Nil, of e] by (elim exE conjE) (rule that)
    have "sem_count (sems s1 x) \<le> max_count (sems s1 x)" using s1(4,5) i(5) inc_le by auto
    then have "sem_inv x s1"
      using crit_ok_same [OF s1(3) i(4)] Nil current_ok_cong [OF s1(6)] i(3) by (auto intro!: sem_invI [OF s1(2) i(2)])
    then show ?thesis using s1(1) by blast
  next
    case (Cons t ts)
    obtain s1 d where s1: "V t = Some d"
      "os_sem_give e x s = map_option (Pair OS_OK) (if priority d < priority dc then os_sched_yield e s1 else Some s1)"
      "rep s1 (to_ready (SemW x) t (unat (priority d)) A) (V(t \<mapsto> woken_tcb d))"
      "states_ok (to_ready (SemW x) t (unat (priority d)) A) (V(t \<mapsto> woken_tcb d))" "crit_same s s1"
      "sem_count (sems s1 x) = sem_count (sems s x)" "max_count (sems s1 x) = max_count (sems s x)"
      "current_task_ptr s1 = current_task_ptr s"
      using sem_give_wakes [OF i(1,2,4) x dc Cons, of e] by (elim exE conjE) (rule that)
    obtain s2 where s2: "os_sched_yield e s1 = Some s2" "\<forall>A V. rep s2 A V = rep s1 A V" "sems s2 = sems s1" "crit_same s1 s2"
      "current_task_ptr s2 = current_task_ptr s1" using yield_stop [OF assms(3), of s1] by blast
    have c1: "current_ok s1 (V(t \<mapsto> woken_tcb d))" using current_ok_mono [OF i(3) s1(8), of t "woken_tcb d"] s1(1) by simp
    have "sem_inv x s1"
      using s1(6,7) i(5,6) Cons by (intro sem_invI [OF s1(3,4) c1 crit_ok_same [OF s1(5) i(4)]]) simp_all
    moreover have "sem_inv x s2"
      using s1(6,7) s2 i(5,6) Cons s1(3) current_ok_cong [OF s2(5)] c1
      by (intro sem_invI [OF _ s1(4) _ crit_ok_same [OF s2(4) crit_ok_same [OF s1(5) i(4)]]]) simp_all
    ultimately show ?thesis using s1(2) s2(1) by auto
  qed
qed

lemma sem_inv_take:
  assumes "sem_inv x s" "task_running s" "switch e = Some"
  shows "\<exists>st s'. os_sem_take e x n s = Some (st, s') \<and> sem_inv x s'"
proof (cases "x = NULL")
  case True
  then show ?thesis using assms by (auto simp: os_sem_take_def)
next
  case x: False
  obtain A V where i: "rep s A V" "states_ok A V" "current_ok s V" "crit_ok s"
    "sem_count (sems s x) \<le> max_count (sems s x)" "A (SemW x) \<noteq> [] \<longrightarrow> sem_count (sems s x) = 0"
    using assms(1) by (rule sem_invE)
  obtain dc where dc: "V (current_task_ptr s) = Some dc" "runnable dc" "current_task_ptr s \<noteq> NULL"
    using running_rep [OF i(1) assms(2)] by blast
  consider "0 < sem_count (sems s x)" | "sem_count (sems s x) = 0" "n = 0" | "sem_count (sems s x) = 0" "n \<noteq> 0"
    by (metis word_neq_0_conv)
  then show ?thesis
  proof cases
    case 1
    obtain s1 where s1: "os_sem_take e x n s = Some (OS_OK, s1)" "sem_count (sems s1 x) = sem_count (sems s x) - 1"
      "max_count (sems s1 x) = max_count (sems s x)" "crit_same s s1" "current_task_ptr s1 = current_task_ptr s" "rep s1 A V"
      using sem_take_now [OF i(4) x 1, of e n] i(1) by blast
    have "sem_count (sems s x) - 1 \<le> sem_count (sems s x)" using 1 by (simp add: word_le_nat_alt unat_minus_one)
    then have "sem_inv x s1"
      using s1 i(5,6) 1 current_ok_cong [OF s1(5)] by (intro sem_invI [OF s1(6) i(2) _ crit_ok_same [OF s1(4) i(4)]]) (auto simp: i(3))
    then show ?thesis using s1(1) by blast
  next
    case 2
    obtain s1 where s1: "os_sem_take e x 0 s = Some (OS_ERR_EMPTY, s1)" "sems s1 = sems s" "crit_same s s1"
      "current_task_ptr s1 = current_task_ptr s" "rep s1 A V" using sem_take_empty [OF i(4) x 2(1), of e] i(1) by blast
    have "sem_inv x s1"
      using s1(2) i(5,6) current_ok_cong [OF s1(4)] i(3) by (intro sem_invI [OF s1(5) i(2) _ crit_ok_same [OF s1(3) i(4)]]) auto
    then show ?thesis using s1(1) 2(2) by blast
  next
    case 3
    let ?c = "current_task_ptr s" let ?A = "park (SemW x) V ?c (unat (priority dc)) A" let ?d = "waiting (sem_mark x n) dc"
    obtain s1 where s1: "os_sem_take e x n s = resumed e (\<lambda>s. os_trace_record OS_TRACE_SEM_TAKE x (sem_count (sems s x)) s) s1"
      "rep s1 ?A (V(?c \<mapsto> ?d))" "states_ok ?A (V(?c \<mapsto> ?d))" "crit_same s s1" "sem_count (sems s1 x) = 0"
      "max_count (sems s1 x) = max_count (sems s x)" "current_task_ptr s1 = ?c"
      using sem_take_blocks [OF i(1,2,4) x dc(1,2) 3, of e] by (elim exE conjE) (rule that)
    obtain s2 where s2: "os_sched_yield e s1 = Some s2" "\<forall>A V. rep s2 A V = rep s1 A V" "sems s2 = sems s1" "crit_same s1 s2"
      "current_task_ptr s2 = current_task_ptr s1" using yield_stop [OF assms(3), of s1] by blast
    have r2: "rep s2 ?A (V(?c \<mapsto> ?d))" using s1(2) s2(2) by blast
    obtain u where u: "tcbs s2 ?c = Some u" "timed_out u = 0"
      using rep_priority [OF r2, of ?c ?d] by (auto simp: waiting_def sem_mark_def)
    let ?s3 = "os_trace_record OS_TRACE_SEM_TAKE x (sem_count (sems s2 x)) s2"
    have "os_sem_take e x n s = Some (OS_OK, ?s3)"
      using s1(1,7) s2(1,5) u dc(3) by (simp add: resumed_def os_task_get_current_def get_tcb_def)
    moreover have "current_ok ?s3 (V(?c \<mapsto> ?d))"
      using current_ok_mono [OF i(3), of ?s3 ?c ?d] s1(7) s2(5) dc(1) by (simp add: waiting_def)
    moreover have "crit_ok ?s3" using crit_ok_same [OF s2(4) crit_ok_same [OF s1(4) i(4)]] by (simp add: crit_ok_def crit_simps)
    ultimately show ?thesis
      using sem_invI [of ?s3 ?A "V(?c \<mapsto> ?d)" x] r2 s1(3,5,6) s2(3) by auto
  qed
qed

lemma sem_inv_give_isr:
  assumes "sem_inv x s" shows "\<exists>st s'. os_sem_give_from_isr x s = Some (st, s') \<and> sem_inv x s'"
proof (cases "x = NULL")
  case True
  then show ?thesis using assms by (auto simp: os_sem_give_from_isr_def)
next
  case x: False
  obtain A V where i: "rep s A V" "states_ok A V" "current_ok s V" "crit_ok s"
    "sem_count (sems s x) \<le> max_count (sems s x)" "A (SemW x) \<noteq> [] \<longrightarrow> sem_count (sems s x) = 0"
    using assms(1) by (rule sem_invE)
  obtain s1 st A1 V1 where s1: "os_sem_give_from_isr x s = Some (st, s1)" "rep s1 A1 V1" "states_ok A1 V1" "crit_same s s1"
    "max_count (sems s1 x) = max_count (sems s x)" "current_task_ptr s1 = current_task_ptr s"
    and l: "case A (SemW x) of
          [] \<Rightarrow> A1 = A \<and> V1 = V \<and> (if sem_count (sems s x) < max_count (sems s x)
                then st = OS_OK \<and> sem_count (sems s1 x) = sem_count (sems s x) + 1
                else st = OS_ERR_FULL \<and> sem_count (sems s1 x) = sem_count (sems s x))
        | t # ts \<Rightarrow> st = OS_OK \<and> sem_count (sems s1 x) = sem_count (sems s x) \<and> yield_pending s1 = 1
            \<and> (\<exists>d. V t = Some d \<and> A1 = to_ready (SemW x) t (unat (priority d)) A \<and> V1 = V(t \<mapsto> woken_tcb d))"
    using sem_give_isr [OF i(1,2,4) x] by (elim exE conjE) (rule that)
  have "current_ok s1 V1"
    using l i(3) current_ok_cong [OF s1(6)] current_ok_mono [OF i(3) s1(6)] by (auto split: list.splits)
  moreover have "sem_count (sems s1 x) \<le> max_count (sems s1 x)"
    using l i(5) s1(5) inc_le by (auto split: list.splits if_splits)
  moreover have "A1 (SemW x) \<noteq> [] \<longrightarrow> sem_count (sems s1 x) = 0"
    using l i(6) by (auto split: list.splits if_splits)
  ultimately show ?thesis using s1(1) sem_invI [OF s1(2,3) _ crit_ok_same [OF s1(4) i(4)]] by blast
qed

lemma sem_inv_take_isr:
  assumes "sem_inv x s" "os_sem_take_from_isr x s = (st, s')" shows "sem_inv x s'"
proof (cases "x = NULL")
  case True
  then show ?thesis using assms by (auto simp: os_sem_take_from_isr_def)
next
  case x: False
  obtain A V where i: "rep s A V" "states_ok A V" "current_ok s V" "crit_ok s"
    "sem_count (sems s x) \<le> max_count (sems s x)" "A (SemW x) \<noteq> [] \<longrightarrow> sem_count (sems s x) = 0"
    using assms(1) by (rule sem_invE)
  have s1: "crit_same s s'" "current_task_ptr s' = current_task_ptr s" "max_count (sems s' x) = max_count (sems s x)" "rep s' A V"
    "if sem_count (sems s x) = 0 then sem_count (sems s' x) = 0 else sem_count (sems s' x) = sem_count (sems s x) - 1"
  proof -
    obtain st1 s1 where "os_sem_take_from_isr x s = (st1, s1)" and t: "crit_same s s1" "current_task_ptr s1 = current_task_ptr s"
      "max_count (sems s1 x) = max_count (sems s x)" "\<forall>A V. rep s1 A V = rep s A V"
      "if sem_count (sems s x) = 0 then st1 = OS_ERR_EMPTY \<and> sem_count (sems s1 x) = 0
       else st1 = OS_OK \<and> sem_count (sems s1 x) = sem_count (sems s x) - 1"
      using sem_take_isr [OF i(4) x] by (elim exE conjE) (rule that)
    then have "s' = s1" using assms(2) by simp
    then show "crit_same s s'" "current_task_ptr s' = current_task_ptr s" "max_count (sems s' x) = max_count (sems s x)" "rep s' A V"
      "if sem_count (sems s x) = 0 then sem_count (sems s' x) = 0 else sem_count (sems s' x) = sem_count (sems s x) - 1"
      using t i(1) by (blast, blast, blast, blast, presburger)
  qed
  have "sem_count (sems s x) \<noteq> 0 \<Longrightarrow> sem_count (sems s x) - 1 \<le> sem_count (sems s x)"
    by (simp add: word_le_nat_alt unat_minus_one)
  then have "sem_count (sems s' x) \<le> max_count (sems s' x)" using s1(3,5) i(5) by (auto split: if_splits)
  then show ?thesis
    using s1(5) i(6) current_ok_cong [OF s1(2)] i(3)
    by (intro sem_invI [OF s1(4) i(2) _ crit_ok_same [OF s1(1) i(4)]]) (auto split: if_splits)
qed

lemma sem_step_inv:
  assumes "sem_step e x s s'" "switch e = Some" "sem_inv x s" shows "sem_inv x s'"
  using assms(1)
proof (rule sem_stepE)
  assume "os_sched_select_next s = Some s'"
  then show ?thesis using sem_inv_select [OF assms(3)] by auto
next
  fix st assume "task_running s" "os_sem_give e x s = Some (st, s')"
  then show ?thesis using sem_inv_give [OF assms(3) _ assms(2)] by auto
next
  fix n st assume "task_running s" "os_sem_take e x n s = Some (st, s')"
  then show ?thesis using sem_inv_take [OF assms(3) _ assms(2), of n] by auto
next
  fix st assume "os_sem_give_from_isr x s = Some (st, s')"
  then show ?thesis using sem_inv_give_isr [OF assms(3)] by auto
next
  fix st assume "os_sem_take_from_isr x s = (st, s')"
  then show ?thesis using sem_inv_take_isr [OF assms(3)] by auto
qed

section \<open>Properties\<close>

text \<open>
  \<open>os_sem_take\<close> by a runnable task. With a positive count it takes one and succeeds; with count 0
  and no timeout it reports \<open>OS_ERR_EMPTY\<close> and changes nothing; with count 0 and a timeout it
  moves the caller from its ready list into the semaphore's wait list, behind the waiters of the
  same or a higher priority, and hands the processor over with the interrupt mask restored.
\<close>

theorem os_sem_take_correct:
  assumes "rep s A V" "states_ok A V" "crit_ok s" "x \<noteq> NULL" "V (current_task_ptr s) = Some dc" "runnable dc"
  shows "if 0 < sem_count (sems s x)
    then \<exists>s1. os_sem_take e x n s = Some (OS_OK, s1) \<and> sem_count (sems s1 x) = sem_count (sems s x) - 1 \<and> rep s1 A V \<and> crit_same s s1
    else if n = 0 then \<exists>s1. os_sem_take e x n s = Some (OS_ERR_EMPTY, s1) \<and> sems s1 = sems s \<and> rep s1 A V \<and> crit_same s s1
    else \<exists>s1 A1 V1. os_sem_take e x n s = resumed e (\<lambda>s. os_trace_record OS_TRACE_SEM_TAKE x (sem_count (sems s x)) s) s1
       \<and> A1 = park (SemW x) V (current_task_ptr s) (unat (priority dc)) A
       \<and> V1 = V(current_task_ptr s \<mapsto> waiting (sem_mark x n) dc)
       \<and> rep s1 A1 V1 \<and> states_ok A1 V1 \<and> crit_same s s1 \<and> sem_count (sems s1 x) = 0"
proof -
  consider "0 < sem_count (sems s x)" | "sem_count (sems s x) = 0" "n = 0" | "sem_count (sems s x) = 0" "n \<noteq> 0"
    by (metis word_neq_0_conv)
  then show ?thesis
  proof cases
    case 1
    then show ?thesis using sem_take_now [OF assms(3,4) 1, of e n] assms(1) by auto
  next
    case 2
    then show ?thesis using sem_take_empty [OF assms(3,4) 2(1), of e] assms(1) by auto
  next
    case 3
    then show ?thesis using sem_take_blocks [OF assms(1-6) 3, of e] by auto
  qed
qed

lemma demo_sem: "sems demo aSem = \<lparr>sem_count = 0, max_count = 5, sem_wait_list = tSem\<rparr>" "demo_lists (SemW aSem) = [tSem]"
  "demo_tcbs tSem = Some ((demo_tcb 0x20001800 4 OS_TASK_BLOCKED 10)\<lparr>blocked_on := aSem, blocked_reason := OS_BLOCKED_ON_SEM_TAKE\<rparr>)"
  by (simp_all add: demo_def demo_lists_def demo_tcbs_def)

theorem os_sem_take_correct_witness:
  "\<exists>s1 A1 V1. os_sem_take demo_env aSem 20 demo = resumed demo_env (\<lambda>s. os_trace_record OS_TRACE_SEM_TAKE aSem (sem_count (sems s aSem)) s) s1
     \<and> rep s1 A1 V1 \<and> A1 (SemW aSem) = [tRun, tSem]"
proof -
  let ?d = "demo_tcb 0x20001000 2 OS_TASK_RUNNING 0"
  have c: "demo_tcbs (current_task_ptr demo) = Some ?d" by (simp add: demo_run)
  have w: "park (SemW aSem) demo_tcbs (current_task_ptr demo) (unat (priority ?d)) demo_lists (SemW aSem) = [tRun, tSem]"
    by (simp add: park_def demo_run demo_sem wait_ins_simps prio_of_def demo_tcb_def)
  from os_sem_take_correct [OF demo_rep demo_states_ok demo_crit_ok _ c demo_run(4), of aSem demo_env 20] w
  show ?thesis by (fastforce simp: demo_sem)
qed

text \<open>
  C30. \<open>os_sem_give\<close> by a runnable task. With tasks waiting it wakes the first, which becomes ready
  with no timeout pending, leaves the count alone, and yields exactly when the woken task has a
  higher priority than the caller. With nobody waiting it raises the count up to the maximum and
  reports \<open>OS_ERR_FULL\<close> beyond it.
\<close>

theorem os_sem_give_correct:
  assumes "rep s A V" "states_ok A V" "crit_ok s" "x \<noteq> NULL" "V (current_task_ptr s) = Some dc" "runnable dc"
  shows "case A (SemW x) of
      t # ts \<Rightarrow> \<exists>s1 d. V t = Some d
       \<and> os_sem_give e x s = map_option (Pair OS_OK) (if priority d < priority dc then os_sched_yield e s1 else Some s1)
       \<and> rep s1 (to_ready (SemW x) t (unat (priority d)) A) (V(t \<mapsto> woken_tcb d))
       \<and> states_ok (to_ready (SemW x) t (unat (priority d)) A) (V(t \<mapsto> woken_tcb d))
       \<and> crit_same s s1 \<and> sem_count (sems s1 x) = sem_count (sems s x)
    | [] \<Rightarrow> \<exists>s1. os_sem_give e x s = Some (if sem_count (sems s x) < max_count (sems s x) then OS_OK else OS_ERR_FULL, s1)
       \<and> rep s1 A V \<and> crit_same s s1
       \<and> sem_count (sems s1 x) = (if sem_count (sems s x) < max_count (sems s x) then sem_count (sems s x) + 1 else sem_count (sems s x))"
proof (cases "A (SemW x)")
  case Nil
  then show ?thesis using sem_give_counts [OF assms(1,3,4) Nil, of e] by auto
next
  case (Cons t ts)
  show ?thesis unfolding Cons list.case using sem_give_wakes [OF assms Cons, of e] by blast
qed

theorem os_sem_give_correct_witness:
  "\<exists>s1 A1 V1. os_sem_give demo_env aSem demo = Some (OS_OK, s1) \<and> rep s1 A1 V1 \<and> A1 (SemW aSem) = [] \<and> A1 (Ready 4) = [tSem]"
proof -
  let ?d = "demo_tcb 0x20001000 2 OS_TASK_RUNNING 0"
  let ?w = "(demo_tcb 0x20001800 4 OS_TASK_BLOCKED 10)\<lparr>blocked_on := aSem, blocked_reason := OS_BLOCKED_ON_SEM_TAKE\<rparr>"
  have c: "demo_tcbs (current_task_ptr demo) = Some ?d" by (simp add: demo_run)
  have p: "priority ?w = 4" "priority ?d = 2" by (simp_all add: demo_tcb_def)
  have l: "to_ready (SemW aSem) tSem 4 demo_lists (SemW aSem) = []" "to_ready (SemW aSem) tSem 4 demo_lists (Ready 4) = [tSem]"
    by (simp_all add: to_ready_def demo_lists_def)
  from os_sem_give_correct [OF demo_rep demo_states_ok demo_crit_ok _ c demo_run(4), of aSem demo_env]
  obtain s1 d where "demo_tcbs tSem = Some d"
    "os_sem_give demo_env aSem demo = map_option (Pair OS_OK) (if priority d < priority ?d then os_sched_yield demo_env s1 else Some s1)"
    "rep s1 (to_ready (SemW aSem) tSem (unat (priority d)) demo_lists) (demo_tcbs(tSem \<mapsto> woken_tcb d))"
    unfolding demo_sem(2) list.case by auto
  then have "os_sem_give demo_env aSem demo = Some (OS_OK, s1)" "rep s1 (to_ready (SemW aSem) tSem 4 demo_lists) (demo_tcbs(tSem \<mapsto> woken_tcb d))"
    using demo_sem(3) p by auto
  then show ?thesis using l by blast
qed

text \<open>
  C8. In every state that any interleaving of scheduling choices, gives and takes by tasks and gives
  and takes by interrupt handlers can reach, the count does not exceed the maximum, tasks wait only
  while the count is 0, the lists and task states are consistent and at most the current task runs;
  and in every such state the scheduler's choice returns.
\<close>

theorem sem_reachable_inv:
  assumes "(sem_step e x)\<^sup>*\<^sup>* s0 s" "switch e = Some" "sem_inv x s0"
  shows "sem_inv x s \<and> (\<exists>s'. os_sched_select_next s = Some s' \<and> sem_inv x s')"
proof -
  have "sem_inv x s" using assms by (induction rule: rtranclp_induct) (auto intro: sem_step_inv)
  then show ?thesis using sem_inv_select by blast
qed

lemma demo_sem_inv: "sem_inv aSem demo"
  by (rule sem_invI [OF demo_rep demo_states_ok demo_current_ok demo_crit_ok]) (simp_all add: demo_sem)

theorem sem_reachable_inv_witness:
  "\<exists>s. (sem_step demo_env aSem)\<^sup>*\<^sup>* demo s \<and> current_task_ptr s = tReady \<and> sem_inv aSem s"
proof -
  have sw: "switch demo_env = Some" by (simp add: demo_env_def)
  have "rotated 2 (current_task_ptr demo) demo_lists (Ready 2) = [tReady, tRun]"
    by (simp add: rotated_def demo_run demo_head)
  then obtain s where s: "os_sched_select_next demo = Some s" "current_task_ptr s = tReady"
    using select_next_rep [OF demo_rep demo_states_ok demo_current_ok demo_top_level] by force
  have "(sem_step demo_env aSem)\<^sup>*\<^sup>* demo s" using s(1) by (blast intro: sem_step.schedule)
  then show ?thesis using sem_reachable_inv [OF _ sw demo_sem_inv] s(2) by blast
qed

text \<open>
  \<open>os_sem_delete\<close> terminates however many tasks wait: every waiter leaves the wait list and
  becomes ready, in the order they waited, marked as timed out; the other lists are unchanged, the
  count and the maximum are 0 and the interrupt state is restored.
\<close>

theorem os_sem_delete_releases_all:
  assumes "rep s A V" "states_ok A V" "crit_ok s" "x \<noteq> NULL"
  shows "\<exists>s1 A1 V1. os_sem_delete x s = Some (OS_OK, s1) \<and> rep s1 A1 V1 \<and> states_ok A1 V1
     \<and> drained (SemW x) (\<lambda>c. c\<lparr>delay_ticks := 0, timed_out := 1\<rparr>) A V A1 V1
     \<and> sem_count (sems s1 x) = 0 \<and> max_count (sems s1 x) = 0 \<and> crit_same s s1"
proof -
  have r0: "rep (os_sched_enter_critical s) A V" using assms(1) by simp
  obtain s1 A1 V1 where s1: "wake_all (SemW x) (os_sched_enter_critical s) = Some s1" "frame (os_sched_enter_critical s) s1"
    "rep s1 A1 V1" "states_ok A1 V1" "drained (SemW x) (\<lambda>c. c\<lparr>delay_ticks := 0, timed_out := 1\<rparr>) A V A1 V1"
    using wake_all_rep [OF sem_waits r0 assms(2)] by blast
  have "crit_same s (os_sched_exit_critical (upd_sem x (\<lambda>y. y\<lparr>sem_count := 0, max_count := 0\<rparr>) s1))"
    by (rule section_crit_same [OF assms(3) s1(2)]) simp_all
  then show ?thesis using s1 assms(4) by (simp add: os_sem_delete_def Let_def) blast
qed

theorem os_sem_delete_releases_all_witness:
  "\<exists>s1 A1 V1. os_sem_delete aSem demo = Some (OS_OK, s1) \<and> rep s1 A1 V1 \<and> A1 (SemW aSem) = [] \<and> A1 (Ready 4) = [tSem]"
proof -
  have p: "prio_of demo_tcbs tSem = 4" "demo_lists (Ready 4) = []" by (simp_all add: prio_of_def demo_sem demo_tcb_def demo_lists_def)
  have "aSem \<noteq> NULL" by simp
  from os_sem_delete_releases_all [OF demo_rep demo_states_ok demo_crit_ok this]
  obtain s1 A1 V1 where s1: "os_sem_delete aSem demo = Some (OS_OK, s1)" "rep s1 A1 V1"
    "drained (SemW aSem) (\<lambda>c. c\<lparr>delay_ticks := 0, timed_out := 1\<rparr>) demo_lists demo_tcbs A1 V1" by (elim exE conjE) (rule that)
  have "A1 (SemW aSem) = []" "A1 (Ready 4) = demo_lists (Ready 4) @ filter (\<lambda>t. unat (prio_of demo_tcbs t) = 4) (demo_lists (SemW aSem))"
    using s1(3) unfolding drained_def by blast+
  then show ?thesis using s1(1,2) p by (auto simp: demo_sem)
qed

end
