(* ===== verification/Queue.thy ===== *)
theory Queue
  imports Wait_Lists
begin

unbundle bit_operations_syntax

text \<open>
  Message queues, \<open>kernel/queue.c\<close>: a ring buffer of \<open>max_items\<close> items of
  \<open>item_size\<close> bytes each, with a priority-ordered list of blocked senders and one of blocked
  receivers.
\<close>

section \<open>Operations\<close>

definition upd_q :: "ptr \<Rightarrow> (os_queue \<Rightarrow> os_queue) \<Rightarrow> os \<Rightarrow> os" where
  "upd_q q f s = s\<lparr>queues := (queues s)(q := f (queues s q))\<rparr>"

definition queue_block_task :: "lid \<Rightarrow> ptr \<Rightarrow> u32 \<Rightarrow> os_blocked_reason \<Rightarrow> ptr \<Rightarrow> os \<Rightarrow> os option" where
  "queue_block_task l tcb timeout reason owner s =
     block_task l (\<lambda>c. c\<lparr>blocked_on := owner, blocked_reason := reason, timed_out := 0,
                        delay_ticks := timeout\<rparr>) tcb s"

definition queue_unblock_task :: "lid \<Rightarrow> ptr \<Rightarrow> os \<Rightarrow> os option" where
  "queue_unblock_task l tcb s = unblock_task l tcb s"

definition queue_wake_task :: "lid \<Rightarrow> os \<Rightarrow> (ptr \<times> os) option" where
  "queue_wake_task l s = wake_task l s"

definition os_queue_create :: "env \<Rightarrow> ptr \<Rightarrow> u32 \<Rightarrow> u32 \<Rightarrow> os \<Rightarrow> (os_status \<times> os) option" where
  "os_queue_create e q isz maxn s =
     (if q = NULL \<or> isz = 0 \<or> maxn = 0 then Some (OS_ERR_PARAM, s)
      else do {
        let s = upd_q q (\<lambda>x. x\<lparr>buf_size := isz * maxn\<rparr>) s;
        (p, s) \<leftarrow> kmalloc e (buf_size (queues s q)) s;
        let s = upd_q q (\<lambda>x. x\<lparr>q_buffer := p\<rparr>) s;
        if p = NULL then Some (OS_ERR_NOMEM, s)
        else Some (OS_OK, upd_q q (\<lambda>x. x\<lparr>item_size := isz, max_items := maxn, q_count := 0, q_head := 0,
                                       q_tail := 0, send_wait_list := NULL, recv_wait_list := NULL\<rparr>) s)
      })"

definition os_queue_delete :: "ptr \<Rightarrow> os \<Rightarrow> (os_status \<times> os) option" where
  "os_queue_delete q s =
     (if q = NULL then Some (OS_ERR_PARAM, s)
      else do {
        let s = os_sched_enter_critical s;
        s \<leftarrow> wake_all (QSend q) s;
        s \<leftarrow> wake_all (QRecv q) s;
        s \<leftarrow> (if q_buffer (queues s q) \<noteq> NULL
              then do { s \<leftarrow> kfree (q_buffer (queues s q)) s; Some (upd_q q (\<lambda>x. x\<lparr>q_buffer := NULL\<rparr>) s) }
              else Some s);
        Some (OS_OK, os_sched_exit_critical s)
      })"

definition os_queue_reset :: "ptr \<Rightarrow> os \<Rightarrow> os_status \<times> os" where
  "os_queue_reset q s =
     (if q = NULL then (OS_ERR_PARAM, s)
      else let s = os_sched_enter_critical s in
        if send_wait_list (queues s q) \<noteq> NULL \<or> recv_wait_list (queues s q) \<noteq> NULL
        then (OS_ERR_STATE, os_sched_exit_critical s)
        else (OS_OK, os_sched_exit_critical (upd_q q (\<lambda>x. x\<lparr>q_count := 0, q_head := 0, q_tail := 0\<rparr>) s)))"

text \<open>Copying an item into the ring at the tail and out of it at the head.\<close>

definition ring_put :: "ptr \<Rightarrow> ptr \<Rightarrow> os \<Rightarrow> os" where
  "ring_put q item s =
     (let x = queues s q;
          s = s\<lparr>mem8 := memcpy (q_buffer x + q_tail x) item (unat (item_size x)) (mem8 s)\<rparr>
      in upd_q q (\<lambda>x. x\<lparr>q_tail := (q_tail x + item_size x) mod buf_size x, q_count := q_count x + 1\<rparr>) s)"

definition ring_peek :: "ptr \<Rightarrow> ptr \<Rightarrow> os \<Rightarrow> os" where
  "ring_peek q item s =
     (let x = queues s q
      in s\<lparr>mem8 := memcpy item (q_buffer x + q_head x) (unat (item_size x)) (mem8 s)\<rparr>)"

definition ring_get :: "ptr \<Rightarrow> ptr \<Rightarrow> os \<Rightarrow> os" where
  "ring_get q item s =
     upd_q q (\<lambda>x. x\<lparr>q_head := (q_head x + item_size x) mod buf_size x, q_count := q_count x - 1\<rparr>)
       (ring_peek q item s)"

definition os_queue_send :: "env \<Rightarrow> ptr \<Rightarrow> ptr \<Rightarrow> u32 \<Rightarrow> os \<Rightarrow> (os_status \<times> os) option" where
  "os_queue_send e q item timeout s =
     (if q = NULL \<or> item = NULL then Some (OS_ERR_PARAM, s)
      else do {
        let s = os_sched_enter_critical s;
        if q_count (queues s q) < max_items (queues s q)
        then do {
          let s = ring_put q item s;
          (woken, s) \<leftarrow> queue_wake_task (QRecv q) s;
          let s = os_trace_record OS_TRACE_QUEUE_SEND q (q_count (queues s q)) s;
          let s = os_sched_exit_critical s;
          s \<leftarrow> preempt_running e woken s;
          Some (OS_OK, s)
        }
        else if timeout = OS_WAIT_NONE then Some (OS_ERR_FULL, os_sched_exit_critical s)
        else do {
          s \<leftarrow> queue_block_task (QSend q) (os_task_get_current s) timeout OS_BLOCKED_ON_QUEUE_SEND q s;
          let s = os_sched_exit_critical s;
          s \<leftarrow> os_sched_yield e s;
          c \<leftarrow> get_tcb (os_task_get_current s) s;
          if timed_out c \<noteq> 0 then Some (OS_ERR_TIMEOUT, s)
          else Some (OS_OK, os_trace_record OS_TRACE_QUEUE_SEND q (q_count (queues s q)) s)
        }
      })"

definition isr_switch_if_woken :: "ptr \<Rightarrow> os \<Rightarrow> os" where
  "isr_switch_if_woken woken s = (if woken \<noteq> NULL then os_sched_request_switch_from_isr s else s)"

definition os_queue_send_from_isr :: "ptr \<Rightarrow> ptr \<Rightarrow> os \<Rightarrow> (os_status \<times> os) option" where
  "os_queue_send_from_isr q item s =
     (if q = NULL \<or> item = NULL then Some (OS_ERR_PARAM, s)
      else do {
        let s = os_sched_enter_critical s;
        if q_count (queues s q) < max_items (queues s q)
        then do {
          let s = ring_put q item s;
          (woken, s) \<leftarrow> queue_wake_task (QRecv q) s;
          let s = os_sched_exit_critical s;
          Some (OS_OK, isr_switch_if_woken woken s)
        }
        else Some (OS_ERR_FULL, os_sched_exit_critical s)
      })"

text \<open>The part the two overwrite operations share, inside the critical section.\<close>

definition ring_overwrite :: "ptr \<Rightarrow> ptr \<Rightarrow> os \<Rightarrow> (ptr \<times> os) option" where
  "ring_overwrite q item s =
     do {
       (woken, s) \<leftarrow>
         (if q_count (queues s q) = 0
          then do {
            let x = queues s q;
            let s = s\<lparr>mem8 := memcpy (q_buffer x + q_tail x) item (unat (item_size x)) (mem8 s)\<rparr>;
            let s = upd_q q (\<lambda>x. x\<lparr>q_tail := (q_tail x + item_size x) mod buf_size x, q_count := 1\<rparr>) s;
            queue_wake_task (QRecv q) s
          }
          else do {
            let x = queues s q;
            Some (NULL, s\<lparr>mem8 := memcpy (q_buffer x + q_head x) item (unat (item_size x)) (mem8 s)\<rparr>)
          });
       Some (woken, os_trace_record OS_TRACE_QUEUE_SEND q (q_count (queues s q)) s)
     }"

definition os_queue_overwrite :: "env \<Rightarrow> ptr \<Rightarrow> ptr \<Rightarrow> os \<Rightarrow> (os_status \<times> os) option" where
  "os_queue_overwrite e q item s =
     (if q = NULL \<or> item = NULL then Some (OS_ERR_PARAM, s)
      else do {
        let s = os_sched_enter_critical s;
        if max_items (queues s q) \<noteq> 1 then Some (OS_ERR_STATE, os_sched_exit_critical s)
        else do {
          (woken, s) \<leftarrow> ring_overwrite q item s;
          let s = os_sched_exit_critical s;
          s \<leftarrow> (if os_task_get_current s \<noteq> NULL then preempt_running e woken s else Some s);
          Some (OS_OK, s)
        }
      })"

definition os_queue_overwrite_from_isr :: "ptr \<Rightarrow> ptr \<Rightarrow> os \<Rightarrow> (os_status \<times> os) option" where
  "os_queue_overwrite_from_isr q item s =
     (if q = NULL \<or> item = NULL then Some (OS_ERR_PARAM, s)
      else do {
        let s = os_sched_enter_critical s;
        if max_items (queues s q) \<noteq> 1 then Some (OS_ERR_STATE, os_sched_exit_critical s)
        else do {
          (woken, s) \<leftarrow> ring_overwrite q item s;
          Some (OS_OK, isr_switch_if_woken woken (os_sched_exit_critical s))
        }
      })"

definition os_queue_receive :: "env \<Rightarrow> ptr \<Rightarrow> ptr \<Rightarrow> u32 \<Rightarrow> os \<Rightarrow> (os_status \<times> os) option" where
  "os_queue_receive e q item timeout s =
     (if q = NULL \<or> item = NULL then Some (OS_ERR_PARAM, s)
      else do {
        let s = os_sched_enter_critical s;
        if q_count (queues s q) > 0
        then do {
          let s = ring_get q item s;
          (woken, s) \<leftarrow> queue_wake_task (QSend q) s;
          let s = os_trace_record OS_TRACE_QUEUE_RECV q (q_count (queues s q)) s;
          let s = os_sched_exit_critical s;
          s \<leftarrow> preempt_running e woken s;
          Some (OS_OK, s)
        }
        else if timeout = OS_WAIT_NONE then Some (OS_ERR_EMPTY, os_sched_exit_critical s)
        else do {
          s \<leftarrow> queue_block_task (QRecv q) (os_task_get_current s) timeout OS_BLOCKED_ON_QUEUE_RECV q s;
          let s = os_sched_exit_critical s;
          s \<leftarrow> os_sched_yield e s;
          c \<leftarrow> get_tcb (os_task_get_current s) s;
          if timed_out c \<noteq> 0 then Some (OS_ERR_TIMEOUT, s)
          else Some (OS_OK, os_trace_record OS_TRACE_QUEUE_RECV q (q_count (queues s q)) s)
        }
      })"

definition os_queue_receive_from_isr :: "ptr \<Rightarrow> ptr \<Rightarrow> os \<Rightarrow> (os_status \<times> os) option" where
  "os_queue_receive_from_isr q item s =
     (if q = NULL \<or> item = NULL then Some (OS_ERR_PARAM, s)
      else do {
        let s = os_sched_enter_critical s;
        if q_count (queues s q) > 0
        then do {
          let s = ring_get q item s;
          (woken, s) \<leftarrow> queue_wake_task (QSend q) s;
          let s = os_sched_exit_critical s;
          Some (OS_OK, isr_switch_if_woken woken s)
        }
        else Some (OS_ERR_EMPTY, os_sched_exit_critical s)
      })"

definition os_queue_peek :: "ptr \<Rightarrow> ptr \<Rightarrow> os \<Rightarrow> os_status \<times> os" where
  "os_queue_peek q item s =
     (if q = NULL \<or> item = NULL then (OS_ERR_PARAM, s)
      else let s = os_sched_enter_critical s in
        if q_count (queues s q) = 0 then (OS_ERR_EMPTY, os_sched_exit_critical s)
        else (OS_OK, os_sched_exit_critical (ring_peek q item s)))"

definition os_queue_get_count :: "ptr \<Rightarrow> os \<Rightarrow> u32" where
  "os_queue_get_count q s = (if q = NULL then 0 else q_count (queues s q))"

definition os_queue_get_count_from_isr :: "ptr \<Rightarrow> os \<Rightarrow> u32 \<times> os" where
  "os_queue_get_count_from_isr q s =
     (if q = NULL then (0, s)
      else let s = os_sched_enter_critical s; n = q_count (queues s q) in (n, os_sched_exit_critical s))"

definition os_queue_get_spaces :: "ptr \<Rightarrow> os \<Rightarrow> u32" where
  "os_queue_get_spaces q s = (if q = NULL then 0 else max_items (queues s q) - q_count (queues s q))"

definition os_queue_is_empty :: "ptr \<Rightarrow> os \<Rightarrow> bool" where
  "os_queue_is_empty q s = (if q = NULL then True else q_count (queues s q) = 0)"

definition os_queue_is_full :: "ptr \<Rightarrow> os \<Rightarrow> bool" where
  "os_queue_is_full q s = (if q = NULL then False else q_count (queues s q) \<ge> max_items (queues s q))"

definition os_queue_remove_task :: "ptr \<Rightarrow> ptr \<Rightarrow> os \<Rightarrow> os option" where
  "os_queue_remove_task q tcb s =
     (if q = NULL \<or> tcb = NULL then Some s
      else do {
        let s = os_sched_enter_critical s;
        c \<leftarrow> get_tcb tcb s;
        s \<leftarrow> (if blocked_reason c = OS_BLOCKED_ON_QUEUE_SEND then queue_unblock_task (QSend q) tcb s
              else if blocked_reason c = OS_BLOCKED_ON_QUEUE_RECV then queue_unblock_task (QRecv q) tcb s
              else Some s);
        Some (os_sched_exit_critical s)
      })"

section \<open>Byte ranges\<close>

definition bytes :: "mem \<Rightarrow> ptr \<Rightarrow> nat \<Rightarrow> u8 list" where
  "bytes m p n = map (\<lambda>i. m (p + of_nat i)) [0..<n]"

definition apart :: "ptr \<Rightarrow> nat \<Rightarrow> ptr \<Rightarrow> nat \<Rightarrow> bool" where
  "apart p n q k \<longleftrightarrow> (\<forall>i < n. \<forall>j < k. p + of_nat i \<noteq> q + of_nat j)"

lemma apart_sym: "apart p n q k \<Longrightarrow> apart q k p n"
  unfolding apart_def by metis

lemma bytes_memcpy_same: "n \<le> 2 ^ 32 \<Longrightarrow> bytes (memcpy d p n m) d n = bytes m p n"
  by (simp add: bytes_def memcpy_copied)

lemma bytes_memcpy_apart:
  assumes "apart d n p k"
  shows "bytes (memcpy d q n m) p k = bytes m p k"
proof -
  have "memcpy d q n m (p + of_nat i) = m (p + of_nat i)" if "i < k" for i
  proof -
    have "\<not> unat (p + of_nat i - d) < n"
    proof
      assume l: "unat (p + of_nat i - d) < n"
      have "d + of_nat (unat (p + of_nat i - d)) = p + of_nat i" by simp
      then show False using assms l that unfolding apart_def by metis
    qed
    then show ?thesis by (simp add: memcpy_def)
  qed
  then show ?thesis by (simp add: bytes_def)
qed

section \<open>The ring as a list\<close>

definition slot :: "os_queue \<Rightarrow> nat \<Rightarrow> ptr" where
  "slot x k = q_buffer x + of_nat (k * unat (item_size x))"

definition first_slot :: "os_queue \<Rightarrow> nat" where
  "first_slot x = unat (q_head x) div unat (item_size x)"

definition queue_ok :: "os_queue \<Rightarrow> bool" where
  "queue_ok x \<longleftrightarrow>
     0 < unat (item_size x) \<and> 0 < unat (max_items x) \<and> unat (item_size x) * unat (max_items x) < 2 ^ 32
     \<and> unat (buf_size x) = unat (max_items x) * unat (item_size x) \<and> unat (q_count x) \<le> unat (max_items x)
     \<and> first_slot x < unat (max_items x) \<and> unat (q_head x) = first_slot x * unat (item_size x)
     \<and> unat (q_tail x) = ((first_slot x + unat (q_count x)) mod unat (max_items x)) * unat (item_size x)"

definition contents :: "mem \<Rightarrow> os_queue \<Rightarrow> u8 list list" where
  "contents m x =
     map (\<lambda>i. bytes m (slot x ((first_slot x + i) mod unat (max_items x))) (unat (item_size x))) [0..<unat (q_count x)]"

definition outside :: "ptr \<Rightarrow> os_queue \<Rightarrow> bool" where
  "outside p x \<longleftrightarrow> (\<forall>k < unat (max_items x). apart (slot x k) (unat (item_size x)) p (unat (item_size x)))"

lemma length_contents [simp]: "length (contents m x) = unat (q_count x)"
  by (simp add: contents_def)

lemma slots_apart:
  assumes ok: "queue_ok x" and k: "k < unat (max_items x)" "l < unat (max_items x)" "k \<noteq> l"
  shows "apart (slot x k) (unat (item_size x)) (slot x l) (unat (item_size x))"
  unfolding apart_def
proof (intro allI impI)
  fix i j assume ij: "i < unat (item_size x)" "j < unat (item_size x)"
  let ?n = "unat (item_size x)"
  have b: "a * ?n + c < 2 ^ 32" if "a < unat (max_items x)" "c < ?n" for a c
  proof -
    have "a * ?n + c < Suc a * ?n" using that by simp
    also have "\<dots> \<le> unat (max_items x) * ?n" using that by (intro mult_le_mono1) simp
    finally show ?thesis using ok by (simp add: queue_ok_def mult.commute)
  qed
  show "slot x k + of_nat i \<noteq> slot x l + of_nat j"
  proof
    assume "slot x k + of_nat i = slot x l + of_nat j"
    then have "(of_nat (k * ?n + i) :: u32) = of_nat (l * ?n + j)" by (simp add: slot_def)
    then have "k * ?n + i = l * ?n + j" using of_nat_u32_eq_iff b [OF k(1) ij(1)] b [OF k(2) ij(2)] by blast
    then have "(k * ?n + i) div ?n = (l * ?n + j) div ?n" by simp
    then show False using ij k(3) by simp
  qed
qed

lemma advance_slot:
  assumes ok: "queue_ok x" and w: "unat w = k * unat (item_size x)" "k < unat (max_items x)"
  shows "unat ((w + item_size x) mod buf_size x) = (Suc k mod unat (max_items x)) * unat (item_size x)"
proof -
  let ?n = "unat (item_size x)" let ?c = "unat (max_items x)"
  have "Suc k * ?n \<le> ?c * ?n" using w(2) by (intro mult_le_mono1) simp
  also have "\<dots> < 2 ^ 32" using ok by (simp add: queue_ok_def mult.commute)
  finally have "unat (w + item_size x) = Suc k * ?n" using w(1) by (simp add: unat_word_ariths)
  then show ?thesis using ok by (simp add: queue_ok_def unat_mod mult_mod_left [symmetric] del: mult_Suc)
qed

lemma Suc_mod_slots: "a < c \<Longrightarrow> Suc ((a + n) mod c) mod c = (a + Suc n) mod (c :: nat)"
  by (simp add: mod_Suc_eq)

lemma word_of_nat_unat_u32: "of_nat (unat (w :: u32)) = w"
  by simp

lemma tail_slot:
  assumes "queue_ok x"
  shows "q_buffer x + q_tail x = slot x ((first_slot x + unat (q_count x)) mod unat (max_items x))"
proof -
  have "unat (q_tail x) = ((first_slot x + unat (q_count x)) mod unat (max_items x)) * unat (item_size x)"
    using assms by (simp add: queue_ok_def)
  then show ?thesis by (metis slot_def word_of_nat_unat_u32)
qed

lemma contents_put:
  assumes ok: "queue_ok x" and room: "unat (q_count x) < unat (max_items x)" and out: "outside item x"
    and x': "x' = x\<lparr>q_tail := (q_tail x + item_size x) mod buf_size x, q_count := q_count x + 1\<rparr>"
    and m': "m' = memcpy (q_buffer x + q_tail x) item (unat (item_size x)) m"
  shows "queue_ok x'" "contents m' x' = contents m x @ [bytes m item (unat (item_size x))]"
proof -
  let ?n = "unat (item_size x)" let ?c = "unat (max_items x)" let ?h = "first_slot x" let ?k = "unat (q_count x)"
  let ?t = "(?h + ?k) mod ?c"
  have t: "unat (q_tail x) = ?t * ?n" "?t < ?c" using ok by (simp_all add: queue_ok_def)
  have k': "unat (q_count x + 1) = Suc ?k"
    using room unat_lt_u32 [of "max_items x"] by (simp add: unat_word_ariths)
  have h': "first_slot x' = ?h" by (simp add: x' first_slot_def)
  have "unat (q_tail x') = ((?h + Suc ?k) mod ?c) * ?n"
    using advance_slot [OF ok t] ok Suc_mod_slots [of ?h ?c ?k] by (simp add: x' queue_ok_def)
  then show ok': "queue_ok x'" using ok room k' h' by (simp add: queue_ok_def x')
  note dst = tail_slot [OF ok]
  have n: "?n \<le> 2 ^ 32" using unat_lt_u32 [of "item_size x"] by simp
  have new: "bytes m' (slot x ?t) ?n = bytes m item ?n" by (simp add: m' dst bytes_memcpy_same [OF n])
  have old: "bytes m' (slot x ((?h + i) mod ?c)) ?n = bytes m (slot x ((?h + i) mod ?c)) ?n" if "i < ?k" for i
  proof -
    have "(?h + i) mod ?c \<noteq> ?t"
    proof
      assume "(?h + i) mod ?c = ?t"
      then have "?c dvd ?k - i" using that by (metis add_diff_cancel_left mod_eq_dvd_iff_nat less_imp_le nat_add_left_cancel_le)
      then show False using that room by (auto dest!: dvd_imp_le)
    qed
    then have "apart (slot x ?t) ?n (slot x ((?h + i) mod ?c)) ?n" using slots_apart [OF ok t(2)] ok by (simp add: queue_ok_def)
    then show ?thesis by (simp add: m' dst bytes_memcpy_apart)
  qed
  have s': "slot x' = slot x" by (simp add: x' slot_def fun_eq_iff)
  show "contents m' x' = contents m x @ [bytes m item ?n]"
    using k' h' s' old new by (simp add: contents_def x')
qed

lemma contents_get:
  assumes ok: "queue_ok x" and ne: "0 < unat (q_count x)" and out: "outside item x"
    and x': "x' = x\<lparr>q_head := (q_head x + item_size x) mod buf_size x, q_count := q_count x - 1\<rparr>"
    and m': "m' = memcpy item (q_buffer x + q_head x) (unat (item_size x)) m"
  shows "queue_ok x'" "contents m x = bytes m' item (unat (item_size x)) # contents m' x'"
proof -
  let ?n = "unat (item_size x)" let ?c = "unat (max_items x)" let ?h = "first_slot x" let ?k = "unat (q_count x)"
  have h: "unat (q_head x) = ?h * ?n" "?h < ?c" using ok by (simp_all add: queue_ok_def)
  have k': "unat (q_count x - 1) = ?k - 1" using ne by (intro unat_minus_one) auto
  have hd': "unat (q_head x') = (Suc ?h mod ?c) * ?n" using advance_slot [OF ok h] by (simp add: x')
  then have h': "first_slot x' = Suc ?h mod ?c" using ok by (simp add: first_slot_def x' queue_ok_def)
  have "(Suc ?h mod ?c + (?k - 1)) mod ?c = (?h + ?k) mod ?c" 
  proof -
    have "(Suc ?h mod ?c + (?k - 1)) mod ?c = (Suc ?h + (?k - 1)) mod ?c" by (rule mod_add_left_eq)
    also have "Suc ?h + (?k - 1) = ?h + ?k" using ne by simp
    finally show ?thesis .
  qed
  then show "queue_ok x'" using ok hd' h' k' by (auto simp: queue_ok_def x')
  have src: "q_buffer x + q_head x = slot x ?h" using h(1) by (metis slot_def word_of_nat_unat_u32)
  have n: "?n \<le> 2 ^ 32" using unat_lt_u32 [of "item_size x"] by simp
  have got: "bytes m' item ?n = bytes m (slot x ?h) ?n" by (simp add: m' src bytes_memcpy_same [OF n])
  have old: "bytes m' (slot x k) ?n = bytes m (slot x k) ?n" if "k < ?c" for k
    using out that by (simp add: m' outside_def bytes_memcpy_apart apart_sym)
  have s': "slot x' = slot x" by (simp add: x' slot_def fun_eq_iff)
  have "contents m x = map (\<lambda>i. bytes m (slot x ((?h + i) mod ?c)) ?n) (0 # map Suc [0..<?k - 1])"
    using ne by (simp add: contents_def upt_conv_Cons map_Suc_upt del: upt_Suc)
  also have "\<dots> = bytes m' item ?n # map (\<lambda>i. bytes m' (slot x ((Suc ?h mod ?c + i) mod ?c)) ?n) [0..<?k - 1]"
  proof -
    have "0 < ?c" using ok by (simp add: queue_ok_def)
    then show ?thesis using h(2) got old by (simp add: comp_def mod_add_left_eq)
  qed
  also have "\<dots> = bytes m' item ?n # contents m' x'" using h' k' s' by (simp add: contents_def x')
  finally show "contents m x = bytes m' item ?n # contents m' x'" .
qed

section \<open>The interface of a bounded FIFO\<close>

text \<open>
  Values travel through places \<open>'p\<close>: \<open>put\<close> stores the value at a place, \<open>get\<close> writes the
  oldest value to a place. \<open>usable\<close> places are the ones that do not overlap the storage.
\<close>

primrec receive_into :: "('p \<Rightarrow> 's \<Rightarrow> 's) \<Rightarrow> ('p \<Rightarrow> 's \<Rightarrow> 'a) \<Rightarrow> 'p list \<Rightarrow> 's \<Rightarrow> 'a list \<times> 's" where
  "receive_into get val [] s = ([], s)"
| "receive_into get val (p # ps) s =
     (let s = get p s; (vs, s') = receive_into get val ps s in (val p s # vs, s'))"

locale bounded_fifo =
  fixes ok :: "'s \<Rightarrow> bool"
    and items :: "'s \<Rightarrow> 'a list"
    and cap :: "'s \<Rightarrow> nat"
    and val :: "'p \<Rightarrow> 's \<Rightarrow> 'a"
    and usable :: "'p \<Rightarrow> 's \<Rightarrow> bool"
    and put :: "'p \<Rightarrow> 's \<Rightarrow> 's"
    and get :: "'p \<Rightarrow> 's \<Rightarrow> 's"
  assumes put: "ok s \<Longrightarrow> usable p s \<Longrightarrow> length (items s) < cap s \<Longrightarrow>
      ok (put p s) \<and> items (put p s) = items s @ [val p s] \<and> cap (put p s) = cap s
      \<and> (\<forall>q. usable q (put p s) = usable q s) \<and> (\<forall>q. usable q s \<longrightarrow> val q (put p s) = val q s)"
    and get: "ok s \<Longrightarrow> usable p s \<Longrightarrow> items s \<noteq> [] \<Longrightarrow>
      ok (get p s) \<and> items s = val p (get p s) # items (get p s) \<and> cap (get p s) = cap s
      \<and> (\<forall>q. usable q (get p s) = usable q s)"
begin

lemma put_all:
  assumes "ok s" "list_all (\<lambda>p. usable p s) ps" "length (items s) + length ps \<le> cap s"
  shows "ok (fold put ps s) \<and> items (fold put ps s) = items s @ map (\<lambda>p. val p s) ps
     \<and> (\<forall>q. usable q (fold put ps s) = usable q s)"
  using assms
proof (induction ps arbitrary: s)
  case (Cons p ps)
  have p: "ok (put p s)" "items (put p s) = items s @ [val p s]" "cap (put p s) = cap s"
    "\<forall>q. usable q (put p s) = usable q s" "\<forall>q. usable q s \<longrightarrow> val q (put p s) = val q s"
    using put [of s p] Cons.prems by auto
  have "map (\<lambda>q. val q (put p s)) ps = map (\<lambda>q. val q s) ps"
    using p(5) Cons.prems(2) by (simp add: list_all_iff)
  moreover have "list_all (\<lambda>q. usable q (put p s)) ps" "length (items (put p s)) + length ps \<le> cap (put p s)"
    using p Cons.prems by (simp_all add: list_all_iff)
  ultimately show ?case using Cons.IH [OF p(1)] p(2,4) by simp
qed simp

lemma get_all:
  assumes "ok s" "list_all (\<lambda>p. usable p s) ps" "length ps \<le> length (items s)"
  shows "fst (receive_into get val ps s) = take (length ps) (items s)
     \<and> items (snd (receive_into get val ps s)) = drop (length ps) (items s) \<and> ok (snd (receive_into get val ps s))"
  using assms
proof (induction ps arbitrary: s)
  case (Cons p ps)
  have ne: "items s \<noteq> []" using Cons.prems(3) by auto
  have p: "ok (get p s)" "items s = val p (get p s) # items (get p s)" "\<forall>q. usable q (get p s) = usable q s"
    using get [of s p] Cons.prems ne by auto
  have "list_all (\<lambda>q. usable q (get p s)) ps" using p(3) Cons.prems(2) by (simp add: list_all_iff)
  moreover have "length ps \<le> length (items (get p s))" using p(2) Cons.prems(3) by (metis Suc_le_mono length_Cons)
  ultimately have "fst (receive_into get val ps (get p s)) = take (length ps) (items (get p s))
      \<and> items (snd (receive_into get val ps (get p s))) = drop (length ps) (items (get p s))
      \<and> ok (snd (receive_into get val ps (get p s)))" using Cons.IH [OF p(1)] by blast
  then show ?case by (subst p(2), subst p(2)) (simp add: Let_def case_prod_beta)
qed simp

text \<open>What was put into an empty FIFO comes out in the same order.\<close>

lemma first_in_first_out:
  assumes "ok s" "items s = []" "list_all (\<lambda>p. usable p s) ps" "list_all (\<lambda>p. usable p s) ds"
    "length ps \<le> cap s" "length ds = length ps"
  shows "fst (receive_into get val ds (fold put ps s)) = map (\<lambda>p. val p s) ps
     \<and> items (snd (receive_into get val ds (fold put ps s))) = []"
proof -
  have p: "ok (fold put ps s)" "items (fold put ps s) = map (\<lambda>p. val p s) ps" "\<forall>q. usable q (fold put ps s) = usable q s"
    using put_all [OF assms(1,3)] assms(2,5) by auto
  have "list_all (\<lambda>q. usable q (fold put ps s)) ds" using assms(4) p(3) by (simp add: list_all_iff)
  from get_all [OF p(1) this] show ?thesis using p(2) assms(6) by simp
qed

end

lemma ring_put_sel:
  "queues (ring_put q item s) q = (queues s q)\<lparr>q_tail := (q_tail (queues s q) + item_size (queues s q)) mod buf_size (queues s q),
     q_count := q_count (queues s q) + 1\<rparr>"
  "mem8 (ring_put q item s) = memcpy (q_buffer (queues s q) + q_tail (queues s q)) item (unat (item_size (queues s q))) (mem8 s)"
  by (simp_all add: ring_put_def upd_q_def Let_def)

lemma ring_get_sel:
  "queues (ring_get q item s) q = (queues s q)\<lparr>q_head := (q_head (queues s q) + item_size (queues s q)) mod buf_size (queues s q),
     q_count := q_count (queues s q) - 1\<rparr>"
  "mem8 (ring_get q item s) = memcpy item (q_buffer (queues s q) + q_head (queues s q)) (unat (item_size (queues s q))) (mem8 s)"
  by (simp_all add: ring_get_def ring_peek_def upd_q_def Let_def)

lemma outside_upd [simp]:
  "outside p (x\<lparr>q_tail := a, q_count := b\<rparr>) = outside p x" "outside p (x\<lparr>q_head := a, q_count := b\<rparr>) = outside p x"
  by (simp_all add: outside_def slot_def)

interpretation ring: bounded_fifo "\<lambda>s. queue_ok (queues s q)" "\<lambda>s. contents (mem8 s) (queues s q)"
  "\<lambda>s. unat (max_items (queues s q))" "\<lambda>p s. bytes (mem8 s) p (unat (item_size (queues s q)))"
  "\<lambda>p s. outside p (queues s q)" "ring_put q" "ring_get q" for q
proof
  fix s :: os and p assume a: "queue_ok (queues s q)" "outside p (queues s q)"
    "length (contents (mem8 s) (queues s q)) < unat (max_items (queues s q))"
  let ?x = "queues s q"
  let ?k = "(first_slot ?x + unat (q_count ?x)) mod unat (max_items ?x)"
  have d: "q_buffer ?x + q_tail ?x = slot ?x ?k" "?k < unat (max_items ?x)"
    using tail_slot [OF a(1)] a(1) by (simp_all add: queue_ok_def)
  have "bytes (memcpy (slot ?x ?k) p n m) r n = bytes m r n" if "outside r ?x" "n = unat (item_size ?x)" for r n m
    using that d(2) by (simp add: outside_def bytes_memcpy_apart)
  then show "queue_ok (queues (ring_put q p s) q)
      \<and> contents (mem8 (ring_put q p s)) (queues (ring_put q p s) q) = contents (mem8 s) ?x @ [bytes (mem8 s) p (unat (item_size ?x))]
      \<and> unat (max_items (queues (ring_put q p s) q)) = unat (max_items ?x)
      \<and> (\<forall>r. outside r (queues (ring_put q p s) q) = outside r ?x)
      \<and> (\<forall>r. outside r ?x \<longrightarrow> bytes (mem8 (ring_put q p s)) r (unat (item_size (queues (ring_put q p s) q)))
            = bytes (mem8 s) r (unat (item_size ?x)))"
    using contents_put(1) [OF a(1) _ a(2) refl refl] contents_put(2) [OF a(1) _ a(2) refl refl, where m = "mem8 s"] a(3) by (simp add: ring_put_sel d(1))
next
  fix s :: os and p assume a: "queue_ok (queues s q)" "outside p (queues s q)" "contents (mem8 s) (queues s q) \<noteq> []"
  have "0 < unat (q_count (queues s q))" using a(3) length_contents [of "mem8 s" "queues s q"] by (metis length_greater_0_conv)
  from contents_get(1) [OF a(1) this a(2) refl refl] contents_get(2) [OF a(1) this a(2) refl refl, where m = "mem8 s"]
  show "queue_ok (queues (ring_get q p s) q)
      \<and> contents (mem8 s) (queues s q) = bytes (mem8 (ring_get q p s)) p (unat (item_size (queues (ring_get q p s) q)))
          # contents (mem8 (ring_get q p s)) (queues (ring_get q p s) q)
      \<and> unat (max_items (queues (ring_get q p s) q)) = unat (max_items (queues s q))
      \<and> (\<forall>r. outside r (queues (ring_get q p s) q) = outside r (queues s q))"
    by (simp add: ring_get_sel)
qed

section \<open>Waiting on a queue\<close>

definition queue_mark :: "os_blocked_reason \<Rightarrow> ptr \<Rightarrow> u32 \<Rightarrow> os_tcb \<Rightarrow> os_tcb" where
  "queue_mark why q n = (\<lambda>c. c\<lparr>blocked_on := q, blocked_reason := why, timed_out := 0, delay_ticks := n\<rparr>)"

lemmas queue_wait_defs = wait_list_def data_upd_def queue_mark_def queue_block_task_def queue_unblock_task_def queue_wake_task_def

interpretation qsend: wake_object "QSend q" "queue_mark OS_BLOCKED_ON_QUEUE_SEND q"
  "\<lambda>t n. queue_block_task (QSend q) t n OS_BLOCKED_ON_QUEUE_SEND q" "queue_unblock_task (QSend q)" "queue_wake_task (QSend q)" for q
  by (rule wake_objectI) (simp_all add: queue_wait_defs)

interpretation qrecv: wake_object "QRecv q" "queue_mark OS_BLOCKED_ON_QUEUE_RECV q"
  "\<lambda>t n. queue_block_task (QRecv q) t n OS_BLOCKED_ON_QUEUE_RECV q" "queue_unblock_task (QRecv q)" "queue_wake_task (QRecv q)" for q
  by (rule wake_objectI) (simp_all add: queue_wait_defs)

lemma upd_q_rep:
  assumes "\<And>y. send_wait_list (f y) = send_wait_list y \<and> recv_wait_list (f y) = recv_wait_list y"
  shows "rep (upd_q q f s) A V = rep s A V"
proof -
  have "list_head (upd_q q f s) l = list_head s l" for l by (cases l) (simp_all add: upd_q_def assms)
  then show ?thesis by (intro rep_cong) (simp_all add: upd_q_def)
qed

lemma ring_rep [simp]: "rep (ring_put q item s) A V = rep s A V" "rep (ring_get q item s) A V = rep s A V" "rep (ring_peek q item s) A V = rep s A V"
  by (simp_all add: ring_put_def ring_get_def ring_peek_def Let_def upd_q_rep)

lemma ring_crit [simp]:
  "critical_nesting (ring_put q item s) = critical_nesting s" "primask (ring_put q item s) = primask s"
  "saved_mask (ring_put q item s) = saved_mask s" "current_task_ptr (ring_put q item s) = current_task_ptr s"
  "critical_nesting (ring_get q item s) = critical_nesting s" "primask (ring_get q item s) = primask s"
  "saved_mask (ring_get q item s) = saved_mask s" "current_task_ptr (ring_get q item s) = current_task_ptr s"
  by (simp_all add: ring_put_def ring_get_def ring_peek_def upd_q_def Let_def)

lemma frame_queue:
  assumes "frame s s'"
  shows "contents (mem8 s') (queues s' q) = contents (mem8 s) (queues s q)" "queue_ok (queues s' q) = queue_ok (queues s q)"
proof -
  note f = frame_objects(1-7) [OF assms, of q] frame_os(2) [OF assms]
  have "first_slot (queues s' q) = first_slot (queues s q)" by (simp add: first_slot_def f)
  moreover have "slot (queues s' q) = slot (queues s q)" by (simp add: slot_def f fun_eq_iff)
  ultimately show "contents (mem8 s') (queues s' q) = contents (mem8 s) (queues s q)" "queue_ok (queues s' q) = queue_ok (queues s q)"
    by (simp_all add: contents_def queue_ok_def f)
qed

text \<open>A change of the ring inside a critical section, followed by a wake on the other side.\<close>

definition after_wake :: "lid \<Rightarrow> tlists \<Rightarrow> (ptr \<rightharpoonup> os_tcb) \<Rightarrow> ptr \<Rightarrow> tlists \<Rightarrow> (ptr \<rightharpoonup> os_tcb) \<Rightarrow> bool" where
  "after_wake l A V t A' V' \<longleftrightarrow> (case A l of
       [] \<Rightarrow> t = NULL \<and> A' = A \<and> V' = V
     | u # us \<Rightarrow> t = u \<and> (\<exists>d. V u = Some d \<and> A' = to_ready l u (unat (priority d)) A \<and> V' = V(u \<mapsto> woken_tcb d)))"

lemma queue_wake_rep:
  assumes r: "rep s A V" and ok: "states_ok A V" and l: "l = QSend q \<or> l = QRecv q"
  shows "\<exists>t s1 A1 V1. queue_wake_task l s = Some (t, s1) \<and> frame s s1 \<and> rep s1 A1 V1 \<and> states_ok A1 V1 \<and> after_wake l A V t A1 V1"
proof (cases "A l")
  case Nil
  then have "queue_wake_task l s = Some (NULL, s)" using qsend.wake_none [OF r] qrecv.wake_none [OF r] l by auto
  then show ?thesis using r ok Nil by (intro exI [of _ NULL] exI [of _ s] exI [of _ A] exI [of _ V]) (simp add: after_wake_def)
next
  case (Cons t ts)
  obtain s1 d where "V t = Some d" "queue_wake_task l s = Some (t, s1)" "frame s s1"
    "rep s1 (to_ready l t (unat (priority d)) A) (V(t \<mapsto> woken_tcb d))" "states_ok (to_ready l t (unat (priority d)) A) (V(t \<mapsto> woken_tcb d))"
    using qsend.wake_consistent [OF r ok, of q t ts] qrecv.wake_consistent [OF r ok, of q t ts] l Cons by blast
  then show ?thesis using Cons by (intro exI [of _ t] exI [of _ s1] exI conjI) (auto simp: after_wake_def)
qed

text \<open>The yield at the end of a send or receive.\<close>

definition preempts :: "lid \<Rightarrow> tlists \<Rightarrow> (ptr \<rightharpoonup> os_tcb) \<Rightarrow> os_tcb \<Rightarrow> bool" where
  "preempts l A V dc \<longleftrightarrow> (case A l of [] \<Rightarrow> False
     | u # us \<Rightarrow> prio_of V u < priority dc \<and> tcb_state dc = OS_TASK_RUNNING)"

lemma preempt_after_wake:
  assumes r: "rep s A V" and ok: "states_ok A V" and c: "V c = Some dc" "runnable dc" and l: "wait_list l"
    and w: "after_wake l A V t A1 V1" and r1: "rep s1 A1 V1" and cs: "current_task_ptr s1 = c"
  shows "preempt_running e t s1 = (if preempts l A V dc then os_sched_yield e s1 else Some s1)"
proof (cases "A l")
  case Nil
  then show ?thesis using w by (simp add: after_wake_def preempts_def preempt_running_def)
next
  case (Cons u us)
  obtain d where d: "V u = Some d" "t = u" "V1 = V(u \<mapsto> woken_tcb d)" using w Cons by (auto simp: after_wake_def)
  have u: "u \<noteq> NULL" using rep_member(1) [OF r, of u l] Cons by simp
  have cu: "c \<noteq> u" "c \<noteq> NULL" using runnable_not_waiting [OF r ok c, of u l] Cons l by simp_all
  have "preempt_running e u s1 = (if priority (woken_tcb d) < priority dc \<and> tcb_state dc = OS_TASK_RUNNING then os_sched_yield e s1 else Some s1)"
    using preempt_running_rep [OF r1 u, of "woken_tcb d" dc] d(3) cu cs c(1) by simp
  then show ?thesis using d Cons by (simp add: preempts_def prio_of_def)
qed

lemma queue_send_run:
  assumes r: "rep s A V" and ok: "states_ok A V" and c: "crit_ok s" and cur: "V (current_task_ptr s) = Some dc" "runnable dc"
    and q: "q \<noteq> NULL" "item \<noteq> NULL" "q_count (queues s q) < max_items (queues s q)"
  shows "\<exists>s1 t A1 V1. os_queue_send e q item n s = map_option (Pair OS_OK) (if preempts (QRecv q) A V dc then os_sched_yield e s1 else Some s1)
     \<and> after_wake (QRecv q) A V t A1 V1 \<and> rep s1 A1 V1 \<and> states_ok A1 V1 \<and> crit_same s s1 \<and> current_task_ptr s1 = current_task_ptr s
     \<and> (\<exists>s0. frame (ring_put q item (os_sched_enter_critical s)) s0 \<and> queues s1 = queues s0 \<and> mem8 s1 = mem8 s0)"
proof -
  let ?s = "ring_put q item (os_sched_enter_critical s)"
  have r0: "rep ?s A V" using r by simp
  obtain t s1 A1 V1 where s1: "queue_wake_task (QRecv q) ?s = Some (t, s1)" "frame ?s s1" "rep s1 A1 V1" "states_ok A1 V1"
    "after_wake (QRecv q) A V t A1 V1" using queue_wake_rep [OF r0 ok, of "QRecv q" q] by blast
  let ?s2 = "os_sched_exit_critical (os_trace_record OS_TRACE_QUEUE_SEND q (q_count (queues s1 q)) s1)"
  have r2: "rep ?s2 A1 V1" using s1(3) by simp
  have cs: "current_task_ptr ?s2 = current_task_ptr s" using frame_os(10) [OF s1(2)] by simp
  have "os_queue_send e q item n s = map_option (Pair OS_OK) (preempt_running e t ?s2)"
    using q s1(1) by (simp add: os_queue_send_def Let_def map_conv_bind_option comp_def)
  also have "preempt_running e t ?s2 = (if preempts (QRecv q) A V dc then os_sched_yield e ?s2 else Some ?s2)"
    by (rule preempt_after_wake [OF r ok cur _ s1(5) r2 cs]) (simp add: wait_list_def)
  finally have "os_queue_send e q item n s = map_option (Pair OS_OK) (if preempts (QRecv q) A V dc then os_sched_yield e ?s2 else Some ?s2)" .
  moreover have "crit_same s ?s2"
    by (rule crit_same_via [OF c _ s1(2)]) (simp_all add: crit_same_def)
  ultimately show ?thesis
    using r2 cs s1(2,4,5) by (intro exI [of _ ?s2] exI [of _ t] exI [of _ A1] exI [of _ V1]) (auto intro!: exI [of _ s1])
qed

lemma queue_send_room:
  assumes r: "rep s A V" and ok: "states_ok A V" and c: "crit_ok s" and cur: "V (current_task_ptr s) = Some dc" "runnable dc"
    and q: "q \<noteq> NULL" "item \<noteq> NULL" "queue_ok (queues s q)" "outside item (queues s q)" "q_count (queues s q) < max_items (queues s q)"
  shows "\<exists>s1 t A1 V1. os_queue_send e q item n s = map_option (Pair OS_OK) (if preempts (QRecv q) A V dc then os_sched_yield e s1 else Some s1)
     \<and> after_wake (QRecv q) A V t A1 V1 \<and> rep s1 A1 V1 \<and> states_ok A1 V1 \<and> crit_same s s1
     \<and> contents (mem8 s1) (queues s1 q) = contents (mem8 s) (queues s q) @ [bytes (mem8 s) item (unat (item_size (queues s q)))]
     \<and> queue_ok (queues s1 q) \<and> current_task_ptr s1 = current_task_ptr s"
proof -
  let ?s = "ring_put q item (os_sched_enter_critical s)"
  obtain s1 t A1 V1 s0 where s1: "os_queue_send e q item n s = map_option (Pair OS_OK) (if preempts (QRecv q) A V dc then os_sched_yield e s1 else Some s1)"
    "after_wake (QRecv q) A V t A1 V1" "rep s1 A1 V1" "states_ok A1 V1" "crit_same s s1" "current_task_ptr s1 = current_task_ptr s"
    "frame ?s s0" "queues s1 = queues s0" "mem8 s1 = mem8 s0"
    using queue_send_run [OF r ok c cur q(1,2,5), of e n] by (elim exE conjE) (rule that)
  have lt: "length (contents (mem8 s) (queues s q)) < unat (max_items (queues s q))" using q(5) by (simp add: word_less_nat_alt)
  have p: "queue_ok (queues ?s q)"
    "contents (mem8 ?s) (queues ?s q) = contents (mem8 s) (queues s q) @ [bytes (mem8 s) item (unat (item_size (queues s q)))]"
    using ring.put [of "os_sched_enter_critical s" q item] q(3,4) lt by simp_all
  show ?thesis
    using s1(1-6,8,9) p frame_queue [OF s1(7), of q] by (intro exI [of _ s1] exI [of _ t] exI [of _ A1] exI [of _ V1]) simp
qed

lemma queue_receive_run:
  assumes r: "rep s A V" and ok: "states_ok A V" and c: "crit_ok s" and cur: "V (current_task_ptr s) = Some dc" "runnable dc"
    and q: "q \<noteq> NULL" "item \<noteq> NULL" "0 < q_count (queues s q)"
  shows "\<exists>s1 t A1 V1. os_queue_receive e q item n s = map_option (Pair OS_OK) (if preempts (QSend q) A V dc then os_sched_yield e s1 else Some s1)
     \<and> after_wake (QSend q) A V t A1 V1 \<and> rep s1 A1 V1 \<and> states_ok A1 V1 \<and> crit_same s s1 \<and> current_task_ptr s1 = current_task_ptr s
     \<and> (\<exists>s0. frame (ring_get q item (os_sched_enter_critical s)) s0 \<and> queues s1 = queues s0 \<and> mem8 s1 = mem8 s0)"
proof -
  let ?s = "ring_get q item (os_sched_enter_critical s)"
  have r0: "rep ?s A V" using r by simp
  obtain t s1 A1 V1 where s1: "queue_wake_task (QSend q) ?s = Some (t, s1)" "frame ?s s1" "rep s1 A1 V1" "states_ok A1 V1"
    "after_wake (QSend q) A V t A1 V1" using queue_wake_rep [OF r0 ok, of "QSend q" q] by blast
  let ?s2 = "os_sched_exit_critical (os_trace_record OS_TRACE_QUEUE_RECV q (q_count (queues s1 q)) s1)"
  have r2: "rep ?s2 A1 V1" using s1(3) by simp
  have cs: "current_task_ptr ?s2 = current_task_ptr s" using frame_os(10) [OF s1(2)] by simp
  have "os_queue_receive e q item n s = map_option (Pair OS_OK) (preempt_running e t ?s2)"
    using q s1(1) by (simp add: os_queue_receive_def Let_def map_conv_bind_option comp_def)
  also have "preempt_running e t ?s2 = (if preempts (QSend q) A V dc then os_sched_yield e ?s2 else Some ?s2)"
    by (rule preempt_after_wake [OF r ok cur _ s1(5) r2 cs]) (simp add: wait_list_def)
  finally have "os_queue_receive e q item n s = map_option (Pair OS_OK) (if preempts (QSend q) A V dc then os_sched_yield e ?s2 else Some ?s2)" .
  moreover have "crit_same s ?s2"
    by (rule crit_same_via [OF c _ s1(2)]) (simp_all add: crit_same_def)
  ultimately show ?thesis
    using r2 cs s1(2,4,5) by (intro exI [of _ ?s2] exI [of _ t] exI [of _ A1] exI [of _ V1]) (auto intro!: exI [of _ s1])
qed

lemma queue_receive_some:
  assumes r: "rep s A V" and ok: "states_ok A V" and c: "crit_ok s" and cur: "V (current_task_ptr s) = Some dc" "runnable dc"
    and q: "q \<noteq> NULL" "item \<noteq> NULL" "queue_ok (queues s q)" "outside item (queues s q)" "0 < q_count (queues s q)"
  shows "\<exists>s1 t A1 V1. os_queue_receive e q item n s = map_option (Pair OS_OK) (if preempts (QSend q) A V dc then os_sched_yield e s1 else Some s1)
     \<and> after_wake (QSend q) A V t A1 V1 \<and> rep s1 A1 V1 \<and> states_ok A1 V1 \<and> crit_same s s1
     \<and> contents (mem8 s) (queues s q) = bytes (mem8 s1) item (unat (item_size (queues s q))) # contents (mem8 s1) (queues s1 q)
     \<and> queue_ok (queues s1 q) \<and> current_task_ptr s1 = current_task_ptr s"
proof -
  let ?s = "ring_get q item (os_sched_enter_critical s)"
  obtain s1 t A1 V1 s0 where s1: "os_queue_receive e q item n s = map_option (Pair OS_OK) (if preempts (QSend q) A V dc then os_sched_yield e s1 else Some s1)"
    "after_wake (QSend q) A V t A1 V1" "rep s1 A1 V1" "states_ok A1 V1" "crit_same s s1" "current_task_ptr s1 = current_task_ptr s"
    "frame ?s s0" "queues s1 = queues s0" "mem8 s1 = mem8 s0"
    using queue_receive_run [OF r ok c cur q(1,2,5), of e n] by (elim exE conjE) (rule that)
  have "contents (mem8 s) (queues s q) \<noteq> []"
    using q(5) length_contents [of "mem8 s" "queues s q"] by (metis list.size(3) word_gt_0_unat less_irrefl)
  then have p: "queue_ok (queues ?s q)"
    "contents (mem8 s) (queues s q) = bytes (mem8 ?s) item (unat (item_size (queues s q))) # contents (mem8 ?s) (queues ?s q)"
    using ring.get [of "os_sched_enter_critical s" q item] q(3,4) by (simp_all add: ring_get_sel(1))
  show ?thesis
    using s1(1-6,8,9) p frame_queue [OF s1(7), of q] frame_os(2) [OF s1(7)] by (intro exI [of _ s1] exI [of _ t] exI [of _ A1] exI [of _ V1]) simp
qed

text \<open>A place behind the buffer is outside it.\<close>

lemma outside_beyond:
  assumes "unat (q_buffer x) + unat (max_items x) * unat (item_size x) \<le> unat p" "unat p + unat (item_size x) \<le> 2 ^ 32"
  shows "outside p x"
  unfolding outside_def apart_def
proof (intro allI impI)
  fix k i j assume k: "k < unat (max_items x)" and i: "i < unat (item_size x)" and j: "j < unat (item_size x)"
  let ?n = "unat (item_size x)"
  have "k * ?n + i < Suc k * ?n" using i by simp
  also have "\<dots> \<le> unat (max_items x) * ?n" using k by (intro mult_le_mono1) simp
  finally have a: "unat (q_buffer x) + (k * ?n + i) < unat p" using assms(1) by linarith
  have b: "unat p + j < 2 ^ 32" using assms(2) j by linarith
  have "unat (slot x k + of_nat i) = unat (q_buffer x) + (k * ?n + i)"
    using a b unfolding slot_def by (simp add: unat_word_ariths unat_of_nat add.assoc flip: of_nat_add of_nat_mult)
  moreover have "unat (p + of_nat j) = unat p + j" using b by (simp add: unat_word_ariths unat_of_nat)
  ultimately show "slot x k + of_nat i \<noteq> p + of_nat j" using a by (metis not_add_less1)
qed

lemma queue_block_section:
  assumes r: "rep s A V" and ok: "states_ok A V" and c: "crit_ok s" and cur: "V (current_task_ptr s) = Some dc" "runnable dc"
    and l: "l = QSend q \<and> why = OS_BLOCKED_ON_QUEUE_SEND \<or> l = QRecv q \<and> why = OS_BLOCKED_ON_QUEUE_RECV"
  shows "\<exists>s1. queue_block_task l (current_task_ptr s) n why q (os_sched_enter_critical s) = Some s1
     \<and> rep s1 (park l V (current_task_ptr s) (unat (priority dc)) A) (V(current_task_ptr s \<mapsto> waiting (queue_mark why q n) dc))
     \<and> states_ok (park l V (current_task_ptr s) (unat (priority dc)) A) (V(current_task_ptr s \<mapsto> waiting (queue_mark why q n) dc))
     \<and> frame (os_sched_enter_critical s) s1 \<and> crit_same s (os_sched_exit_critical s1)"
proof -
  have r0: "rep (os_sched_enter_critical s) A V" using r by simp
  obtain s1 where s1: "queue_block_task l (current_task_ptr s) n why q (os_sched_enter_critical s) = Some s1"
    "frame (os_sched_enter_critical s) s1"
    "rep s1 (park l V (current_task_ptr s) (unat (priority dc)) A) (V(current_task_ptr s \<mapsto> waiting (queue_mark why q n) dc))"
    "states_ok (park l V (current_task_ptr s) (unat (priority dc)) A) (V(current_task_ptr s \<mapsto> waiting (queue_mark why q n) dc))"
    using qsend.block_consistent [OF r0 ok cur, of q n] qrecv.block_consistent [OF r0 ok cur, of q n] l by blast
  moreover have "crit_same s (os_sched_exit_critical s1)" by (rule section_crit_same [OF c s1(2)]) simp_all
  ultimately show ?thesis by blast
qed

lemma queue_send_full:
  assumes "rep s A V" "states_ok A V" "crit_ok s" "V (current_task_ptr s) = Some dc" "runnable dc"
    and q: "q \<noteq> NULL" "item \<noteq> NULL" "max_items (queues s q) \<le> q_count (queues s q)" and n: "n \<noteq> 0"
  shows "\<exists>s1. os_queue_send e q item n s = resumed e (\<lambda>s. os_trace_record OS_TRACE_QUEUE_SEND q (q_count (queues s q)) s) s1
     \<and> rep s1 (park (QSend q) V (current_task_ptr s) (unat (priority dc)) A)
         (V(current_task_ptr s \<mapsto> waiting (queue_mark OS_BLOCKED_ON_QUEUE_SEND q n) dc))
     \<and> states_ok (park (QSend q) V (current_task_ptr s) (unat (priority dc)) A)
         (V(current_task_ptr s \<mapsto> waiting (queue_mark OS_BLOCKED_ON_QUEUE_SEND q n) dc))
     \<and> crit_same s s1 \<and> current_task_ptr s1 = current_task_ptr s \<and> mem8 s1 = mem8 s \<and> contents (mem8 s1) (queues s1 q) = contents (mem8 s) (queues s q)"
proof -
  obtain s1 where s1: "queue_block_task (QSend q) (current_task_ptr s) n OS_BLOCKED_ON_QUEUE_SEND q (os_sched_enter_critical s) = Some s1"
    "rep s1 (park (QSend q) V (current_task_ptr s) (unat (priority dc)) A)
         (V(current_task_ptr s \<mapsto> waiting (queue_mark OS_BLOCKED_ON_QUEUE_SEND q n) dc))"
    "states_ok (park (QSend q) V (current_task_ptr s) (unat (priority dc)) A)
         (V(current_task_ptr s \<mapsto> waiting (queue_mark OS_BLOCKED_ON_QUEUE_SEND q n) dc))"
    "frame (os_sched_enter_critical s) s1" "crit_same s (os_sched_exit_critical s1)"
    using queue_block_section [OF assms(1-5), of "QSend q" q OS_BLOCKED_ON_QUEUE_SEND n] by blast
  have "os_queue_send e q item n s
      = resumed e (\<lambda>s. os_trace_record OS_TRACE_QUEUE_SEND q (q_count (queues s q)) s) (os_sched_exit_critical s1)"
    using q n s1(1) by (simp add: os_queue_send_def resumed_def os_task_get_current_def Let_def not_less [symmetric])
  then show ?thesis
    using s1 frame_queue(1) [OF s1(4), of q] frame_os(2,10) [OF s1(4)] by (intro exI [of _ "os_sched_exit_critical s1"]) simp
qed

lemma queue_receive_none:
  assumes "rep s A V" "states_ok A V" "crit_ok s" "V (current_task_ptr s) = Some dc" "runnable dc"
    and q: "q \<noteq> NULL" "item \<noteq> NULL" "q_count (queues s q) = 0" and n: "n \<noteq> 0"
  shows "\<exists>s1. os_queue_receive e q item n s = resumed e (\<lambda>s. os_trace_record OS_TRACE_QUEUE_RECV q (q_count (queues s q)) s) s1
     \<and> rep s1 (park (QRecv q) V (current_task_ptr s) (unat (priority dc)) A)
         (V(current_task_ptr s \<mapsto> waiting (queue_mark OS_BLOCKED_ON_QUEUE_RECV q n) dc))
     \<and> states_ok (park (QRecv q) V (current_task_ptr s) (unat (priority dc)) A)
         (V(current_task_ptr s \<mapsto> waiting (queue_mark OS_BLOCKED_ON_QUEUE_RECV q n) dc))
     \<and> crit_same s s1 \<and> current_task_ptr s1 = current_task_ptr s \<and> mem8 s1 = mem8 s \<and> contents (mem8 s1) (queues s1 q) = contents (mem8 s) (queues s q)"
proof -
  obtain s1 where s1: "queue_block_task (QRecv q) (current_task_ptr s) n OS_BLOCKED_ON_QUEUE_RECV q (os_sched_enter_critical s) = Some s1"
    "rep s1 (park (QRecv q) V (current_task_ptr s) (unat (priority dc)) A)
         (V(current_task_ptr s \<mapsto> waiting (queue_mark OS_BLOCKED_ON_QUEUE_RECV q n) dc))"
    "states_ok (park (QRecv q) V (current_task_ptr s) (unat (priority dc)) A)
         (V(current_task_ptr s \<mapsto> waiting (queue_mark OS_BLOCKED_ON_QUEUE_RECV q n) dc))"
    "frame (os_sched_enter_critical s) s1" "crit_same s (os_sched_exit_critical s1)"
    using queue_block_section [OF assms(1-5), of "QRecv q" q OS_BLOCKED_ON_QUEUE_RECV n] by blast
  have "os_queue_receive e q item n s
      = resumed e (\<lambda>s. os_trace_record OS_TRACE_QUEUE_RECV q (q_count (queues s q)) s) (os_sched_exit_critical s1)"
    using q n s1(1) by (simp add: os_queue_receive_def resumed_def os_task_get_current_def Let_def)
  then show ?thesis
    using s1 frame_queue(1) [OF s1(4), of q] frame_os(2,10) [OF s1(4)] by (intro exI [of _ "os_sched_exit_critical s1"]) simp
qed

lemma resumed_stop:
  assumes "switch e = Some" "rep s A V" "current_task_ptr s \<noteq> NULL" "V (current_task_ptr s) = Some d" "timed_out d = 0"
  shows "\<exists>s2. os_sched_yield e s = Some s2 \<and> resumed e fin s = Some (OS_OK, fin s2)"
proof -
  obtain s2 where s2: "os_sched_yield e s = Some s2" "\<forall>A V. rep s2 A V = rep s A V" "current_task_ptr s2 = current_task_ptr s"
    using yield_stop [OF assms(1), of s] by blast
  then have "rep s2 A V" using assms(2) by blast
  from rep_priority [OF this assms(4)] show ?thesis
    using s2 assms(3,5) by (auto simp: resumed_def os_task_get_current_def get_tcb_def)
qed

lemma resumed_ok:
  "resumed e fin s = Some (OS_OK, s') \<Longrightarrow> \<exists>s2. os_sched_yield e s = Some s2 \<and> s' = fin s2"
  by (auto simp: resumed_def bind_Some_iff split: if_splits)

section \<open>Properties\<close>

text \<open>
  C10. \<open>os_queue_send\<close> to a queue with room, by a runnable task: a copy of the item becomes the last
  element of the queue, the ring stays well-formed, the first waiting receiver (if any) becomes
  ready, and the caller yields exactly when that receiver has a higher priority.
\<close>

theorem os_queue_send_correct:
  assumes "rep s A V" "states_ok A V" "crit_ok s" "V (current_task_ptr s) = Some dc" "runnable dc" "q \<noteq> NULL" "item \<noteq> NULL"
    "queue_ok (queues s q)" "outside item (queues s q)" "q_count (queues s q) < max_items (queues s q)"
  shows "\<exists>s1 t A1 V1. os_queue_send e q item n s = map_option (Pair OS_OK) (if preempts (QRecv q) A V dc then os_sched_yield e s1 else Some s1)
     \<and> after_wake (QRecv q) A V t A1 V1 \<and> rep s1 A1 V1 \<and> states_ok A1 V1 \<and> crit_same s s1 \<and> queue_ok (queues s1 q)
     \<and> contents (mem8 s1) (queues s1 q) = contents (mem8 s) (queues s q) @ [bytes (mem8 s) item (unat (item_size (queues s q)))]"
  using queue_send_room [OF assms, of e n] by blast

definition demo_queue :: os where
  "demo_queue = (upd_q aQ (\<lambda>x. x\<lparr>q_buffer := 0x20003000, item_size := 4, max_items := 2, q_count := 1, q_head := 4,
     q_tail := 0, buf_size := 8\<rparr>) demo)\<lparr>mem8 := (\<lambda>a. ucast a)\<rparr>"

lemma demo_queue_rep: "rep demo_queue demo_lists demo_tcbs"
  using demo_rep by (simp add: demo_queue_def upd_q_rep)

lemma demo_queue_state:
  "crit_ok demo_queue" "current_task_ptr demo_queue = tRun" "demo_tcbs (current_task_ptr demo_queue) = Some (demo_tcb 0x20001000 2 OS_TASK_RUNNING 0)"
  "queues demo_queue aQ = \<lparr>q_buffer = 0x20003000, item_size = 4, max_items = 2, q_count = 1, q_head = 4, q_tail = 0, buf_size = 8,
     send_wait_list = 0, recv_wait_list = 0\<rparr>" "mem8 demo_queue = ucast"
  using demo_crit_ok demo_run by (simp_all add: demo_queue_def upd_q_def crit_ok_def demo_def)

lemma demo_queue_ok: "queue_ok (queues demo_queue aQ)" "outside 0x20004000 (queues demo_queue aQ)"
proof -
  show "queue_ok (queues demo_queue aQ)" by (simp add: queue_ok_def demo_queue_state first_slot_def)
  show "outside 0x20004000 (queues demo_queue aQ)" by (rule outside_beyond) (simp_all add: demo_queue_state)
qed

lemma demo_queue_calls:
  "aQ \<noteq> NULL" "(0x20004000 :: ptr) \<noteq> NULL" "q_count (queues demo_queue aQ) < max_items (queues demo_queue aQ)"
  "0 < q_count (queues demo_queue aQ)" "\<not> preempts (QRecv aQ) demo_lists demo_tcbs d" "\<not> preempts (QSend aQ) demo_lists demo_tcbs d"
  by (simp_all add: demo_queue_state preempts_def demo_lists_def)

lemma demo_queue_values:
  "contents (mem8 demo_queue) (queues demo_queue aQ) = [[4, 5, 6, 7]]" "bytes (mem8 demo_queue) 0x20004000 4 = [0, 1, 2, 3]"
  by (simp_all add: contents_def demo_queue_state bytes_def slot_def first_slot_def upt_rec)

theorem os_queue_send_correct_witness:
  "\<exists>s1. os_queue_send demo_env aQ 0x20004000 0 demo_queue = Some (OS_OK, s1)
     \<and> contents (mem8 s1) (queues s1 aQ) = [[4, 5, 6, 7], [0, 1, 2, 3]]"
proof -
  have n: "unat (item_size (queues demo_queue aQ)) = 4" by (simp add: demo_queue_state)
  from os_queue_send_correct [OF demo_queue_rep demo_states_ok demo_queue_state(1,3) demo_run(4) demo_queue_calls(1,2) demo_queue_ok demo_queue_calls(3), of demo_env 0]
  show ?thesis by (auto simp: demo_queue_calls demo_queue_values n)
qed

text \<open>
  C11. \<open>os_queue_receive\<close> from a queue that holds items, by a runnable task: the oldest item is copied
  to the caller and leaves the queue, the ring stays well-formed, the first waiting sender (if any)
  becomes ready, and the caller yields exactly when that sender has a higher priority.
\<close>

theorem os_queue_receive_correct:
  assumes "rep s A V" "states_ok A V" "crit_ok s" "V (current_task_ptr s) = Some dc" "runnable dc" "q \<noteq> NULL" "item \<noteq> NULL"
    "queue_ok (queues s q)" "outside item (queues s q)" "0 < q_count (queues s q)"
  shows "\<exists>s1 t A1 V1. os_queue_receive e q item n s = map_option (Pair OS_OK) (if preempts (QSend q) A V dc then os_sched_yield e s1 else Some s1)
     \<and> after_wake (QSend q) A V t A1 V1 \<and> rep s1 A1 V1 \<and> states_ok A1 V1 \<and> crit_same s s1 \<and> queue_ok (queues s1 q)
     \<and> contents (mem8 s) (queues s q) = bytes (mem8 s1) item (unat (item_size (queues s q))) # contents (mem8 s1) (queues s1 q)"
  using queue_receive_some [OF assms, of e n] by blast

theorem os_queue_receive_correct_witness:
  "\<exists>s1. os_queue_receive demo_env aQ 0x20004000 0 demo_queue = Some (OS_OK, s1)
     \<and> bytes (mem8 s1) 0x20004000 4 = [4, 5, 6, 7] \<and> contents (mem8 s1) (queues s1 aQ) = []"
proof -
  have n: "unat (item_size (queues demo_queue aQ)) = 4" by (simp add: demo_queue_state)
  from os_queue_receive_correct [OF demo_queue_rep demo_states_ok demo_queue_state(1,3) demo_run(4) demo_queue_calls(1,2) demo_queue_ok demo_queue_calls(4), of demo_env 0]
  show ?thesis by (auto simp: demo_queue_calls demo_queue_values n)
qed

text \<open>
  First in, first out: items copied into an empty ring from places outside it, up to its
  capacity, are read back in the same order and unchanged, and the ring is empty again.
\<close>

theorem queue_fifo:
  assumes "queue_ok (queues s q)" "contents (mem8 s) (queues s q) = []" "list_all (\<lambda>p. outside p (queues s q)) ps"
    "list_all (\<lambda>p. outside p (queues s q)) ds" "length ps \<le> unat (max_items (queues s q))" "length ds = length ps"
  shows "let (vs, s') = receive_into (ring_get q) (\<lambda>p s. bytes (mem8 s) p (unat (item_size (queues s q)))) ds (fold (ring_put q) ps s)
    in vs = map (\<lambda>p. bytes (mem8 s) p (unat (item_size (queues s q)))) ps \<and> contents (mem8 s') (queues s' q) = []"
  using ring.first_in_first_out [OF assms] by (simp add: case_prod_beta Let_def)

theorem queue_fifo_witness:
  "let s = upd_q aQ (\<lambda>x. x\<lparr>q_count := 0, q_tail := 4\<rparr>) demo_queue;
       (vs, s') = receive_into (ring_get aQ) (\<lambda>p s. bytes (mem8 s) p (unat (item_size (queues s aQ)))) [0x20004000, 0x20004000]
         (fold (ring_put aQ) [0x20004000, 0x20005006] s)
   in vs = [[0, 1, 2, 3], [6, 7, 8, 9]] \<and> contents (mem8 s') (queues s' aQ) = []"
proof -
  let ?s = "upd_q aQ (\<lambda>x. x\<lparr>q_count := 0, q_tail := 4\<rparr>) demo_queue"
  have x: "queues ?s aQ = \<lparr>q_buffer = 0x20003000, item_size = 4, max_items = 2, q_count = 0, q_head = 4, q_tail = 4, buf_size = 8,
     send_wait_list = 0, recv_wait_list = 0\<rparr>" "mem8 ?s = ucast" by (simp_all add: upd_q_def demo_queue_state)
  have "outside 0x20004000 (queues ?s aQ)" "outside 0x20005006 (queues ?s aQ)"
    by (rule outside_beyond; simp add: x)+
  moreover have "queue_ok (queues ?s aQ)" by (simp add: queue_ok_def x first_slot_def)
  moreover have "contents (mem8 ?s) (queues ?s aQ) = []" by (simp add: contents_def x)
  moreover have "bytes (mem8 ?s) 0x20004000 4 = [0, 1, 2, 3]" "bytes (mem8 ?s) 0x20005006 4 = [6, 7, 8, 9]"
    by (simp_all add: bytes_def x upt_rec)
  ultimately show ?thesis
    using queue_fifo [of ?s aQ "[0x20004000, 0x20005006]" "[0x20004000, 0x20004000]"] by (simp add: x(1))
qed

text \<open>
  C31. A receive that had to wait and returns \<open>OS_OK\<close> has not copied anything: the byte memory and
  the queue are exactly those the other tasks left when the caller ran again, so the item that woke
  it is still in the queue and its own buffer holds what it held. Likewise a send that had to wait
  and returns \<open>OS_OK\<close> has not stored its item.
\<close>

theorem queue_blocked_transfer_lost:
  assumes "rep s A V" "states_ok A V" "crit_ok s" "V (current_task_ptr s) = Some dc" "runnable dc" "q \<noteq> NULL" "item \<noteq> NULL" "n \<noteq> 0"
  shows "(q_count (queues s q) = 0 \<and> os_queue_receive e q item n s = Some (OS_OK, s')
      \<longrightarrow> (\<exists>s1 s2. mem8 s1 = mem8 s \<and> os_sched_yield e s1 = Some s2 \<and> mem8 s' = mem8 s2 \<and> queues s' = queues s2))
    \<and> (max_items (queues s q) \<le> q_count (queues s q) \<and> os_queue_send e q item n s = Some (OS_OK, s')
      \<longrightarrow> (\<exists>s1 s2. mem8 s1 = mem8 s \<and> os_sched_yield e s1 = Some s2 \<and> mem8 s' = mem8 s2 \<and> queues s' = queues s2))"
proof (intro conjI impI; elim conjE)
  assume a: "q_count (queues s q) = 0" "os_queue_receive e q item n s = Some (OS_OK, s')"
  obtain s1 where s1: "os_queue_receive e q item n s = resumed e (\<lambda>s. os_trace_record OS_TRACE_QUEUE_RECV q (q_count (queues s q)) s) s1"
    "mem8 s1 = mem8 s" using queue_receive_none [OF assms(1-7) a(1) assms(8), of e] by (elim exE conjE) (rule that)
  then show "\<exists>s1 s2. mem8 s1 = mem8 s \<and> os_sched_yield e s1 = Some s2 \<and> mem8 s' = mem8 s2 \<and> queues s' = queues s2"
    using resumed_ok [OF s1(1) [unfolded a(2), symmetric]] by (elim exE conjE) auto
next
  assume a: "max_items (queues s q) \<le> q_count (queues s q)" "os_queue_send e q item n s = Some (OS_OK, s')"
  obtain s1 where s1: "os_queue_send e q item n s = resumed e (\<lambda>s. os_trace_record OS_TRACE_QUEUE_SEND q (q_count (queues s q)) s) s1"
    "mem8 s1 = mem8 s" using queue_send_full [OF assms(1-7) a(1) assms(8), of e] by (elim exE conjE) (rule that)
  then show "\<exists>s1 s2. mem8 s1 = mem8 s \<and> os_sched_yield e s1 = Some s2 \<and> mem8 s' = mem8 s2 \<and> queues s' = queues s2"
    using resumed_ok [OF s1(1) [unfolded a(2), symmetric]] by (elim exE conjE) auto
qed

theorem queue_blocked_transfer_lost_witness:
  "\<exists>s s' s1 s2. q_count (queues s aQ) = 0 \<and> os_queue_receive demo_env aQ 0x20004000 5 s = Some (OS_OK, s')
     \<and> mem8 s1 = mem8 s \<and> os_sched_yield demo_env s1 = Some s2 \<and> mem8 s' = mem8 s2"
proof -
  let ?s = "upd_q aQ (\<lambda>x. x\<lparr>q_count := 0\<rparr>) demo_queue"
  have r: "rep ?s demo_lists demo_tcbs" using demo_queue_rep by (simp add: upd_q_rep)
  have c: "crit_ok ?s" "current_task_ptr ?s = tRun" "q_count (queues ?s aQ) = 0"
    using demo_queue_state(1,2) by (simp_all add: upd_q_def crit_ok_def)
  have cur: "demo_tcbs (current_task_ptr ?s) = Some (demo_tcb 0x20001000 2 OS_TASK_RUNNING 0)" using demo_run(3) c(2) by simp
  have sw: "switch demo_env = Some" by (simp add: demo_env_def)
  obtain s1 where s1: "os_queue_receive demo_env aQ 0x20004000 5 ?s = resumed demo_env (\<lambda>s. os_trace_record OS_TRACE_QUEUE_RECV aQ (q_count (queues s aQ)) s) s1"
    "rep s1 (park (QRecv aQ) demo_tcbs tRun (unat (priority (demo_tcb 0x20001000 2 OS_TASK_RUNNING 0))) demo_lists)
         (demo_tcbs(tRun \<mapsto> waiting (queue_mark OS_BLOCKED_ON_QUEUE_RECV aQ 5) (demo_tcb 0x20001000 2 OS_TASK_RUNNING 0)))"
    "current_task_ptr s1 = tRun"
    using queue_receive_none [OF r demo_states_ok c(1) cur demo_run(4) demo_queue_calls(1,2) c(3), of 5 demo_env] unfolding c(2)
    by auto
  obtain s' where s': "os_queue_receive demo_env aQ 0x20004000 5 ?s = Some (OS_OK, s')"
    using resumed_stop [OF sw s1(2), of "waiting (queue_mark OS_BLOCKED_ON_QUEUE_RECV aQ 5) (demo_tcb 0x20001000 2 OS_TASK_RUNNING 0)"]
      s1(1,3) by (auto simp: waiting_def queue_mark_def)
  show ?thesis
    using queue_blocked_transfer_lost [OF r demo_states_ok c(1) cur demo_run(4) demo_queue_calls(1,2), of 5 demo_env s'] s' c(3) by auto
qed

end
