(* ===== verification/Mailbox.thy ===== *)
theory Mailbox
  imports Queue
begin

text \<open>
  Mailboxes, \<open>kernel/mailbox.c\<close>: a queue of one item. The control block holds nothing but the
  queue, at offset 0, so a mailbox and its queue have the same address.
\<close>

definition os_mailbox_create :: "env \<Rightarrow> ptr \<Rightarrow> u32 \<Rightarrow> os \<Rightarrow> (os_status \<times> os) option" where
  "os_mailbox_create e mb isz s =
     (if mb = NULL \<or> isz = 0 then Some (OS_ERR_PARAM, s) else os_queue_create e mb isz 1 s)"

definition os_mailbox_delete :: "ptr \<Rightarrow> os \<Rightarrow> (os_status \<times> os) option" where
  "os_mailbox_delete mb s = (if mb = NULL then Some (OS_ERR_PARAM, s) else os_queue_delete mb s)"

definition os_mailbox_send :: "env \<Rightarrow> ptr \<Rightarrow> ptr \<Rightarrow> u32 \<Rightarrow> os \<Rightarrow> (os_status \<times> os) option" where
  "os_mailbox_send e mb item timeout s =
     (if mb = NULL \<or> item = NULL then Some (OS_ERR_PARAM, s) else os_queue_send e mb item timeout s)"

definition os_mailbox_overwrite :: "env \<Rightarrow> ptr \<Rightarrow> ptr \<Rightarrow> os \<Rightarrow> (os_status \<times> os) option" where
  "os_mailbox_overwrite e mb item s =
     (if mb = NULL \<or> item = NULL then Some (OS_ERR_PARAM, s) else os_queue_overwrite e mb item s)"

definition os_mailbox_receive :: "env \<Rightarrow> ptr \<Rightarrow> ptr \<Rightarrow> u32 \<Rightarrow> os \<Rightarrow> (os_status \<times> os) option" where
  "os_mailbox_receive e mb item timeout s =
     (if mb = NULL \<or> item = NULL then Some (OS_ERR_PARAM, s) else os_queue_receive e mb item timeout s)"

definition os_mailbox_send_from_isr :: "ptr \<Rightarrow> ptr \<Rightarrow> os \<Rightarrow> (os_status \<times> os) option" where
  "os_mailbox_send_from_isr mb item s =
     (if mb = NULL \<or> item = NULL then Some (OS_ERR_PARAM, s) else os_queue_send_from_isr mb item s)"

definition os_mailbox_overwrite_from_isr :: "ptr \<Rightarrow> ptr \<Rightarrow> os \<Rightarrow> (os_status \<times> os) option" where
  "os_mailbox_overwrite_from_isr mb item s =
     (if mb = NULL \<or> item = NULL then Some (OS_ERR_PARAM, s) else os_queue_overwrite_from_isr mb item s)"

definition os_mailbox_receive_from_isr :: "ptr \<Rightarrow> ptr \<Rightarrow> os \<Rightarrow> (os_status \<times> os) option" where
  "os_mailbox_receive_from_isr mb item s =
     (if mb = NULL \<or> item = NULL then Some (OS_ERR_PARAM, s) else os_queue_receive_from_isr mb item s)"

definition os_mailbox_is_empty :: "ptr \<Rightarrow> os \<Rightarrow> bool" where
  "os_mailbox_is_empty mb s = (if mb = NULL then True else os_queue_is_empty mb s)"

definition os_mailbox_is_full :: "ptr \<Rightarrow> os \<Rightarrow> bool" where
  "os_mailbox_is_full mb s = (if mb = NULL then False else os_queue_is_full mb s)"

section \<open>The mailbox holds the latest value\<close>

text \<open>On an empty mailbox, overwriting is sending.\<close>

lemma overwrite_empty:
  assumes r: "rep s A V" "states_ok A V" and q: "q \<noteq> NULL" "item \<noteq> NULL" "max_items (queues s q) = 1" "q_count (queues s q) = 0"
    and c: "current_task_ptr s \<noteq> NULL"
  shows "os_queue_overwrite e q item s = os_queue_send e q item n s"
proof -
  let ?s = "ring_put q item (os_sched_enter_critical s)"
  have "rep ?s A V" using r(1) by simp
  then obtain t s1 where s1: "queue_wake_task (QRecv q) ?s = Some (t, s1)" "frame ?s s1"
    using queue_wake_rep [OF _ r(2), of ?s "QRecv q" q] by blast
  have "ring_overwrite q item (os_sched_enter_critical s) = Some (t, os_trace_record OS_TRACE_QUEUE_SEND q (q_count (queues s1 q)) s1)"
    using q(4) s1(1) by (simp add: ring_overwrite_def ring_put_def upd_q_def Let_def crit_simps)
  moreover have "current_task_ptr s1 = current_task_ptr s" using frame_os(10) [OF s1(2)] by simp
  ultimately show ?thesis using q c s1(1) by (simp add: os_queue_overwrite_def os_queue_send_def os_task_get_current_def Let_def)
qed

lemma overwrite_full:
  assumes r: "rep s A V" and cs: "crit_ok s" and q: "q \<noteq> NULL" "item \<noteq> NULL" "max_items (queues s q) = 1" "q_count (queues s q) \<noteq> 0"
    and ok: "queue_ok (queues s q)"
  shows "\<exists>s1. os_queue_overwrite e q item s = Some (OS_OK, s1) \<and> rep s1 A V \<and> crit_same s s1 \<and> current_task_ptr s1 = current_task_ptr s
     \<and> queues s1 = queues s \<and> contents (mem8 s1) (queues s1 q) = [bytes (mem8 s) item (unat (item_size (queues s q)))]"
proof -
  let ?x = "queues s q" let ?n = "unat (item_size ?x)"
  let ?s1 = "os_sched_exit_critical (os_trace_record OS_TRACE_QUEUE_SEND q (q_count ?x)
     ((os_sched_enter_critical s)\<lparr>mem8 := memcpy (q_buffer ?x + q_head ?x) item ?n (mem8 s)\<rparr>))"
  have run: "os_queue_overwrite e q item s = Some (OS_OK, ?s1)"
    using q by (simp add: os_queue_overwrite_def ring_overwrite_def preempt_running_def Let_def)
  have x: "unat (q_count ?x) = 1" "first_slot ?x = 0" "q_head ?x = 0"
    using ok q(3,4) by (auto simp: queue_ok_def unat_eq_0 [symmetric] le_Suc_eq)
  have "contents (memcpy (q_buffer ?x + q_head ?x) item ?n (mem8 s)) ?x = [bytes (mem8 s) item ?n]"
    using bytes_memcpy_same [of ?n "q_buffer ?x" item "mem8 s"] unat_lt_u32 [of "item_size ?x"] q(3) by (simp add: contents_def slot_def x)
  moreover have "crit_same s ?s1" by (rule critical_section_balanced) (use cs in \<open>simp_all add: crit_ok_def crit_same_def crit_simps\<close>)
  ultimately show ?thesis using run r by (intro exI [of _ ?s1]) (simp add: crit_simps)
qed

text \<open>
  C40. A mailbox holds the latest value. \<open>os_mailbox_overwrite\<close> by a runnable task returns \<open>OS_OK\<close>
  whether the mailbox was empty or full; afterwards it holds exactly the new item, the older one is gone, and
  the caller yields exactly when the mailbox was empty and a waiting receiver of higher priority was made
  ready.
\<close>

theorem os_mailbox_overwrite_latest:
  assumes r: "rep s A V" and ok: "states_ok A V" and c: "crit_ok s" and cur: "V (current_task_ptr s) = Some dc" "runnable dc"
    and q: "mb \<noteq> NULL" "item \<noteq> NULL" "queue_ok (queues s mb)" "max_items (queues s mb) = 1" "outside item (queues s mb)"
  shows "\<exists>s1 A1 V1. os_mailbox_overwrite e mb item s
        = map_option (Pair OS_OK) (if q_count (queues s mb) = 0 \<and> preempts (QRecv mb) A V dc then os_sched_yield e s1 else Some s1)
     \<and> contents (mem8 s1) (queues s1 mb) = [bytes (mem8 s) item (unat (item_size (queues s mb)))] \<and> queue_ok (queues s1 mb)
     \<and> rep s1 A1 V1 \<and> states_ok A1 V1 \<and> crit_same s s1 \<and> current_task_ptr s1 = current_task_ptr s"
proof (cases "q_count (queues s mb) = 0")
  case True
  have "current_task_ptr s \<noteq> NULL" using states_okD(2) [OF ok cur(1)] cur(2) rep_member(1) [OF r] by blast
  then have eq: "os_mailbox_overwrite e mb item s = os_queue_send e mb item 0 s"
    using overwrite_empty [OF r ok q(1,2,4) True] q(1,2) by (simp add: os_mailbox_overwrite_def)
  have lt: "q_count (queues s mb) < max_items (queues s mb)" and nil: "contents (mem8 s) (queues s mb) = []" using True q(4) by (simp_all add: contents_def)
  obtain s1 t A1 V1 where "os_queue_send e mb item 0 s = map_option (Pair OS_OK) (if preempts (QRecv mb) A V dc then os_sched_yield e s1 else Some s1)"
    "after_wake (QRecv mb) A V t A1 V1" "rep s1 A1 V1" "states_ok A1 V1" "crit_same s s1"
    "contents (mem8 s1) (queues s1 mb) = contents (mem8 s) (queues s mb) @ [bytes (mem8 s) item (unat (item_size (queues s mb)))]"
    "queue_ok (queues s1 mb)" "current_task_ptr s1 = current_task_ptr s"
    using queue_send_room [OF r ok c cur q(1-3,5) lt, of e 0] by (elim exE conjE) (rule that)
  then show ?thesis using eq nil True by (intro exI [of _ s1] exI [of _ A1] exI [of _ V1]) simp
next
  case False
  obtain s1 where "os_queue_overwrite e mb item s = Some (OS_OK, s1)" "rep s1 A V" "crit_same s s1" "current_task_ptr s1 = current_task_ptr s"
    "queues s1 = queues s" "contents (mem8 s1) (queues s1 mb) = [bytes (mem8 s) item (unat (item_size (queues s mb)))]"
    using overwrite_full [OF r c q(1,2,4) False q(3), of e] by blast
  then show ?thesis using False q(1-3) ok by (intro exI [of _ s1] exI [of _ A] exI [of _ V]) (simp add: os_mailbox_overwrite_def)
qed

definition demo_mailbox :: os where
  "demo_mailbox = upd_q aQ (\<lambda>x. x\<lparr>max_items := 1, buf_size := 4, q_head := 0, q_tail := 0\<rparr>) demo_queue"

theorem os_mailbox_overwrite_latest_witness:
  "\<exists>s1. os_mailbox_overwrite demo_env aQ 0x20004000 demo_mailbox = Some (OS_OK, s1) \<and> contents (mem8 s1) (queues s1 aQ) = [[0, 1, 2, 3]]"
proof -
  have x: "queues demo_mailbox aQ = \<lparr>q_buffer = 0x20003000, item_size = 4, max_items = 1, q_count = 1, q_head = 0, q_tail = 0, buf_size = 4,
     send_wait_list = 0, recv_wait_list = 0\<rparr>" by (simp add: demo_mailbox_def upd_q_def demo_queue_state)
  have m: "mem8 demo_mailbox = mem8 demo_queue" "current_task_ptr demo_mailbox = current_task_ptr demo_queue" "crit_ok demo_mailbox"
    using demo_queue_state(1) by (simp_all add: demo_mailbox_def upd_q_def crit_ok_def)
  have r: "rep demo_mailbox demo_lists demo_tcbs" using demo_queue_rep by (simp add: demo_mailbox_def upd_q_rep)
  have ok: "queue_ok (queues demo_mailbox aQ)" by (simp add: queue_ok_def x first_slot_def)
  have mx: "max_items (queues demo_mailbox aQ) = 1" by (simp add: x)
  have o: "outside 0x20004000 (queues demo_mailbox aQ)" by (rule outside_beyond) (simp_all add: x)
  have cur: "demo_tcbs (current_task_ptr demo_mailbox) = Some (demo_tcb 0x20001000 2 OS_TASK_RUNNING 0)" using demo_queue_state(3) m(2) by simp
  show ?thesis using os_mailbox_overwrite_latest [OF r demo_states_ok m(3) cur demo_run(4) demo_queue_calls(1,2) ok mx o, of demo_env]
    by (auto simp: x m(1) demo_queue_values)
qed

end
