(* ===== verification/Mutex.thy ===== *)
theory Mutex
  imports Wait_Lists
begin

unbundle bit_operations_syntax

text \<open>
  Recursive mutexes with priority inheritance, \<open>kernel/mutex.c\<close>.
\<close>

section \<open>Operations\<close>

definition upd_mutex :: "ptr \<Rightarrow> (os_mutex \<Rightarrow> os_mutex) \<Rightarrow> os \<Rightarrow> os" where
  "upd_mutex x f s = s\<lparr>mutexes := (mutexes s)(x := f (mutexes s x))\<rparr>"

definition mutex_block_task :: "ptr \<Rightarrow> ptr \<Rightarrow> u32 \<Rightarrow> os \<Rightarrow> os option" where
  "mutex_block_task mutex tcb timeout s =
     block_task (MutexW mutex) (\<lambda>c. c\<lparr>blocked_on := mutex, blocked_reason := OS_BLOCKED_ON_MUTEX_LOCK,
                                     timed_out := 0, delay_ticks := timeout\<rparr>) tcb s"

definition mutex_unblock_task :: "ptr \<Rightarrow> ptr \<Rightarrow> os \<Rightarrow> os option" where
  "mutex_unblock_task mutex tcb s = unblock_task (MutexW mutex) tcb s"

definition prv_wake_and_transfer :: "ptr \<Rightarrow> os \<Rightarrow> (ptr \<times> os) option" where
  "prv_wake_and_transfer mutex s =
     do {
       (tcb, s) \<leftarrow> wake_task (MutexW mutex) s;
       if tcb = NULL then Some (NULL, s)
       else do {
         c \<leftarrow> get_tcb tcb s;
         Some (tcb, upd_mutex mutex (\<lambda>x. x\<lparr>mutex_owner := tcb, lock_count := 1,
                                          original_prio := priority c\<rparr>) s)
       }
     }"

definition prv_boost_priority :: "ptr \<Rightarrow> u32 \<Rightarrow> os \<Rightarrow> os option" where
  "prv_boost_priority mutex new_prio s =
     (let own = mutex_owner (mutexes s mutex) in
      if own = NULL then Some s
      else do {
        c \<leftarrow> get_tcb own s;
        if new_prio < priority c
        then do { (_, s) \<leftarrow> os_task_set_priority own new_prio s; Some s }
        else Some s
      })"

definition prv_restore_priority :: "ptr \<Rightarrow> os \<Rightarrow> os option" where
  "prv_restore_priority mutex s =
     (let x = mutexes s mutex in
      if mutex_owner x = NULL then Some s
      else do { (_, s) \<leftarrow> os_task_set_priority (mutex_owner x) (original_prio x) s; Some s })"

definition os_mutex_create :: "ptr \<Rightarrow> os \<Rightarrow> os_status \<times> os" where
  "os_mutex_create mutex s =
     (if mutex = NULL then (OS_ERR_PARAM, s)
      else (OS_OK, upd_mutex mutex (\<lambda>x. x\<lparr>mutex_owner := NULL, lock_count := 0, original_prio := 0,
                                          mutex_wait_list := NULL\<rparr>) s))"

definition os_mutex_delete :: "ptr \<Rightarrow> os \<Rightarrow> (os_status \<times> os) option" where
  "os_mutex_delete mutex s =
     (if mutex = NULL then Some (OS_ERR_PARAM, s)
      else do {
        let s = os_sched_enter_critical s;
        s \<leftarrow> (if mutex_owner (mutexes s mutex) \<noteq> NULL then prv_restore_priority mutex s else Some s);
        s \<leftarrow> release_all (MutexW mutex) (\<lambda>c. c\<lparr>delay_ticks := 0, timed_out := 1\<rparr>) s;
        let s = upd_mutex mutex (\<lambda>x. x\<lparr>mutex_owner := NULL, lock_count := 0\<rparr>) s;
        Some (OS_OK, os_sched_exit_critical s)
      })"

definition os_mutex_lock :: "env \<Rightarrow> ptr \<Rightarrow> u32 \<Rightarrow> os \<Rightarrow> (os_status \<times> os) option" where
  "os_mutex_lock e mutex timeout s =
     (if mutex = NULL then Some (OS_ERR_PARAM, s)
      else do {
        let s = os_sched_enter_critical s;
        let current = os_task_get_current s;
        if mutex_owner (mutexes s mutex) = NULL
        then do {
          c \<leftarrow> get_tcb current s;
          let s = upd_mutex mutex (\<lambda>x. x\<lparr>mutex_owner := current, lock_count := 1,
                                        original_prio := priority c\<rparr>) s;
          let s = os_trace_record OS_TRACE_MUTEX_LOCK mutex (priority c) s;
          Some (OS_OK, os_sched_exit_critical s)
        }
        else if mutex_owner (mutexes s mutex) = current
        then Some (OS_OK, os_sched_exit_critical (upd_mutex mutex (\<lambda>x. x\<lparr>lock_count := lock_count x + 1\<rparr>) s))
        else do {
          c \<leftarrow> get_tcb current s;
          s \<leftarrow> prv_boost_priority mutex (priority c) s;
          if timeout = OS_WAIT_NONE then Some (OS_ERR_WOULD_BLOCK, os_sched_exit_critical s)
          else do {
            s \<leftarrow> mutex_block_task mutex current timeout s;
            let s = os_sched_exit_critical s;
            s \<leftarrow> os_sched_yield e s;
            c \<leftarrow> get_tcb current s;
            if timed_out c \<noteq> 0 then Some (OS_ERR_TIMEOUT, s)
            else Some (OS_OK, os_trace_record OS_TRACE_MUTEX_LOCK mutex (priority c) s)
          }
        }
      })"

definition os_mutex_unlock :: "env \<Rightarrow> ptr \<Rightarrow> os \<Rightarrow> (os_status \<times> os) option" where
  "os_mutex_unlock e mutex s =
     (if mutex = NULL then Some (OS_ERR_PARAM, s)
      else do {
        let s = os_sched_enter_critical s;
        let current = os_task_get_current s;
        if mutex_owner (mutexes s mutex) \<noteq> current then Some (OS_ERR_STATE, os_sched_exit_critical s)
        else do {
          let s = upd_mutex mutex (\<lambda>x. x\<lparr>lock_count := lock_count x - 1\<rparr>) s;
          if lock_count (mutexes s mutex) > 0 then Some (OS_OK, os_sched_exit_critical s)
          else do {
            s \<leftarrow> prv_restore_priority mutex s;
            let s = upd_mutex mutex (\<lambda>x. x\<lparr>mutex_owner := NULL\<rparr>) s;
            (woken, s) \<leftarrow> prv_wake_and_transfer mutex s;
            let s = os_trace_record OS_TRACE_MUTEX_UNLOCK mutex 0 s;
            let s = os_sched_exit_critical s;
            s \<leftarrow> yield_if_higher e woken current s;
            Some (OS_OK, s)
          }
        }
      })"

definition os_mutex_get_owner :: "ptr \<Rightarrow> os \<Rightarrow> ptr" where
  "os_mutex_get_owner mutex s = (if mutex = NULL then NULL else mutex_owner (mutexes s mutex))"

definition os_mutex_is_locked :: "ptr \<Rightarrow> os \<Rightarrow> bool \<times> os" where
  "os_mutex_is_locked mutex s =
     (if mutex = NULL then (False, s)
      else let s = os_sched_enter_critical s; locked = (mutex_owner (mutexes s mutex) \<noteq> NULL)
           in (locked, os_sched_exit_critical s))"

definition os_mutex_get_lock_count :: "ptr \<Rightarrow> os \<Rightarrow> u32 \<times> os" where
  "os_mutex_get_lock_count mutex s =
     (if mutex = NULL then (0, s)
      else let s = os_sched_enter_critical s; n = lock_count (mutexes s mutex) in (n, os_sched_exit_critical s))"

definition os_mutex_remove_task :: "ptr \<Rightarrow> ptr \<Rightarrow> os \<Rightarrow> os option" where
  "os_mutex_remove_task mutex tcb s =
     (if mutex = NULL \<or> tcb = NULL then Some s
      else do {
        s \<leftarrow> mutex_unblock_task mutex tcb (os_sched_enter_critical s);
        Some (os_sched_exit_critical s)
      })"

section \<open>Waiting on a mutex\<close>

definition mutex_mark :: "ptr \<Rightarrow> u32 \<Rightarrow> os_tcb \<Rightarrow> os_tcb" where
  "mutex_mark x n = (\<lambda>c. c\<lparr>blocked_on := x, blocked_reason := OS_BLOCKED_ON_MUTEX_LOCK, timed_out := 0, delay_ticks := n\<rparr>)"

interpretation mutex: wait_object "MutexW x" "mutex_mark x" "mutex_block_task x" "mutex_unblock_task x" for x
  by (rule wait_objectI) (simp_all add: wait_list_def data_upd_def mutex_mark_def mutex_block_task_def mutex_unblock_task_def)

lemma upd_mutex_rep [simp]:
  assumes "\<And>y. mutex_wait_list (f y) = mutex_wait_list y" shows "rep (upd_mutex x f s) A V = rep s A V"
proof -
  have "list_head (upd_mutex x f s) l = list_head s l" for l by (cases l) (simp_all add: upd_mutex_def assms)
  then show ?thesis by (intro rep_cong) (simp_all add: upd_mutex_def)
qed

lemma upd_mutex_sel [simp]:
  "mutexes (upd_mutex x f s) = (mutexes s)(x := f (mutexes s x))" "critical_nesting (upd_mutex x f s) = critical_nesting s"
  "primask (upd_mutex x f s) = primask s" "saved_mask (upd_mutex x f s) = saved_mask s"
  "current_task_ptr (upd_mutex x f s) = current_task_ptr s" "tcbs (upd_mutex x f s) = tcbs s"
  by (simp_all add: upd_mutex_def)

text \<open>
  The mutex calls \<open>os_task_set_priority\<close> inside its own critical section, so two levels are needed:
  \<open>shallow\<close> is the depth the kernel's own limit on nesting allows.
\<close>

definition shallow :: "os \<Rightarrow> bool" where
  "shallow s \<longleftrightarrow> critical_nesting s < 4 \<and> (critical_nesting s \<noteq> 0 \<longrightarrow> primask s = 1)"

lemma shallow_crit: "shallow s \<Longrightarrow> crit_ok s" "shallow s \<Longrightarrow> crit_ok (os_sched_enter_critical s)"
proof -
  assume "shallow s"
  then have n: "unat (critical_nesting s) < 4" "critical_nesting s \<noteq> 0 \<longrightarrow> primask s = 1" by (simp_all add: shallow_def word_less_nat_alt)
  have "unat (critical_nesting s + 1) = unat (critical_nesting s) + 1" using n(1) by (intro unat_plus_one_u32) simp
  moreover have "unat (- 1 :: u32) = 4294967295"
  proof -
    have "(- 1 :: u32) = 4294967295" by simp
    then show ?thesis by (simp only:) simp
  qed
  ultimately have "unat (critical_nesting s) \<noteq> unat (- 1 :: u32)" "unat (critical_nesting s + 1) \<noteq> unat (- 1 :: u32)" using n(1) by simp_all
  then have "critical_nesting s \<noteq> - 1" "critical_nesting s + 1 \<noteq> - 1" by metis+
  then show "crit_ok s" "crit_ok (os_sched_enter_critical s)" using n(2) by (simp_all add: crit_ok_def crit_simps)
qed

lemma mutex_waits: "wait_list (MutexW x)"
  by (simp add: wait_list_def)

subsection \<open>Lock\<close>

lemma lock_free:
  assumes r: "rep s A V" and c: "crit_ok s" and x: "x \<noteq> NULL" and cur: "V (current_task_ptr s) = Some dc" "current_task_ptr s \<noteq> NULL"
    and o: "mutex_owner (mutexes s x) = NULL"
  shows "\<exists>s1. os_mutex_lock e x n s = Some (OS_OK, s1) \<and> rep s1 A V \<and> crit_same s s1
     \<and> mutexes s1 x = (mutexes s x)\<lparr>mutex_owner := current_task_ptr s, lock_count := 1, original_prio := priority dc\<rparr> \<and> current_task_ptr s1 = current_task_ptr s"
proof -
  obtain u where "tcbs s (current_task_ptr s) = Some u" "priority u = priority dc" using rep_priority [OF r cur(1)] by blast
  moreover have "tcbs (os_sched_enter_critical s) = tcbs s" by (simp add: crit_simps)
  ultimately show ?thesis using x cur(2) o r
    by (auto simp: os_mutex_lock_def os_task_get_current_def get_tcb_def Let_def intro!: empty_section_crit_same [OF c])
qed

lemma lock_again:
  assumes c: "crit_ok s" and x: "x \<noteq> NULL" and o: "mutex_owner (mutexes s x) = current_task_ptr s" "current_task_ptr s \<noteq> NULL"
  shows "\<exists>s1. os_mutex_lock e x n s = Some (OS_OK, s1) \<and> (\<forall>A V. rep s1 A V = rep s A V) \<and> crit_same s s1
     \<and> mutexes s1 x = (mutexes s x)\<lparr>lock_count := lock_count (mutexes s x) + 1\<rparr> \<and> current_task_ptr s1 = current_task_ptr s"
  using x o by (auto simp: os_mutex_lock_def os_task_get_current_def Let_def intro!: empty_section_crit_same [OF c])

text \<open>
  Priority inheritance: an owner of lower priority takes over the caller's. A ready owner moves to the
  list of that priority; of any other only the field changes, so that an owner that waits in the list
  of another object keeps its place there although the list is ordered by priority.
\<close>

definition inherit :: "ptr \<Rightarrow> os_tcb \<Rightarrow> u32 \<Rightarrow> tlists \<Rightarrow> tlists" where
  "inherit w dw q A = (if q < priority dw then reprio w dw q A else A)"

definition boosted :: "os_tcb \<Rightarrow> u32 \<Rightarrow> os_tcb" where
  "boosted dw q = (if q < priority dw then dw\<lparr>priority := q\<rparr> else dw)"

definition boost_safe :: "ptr \<Rightarrow> os_tcb \<Rightarrow> u32 \<Rightarrow> tlists \<Rightarrow> bool" where
  "boost_safe w dw q A \<longleftrightarrow> priority dw \<le> q \<or> (\<forall>l. wait_list l \<and> l \<noteq> Blocked \<longrightarrow> w \<notin> set (A l))"

lemma inherit_other: "(\<And>p. l \<noteq> Ready p) \<Longrightarrow> inherit w dw q A l = A l"
  by (simp add: inherit_def reprio_other)

lemma inherit_keeps: "t \<noteq> w \<Longrightarrow> t \<in> set (inherit w dw q A l) \<longleftrightarrow> t \<in> set (A l)"
  by (auto simp: inherit_def reprio_def Let_def)

lemma boosted_sel [simp]:
  "tcb_state (boosted d q) = tcb_state d" "blocked_on (boosted d q) = blocked_on d" "blocked_reason (boosted d q) = blocked_reason d"
  by (simp_all add: boosted_def)

lemma states_ok_inherit:
  assumes r: "rep s A V" and ok: "states_ok A V" and w: "V w = Some dw" "tcb_state dw \<noteq> OS_TASK_RUNNING" and q: "q < 8"
    and b: "boost_safe w dw q A"
  shows "states_ok (inherit w dw q A) (V(w \<mapsto> boosted dw q))"
proof (cases "q < priority dw")
  case True
  then have "w \<notin> set (A l)" if "wait_list l" "l \<noteq> Blocked" for l using b that by (auto simp: boost_safe_def)
  from states_ok_set_priority [OF r ok w q this] True show ?thesis by (simp add: inherit_def boosted_def)
next
  case False
  then show ?thesis using ok w(1) by (simp add: inherit_def boosted_def fun_upd_idem)
qed

lemma boost_rep:
  assumes r: "rep s A V" and ok: "states_ok A V" and c: "crit_ok s" and w: "V w = Some dw" "tcb_state dw \<noteq> OS_TASK_RUNNING" "w \<noteq> NULL"
    and q: "q < 8" and o: "mutex_owner (mutexes s x) = w"
  shows "\<exists>s1. prv_boost_priority x q s = Some s1 \<and> rep s1 (inherit w dw q A) (V(w \<mapsto> boosted dw q)) \<and> crit_same s s1
     \<and> current_task_ptr s1 = current_task_ptr s \<and> lock_count (mutexes s1 x) = lock_count (mutexes s x)
     \<and> mutex_owner (mutexes s1 x) = w \<and> original_prio (mutexes s1 x) = original_prio (mutexes s x)"
proof -
  obtain u where u: "tcbs s w = Some u" "priority u = priority dw" using rep_priority [OF r w(1)] by blast
  show ?thesis
  proof (cases "q < priority dw")
    case True
    obtain s1 where s1: "os_task_set_priority w q s = Some (OS_OK, s1)" "crit_same s s1"
      "frame (os_sched_exit_critical (os_sched_enter_critical s)) s1" "rep s1 (inherit w dw q A) (V(w \<mapsto> boosted dw q))"
      using set_priority_rep [OF r ok w(3,1,2) q c] True by (auto simp: inherit_def boosted_def)
    then show ?thesis
      using o u w(3) True frame_os(10) [OF s1(3)] frame_objects(10-12) [OF s1(3), of x]
      by (simp add: prv_boost_priority_def Let_def get_tcb_def)
  next
    case False
    then show ?thesis using o u w(3) r w(1)
      by (simp add: prv_boost_priority_def Let_def get_tcb_def inherit_def boosted_def fun_upd_idem)
  qed
qed

text \<open>What happens to the caller of a lock that another task holds, without and with waiting.\<close>

definition lock_contended_result :: "env \<Rightarrow> ptr \<Rightarrow> os \<Rightarrow> (os_status \<times> os) option" where
  "lock_contended_result e x s1 = do { s \<leftarrow> os_sched_yield e s1; c \<leftarrow> get_tcb (current_task_ptr s1) s;
     if timed_out c \<noteq> 0 then Some (OS_ERR_TIMEOUT, s) else Some (OS_OK, os_trace_record OS_TRACE_MUTEX_LOCK x (priority c) s) }"

lemma lock_contended:
  assumes r: "rep s A V" and ok: "states_ok A V" and c: "shallow s" and x: "x \<noteq> NULL"
    and cur: "V (current_task_ptr s) = Some dc" "tcb_state dc = OS_TASK_RUNNING"
    and w: "mutex_owner (mutexes s x) = w" "V w = Some dw" "tcb_state dw \<noteq> OS_TASK_RUNNING" "w \<noteq> NULL"
    and V1: "V1 = V(w \<mapsto> boosted dw (priority dc))" and A1: "A1 = inherit w dw (priority dc) A"
  shows "\<exists>s0. rep s0 A1 V1 \<and> crit_same (os_sched_enter_critical s) s0 \<and> current_task_ptr s0 = current_task_ptr s
     \<and> mutex_owner (mutexes s0 x) = w \<and> lock_count (mutexes s0 x) = lock_count (mutexes s x) \<and> original_prio (mutexes s0 x) = original_prio (mutexes s x)
     \<and> os_mutex_lock e x n s = (if n = 0 then Some (OS_ERR_WOULD_BLOCK, os_sched_exit_critical s0)
         else do { s1 \<leftarrow> mutex_block_task x (current_task_ptr s) n s0; lock_contended_result e x (os_sched_exit_critical s1) })"
proof -
  let ?c = "current_task_ptr s" let ?s = "os_sched_enter_critical s"
  have cz: "?c \<noteq> NULL" using states_okD(2) [OF ok cur(1)] cur(2) rep_member(1) [OF r] by (auto simp: runnable_def)
  have wc: "w \<noteq> ?c" using w(2,3) cur by auto
  have p8: "priority dc < 8" using states_okD(1) [OF ok cur(1)] .
  have ra: "rep ?s A V" using r by simp
  have oa: "mutex_owner (mutexes ?s x) = w" using w(1) by simp
  obtain s0 where s0: "prv_boost_priority x (priority dc) ?s = Some s0" "rep s0 A1 V1" "crit_same ?s s0"
    "current_task_ptr s0 = ?c" "lock_count (mutexes s0 x) = lock_count (mutexes s x)" "mutex_owner (mutexes s0 x) = w"
    "original_prio (mutexes s0 x) = original_prio (mutexes s x)"
    using boost_rep [OF ra ok shallow_crit(2) [OF c] w(2-4) p8 oa] unfolding V1 A1 by auto
  obtain u where u: "tcbs ?s ?c = Some u" "priority u = priority dc" using rep_priority [OF ra cur(1)] by blast
  have cr: "wait_list (MutexW x)" by (rule mutex_waits)
  have keep: "current_task_ptr (os_sched_exit_critical s1) = ?c" if "mutex_block_task x ?c n s0 = Some s1" for s1
  proof -
    have t: "?c \<in> set (A1 (Ready (unat (priority dc))))"
      using states_okD(2) [OF ok cur(1)] cur(2) wc unfolding A1 by (simp add: inherit_keeps runnable_def)
    have "V1 ?c = Some dc" using cur(1) wc by (simp add: V1)
    from mutex.block [OF s0(2) t this, of x n] that s0(4) frame_os(10) [of s0 s1] show ?thesis by auto
  qed
  have "os_mutex_lock e x n s = (if n = 0 then Some (OS_ERR_WOULD_BLOCK, os_sched_exit_critical s0)
         else do { s1 \<leftarrow> mutex_block_task x ?c n s0; lock_contended_result e x (os_sched_exit_critical s1) })"
    using x w(1,4) wc u cz s0(1) keep
    by (cases "mutex_block_task x ?c n s0") (simp_all add: os_mutex_lock_def os_task_get_current_def get_tcb_def Let_def lock_contended_result_def)
  then show ?thesis using s0(2-7) by (intro exI [of _ s0]) simp
qed

lemma lock_blocks:
  assumes r: "rep s0 A1 V1" and t: "V1 t = Some d" "t \<in> set (A1 (Ready (unat (priority d))))" "runnable d"
    and c: "crit_ok s" "crit_same (os_sched_enter_critical s) s0"
  shows "\<exists>s1. mutex_block_task x t n s0 = Some s1 \<and> rep (os_sched_exit_critical s1) (park (MutexW x) V1 t (unat (priority d)) A1) (V1(t \<mapsto> waiting (mutex_mark x n) d))
     \<and> (states_ok A1 V1 \<longrightarrow> states_ok (park (MutexW x) V1 t (unat (priority d)) A1) (V1(t \<mapsto> waiting (mutex_mark x n) d)))
     \<and> crit_same s (os_sched_exit_critical s1) \<and> current_task_ptr s1 = current_task_ptr s0
     \<and> mutex_owner (mutexes s1 x) = mutex_owner (mutexes s0 x) \<and> lock_count (mutexes s1 x) = lock_count (mutexes s0 x)
     \<and> original_prio (mutexes s1 x) = original_prio (mutexes s0 x)"
proof -
  obtain s1 where s1: "mutex_block_task x t n s0 = Some s1" "frame s0 s1"
    "rep s1 (park (MutexW x) V1 t (unat (priority d)) A1) (V1(t \<mapsto> waiting (mutex_mark x n) d))"
    using mutex.block [OF r t(2,1)] by blast
  have "states_ok (park (MutexW x) V1 t (unat (priority d)) A1) (V1(t \<mapsto> waiting (mutex_mark x n) d))" if "states_ok A1 V1"
    using mutex.block_consistent [OF r that t(1,3), of x n] s1(1) by auto
  moreover have "crit_same s (os_sched_exit_critical s1)" by (rule crit_same_via [OF c s1(2)]) simp_all
  ultimately show ?thesis using s1 frame_os(10) [OF s1(2)] frame_objects(10-12) [OF s1(2), of x] by simp
qed

subsection \<open>Unlock\<close>

lemma set_priority_same:
  assumes "tcbs s t = Some c" "t \<noteq> NULL" "tcb_state c \<noteq> OS_TASK_READY" "priority c = q" "q < 8"
  shows "os_task_set_priority t q s = Some (OS_OK, os_sched_exit_critical (os_sched_enter_critical s))"
proof -
  have "tcbs (os_sched_enter_critical s) t = Some c" using assms(1) by (simp add: crit_simps)
  moreover have "c\<lparr>priority := q\<rparr> = c" using assms(4) by (cases c) simp
  ultimately show ?thesis using assms(2,3,5)
    by (simp add: os_task_set_priority_def upd_tcb_def get_tcb_def Let_def not_le fun_upd_idem)
qed

lemma unlock_nested:
  assumes c: "crit_ok s" and x: "x \<noteq> NULL" and o: "mutex_owner (mutexes s x) = current_task_ptr s" "lock_count (mutexes s x) \<noteq> 1"
  shows "\<exists>s1. os_mutex_unlock e x s = Some (OS_OK, s1) \<and> (\<forall>A V. rep s1 A V = rep s A V) \<and> crit_same s s1
     \<and> mutexes s1 x = (mutexes s x)\<lparr>lock_count := lock_count (mutexes s x) - 1\<rparr> \<and> current_task_ptr s1 = current_task_ptr s"
proof -
  have "0 < lock_count (mutexes s x) - 1" using o(2) by (metis eq_iff_diff_eq_0 word_neq_0_conv)
  then show ?thesis using x o(1)
    by (auto simp: os_mutex_unlock_def os_task_get_current_def Let_def intro!: empty_section_crit_same [OF c])
qed

lemma unlock_not_owner:
  assumes c: "crit_ok s" and x: "x \<noteq> NULL" and o: "mutex_owner (mutexes s x) \<noteq> current_task_ptr s"
  shows "\<exists>s1. os_mutex_unlock e x s = Some (OS_ERR_STATE, s1) \<and> (\<forall>A V. rep s1 A V = rep s A V) \<and> crit_same s s1 \<and> mutexes s1 = mutexes s \<and> current_task_ptr s1 = current_task_ptr s"
  using x o by (auto simp: os_mutex_unlock_def os_task_get_current_def Let_def intro!: empty_section_crit_same [OF c])

lemma transfer_rep:
  assumes r: "rep s A V" and ok: "states_ok A V"
  shows "case A (MutexW x) of
      [] \<Rightarrow> prv_wake_and_transfer x s = Some (NULL, s)
    | t # ts \<Rightarrow> \<exists>s0 s1 d. V t = Some d \<and> frame s s0 \<and> prv_wake_and_transfer x s = Some (t, s1)
        \<and> s1 = upd_mutex x (\<lambda>y. y\<lparr>mutex_owner := t, lock_count := 1, original_prio := priority d\<rparr>) s0
        \<and> rep s1 (to_ready (MutexW x) t (unat (priority d)) A) (V(t \<mapsto> woken_tcb d))
        \<and> states_ok (to_ready (MutexW x) t (unat (priority d)) A) (V(t \<mapsto> woken_tcb d))"
proof (cases "A (MutexW x)")
  case Nil
  then show ?thesis using wake_task_none [OF r mutex_waits Nil] by (simp add: prv_wake_and_transfer_def)
next
  case (Cons t ts)
  have t: "t \<in> set (A (MutexW x))" using Cons by simp
  obtain d where d: "V t = Some d" using rep_member(2) [OF r t] by blast
  have p: "priority d < 8" using states_okD(1) [OF ok d] .
  obtain s0 where s0: "wake_task (MutexW x) s = Some (t, s0)" "frame s s0"
    "rep s0 (to_ready (MutexW x) t (unat (priority d)) A) (V(t \<mapsto> woken_tcb d))"
    using wake_task_some [OF r Cons d p mutex_waits] by (auto simp: woken_tcb_def)
  have tz: "t \<noteq> NULL" using rep_member(1) [OF r t] .
  obtain u where "tcbs s0 t = Some u" "priority u = priority d" using rep_priority [OF s0(3), of t "woken_tcb d"] by auto
  then have "prv_wake_and_transfer x s
      = Some (t, upd_mutex x (\<lambda>y. y\<lparr>mutex_owner := t, lock_count := 1, original_prio := priority d\<rparr>) s0)"
    using s0(1) tz by (simp add: prv_wake_and_transfer_def get_tcb_def)
  moreover have "states_ok (to_ready (MutexW x) t (unat (priority d)) A) (V(t \<mapsto> woken_tcb d))"
    unfolding woken_tcb_def by (rule states_ok_release [OF r ok d t mutex_waits]) (simp add: data_upd_def)
  ultimately show ?thesis unfolding Cons list.case 
    using d s0(2,3) by (intro exI [of _ s0] exI [of _ "upd_mutex x (\<lambda>y. y\<lparr>mutex_owner := t, lock_count := 1, original_prio := priority d\<rparr>) s0"]
      exI [of _ d]) (simp del: fun_upd_apply)
qed

text \<open>
  Giving the priority back: nothing changes when the remembered priority is the owner's present one, or no valid priority,
  which \<open>os_task_set_priority\<close> refuses.
\<close>

lemma restore_same:
  assumes "tcbs s t = Some c" "t \<noteq> NULL" "tcb_state c \<noteq> OS_TASK_READY" "q = priority c \<or> 8 \<le> q"
    and o: "mutex_owner (mutexes s x) = t" "original_prio (mutexes s x) = q" and c: "crit_ok s"
  shows "\<exists>s1. prv_restore_priority x s = Some s1 \<and> (\<forall>A V. rep s1 A V = rep s A V) \<and> crit_same s s1
     \<and> current_task_ptr s1 = current_task_ptr s \<and> mutexes s1 = mutexes s"
proof (cases "8 \<le> q")
  case True
  then have "prv_restore_priority x s = Some s" using o assms(2) by (simp add: prv_restore_priority_def os_task_set_priority_def Let_def)
  then show ?thesis by (simp add: crit_same_def)
next
  case False
  let ?s = "os_sched_exit_critical (os_sched_enter_critical s)"
  have "os_task_set_priority t q s = Some (OS_OK, ?s)"
    by (rule set_priority_same [OF assms(1-3)]) (use False assms(4) in \<open>auto simp: not_le\<close>)
  then have "prv_restore_priority x s = Some ?s" using o assms(2) by (simp add: prv_restore_priority_def Let_def)
  moreover have "crit_same s ?s" by (rule empty_section_crit_same [OF c]) simp_all
  ultimately show ?thesis by simp
qed

text \<open>The state when the lock is given up: the count is 0, the priority as it was, the owner cleared.\<close>

definition unlock_tail :: "env \<Rightarrow> ptr \<Rightarrow> os \<Rightarrow> (os_status \<times> os) option" where
  "unlock_tail e x s0 = do { (woken, s) \<leftarrow> prv_wake_and_transfer x s0;
     s \<leftarrow> yield_if_higher e woken (current_task_ptr s0) (os_sched_exit_critical (os_trace_record OS_TRACE_MUTEX_UNLOCK x 0 s)); Some (OS_OK, s) }"

lemma unlock_tail_eq:
  assumes "x \<noteq> NULL" "mutex_owner (mutexes s x) = current_task_ptr s" "lock_count (mutexes s x) = 1"
    "prv_restore_priority x (upd_mutex x (\<lambda>y. y\<lparr>lock_count := lock_count y - 1\<rparr>) (os_sched_enter_critical s)) = Some s2"
    "current_task_ptr s2 = current_task_ptr s"
  shows "os_mutex_unlock e x s = unlock_tail e x (upd_mutex x (\<lambda>y. y\<lparr>mutex_owner := NULL\<rparr>) s2)"
  using assms by (simp add: os_mutex_unlock_def unlock_tail_def os_task_get_current_def Let_def)

lemma unlock_body:
  assumes r: "rep s A V" and c: "shallow s" and x: "x \<noteq> NULL"
    and cur: "V (current_task_ptr s) = Some dc" "tcb_state dc = OS_TASK_RUNNING" "current_task_ptr s \<noteq> NULL"
    and o: "mutex_owner (mutexes s x) = current_task_ptr s" "lock_count (mutexes s x) = 1"
    and p: "original_prio (mutexes s x) = priority dc \<or> 8 \<le> original_prio (mutexes s x)"
  shows "\<exists>s0. os_mutex_unlock e x s = unlock_tail e x s0
     \<and> rep s0 A V \<and> crit_same (os_sched_enter_critical s) s0 \<and> current_task_ptr s0 = current_task_ptr s
     \<and> mutexes s0 x = (mutexes s x)\<lparr>lock_count := 0, mutex_owner := NULL\<rparr>"
proof -
  let ?s1 = "upd_mutex x (\<lambda>y. y\<lparr>lock_count := lock_count y - 1\<rparr>) (os_sched_enter_critical s)"
  obtain u where u: "tcbs s (current_task_ptr s) = Some u" "priority u = priority dc" "tcb_state u = OS_TASK_RUNNING"
    using rep_priority [OF r cur(1)] cur(2) by auto
  have "tcbs ?s1 (current_task_ptr s) = Some u" using u(1) by (simp add: crit_simps)
  moreover have "crit_ok ?s1" using shallow_crit(2) [OF c] by (simp add: crit_ok_def)
  ultimately obtain s2 where s2: "prv_restore_priority x ?s1 = Some s2" "\<forall>A V. rep s2 A V = rep ?s1 A V" "crit_same ?s1 s2"
    "current_task_ptr s2 = current_task_ptr ?s1" "mutexes s2 = mutexes ?s1"
    using restore_same [of ?s1 "current_task_ptr s" u "original_prio (mutexes s x)" x] u cur(3) p o by auto
  let ?s0 = "upd_mutex x (\<lambda>y. y\<lparr>mutex_owner := NULL\<rparr>) s2"
  have "os_mutex_unlock e x s = unlock_tail e x ?s0" using s2(4) by (intro unlock_tail_eq [OF x o s2(1)]) simp
  moreover have "crit_same (os_sched_enter_critical s) ?s0" using s2(3) by (simp add: crit_same_def)
  ultimately show ?thesis using r o s2 by (intro exI [of _ ?s0]) simp
qed

lemma unlock_hands_over:
  assumes r: "rep s A V" and ok: "states_ok A V" and c: "shallow s" and x: "x \<noteq> NULL"
    and cur: "V (current_task_ptr s) = Some dc" "tcb_state dc = OS_TASK_RUNNING"
    and o: "mutex_owner (mutexes s x) = current_task_ptr s" "lock_count (mutexes s x) = 1"
    and p: "original_prio (mutexes s x) = priority dc \<or> 8 \<le> original_prio (mutexes s x)"
  shows "case A (MutexW x) of
      [] \<Rightarrow> \<exists>s1. os_mutex_unlock e x s = Some (OS_OK, s1) \<and> rep s1 A V \<and> crit_same s s1
        \<and> mutex_owner (mutexes s1 x) = NULL \<and> lock_count (mutexes s1 x) = 0 \<and> current_task_ptr s1 = current_task_ptr s
    | t # ts \<Rightarrow> \<exists>s1 d. V t = Some d
        \<and> os_mutex_unlock e x s = map_option (Pair OS_OK) (if priority d < priority dc then os_sched_yield e s1 else Some s1)
        \<and> rep s1 (to_ready (MutexW x) t (unat (priority d)) A) (V(t \<mapsto> woken_tcb d))
        \<and> states_ok (to_ready (MutexW x) t (unat (priority d)) A) (V(t \<mapsto> woken_tcb d)) \<and> crit_same s s1
        \<and> mutex_owner (mutexes s1 x) = t \<and> lock_count (mutexes s1 x) = 1 \<and> original_prio (mutexes s1 x) = priority d \<and> current_task_ptr s1 = current_task_ptr s"
proof -
  have rc: "runnable dc" using cur(2) by (simp add: runnable_def)
  have cz: "current_task_ptr s \<noteq> NULL" using states_okD(2) [OF ok cur(1)] rc rep_member(1) [OF r] by blast
  obtain s0 where s0: "os_mutex_unlock e x s = unlock_tail e x s0"
    "rep s0 A V" "crit_same (os_sched_enter_critical s) s0" "current_task_ptr s0 = current_task_ptr s"
    "mutexes s0 x = (mutexes s x)\<lparr>lock_count := 0, mutex_owner := NULL\<rparr>"
    using unlock_body [OF r c x cur cz o p, of e] by (elim exE conjE) (rule that)
  show ?thesis
  proof (cases "A (MutexW x)")
    case Nil
    have "prv_wake_and_transfer x s0 = Some (NULL, s0)" using transfer_rep [OF s0(2) ok, of x] Nil by simp
    then have "os_mutex_unlock e x s = Some (OS_OK, os_sched_exit_critical (os_trace_record OS_TRACE_MUTEX_UNLOCK x 0 s0))"
      using s0(1) by (simp add: unlock_tail_def yield_if_higher_def)
    moreover have "crit_same s (os_sched_exit_critical (os_trace_record OS_TRACE_MUTEX_UNLOCK x 0 s0))"
      by (rule crit_same_via [OF shallow_crit(1) [OF c] s0(3) frame_refl]) simp_all
    ultimately show ?thesis using s0(2,4,5) Nil by simp
  next
    case (Cons t ts)
    obtain sa s1 d where s1: "V t = Some d" "frame s0 sa" "prv_wake_and_transfer x s0 = Some (t, s1)"
      "s1 = upd_mutex x (\<lambda>y. y\<lparr>mutex_owner := t, lock_count := 1, original_prio := priority d\<rparr>) sa"
      "rep s1 (to_ready (MutexW x) t (unat (priority d)) A) (V(t \<mapsto> woken_tcb d))"
      "states_ok (to_ready (MutexW x) t (unat (priority d)) A) (V(t \<mapsto> woken_tcb d))"
      using transfer_rep [OF s0(2) ok, of x] unfolding Cons list.case by (elim exE conjE) (rule that)
    let ?s2 = "os_sched_exit_critical (os_trace_record OS_TRACE_MUTEX_UNLOCK x 0 s1)"
    have r2: "rep ?s2 (to_ready (MutexW x) t (unat (priority d)) A) (V(t \<mapsto> woken_tcb d))" using s1(5) by simp
    have tz: "t \<noteq> NULL" using rep_member(1) [OF r, of t "MutexW x"] Cons by simp
    have ct: "current_task_ptr s \<noteq> t" using runnable_not_waiting(1) [OF r ok cur(1) rc, of t "MutexW x"] Cons mutex_waits by simp
    have "yield_if_higher e t (current_task_ptr s) ?s2 = (if priority d < priority dc then os_sched_yield e ?s2 else Some ?s2)"
      using yield_if_higher_rep [OF r2 tz, of "woken_tcb d" "current_task_ptr s" dc] ct cz cur(1) by simp
    then have "os_mutex_unlock e x s = map_option (Pair OS_OK) (if priority d < priority dc then os_sched_yield e ?s2 else Some ?s2)"
      using s0(1,4) s1(3) by (simp add: unlock_tail_def map_conv_bind_option comp_def)
    moreover have "crit_same s ?s2"
      by (rule crit_same_via [OF shallow_crit(1) [OF c] s0(3) s1(2)]) (simp_all add: s1(4))
    ultimately show ?thesis unfolding Cons list.case using s1(1,4,6) s0(4) frame_os(10) [OF s1(2)] r2 by (intro exI [of _ ?s2] exI [of _ d]) simp
  qed
qed

text \<open>
  With another priority: the owner is the running task, linked in the ready list of its present priority, and the
  code only changes the field. The list contents are determined by the links, so that no contents describe the state.
\<close>

lemma dseg_unique: "dseg m p xs NULL \<Longrightarrow> dseg m p ys NULL \<Longrightarrow> first_ptr NULL xs = first_ptr NULL ys \<Longrightarrow> xs = ys"
proof (induction xs arbitrary: p ys)
  case Nil
  then show ?case by (cases ys) auto
next
  case (Cons a xs)
  then obtain ys' where "ys = a # ys'" by (cases ys) auto
  with Cons show ?case by auto
qed

lemma reprio_running_breaks:
  assumes r: "rep s A V" and t: "t \<in> set (A (Ready k))" "tcbs s t = Some u" "unat q \<noteq> k"
    and s': "tcbs s' = (tcbs s)(t \<mapsto> u\<lparr>priority := q\<rparr>)" "ready_list s' = ready_list s"
  shows "\<not> rep s' A' V'"
proof
  assume r': "rep s' A' V'"
  have "dseg (tcbs s') NULL (A (Ready k)) NULL"
    using rep_list(1) [OF r, of "Ready k"] dseg_upd_same [of "tcbs s" t u "u\<lparr>priority := q\<rparr>"] t(2) s'(1) by (simp add: seg_def)
  moreover have "dseg (tcbs s') NULL (A' (Ready k)) NULL" using rep_list(1) [OF r', of "Ready k"] by (simp add: seg_def)
  moreover have "first_ptr NULL (A (Ready k)) = first_ptr NULL (A' (Ready k))"
    using rep_ready_list [OF r, of k] rep_ready_list [OF r', of k] s'(2) by simp
  ultimately have "t \<in> set (A' (Ready k))" using dseg_unique t(1) by metis
  then obtain d' where d': "V' t = Some d'" "unat (priority d') = k" using rep_ready_prio [OF r'] by blast
  have "V' t = Some (erase (u\<lparr>priority := q\<rparr>))" using rep_view [OF r'] s'(1) by (auto simp: view_def)
  then show False using d' t(3) by auto
qed

lemma unlock_boosted:
  assumes r: "rep s A V" and t: "current_task_ptr s \<in> set (A (Ready k))" and x: "x \<noteq> NULL"
    and u: "tcbs s (current_task_ptr s) = Some u" "tcb_state u = OS_TASK_RUNNING"
    and o: "mutex_owner (mutexes s x) = current_task_ptr s" "lock_count (mutexes s x) = 1"
    and p: "original_prio (mutexes s x) = q" "unat q \<noteq> k" "q < 8"
  shows "\<exists>s0. os_mutex_unlock e x s = unlock_tail e x s0 \<and> (\<forall>A' V'. \<not> rep s0 A' V') \<and> current_task_ptr s0 = current_task_ptr s
     \<and> tcbs s0 = (tcbs s)(current_task_ptr s \<mapsto> u\<lparr>priority := q\<rparr>) \<and> mutexes s0 x = (mutexes s x)\<lparr>lock_count := 0, mutex_owner := NULL\<rparr>
     \<and> (A (MutexW x) = [] \<longrightarrow> (\<exists>s1. os_mutex_unlock e x s = Some (OS_OK, s1) \<and> (\<forall>A' V'. \<not> rep s1 A' V')))"
proof -
  let ?t = "current_task_ptr s"
  let ?s1 = "upd_mutex x (\<lambda>y. y\<lparr>lock_count := lock_count y - 1\<rparr>) (os_sched_enter_critical s)"
  have tz: "?t \<noteq> NULL" using rep_member(1) [OF r t] .
  let ?m = "(tcbs s)(?t \<mapsto> u\<lparr>priority := q\<rparr>)"
  let ?s2 = "os_sched_exit_critical ((os_sched_enter_critical ?s1)\<lparr>tcbs := ?m\<rparr>)"
  have "os_task_set_priority ?t q ?s1 = Some (OS_OK, ?s2)"
    using tz u p(3) by (simp add: os_task_set_priority_def upd_tcb_def get_tcb_def Let_def not_le crit_simps upd_mutex_def)
  then have res: "prv_restore_priority x ?s1 = Some ?s2" using o p(1) tz by (simp add: prv_restore_priority_def Let_def)
  let ?s0 = "upd_mutex x (\<lambda>y. y\<lparr>mutex_owner := NULL\<rparr>) ?s2"
  have sel: "tcbs ?s0 = ?m" "ready_list ?s0 = ready_list s" "current_task_ptr ?s2 = ?t" by (simp_all add: crit_simps upd_mutex_def)
  have u0: "os_mutex_unlock e x s = unlock_tail e x ?s0" by (rule unlock_tail_eq [OF x o res sel(3)])
  note bad = reprio_running_breaks [OF r t u(1) p(2)]
  let ?s4 = "os_sched_exit_critical (os_trace_record OS_TRACE_MUTEX_UNLOCK x 0 ?s0)"
  have "os_mutex_unlock e x s = Some (OS_OK, ?s4)" if "A (MutexW x) = []"
  proof -
    have "mutex_wait_list (mutexes s x) = NULL" using head_NULL [OF r, of "MutexW x"] that by simp
    then have "mutex_wait_list (mutexes ?s0 x) = NULL" by (simp add: crit_simps upd_mutex_def)
    then show ?thesis unfolding u0 by (simp add: unlock_tail_def prv_wake_and_transfer_def wake_task_def yield_if_higher_def)
  qed
  moreover have "\<not> rep ?s4 A' V'" for A' V' by (rule bad) (simp_all add: crit_simps upd_mutex_def)
  ultimately show ?thesis using u0 sel bad [OF sel(1,2)] o by (intro exI [of _ ?s0]) auto
qed

section \<open>Properties\<close>

text \<open>
  C14. \<open>os_mutex_lock\<close> by the running task, for every state of the mutex. A free mutex becomes the
  caller's with count 1 and its priority remembered; one the caller holds counts one more (wrapping). For one held by
  another task the owner first takes over the caller's priority if that is higher, and a ready owner
  moves to the list of that priority; then a call that may not wait returns \<open>OS_ERR_WOULD_BLOCK\<close>, the
  owner staying boosted, and one that may wait puts the caller into the mutex's wait list by priority and hands the
  processor over. The lists stay well formed and the interrupt state is restored; the states of the
  tasks stay consistent with the lists unless a boosted owner waits in the list of another object, whose
  order the code does not repair.
\<close>

theorem os_mutex_lock_correct:
  assumes "rep s A V" "states_ok A V" "current_ok s V" "shallow s" "x \<noteq> NULL" "V (current_task_ptr s) = Some dc" "tcb_state dc = OS_TASK_RUNNING"
    "w = mutex_owner (mutexes s x)" "w \<noteq> NULL \<Longrightarrow> V w = Some dw"
    "A1 = inherit w dw (priority dc) A" "V1 = V(w \<mapsto> boosted dw (priority dc))"
  shows "if w = NULL
    then \<exists>s1. os_mutex_lock e x n s = Some (OS_OK, s1) \<and> rep s1 A V \<and> crit_same s s1
      \<and> mutexes s1 x = (mutexes s x)\<lparr>mutex_owner := current_task_ptr s, lock_count := 1, original_prio := priority dc\<rparr>
    else if w = current_task_ptr s
    then \<exists>s1. os_mutex_lock e x n s = Some (OS_OK, s1) \<and> rep s1 A V \<and> crit_same s s1
      \<and> mutexes s1 x = (mutexes s x)\<lparr>lock_count := lock_count (mutexes s x) + 1\<rparr>
    else (boost_safe w dw (priority dc) A \<longrightarrow> states_ok A1 V1) \<and>
     (if n = 0
      then \<exists>s1. os_mutex_lock e x n s = Some (OS_ERR_WOULD_BLOCK, s1) \<and> rep s1 A1 V1 \<and> crit_same s s1
        \<and> mutex_owner (mutexes s1 x) = w \<and> lock_count (mutexes s1 x) = lock_count (mutexes s x) \<and> original_prio (mutexes s1 x) = original_prio (mutexes s x)
      else \<exists>s1 A2 V2. A2 = park (MutexW x) V1 (current_task_ptr s) (unat (priority dc)) A1
        \<and> V2 = V1(current_task_ptr s \<mapsto> waiting (mutex_mark x n) dc)
        \<and> os_mutex_lock e x n s = do { s \<leftarrow> os_sched_yield e s1; c \<leftarrow> get_tcb (current_task_ptr s1) s;
           if timed_out c \<noteq> 0 then Some (OS_ERR_TIMEOUT, s) else Some (OS_OK, os_trace_record OS_TRACE_MUTEX_LOCK x (priority c) s) }
        \<and> rep s1 A2 V2 \<and> crit_same s s1 \<and> current_task_ptr s1 = current_task_ptr s
        \<and> mutex_owner (mutexes s1 x) = w \<and> lock_count (mutexes s1 x) = lock_count (mutexes s x) \<and> original_prio (mutexes s1 x) = original_prio (mutexes s x)
        \<and> (boost_safe w dw (priority dc) A \<longrightarrow> states_ok A2 V2))"
proof -
  have rc: "runnable dc" using assms(7) by (simp add: runnable_def)
  have t: "current_task_ptr s \<in> set (A (Ready (unat (priority dc))))" using states_okD(2) [OF assms(2,6)] rc by blast
  have cz: "current_task_ptr s \<noteq> NULL" using rep_member(1) [OF assms(1) t] .
  note c = shallow_crit(1) [OF assms(4)]
  consider "w = NULL" | "w \<noteq> NULL" "w = current_task_ptr s" | "w \<noteq> NULL" "w \<noteq> current_task_ptr s" by blast
  then show ?thesis
  proof cases
    case 1
    then have "mutex_owner (mutexes s x) = NULL" using assms(8) by simp
    from lock_free [OF assms(1) c assms(5,6) cz this, of e n] 1 show ?thesis by (simp only: if_True simp_thms) blast
  next
    case 2
    have o: "mutex_owner (mutexes s x) = current_task_ptr s" using 2(2) assms(8) by simp
    obtain s1 where "os_mutex_lock e x n s = Some (OS_OK, s1)" "\<forall>A V. rep s1 A V = rep s A V" "crit_same s s1"
      "mutexes s1 x = (mutexes s x)\<lparr>lock_count := lock_count (mutexes s x) + 1\<rparr>"
      using lock_again [OF c assms(5) o cz, of e n] by (elim exE conjE) (rule that)
    then show ?thesis using 2 assms(1) by simp
  next
    case 3
    have dw: "V w = Some dw" using assms(9) 3(1) .
    then have nr: "tcb_state dw \<noteq> OS_TASK_RUNNING" using assms(3) 3(2) by (auto simp: current_ok_def)
    have p8: "priority dc < 8" using states_okD(1) [OF assms(2,6)] .
    have ok1: "states_ok A1 V1" if "boost_safe w dw (priority dc) A"
      unfolding assms(10,11) by (rule states_ok_inherit [OF assms(1,2) dw nr p8 that])
    obtain s0 where s0: "rep s0 A1 V1" "crit_same (os_sched_enter_critical s) s0" "current_task_ptr s0 = current_task_ptr s"
      "mutex_owner (mutexes s0 x) = w" "lock_count (mutexes s0 x) = lock_count (mutexes s x)" "original_prio (mutexes s0 x) = original_prio (mutexes s x)"
      "os_mutex_lock e x n s = (if n = 0 then Some (OS_ERR_WOULD_BLOCK, os_sched_exit_critical s0)
         else do { s1 \<leftarrow> mutex_block_task x (current_task_ptr s) n s0; lock_contended_result e x (os_sched_exit_critical s1) })"
      using lock_contended [OF assms(1,2,4,5,6,7) assms(8) [symmetric] dw nr 3(1) assms(11,10), of e n] by (elim exE conjE) (rule that)
    have t1: "V1 (current_task_ptr s) = Some dc" "current_task_ptr s \<in> set (A1 (Ready (unat (priority dc))))"
      using assms(6) 3(2) t by (simp_all add: assms(10,11) inherit_keeps)
    show ?thesis
    proof (cases "n = 0")
      case True
      have "crit_same s (os_sched_exit_critical s0)" by (rule crit_same_via [OF c s0(2) frame_refl]) simp_all
      then show ?thesis using True 3 s0 ok1 by simp
    next
      case False
      obtain s1 where s1: "mutex_block_task x (current_task_ptr s) n s0 = Some s1"
        "rep (os_sched_exit_critical s1) (park (MutexW x) V1 (current_task_ptr s) (unat (priority dc)) A1) (V1(current_task_ptr s \<mapsto> waiting (mutex_mark x n) dc))"
        "states_ok A1 V1 \<longrightarrow> states_ok (park (MutexW x) V1 (current_task_ptr s) (unat (priority dc)) A1) (V1(current_task_ptr s \<mapsto> waiting (mutex_mark x n) dc))"
        "crit_same s (os_sched_exit_critical s1)" "current_task_ptr s1 = current_task_ptr s0" "mutex_owner (mutexes s1 x) = mutex_owner (mutexes s0 x)"
        "lock_count (mutexes s1 x) = lock_count (mutexes s0 x)" "original_prio (mutexes s1 x) = original_prio (mutexes s0 x)"
        using lock_blocks [OF s0(1) t1 rc c s0(2), of x n] by (elim exE conjE) (rule that)
      show ?thesis unfolding if_not_P [OF 3(1)] if_not_P [OF 3(2)] if_not_P [OF False]
        using s0 s1 ok1 False by (intro conjI exI [of _ "os_sched_exit_critical s1"]) (simp_all add: lock_contended_result_def)
    qed
  qed
qed

definition demo_mutex :: "ptr \<Rightarrow> u32 \<Rightarrow> u32 \<Rightarrow> os" where
  "demo_mutex w n q = upd_mutex aMutex (\<lambda>x. x\<lparr>mutex_owner := w, lock_count := n, original_prio := q\<rparr>) demo"

lemma demo_mutex_state:
  "rep (demo_mutex w n q) demo_lists demo_tcbs" "shallow (demo_mutex w n q)" "current_task_ptr (demo_mutex w n q) = tRun"
  "mutexes (demo_mutex w n q) aMutex = \<lparr>mutex_owner = w, lock_count = n, original_prio = q, mutex_wait_list = 0\<rparr>"
  "tcb_state (demo_tcb b p st k) = st" "priority (demo_tcb b p st k) = p" "demo_lists (MutexW aMutex) = []"
  using demo_rep by (simp_all add: demo_mutex_def shallow_def demo_def demo_tcb_def demo_lists_def)

lemma demo_mutex_current: "current_ok (demo_mutex w n q) demo_tcbs"
  using demo_current_ok current_ok_cong [of "demo_mutex w n q" demo] by (simp add: demo_mutex_def)

lemma demo_susp: "demo_tcbs tSusp = Some (demo_tcb 0x20001600 5 OS_TASK_SUSPENDED 0)"
  by (simp add: demo_tcbs_def)

theorem os_mutex_lock_correct_witness:
  "\<exists>s1 d. os_mutex_lock demo_env aMutex 0 (demo_mutex tSusp 1 5) = Some (OS_ERR_WOULD_BLOCK, s1)
     \<and> view (tcbs s1) tSusp = Some d \<and> priority d = 2 \<and> mutex_owner (mutexes s1 aMutex) = tSusp"
proof -
  let ?s = "demo_mutex tSusp 1 5"
  have r: "V (current_task_ptr ?s) = Some (demo_tcb 0x20001000 2 OS_TASK_RUNNING 0)" if "V = demo_tcbs" for V
    using that by (simp add: demo_mutex_state demo_run)
  note th = os_mutex_lock_correct [OF demo_mutex_state(1) demo_states_ok demo_mutex_current demo_mutex_state(2), of aMutex tSusp 1 5
    "demo_tcb 0x20001000 2 OS_TASK_RUNNING 0" tSusp "demo_tcb 0x20001600 5 OS_TASK_SUSPENDED 0" _ _ demo_env 0]
  obtain s1 where s1: "os_mutex_lock demo_env aMutex 0 ?s = Some (OS_ERR_WOULD_BLOCK, s1)" "mutex_owner (mutexes s1 aMutex) = tSusp"
    "rep s1 (inherit tSusp (demo_tcb 0x20001600 5 OS_TASK_SUSPENDED 0) 2 demo_lists) (demo_tcbs(tSusp \<mapsto> boosted (demo_tcb 0x20001600 5 OS_TASK_SUSPENDED 0) 2))"
    using th [OF _ _ _ _ _ refl refl] by (auto simp: demo_mutex_state demo_run demo_susp)
  have "view (tcbs s1) tSusp = Some (boosted (demo_tcb 0x20001600 5 OS_TASK_SUSPENDED 0) 2)" using rep_view [OF s1(3)] by simp
  then show ?thesis using s1 by (auto simp: boosted_def demo_mutex_state)
qed

text \<open>
  C15. \<open>os_mutex_unlock\<close> by the running task, for every state of the mutex. By a task that is not the owner it
  reports \<open>OS_ERR_STATE\<close> and changes nothing. The owner's nested unlock counts down (wrapping). Its last unlock, when
  the priority remembered at the lock is the owner's present one or no priority of the kernel, frees
  the mutex or hands it with count 1 to the first waiter, which becomes ready, and yields exactly when that
  task has a higher priority. When the remembered priority is another one, as after inheritance, the code
  writes it into the control block of the running owner without moving it between the ready lists: from there on no list
  contents describe the state, and with no waiter this is the state the call returns with \<open>OS_OK\<close>.
\<close>

theorem os_mutex_unlock_correct:
  assumes "rep s A V" "states_ok A V" "shallow s" "x \<noteq> NULL" "V (current_task_ptr s) = Some dc" "tcb_state dc = OS_TASK_RUNNING"
    "q = original_prio (mutexes s x)"
  shows "if mutex_owner (mutexes s x) \<noteq> current_task_ptr s
    then \<exists>s1. os_mutex_unlock e x s = Some (OS_ERR_STATE, s1) \<and> rep s1 A V \<and> crit_same s s1 \<and> mutexes s1 = mutexes s
    else if lock_count (mutexes s x) \<noteq> 1
    then \<exists>s1. os_mutex_unlock e x s = Some (OS_OK, s1) \<and> rep s1 A V \<and> crit_same s s1
      \<and> mutexes s1 x = (mutexes s x)\<lparr>lock_count := lock_count (mutexes s x) - 1\<rparr>
    else if q = priority dc \<or> 8 \<le> q
    then (case A (MutexW x) of
      [] \<Rightarrow> \<exists>s1. os_mutex_unlock e x s = Some (OS_OK, s1) \<and> rep s1 A V \<and> crit_same s s1
        \<and> mutex_owner (mutexes s1 x) = NULL \<and> lock_count (mutexes s1 x) = 0
    | t # ts \<Rightarrow> \<exists>s1 d. V t = Some d
        \<and> os_mutex_unlock e x s = map_option (Pair OS_OK) (if priority d < priority dc then os_sched_yield e s1 else Some s1)
        \<and> rep s1 (to_ready (MutexW x) t (unat (priority d)) A) (V(t \<mapsto> woken_tcb d))
        \<and> states_ok (to_ready (MutexW x) t (unat (priority d)) A) (V(t \<mapsto> woken_tcb d)) \<and> crit_same s s1
        \<and> mutex_owner (mutexes s1 x) = t \<and> lock_count (mutexes s1 x) = 1 \<and> original_prio (mutexes s1 x) = priority d)
    else \<exists>s0 u. tcbs s (current_task_ptr s) = Some u \<and> tcbs s0 = (tcbs s)(current_task_ptr s \<mapsto> u\<lparr>priority := q\<rparr>)
      \<and> mutexes s0 x = (mutexes s x)\<lparr>lock_count := 0, mutex_owner := NULL\<rparr> \<and> (\<forall>A' V'. \<not> rep s0 A' V')
      \<and> os_mutex_unlock e x s = do { (woken, s1) \<leftarrow> prv_wake_and_transfer x s0;
           s2 \<leftarrow> yield_if_higher e woken (current_task_ptr s) (os_sched_exit_critical (os_trace_record OS_TRACE_MUTEX_UNLOCK x 0 s1)); Some (OS_OK, s2) }
      \<and> (A (MutexW x) = [] \<longrightarrow> (\<exists>s1. os_mutex_unlock e x s = Some (OS_OK, s1) \<and> (\<forall>A' V'. \<not> rep s1 A' V')))"
proof -
  note c = shallow_crit(1) [OF assms(3)]
  consider "mutex_owner (mutexes s x) \<noteq> current_task_ptr s"
    | "mutex_owner (mutexes s x) = current_task_ptr s" "lock_count (mutexes s x) \<noteq> 1"
    | "mutex_owner (mutexes s x) = current_task_ptr s" "lock_count (mutexes s x) = 1" by blast
  then show ?thesis
  proof cases
    case 1
    obtain s1 where "os_mutex_unlock e x s = Some (OS_ERR_STATE, s1)" "\<forall>A V. rep s1 A V = rep s A V" "crit_same s s1" "mutexes s1 = mutexes s"
      using unlock_not_owner [OF c assms(4) 1, of e] by (elim exE conjE) (rule that)
    then show ?thesis using 1 assms(1) by simp
  next
    case 2
    obtain s1 where "os_mutex_unlock e x s = Some (OS_OK, s1)" "\<forall>A V. rep s1 A V = rep s A V" "crit_same s s1"
      "mutexes s1 x = (mutexes s x)\<lparr>lock_count := lock_count (mutexes s x) - 1\<rparr>"
      using unlock_nested [OF c assms(4) 2, of e] by (elim exE conjE) (rule that)
    then show ?thesis using 2 assms(1) by auto
  next
    case 3
    have n: "\<not> mutex_owner (mutexes s x) \<noteq> current_task_ptr s" "\<not> lock_count (mutexes s x) \<noteq> 1" using 3 by simp_all
    show ?thesis
    proof (cases "q = priority dc \<or> 8 \<le> q")
      case True
      with n unlock_hands_over [OF assms(1-6) 3 True [unfolded assms(7)], of e] show ?thesis
        by (cases "A (MutexW x)") (simp_all only: if_False if_True list.case, blast+)
    next
      case False
      have t: "current_task_ptr s \<in> set (A (Ready (unat (priority dc))))"
        using states_okD(2) [OF assms(2,5)] assms(6) by (simp add: runnable_def)
      obtain u where u: "tcbs s (current_task_ptr s) = Some u" "tcb_state u = OS_TASK_RUNNING" using rep_priority [OF assms(1,5)] assms(6) by auto
      have qk: "unat q \<noteq> unat (priority dc)" "q < 8" using False by (auto simp: not_le word_unat_eq_iff)
      show ?thesis unfolding if_not_P [OF n(1)] if_not_P [OF n(2)] if_not_P [OF False]
        using unlock_boosted [OF assms(1) t assms(4) u 3 assms(7) [symmetric] qk, of e] u(1) unfolding unlock_tail_def by force
    qed
  qed
qed

theorem os_mutex_unlock_correct_witness:
  "\<exists>s1. os_mutex_unlock demo_env aMutex (demo_mutex tRun 1 2) = Some (OS_OK, s1) \<and> mutex_owner (mutexes s1 aMutex) = NULL"
  using os_mutex_unlock_correct [OF demo_mutex_state(1) demo_states_ok demo_mutex_state(2), of aMutex tRun 1 2 "demo_tcb 0x20001000 2 OS_TASK_RUNNING 0" 2 demo_env]
  by (auto simp: demo_mutex_state demo_run)

text \<open>
  The last unlock of a mutex whose owner inherited a priority corrupts the ready lists: the owner
  is running and linked in the list of the inherited priority, and restoring its own priority does
  not move it, so the call reports success and leaves a state that no list contents describe.
\<close>

theorem os_mutex_unlock_boosted_breaks:
  assumes "rep s A V" "x \<noteq> NULL" "current_task_ptr s \<in> set (A (Ready k))" "A (MutexW x) = []"
    "V (current_task_ptr s) = Some dc" "tcb_state dc = OS_TASK_RUNNING"
    "mutex_owner (mutexes s x) = current_task_ptr s" "lock_count (mutexes s x) = 1"
    "original_prio (mutexes s x) \<noteq> priority dc" "original_prio (mutexes s x) < 8"
  shows "\<exists>s1. os_mutex_unlock e x s = Some (OS_OK, s1) \<and> (\<forall>A' V'. \<not> rep s1 A' V')"
proof -
  obtain u where u: "tcbs s (current_task_ptr s) = Some u" "tcb_state u = OS_TASK_RUNNING" using rep_priority [OF assms(1,5)] assms(6) by auto
  have "unat (priority dc) = k" using rep_ready_prio [OF assms(1,3)] assms(5) by auto
  then have "unat (original_prio (mutexes s x)) \<noteq> k" using assms(9) by (auto simp: word_unat_eq_iff)
  from unlock_boosted [OF assms(1,3,2) u assms(7,8) refl this assms(10), of e] assms(4) show ?thesis by blast
qed

theorem os_mutex_unlock_boosted_breaks_witness:
  "\<exists>s1. os_mutex_unlock demo_env aMutex (demo_mutex tRun 1 6) = Some (OS_OK, s1) \<and> (\<forall>A' V'. \<not> rep s1 A' V')"
  by (rule os_mutex_unlock_boosted_breaks [OF demo_mutex_state(1), of aMutex tRun 1 6 2 "demo_tcb 0x20001000 2 OS_TASK_RUNNING 0"])
    (simp_all add: demo_mutex_state demo_run demo_head)

end
