(* ===== verification/Eventgroup.thy ===== *)
theory Eventgroup
  imports Wait_Lists
begin

unbundle bit_operations_syntax

text \<open>Event groups, \<open>kernel/eventgroup.c\<close>: 32 flags with wait-any, wait-all and clear-on-exit.\<close>

section \<open>Operations\<close>

definition upd_eg :: "ptr \<Rightarrow> (os_eventgroup \<Rightarrow> os_eventgroup) \<Rightarrow> os \<Rightarrow> os" where
  "upd_eg x f s = s\<lparr>eventgroups := (eventgroups s)(x := f (eventgroups s x))\<rparr>"

definition eg_block_task :: "ptr \<Rightarrow> ptr \<Rightarrow> u32 \<Rightarrow> u32 \<Rightarrow> u32 \<Rightarrow> os \<Rightarrow> os option" where
  "eg_block_task eg tcb bits options timeout s =
     block_task (EventW eg) (\<lambda>c. c\<lparr>blocked_on := eg, blocked_reason := OS_BLOCKED_ON_EVENT_WAIT,
                                  timed_out := 0, delay_ticks := timeout, event_wait_bits := bits,
                                  event_wait_options := options, event_return_bits := 0\<rparr>) tcb s"

definition eg_unblock_task :: "ptr \<Rightarrow> ptr \<Rightarrow> os \<Rightarrow> os option" where
  "eg_unblock_task eg tcb s = unblock_task (EventW eg) tcb s"

definition wait_condition :: "u32 \<Rightarrow> u32 \<Rightarrow> u32 \<Rightarrow> bool" where
  "wait_condition bits wait_bits options =
     (if options AND OS_EVENT_WAIT_ALL \<noteq> 0 then bits AND wait_bits = wait_bits
      else bits AND wait_bits \<noteq> 0)"

definition prv_check_condition :: "ptr \<Rightarrow> ptr \<Rightarrow> os \<Rightarrow> bool option" where
  "prv_check_condition eg tcb s =
     do {
       c \<leftarrow> get_tcb tcb s;
       Some (wait_condition (eg_bits (eventgroups s eg)) (event_wait_bits c) (event_wait_options c))
     }"

definition os_eventgroup_create :: "ptr \<Rightarrow> os \<Rightarrow> os_status \<times> os" where
  "os_eventgroup_create eg s =
     (if eg = NULL then (OS_ERR_PARAM, s)
      else (OS_OK, upd_eg eg (\<lambda>x. x\<lparr>eg_bits := 0, eg_wait_list := NULL\<rparr>) s))"

definition os_eventgroup_delete :: "ptr \<Rightarrow> os \<Rightarrow> (os_status \<times> os) option" where
  "os_eventgroup_delete eg s =
     (if eg = NULL then Some (OS_ERR_PARAM, s)
      else do {
        let s = os_sched_enter_critical s;
        s \<leftarrow> release_all (EventW eg) (\<lambda>c. c\<lparr>delay_ticks := 0, timed_out := 1, event_return_bits := 0\<rparr>) s;
        Some (OS_OK, os_sched_exit_critical (upd_eg eg (\<lambda>x. x\<lparr>eg_bits := 0\<rparr>) s))
      })"

text \<open>
  One task of the wait list in \<open>os_eventgroup_set_bits\<close>: whether it was released, and the state.
\<close>

definition set_bits_task :: "ptr \<Rightarrow> ptr \<Rightarrow> os \<Rightarrow> (bool \<times> os) option" where
  "set_bits_task eg tcb s =
     do {
       met \<leftarrow> prv_check_condition eg tcb s;
       if met
       then do {
         c \<leftarrow> get_tcb tcb s;
         s \<leftarrow> upd_tcb tcb (\<lambda>c. c\<lparr>event_return_bits := eg_bits (eventgroups s eg)\<rparr>) s;
         let s = (if event_wait_options c AND OS_EVENT_CLEAR_ON_EXIT \<noteq> 0
                  then upd_eg eg (\<lambda>x. x\<lparr>eg_bits := eg_bits x AND NOT (event_wait_bits c)\<rparr>) s else s);
         s \<leftarrow> release_task (EventW eg) (\<lambda>c. c\<lparr>delay_ticks := 0, timed_out := 0\<rparr>) tcb s;
         Some (True, s)
       }
       else Some (False, s)
     }"

partial_function (option) set_bits_walk :: "ptr \<Rightarrow> ptr \<Rightarrow> bool \<Rightarrow> os \<Rightarrow> (bool \<times> os) option" where
  "set_bits_walk eg tcb need_yield s =
     (if tcb = NULL then Some (need_yield, s)
      else do {
        nxt \<leftarrow> get_tcb tcb s;
        (met, s) \<leftarrow> set_bits_task eg tcb s;
        need_yield \<leftarrow> (if met
                       then do {
                         c \<leftarrow> get_tcb tcb s;
                         cur \<leftarrow> get_tcb (os_task_get_current s) s;
                         Some (need_yield \<or> priority c < priority cur)
                       }
                       else Some need_yield);
        set_bits_walk eg (tcb_next nxt) need_yield s
      })"

definition os_eventgroup_set_bits :: "env \<Rightarrow> ptr \<Rightarrow> u32 \<Rightarrow> os \<Rightarrow> (os_status \<times> os) option" where
  "os_eventgroup_set_bits e eg bits s =
     (if eg = NULL then Some (OS_ERR_PARAM, s)
      else do {
        let s = os_sched_enter_critical s;
        let s = upd_eg eg (\<lambda>x. x\<lparr>eg_bits := eg_bits x OR bits\<rparr>) s;
        (need_yield, s) \<leftarrow> set_bits_walk eg (eg_wait_list (eventgroups s eg)) False s;
        let s = os_sched_exit_critical s;
        s \<leftarrow> (if need_yield then os_sched_yield e s else Some s);
        Some (OS_OK, s)
      })"

partial_function (option) set_bits_walk_isr :: "ptr \<Rightarrow> ptr \<Rightarrow> bool \<Rightarrow> os \<Rightarrow> (bool \<times> os) option" where
  "set_bits_walk_isr eg tcb need_switch s =
     (if tcb = NULL then Some (need_switch, s)
      else do {
        nxt \<leftarrow> get_tcb tcb s;
        (met, s) \<leftarrow> set_bits_task eg tcb s;
        set_bits_walk_isr eg (tcb_next nxt) (need_switch \<or> met) s
      })"

definition os_eventgroup_set_bits_from_isr :: "ptr \<Rightarrow> u32 \<Rightarrow> os \<Rightarrow> (os_status \<times> os) option" where
  "os_eventgroup_set_bits_from_isr eg bits s =
     (if eg = NULL then Some (OS_ERR_PARAM, s)
      else do {
        let s = os_sched_enter_critical s;
        let s = upd_eg eg (\<lambda>x. x\<lparr>eg_bits := eg_bits x OR bits\<rparr>) s;
        (need_switch, s) \<leftarrow> set_bits_walk_isr eg (eg_wait_list (eventgroups s eg)) False s;
        let s = os_sched_exit_critical s;
        Some (OS_OK, if need_switch then os_sched_request_switch_from_isr s else s)
      })"

definition os_eventgroup_clear_bits :: "ptr \<Rightarrow> u32 \<Rightarrow> os \<Rightarrow> os_status \<times> os" where
  "os_eventgroup_clear_bits eg bits s =
     (if eg = NULL then (OS_ERR_PARAM, s)
      else (OS_OK, os_sched_exit_critical
                     (upd_eg eg (\<lambda>x. x\<lparr>eg_bits := eg_bits x AND NOT bits\<rparr>) (os_sched_enter_critical s))))"

definition os_eventgroup_clear_bits_from_isr :: "ptr \<Rightarrow> u32 \<Rightarrow> os \<Rightarrow> os_status \<times> os" where
  "os_eventgroup_clear_bits_from_isr eg bits s =
     (if eg = NULL then (OS_ERR_PARAM, s)
      else (OS_OK, os_sched_exit_critical
                     (upd_eg eg (\<lambda>x. x\<lparr>eg_bits := eg_bits x AND NOT bits\<rparr>) (os_sched_enter_critical s))))"

definition os_eventgroup_wait_bits ::
    "env \<Rightarrow> ptr \<Rightarrow> u32 \<Rightarrow> u32 \<Rightarrow> u32 \<Rightarrow> os \<Rightarrow> (u32 \<times> os) option" where
  "os_eventgroup_wait_bits e eg bits_to_wait options timeout s =
     (if eg = NULL then Some (0, s)
      else do {
        let s = os_sched_enter_critical s;
        let bits = eg_bits (eventgroups s eg);
        if (if options AND OS_EVENT_WAIT_ALL \<noteq> 0 then bits AND bits_to_wait = bits_to_wait
            else bits AND bits_to_wait \<noteq> 0)
        then do {
          let s = (if options AND OS_EVENT_CLEAR_ON_EXIT \<noteq> 0
                   then upd_eg eg (\<lambda>x. x\<lparr>eg_bits := eg_bits x AND NOT bits_to_wait\<rparr>) s else s);
          Some (bits, os_sched_exit_critical s)
        }
        else if timeout = OS_WAIT_NONE then Some (0, os_sched_exit_critical s)
        else do {
          let current = os_task_get_current s;
          s \<leftarrow> eg_block_task eg current bits_to_wait options timeout s;
          let s = os_sched_exit_critical s;
          s \<leftarrow> os_sched_yield e s;
          c \<leftarrow> get_tcb current s;
          Some (event_return_bits c, s)
        }
      })"

definition os_eventgroup_get_bits :: "ptr \<Rightarrow> os \<Rightarrow> u32 \<times> os" where
  "os_eventgroup_get_bits eg s =
     (if eg = NULL then (0, s)
      else let s = os_sched_enter_critical s; b = eg_bits (eventgroups s eg) in (b, os_sched_exit_critical s))"

definition os_eventgroup_get_bits_from_isr :: "ptr \<Rightarrow> os \<Rightarrow> u32 \<times> os" where
  "os_eventgroup_get_bits_from_isr eg s =
     (if eg = NULL then (0, s)
      else let s = os_sched_enter_critical s; b = eg_bits (eventgroups s eg) in (b, os_sched_exit_critical s))"

definition os_eventgroup_remove_task :: "ptr \<Rightarrow> ptr \<Rightarrow> os \<Rightarrow> os option" where
  "os_eventgroup_remove_task eg tcb s =
     (if eg = NULL \<or> tcb = NULL then Some s
      else do {
        s \<leftarrow> eg_unblock_task eg tcb (os_sched_enter_critical s);
        Some (os_sched_exit_critical s)
      })"

section \<open>Waiting on an event group\<close>

definition eg_mark :: "ptr \<Rightarrow> u32 \<Rightarrow> u32 \<Rightarrow> u32 \<Rightarrow> os_tcb \<Rightarrow> os_tcb" where
  "eg_mark x bits options n = (\<lambda>c. c\<lparr>blocked_on := x, blocked_reason := OS_BLOCKED_ON_EVENT_WAIT, timed_out := 0, delay_ticks := n,
     event_wait_bits := bits, event_wait_options := options, event_return_bits := 0\<rparr>)"

interpretation eg: wait_object "EventW x" "eg_mark x bits options" "\<lambda>t n. eg_block_task x t bits options n" "eg_unblock_task x" for x bits options
  by (rule wait_objectI) (simp_all add: wait_list_def data_upd_def eg_mark_def eg_block_task_def eg_unblock_task_def)

lemma upd_eg_rep [simp]:
  assumes "\<And>y. eg_wait_list (f y) = eg_wait_list y" shows "rep (upd_eg x f s) A V = rep s A V"
proof -
  have "list_head (upd_eg x f s) l = list_head s l" for l by (cases l) (simp_all add: upd_eg_def assms)
  then show ?thesis by (intro rep_cong) (simp_all add: upd_eg_def)
qed

lemma upd_eg_sel [simp]:
  "eventgroups (upd_eg x f s) = (eventgroups s)(x := f (eventgroups s x))" "critical_nesting (upd_eg x f s) = critical_nesting s"
  "primask (upd_eg x f s) = primask s" "saved_mask (upd_eg x f s) = saved_mask s"
  "current_task_ptr (upd_eg x f s) = current_task_ptr s" "tcbs (upd_eg x f s) = tcbs s"
  by (simp_all add: upd_eg_def)

definition set_bits_to :: "ptr \<Rightarrow> u32 \<Rightarrow> os \<Rightarrow> os" where
  "set_bits_to x b s = upd_eg x (\<lambda>y. y\<lparr>eg_bits := b\<rparr>) s"

lemma strip_set_bits: "strip_lists (set_bits_to x b s) = set_bits_to x b (strip_lists s)"
  by (auto simp: strip_lists_def set_bits_to_def upd_eg_def fun_eq_iff)

lemma set_bits_twice [simp]: "set_bits_to x b (set_bits_to x c s) = set_bits_to x b s"
  by (simp add: set_bits_to_def upd_eg_def)

lemma set_bits_same: "eg_bits (eventgroups s x) = b \<Longrightarrow> set_bits_to x b s = s"
  by (auto simp: set_bits_to_def upd_eg_def)

lemma set_bits_to_rep [simp]: "rep (set_bits_to x b s) A V = rep s A V"
  by (simp add: set_bits_to_def)

lemma frame_set_bits: "frame s s' \<Longrightarrow> frame (set_bits_to x b s) (set_bits_to x b s')"
  by (simp add: frame_def strip_set_bits)

lemma frame_bits_trans: "frame (set_bits_to x b s) s1 \<Longrightarrow> frame (set_bits_to x c s1) s2 \<Longrightarrow> frame (set_bits_to x c s) s2"
  using frame_set_bits [of "set_bits_to x b s" s1 x c] frame_trans by simp

text \<open>
  The specification of a scan: the waiters in order, each tested against the bits as the earlier
  ones left them. The result is the final bits and the released tasks with the bits each returns.
\<close>

definition clear_bits :: "u32 \<Rightarrow> os_tcb \<Rightarrow> u32" where
  "clear_bits b d = (if event_wait_options d AND OS_EVENT_CLEAR_ON_EXIT \<noteq> 0 then b AND NOT (event_wait_bits d) else b)"

fun eg_scan :: "(ptr \<rightharpoonup> os_tcb) \<Rightarrow> u32 \<Rightarrow> ptr list \<Rightarrow> u32 \<times> (ptr \<times> u32) list" where
  "eg_scan V b [] = (b, [])"
| "eg_scan V b (t # ts) =
     (case V t of
        Some d \<Rightarrow>
          if wait_condition b (event_wait_bits d) (event_wait_options d)
          then let (b', rs) = eg_scan V (clear_bits b d) ts in (b', (t, b) # rs)
          else eg_scan V b ts
      | None \<Rightarrow> eg_scan V b ts)"

lemma eg_scan_cong: "(\<And>t. t \<in> set ts \<Longrightarrow> V' t = V t) \<Longrightarrow> eg_scan V' b ts = eg_scan V b ts"
  by (induction V b ts rule: eg_scan.induct) (auto split: option.splits)

lemma eg_scan_subset: "eg_scan V b ts = (b', rs) \<Longrightarrow> p \<in> set rs \<Longrightarrow> fst p \<in> set ts"
  by (induction ts arbitrary: b b' rs) (fastforce split: option.splits prod.splits if_splits)+

definition granted :: "u32 \<Rightarrow> os_tcb \<Rightarrow> os_tcb" where
  "granted r d = woken_tcb (d\<lparr>event_return_bits := r\<rparr>)"

lemma granted_released: "granted r d = released (\<lambda>c. c\<lparr>delay_ticks := 0, timed_out := 0\<rparr>) (d\<lparr>event_return_bits := r\<rparr>)"
  by (simp add: granted_def woken_tcb_def)

lemma rep_event:
  "rep s A V \<Longrightarrow> V t = Some d \<Longrightarrow> \<exists>c. tcbs s t = Some c \<and> event_wait_bits c = event_wait_bits d \<and> event_wait_options c = event_wait_options d"
  using rep_Some [of s A V t d] by auto

lemma set_bits_task_rep:
  assumes r: "rep s A V" and ok: "states_ok A V" and t: "t \<in> set (A (EventW x))" "V t = Some d" and b: "eg_bits (eventgroups s x) = b"
  shows "if wait_condition b (event_wait_bits d) (event_wait_options d)
    then \<exists>s1. set_bits_task x t s = Some (True, s1) \<and> frame (set_bits_to x (clear_bits b d) s) s1
      \<and> rep s1 (to_ready (EventW x) t (unat (priority d)) A) (V(t \<mapsto> granted b d))
      \<and> states_ok (to_ready (EventW x) t (unat (priority d)) A) (V(t \<mapsto> granted b d))
    else set_bits_task x t s = Some (False, s)"
proof -
  have tz: "t \<noteq> NULL" using rep_member(1) [OF r t(1)] .
  have w: "wait_list (EventW x)" by (simp add: wait_list_def)
  obtain c where c: "tcbs s t = Some c" "event_wait_bits c = event_wait_bits d" "event_wait_options c = event_wait_options d"
    using rep_event [OF r t(2)] by blast
  have chk: "prv_check_condition x t s = Some (wait_condition b (event_wait_bits d) (event_wait_options d))"
    using c tz b by (simp add: prv_check_condition_def get_tcb_def)
  show ?thesis
  proof (cases "wait_condition b (event_wait_bits d) (event_wait_options d)")
    case False
    then show ?thesis using chk by (simp add: set_bits_task_def)
  next
    case True
    let ?f = "\<lambda>c. c\<lparr>event_return_bits := b\<rparr>" let ?g = "\<lambda>c. c\<lparr>delay_ticks := 0, timed_out := 0\<rparr>"
    obtain s1 where s1: "upd_tcb t ?f s = Some s1" "rep s1 A (V(t \<mapsto> ?f d))" "frame s s1"
      using upd_tcb_rep [OF r tz t(2), of ?f] by (auto simp: data_upd_def)
    let ?s2 = "set_bits_to x (clear_bits b d) s1"
    have b1: "eg_bits (eventgroups s1 x) = b" using frame_objects(13) [OF s1(3), of x] b by simp
    have s2: "(if event_wait_options c AND OS_EVENT_CLEAR_ON_EXIT \<noteq> 0
        then upd_eg x (\<lambda>y. y\<lparr>eg_bits := eg_bits y AND NOT (event_wait_bits c)\<rparr>) s1 else s1) = ?s2"
      using c b1 by (auto simp: clear_bits_def set_bits_same) (simp add: set_bits_to_def upd_eg_def)
    have r2: "rep ?s2 A (V(t \<mapsto> ?f d))" using s1(2) by simp
    have ok1: "states_ok A (V(t \<mapsto> ?f d))" by (rule states_ok_data [OF ok t(2)]) (simp_all add: runnable_def)
    have p: "priority (?f d) < 8" using states_okD(1) [OF ok t(2)] by simp
    have g: "data_upd ?g" by (simp add: data_upd_def)
    obtain s3 where s3: "release_task (EventW x) ?g t ?s2 = Some s3" "frame ?s2 s3"
      "rep s3 (to_ready (EventW x) t (unat (priority d)) A) (V(t \<mapsto> granted b d))"
      using release_task_rep [OF r2 t(1) _ w p g] by (auto simp: granted_released)
    have ok3: "states_ok (to_ready (EventW x) t (unat (priority d)) A) (V(t \<mapsto> granted b d))"
      using states_ok_release [OF r2 ok1 _ t(1) w g, of "?f d"] by (simp add: granted_released)
    have "set_bits_task x t s = Some (True, s3)"
      using chk True c(1) tz b s1(1) s2 s3(1) by (simp add: set_bits_task_def get_tcb_def Let_def)
    then show ?thesis using True s3(3) ok3 frame_trans [OF frame_set_bits [OF s1(3)] s3(2)] by auto
  qed
qed


text \<open>What a scan leaves behind.\<close>

definition scanned :: "ptr \<Rightarrow> ptr list \<Rightarrow> ptr list \<Rightarrow> (ptr \<times> u32) list \<Rightarrow> tlists \<Rightarrow> (ptr \<rightharpoonup> os_tcb) \<Rightarrow> tlists \<Rightarrow> (ptr \<rightharpoonup> os_tcb) \<Rightarrow> bool" where
  "scanned x zs ys rs A V A' V' \<longleftrightarrow>
     A' (EventW x) = zs @ filter (\<lambda>t. t \<notin> fst ` set rs) ys
     \<and> (\<forall>p. A' (Ready p) = A (Ready p) @ filter (\<lambda>t. unat (prio_of V t) = p) (map fst rs))
     \<and> (\<forall>l. l \<noteq> EventW x \<and> (wait_list l \<or> l = Deferred) \<longrightarrow> A' l = A l)
     \<and> (\<forall>t. V' t = (case map_of rs t of None \<Rightarrow> V t | Some r \<Rightarrow> map_option (granted r) (V t)))"

lemma scanned_skip:
  assumes "scanned x (zs @ [y]) ys rs A V A' V'" "y \<notin> fst ` set rs"
  shows "scanned x zs (y # ys) rs A V A' V'"
  using assms by (simp add: scanned_def)

lemma scanned_take:
  assumes s: "scanned x zs ys rs (to_ready (EventW x) y (unat (priority d)) A) (V(y \<mapsto> granted b d)) A' V'"
    and y: "V y = Some d" "y \<notin> set ys" "\<And>p. p \<in> set rs \<Longrightarrow> fst p \<in> set ys"
  shows "scanned x zs (y # ys) ((y, b) # rs) A V A' V'"
proof -
  have ny: "y \<notin> fst ` set rs" using y(2,3) by fastforce
  have pr: "map (prio_of (V(y \<mapsto> granted b d))) (map fst rs) = map (prio_of V) (map fst rs)"
    using ny by (auto simp: prio_of_def)
  then have fl: "filter (\<lambda>t. unat (prio_of (V(y \<mapsto> granted b d)) t) = q) (map fst rs) = filter (\<lambda>t. unat (prio_of V t) = q) (map fst rs)" for q
    using ny by (intro filter_cong) (auto simp: prio_of_def)
  have "A' (Ready q) = A (Ready q) @ filter (\<lambda>t. unat (prio_of V t) = q) (map fst ((y, b) # rs))" for q
    using s fl [of q] y(1) by (auto simp: scanned_def to_ready_def prio_of_def)
  moreover have "A' (EventW x) = zs @ filter (\<lambda>t. t \<notin> fst ` set ((y, b) # rs)) (y # ys)"
  proof -
    have "filter (\<lambda>t. t \<notin> fst ` set ((y, b) # rs)) (y # ys) = filter (\<lambda>t. t \<notin> fst ` set rs) ys"
      using y(2) by (auto intro!: filter_cong)
    then show ?thesis using s by (simp add: scanned_def)
  qed
  moreover have "A' l = A l" if "l \<noteq> EventW x" "wait_list l \<or> l = Deferred" for l
    using s that by (auto simp: scanned_def to_ready_def wait_list_def)
  moreover have "V' t = (case map_of ((y, b) # rs) t of None \<Rightarrow> V t | Some r \<Rightarrow> map_option (granted r) (V t))" for t
  proof (cases "t = y")
    case True
    then have "map_of rs t = None" using ny by (simp add: map_of_eq_None_iff)
    then show ?thesis using s True y(1) by (simp add: scanned_def)
  next
    case False
    then show ?thesis using s by (cases "map_of rs t") (simp_all add: scanned_def)
  qed
  ultimately show ?thesis by (simp add: scanned_def)
qed

lemma set_bits_walk_rep:
  assumes "rep s A V" "states_ok A V" "A (EventW x) = zs @ ys" "eg_bits (eventgroups s x) = b" "eg_scan V b ys = (b', rs)"
    "V (current_task_ptr s) = Some dc" "runnable dc"
  shows "\<exists>s' A' V'. set_bits_walk x (first_ptr NULL ys) ny s = Some (ny \<or> (\<exists>p \<in> set rs. prio_of V (fst p) < priority dc), s')
     \<and> frame (set_bits_to x b' s) s' \<and> rep s' A' V' \<and> states_ok A' V' \<and> scanned x zs ys rs A V A' V'"
  using assms
proof (induction ys arbitrary: s A V zs b ny rs)
  case Nil
  then have "set_bits_to x b' s = s" by (simp add: set_bits_same)
  then show ?case using Nil by (subst set_bits_walk.simps) (auto simp: scanned_def)
next
  case (Cons y ys)
  note r = Cons.prems(1) and ok = Cons.prems(2) and Ae = Cons.prems(3) and cur = Cons.prems(6,7)
  have y: "y \<in> set (A (EventW x))" by (simp add: Ae)
  obtain c d where c: "get_tcb y s = Some c" and d: "V y = Some d" using get_tcb_rep [OF r y] by blast
  have tz: "y \<noteq> NULL" using rep_member(1) [OF r y] .
  have dd: "dseg (tcbs s) NULL (zs @ y # ys) NULL" "distinct (zs @ y # ys)" using rep_list(1,2) [OF r, of "EventW x"] Ae by simp_all
  then have nx: "tcb_next c = first_ptr NULL ys" using c by (simp add: link_def get_tcb_def split: if_splits)
  have ny: "y \<notin> set zs" "y \<notin> set ys" using dd(2) by auto
  note step = set_bits_task_rep [OF r ok y d Cons.prems(4)]
  show ?case
  proof (cases "wait_condition b (event_wait_bits d) (event_wait_options d)")
    case False
    have run: "set_bits_walk x (first_ptr NULL (y # ys)) ny s = set_bits_walk x (first_ptr NULL ys) ny s"
      using step False by (subst set_bits_walk.simps) (simp add: c tz nx)
    have sc: "eg_scan V b ys = (b', rs)" using Cons.prems(5) d False by simp
    have "A (EventW x) = (zs @ [y]) @ ys" using Ae by simp
    from Cons.IH [OF r ok this Cons.prems(4) sc cur, of ny] obtain s' A' V' where
      s': "set_bits_walk x (first_ptr NULL ys) ny s = Some (ny \<or> (\<exists>p \<in> set rs. prio_of V (fst p) < priority dc), s')"
      "frame (set_bits_to x b' s) s'" "rep s' A' V'" "states_ok A' V'" "scanned x (zs @ [y]) ys rs A V A' V'"
      by (elim exE conjE) (rule that)
    have "y \<notin> fst ` set rs" using eg_scan_subset [OF sc] ny(2) by fastforce
    then have "scanned x zs (y # ys) rs A V A' V'" by (rule scanned_skip [OF s'(5)])
    then show ?thesis using run s'(1-4) by (intro exI [of _ s'] exI [of _ A'] exI [of _ V']) simp
  next
    case True
    let ?A = "to_ready (EventW x) y (unat (priority d)) A" let ?V = "V(y \<mapsto> granted b d)"
    obtain s1 where s1: "set_bits_task x y s = Some (True, s1)" "frame (set_bits_to x (clear_bits b d) s) s1" "rep s1 ?A ?V" "states_ok ?A ?V"
      using step True by auto
    obtain rs1 where sc: "eg_scan V (clear_bits b d) ys = (b', rs1)" and rs: "rs = (y, b) # rs1"
      using Cons.prems(5) d True by (auto split: prod.splits)
    have sc1: "eg_scan ?V (clear_bits b d) ys = (b', rs1)" 
    proof -
      have "eg_scan ?V (clear_bits b d) ys = eg_scan V (clear_bits b d) ys" by (rule eg_scan_cong) (use ny(2) in auto)
      then show ?thesis using sc by simp
    qed
    have b1: "eg_bits (eventgroups s1 x) = clear_bits b d" using frame_objects(13) [OF s1(2), of x] by (simp add: set_bits_to_def)
    have c1: "current_task_ptr s1 = current_task_ptr s" using frame_os(10) [OF s1(2)] by (simp add: set_bits_to_def)
    have cy: "current_task_ptr s \<noteq> y" "current_task_ptr s \<noteq> NULL"
      using runnable_not_waiting [OF r ok cur y] by (simp_all add: wait_list_def)
    have l1: "?A (EventW x) = zs @ ys" using ny by (simp add: to_ready_def Ae remove1_split)
    have cur1: "?V (current_task_ptr s1) = Some dc" using cur(1) c1 cy(1) by simp
    obtain u where u: "tcbs s1 y = Some u" "priority u = priority d" using rep_priority [OF s1(3), of y "granted b d"] by (auto simp: granted_def)
    obtain v where v: "tcbs s1 (current_task_ptr s) = Some v" "priority v = priority dc"
      using rep_priority [OF s1(3), of "current_task_ptr s" dc] cur(1) cy(1) by auto
    have run: "set_bits_walk x (first_ptr NULL (y # ys)) ny s = set_bits_walk x (first_ptr NULL ys) (ny \<or> priority d < priority dc) s1"
      using c by (subst set_bits_walk.simps) (simp add: tz nx s1(1) u v c1 cy get_tcb_def os_task_get_current_def)
    from Cons.IH [OF s1(3,4) l1 b1 sc1 cur1 cur(2), of "ny \<or> priority d < priority dc"] obtain s' A' V' where
      s': "set_bits_walk x (first_ptr NULL ys) (ny \<or> priority d < priority dc) s1
          = Some ((ny \<or> priority d < priority dc) \<or> (\<exists>p \<in> set rs1. prio_of ?V (fst p) < priority dc), s')"
      "frame (set_bits_to x b' s1) s'" "rep s' A' V'" "states_ok A' V'" "scanned x zs ys rs1 ?A ?V A' V'"
      by (elim exE conjE) (rule that)
    have sub: "p \<in> set rs1 \<Longrightarrow> fst p \<in> set ys" for p using eg_scan_subset [OF sc] by blast
    have same: "prio_of ?V (fst p) = prio_of V (fst p)" if "p \<in> set rs1" for p
      using sub [OF that] ny(2) by (auto simp: prio_of_def)
    have "scanned x zs (y # ys) rs A V A' V'" unfolding rs by (rule scanned_take [OF s'(5) d ny(2) sub])
    moreover have "frame (set_bits_to x b' s) s'" by (rule frame_bits_trans [OF s1(2) s'(2)])
    moreover have "(ny \<or> priority d < priority dc) \<or> (\<exists>p \<in> set rs1. prio_of ?V (fst p) < priority dc)
        \<longleftrightarrow> ny \<or> (\<exists>p \<in> set rs. prio_of V (fst p) < priority dc)"
      using same d by (auto simp: rs prio_of_def)
    ultimately show ?thesis using run s'(1,3,4) by (intro exI [of _ s'] exI [of _ A'] exI [of _ V']) simp
  qed
qed


section \<open>Properties\<close>

text \<open>
  C16. \<open>os_eventgroup_set_bits\<close> by a runnable task sets the bits and then agrees with the
  specification of a scan: the waiters in priority order, each released exactly when the bits, as the
  earlier ones left them, satisfy its any/all condition, with the bits it saw as its result and its
  own bits cleared if it asked for that. Released tasks leave the wait list and join their ready
  lists in order, the others keep their place and data, the group ends with the bits of the scan, and
  the caller yields exactly when a released task has a higher priority.
\<close>

theorem os_eventgroup_set_bits_correct:
  assumes "rep s A V" "states_ok A V" "crit_ok s" "x \<noteq> NULL" "V (current_task_ptr s) = Some dc" "runnable dc"
    "eg_scan V (eg_bits (eventgroups s x) OR bits) (A (EventW x)) = (b', rs)"
  shows "\<exists>s1 A1 V1. os_eventgroup_set_bits e x bits s
       = map_option (Pair OS_OK) (if \<exists>p \<in> set rs. prio_of V (fst p) < priority dc then os_sched_yield e s1 else Some s1)
     \<and> rep s1 A1 V1 \<and> states_ok A1 V1 \<and> scanned x [] (A (EventW x)) rs A V A1 V1
     \<and> eg_bits (eventgroups s1 x) = b' \<and> crit_same s s1"
proof -
  let ?b = "eg_bits (eventgroups s x) OR bits"
  let ?s = "upd_eg x (\<lambda>y. y\<lparr>eg_bits := eg_bits y OR bits\<rparr>) (os_sched_enter_critical s)"
  have r0: "rep ?s A V" using assms(1) by simp
  have h: "eg_wait_list (eventgroups ?s x) = first_ptr NULL (A (EventW x))" using rep_list(3) [OF r0, of "EventW x"] by simp
  have b0: "eg_bits (eventgroups ?s x) = ?b" by simp
  have A0: "A (EventW x) = [] @ A (EventW x)" by simp
  have c0: "V (current_task_ptr ?s) = Some dc" using assms(5) by simp
  obtain s1 A1 V1 where s1: "set_bits_walk x (first_ptr NULL (A (EventW x))) False ?s
      = Some (False \<or> (\<exists>p \<in> set rs. prio_of V (fst p) < priority dc), s1)"
    "frame (set_bits_to x b' ?s) s1" "rep s1 A1 V1" "states_ok A1 V1" "scanned x [] (A (EventW x)) rs A V A1 V1"
    using set_bits_walk_rep [OF r0 assms(2) A0 b0 assms(7) c0 assms(6), of False] by (elim exE conjE) (rule that)
  have "os_eventgroup_set_bits e x bits s
      = map_option (Pair OS_OK) (if \<exists>p \<in> set rs. prio_of V (fst p) < priority dc
          then os_sched_yield e (os_sched_exit_critical s1) else Some (os_sched_exit_critical s1))"
    using assms(4) s1(1) h by (simp add: os_eventgroup_set_bits_def Let_def map_conv_bind_option comp_def)
  moreover have "crit_same s (os_sched_exit_critical s1)"
    by (rule crit_same_via [OF assms(3) _ s1(2)]) (simp_all add: crit_same_def set_bits_to_def)
  moreover have "eg_bits (eventgroups s1 x) = b'" using frame_objects(13) [OF s1(2), of x] by (simp add: set_bits_to_def)
  ultimately show ?thesis using s1(3-5) by (intro exI [of _ "os_sched_exit_critical s1"] exI [of _ A1] exI [of _ V1]) simp
qed

theorem os_eventgroup_set_bits_correct_witness:
  "\<exists>s1 A1 V1. os_eventgroup_set_bits demo_env aEv 5 demo = Some (OS_OK, s1) \<and> rep s1 A1 V1 \<and> eg_bits (eventgroups s1 aEv) = 5"
proof -
  have c: "demo_tcbs (current_task_ptr demo) = Some (demo_tcb 0x20001000 2 OS_TASK_RUNNING 0)" by (simp add: demo_run)
  have "eg_bits (eventgroups demo aEv) = 0" "demo_lists (EventW aEv) = []" by (simp_all add: demo_def demo_lists_def)
  then have "eg_scan demo_tcbs (eg_bits (eventgroups demo aEv) OR 5) (demo_lists (EventW aEv)) = (5, [])" by simp
  from os_eventgroup_set_bits_correct [OF demo_rep demo_states_ok demo_crit_ok _ c demo_run(4) this, of demo_env] show ?thesis by auto
qed

end
