(* ===== verification/Notify.thy ===== *)
theory Notify
  imports Wait_Lists
begin

text \<open>
  Task notifications, \<open>kernel/notify.c\<close>: one pending value per task. A waiting task sits in
  the blocked list of \<open>task.c\<close>, so the tick counts its timeout down.
\<close>

section \<open>Operations\<close>

definition post_notification :: "ptr \<Rightarrow> u32 \<Rightarrow> os \<Rightarrow> os option" where
  "post_notification tcb val s = upd_tcb tcb (\<lambda>c. c\<lparr>notify_value := val, notify_pending := 1\<rparr>) s"

definition notify_wake :: "ptr \<Rightarrow> os \<Rightarrow> os option" where
  "notify_wake tcb s =
     do {
       s \<leftarrow> os_task_remove_from_blocked tcb s;
       s \<leftarrow> upd_tcb tcb (\<lambda>c. c\<lparr>blocked_reason := OS_BLOCKED_NONE, delay_ticks := 0, timed_out := 0\<rparr>) s;
       os_task_add_to_ready tcb s
     }"

definition os_task_notify :: "env \<Rightarrow> ptr \<Rightarrow> u32 \<Rightarrow> os \<Rightarrow> (os_status \<times> os) option" where
  "os_task_notify e tcb val s =
     (if tcb = NULL then Some (OS_ERR_PARAM, s)
      else do {
        let s = os_sched_enter_critical s;
        s \<leftarrow> post_notification tcb val s;
        c \<leftarrow> get_tcb tcb s;
        if tcb_state c = OS_TASK_BLOCKED \<and> blocked_reason c = OS_BLOCKED_ON_NOTIFY
        then do {
          s \<leftarrow> notify_wake tcb s;
          let current = os_task_get_current s;
          let s = os_sched_exit_critical s;
          s \<leftarrow> yield_if_higher e tcb current s;
          Some (OS_OK, s)
        }
        else Some (OS_OK, os_sched_exit_critical s)
      })"

definition os_task_notify_from_isr :: "ptr \<Rightarrow> u32 \<Rightarrow> os \<Rightarrow> (os_status \<times> os) option" where
  "os_task_notify_from_isr tcb val s =
     (if tcb = NULL then Some (OS_ERR_PARAM, s)
      else do {
        let s = os_sched_enter_critical s;
        s \<leftarrow> post_notification tcb val s;
        c \<leftarrow> get_tcb tcb s;
        s \<leftarrow> (if tcb_state c = OS_TASK_BLOCKED \<and> blocked_reason c = OS_BLOCKED_ON_NOTIFY
              then do { s \<leftarrow> notify_wake tcb s; Some (os_sched_request_switch_from_isr s) }
              else Some s);
        Some (OS_OK, os_sched_exit_critical s)
      })"

text \<open>
  Taking the pending value: the result carries it (\<open>None\<close>: nothing was stored through
  \<open>value_out\<close>).
\<close>

definition os_task_notify_wait :: "env \<Rightarrow> bool \<Rightarrow> u32 \<Rightarrow> os \<Rightarrow> (os_status \<times> u32 option \<times> os) option" where
  "os_task_notify_wait e wants timeout s =
     (let tcb = os_task_get_current s in
      if tcb = NULL then Some (OS_ERR_PARAM, None, s)
      else do {
        let s = os_sched_enter_critical s;
        c \<leftarrow> get_tcb tcb s;
        if notify_pending c \<noteq> 0
        then do {
          s \<leftarrow> upd_tcb tcb (\<lambda>c. c\<lparr>notify_pending := 0\<rparr>) s;
          Some (OS_OK, if wants then Some (notify_value c) else None, os_sched_exit_critical s)
        }
        else if timeout = OS_WAIT_NONE then Some (OS_ERR_TIMEOUT, None, os_sched_exit_critical s)
        else do {
          s \<leftarrow> upd_tcb tcb (\<lambda>c. c\<lparr>blocked_reason := OS_BLOCKED_ON_NOTIFY, timed_out := 0\<rparr>) s;
          s \<leftarrow> os_task_add_to_blocked tcb (if timeout = OS_WAIT_FOREVER then 0 else timeout) s;
          let s = os_sched_exit_critical s;
          s \<leftarrow> os_sched_yield e s;
          let tcb = os_task_get_current s;
          c \<leftarrow> get_tcb tcb s;
          if notify_pending c \<noteq> 0
          then do {
            s \<leftarrow> upd_tcb tcb (\<lambda>c. c\<lparr>notify_pending := 0\<rparr>) s;
            Some (OS_OK, if wants then Some (notify_value c) else None, s)
          }
          else Some (OS_ERR_TIMEOUT, None, s)
        }
      })"

definition os_task_notify_is_pending :: "ptr \<Rightarrow> os \<Rightarrow> (bool \<times> os) option" where
  "os_task_notify_is_pending tcb s =
     (if tcb = NULL then Some (False, s)
      else do {
        let s = os_sched_enter_critical s;
        c \<leftarrow> get_tcb tcb s;
        Some (notify_pending c \<noteq> 0, os_sched_exit_critical s)
      })"

definition os_task_notify_clear :: "ptr \<Rightarrow> os \<Rightarrow> (os_status \<times> os) option" where
  "os_task_notify_clear tcb s =
     (if tcb = NULL then Some (OS_ERR_PARAM, s)
      else do {
        s \<leftarrow> upd_tcb tcb (\<lambda>c. c\<lparr>notify_pending := 0, notify_value := 0\<rparr>) (os_sched_enter_critical s);
        Some (OS_OK, os_sched_exit_critical s)
      })"

section \<open>Delivery\<close>

definition notified :: "u32 \<Rightarrow> os_tcb \<Rightarrow> os_tcb" where
  "notified v d = d\<lparr>notify_value := v, notify_pending := 1\<rparr>"

definition notify_waiter :: "os_tcb \<Rightarrow> bool" where
  "notify_waiter d \<longleftrightarrow> tcb_state d = OS_TASK_BLOCKED \<and> blocked_reason d = OS_BLOCKED_ON_NOTIFY"

definition unwaited :: "os_tcb \<Rightarrow> os_tcb" where
  "unwaited d = d\<lparr>delay_ticks := 0, timed_out := 0\<rparr>"

lemma unwaited_data: "data_upd unwaited"
  by (simp add: data_upd_def unwaited_def)

lemma notify_wake_rep:
  assumes r: "rep s A V" and t: "t \<in> set (A Blocked)" "V t = Some d" "priority d < 8" "blocked_on d = NULL"
  shows "\<exists>s'. notify_wake t s = Some s' \<and> frame s s' \<and> rep s' (to_ready Blocked t (unat (priority d)) A) (V(t \<mapsto> released unwaited d))"
proof -
  let ?A = "A(Blocked := remove1 t (A Blocked))" let ?f = "\<lambda>c. c\<lparr>blocked_reason := OS_BLOCKED_NONE, delay_ticks := 0, timed_out := 0\<rparr>"
  have w: "wait_list Blocked" by (simp add: wait_list_def)
  have tz: "t \<noteq> NULL" using rep_member(1) [OF r t(1)] .
  obtain s1 where s1: "unlink Blocked t s = Some s1" "rep s1 ?A V" "frame s s1" using unlink_rep [OF r w t(1)] by blast
  obtain s2 where s2: "upd_tcb t ?f s1 = Some s2" "rep s2 ?A (V(t \<mapsto> ?f d))" "frame s1 s2"
    using upd_tcb_rep [OF s1(2) tz t(2), of ?f] by (auto simp: data_upd_def)
  have nw: "nowhere ?A t" using nowhere_remove1 [OF r t(1)] by simp
  obtain s3 where s3: "os_task_add_to_ready t s2 = Some s3" "frame s2 s3"
    "rep s3 (?A(Ready (unat (priority d)) := ?A (Ready (unat (priority d))) @ [t])) (V(t \<mapsto> (?f d)\<lparr>tcb_state := OS_TASK_READY\<rparr>))"
    using add_to_ready_rep [OF s2(2) nw tz, of "?f d"] t(3) by auto
  have "(?f d)\<lparr>tcb_state := OS_TASK_READY\<rparr> = released unwaited d" using t(4) by (cases d) (simp add: released_def unwaited_def)
  moreover have "?A(Ready (unat (priority d)) := ?A (Ready (unat (priority d))) @ [t]) = to_ready Blocked t (unat (priority d)) A"
    by (simp add: to_ready_def)
  ultimately show ?thesis
    using s1(1) s2(1) s3 frame_trans [OF frame_trans [OF s1(3) s2(3)] s3(2)]
    by (simp add: notify_wake_def os_task_remove_from_blocked_def)
qed

text \<open>
  C38. \<open>os_task_notify\<close> stores the value in the task's control block, marks it as pending and
  returns \<open>OS_OK\<close>. A task that waits for a notification leaves the list of blocked tasks for the
  tail of its ready level, its delay and time-out flag cleared, and the caller yields when that task
  has the higher priority; any other task keeps its state and its place. Lists, states and the
  interrupt mask are as they should be afterwards.
\<close>

theorem os_task_notify_correct:
  assumes r: "rep s A V" and ok: "states_ok A V" and c: "crit_ok s" and t: "t \<noteq> NULL" "V t = Some d"
    and cur: "V (current_task_ptr s) = Some dc" "runnable dc" "t \<noteq> current_task_ptr s"
    and wait: "notify_waiter d \<longrightarrow> t \<in> set (A Blocked) \<and> blocked_on d = NULL"
  shows "\<exists>s1. crit_same s s1 \<and> (if notify_waiter d
     then os_task_notify e t v s = map_option (Pair OS_OK) (if priority d < priority dc then os_sched_yield e s1 else Some s1)
       \<and> rep s1 (to_ready Blocked t (unat (priority d)) A) (V(t \<mapsto> released unwaited (notified v d)))
       \<and> states_ok (to_ready Blocked t (unat (priority d)) A) (V(t \<mapsto> released unwaited (notified v d)))
     else os_task_notify e t v s = Some (OS_OK, s1) \<and> rep s1 A (V(t \<mapsto> notified v d)) \<and> states_ok A (V(t \<mapsto> notified v d)))"
proof -
  let ?d = "notified v d" let ?V = "V(t \<mapsto> ?d)"
  have r0: "rep (os_sched_enter_critical s) A V" using r by simp
  have same: "priority ?d = priority d" "tcb_state ?d = tcb_state d" "blocked_reason ?d = blocked_reason d" "blocked_on ?d = blocked_on d"
    by (simp_all add: notified_def)
  obtain s1 where s1: "post_notification t v (os_sched_enter_critical s) = Some s1" "rep s1 A ?V" "frame (os_sched_enter_critical s) s1"
    using upd_tcb_rep [OF r0 t, of "\<lambda>c. c\<lparr>notify_value := v, notify_pending := 1\<rparr>"]
    by (auto simp: data_upd_def notified_def post_notification_def)
  obtain k where k: "tcbs s1 t = Some k" "erase k = ?d" using rep_Some [OF s1(2), of t ?d] by auto
  have kk: "tcb_state k = tcb_state d" "blocked_reason k = blocked_reason d" using arg_cong [OF k(2), of tcb_state] arg_cong [OF k(2), of blocked_reason] same by simp_all
  have ok1: "states_ok A ?V" using states_ok_data [OF ok t(2), of ?d] same by (auto simp: runnable_def)
  show ?thesis
  proof (cases "notify_waiter d")
    case False
    let ?s = "os_sched_exit_critical s1"
    have "os_task_notify e t v s = Some (OS_OK, ?s)"
      using t(1) s1(1) k(1) kk False by (auto simp: os_task_notify_def get_tcb_def Let_def notify_waiter_def)
    moreover have "crit_same s ?s" by (rule section_crit_same [OF c s1(3)]) simp_all
    ultimately show ?thesis using False s1(2) ok1 by (intro exI [of _ ?s]) simp
  next
    case True
    have b: "t \<in> set (A Blocked)" "blocked_on ?d = NULL" "priority ?d < 8" using wait True same states_okD(1) [OF ok t(2)] by auto
    obtain s2 where s2: "notify_wake t s1 = Some s2" "frame s1 s2"
      "rep s2 (to_ready Blocked t (unat (priority d)) A) (?V(t \<mapsto> released unwaited ?d))"
      using notify_wake_rep [OF s1(2) b(1) _ b(3,2)] same by auto
    let ?s = "os_sched_exit_critical s2" let ?A = "to_ready Blocked t (unat (priority d)) A" let ?W = "V(t \<mapsto> released unwaited ?d)"
    note fr = frame_trans [OF s1(3) s2(2)]
    have cp: "current_task_ptr s2 = current_task_ptr s" using frame_os(10) [OF fr] by (simp add: crit_simps)
    have r2: "rep ?s ?A ?W" using s2(3) by simp
    have wl: "wait_list Blocked" by (simp add: wait_list_def)
    have "states_ok ?A (?V(t \<mapsto> released unwaited ?d))"
      using states_ok_release [OF s1(2) ok1 _ b(1) wl unwaited_data, of ?d] same by simp
    then have ok2: "states_ok ?A ?W" by simp
    have cz: "current_task_ptr s \<noteq> NULL" using runnable_not_waiting [OF r ok cur(1,2), of t Blocked] b(1) wl by simp
    have "yield_if_higher e t (current_task_ptr s) ?s = (if priority d < priority dc then os_sched_yield e ?s else Some ?s)"
      using yield_if_higher_rep [OF r2 t(1), of "released unwaited ?d" "current_task_ptr s" dc] cz cur(1,3)
      by (simp add: released_def unwaited_def notified_def)
    moreover have "os_task_notify e t v s = map_option (Pair OS_OK) (yield_if_higher e t (current_task_ptr s) ?s)"
      using t(1) s1(1) k(1) kk True s2(1) cp
      by (simp add: os_task_notify_def get_tcb_def Let_def notify_waiter_def os_task_get_current_def map_conv_bind_option comp_def)
    moreover have "crit_same s ?s" by (rule section_crit_same [OF c fr]) simp_all
    ultimately show ?thesis using True r2 ok2 by (intro exI [of _ ?s]) simp
  qed
qed

theorem os_task_notify_correct_witness:
  "\<exists>s0 s1 A1 V1. upd_tcb tDelayed (\<lambda>c. c\<lparr>blocked_reason := OS_BLOCKED_ON_NOTIFY\<rparr>) demo = Some s0
     \<and> os_task_notify demo_env tDelayed 7 s0 = map_option (Pair OS_OK) (os_sched_yield demo_env s1)
     \<and> rep s1 A1 V1 \<and> A1 Blocked = [] \<and> A1 (Ready 1) = [tDelayed] \<and> map_option notify_value (V1 tDelayed) = Some 7"
proof -
  let ?f = "\<lambda>c. c\<lparr>blocked_reason := OS_BLOCKED_ON_NOTIFY\<rparr>" let ?b = "demo_tcb 0x20001400 1 OS_TASK_BLOCKED 3"
  let ?d = "?f ?b" let ?V = "demo_tcbs(tDelayed \<mapsto> ?d)" let ?c = "demo_tcb 0x20001000 2 OS_TASK_RUNNING 0"
  have b: "demo_tcbs tDelayed = Some ?b" by (simp add: demo_tcbs_def)
  obtain s0 where s0: "upd_tcb tDelayed ?f demo = Some s0" "rep s0 demo_lists ?V" "frame demo s0"
    using upd_tcb_rep [OF demo_rep _ b, of ?f] by (auto simp: data_upd_def)
  have ok: "states_ok demo_lists ?V" using states_ok_data [OF demo_states_ok b, of ?d] by (simp add: runnable_def)
  have c: "crit_ok s0" "current_task_ptr s0 = tRun"
    using demo_crit_ok frame_os(10,11,15) [OF s0(3)] by (simp_all add: crit_ok_def demo_def)
  have d: "?V (current_task_ptr s0) = Some ?c" "runnable ?c" "notify_waiter ?d" "priority ?d = 1" "priority ?c = 2" "blocked_on ?d = NULL"
    "demo_lists Blocked = [tDelayed]" "demo_lists (Ready 1) = []"
    by (simp_all add: c(2) demo_tcbs_def demo_tcb_def runnable_def notify_waiter_def demo_lists_def)
  have n: "?V tDelayed = Some ?d" "tDelayed \<noteq> NULL" "tDelayed \<noteq> current_task_ptr s0" by (simp_all add: c(2))
  have l: "to_ready Blocked tDelayed 1 demo_lists Blocked = []" "to_ready Blocked tDelayed 1 demo_lists (Ready 1) = [tDelayed]"
    using d(7,8) by (simp_all add: to_ready_def)
  from os_task_notify_correct [OF s0(2) ok c(1) n(2,1) d(1,2) n(3), of demo_env 7] d(3-7)
  obtain s1 where "os_task_notify demo_env tDelayed 7 s0 = map_option (Pair OS_OK) (os_sched_yield demo_env s1)"
    "rep s1 (to_ready Blocked tDelayed 1 demo_lists) (?V(tDelayed \<mapsto> released unwaited (notified 7 ?d)))"
    by auto
  moreover have "notify_value (released unwaited (notified 7 ?d)) = 7" by (simp add: released_def unwaited_def notified_def)
  ultimately show ?thesis using s0(1) l by fastforce
qed

end
