(* ===== verification/Kernel_Inv.thy ===== *)
theory Kernel_Inv
  imports Semaphore Mailbox Mutex Eventgroup Notify
begin

unbundle bit_operations_syntax

text \<open>
  The kernel invariant, and that every call of tasks and interrupt handlers that moves tasks between lists
  keeps it: the calls of \<open>task.c\<close>, \<open>semaphore.c\<close>, \<open>queue.c\<close>, \<open>mailbox.c\<close>,
  \<open>mutex.c\<close>, \<open>eventgroup.c\<close> and \<open>notify.c\<close>, and \<open>os_task_tick\<close>.
  \<open>System\<close> makes one transition system of them and the tick interrupt.
\<close>

section \<open>The invariant\<close>

text \<open>
  \<open>waits_on l d\<close>: the control block \<open>d\<close> names the object of the wait list \<open>l\<close> and the
  reason that goes with it. \<open>waits_ok\<close>: a task in the wait list of an object names that object; a
  task in no such list names none.
\<close>

fun waits_on :: "lid \<Rightarrow> os_tcb \<Rightarrow> bool" where
  "waits_on (QSend q) d \<longleftrightarrow> blocked_on d = q \<and> blocked_reason d = OS_BLOCKED_ON_QUEUE_SEND"
| "waits_on (QRecv q) d \<longleftrightarrow> blocked_on d = q \<and> blocked_reason d = OS_BLOCKED_ON_QUEUE_RECV"
| "waits_on (SemW x) d \<longleftrightarrow> blocked_on d = x \<and> blocked_reason d = OS_BLOCKED_ON_SEM_TAKE"
| "waits_on (MutexW x) d \<longleftrightarrow> blocked_on d = x \<and> blocked_reason d = OS_BLOCKED_ON_MUTEX_LOCK"
| "waits_on (EventW x) d \<longleftrightarrow> blocked_on d = x \<and> blocked_reason d = OS_BLOCKED_ON_EVENT_WAIT"
| "waits_on l d \<longleftrightarrow> False"

definition object_list :: "lid \<Rightarrow> bool" where
  "object_list l \<longleftrightarrow> wait_list l \<and> l \<noteq> Blocked"

definition waits_ok :: "tlists \<Rightarrow> (ptr \<rightharpoonup> os_tcb) \<Rightarrow> bool" where
  "waits_ok A V \<longleftrightarrow> (\<forall>t d. V t = Some d \<longrightarrow>
     (\<forall>l. object_list l \<and> t \<in> set (A l) \<longrightarrow> waits_on l d)
     \<and> ((\<forall>l. object_list l \<longrightarrow> t \<notin> set (A l)) \<longrightarrow> blocked_on d = NULL))"

definition kernel_ok :: "ptr set \<Rightarrow> os \<Rightarrow> tlists \<Rightarrow> (ptr \<rightharpoonup> os_tcb) \<Rightarrow> bool" where
  "kernel_ok D s A V \<longleftrightarrow> rep s A V \<and> states_ok A V \<and> current_ok s V \<and> shallow s \<and> waits_ok A V \<and> A Deferred = [] \<and> dom V = D"

definition kernel_inv :: "ptr set \<Rightarrow> os \<Rightarrow> bool" where
  "kernel_inv D s \<longleftrightarrow> (\<exists>A V. kernel_ok D s A V)"

lemma kernel_okI [intro?]:
  "rep s A V \<Longrightarrow> states_ok A V \<Longrightarrow> current_ok s V \<Longrightarrow> shallow s \<Longrightarrow> waits_ok A V \<Longrightarrow> A Deferred = [] \<Longrightarrow> dom V = D \<Longrightarrow> kernel_ok D s A V"
  by (simp add: kernel_ok_def)

lemma kernel_okD:
  assumes "kernel_ok D s A V"
  shows "rep s A V" "states_ok A V" "current_ok s V" "shallow s" "waits_ok A V" "A Deferred = []" "dom V = D"
  using assms by (simp_all add: kernel_ok_def)

lemma kernel_okE:
  assumes "kernel_inv D s" obtains A V where "kernel_ok D s A V"
  using assms by (auto simp: kernel_inv_def)

lemma shallow_same: "crit_same s s' \<Longrightarrow> shallow s \<Longrightarrow> shallow s'"
  by (simp add: crit_same_def shallow_def)

lemma kernel_okD_crit: "kernel_ok D s A V \<Longrightarrow> crit_ok s"
  using shallow_crit(1) kernel_okD(4) by blast

lemma kernel_ok_dom: "kernel_ok D s A V \<Longrightarrow> V t = Some d \<Longrightarrow> dom (V(t \<mapsto> d')) = D"
  using kernel_okD(7) by (metis dom_fun_upd insert_absorb domI option.distinct(1))

text \<open>A step that leaves the task data alone.\<close>

lemma kernel_ok_same:
  assumes "kernel_ok D s A V" "rep s1 A V" "crit_same s s1" "current_task_ptr s1 = current_task_ptr s"
  shows "kernel_inv D s1"
  using kernel_okD [OF assms(1)] assms(2-4) shallow_same current_ok_cong
  unfolding kernel_inv_def kernel_ok_def by blast

subsection \<open>One task moves\<close>

lemma object_list_simps [simp]:
  "object_list (QSend q)" "object_list (QRecv q)" "object_list (SemW x)" "object_list (MutexW x)" "object_list (EventW x)"
  "\<not> object_list Blocked" "\<not> object_list Deferred" "\<not> object_list (Ready p)"
  by (simp_all add: object_list_def wait_list_def)

lemma waits_okD:
  assumes "waits_ok A V" "V t = Some d"
  shows "object_list l \<Longrightarrow> t \<in> set (A l) \<Longrightarrow> waits_on l d"
    "(\<And>l. object_list l \<Longrightarrow> t \<notin> set (A l)) \<Longrightarrow> blocked_on d = NULL"
  using assms by (auto simp: waits_ok_def)

lemma waits_ok_move:
  assumes "waits_ok A V" and o: "\<And>x l. object_list l \<Longrightarrow> x \<noteq> t \<Longrightarrow> x \<in> set (A' l) \<longleftrightarrow> x \<in> set (A l)"
    and "\<And>l. object_list l \<Longrightarrow> t \<in> set (A' l) \<Longrightarrow> waits_on l d"
    and "(\<And>l. object_list l \<Longrightarrow> t \<notin> set (A' l)) \<Longrightarrow> blocked_on d = NULL"
  shows "waits_ok A' (V(t \<mapsto> d))"
  using assms unfolding waits_ok_def by auto

text \<open>A task that runs, is ready, delayed or suspended names no object.\<close>

lemma not_waiting:
  assumes "rep s A V" "t \<in> set (A l)" "\<not> object_list l" "object_list l'"
  shows "t \<notin> set (A l')"
  using rep_disjoint_lists [OF assms(1,2), of l'] assms(3,4) by blast

lemma moved_object:
  assumes "object_list l'"
  shows "park l V t p A l' = (if l' = l then wait_ins V t (A l) else A l')"
    "to_ready l t p A l' = (if l' = l then remove1 t (A l) else A l')"
  using assms by (auto simp: park_def to_ready_def)

lemma waits_ok_park:
  assumes "rep s A V" "waits_ok A V" "t \<in> set (A (Ready p))" "object_list l" "waits_on l d"
  shows "waits_ok (park l V t p A) (V(t \<mapsto> d))"
proof (rule waits_ok_move [OF assms(2)])
  show "x \<in> set (park l V t p A l') \<longleftrightarrow> x \<in> set (A l')" if "object_list l'" "x \<noteq> t" for x l'
    using that by (simp add: moved_object set_wait_ins)
  show "waits_on l' d" if "object_list l'" "t \<in> set (park l V t p A l')" for l'
    using that not_waiting [OF assms(1,3) _ that(1)] assms(5) by (simp add: moved_object split: if_splits)
  have "t \<in> set (park l V t p A l)" using assms(4) by (simp add: moved_object set_wait_ins)
  then show "blocked_on d = NULL" if "\<And>l'. object_list l' \<Longrightarrow> t \<notin> set (park l V t p A l')"
    using that [OF assms(4)] by blast
qed

lemma waits_ok_release:
  assumes "rep s A V" "waits_ok A V" "t \<in> set (A l)" "wait_list l" "blocked_on d = NULL"
  shows "waits_ok (to_ready l t p A) (V(t \<mapsto> d))"
proof (rule waits_ok_move [OF assms(2)])
  show "x \<in> set (to_ready l t p A l') \<longleftrightarrow> x \<in> set (A l')" if "object_list l'" "x \<noteq> t" for x l'
    using that by (simp add: moved_object)
  have d: "distinct (A l)" using rep_list(2) [OF assms(1)] assms(4) by (auto simp: wait_list_def)
  show "waits_on l' d" if "object_list l'" "t \<in> set (to_ready l t p A l')" for l'
    using that rep_disjoint_lists [OF assms(1,3), of l'] d by (simp add: moved_object split: if_splits)
qed (rule assms(5))

lemma waits_ok_other:
  assumes "waits_ok A V" "\<And>l. object_list l \<Longrightarrow> A' l = A l" "V t = Some d" "blocked_on d' = blocked_on d" "blocked_reason d' = blocked_reason d"
  shows "waits_ok A' (V(t \<mapsto> d'))"
proof -
  have "waits_on l d' = waits_on l d" for l using assms(4,5) by (cases l) simp_all
  then show ?thesis using waits_okD [OF assms(1,3)] assms(2,4) by (intro waits_ok_move [OF assms(1)]) auto
qed

lemma runnable_ready: "states_ok A V \<Longrightarrow> V t = Some d \<Longrightarrow> runnable d \<Longrightarrow> t \<in> set (A (Ready (unat (priority d))))"
  using states_okD(2) by blast

lemma kernel_ok_release:
  assumes k: "kernel_ok D s A V" and t: "t \<in> set (A l)" "wait_list l" "V t = Some d" and d: "tcb_state d' = OS_TASK_READY" "blocked_on d' = NULL"
    and s1: "rep s1 (to_ready l t p A) (V(t \<mapsto> d'))" "states_ok (to_ready l t p A) (V(t \<mapsto> d'))"
      "crit_same s s1" "current_task_ptr s1 = current_task_ptr s"
  shows "kernel_inv D s1"
proof -
  note i = kernel_okD [OF k]
  have "current_ok s1 (V(t \<mapsto> d'))" using current_ok_mono [OF i(3) s1(4)] t(3) d(1) by simp
  moreover have "waits_ok (to_ready l t p A) (V(t \<mapsto> d'))" by (rule waits_ok_release [OF i(1,5) t(1,2) d(2)])
  moreover have "to_ready l t p A Deferred = []" using i(6) t(2) by (auto simp: to_ready_def wait_list_def)
  ultimately show ?thesis using s1(1,2) shallow_same [OF s1(3) i(4)] kernel_ok_dom [OF k t(3)] unfolding kernel_inv_def kernel_ok_def by blast
qed

lemma kernel_ok_park:
  assumes k: "kernel_ok D s A V" and t: "V (current_task_ptr s) = Some d" "runnable d" "object_list l" "waits_on l d'" "tcb_state d' = OS_TASK_BLOCKED"
    and s1: "rep s1 (park l V (current_task_ptr s) (unat (priority d)) A) (V(current_task_ptr s \<mapsto> d'))"
      "states_ok (park l V (current_task_ptr s) (unat (priority d)) A) (V(current_task_ptr s \<mapsto> d'))"
      "crit_same s s1" "current_task_ptr s1 = current_task_ptr s"
  shows "kernel_inv D s1"
proof -
  note i = kernel_okD [OF k]
  have "current_ok s1 (V(current_task_ptr s \<mapsto> d'))" using current_ok_mono [OF i(3) s1(4)] t(1,5) by simp
  moreover have "waits_ok (park l V (current_task_ptr s) (unat (priority d)) A) (V(current_task_ptr s \<mapsto> d'))"
    by (rule waits_ok_park [OF i(1,5) runnable_ready [OF i(2) t(1,2)] t(3,4)])
  moreover have "park l V (current_task_ptr s) (unat (priority d)) A Deferred = []" using i(6) t(3) by (auto simp: park_def)
  ultimately show ?thesis using s1(1,2) shallow_same [OF s1(3) i(4)] kernel_ok_dom [OF k t(1)] unfolding kernel_inv_def kernel_ok_def by blast
qed

section \<open>The rest of the system\<close>

text \<open>
  What a call relies on while it has handed the processor over: when it runs again, the invariant
  holds and the caller is the current task. \<open>switch\<close> stands for the steps of all other tasks and
  interrupt handlers, which the main theorem shows to keep the invariant.
\<close>

definition switch_ok :: "env \<Rightarrow> bool" where
  "switch_ok e \<longleftrightarrow> (\<forall>D s. kernel_inv D s \<longrightarrow> (\<exists>s'. switch e s = Some s' \<and> kernel_inv D s' \<and> current_task_ptr s' = current_task_ptr s))"

lemma yield_inv:
  assumes "switch_ok e" "kernel_inv D s"
  shows "\<exists>s'. os_sched_yield e s = Some s' \<and> kernel_inv D s' \<and> current_task_ptr s' = current_task_ptr s"
proof -
  obtain A V where k: "kernel_ok D s A V" using kernel_okE [OF assms(2)] .
  let ?s = "os_port_yield (s\<lparr>yield_pending := 1\<rparr>)"
  have "kernel_inv D ?s" by (rule kernel_ok_same [OF k]) (use kernel_okD(1) [OF k] in \<open>simp_all add: os_port_yield_def crit_same_def\<close>)
  moreover have "current_task_ptr ?s = current_task_ptr s" by (simp add: os_port_yield_def)
  ultimately show ?thesis using assms unfolding switch_ok_def os_sched_yield_def by metis
qed

definition returns :: "ptr set \<Rightarrow> (os_status \<times> os) option \<Rightarrow> bool" where
  "returns D r \<longleftrightarrow> (\<exists>st s'. r = Some (st, s') \<and> kernel_inv D s')"

lemma returnsI: "r = Some (st, s') \<Longrightarrow> kernel_inv D s' \<Longrightarrow> returns D r"
  by (auto simp: returns_def)

lemma returns_yield:
  assumes "switch_ok e" "kernel_inv D s"
  shows "returns D (map_option (Pair OS_OK) (os_sched_yield e s))" "returns D (map_option (Pair OS_OK) (if b then os_sched_yield e s else Some s))"
  using yield_inv [OF assms] assms(2) by (auto simp: returns_def)

lemma kernel_inv_trace: "kernel_inv D s \<Longrightarrow> kernel_inv D (os_trace_record ev a b s)"
proof -
  assume "kernel_inv D s"
  then obtain A V where k: "kernel_ok D s A V" by (rule kernel_okE)
  show ?thesis by (rule kernel_ok_same [OF k]) (use kernel_okD(1) [OF k] in \<open>simp_all add: crit_same_def crit_simps\<close>)
qed

lemma current_tcb:
  assumes "kernel_inv D s" "current_task_ptr s \<noteq> NULL" shows "\<exists>c. get_tcb (current_task_ptr s) s = Some c"
proof -
  obtain A V where k: "kernel_ok D s A V" using kernel_okE [OF assms(1)] .
  then obtain d where "V (current_task_ptr s) = Some d" using kernel_okD(3) [OF k] assms(2) by (auto simp: current_ok_def)
  then show ?thesis using rep_Some [OF kernel_okD(1) [OF k]] assms(2) by (auto simp: get_tcb_def)
qed

lemma returns_resumed:
  assumes e: "switch_ok e" and s: "kernel_inv D s" "current_task_ptr s \<noteq> NULL" and fin: "\<And>s. \<exists>ev a b. fin s = os_trace_record ev a b s"
  shows "returns D (resumed e fin s)"
proof -
  obtain s1 where s1: "os_sched_yield e s = Some s1" "kernel_inv D s1" "current_task_ptr s1 = current_task_ptr s" using yield_inv [OF e s(1)] by blast
  obtain c where c: "get_tcb (current_task_ptr s1) s1 = Some c" using current_tcb [OF s1(2)] s1(3) s(2) by auto
  have "kernel_inv D (fin s1)" using fin [of s1] kernel_inv_trace [OF s1(2)] by auto
  then show ?thesis using s1(1,2) c by (auto simp: resumed_def os_task_get_current_def returns_def simp del: get_tcb_Some)
qed

section \<open>Every call\<close>

lemma callerE:
  assumes "kernel_inv D s" "task_running s"
  obtains A V d where "kernel_ok D s A V" "V (current_task_ptr s) = Some d" "runnable d" "tcb_state d = OS_TASK_RUNNING" "current_task_ptr s \<noteq> NULL"
proof -
  obtain A V where k: "kernel_ok D s A V" using kernel_okE [OF assms(1)] .
  obtain c where c: "tcbs s (current_task_ptr s) = Some c" "tcb_state c = OS_TASK_RUNNING" "current_task_ptr s \<noteq> NULL"
    using assms(2) by (auto simp: task_running_def get_tcb_def split: option.splits if_splits)
  have "V (current_task_ptr s) = Some (erase c)" using rep_view [OF kernel_okD(1) [OF k]] c(1) by (auto simp: view_def)
  then show thesis using that [OF k] c(2,3) by (simp add: runnable_def)
qed

subsection \<open>Semaphores\<close>

lemma sem_take_ok:
  assumes "kernel_inv D s" "task_running s" "switch_ok e" shows "returns D (os_sem_take e x n s)"
proof (cases "x = NULL")
  case True
  then show ?thesis using assms(1) by (simp add: os_sem_take_def returns_def)
next
  case x: False
  obtain A V d where k: "kernel_ok D s A V" and d: "V (current_task_ptr s) = Some d" "runnable d" "current_task_ptr s \<noteq> NULL"
    using callerE [OF assms(1,2)] by metis
  note i = kernel_okD [OF k] and c = kernel_okD_crit [OF k]
  consider "0 < sem_count (sems s x)" | "sem_count (sems s x) = 0" "n = 0" | "sem_count (sems s x) = 0" "n \<noteq> 0"
    by (metis word_neq_0_conv)
  then show ?thesis
  proof cases
    case 1
    then show ?thesis using sem_take_now [OF c x 1, of e n] kernel_ok_same [OF k] i(1) by (metis returnsI)
  next
    case 2
    then show ?thesis using sem_take_empty [OF c x 2(1), of e] kernel_ok_same [OF k] i(1) by (metis returnsI)
  next
    case 3
    obtain s1 where s1: "os_sem_take e x n s = resumed e (\<lambda>s. os_trace_record OS_TRACE_SEM_TAKE x (sem_count (sems s x)) s) s1"
      "rep s1 (park (SemW x) V (current_task_ptr s) (unat (priority d)) A) (V(current_task_ptr s \<mapsto> waiting (sem_mark x n) d))"
      "states_ok (park (SemW x) V (current_task_ptr s) (unat (priority d)) A) (V(current_task_ptr s \<mapsto> waiting (sem_mark x n) d))"
      "crit_same s s1" "current_task_ptr s1 = current_task_ptr s"
      using sem_take_blocks [OF i(1,2) c x d(1,2) 3, of e] by (elim exE conjE) (rule that)
    have "kernel_inv D s1"
      by (rule kernel_ok_park [OF k d(1,2) _ _ _ s1(2-5)]) (simp_all add: waiting_def sem_mark_def)
    then show ?thesis unfolding s1(1) using d(3) s1(5) by (intro returns_resumed [OF assms(3)]) auto
  qed
qed

lemma woken_fields: "tcb_state (woken_tcb d) = OS_TASK_READY" "blocked_on (woken_tcb d) = NULL"
  by (simp_all add: woken_tcb_def released_def)

lemma sem_give_ok:
  assumes "kernel_inv D s" "task_running s" "switch_ok e" shows "returns D (os_sem_give e x s)"
proof (cases "x = NULL")
  case True
  then show ?thesis using assms(1) by (simp add: os_sem_give_def returns_def)
next
  case x: False
  obtain A V d where k: "kernel_ok D s A V" and d: "V (current_task_ptr s) = Some d" "runnable d" using callerE [OF assms(1,2)] by metis
  note i = kernel_okD [OF k] and c = kernel_okD_crit [OF k]
  show ?thesis
  proof (cases "A (SemW x)")
    case Nil
    then show ?thesis using sem_give_counts [OF i(1) c x Nil, of e] kernel_ok_same [OF k] by (metis returnsI)
  next
    case (Cons t ts)
    obtain s1 d1 where s1: "V t = Some d1"
      "os_sem_give e x s = map_option (Pair OS_OK) (if priority d1 < priority d then os_sched_yield e s1 else Some s1)"
      "rep s1 (to_ready (SemW x) t (unat (priority d1)) A) (V(t \<mapsto> woken_tcb d1))"
      "states_ok (to_ready (SemW x) t (unat (priority d1)) A) (V(t \<mapsto> woken_tcb d1))" "crit_same s s1" "current_task_ptr s1 = current_task_ptr s"
      using sem_give_wakes [OF i(1,2) c x d Cons, of e] by (elim exE conjE) (rule that)
    have "kernel_inv D s1" by (rule kernel_ok_release [OF k _ _ s1(1) woken_fields s1(3-6)]) (simp_all add: Cons)
    then show ?thesis unfolding s1(2) by (rule returns_yield(2) [OF assms(3)])
  qed
qed

lemma sem_give_isr_ok:
  assumes "kernel_inv D s" shows "returns D (os_sem_give_from_isr x s)"
proof (cases "x = NULL")
  case True
  then show ?thesis using assms(1) by (simp add: os_sem_give_from_isr_def returns_def)
next
  case x: False
  obtain A V where k: "kernel_ok D s A V" using kernel_okE [OF assms] .
  note i = kernel_okD [OF k] and c = kernel_okD_crit [OF k]
  obtain s1 st A1 V1 where s1: "os_sem_give_from_isr x s = Some (st, s1)" "rep s1 A1 V1" "states_ok A1 V1" "crit_same s s1"
    "current_task_ptr s1 = current_task_ptr s"
    and l: "case A (SemW x) of
          [] \<Rightarrow> A1 = A \<and> V1 = V \<and> (if sem_count (sems s x) < max_count (sems s x)
                then st = OS_OK \<and> sem_count (sems s1 x) = sem_count (sems s x) + 1
                else st = OS_ERR_FULL \<and> sem_count (sems s1 x) = sem_count (sems s x))
        | t # ts \<Rightarrow> st = OS_OK \<and> sem_count (sems s1 x) = sem_count (sems s x) \<and> yield_pending s1 = 1
            \<and> (\<exists>d. V t = Some d \<and> A1 = to_ready (SemW x) t (unat (priority d)) A \<and> V1 = V(t \<mapsto> woken_tcb d))"
    using sem_give_isr [OF i(1,2) c x] by (elim exE conjE) (rule that)
  have "kernel_inv D s1"
  proof (cases "A (SemW x)")
    case Nil
    then show ?thesis using kernel_ok_same [OF k _ s1(4,5)] s1(2) l by simp
  next
    case (Cons t ts)
    obtain d where d: "V t = Some d" "A1 = to_ready (SemW x) t (unat (priority d)) A" "V1 = V(t \<mapsto> woken_tcb d)"
      using l unfolding Cons list.case by (elim exE conjE) (rule that)
    show ?thesis by (rule kernel_ok_release [OF k _ _ d(1) woken_fields s1(2,3) [unfolded d(2,3)] s1(4,5)]) (simp_all add: Cons)
  qed
  then show ?thesis using s1(1) by (rule returnsI [rotated])
qed

lemma sem_take_isr_ok:
  assumes "kernel_inv D s" shows "kernel_inv D (snd (os_sem_take_from_isr x s))"
proof (cases "x = NULL")
  case True
  then show ?thesis using assms(1) by (simp add: os_sem_take_from_isr_def)
next
  case x: False
  obtain A V where k: "kernel_ok D s A V" using kernel_okE [OF assms] .
  from sem_take_isr [OF kernel_okD_crit [OF k] x] kernel_ok_same [OF k] kernel_okD(1) [OF k] show ?thesis by (metis snd_conv)
qed

subsection \<open>Queues and mailboxes\<close>

lemma kernel_ok_wake:
  assumes k: "kernel_ok D s A V" and w: "after_wake l A V t A1 V1" "wait_list l"
    and s1: "rep s1 A1 V1" "states_ok A1 V1" "crit_same s s1" "current_task_ptr s1 = current_task_ptr s"
  shows "kernel_inv D s1"
proof (cases "A l")
  case Nil
  then show ?thesis using w(1) kernel_ok_same [OF k _ s1(3,4)] s1(1) by (simp add: after_wake_def)
next
  case (Cons u us)
  obtain d where d: "V u = Some d" "A1 = to_ready l u (unat (priority d)) A" "V1 = V(u \<mapsto> woken_tcb d)"
    using w(1) Cons by (auto simp: after_wake_def)
  show ?thesis by (rule kernel_ok_release [OF k _ w(2) d(1) woken_fields s1(1,2) [unfolded d(2,3)] s1(3,4)]) (simp add: Cons)
qed

lemma empty_section_ok:
  assumes "kernel_inv D s" shows "kernel_inv D (os_sched_exit_critical (os_sched_enter_critical s))"
proof -
  obtain A V where k: "kernel_ok D s A V" using kernel_okE [OF assms] .
  have "crit_same s (os_sched_exit_critical (os_sched_enter_critical s))"
    by (rule empty_section_crit_same [OF kernel_okD_crit [OF k]]) simp_all
  then show ?thesis by (intro kernel_ok_same [OF k]) (use kernel_okD(1) [OF k] in simp_all)
qed

lemma queue_send_ok:
  assumes "kernel_inv D s" "task_running s" "switch_ok e" shows "returns D (os_queue_send e q item n s)"
proof (cases "q = NULL \<or> item = NULL")
  case True
  then show ?thesis using assms(1) by (auto simp: os_queue_send_def returns_def)
next
  case False
  then have q: "q \<noteq> NULL" "item \<noteq> NULL" by simp_all
  obtain A V d where k: "kernel_ok D s A V" and d: "V (current_task_ptr s) = Some d" "runnable d" "current_task_ptr s \<noteq> NULL"
    using callerE [OF assms(1,2)] by metis
  note i = kernel_okD [OF k] and c = kernel_okD_crit [OF k]
  consider "q_count (queues s q) < max_items (queues s q)" | "max_items (queues s q) \<le> q_count (queues s q)" "n = 0"
    | "max_items (queues s q) \<le> q_count (queues s q)" "n \<noteq> 0" by (metis not_le)
  then show ?thesis
  proof cases
    case 1
    obtain s1 t A1 V1 where s1: "os_queue_send e q item n s = map_option (Pair OS_OK) (if preempts (QRecv q) A V d then os_sched_yield e s1 else Some s1)"
      "after_wake (QRecv q) A V t A1 V1" "rep s1 A1 V1" "states_ok A1 V1" "crit_same s s1" "current_task_ptr s1 = current_task_ptr s"
      using queue_send_run [OF i(1,2) c d(1,2) q 1, of e n] by (elim exE conjE) (rule that)
    have "kernel_inv D s1" by (rule kernel_ok_wake [OF k s1(2) _ s1(3-6)]) simp
    then show ?thesis unfolding s1(1) by (rule returns_yield(2) [OF assms(3)])
  next
    case 2
    then have "os_queue_send e q item n s = Some (OS_ERR_FULL, os_sched_exit_critical (os_sched_enter_critical s))"
      using q by (simp add: os_queue_send_def not_less [symmetric] Let_def)
    then show ?thesis by (rule returnsI) (rule empty_section_ok [OF assms(1)])
  next
    case 3
    obtain s1 where s1: "os_queue_send e q item n s = resumed e (\<lambda>s. os_trace_record OS_TRACE_QUEUE_SEND q (q_count (queues s q)) s) s1"
      "rep s1 (park (QSend q) V (current_task_ptr s) (unat (priority d)) A) (V(current_task_ptr s \<mapsto> waiting (queue_mark OS_BLOCKED_ON_QUEUE_SEND q n) d))"
      "states_ok (park (QSend q) V (current_task_ptr s) (unat (priority d)) A) (V(current_task_ptr s \<mapsto> waiting (queue_mark OS_BLOCKED_ON_QUEUE_SEND q n) d))"
      "crit_same s s1" "current_task_ptr s1 = current_task_ptr s"
      using queue_send_full [OF i(1,2) c d(1,2) q 3, of e] by (elim exE conjE) (rule that)
    have "kernel_inv D s1"
      by (rule kernel_ok_park [OF k d(1,2) _ _ _ s1(2-5)]) (simp_all add: waiting_def queue_mark_def)
    then show ?thesis unfolding s1(1) using d(3) s1(5) by (intro returns_resumed [OF assms(3)]) auto
  qed
qed

lemma queue_receive_ok:
  assumes "kernel_inv D s" "task_running s" "switch_ok e" shows "returns D (os_queue_receive e q item n s)"
proof (cases "q = NULL \<or> item = NULL")
  case True
  then show ?thesis using assms(1) by (auto simp: os_queue_receive_def returns_def)
next
  case False
  then have q: "q \<noteq> NULL" "item \<noteq> NULL" by simp_all
  obtain A V d where k: "kernel_ok D s A V" and d: "V (current_task_ptr s) = Some d" "runnable d" "current_task_ptr s \<noteq> NULL"
    using callerE [OF assms(1,2)] by metis
  note i = kernel_okD [OF k] and c = kernel_okD_crit [OF k]
  consider "0 < q_count (queues s q)" | "q_count (queues s q) = 0" "n = 0" | "q_count (queues s q) = 0" "n \<noteq> 0" by (metis word_neq_0_conv)
  then show ?thesis
  proof cases
    case 1
    obtain s1 t A1 V1 where s1: "os_queue_receive e q item n s = map_option (Pair OS_OK) (if preempts (QSend q) A V d then os_sched_yield e s1 else Some s1)"
      "after_wake (QSend q) A V t A1 V1" "rep s1 A1 V1" "states_ok A1 V1" "crit_same s s1" "current_task_ptr s1 = current_task_ptr s"
      using queue_receive_run [OF i(1,2) c d(1,2) q 1, of e n] by (elim exE conjE) (rule that)
    have "kernel_inv D s1" by (rule kernel_ok_wake [OF k s1(2) _ s1(3-6)]) simp
    then show ?thesis unfolding s1(1) by (rule returns_yield(2) [OF assms(3)])
  next
    case 2
    then have "os_queue_receive e q item n s = Some (OS_ERR_EMPTY, os_sched_exit_critical (os_sched_enter_critical s))"
      using q by (simp add: os_queue_receive_def Let_def)
    then show ?thesis by (rule returnsI) (rule empty_section_ok [OF assms(1)])
  next
    case 3
    obtain s1 where s1: "os_queue_receive e q item n s = resumed e (\<lambda>s. os_trace_record OS_TRACE_QUEUE_RECV q (q_count (queues s q)) s) s1"
      "rep s1 (park (QRecv q) V (current_task_ptr s) (unat (priority d)) A) (V(current_task_ptr s \<mapsto> waiting (queue_mark OS_BLOCKED_ON_QUEUE_RECV q n) d))"
      "states_ok (park (QRecv q) V (current_task_ptr s) (unat (priority d)) A) (V(current_task_ptr s \<mapsto> waiting (queue_mark OS_BLOCKED_ON_QUEUE_RECV q n) d))"
      "crit_same s s1" "current_task_ptr s1 = current_task_ptr s"
      using queue_receive_none [OF i(1,2) c d(1,2) q 3, of e] by (elim exE conjE) (rule that)
    have "kernel_inv D s1"
      by (rule kernel_ok_park [OF k d(1,2) _ _ _ s1(2-5)]) (simp_all add: waiting_def queue_mark_def)
    then show ?thesis unfolding s1(1) using d(3) s1(5) by (intro returns_resumed [OF assms(3)]) auto
  qed
qed

lemma queue_isr_section:
  assumes k: "kernel_ok D s A V" and s0: "rep s0 A V" "crit_same (os_sched_enter_critical s) s0" "current_task_ptr s0 = current_task_ptr s"
    and l: "l = QSend q \<or> l = QRecv q"
  shows "\<exists>t s1. queue_wake_task l s0 = Some (t, s1) \<and> kernel_inv D (isr_switch_if_woken t (os_sched_exit_critical s1))"
proof -
  obtain t s1 A1 V1 where s1: "queue_wake_task l s0 = Some (t, s1)" "frame s0 s1" "rep s1 A1 V1" "states_ok A1 V1" "after_wake l A V t A1 V1"
    using queue_wake_rep [OF s0(1) kernel_okD(2) [OF k] l] by blast
  let ?s = "isr_switch_if_woken t (os_sched_exit_critical s1)"
  have c: "crit_same s (os_sched_exit_critical s1)" by (rule crit_same_via [OF kernel_okD_crit [OF k] s0(2) s1(2)]) simp_all
  have "rep ?s A1 V1" using s1(3) by (simp add: isr_switch_if_woken_def os_sched_request_switch_from_isr_def)
  moreover have "crit_same s ?s" using c by (simp add: isr_switch_if_woken_def os_sched_request_switch_from_isr_def crit_same_def)
  moreover have "current_task_ptr ?s = current_task_ptr s"
    using s0(3) frame_os(10) [OF s1(2)] by (simp add: isr_switch_if_woken_def os_sched_request_switch_from_isr_def)
  moreover have "wait_list l" using l by auto
  ultimately show ?thesis using kernel_ok_wake [OF k s1(5) _ _ s1(4)] s1(1) by blast
qed

lemma queue_isr_ok:
  assumes "kernel_inv D s"
  shows "returns D (os_queue_send_from_isr q item s)" "returns D (os_queue_receive_from_isr q item s)"
proof -
  obtain A V where k: "kernel_ok D s A V" using kernel_okE [OF assms] .
  have r: "rep (ring_put q item (os_sched_enter_critical s)) A V" "rep (ring_get q item (os_sched_enter_critical s)) A V"
    using kernel_okD(1) [OF k] by simp_all
  have c: "crit_same (os_sched_enter_critical s) (ring_put q item (os_sched_enter_critical s))"
    "crit_same (os_sched_enter_critical s) (ring_get q item (os_sched_enter_critical s))" by (simp_all add: crit_same_def)
  obtain t1 s1 where s1: "queue_wake_task (QRecv q) (ring_put q item (os_sched_enter_critical s)) = Some (t1, s1)"
    "kernel_inv D (isr_switch_if_woken t1 (os_sched_exit_critical s1))"
    using queue_isr_section [OF k r(1) c(1), of "QRecv q" q] by auto
  obtain t2 s2 where s2: "queue_wake_task (QSend q) (ring_get q item (os_sched_enter_critical s)) = Some (t2, s2)"
    "kernel_inv D (isr_switch_if_woken t2 (os_sched_exit_critical s2))"
    using queue_isr_section [OF k r(2) c(2), of "QSend q" q] by auto
  show "returns D (os_queue_send_from_isr q item s)"
    using s1 assms empty_section_ok [OF assms] by (auto simp: os_queue_send_from_isr_def returns_def Let_def)
  show "returns D (os_queue_receive_from_isr q item s)"
    using s2 assms empty_section_ok [OF assms] by (auto simp: os_queue_receive_from_isr_def returns_def Let_def)
qed

lemma mailbox_ok:
  assumes "kernel_inv D s" "task_running s" "switch_ok e"
  shows "returns D (os_mailbox_send e q item n s)" "returns D (os_mailbox_receive e q item n s)"
  using queue_send_ok [OF assms, of q item n] queue_receive_ok [OF assms, of q item n] assms(1)
  by (simp_all add: os_mailbox_send_def os_mailbox_receive_def returns_def)

subsection \<open>Tasks\<close>

lemma kernel_ok_task:
  assumes k: "kernel_ok D s A V" and A1: "\<And>l. object_list l \<Longrightarrow> A1 l = A l" "A1 Deferred = []"
    and t: "V t = Some d" "blocked_on d' = blocked_on d" "blocked_reason d' = blocked_reason d" "tcb_state d' \<noteq> OS_TASK_RUNNING"
    and s1: "rep s1 A1 (V(t \<mapsto> d'))" "states_ok A1 (V(t \<mapsto> d'))" "crit_same s s1" "current_task_ptr s1 = current_task_ptr s"
  shows "kernel_ok D s1 A1 (V(t \<mapsto> d'))"
proof -
  note i = kernel_okD [OF k]
  have "current_ok s1 (V(t \<mapsto> d'))" using current_ok_mono [OF i(3) s1(4)] t(1,4) by simp
  moreover have "waits_ok A1 (V(t \<mapsto> d'))" by (rule waits_ok_other [OF i(5) A1(1) t(1-3)])
  ultimately show ?thesis using s1(1,2) A1(2) shallow_same [OF s1(3) i(4)] kernel_ok_dom [OF k t(1)] by (simp add: kernel_ok_def)
qed

text \<open>What the context switch relies on: the saved stack pointers of all tasks.\<close>

definition same_stacks :: "os \<Rightarrow> os \<Rightarrow> bool" where
  "same_stacks s s' \<longleftrightarrow> (\<forall>t. map_option stack_ptr (tcbs s' t) = map_option stack_ptr (tcbs s t))"

lemma same_stacks_trans: "same_stacks s s1 \<Longrightarrow> same_stacks s1 s2 \<Longrightarrow> same_stacks s s2"
  by (simp add: same_stacks_def)

lemma same_stacks_rep:
  assumes "rep s A V" "rep s' A' V'" "\<forall>t. map_option stack_ptr (V' t) = map_option stack_ptr (V t)"
  shows "same_stacks s s'"
proof -
  have "map_option stack_ptr (W t) = map_option stack_ptr (tcbs r t)" if "rep r B W" for r B W t
    using rep_view [OF that] by (cases "tcbs r t") (auto simp: view_def)
  then show ?thesis using assms by (simp add: same_stacks_def)
qed

lemma running_rep_iff:
  assumes "rep s A V" "current_task_ptr s \<noteq> NULL"
  shows "task_running s \<longleftrightarrow> map_option tcb_state (V (current_task_ptr s)) = Some OS_TASK_RUNNING"
  using rep_view [OF assms(1), symmetric] assms(2) by (auto simp: task_running_def get_tcb_def view_def split: option.splits)

lemma running_current:
  assumes "current_ok s V" "map_option tcb_state (V (current_task_ptr s)) = Some OS_TASK_RUNNING" shows "current_task_ptr s \<noteq> NULL"
proof -
  obtain d where "V (current_task_ptr s) = Some d" "tcb_state d = OS_TASK_RUNNING" using assms(2) by auto
  then show ?thesis using assms(1) unfolding current_ok_def by blast
qed

lemma schedule_ok:
  assumes "kernel_inv D s" shows "\<exists>s'. os_sched_select_next s = Some s' \<and> kernel_inv D s' \<and> same_stacks s s' \<and> (task_running s' \<or> s' = s)"
proof -
  obtain A V where k: "kernel_ok D s A V" using kernel_okE [OF assms] .
  note i = kernel_okD [OF k]
  show ?thesis
  proof (cases "\<exists>p. A (Ready p) \<noteq> []")
    case True
    define p where "p = (LEAST p. A (Ready p) \<noteq> [])"
    have p: "top_level p A" using True LeastI_ex [OF True] not_less_Least unfolding top_level_def p_def by blast
    let ?A = "rotated p (current_task_ptr s) A"
    obtain s' V' where s': "os_sched_select_next s = Some s'" "rep s' ?A V'" "states_ok ?A V'" "current_ok s' V'" "switch_frame s s'" "map_option tcb_state (V' (current_task_ptr s')) = Some OS_TASK_RUNNING"
      "\<forall>t. map_option stack_ptr (V' t) = map_option stack_ptr (V t)"
      "\<forall>t. map_option unscheduled (V' t) = map_option unscheduled (V t)"
      using select_next_rep [OF i(1-3) p] by (elim exE conjE) (rule that)
    have Al: "?A l = A l" if "\<And>p. l \<noteq> Ready p" for l using that by (auto simp: rotated_def)
    have "waits_ok ?A V'" unfolding waits_ok_def
    proof (intro allI impI)
      fix t d assume "V' t = Some d"
      then obtain d0 where d0: "V t = Some d0" "unscheduled d0 = unscheduled d" using spec [OF s'(8), of t] by (cases "V t") auto
      have f: "blocked_on d = blocked_on d0" "blocked_reason d = blocked_reason d0" using d0(2) by (metis unscheduled_sel(1), metis unscheduled_sel(2))
      have w: "waits_on l d = waits_on l d0" for l using f by (cases l) simp_all
      have ol: "?A l = A l" if "object_list l" for l using that by (intro Al) auto
      show "(\<forall>l. object_list l \<and> t \<in> set (?A l) \<longrightarrow> waits_on l d) \<and> ((\<forall>l. object_list l \<longrightarrow> t \<notin> set (?A l)) \<longrightarrow> blocked_on d = NULL)"
        using waits_okD [OF i(5) d0(1)] w f(1) ol by auto
    qed
    moreover have "?A Deferred = []" using Al [of Deferred] i(6) by simp
    moreover have "dom V' = D"
    proof -
      have "V' t = None \<longleftrightarrow> V t = None" for t using spec [OF s'(8), of t] by (metis map_option_is_None)
      then show ?thesis using i(7) by (auto simp: dom_def)
    qed
    ultimately have "kernel_ok D s' ?A V'" using s'(2-4) shallow_same [OF switch_frame_crit [OF s'(5)] i(4)] by (simp add: kernel_ok_def)
    moreover have "task_running s'" using running_rep_iff [OF s'(2)] running_current [OF s'(4,6)] s'(6) by blast
    ultimately show ?thesis using s'(1) same_stacks_rep [OF i(1) s'(2,7)] by (auto simp: kernel_inv_def)
  next
    case False
    then have "List.find (\<lambda>p. A (Ready p) \<noteq> []) [0..<8] = None" by (simp add: find_None_iff)
    then have "os_sched_select_next s = Some s" using find_highest_rep [OF i(1)] by (simp add: os_sched_select_next_def)
    then show ?thesis using assms by (intro exI [of _ s]) (simp add: same_stacks_def)
  qed
qed

lemma delay_ok:
  assumes "kernel_inv D s" "task_running s" "switch_ok e" shows "returns D (os_task_delay e n s)"
proof (cases "n = 0")
  case True
  then show ?thesis using returns_yield(1) [OF assms(3,1)] by (simp add: os_task_delay_def map_conv_bind_option comp_def)
next
  case False
  obtain A V d where k: "kernel_ok D s A V" and d: "V (current_task_ptr s) = Some d" "runnable d" using callerE [OF assms(1,2)] by metis
  note i = kernel_okD [OF k] and t = runnable_ready [OF kernel_okD(2) [OF k] d]
  let ?t = "current_task_ptr s" let ?p = "unat (priority d)"
  let ?A = "A(Ready ?p := remove1 ?t (A (Ready ?p)), Blocked := ?t # A Blocked)" let ?d = "d\<lparr>tcb_state := OS_TASK_BLOCKED, delay_ticks := n\<rparr>"
  obtain s1 where s1: "os_task_delay e n s = map_option (Pair OS_OK) (os_sched_yield e s1)" "rep s1 ?A (V(?t \<mapsto> ?d))"
    "crit_same s s1" "current_task_ptr s1 = ?t"
    using delay_rep [OF i(1) refl t d(1) False kernel_okD_crit [OF k], of e] by blast
  have "states_ok ?A (V(?t \<mapsto> ?d))" by (rule states_ok_block [OF i(2) d(1) i(1) t]) simp_all
  then have "kernel_ok D s1 ?A (V(?t \<mapsto> ?d))" using i(6) s1(2-4) by (intro kernel_ok_task [OF k _ _ d(1)]) auto
  then show ?thesis unfolding s1(1) by (intro returns_yield(1) [OF assms(3)]) (auto simp: kernel_inv_def)
qed

lemma suspend_ok:
  assumes "kernel_inv D s" "switch_ok e" "t = NULL \<or> tcbs s t \<noteq> None" shows "returns D (os_task_suspend e t s)"
proof (cases "t = NULL")
  case True
  then show ?thesis using assms(1) by (simp add: os_task_suspend_def returns_def)
next
  case tz: False
  obtain A V where k: "kernel_ok D s A V" using kernel_okE [OF assms(1)] .
  note i = kernel_okD [OF k]
  obtain c where c: "tcbs s t = Some c" using assms(3) tz by blast
  have d: "V t = Some (erase c)" using rep_view [OF i(1)] c by (auto simp: view_def)
  show ?thesis
  proof (cases "runnable c")
    case True
    let ?d = "erase c" let ?p = "unat (priority ?d)" let ?A = "A(Ready ?p := remove1 t (A (Ready ?p)))" let ?d' = "?d\<lparr>tcb_state := OS_TASK_SUSPENDED\<rparr>"
    have ru: "runnable ?d" using True by (simp add: runnable_def)
    note t = runnable_ready [OF i(2) d ru]
    obtain s1 where s1: "os_task_suspend e t s = map_option (Pair OS_OK) (if t = current_task_ptr s then os_sched_yield e s1 else Some s1)"
      "rep s1 ?A (V(t \<mapsto> ?d'))" "crit_same s s1" "current_task_ptr s1 = current_task_ptr s"
      using suspend_rep [OF i(1) t d ru kernel_okD_crit [OF k], of e] by blast
    have "states_ok ?A (V(t \<mapsto> ?d'))" by (rule states_ok_leave [OF i(2) d i(1) t]) simp_all
    then have "kernel_ok D s1 ?A (V(t \<mapsto> ?d'))" using i(6) s1(2-4) by (intro kernel_ok_task [OF k _ _ d]) auto
    then show ?thesis unfolding s1(1) by (intro returns_yield(2) [OF assms(2)]) (auto simp: kernel_inv_def)
  next
    case False
    let ?s = "os_sched_exit_critical (os_sched_enter_critical s)"
    have "os_task_suspend e t s = map_option (Pair OS_OK) (if t = current_task_ptr s then os_sched_yield e ?s else Some ?s)"
      using tz c False by (simp add: os_task_suspend_def get_tcb_def runnable_def crit_simps map_conv_bind_option comp_def)
    then show ?thesis using returns_yield(2) [OF assms(2) empty_section_ok [OF assms(1)]] by simp
  qed
qed

lemma resume_ok:
  assumes "kernel_inv D s" "t = NULL \<or> tcbs s t \<noteq> None" shows "returns D (os_task_resume t s)"
proof (cases "t = NULL")
  case True
  then show ?thesis using assms(1) by (simp add: os_task_resume_def returns_def)
next
  case tz: False
  obtain A V where k: "kernel_ok D s A V" using kernel_okE [OF assms(1)] .
  note i = kernel_okD [OF k]
  obtain c where c: "tcbs s t = Some c" using assms(2) tz by blast
  have d: "V t = Some (erase c)" using rep_view [OF i(1)] c by (auto simp: view_def)
  show ?thesis
  proof (cases "tcb_state c = OS_TASK_SUSPENDED")
    case True
    let ?d = "erase c" let ?p = "unat (priority ?d)" let ?A = "A(Ready ?p := A (Ready ?p) @ [t])" let ?d' = "?d\<lparr>tcb_state := OS_TASK_READY\<rparr>"
    have su: "tcb_state ?d = OS_TASK_SUSPENDED" using True by simp
    note nw = suspended_nowhere [OF i(1,2) d su] and p8 = states_okD(1) [OF i(2) d]
    obtain s1 where s1: "os_task_resume t s = Some (OS_OK, s1)" "rep s1 ?A (V(t \<mapsto> ?d'))" "crit_same s s1" "current_task_ptr s1 = current_task_ptr s"
      using resume_rep [OF i(1) nw tz d su p8 kernel_okD_crit [OF k]] by blast
    have "states_ok ?A (V(t \<mapsto> ?d'))" using p8 by (intro states_ok_enter [OF i(2) nw]) simp_all
    then have "kernel_ok D s1 ?A (V(t \<mapsto> ?d'))" using i(6) s1(2-4) by (intro kernel_ok_task [OF k _ _ d]) auto
    then show ?thesis using s1(1) by (auto simp: kernel_inv_def returns_def)
  next
    case False
    have "os_task_resume t s = Some (OS_OK, os_sched_exit_critical (os_sched_enter_critical s))"
      using tz c False by (simp add: os_task_resume_def get_tcb_def crit_simps)
    then show ?thesis using empty_section_ok [OF assms(1)] by (rule returnsI)
  qed
qed

text \<open>
  A change of priority: for any task but the running one and those that wait in the list of an object, which
  \<open>os_task_set_priority\<close> does not sort again.
\<close>

definition on_object :: "os_tcb \<Rightarrow> bool" where
  "on_object c \<longleftrightarrow> blocked_reason c \<in> {OS_BLOCKED_ON_QUEUE_SEND, OS_BLOCKED_ON_QUEUE_RECV, OS_BLOCKED_ON_SEM_TAKE,
     OS_BLOCKED_ON_MUTEX_LOCK, OS_BLOCKED_ON_EVENT_WAIT}"

lemma not_on_object:
  assumes "waits_ok A V" "V t = Some d" "\<not> on_object d" "object_list l" shows "t \<notin> set (A l)"
proof
  assume "t \<in> set (A l)"
  then have "waits_on l d" by (rule waits_okD(1) [OF assms(1,2,4)])
  then show False using assms(3,4) by (cases l) (simp_all add: on_object_def)
qed

lemma states_ok_reprio:
  assumes k: "kernel_ok D s A V" and t: "V t = Some d" "tcb_state d \<noteq> OS_TASK_RUNNING" "priority d = q \<or> \<not> on_object d" and q: "q < 8"
  shows "states_ok (reprio t d q A) (V(t \<mapsto> d\<lparr>priority := q\<rparr>))"
proof (cases "on_object d")
  case False
  then have "t \<notin> set (A l)" if "wait_list l" "l \<noteq> Blocked" for l
    using not_on_object [OF kernel_okD(5) [OF k] t(1), of l] that by (simp add: object_list_def)
  then show ?thesis by (rule states_ok_set_priority [OF kernel_okD(1,2) [OF k] t(1,2) q])
next
  case True
  then have e: "d\<lparr>priority := q\<rparr> = d" using t(3) by simp
  show ?thesis
  proof (cases "tcb_state d = OS_TASK_READY")
    case True
    then have m: "t \<in> set (A (Ready (unat (priority d))))" using runnable_ready [OF kernel_okD(2) [OF k] t(1)] by (simp add: runnable_def)
    then have "t \<notin> set (A l)" if "wait_list l" "l \<noteq> Blocked" for l
      using not_waiting [OF kernel_okD(1) [OF k] m, of l] that by (simp add: object_list_def wait_list_def)
    then show ?thesis by (rule states_ok_set_priority [OF kernel_okD(1,2) [OF k] t(1,2) q])
  next
    case False
    then show ?thesis using e kernel_okD(2) [OF k] t(1) by (simp add: reprio_def fun_upd_idem)
  qed
qed

lemma set_priority_ok:
  assumes "kernel_inv D s"
    "t = NULL \<or> 8 \<le> q \<or> (\<exists>c. tcbs s t = Some c \<and> (priority c = q \<or> tcb_state c \<noteq> OS_TASK_RUNNING \<and> \<not> on_object c))"
  shows "returns D (os_task_set_priority t q s)"
proof (cases "t = NULL \<or> 8 \<le> q")
  case True
  then show ?thesis using assms(1) by (auto simp: os_task_set_priority_def returns_def)
next
  case False
  obtain A V where k: "kernel_ok D s A V" using kernel_okE [OF assms(1)] .
  note i = kernel_okD [OF k]
  obtain c where c: "tcbs s t = Some c" "priority c = q \<or> tcb_state c \<noteq> OS_TASK_RUNNING \<and> \<not> on_object c" using assms(2) False by blast
  have q: "q < 8" and tz: "t \<noteq> NULL" using False by (simp_all add: not_le)
  let ?d = "erase c"
  have d: "V t = Some ?d" using rep_view [OF i(1)] c(1) by (auto simp: view_def)
  show ?thesis
  proof (cases "tcb_state c = OS_TASK_RUNNING")
    case True
    then have "os_task_set_priority t q s = Some (OS_OK, os_sched_exit_critical (os_sched_enter_critical s))"
      using c q by (intro set_priority_same [OF c(1) tz]) simp_all
    then show ?thesis using empty_section_ok [OF assms(1)] by (rule returnsI)
  next
    case False
    then have nr: "tcb_state ?d \<noteq> OS_TASK_RUNNING" "priority ?d = q \<or> \<not> on_object ?d" using c(2) by (auto simp: on_object_def)
    obtain s1 where s1: "os_task_set_priority t q s = Some (OS_OK, s1)" "crit_same s s1"
      "frame (os_sched_exit_critical (os_sched_enter_critical s)) s1" "rep s1 (reprio t ?d q A) (V(t \<mapsto> ?d\<lparr>priority := q\<rparr>))"
      using set_priority_rep [OF i(1,2) tz d nr(1) q kernel_okD_crit [OF k]] by blast
    have "kernel_ok D s1 (reprio t ?d q A) (V(t \<mapsto> ?d\<lparr>priority := q\<rparr>))"
    proof (rule kernel_ok_task [OF k _ _ d _ _ _ s1(4) states_ok_reprio [OF k d nr q] s1(2)])
      show "reprio t ?d q A l = A l" if "object_list l" for l by (rule reprio_other) (use that in auto)
      show "reprio t ?d q A Deferred = []" using i(6) by (simp add: reprio_other)
    qed (use nr frame_os(10) [OF s1(3)] in simp_all)
    then show ?thesis using s1(1) by (auto simp: kernel_inv_def returns_def)
  qed
qed

text \<open>The tick needs the canary of the running task to be intact; otherwise it stops the system.\<close>

lemma ticked_fields: "blocked_on d = NULL \<Longrightarrow> blocked_on (ticked d) = NULL" "tcb_state (ticked d) = OS_TASK_RUNNING \<Longrightarrow> tcb_state d = OS_TASK_RUNNING"
  by (auto simp: ticked_def expire_def split: if_splits)

lemma watermark_fields:
  "blocked_on (watermark s d) = blocked_on d" "blocked_reason (watermark s d) = blocked_reason d" "tcb_state (watermark s d) = tcb_state d"
  by (simp_all add: watermark_def Let_def)

lemma tick_ok:
  assumes "kernel_inv D s" "task_running s" "os_task_check_stack_overflow s = Some ()"
  shows "\<exists>s'. os_task_tick e s = Some s' \<and> kernel_inv D s' \<and> task_running s' \<and> same_stacks s s' \<and> current_task_ptr s' = current_task_ptr s"
proof -
  obtain A V d where k: "kernel_ok D s A V" and d: "V (current_task_ptr s) = Some d" "runnable d" "current_task_ptr s \<noteq> NULL"
    and dr: "tcb_state d = OS_TASK_RUNNING" using callerE [OF assms(1,2)] by metis
  note i = kernel_okD [OF k] and c = kernel_okD_crit [OF k]
  obtain c0 where c0: "tcbs s (current_task_ptr s) = Some c0" "erase c0 = d" using rep_Some [OF i(1) d(1)] by blast
  have can: "canary_ok s d" using assms(3) d(3) c0
    by (auto simp: os_task_check_stack_overflow_def get_tcb_def canary_ok_def OS_ASSERT_def split: if_splits)
  obtain s' A' V' s2 where s': "os_task_tick e s = Some s'" "rep s' A' V'" "states_ok A' V'" "A' Blocked = filter (\<lambda>t. \<not> due V t) (A Blocked)"
    "\<forall>l. wait_list l \<and> l \<noteq> Blocked \<or> l = Deferred \<longrightarrow> A' l = A l"
    "\<forall>x. V' x = (if x = current_task_ptr s then Some (watermark s d) else if x \<in> set (A Blocked) then map_option ticked (V x) else V x)"
    "current_task_ptr s' = current_task_ptr s" "frame s s2" "s' = os_sched_exit_critical (os_sched_enter_critical s2)"
    using os_task_tick_rep [OF i(1,2,6) refl d(1,2) can, of e] by (elim exE conjE) (rule that)
  have "crit_ok s2" using c frame_os [OF s'(8)] by (simp add: crit_ok_def)
  then have "crit_same s2 s'" unfolding s'(9) by (intro empty_section_crit_same) simp_all
  then have sh: "shallow s'" using i(4) frame_os [OF s'(8)] by (simp add: shallow_def crit_same_def)
  have old: "\<exists>d0. V t = Some d0 \<and> (tcb_state d1 = OS_TASK_RUNNING \<longrightarrow> tcb_state d0 = OS_TASK_RUNNING)
      \<and> (t \<in> set (A Blocked) \<longrightarrow> blocked_on d1 = blocked_on (ticked d0)) \<and> (t \<notin> set (A Blocked) \<longrightarrow> blocked_on d1 = blocked_on d0 \<and> blocked_reason d1 = blocked_reason d0)"
    if "V' t = Some d1" for t d1
  proof (cases "t = current_task_ptr s")
    case True
    have "t \<notin> set (A Blocked)" using rep_disjoint_lists [OF i(1) runnable_ready [OF i(2) d(1,2)], of Blocked] True by simp
    then show ?thesis using that s'(6) True d(1) by (auto simp: watermark_fields)
  next
    case False
    then show ?thesis using that s'(6) ticked_fields(2) by (auto split: if_splits)
  qed
  have ol: "A' l = A l" if "object_list l" for l using s'(5) that by (auto simp: object_list_def)
  have "waits_ok A' V'" unfolding waits_ok_def
  proof (intro allI impI)
    fix t d1 assume v: "V' t = Some d1"
    obtain d0 where d0: "V t = Some d0" "t \<in> set (A Blocked) \<longrightarrow> blocked_on d1 = blocked_on (ticked d0)"
      "t \<notin> set (A Blocked) \<longrightarrow> blocked_on d1 = blocked_on d0 \<and> blocked_reason d1 = blocked_reason d0" using old [OF v] by blast
    show "(\<forall>l. object_list l \<and> t \<in> set (A' l) \<longrightarrow> waits_on l d1) \<and> ((\<forall>l. object_list l \<longrightarrow> t \<notin> set (A' l)) \<longrightarrow> blocked_on d1 = NULL)"
    proof (cases "t \<in> set (A Blocked)")
      case True
      then have "t \<notin> set (A' l)" if "object_list l" for l using not_waiting [OF i(1) True _ that] ol [OF that] by simp
      moreover have "blocked_on d0 = NULL" using waits_okD(2) [OF i(5) d0(1)] not_waiting [OF i(1) True] by simp
      ultimately show ?thesis using d0(2) True ticked_fields(1) by auto
    next
      case False
      then have "waits_on l d1 = waits_on l d0" for l using d0(3) by (cases l) simp_all
      then show ?thesis using waits_okD [OF i(5) d0(1)] ol d0(3) False by auto
    qed
  qed
  moreover have "current_ok s' V'"
  proof -
    have "V' (current_task_ptr s) \<noteq> None" using s'(6) by simp
    moreover have "t = current_task_ptr s \<and> t \<noteq> NULL" if "V' t = Some d1" "tcb_state d1 = OS_TASK_RUNNING" for t d1
      using old [OF that(1)] that(2) i(3) by (auto simp: current_ok_def)
    ultimately show ?thesis using s'(7) by (simp add: current_ok_def)
  qed
  moreover have "A' Deferred = []" using s'(5) i(6) by simp
  moreover have "dom V' = D"
  proof -
    have "V' t = None \<longleftrightarrow> V t = None" for t using s'(6) d(1) by auto
    then show ?thesis using i(7) by (auto simp: dom_def)
  qed
  moreover have "same_stacks s s'"
  proof (rule same_stacks_rep [OF i(1) s'(2)], rule)
    fix t show "map_option stack_ptr (V' t) = map_option stack_ptr (V t)"
      using s'(6) d(1) by (cases "V t") (auto simp: watermark_def ticked_def expire_def Let_def)
  qed
  moreover have "task_running s'" using running_rep_iff [OF s'(2)] s'(6,7) d(3) dr by (simp add: watermark_fields)
  ultimately show ?thesis using s'(1-3,7) sh unfolding kernel_inv_def kernel_ok_def by blast
qed

subsection \<open>Mutexes\<close>

text \<open>
  Locking a mutex of another task may raise the priority of that task, which must then not wait in the list of an
  object. The last unlock needs an owner whose priority is the remembered one.
\<close>

lemma boost_ok:
  assumes k: "kernel_ok D s A V" and w: "V w = Some dw" "tcb_state dw \<noteq> OS_TASK_RUNNING" and q: "q < 8" and b: "boost_safe w dw q A"
    and s1: "rep s1 (inherit w dw q A) (V(w \<mapsto> boosted dw q))" "crit_same s s1" "current_task_ptr s1 = current_task_ptr s"
  shows "kernel_ok D s1 (inherit w dw q A) (V(w \<mapsto> boosted dw q))"
proof (rule kernel_ok_task [OF k _ _ w(1) _ _ _ s1(1) states_ok_inherit [OF kernel_okD(1,2) [OF k] w q b] s1(2,3)])
  show "inherit w dw q A l = A l" if "object_list l" for l by (rule inherit_other) (use that in auto)
  show "inherit w dw q A Deferred = []" using kernel_okD(6) [OF k] by (simp add: inherit_other)
qed (use w(2) in simp_all)

lemma lock_other_ok:
  assumes k: "kernel_ok D s A V" and x: "x \<noteq> NULL" and cur: "V (current_task_ptr s) = Some dc" "tcb_state dc = OS_TASK_RUNNING" "current_task_ptr s \<noteq> NULL"
    and w: "mutex_owner (mutexes s x) = w" "V w = Some dw" "tcb_state dw \<noteq> OS_TASK_RUNNING" "w \<noteq> NULL"
    and b: "boost_safe w dw (priority dc) A" and e: "switch_ok e"
  shows "returns D (os_mutex_lock e x n s)"
proof -
  note i = kernel_okD [OF k] and c = kernel_okD_crit [OF k]
  let ?A1 = "inherit w dw (priority dc) A" let ?V1 = "V(w \<mapsto> boosted dw (priority dc))" let ?c = "current_task_ptr s"
  let ?A = "park (MutexW x) ?V1 ?c (unat (priority dc)) ?A1" let ?V = "?V1(?c \<mapsto> waiting (mutex_mark x n) dc)"
  have p8: "priority dc < 8" using states_okD(1) [OF i(2) cur(1)] .
  have wc: "w \<noteq> ?c" using w(2,3) cur by auto
  obtain s0 where s0: "rep s0 ?A1 ?V1" "crit_same (os_sched_enter_critical s) s0" "current_task_ptr s0 = ?c"
    "os_mutex_lock e x n s = (if n = 0 then Some (OS_ERR_WOULD_BLOCK, os_sched_exit_critical s0)
       else do { s1 \<leftarrow> mutex_block_task x ?c n s0; lock_contended_result e x (os_sched_exit_critical s1) })"
    using lock_contended [OF i(1,2,4) x cur(1,2) w refl refl, of e n] by (elim exE conjE) (rule that)
  have "crit_same s (os_sched_exit_critical s0)" by (rule crit_same_via [OF c s0(2) frame_refl]) simp_all
  then have k0: "kernel_ok D (os_sched_exit_critical s0) ?A1 ?V1" using s0(1,3) by (intro boost_ok [OF k w(2,3) p8 b]) simp_all
  show ?thesis
  proof (cases "n = 0")
    case True
    then show ?thesis using s0(4) k0 by (auto simp: returns_def kernel_inv_def)
  next
    case False
    note i0 = kernel_okD [OF k0]
    have d1: "?V1 ?c = Some dc" using cur(1) wc by simp
    have rd: "runnable dc" using cur(2) by (simp add: runnable_def)
    obtain s1 where s1: "mutex_block_task x ?c n s0 = Some s1" "rep (os_sched_exit_critical s1) ?A ?V" "states_ok ?A1 ?V1 \<longrightarrow> states_ok ?A ?V"
      "crit_same s (os_sched_exit_critical s1)" "current_task_ptr s1 = current_task_ptr s0"
      using lock_blocks [OF s0(1) d1 runnable_ready [OF i0(2) d1 rd] rd c s0(2), of x n] by (elim exE conjE) (rule that)
    have cs: "crit_same (os_sched_exit_critical s0) (os_sched_exit_critical s1)"
      using s1(4) \<open>crit_same s (os_sched_exit_critical s0)\<close> by (simp add: crit_same_def)
    have c0: "current_task_ptr (os_sched_exit_critical s0) = ?c" using s0(3) by simp
    have d0: "?V1 (current_task_ptr (os_sched_exit_critical s0)) = Some dc" using d1 c0 by (simp only:)
    have inv: "kernel_inv D (os_sched_exit_critical s1)"
      by (rule kernel_ok_park [OF k0 d0 rd, of "MutexW x" "waiting (mutex_mark x n) dc", unfolded c0])
        (use s1(2,3,5) s0(3) cs i0(2) in \<open>simp_all add: waiting_def mutex_mark_def del: fun_upd_apply\<close>)
    then obtain s2 where s2: "os_sched_yield e (os_sched_exit_critical s1) = Some s2" "kernel_inv D s2" "current_task_ptr s2 = current_task_ptr s1"
      using yield_inv [OF e inv] by auto
    obtain u where "get_tcb (current_task_ptr s1) s2 = Some u" using current_tcb [OF s2(2)] s2(3) s1(5) s0(3) cur(3) by auto
    then show ?thesis unfolding s0(4) using False s1(1) s2 kernel_inv_trace [OF s2(2)]
      by (simp add: returns_def lock_contended_result_def del: get_tcb_Some)
  qed
qed

lemma mutex_lock_ok:
  assumes "kernel_inv D s" "task_running s" "switch_ok e"
    and w: "mutex_owner (mutexes s x) = NULL \<or> mutex_owner (mutexes s x) = current_task_ptr s
      \<or> (\<exists>c c0. tcbs s (mutex_owner (mutexes s x)) = Some c \<and> tcbs s (current_task_ptr s) = Some c0 \<and> (priority c \<le> priority c0 \<or> \<not> on_object c))"
  shows "returns D (os_mutex_lock e x n s)"
proof (cases "x = NULL")
  case True
  then show ?thesis using assms(1) by (simp add: os_mutex_lock_def returns_def)
next
  case x: False
  obtain A V d where k: "kernel_ok D s A V" and d: "V (current_task_ptr s) = Some d" "tcb_state d = OS_TASK_RUNNING" "current_task_ptr s \<noteq> NULL"
    using callerE [OF assms(1,2)] by metis
  note i = kernel_okD [OF k] and c = kernel_okD_crit [OF k]
  let ?w = "mutex_owner (mutexes s x)"
  from w consider "?w = NULL" | "?w = current_task_ptr s"
    | u u0 where "?w \<noteq> NULL" "?w \<noteq> current_task_ptr s" "tcbs s ?w = Some u" "tcbs s (current_task_ptr s) = Some u0" "priority u \<le> priority u0 \<or> \<not> on_object u" by blast
  then show ?thesis
  proof cases
    case 1
    then show ?thesis using lock_free [OF i(1) c x d(1,3) 1, of e n] kernel_ok_same [OF k] by (metis returnsI)
  next
    case 2
    then show ?thesis using lock_again [OF c x 2 d(3), of e n] kernel_ok_same [OF k] i(1) by (metis returnsI)
  next
    case 3
    have u: "V ?w = Some (erase u)" "V (current_task_ptr s) = Some (erase u0)" using rep_view [OF i(1)] 3 by (auto simp: view_def)
    have nr: "tcb_state (erase u) \<noteq> OS_TASK_RUNNING" using i(3) u(1) 3(2) d(3) by (auto simp: current_ok_def)
    have "priority u0 = priority d" using u(2) d(1) by auto
    then have "boost_safe ?w (erase u) (priority d) A"
      using 3(5) not_on_object [OF i(5) u(1)] by (auto simp: boost_safe_def on_object_def object_list_def)
    then show ?thesis by (rule lock_other_ok [OF k x d refl u(1) nr 3(1) _ assms(3)])
  qed
qed

lemma mutex_unlock_ok:
  assumes "kernel_inv D s" "task_running s" "switch_ok e"
    and w: "mutex_owner (mutexes s x) = current_task_ptr s \<and> lock_count (mutexes s x) = 1 \<longrightarrow>
      map_option priority (get_tcb (current_task_ptr s) s) = Some (original_prio (mutexes s x)) \<or> 8 \<le> original_prio (mutexes s x)"
  shows "returns D (os_mutex_unlock e x s)"
proof (cases "x = NULL")
  case True
  then show ?thesis using assms(1) by (simp add: os_mutex_unlock_def returns_def)
next
  case x: False
  obtain A V d where k: "kernel_ok D s A V" and d: "V (current_task_ptr s) = Some d" "tcb_state d = OS_TASK_RUNNING" "current_task_ptr s \<noteq> NULL"
    using callerE [OF assms(1,2)] by metis
  note i = kernel_okD [OF k] and c = kernel_okD_crit [OF k]
  consider "mutex_owner (mutexes s x) \<noteq> current_task_ptr s" | "mutex_owner (mutexes s x) = current_task_ptr s" "lock_count (mutexes s x) \<noteq> 1"
    | "mutex_owner (mutexes s x) = current_task_ptr s" "lock_count (mutexes s x) = 1" by blast
  then show ?thesis
  proof cases
    case 1
    then show ?thesis using unlock_not_owner [OF c x 1, of e] kernel_ok_same [OF k] i(1) by (metis returnsI)
  next
    case 2
    then show ?thesis using unlock_nested [OF c x 2, of e] kernel_ok_same [OF k] i(1) by (metis returnsI)
  next
    case 3
    obtain u where "tcbs s (current_task_ptr s) = Some u" "priority u = priority d" using rep_priority [OF i(1) d(1)] by blast
    then have p: "original_prio (mutexes s x) = priority d \<or> 8 \<le> original_prio (mutexes s x)" using w 3 d(3) by (auto simp: get_tcb_def)
    note h = unlock_hands_over [OF i(1,2,4) x d(1,2) 3 p, of e]
    show ?thesis
    proof (cases "A (MutexW x)")
      case Nil
      then show ?thesis using h kernel_ok_same [OF k] by (auto intro: returnsI)
    next
      case (Cons t ts)
      obtain s1 d1 where s1: "V t = Some d1"
        "os_mutex_unlock e x s = map_option (Pair OS_OK) (if priority d1 < priority d then os_sched_yield e s1 else Some s1)"
        "rep s1 (to_ready (MutexW x) t (unat (priority d1)) A) (V(t \<mapsto> woken_tcb d1))"
        "states_ok (to_ready (MutexW x) t (unat (priority d1)) A) (V(t \<mapsto> woken_tcb d1))" "crit_same s s1" "current_task_ptr s1 = current_task_ptr s"
        using h unfolding Cons list.case by (elim exE conjE) (rule that)
      have "kernel_inv D s1" by (rule kernel_ok_release [OF k _ _ s1(1) woken_fields s1(3-6)]) (simp_all add: Cons)
      then show ?thesis unfolding s1(2) by (rule returns_yield(2) [OF assms(3)])
    qed
  qed
qed

subsection \<open>Event groups\<close>

lemma scan_ok:
  assumes k: "kernel_ok D s A V" and sc: "scanned x [] (A (EventW x)) rs A V A1 V1" "fst ` set rs \<subseteq> set (A (EventW x))"
    and s1: "rep s1 A1 V1" "states_ok A1 V1" "crit_same s s1" "current_task_ptr s1 = current_task_ptr s"
  shows "kernel_inv D s1"
proof -
  note i = kernel_okD [OF k]
  have A1: "A1 (EventW x) = filter (\<lambda>t. t \<notin> fst ` set rs) (A (EventW x))" "\<And>l. l \<noteq> EventW x \<Longrightarrow> wait_list l \<or> l = Deferred \<Longrightarrow> A1 l = A l"
    and V1: "\<And>t. V1 t = (case map_of rs t of None \<Rightarrow> V t | Some r \<Rightarrow> map_option (granted r) (V t))" using sc(1) by (simp_all add: scanned_def)
  have g: "tcb_state (granted r d) = OS_TASK_READY" "blocked_on (granted r d) = NULL" for r d by (simp_all add: granted_def woken_fields)
  have old: "(t \<in> fst ` set rs \<and> tcb_state d = OS_TASK_READY \<and> blocked_on d = NULL) \<or> (t \<notin> fst ` set rs \<and> V t = Some d)" if "V1 t = Some d" for t d
  proof (cases "map_of rs t")
    case None
    then have "V t = Some d" "t \<notin> fst ` set rs" using that V1 [of t] by (simp_all add: map_of_eq_None_iff [symmetric])
    then show ?thesis by blast
  next
    case (Some r)
    then have "t \<in> fst ` set rs" using map_of_SomeD [OF Some] by force
    then show ?thesis using that V1 [of t] Some g by auto
  qed
  have "waits_ok A1 V1" unfolding waits_ok_def
  proof (intro allI impI)
    fix t d assume v: "V1 t = Some d"
    show "(\<forall>l. object_list l \<and> t \<in> set (A1 l) \<longrightarrow> waits_on l d) \<and> ((\<forall>l. object_list l \<longrightarrow> t \<notin> set (A1 l)) \<longrightarrow> blocked_on d = NULL)"
      using old [OF v]
    proof
      assume t: "t \<in> fst ` set rs \<and> tcb_state d = OS_TASK_READY \<and> blocked_on d = NULL"
      then have "t \<in> set (A (EventW x))" using sc(2) by blast
      then have "t \<notin> set (A1 l)" if "object_list l" for l
        using that A1 t rep_disjoint_lists [OF i(1), of t "EventW x" l] by (cases "l = EventW x") (auto simp: object_list_def)
      then show ?thesis using t by blast
    next
      assume t: "t \<notin> fst ` set rs \<and> V t = Some d"
      then have "t \<in> set (A1 l) \<longleftrightarrow> t \<in> set (A l)" if "object_list l" for l using that A1 by (cases "l = EventW x") (auto simp: object_list_def)
      then show ?thesis using waits_okD [OF i(5), of t d] t by auto
    qed
  qed
  moreover have "current_ok s1 V1"
  proof -
    have "V1 (current_task_ptr s) \<noteq> None" if "current_task_ptr s \<noteq> NULL" using i(3) that V1 by (auto simp: current_ok_def split: option.splits)
    moreover have "t = current_task_ptr s \<and> t \<noteq> NULL" if "V1 t = Some d" "tcb_state d = OS_TASK_RUNNING" for t d
      using old [OF that(1)] that(2) i(3) by (auto simp: current_ok_def)
    ultimately show ?thesis using s1(4) by (simp add: current_ok_def)
  qed
  moreover have "A1 Deferred = []" using A1(2) [of Deferred] i(6) by simp
  moreover have "dom V1 = D"
  proof -
    have "V1 t = None \<longleftrightarrow> V t = None" for t using V1 [of t] by (simp split: option.splits)
    then show ?thesis using i(7) by (auto simp: dom_def)
  qed
  ultimately show ?thesis using s1(1,2) shallow_same [OF s1(3) i(4)] unfolding kernel_inv_def kernel_ok_def by blast
qed

lemma set_bits_ok:
  assumes "kernel_inv D s" "task_running s" "switch_ok e" shows "returns D (os_eventgroup_set_bits e x bits s)"
proof (cases "x = NULL")
  case True
  then show ?thesis using assms(1) by (simp add: os_eventgroup_set_bits_def returns_def)
next
  case x: False
  obtain A V d where k: "kernel_ok D s A V" and d: "V (current_task_ptr s) = Some d" "runnable d" using callerE [OF assms(1,2)] by metis
  note i = kernel_okD [OF k] and c = kernel_okD_crit [OF k]
  let ?b = "eg_bits (eventgroups s x) OR bits"
  let ?s = "upd_eg x (\<lambda>y. y\<lparr>eg_bits := eg_bits y OR bits\<rparr>) (os_sched_enter_critical s)"
  obtain b' rs where sc: "eg_scan V ?b (A (EventW x)) = (b', rs)" by fastforce
  have r0: "rep ?s A V" using i(1) by simp
  have h: "eg_wait_list (eventgroups ?s x) = first_ptr NULL (A (EventW x))" using rep_list(3) [OF r0, of "EventW x"] by simp
  have b0: "eg_bits (eventgroups ?s x) = ?b" and A0: "A (EventW x) = [] @ A (EventW x)" and c0: "V (current_task_ptr ?s) = Some d"
    using d(1) by simp_all
  obtain s1 A1 V1 where s1: "set_bits_walk x (first_ptr NULL (A (EventW x))) False ?s
      = Some (False \<or> (\<exists>p \<in> set rs. prio_of V (fst p) < priority d), s1)"
    "frame (set_bits_to x b' ?s) s1" "rep s1 A1 V1" "states_ok A1 V1" "scanned x [] (A (EventW x)) rs A V A1 V1"
    using set_bits_walk_rep [OF r0 i(2) A0 b0 sc c0 d(2), of False] by (elim exE conjE) (rule that)
  let ?s1 = "os_sched_exit_critical s1"
  have run: "os_eventgroup_set_bits e x bits s
      = map_option (Pair OS_OK) (if \<exists>p \<in> set rs. prio_of V (fst p) < priority d then os_sched_yield e ?s1 else Some ?s1)"
    using x s1(1) h by (simp add: os_eventgroup_set_bits_def Let_def map_conv_bind_option comp_def)
  have "crit_same s ?s1" by (rule crit_same_via [OF c _ s1(2)]) (simp_all add: crit_same_def set_bits_to_def)
  moreover have "current_task_ptr ?s1 = current_task_ptr s" using frame_os(10) [OF s1(2)] by (simp add: set_bits_to_def)
  moreover have "fst ` set rs \<subseteq> set (A (EventW x))" using eg_scan_subset [OF sc] by auto
  ultimately have "kernel_inv D ?s1" using s1(3,4) by (intro scan_ok [OF k s1(5)]) simp_all
  then show ?thesis unfolding run by (rule returns_yield(2) [OF assms(3)])
qed

lemma wait_bits_ok:
  assumes "kernel_inv D s" "task_running s" "switch_ok e"
  shows "\<exists>b s'. os_eventgroup_wait_bits e x bits options n s = Some (b, s') \<and> kernel_inv D s'"
proof (cases "x = NULL")
  case True
  then show ?thesis using assms(1) by (simp add: os_eventgroup_wait_bits_def)
next
  case x: False
  obtain A V d where k: "kernel_ok D s A V" and d: "V (current_task_ptr s) = Some d" "runnable d" "current_task_ptr s \<noteq> NULL"
    using callerE [OF assms(1,2)] by metis
  note i = kernel_okD [OF k] and c = kernel_okD_crit [OF k]
  let ?b = "eg_bits (eventgroups s x)" let ?s = "os_sched_enter_critical s"
  let ?met = "if options AND OS_EVENT_WAIT_ALL \<noteq> 0 then ?b AND bits = bits else ?b AND bits \<noteq> 0"
  let ?cl = "if options AND OS_EVENT_CLEAR_ON_EXIT \<noteq> 0 then upd_eg x (\<lambda>y. y\<lparr>eg_bits := eg_bits y AND NOT bits\<rparr>) ?s else ?s"
  consider "?met" | "\<not> ?met" "n = 0" | "\<not> ?met" "n \<noteq> 0" by blast
  then show ?thesis
  proof cases
    case 1
    have "os_eventgroup_wait_bits e x bits options n s = Some (?b, os_sched_exit_critical ?cl)"
      using x 1 by (auto simp: os_eventgroup_wait_bits_def Let_def)
    moreover have "crit_same s (os_sched_exit_critical ?cl)" by (rule empty_section_crit_same [OF c]) simp_all
    moreover have "rep (os_sched_exit_critical ?cl) A V" "current_task_ptr (os_sched_exit_critical ?cl) = current_task_ptr s" using i(1) by simp_all
    ultimately show ?thesis using kernel_ok_same [OF k] by blast
  next
    case 2
    then have "os_eventgroup_wait_bits e x bits options n s = Some (0, os_sched_exit_critical ?s)"
      using x by (auto simp: os_eventgroup_wait_bits_def Let_def)
    then show ?thesis using empty_section_ok [OF assms(1)] by blast
  next
    case 3
    let ?A = "park (EventW x) V (current_task_ptr s) (unat (priority d)) A" let ?V = "V(current_task_ptr s \<mapsto> waiting (eg_mark x bits options n) d)"
    have r0: "rep ?s A V" using i(1) by simp
    obtain s1 where s1: "eg_block_task x (current_task_ptr s) bits options n ?s = Some s1" "frame ?s s1" "rep s1 ?A ?V" "states_ok ?A ?V"
      using eg.block_consistent [OF r0 i(2) d(1,2), of x bits options n] by blast
    let ?s1 = "os_sched_exit_critical s1"
    have cs: "current_task_ptr ?s1 = current_task_ptr s" using frame_os(10) [OF s1(2)] by simp
    have "crit_same s ?s1" by (rule section_crit_same [OF c s1(2)]) simp_all
    then have "kernel_inv D ?s1"
      using s1(3,4) cs by (intro kernel_ok_park [OF k d(1,2), of "EventW x"]) (simp_all add: waiting_def eg_mark_def)
    from yield_inv [OF assms(3) this] obtain s2 where s2: "os_sched_yield e ?s1 = Some s2" "kernel_inv D s2" "current_task_ptr s2 = current_task_ptr s"
      unfolding cs by blast
    obtain u where u: "get_tcb (current_task_ptr s) s2 = Some u" using current_tcb [OF s2(2)] s2(3) d(3) by auto
    have "os_eventgroup_wait_bits e x bits options n s = Some (event_return_bits u, s2)"
      using x 3 s1(1) s2(1) u by (auto simp: os_eventgroup_wait_bits_def Let_def os_task_get_current_def simp del: get_tcb_Some)
    then show ?thesis using s2(2) by blast
  qed
qed

subsection \<open>Notifications\<close>

lemma kernel_ok_data:
  assumes k: "kernel_ok D s A V" and t: "V t = Some d" "blocked_on d' = blocked_on d" "blocked_reason d' = blocked_reason d"
      "tcb_state d' = tcb_state d" "priority d' = priority d"
    and s1: "rep s1 A (V(t \<mapsto> d'))" "crit_same s s1" "current_task_ptr s1 = current_task_ptr s"
  shows "kernel_ok D s1 A (V(t \<mapsto> d'))"
proof -
  note i = kernel_okD [OF k]
  have "states_ok A (V(t \<mapsto> d'))" using t by (intro states_ok_data [OF i(2) t(1)]) (auto simp: runnable_def)
  moreover have "current_ok s1 (V(t \<mapsto> d'))" using i(3) s1(3) t(1,4) by (auto simp: current_ok_def)
  moreover have "waits_ok A (V(t \<mapsto> d'))" using waits_ok_other [OF i(5) _ t(1-3)] by blast
  ultimately show ?thesis using s1(1) i(6) shallow_same [OF s1(2) i(4)] kernel_ok_dom [OF k t(1)] by (simp add: kernel_ok_def)
qed

lemma notify_waiter_blocked:
  assumes k: "kernel_ok D s A V" and t: "V t = Some d" "notify_waiter d"
  shows "t \<in> set (A Blocked)" "blocked_on d = NULL"
proof -
  note i = kernel_okD [OF k]
  have no: "t \<notin> set (A l)" if "object_list l" for l
    using waits_okD(1) [OF i(5) t(1) that] t(2) that by (cases l) (auto simp: notify_waiter_def)
  then show "blocked_on d = NULL" using waits_okD(2) [OF i(5) t(1)] by blast
  obtain l where "wait_list l" "t \<in> set (A l)" using states_okD(3) [OF i(2) t(1)] t(2) by (auto simp: notify_waiter_def)
  then show "t \<in> set (A Blocked)" using no [of l] by (cases "l = Blocked") (auto simp: object_list_def)
qed

lemma post_notification_rep:
  assumes "rep s A V" "t \<noteq> NULL" "V t = Some d"
  shows "\<exists>s1. post_notification t v s = Some s1 \<and> rep s1 A (V(t \<mapsto> notified v d)) \<and> frame s s1"
  using upd_tcb_rep [OF assms, of "\<lambda>c. c\<lparr>notify_value := v, notify_pending := 1\<rparr>"]
  by (auto simp: data_upd_def notified_def post_notification_def)

lemma notify_ok:
  assumes "kernel_inv D s" "task_running s" "switch_ok e" "t = NULL \<or> tcbs s t \<noteq> None"
  shows "returns D (os_task_notify e t v s)"
proof (cases "t = NULL")
  case True
  then show ?thesis using assms(1) by (simp add: os_task_notify_def returns_def)
next
  case tz: False
  obtain A V dc where k: "kernel_ok D s A V" and dc: "V (current_task_ptr s) = Some dc" "runnable dc" "current_task_ptr s \<noteq> NULL"
    using callerE [OF assms(1,2)] by metis
  note i = kernel_okD [OF k] and c = kernel_okD_crit [OF k]
  obtain u where u: "tcbs s t = Some u" using assms(4) tz by blast
  define d where "d = erase u"
  have d: "V t = Some d" using rep_view [OF i(1)] u by (auto simp: view_def d_def)
  let ?d = "notified v d" let ?V = "V(t \<mapsto> ?d)" let ?s = "os_sched_enter_critical s"
  have r0: "rep ?s A V" using i(1) by simp
  have same: "priority ?d = priority d" "tcb_state ?d = tcb_state d" "blocked_reason ?d = blocked_reason d" "blocked_on ?d = blocked_on d"
    by (simp_all add: notified_def)
  obtain s1 where s1: "post_notification t v ?s = Some s1" "rep s1 A ?V" "frame ?s s1" using post_notification_rep [OF r0 tz d] by blast
  obtain w where w: "tcbs s1 t = Some w" "erase w = ?d" using rep_Some [OF s1(2), of t ?d] by auto
  have wf: "tcb_state w = tcb_state d" "blocked_reason w = blocked_reason d"
    using arg_cong [OF w(2), of tcb_state] arg_cong [OF w(2), of blocked_reason] same by simp_all
  have cs: "crit_same s (os_sched_exit_critical s1)" by (rule section_crit_same [OF c s1(3)]) simp_all
  have k1: "kernel_ok D (os_sched_exit_critical s1) A ?V"
    using s1(2) cs frame_os(10) [OF s1(3)] same by (intro kernel_ok_data [OF k d]) simp_all
  show ?thesis
  proof (cases "notify_waiter d")
    case False
    then have "os_task_notify e t v s = Some (OS_OK, os_sched_exit_critical s1)"
      using tz s1(1) w(1) wf by (auto simp: os_task_notify_def get_tcb_def Let_def notify_waiter_def)
    then show ?thesis using k1 by (auto simp: returns_def kernel_inv_def)
  next
    case True
    have b: "t \<in> set (A Blocked)" "blocked_on ?d = NULL" "priority ?d < 8"
      using notify_waiter_blocked [OF k d True] same states_okD(1) [OF i(2) d] by simp_all
    obtain s2 where s2: "notify_wake t s1 = Some s2" "frame s1 s2"
      "rep s2 (to_ready Blocked t (unat (priority d)) A) (?V(t \<mapsto> released unwaited ?d))"
      using notify_wake_rep [OF s1(2) b(1) _ b(3,2)] same by auto
    let ?s2 = "os_sched_exit_critical s2" let ?A = "to_ready Blocked t (unat (priority d)) A"
    have ct: "current_task_ptr s \<noteq> t" using runnable_not_waiting(1) [OF i(1,2) dc(1,2) b(1)] by simp
    have r2: "rep ?s2 ?A (?V(t \<mapsto> released unwaited ?d))" using s2(3) by simp
    have ok2: "states_ok ?A (?V(t \<mapsto> released unwaited ?d))"
      using states_ok_release [OF s1(2) kernel_okD(2) [OF k1] _ b(1) _ unwaited_data, of ?d] same by simp
    have cp: "current_task_ptr s2 = current_task_ptr s" using frame_os(10) [OF s2(2)] frame_os(10) [OF s1(3)] by simp
    have cs2: "crit_same (os_sched_exit_critical s1) ?s2"
      using crit_same_trans [OF _ section_crit_same [OF c frame_trans [OF s1(3) s2(2)], of s2]] cs by (auto simp: crit_same_def)
    have "kernel_inv D ?s2"
      using cp frame_os(10) [OF s1(3)] by (intro kernel_ok_release [OF k1 b(1) _ _ _ _ r2 ok2 cs2]) (simp_all add: released_def unwaited_def)
    moreover have "os_task_notify e t v s = map_option (Pair OS_OK) (yield_if_higher e t (current_task_ptr s) ?s2)"
      using tz s1(1) w(1) wf True s2(1) cp
      by (simp add: os_task_notify_def get_tcb_def Let_def notify_waiter_def os_task_get_current_def map_conv_bind_option comp_def)
    moreover have "yield_if_higher e t (current_task_ptr s) ?s2
        = (if priority (released unwaited ?d) < priority dc then os_sched_yield e ?s2 else Some ?s2)"
      using yield_if_higher_rep [OF r2 tz, of "released unwaited ?d" "current_task_ptr s" dc] dc(1,3) ct by simp
    ultimately show ?thesis using returns_yield(2) [OF assms(3)] by simp
  qed
qed

lemma take_notification:
  assumes "kernel_inv D s" "current_task_ptr s \<noteq> NULL"
  shows "\<exists>s1. upd_tcb (current_task_ptr s) (\<lambda>c. c\<lparr>notify_pending := 0\<rparr>) s = Some s1 \<and> kernel_inv D s1 \<and> frame s s1"
proof -
  obtain A V where k: "kernel_ok D s A V" using kernel_okE [OF assms(1)] .
  note i = kernel_okD [OF k]
  obtain d where d: "V (current_task_ptr s) = Some d" using i(3) assms(2) by (auto simp: current_ok_def)
  let ?f = "\<lambda>c :: os_tcb. c\<lparr>notify_pending := 0\<rparr>"
  obtain s1 where s1: "upd_tcb (current_task_ptr s) ?f s = Some s1" "rep s1 A (V(current_task_ptr s \<mapsto> ?f d))" "frame s s1"
    using upd_tcb_rep [OF i(1) assms(2) d, of ?f] by (auto simp: data_upd_def)
  have "kernel_ok D s1 A (V(current_task_ptr s \<mapsto> ?f d))"
    using s1(2) frame_os [OF s1(3)] by (intro kernel_ok_data [OF k d]) (simp_all add: crit_same_def)
  then show ?thesis using s1(1,3) by (auto simp: kernel_inv_def)
qed

lemma notify_wait_blocks:
  assumes k: "kernel_ok D s A V" and d: "V (current_task_ptr s) = Some d" "runnable d" "current_task_ptr s \<noteq> NULL"
  shows "\<exists>s1 s2. upd_tcb (current_task_ptr s) (\<lambda>c. c\<lparr>blocked_reason := OS_BLOCKED_ON_NOTIFY, timed_out := 0\<rparr>) (os_sched_enter_critical s) = Some s1
     \<and> os_task_add_to_blocked (current_task_ptr s) n s1 = Some s2 \<and> current_task_ptr s2 = current_task_ptr s \<and> kernel_inv D (os_sched_exit_critical s2)"
proof -
  note i = kernel_okD [OF k] and c = kernel_okD_crit [OF k]
  let ?t = "current_task_ptr s" let ?p = "unat (priority d)" let ?s = "os_sched_enter_critical s"
  let ?f = "\<lambda>c. c\<lparr>blocked_reason := OS_BLOCKED_ON_NOTIFY, timed_out := 0\<rparr>"
  let ?A = "A(Ready ?p := remove1 ?t (A (Ready ?p)), Blocked := ?t # A Blocked)" let ?d = "(?f d)\<lparr>tcb_state := OS_TASK_BLOCKED, delay_ticks := n\<rparr>"
  note t = runnable_ready [OF i(2) d(1,2)]
  have r0: "rep ?s A V" using i(1) by simp
  obtain s1 where s1: "upd_tcb ?t ?f ?s = Some s1" "rep s1 A (V(?t \<mapsto> ?f d))" "frame ?s s1"
    using upd_tcb_rep [OF r0 d(3,1), of ?f] by (auto simp: data_upd_def)
  obtain s2 where s2: "os_task_add_to_blocked ?t n s1 = Some s2" "frame s1 s2" "rep s2 ?A (V(?t \<mapsto> ?d))"
    using add_to_blocked_rep [OF s1(2) t, of "?f d" n] by auto
  have cs: "current_task_ptr s2 = ?t" using frame_os(10) [OF s1(3)] frame_os(10) [OF s2(2)] by simp
  have st: "states_ok ?A (V(?t \<mapsto> ?d))" by (rule states_ok_block [OF i(2) d(1) i(1) t]) simp_all
  have nb: "blocked_on d = NULL" using waits_okD(2) [OF i(5) d(1)] not_waiting [OF i(1) t] by simp
  have "?A l = A l" "?t \<notin> set (A l)" if "object_list l" for l using not_waiting [OF i(1) t _ that] that by auto
  then have "waits_ok ?A (V(?t \<mapsto> ?d))" using nb by (intro waits_ok_move [OF i(5)]) (simp_all del: fun_upd_apply)
  moreover have "current_ok (os_sched_exit_critical s2) (V(?t \<mapsto> ?d))"
    using current_ok_mono [OF i(3), of "os_sched_exit_critical s2" ?t ?d] d(1) cs by simp
  moreover have "shallow (os_sched_exit_critical s2)"
    using shallow_same [OF section_crit_same [OF c frame_trans [OF s1(3) s2(2)], of s2] i(4)] by simp
  ultimately have "kernel_ok D (os_sched_exit_critical s2) ?A (V(?t \<mapsto> ?d))" using s2(3) st i(6) kernel_ok_dom [OF k d(1)] by (simp add: kernel_ok_def)
  then show ?thesis using s1(1) s2(1) cs by (auto simp: kernel_inv_def)
qed

lemma notify_wait_ok:
  assumes "kernel_inv D s" "task_running s" "switch_ok e"
  shows "\<exists>st v s'. os_task_notify_wait e wants n s = Some (st, v, s') \<and> kernel_inv D s'"
proof -
  obtain A V d where k: "kernel_ok D s A V" and d: "V (current_task_ptr s) = Some d" "runnable d" "current_task_ptr s \<noteq> NULL"
    using callerE [OF assms(1,2)] by metis
  note i = kernel_okD [OF k] and c = kernel_okD_crit [OF k]
  let ?t = "current_task_ptr s" let ?s = "os_sched_enter_critical s"
  obtain u where u: "tcbs s ?t = Some u" "erase u = d" using rep_Some [OF i(1) d(1)] by blast
  have ue: "get_tcb ?t ?s = Some u" using u(1) d(3) by (simp add: get_tcb_def crit_simps)
  consider "notify_pending u \<noteq> 0" | "notify_pending u = 0" "n = 0" | "notify_pending u = 0" "n \<noteq> 0" by blast
  then show ?thesis
  proof cases
    case 1
    let ?f = "\<lambda>c :: os_tcb. c\<lparr>notify_pending := 0\<rparr>"
    have r0: "rep ?s A V" using i(1) by simp
    obtain s1 where s1: "upd_tcb ?t ?f ?s = Some s1" "rep s1 A (V(?t \<mapsto> ?f d))" "frame ?s s1"
      using upd_tcb_rep [OF r0 d(3,1), of ?f] by (auto simp: data_upd_def)
    have "crit_same s (os_sched_exit_critical s1)" by (rule section_crit_same [OF c s1(3)]) simp_all
    then have "kernel_ok D (os_sched_exit_critical s1) A (V(?t \<mapsto> ?f d))"
      using s1(2) frame_os(10) [OF s1(3)] by (intro kernel_ok_data [OF k d(1)]) simp_all
    moreover have "os_task_notify_wait e wants n s = Some (OS_OK, if wants then Some (notify_value u) else None, os_sched_exit_critical s1)"
      using d(3) ue 1 s1(1) by (simp add: os_task_notify_wait_def os_task_get_current_def Let_def del: get_tcb_Some)
    ultimately show ?thesis by (auto simp: kernel_inv_def)
  next
    case 2
    then have "os_task_notify_wait e wants n s = Some (OS_ERR_TIMEOUT, None, os_sched_exit_critical ?s)"
      using d(3) ue by (simp add: os_task_notify_wait_def os_task_get_current_def Let_def del: get_tcb_Some)
    then show ?thesis using empty_section_ok [OF assms(1)] by blast
  next
    case 3
    let ?n = "if n = OS_WAIT_FOREVER then 0 else n"
    obtain s1 s2 where s2: "upd_tcb ?t (\<lambda>c. c\<lparr>blocked_reason := OS_BLOCKED_ON_NOTIFY, timed_out := 0\<rparr>) ?s = Some s1"
      "os_task_add_to_blocked ?t ?n s1 = Some s2" "current_task_ptr s2 = ?t" "kernel_inv D (os_sched_exit_critical s2)"
      using notify_wait_blocks [OF k d] by blast
    obtain s3 where s3: "os_sched_yield e (os_sched_exit_critical s2) = Some s3" "kernel_inv D s3" "current_task_ptr s3 = ?t"
      using yield_inv [OF assms(3) s2(4)] s2(3) by auto
    obtain w where w: "get_tcb ?t s3 = Some w" using current_tcb [OF s3(2)] s3(3) d(3) by auto
    obtain s4 where s4: "upd_tcb ?t (\<lambda>c. c\<lparr>notify_pending := 0\<rparr>) s3 = Some s4" "kernel_inv D s4"
      using take_notification [OF s3(2)] s3(3) d(3) by auto
    have "os_task_notify_wait e wants n s = (if notify_pending w \<noteq> 0 then Some (OS_OK, if wants then Some (notify_value w) else None, s4)
        else Some (OS_ERR_TIMEOUT, None, s3))"
      using d(3) ue 3 s2(1,2) s3(1,3) w s4(1) by (simp add: os_task_notify_wait_def os_task_get_current_def Let_def del: get_tcb_Some)
    then show ?thesis using s3(2) s4(2) by auto
  qed
qed

end
