(* ===== verification/Timer.thy ===== *)
theory Timer
  imports Semaphore
begin

unbundle bit_operations_syntax

text \<open>
  Software timers, \<open>kernel/timer.c\<close>: a list of active timers whose \<open>remaining\<close> fields are
  relative to their predecessors, a list of expired timers, and the service task that runs the
  callbacks.
\<close>

section \<open>The active list\<close>

definition upd_tm :: "ptr \<Rightarrow> (os_timer \<Rightarrow> os_timer) \<Rightarrow> os \<Rightarrow> os" where
  "upd_tm x f s = s\<lparr>timers := (timers s)(x := f (timers s x))\<rparr>"

partial_function (option) timer_pos :: "(ptr \<Rightarrow> os_timer) \<Rightarrow> ptr \<Rightarrow> ptr \<Rightarrow> ptr \<Rightarrow> (ptr \<times> ptr) option" where
  "timer_pos ts timer prev iter =
     (if iter = NULL then Some (prev, iter)
      else if tm_remaining (ts timer) < tm_remaining (ts iter) then Some (prev, iter)
      else timer_pos ts timer iter (tm_next (ts iter)))"

definition prv_timer_insert_sorted :: "ptr \<Rightarrow> os \<Rightarrow> os option" where
  "prv_timer_insert_sorted timer s =
     do {
       let s = upd_tm timer (\<lambda>x. x\<lparr>tm_next := NULL\<rparr>) s;
       (prev, iter) \<leftarrow> timer_pos (timers s) timer NULL (active_timer_list s);
       let s = (if prev \<noteq> NULL
                then upd_tm timer (\<lambda>x. x\<lparr>tm_remaining := tm_remaining x - tm_remaining (timers s prev)\<rparr>) s
                else s);
       let s = (if iter \<noteq> NULL
                then upd_tm iter (\<lambda>x. x\<lparr>tm_remaining := tm_remaining x - tm_remaining (timers s timer)\<rparr>) s
                else s);
       let s = upd_tm timer (\<lambda>x. x\<lparr>tm_next := iter\<rparr>) s;
       Some (if prev \<noteq> NULL then upd_tm prev (\<lambda>x. x\<lparr>tm_next := timer\<rparr>) s
             else s\<lparr>active_timer_list := timer\<rparr>)
     }"

partial_function (option) timer_remove :: "ptr \<Rightarrow> ptr \<Rightarrow> ptr \<Rightarrow> os \<Rightarrow> os option" where
  "timer_remove timer prev iter s =
     (if iter = NULL then Some s
      else if iter = timer
      then Some (let nxt = tm_next (timers s timer);
                     s = (if prev \<noteq> NULL then upd_tm prev (\<lambda>x. x\<lparr>tm_next := nxt\<rparr>) s
                          else s\<lparr>active_timer_list := nxt\<rparr>);
                     nxt = tm_next (timers s timer)
                 in if nxt \<noteq> NULL
                    then upd_tm nxt (\<lambda>x. x\<lparr>tm_remaining := tm_remaining x + tm_remaining (timers s timer)\<rparr>) s
                    else s)
      else timer_remove timer iter (tm_next (timers s iter)) s)"

definition prv_timer_remove_from_active :: "ptr \<Rightarrow> os \<Rightarrow> os option" where
  "prv_timer_remove_from_active timer s = timer_remove timer NULL (active_timer_list s) s"

section \<open>Creation, start and stop\<close>

definition os_timer_init :: "env \<Rightarrow> os \<Rightarrow> (os_status \<times> os) option" where
  "os_timer_init e s =
     (if timer_initialized s then Some (OS_OK, s)
      else do {
        let (_, s) = os_sem_create_binary (timer_sem e) s;
        (ret, h, s) \<leftarrow> os_task_create e (timer_service_func e) (Some ''TMR'') NULL (OS_PRIO_LOWEST - 1)
                         (timer_task_stack e) OS_CONFIG_TIMER_SERVICE_STACK True s;
        if ret \<noteq> OS_OK then Some (ret, s)
        else Some (OS_OK, s\<lparr>timer_task_handle := h, timer_initialized := True\<rparr>)
      })"

definition os_timer_create ::
    "ptr \<Rightarrow> string option \<Rightarrow> u32 \<Rightarrow> os_timer_type \<Rightarrow> ptr \<Rightarrow> os \<Rightarrow> (os_status \<times> os) option" where
  "os_timer_create timer nm period ty callback s =
     (if timer = NULL \<or> callback = NULL \<or> period = 0 then Some (OS_ERR_PARAM, s)
      else do {
        nm \<leftarrow> nm;
        Some (OS_OK, upd_tm timer (\<lambda>_. \<lparr>tm_callback = callback, tm_period = period, tm_remaining = 0,
                                        tm_type = ty, tm_active = False, tm_name = strncpy_name nm,
                                        tm_next = NULL\<rparr>) s)
      })"

text \<open>The bodies that the task-level and the ISR-level operations share.\<close>

definition timer_stop_body :: "ptr \<Rightarrow> os \<Rightarrow> os option" where
  "timer_stop_body timer s =
     (if tm_active (timers s timer)
      then do {
        s \<leftarrow> prv_timer_remove_from_active timer s;
        Some (upd_tm timer (\<lambda>x. x\<lparr>tm_active := False\<rparr>) s)
      }
      else Some s)"

definition timer_start_body :: "ptr \<Rightarrow> os \<Rightarrow> os option" where
  "timer_start_body timer s =
     do {
       s \<leftarrow> (if tm_active (timers s timer) then prv_timer_remove_from_active timer s else Some s);
       let s = upd_tm timer (\<lambda>x. x\<lparr>tm_remaining := tm_period x, tm_active := True\<rparr>) s;
       prv_timer_insert_sorted timer s
     }"

definition timer_reset_body :: "ptr \<Rightarrow> os \<Rightarrow> os option" where
  "timer_reset_body timer s =
     (if tm_active (timers s timer)
      then do {
        s \<leftarrow> prv_timer_remove_from_active timer s;
        let s = upd_tm timer (\<lambda>x. x\<lparr>tm_remaining := tm_period x\<rparr>) s;
        prv_timer_insert_sorted timer s
      }
      else Some s)"

definition timer_change_period_body :: "ptr \<Rightarrow> u32 \<Rightarrow> os \<Rightarrow> os option" where
  "timer_change_period_body timer new_period s =
     do {
       let s = upd_tm timer (\<lambda>x. x\<lparr>tm_period := new_period\<rparr>) s;
       if tm_active (timers s timer)
       then do {
         s \<leftarrow> prv_timer_remove_from_active timer s;
         let s = upd_tm timer (\<lambda>x. x\<lparr>tm_remaining := new_period\<rparr>) s;
         prv_timer_insert_sorted timer s
       }
       else Some s
     }"

definition in_critical :: "(os \<Rightarrow> os option) \<Rightarrow> os \<Rightarrow> (os_status \<times> os) option" where
  "in_critical f s = do { s \<leftarrow> f (os_sched_enter_critical s); Some (OS_OK, os_sched_exit_critical s) }"

definition in_port_critical :: "(os \<Rightarrow> os option) \<Rightarrow> os \<Rightarrow> (os_status \<times> os) option" where
  "in_port_critical f s =
     do { let (pm, s) = os_port_enter_critical s; s \<leftarrow> f s; Some (OS_OK, os_port_exit_critical pm s) }"

definition os_timer_delete :: "ptr \<Rightarrow> u32 \<Rightarrow> os \<Rightarrow> (os_status \<times> os) option" where
  "os_timer_delete timer timeout s =
     (if timer = NULL then Some (OS_ERR_PARAM, s) else in_critical (timer_stop_body timer) s)"

definition os_timer_start :: "ptr \<Rightarrow> u32 \<Rightarrow> os \<Rightarrow> (os_status \<times> os) option" where
  "os_timer_start timer timeout s =
     (if timer = NULL then Some (OS_ERR_PARAM, s) else in_critical (timer_start_body timer) s)"

definition os_timer_stop :: "ptr \<Rightarrow> u32 \<Rightarrow> os \<Rightarrow> (os_status \<times> os) option" where
  "os_timer_stop timer timeout s =
     (if timer = NULL then Some (OS_ERR_PARAM, s) else in_critical (timer_stop_body timer) s)"

definition os_timer_reset :: "ptr \<Rightarrow> u32 \<Rightarrow> os \<Rightarrow> (os_status \<times> os) option" where
  "os_timer_reset timer timeout s =
     (if timer = NULL then Some (OS_ERR_PARAM, s) else in_critical (timer_reset_body timer) s)"

definition os_timer_change_period :: "ptr \<Rightarrow> u32 \<Rightarrow> u32 \<Rightarrow> os \<Rightarrow> (os_status \<times> os) option" where
  "os_timer_change_period timer new_period timeout s =
     (if timer = NULL \<or> new_period = 0 then Some (OS_ERR_PARAM, s)
      else in_critical (timer_change_period_body timer new_period) s)"

definition os_timer_is_active :: "ptr \<Rightarrow> os \<Rightarrow> bool" where
  "os_timer_is_active timer s = (if timer = NULL then False else tm_active (timers s timer))"

definition os_timer_start_from_isr :: "ptr \<Rightarrow> os \<Rightarrow> (os_status \<times> os) option" where
  "os_timer_start_from_isr timer s =
     (if timer = NULL then Some (OS_ERR_PARAM, s) else in_port_critical (timer_start_body timer) s)"

definition os_timer_stop_from_isr :: "ptr \<Rightarrow> os \<Rightarrow> (os_status \<times> os) option" where
  "os_timer_stop_from_isr timer s =
     (if timer = NULL then Some (OS_ERR_PARAM, s) else in_port_critical (timer_stop_body timer) s)"

definition os_timer_reset_from_isr :: "ptr \<Rightarrow> os \<Rightarrow> (os_status \<times> os) option" where
  "os_timer_reset_from_isr timer s =
     (if timer = NULL then Some (OS_ERR_PARAM, s) else in_port_critical (timer_reset_body timer) s)"

definition os_timer_change_period_from_isr :: "ptr \<Rightarrow> u32 \<Rightarrow> os \<Rightarrow> (os_status \<times> os) option" where
  "os_timer_change_period_from_isr timer new_period s =
     (if timer = NULL \<or> new_period = 0 then Some (OS_ERR_PARAM, s)
      else in_port_critical (timer_change_period_body timer new_period) s)"

definition os_timer_get_name :: "ptr \<Rightarrow> os \<Rightarrow> string" where
  "os_timer_get_name timer s = (if timer = NULL then ''?'' else tm_name (timers s timer))"

section \<open>The tick and the service task\<close>

definition expire_first :: "os \<Rightarrow> os option" where
  "expire_first s =
     do {
       let timer = active_timer_list s;
       let s = s\<lparr>active_timer_list := tm_next (timers s timer)\<rparr>;
       s \<leftarrow> (if tm_type (timers s timer) = OS_TIMER_AUTO_RELOAD
             then prv_timer_insert_sorted timer
                    (upd_tm timer (\<lambda>x. x\<lparr>tm_remaining := tm_period x, tm_next := NULL\<rparr>) s)
             else Some (upd_tm timer (\<lambda>x. x\<lparr>tm_active := False\<rparr>) s));
       let s = upd_tm timer (\<lambda>x. x\<lparr>tm_next := expired_list s\<rparr>) s;
       Some (s\<lparr>expired_list := timer\<rparr>)
     }"

partial_function (option) expire_loop :: "bool \<Rightarrow> os \<Rightarrow> (bool \<times> os) option" where
  "expire_loop need_signal s =
     (if active_timer_list s \<noteq> NULL \<and> tm_remaining (timers s (active_timer_list s)) = 0
      then do { s \<leftarrow> expire_first s; expire_loop True s }
      else Some (need_signal, s))"

definition os_timer_tick :: "env \<Rightarrow> os \<Rightarrow> os option" where
  "os_timer_tick e s =
     (if active_timer_list s = NULL then Some s
      else do {
        let s = upd_tm (active_timer_list s) (\<lambda>x. x\<lparr>tm_remaining := tm_remaining x - 1\<rparr>) s;
        (need_signal, s) \<leftarrow> expire_loop False s;
        if need_signal then do { (_, s) \<leftarrow> os_sem_give e (timer_sem e) s; Some s } else Some s
      })"

partial_function (option) run_expired :: "env \<Rightarrow> ptr \<Rightarrow> os \<Rightarrow> os option" where
  "run_expired e timer s =
     (if timer = NULL then Some s
      else do {
        let rest = tm_next (timers s timer);
        let s = upd_tm timer (\<lambda>x. x\<lparr>tm_next := NULL\<rparr>) s;
        s \<leftarrow> (if tm_callback (timers s timer) \<noteq> NULL
              then call_timer e (tm_callback (timers s timer)) timer s else Some s);
        run_expired e rest s
      })"

text \<open>One turn of the endless loop of \<open>timer_service_task\<close>.\<close>

definition timer_service_turn :: "env \<Rightarrow> os \<Rightarrow> os option" where
  "timer_service_turn e s =
     do {
       (_, s) \<leftarrow> os_sem_take e (timer_sem e) OS_WAIT_FOREVER s;
       let s = os_sched_enter_critical s;
       let lst = expired_list s;
       let s = s\<lparr>expired_list := NULL\<rparr>;
       let s = os_sched_exit_critical s;
       run_expired e lst s
     }"

section \<open>The active list as expiry times\<close>

text \<open>
  A segment of the timer list, and the tick at which each timer of a list expires: the field
  \<open>remaining\<close> of a timer counts from the expiry of its predecessor.
\<close>

fun tseg :: "(ptr \<Rightarrow> os_timer) \<Rightarrow> ptr \<Rightarrow> ptr list \<Rightarrow> ptr \<Rightarrow> bool" where
  "tseg ts p [] q \<longleftrightarrow> p = q"
| "tseg ts p (x # xs) q \<longleftrightarrow> p = x \<and> x \<noteq> NULL \<and> tseg ts (tm_next (ts x)) xs q"

fun expiry :: "(ptr \<Rightarrow> os_timer) \<Rightarrow> nat \<Rightarrow> ptr list \<Rightarrow> (ptr \<times> nat) list" where
  "expiry ts a [] = []"
| "expiry ts a (x # xs) = (let b = a + unat (tm_remaining (ts x)) in (x, b) # expiry ts b xs)"

definition ticks_of :: "(ptr \<Rightarrow> os_timer) \<Rightarrow> ptr list \<Rightarrow> nat" where
  "ticks_of ts xs = (\<Sum>x\<leftarrow>xs. unat (tm_remaining (ts x)))"

definition timers_ok :: "os \<Rightarrow> ptr list \<Rightarrow> bool" where
  "timers_ok s xs \<longleftrightarrow> tseg (timers s) (active_timer_list s) xs NULL \<and> distinct xs \<and> ticks_of (timers s) xs < 2 ^ 32"

lemma tseg_append: "tseg ts p (xs @ ys) r \<longleftrightarrow> (\<exists>q. tseg ts p xs q \<and> tseg ts q ys r)"
  by (induction xs arbitrary: p) auto

lemma tseg_cong: "(\<And>x. x \<in> set xs \<Longrightarrow> tm_next (ts x) = tm_next (ts' x)) \<Longrightarrow> tseg ts p xs q = tseg ts' p xs q"
  by (induction xs arbitrary: p) auto

lemma expiry_append: "expiry ts a (xs @ ys) = expiry ts a xs @ expiry ts (a + ticks_of ts xs) ys"
  by (induction xs arbitrary: a) (simp_all add: ticks_of_def Let_def add.assoc)

lemma expiry_cong: "(\<And>x. x \<in> set xs \<Longrightarrow> tm_remaining (ts x) = tm_remaining (ts' x)) \<Longrightarrow> expiry ts a xs = expiry ts' a xs"
  by (induction xs arbitrary: a) (auto simp: Let_def)

lemma expiry_fst: "map fst (expiry ts a xs) = xs"
  by (induction xs arbitrary: a) (auto simp: Let_def)

lemma filter_expiry_other: "x \<notin> set xs \<Longrightarrow> filter (\<lambda>p. fst p \<noteq> x) (expiry ts a xs) = expiry ts a xs"
  by (induction xs arbitrary: a) (auto simp: Let_def)

lemma expiry_shift: "map (\<lambda>(x, t). (x, t + d)) (expiry ts a xs) = expiry ts (a + d) xs"
  by (induction xs arbitrary: a) (auto simp: Let_def ac_simps)

section \<open>Removal\<close>

text \<open>What the walk does at the timer, once it has found its predecessor.\<close>

definition timer_cut :: "ptr \<Rightarrow> ptr \<Rightarrow> os \<Rightarrow> os" where
  "timer_cut timer prev s =
     (let nxt = tm_next (timers s timer);
          s = (if prev \<noteq> NULL then upd_tm prev (\<lambda>x. x\<lparr>tm_next := nxt\<rparr>) s else s\<lparr>active_timer_list := nxt\<rparr>);
          nxt = tm_next (timers s timer)
      in if nxt \<noteq> NULL then upd_tm nxt (\<lambda>x. x\<lparr>tm_remaining := tm_remaining x + tm_remaining (timers s timer)\<rparr>) s else s)"

lemma timer_remove_walk:
  "tseg (timers s) iter (us @ t # zs) NULL \<Longrightarrow> t \<notin> set us \<Longrightarrow>
     timer_remove t prev iter s = Some (timer_cut t (if us = [] then prev else last us) s)"
proof (induction us arbitrary: prev iter)
  case Nil
  then show ?case by (subst timer_remove.simps) (simp add: timer_cut_def)
next
  case (Cons u us)
  then show ?case by (subst timer_remove.simps) auto
qed

lemma timer_remove_absent:
  "tseg (timers s) iter xs NULL \<Longrightarrow> t \<notin> set xs \<Longrightarrow> timer_remove t prev iter s = Some s"
  by (induction xs arbitrary: prev iter) (subst timer_remove.simps, auto)+

lemma timer_cut_fields:
  assumes s': "s' = timer_cut t p s" and p: "p \<noteq> t"
  shows "tm_next (timers s' y) = (if p \<noteq> NULL \<and> y = p then tm_next (timers s t) else tm_next (timers s y))"
    "tm_remaining (timers s' y) = (if tm_next (timers s t) \<noteq> NULL \<and> y = tm_next (timers s t)
       then tm_remaining (timers s y) + tm_remaining (timers s t) else tm_remaining (timers s y))"
    "tm_active (timers s' y) = tm_active (timers s y)"
    "active_timer_list s' = (if p = NULL then tm_next (timers s t) else active_timer_list s)"
  using p by (auto simp: s' timer_cut_def upd_tm_def Let_def)

lemma expiry_absorb:
  assumes "zs \<noteq> [] \<longrightarrow> unat (tm_remaining (ts (hd zs))) + unat r < 2 ^ 32" "distinct zs"
    and "\<And>y. y \<in> set zs \<Longrightarrow> tm_remaining (ts' y) = (if y = hd zs then tm_remaining (ts y) + r else tm_remaining (ts y))"
  shows "expiry ts' a zs = expiry ts (a + unat r) zs" "zs \<noteq> [] \<Longrightarrow> ticks_of ts' zs = ticks_of ts zs + unat r"
proof -
  show "expiry ts' a zs = expiry ts (a + unat r) zs"
  proof (cases zs)
    case (Cons y ys)
    have y: "unat (tm_remaining (ts' y)) = unat (tm_remaining (ts y)) + unat r" using assms(1,3) Cons by (simp add: unat_word_ariths)
    have "tm_remaining (ts' z) = tm_remaining (ts z)" if "z \<in> set ys" for z using assms(2,3) Cons that by auto
    then have "expiry ts' b ys = expiry ts b ys" for b by (rule expiry_cong)
    then show ?thesis using Cons y by (simp add: Let_def ac_simps)
  qed simp
  assume "zs \<noteq> []"
  then obtain y ys where zs: "zs = y # ys" by (cases zs) auto
  have y: "unat (tm_remaining (ts' y)) = unat (tm_remaining (ts y)) + unat r" using assms(1,3) zs by (simp add: unat_word_ariths)
  have "map (\<lambda>x. unat (tm_remaining (ts' x))) ys = map (\<lambda>x. unat (tm_remaining (ts x))) ys" using assms(2,3) zs by auto
  then show "ticks_of ts' zs = ticks_of ts zs + unat r" unfolding ticks_of_def zs using y by (simp only: list.map sum_list.Cons) 
qed

lemma timer_cut_ok:
  assumes ok: "timers_ok s (us @ t # zs)" and s': "s' = timer_cut t (if us = [] then NULL else last us) s"
  shows "timers_ok s' (us @ zs) \<and> expiry (timers s') 0 (us @ zs) = filter (\<lambda>p. fst p \<noteq> t) (expiry (timers s) 0 (us @ t # zs))
     \<and> (\<forall>y. tm_active (timers s' y) = tm_active (timers s y))"
proof -
  let ?ts = "timers s" let ?n = "tm_next (?ts t)" let ?r = "tm_remaining (?ts t)" let ?p = "if us = [] then NULL else last us"
  have q: "tseg ?ts (active_timer_list s) us t" "tseg ?ts ?n zs NULL" "t \<noteq> NULL"
    using ok by (auto simp: timers_ok_def tseg_append)
  have dis: "distinct (us @ t # zs)" and sum: "ticks_of ?ts us + unat ?r + ticks_of ?ts zs < 2 ^ 32"
    using ok by (simp_all add: timers_ok_def ticks_of_def)
  have pt: "?p \<noteq> t" using q(3) dis by auto
  note fl = timer_cut_fields [OF s' pt]
  have n: "zs \<noteq> [] \<Longrightarrow> ?n = hd zs \<and> ?n \<noteq> NULL" "zs = [] \<Longrightarrow> ?n = NULL" using q(2) by (cases zs; simp)+
  have rus: "tm_remaining (timers s' y) = tm_remaining (?ts y)" if "y \<in> set us" for y
    using that n dis by (cases "zs = []") (auto simp: fl(2))
  have rzs: "tm_remaining (timers s' y) = (if y = hd zs then tm_remaining (?ts y) + ?r else tm_remaining (?ts y))" if "y \<in> set zs" for y
    using that n by (cases "zs = []") (auto simp: fl(2))
  have small: "zs \<noteq> [] \<longrightarrow> unat (tm_remaining (?ts (hd zs))) + unat ?r < 2 ^ 32"
    using sum by (cases zs) (simp_all add: ticks_of_def)
  have dz: "distinct zs" using dis by simp
  note ab = expiry_absorb [OF small dz rzs]
  have us: "expiry (timers s') 0 us = expiry ?ts 0 us" "ticks_of (timers s') us = ticks_of ?ts us"
    using expiry_cong [OF rus] rus by (simp_all add: ticks_of_def cong: map_cong)
  have "set us \<inter> set zs = {}" using dis by auto
  then have "last us \<notin> set zs" if "us \<noteq> []" using last_in_set [OF that] by blast
  then have "tm_next (?ts x) = tm_next (timers s' x)" if "x \<in> set zs" for x
    using that by (cases "us = []") (auto simp: fl(1))
  then have "tseg (timers s') ?n zs NULL" using q(2) tseg_cong [of zs ?ts "timers s'" ?n NULL] by blast
  moreover have "tseg (timers s') (active_timer_list s') us ?n"
  proof (cases us rule: rev_cases)
    case Nil
    then show ?thesis using fl(4) by simp
  next
    case (snoc vs v)
    have v: "tseg ?ts (active_timer_list s) vs v" "v \<noteq> NULL" using q(1) snoc by (auto simp: tseg_append)
    have "tm_next (?ts x) = tm_next (timers s' x)" if "x \<in> set vs" for x using that dis snoc by (auto simp: fl(1))
    then have "tseg (timers s') (active_timer_list s) vs v"
      using v(1) tseg_cong [of vs ?ts "timers s'" "active_timer_list s" v] by blast
    then show ?thesis using snoc v(2) fl(1,4) by (auto simp: tseg_append)
  qed
  ultimately have "tseg (timers s') (active_timer_list s') (us @ zs) NULL" by (auto simp: tseg_append)
  moreover have "ticks_of (timers s') (us @ zs) < 2 ^ 32"
    using sum us(2) ab(2) by (cases "zs = []") (simp_all add: ticks_of_def)
  moreover have "filter (\<lambda>p. fst p \<noteq> t) (expiry ?ts 0 (us @ t # zs)) = expiry ?ts 0 us @ expiry ?ts (ticks_of ?ts us + unat ?r) zs"
    using dis by (simp add: expiry_append Let_def filter_expiry_other)
  ultimately show ?thesis
    using us ab(1) dis fl(3) by (simp add: timers_ok_def expiry_append)
qed


lemma timers_ok_crit [simp]:
  "timers_ok (os_sched_enter_critical s) xs = timers_ok s xs" "timers_ok (os_sched_exit_critical s) xs = timers_ok s xs"
  "timers (os_sched_enter_critical s) = timers s" "timers (os_sched_exit_critical s) = timers s"
  by (simp_all add: timers_ok_def crit_simps)

text \<open>
  Stopping a timer changes no other timer's time. \<open>os_timer_stop\<close> returns \<open>OS_OK\<close>, the
  timer is inactive and no longer in the list of active timers, and every other timer of the list
  expires at the tick at which it would have expired, in the same order. For a timer that is not
  active nothing changes.
\<close>

theorem os_timer_stop_correct:
  assumes ok: "timers_ok s xs" and t: "t \<noteq> NULL" "tm_active (timers s t) \<longleftrightarrow> t \<in> set xs"
  shows "\<exists>s'. os_timer_stop t timeout s = Some (OS_OK, s') \<and> timers_ok s' (remove1 t xs)
     \<and> expiry (timers s') 0 (remove1 t xs) = filter (\<lambda>p. fst p \<noteq> t) (expiry (timers s) 0 xs)
     \<and> (\<forall>x. tm_active (timers s' x) = (x \<noteq> t \<and> tm_active (timers s x)))"
proof (cases "t \<in> set xs")
  case False
  then have "os_timer_stop t timeout s = Some (OS_OK, os_sched_exit_critical (os_sched_enter_critical s))"
    using t by (simp add: os_timer_stop_def in_critical_def timer_stop_body_def)
  then show ?thesis using ok False t filter_expiry_other [OF False] by (auto simp: remove1_idem)
next
  case True
  let ?s0 = "os_sched_enter_critical s"
  obtain us zs where xs: "xs = us @ t # zs" "t \<notin> set us" using split_list_first [OF True] by blast
  have ok0: "timers_ok ?s0 (us @ t # zs)" using ok xs(1) by simp
  let ?s1 = "timer_cut t (if us = [] then NULL else last us) ?s0"
  have rem: "prv_timer_remove_from_active t ?s0 = Some ?s1"
    using timer_remove_walk [of ?s0 "active_timer_list ?s0" us t zs NULL] ok0 xs(2)
    by (simp add: prv_timer_remove_from_active_def timers_ok_def)
  let ?s2 = "upd_tm t (\<lambda>x. x\<lparr>tm_active := False\<rparr>) ?s1"
  have run: "os_timer_stop t timeout s = Some (OS_OK, os_sched_exit_critical ?s2)"
    using t True rem by (simp add: os_timer_stop_def in_critical_def timer_stop_body_def)
  have f2: "tm_next (timers ?s2 y) = tm_next (timers ?s1 y)" "tm_remaining (timers ?s2 y) = tm_remaining (timers ?s1 y)"
    "tm_active (timers ?s2 y) = (y \<noteq> t \<and> tm_active (timers ?s1 y))" "active_timer_list ?s2 = active_timer_list ?s1" for y
    by (simp_all add: upd_tm_def)
  note cut = timer_cut_ok [OF ok0 refl]
  have "expiry (timers ?s2) 0 (us @ zs) = expiry (timers ?s1) 0 (us @ zs)" using f2(2) by (rule expiry_cong)
  moreover have "timers_ok ?s2 (us @ zs)"
    using cut tseg_cong [of "us @ zs" "timers ?s2" "timers ?s1"] f2 by (simp add: timers_ok_def ticks_of_def)
  moreover have "remove1 t xs = us @ zs" using xs by (simp add: remove1_append)
  ultimately show ?thesis using run cut f2(3) xs(1) by auto
qed


definition demo_timer :: "u32 \<Rightarrow> ptr \<Rightarrow> os_timer" where
  "demo_timer r nxt = \<lparr>tm_callback = 0x8000800, tm_period = 30, tm_remaining = r, tm_type = OS_TIMER_ONE_SHOT, tm_active = True,
     tm_name = ''t'', tm_next = nxt\<rparr>"

definition demo_timers :: os where
  "demo_timers = demo\<lparr>active_timer_list := 0x100, timers := (timers demo)
     (0x100 := demo_timer 10 0x200, 0x200 := demo_timer 10 0x300, 0x300 := demo_timer 5 NULL, 0x400 := (demo_timer 0 NULL)\<lparr>tm_active := False\<rparr>)\<rparr>"

lemma demo_timers_ok: "timers_ok demo_timers [0x100, 0x200, 0x300]"
  by (simp add: timers_ok_def demo_timers_def demo_timer_def ticks_of_def)

theorem os_timer_stop_correct_witness:
  "\<exists>s'. os_timer_stop 0x200 0 demo_timers = Some (OS_OK, s') \<and> timers_ok s' [0x100, 0x300]
     \<and> expiry (timers s') 0 [0x100, 0x300] = [(0x100, 10), (0x300, 25)]"
proof -
  have t: "(0x200 :: ptr) \<noteq> NULL" "tm_active (timers demo_timers 0x200) \<longleftrightarrow> 0x200 \<in> set [0x100, 0x200, 0x300 :: ptr]"
    by (simp_all add: demo_timers_def demo_timer_def)
  have "expiry (timers demo_timers) 0 [0x100, 0x200, 0x300] = [(0x100, 10), (0x200, 20), (0x300, 25)]"
    by (simp add: demo_timers_def demo_timer_def)
  then show ?thesis using os_timer_stop_correct [OF demo_timers_ok t, of 0] by auto
qed

text \<open>
  Insertion compares and subtracts the fields of single predecessors as if they were absolute times.
  A timer of 30 ticks started behind timers that expire after 10 and 20 ticks gets the time 40.
\<close>

lemma timer_start_behind_two_is_late:
  assumes s: "active_timer_list s = x" "x \<noteq> NULL" "tm_next (timers s x) = y" "y \<noteq> NULL" "tm_next (timers s y) = NULL"
    and t: "t \<noteq> NULL" "t \<noteq> x" "t \<noteq> y" "x \<noteq> y" "\<not> tm_active (timers s t)"
    and r: "tm_remaining (timers s x) \<le> tm_period (timers s t)" "tm_remaining (timers s y) \<le> tm_period (timers s t)"
  shows "\<exists>s'. os_timer_start t timeout s = Some (OS_OK, s')
     \<and> expiry (timers s') 0 [x, y, t] = [(x, unat (tm_remaining (timers s x))), (y, unat (tm_remaining (timers s x)) + unat (tm_remaining (timers s y))),
          (t, unat (tm_remaining (timers s x)) + unat (tm_period (timers s t)))]"
proof -
  let ?s0 = "upd_tm t (\<lambda>z. z\<lparr>tm_next := NULL\<rparr>) (upd_tm t (\<lambda>z. z\<lparr>tm_remaining := tm_period z, tm_active := True\<rparr>) (os_sched_enter_critical s))"
  have pos: "timer_pos (timers ?s0) t NULL x = Some (y, NULL)"
    using s t r by (subst timer_pos.simps, simp add: upd_tm_def not_less [symmetric])+
  have u: "unat (tm_period (timers s t) - tm_remaining (timers s y)) + unat (tm_remaining (timers s y)) = unat (tm_period (timers s t))"
    using r(2) by (simp add: unat_sub word_le_nat_alt)
  have "active_timer_list ?s0 = x" using s(1) by (simp add: upd_tm_def crit_simps)
  then show ?thesis
    using s t pos u by (simp add: os_timer_start_def in_critical_def timer_start_body_def prv_timer_insert_sorted_def Let_def)
      (simp add: upd_tm_def)
qed

end
