(* ===== verification/Watchdog.thy ===== *)
theory Watchdog
  imports Demo
begin

text \<open>
  The software watchdog, \<open>kernel/watchdog.c\<close>: a table of at most 16 entries, each counting the
  ticks left until its task must feed it.
\<close>

section \<open>Operations\<close>

definition upd_wdt :: "(wdt_state \<Rightarrow> wdt_state) \<Rightarrow> os \<Rightarrow> os" where
  "upd_wdt f s = s\<lparr>wdt := f (wdt s)\<rparr>"

definition upd_entry :: "nat \<Rightarrow> (os_wdt_entry \<Rightarrow> os_wdt_entry) \<Rightarrow> os \<Rightarrow> os" where
  "upd_entry i f s = upd_wdt (\<lambda>w. w\<lparr>wdt_table := (wdt_table w)(i := f (wdt_table w i))\<rparr>) s"

definition prv_find_entry :: "ptr \<Rightarrow> os \<Rightarrow> nat option" where
  "prv_find_entry handle s =
     List.find (\<lambda>i. wdt_tcb (wdt_table (wdt s) i) = handle) [0..<unat (wdt_count (wdt s))]"

definition prv_default_timeout_handler :: "ptr \<Rightarrow> ptr \<Rightarrow> os \<Rightarrow> os option" where
  "prv_default_timeout_handler handle param s = do { _ \<leftarrow> OS_ASSERT False; Some s }"

definition os_wdt_init :: "os \<Rightarrow> os" where
  "os_wdt_init s =
     upd_wdt (\<lambda>w. w\<lparr>wdt_table := (\<lambda>i. if i < 16
                        then \<lparr>wdt_tcb = NULL, wdt_deadline = 0, wdt_remaining = 0, wdt_callback = NULL,
                              wdt_cb_param = NULL, wdt_paused = False\<rparr>
                        else wdt_table w i),
                    wdt_count := 0, wdt_default_cb := NULL, wdt_default_param := NULL\<rparr>) s"

definition os_wdt_register :: "ptr \<Rightarrow> u32 \<Rightarrow> ptr \<Rightarrow> ptr \<Rightarrow> os \<Rightarrow> os_status \<times> os" where
  "os_wdt_register handle deadline cb param s =
     (if handle = NULL \<or> deadline = 0 then (OS_ERR_PARAM, s)
      else let s = os_sched_enter_critical s in
        if prv_find_entry handle s \<noteq> None then (OS_ERR_STATE, os_sched_exit_critical s)
        else if wdt_count (wdt s) \<ge> OS_WDT_MAX_ENTRIES then (OS_ERR_FULL, os_sched_exit_critical s)
        else let s = upd_entry (unat (wdt_count (wdt s)))
                       (\<lambda>_. \<lparr>wdt_tcb = handle, wdt_deadline = deadline, wdt_remaining = deadline,
                             wdt_callback = cb, wdt_cb_param = param, wdt_paused = False\<rparr>) s;
                 s = upd_wdt (\<lambda>w. w\<lparr>wdt_count := wdt_count w + 1\<rparr>) s
             in (OS_OK, os_sched_exit_critical s))"

definition os_wdt_unregister :: "ptr \<Rightarrow> os \<Rightarrow> os_status \<times> os" where
  "os_wdt_unregister handle s =
     (if handle = NULL then (OS_ERR_PARAM, s)
      else let s = os_sched_enter_critical s in
        case prv_find_entry handle s of
          None \<Rightarrow> (OS_ERR_PARAM, os_sched_exit_critical s)
        | Some i \<Rightarrow>
            let k = unat (wdt_count (wdt s) - 1);
                lst = wdt_table (wdt s) k;
                s = upd_entry i (\<lambda>_. lst) s;
                s = upd_entry k (\<lambda>x. x\<lparr>wdt_tcb := NULL\<rparr>) s;
                s = upd_wdt (\<lambda>w. w\<lparr>wdt_count := wdt_count w - 1\<rparr>) s
            in (OS_OK, os_sched_exit_critical s))"

definition os_wdt_feed_task :: "ptr \<Rightarrow> os \<Rightarrow> os_status \<times> os" where
  "os_wdt_feed_task handle s =
     (if handle = NULL then (OS_ERR_PARAM, s)
      else case prv_find_entry handle s of
             None \<Rightarrow> (OS_ERR_PARAM, s)
           | Some i \<Rightarrow> (OS_OK, upd_entry i (\<lambda>x. x\<lparr>wdt_remaining := wdt_deadline x\<rparr>) s))"

definition os_wdt_feed :: "os \<Rightarrow> os_status \<times> os" where
  "os_wdt_feed s = os_wdt_feed_task (os_task_get_current s) s"

definition os_wdt_pause :: "ptr \<Rightarrow> os \<Rightarrow> os_status \<times> os" where
  "os_wdt_pause handle s =
     (if handle = NULL then (OS_ERR_PARAM, s)
      else case prv_find_entry handle s of
             None \<Rightarrow> (OS_ERR_PARAM, s)
           | Some i \<Rightarrow> (OS_OK, upd_entry i (\<lambda>x. x\<lparr>wdt_paused := True\<rparr>) s))"

definition os_wdt_resume :: "ptr \<Rightarrow> os \<Rightarrow> os_status \<times> os" where
  "os_wdt_resume handle s =
     (if handle = NULL then (OS_ERR_PARAM, s)
      else case prv_find_entry handle s of
             None \<Rightarrow> (OS_ERR_PARAM, s)
           | Some i \<Rightarrow> (OS_OK, upd_entry i (\<lambda>x. x\<lparr>wdt_paused := False, wdt_remaining := wdt_deadline x\<rparr>) s))"

definition os_wdt_set_deadline :: "ptr \<Rightarrow> u32 \<Rightarrow> os \<Rightarrow> os_status \<times> os" where
  "os_wdt_set_deadline handle new_deadline s =
     (if handle = NULL \<or> new_deadline = 0 then (OS_ERR_PARAM, s)
      else case prv_find_entry handle s of
             None \<Rightarrow> (OS_ERR_PARAM, s)
           | Some i \<Rightarrow>
               let s = os_sched_enter_critical s;
                   s = upd_entry i (\<lambda>x. x\<lparr>wdt_deadline := new_deadline, wdt_remaining := new_deadline\<rparr>) s
               in (OS_OK, os_sched_exit_critical s))"

definition os_wdt_get_remaining :: "ptr \<Rightarrow> os \<Rightarrow> u32" where
  "os_wdt_get_remaining handle s =
     (if handle = NULL then 0
      else case prv_find_entry handle s of None \<Rightarrow> 0 | Some i \<Rightarrow> wdt_remaining (wdt_table (wdt s) i))"

definition os_wdt_is_registered :: "ptr \<Rightarrow> os \<Rightarrow> bool" where
  "os_wdt_is_registered handle s = (if handle = NULL then False else prv_find_entry handle s \<noteq> None)"

definition os_wdt_set_default_callback :: "ptr \<Rightarrow> ptr \<Rightarrow> os \<Rightarrow> os_status \<times> os" where
  "os_wdt_set_default_callback cb param s =
     (OS_OK, upd_wdt (\<lambda>w. w\<lparr>wdt_default_cb := cb, wdt_default_param := param\<rparr>) s)"

definition wdt_fire :: "env \<Rightarrow> os_wdt_entry \<Rightarrow> os \<Rightarrow> os option" where
  "wdt_fire e x s =
     (if wdt_callback x \<noteq> NULL then call_wdt e (wdt_callback x) (wdt_tcb x) (wdt_cb_param x) s
      else if wdt_default_cb (wdt s) \<noteq> NULL
      then call_wdt e (wdt_default_cb (wdt s)) (wdt_tcb x) (wdt_default_param (wdt s)) s
      else prv_default_timeout_handler (wdt_tcb x) NULL s)"

definition wdt_tick_entry :: "env \<Rightarrow> nat \<Rightarrow> os \<Rightarrow> os option" where
  "wdt_tick_entry e i s =
     (let x = wdt_table (wdt s) i in
      if wdt_paused x \<or> wdt_tcb x = NULL then Some s
      else do {
        let s = (if wdt_remaining x > 0
                 then upd_entry i (\<lambda>x. x\<lparr>wdt_remaining := wdt_remaining x - 1\<rparr>) s else s);
        if wdt_remaining (wdt_table (wdt s) i) = 0
        then do {
          s \<leftarrow> wdt_fire e (wdt_table (wdt s) i) s;
          Some (upd_entry i (\<lambda>x. x\<lparr>wdt_remaining := wdt_deadline x\<rparr>) s)
        }
        else Some s
      })"

text \<open>A callback may register or unregister entries, so the bound is read again at each turn.\<close>

partial_function (option) wdt_tick_from :: "env \<Rightarrow> u32 \<Rightarrow> os \<Rightarrow> os option" where
  "wdt_tick_from e i s =
     (if i < wdt_count (wdt s)
      then do { s \<leftarrow> wdt_tick_entry e (unat i) s; wdt_tick_from e (i + 1) s }
      else Some s)"

definition os_wdt_tick :: "env \<Rightarrow> os \<Rightarrow> os option" where
  "os_wdt_tick e s = wdt_tick_from e 0 s"

section \<open>A tick as a function of the table\<close>

definition wdt_due :: "os_wdt_entry \<Rightarrow> bool" where
  "wdt_due x \<longleftrightarrow> \<not> wdt_paused x \<and> wdt_tcb x \<noteq> NULL \<and> wdt_remaining x \<le> 1"

definition wdt_ticked :: "os_wdt_entry \<Rightarrow> os_wdt_entry" where
  "wdt_ticked x =
     (if wdt_paused x \<or> wdt_tcb x = NULL then x
      else if wdt_due x then x\<lparr>wdt_remaining := wdt_deadline x\<rparr>
      else x\<lparr>wdt_remaining := wdt_remaining x - 1\<rparr>)"

text \<open>The callback that reports an entry, with its arguments.\<close>

definition wdt_report :: "wdt_state \<Rightarrow> os_wdt_entry \<Rightarrow> ptr \<times> ptr \<times> ptr" where
  "wdt_report w x = (if wdt_callback x \<noteq> NULL then (wdt_callback x, wdt_tcb x, wdt_cb_param x)
     else (wdt_default_cb w, wdt_tcb x, wdt_default_param w))"

definition wdt_reports :: "nat \<Rightarrow> wdt_state \<Rightarrow> (ptr \<times> ptr \<times> ptr) list" where
  "wdt_reports i w = map (wdt_report w) (filter wdt_due (map (wdt_table w) [i..<unat (wdt_count w)]))"

definition wdt_after :: "nat \<Rightarrow> wdt_state \<Rightarrow> wdt_state" where
  "wdt_after i w = w\<lparr>wdt_table := (\<lambda>j. if i \<le> j \<and> j < unat (wdt_count w) then wdt_ticked (wdt_table w j) else wdt_table w j)\<rparr>"

text \<open>
  Callbacks that leave the watchdog alone: \<open>report\<close> is what the callbacks do to the rest of the
  system, and it neither reads nor writes the watchdog's table.
\<close>

definition wdt_callbacks :: "env \<Rightarrow> (ptr \<times> ptr \<times> ptr \<Rightarrow> os \<Rightarrow> os) \<Rightarrow> bool" where
  "wdt_callbacks e report \<longleftrightarrow> (\<forall>cb h p s. cb \<noteq> NULL \<longrightarrow> call_wdt e cb h p s = Some (report (cb, h, p) s))
     \<and> (\<forall>a s w. report a (s\<lparr>wdt := w\<rparr>) = (report a s)\<lparr>wdt := w\<rparr>)"

lemma wdt_callbacksD:
  assumes "wdt_callbacks e report"
  shows "cb \<noteq> NULL \<Longrightarrow> call_wdt e cb h p s = Some (report (cb, h, p) s)" "report a (s\<lparr>wdt := w\<rparr>) = (report a s)\<lparr>wdt := w\<rparr>"
    "wdt (report a s) = wdt s"
proof -
  show c: "report a (s\<lparr>wdt := w\<rparr>) = (report a s)\<lparr>wdt := w\<rparr>" for s w using assms unfolding wdt_callbacks_def by blast
  show "cb \<noteq> NULL \<Longrightarrow> call_wdt e cb h p s = Some (report (cb, h, p) s)" using assms unfolding wdt_callbacks_def by blast
  have eq: "report a s = (report a s)\<lparr>wdt := wdt s\<rparr>" using c [of "wdt s" s] by simp
  have "wdt ((report a s)\<lparr>wdt := wdt s\<rparr>) = wdt s" by simp
  then show "wdt (report a s) = wdt s" by (rule trans [OF arg_cong [OF eq, of wdt]])
qed


lemma report_wdt: "wdt_callbacks e report \<Longrightarrow> fold report rs (s\<lparr>wdt := w\<rparr>) = (fold report rs s)\<lparr>wdt := w\<rparr>"
  by (induction rs arbitrary: s) (simp_all add: wdt_callbacksD(2))

lemma wdt_tick_entry_spec:
  assumes e: "wdt_callbacks e report" and x: "x = wdt_table (wdt s) i"
    and h: "wdt_due x \<longrightarrow> wdt_callback x \<noteq> NULL \<or> wdt_default_cb (wdt s) \<noteq> NULL"
  shows "wdt_tick_entry e i s = Some ((if wdt_due x then report (wdt_report (wdt s) x) s else s)
     \<lparr>wdt := (wdt s)\<lparr>wdt_table := (wdt_table (wdt s))(i := wdt_ticked x)\<rparr>\<rparr>)"
proof (cases "wdt_due x")
  case True
  let ?y = "x\<lparr>wdt_remaining := 0\<rparr>" let ?w = "(wdt s)\<lparr>wdt_table := (wdt_table (wdt s))(i := ?y)\<rparr>"
  let ?r = "report (wdt_report (wdt s) x)"
  have act: "\<not> wdt_paused x" "wdt_tcb x \<noteq> NULL" "wdt_remaining x = 0 \<or> wdt_remaining x = 1"
  proof -
    show "\<not> wdt_paused x" "wdt_tcb x \<noteq> NULL" using True by (simp_all add: wdt_due_def)
    have "unat (wdt_remaining x) \<le> 1" using True by (simp add: wdt_due_def word_le_nat_alt)
    then consider "unat (wdt_remaining x) = 0" | "unat (wdt_remaining x) = 1" by linarith
    then show "wdt_remaining x = 0 \<or> wdt_remaining x = 1" by cases (simp_all add: unat_eq_0, simp add: word_unat_eq_iff)
  qed
  have s1: "(if wdt_remaining x > 0 then upd_entry i (\<lambda>x. x\<lparr>wdt_remaining := wdt_remaining x - 1\<rparr>) s else s) = s\<lparr>wdt := ?w\<rparr>"
  proof (cases "wdt_remaining x = 0")
    case True
    then have "?y = x" by (cases x) simp
    then have "?w = wdt s" using x by (cases "wdt s") simp
    then show ?thesis using True by simp
  next
    case False
    then have "wdt_remaining x = 1" using act(3) by simp
    then show ?thesis unfolding upd_entry_def upd_wdt_def x [symmetric] by simp
  qed
  have cb: "fst (wdt_report (wdt s) x) \<noteq> NULL" using h True by (auto simp: wdt_report_def)
  have "wdt_fire e ?y (s\<lparr>wdt := ?w\<rparr>) = Some (?r (s\<lparr>wdt := ?w\<rparr>))"
    using cb wdt_callbacksD(1) [OF e] by (auto simp: wdt_fire_def wdt_report_def)
  then have "wdt_tick_entry e i s = Some (upd_entry i (\<lambda>x. x\<lparr>wdt_remaining := wdt_deadline x\<rparr>) ((?r s)\<lparr>wdt := ?w\<rparr>))"
    using act s1 x by (simp add: wdt_tick_entry_def Let_def wdt_callbacksD(2) [OF e])
  then show ?thesis using True act by (simp add: upd_entry_def upd_wdt_def wdt_ticked_def)
next
  case False
  then show ?thesis
    using x by (auto simp: wdt_tick_entry_def wdt_ticked_def wdt_due_def upd_entry_def upd_wdt_def Let_def not_le
        word_le_nat_alt word_less_nat_alt unat_eq_0 fun_upd_idem)
qed


lemma wdt_after_step:
  assumes "i < unat (wdt_count w)" "w1 = w\<lparr>wdt_table := (wdt_table w)(i := wdt_ticked (wdt_table w i))\<rparr>"
  shows "wdt_after (Suc i) w1 = wdt_after i w" "wdt_reports (Suc i) w1 = wdt_reports (Suc i) w"
    "wdt_reports i w = (if wdt_due (wdt_table w i) then [wdt_report w (wdt_table w i)] else []) @ wdt_reports (Suc i) w"
proof -
  have "(\<lambda>j. if Suc i \<le> j \<and> j < unat (wdt_count w1) then wdt_ticked (wdt_table w1 j) else wdt_table w1 j)
      = (\<lambda>j. if i \<le> j \<and> j < unat (wdt_count w) then wdt_ticked (wdt_table w j) else wdt_table w j)"
    using assms by (auto simp: fun_eq_iff)
  then show "wdt_after (Suc i) w1 = wdt_after i w" unfolding wdt_after_def using assms(2) by simp
  have "map (wdt_table w1) [Suc i..<unat (wdt_count w1)] = map (wdt_table w) [Suc i..<unat (wdt_count w)]" using assms(2) by simp
  moreover have "wdt_report w1 = wdt_report w" using assms(2) by (simp add: fun_eq_iff wdt_report_def)
  ultimately show "wdt_reports (Suc i) w1 = wdt_reports (Suc i) w" unfolding wdt_reports_def by simp
  show "wdt_reports i w = (if wdt_due (wdt_table w i) then [wdt_report w (wdt_table w i)] else []) @ wdt_reports (Suc i) w"
    using assms(1) by (simp add: wdt_reports_def upt_conv_Cons)
qed

lemma wdt_tick_from_spec:
  assumes e: "wdt_callbacks e report" and i: "i \<le> n" and s: "unat (wdt_count (wdt s)) = n"
    and h: "\<forall>j. i \<le> j \<and> j < n \<and> wdt_due (wdt_table (wdt s) j) \<longrightarrow> wdt_callback (wdt_table (wdt s) j) \<noteq> NULL \<or> wdt_default_cb (wdt s) \<noteq> NULL"
  shows "wdt_tick_from e (of_nat i) s = Some ((fold report (wdt_reports i (wdt s)) s)\<lparr>wdt := wdt_after i (wdt s)\<rparr>)"
  using i s h
proof (induction arbitrary: s rule: inc_induct)
  case base
  have "wdt_after n (wdt s) = wdt s" using base.prems(1) by (simp add: wdt_after_def) (cases "wdt s", auto simp: fun_eq_iff)
  moreover have "of_nat n = wdt_count (wdt s)" using base.prems(1) by auto
  ultimately show ?case using base.prems(1) by (subst wdt_tick_from.simps) (simp add: wdt_reports_def)
next
  case (step i)
  let ?w = "wdt s" let ?x = "wdt_table ?w i" let ?w1 = "?w\<lparr>wdt_table := (wdt_table ?w)(i := wdt_ticked ?x)\<rparr>"
  let ?t = "if wdt_due ?x then report (wdt_report ?w ?x) s else s"
  have lt: "(of_nat i :: u32) < wdt_count ?w" "unat (of_nat i :: u32) = i"
  proof -
    have "i < 2 ^ 32" using step.hyps(2) step.prems(1) unat_lt_u32 [of "wdt_count ?w"] by simp
    then show u: "unat (of_nat i :: u32) = i" by (simp only: unat_of_nat) simp
    show "(of_nat i :: u32) < wdt_count ?w" unfolding word_less_nat_alt u using step.hyps(2) step.prems(1) by simp
  qed
  have one: "wdt_tick_entry e i s = Some (?t\<lparr>wdt := ?w1\<rparr>)"
    using wdt_tick_entry_spec [OF e refl, where s = s and i = i] step.prems(2) step.hyps(2) by blast
  have iw: "i < unat (wdt_count ?w)" using step.hyps(2) step.prems(1) by simp
  note st = wdt_after_step [OF iw refl]
  have h1: "\<forall>j. Suc i \<le> j \<and> j < n \<and> wdt_due (wdt_table ?w1 j) \<longrightarrow> wdt_callback (wdt_table ?w1 j) \<noteq> NULL \<or> wdt_default_cb ?w1 \<noteq> NULL"
    using step.prems(2) by auto
  have "wdt_tick_from e (of_nat (Suc i)) (?t\<lparr>wdt := ?w1\<rparr>) = Some ((fold report (wdt_reports (Suc i) ?w1) (?t\<lparr>wdt := ?w1\<rparr>))\<lparr>wdt := wdt_after (Suc i) ?w1\<rparr>)"
    using step.IH [of "?t\<lparr>wdt := ?w1\<rparr>"] step.prems(1) h1 by simp
  also have "\<dots> = Some ((fold report (wdt_reports i ?w) s)\<lparr>wdt := wdt_after i ?w\<rparr>)"
    unfolding st(1,2) unfolding st(3) report_wdt [OF e] by simp
  finally show ?case
    using lt one by (subst wdt_tick_from.simps) (simp add: add.commute)
qed

text \<open>
  C37. A watchdog tick counts every running entry down by one and reports exactly the entries whose
  time is up, each once and in table order, to its own callback or, if it has none, to the default
  one; a reported entry starts again from its deadline, paused entries and everything else in the
  table stay as they are, and the tick returns. This holds for callbacks that leave the watchdog
  alone, when every entry that is due has a callback (otherwise the built-in handler halts the
  system).
\<close>

theorem os_wdt_tick_correct:
  assumes "wdt_callbacks e report"
    and "\<forall>i < unat (wdt_count (wdt s)). wdt_due (wdt_table (wdt s) i) \<longrightarrow> wdt_callback (wdt_table (wdt s) i) \<noteq> NULL \<or> wdt_default_cb (wdt s) \<noteq> NULL"
  shows "os_wdt_tick e s = Some ((fold report (wdt_reports 0 (wdt s)) s)\<lparr>wdt := wdt_after 0 (wdt s)\<rparr>)"
proof -
  have "\<forall>j. 0 \<le> j \<and> j < unat (wdt_count (wdt s)) \<and> wdt_due (wdt_table (wdt s) j)
     \<longrightarrow> wdt_callback (wdt_table (wdt s) j) \<noteq> NULL \<or> wdt_default_cb (wdt s) \<noteq> NULL" using assms(2) by blast
  from wdt_tick_from_spec [OF assms(1) le0 refl this] show ?thesis by (simp add: os_wdt_tick_def)
qed

text \<open>Without a callback the report of an entry that is due ends in the failed assertion.\<close>

lemma wdt_without_callback_halts:
  assumes "wdt_due (wdt_table (wdt s) 0)" "wdt_count (wdt s) \<noteq> 0" "wdt_callback (wdt_table (wdt s) 0) = NULL" "wdt_default_cb (wdt s) = NULL"
  shows "os_wdt_tick e s = None"
proof -
  let ?x = "wdt_table (wdt s) 0"
  have "wdt_remaining ?x > 0 \<longrightarrow> wdt_remaining ?x - 1 = 0"
  proof
    assume "wdt_remaining ?x > 0"
    then have "unat (wdt_remaining ?x) = 1" using assms(1) by (simp add: wdt_due_def word_le_nat_alt word_less_nat_alt)
    then have "wdt_remaining ?x = 1" by (simp add: word_unat_eq_iff)
    then show "wdt_remaining ?x - 1 = 0" by simp
  qed
  then have "wdt_tick_entry e 0 s = None"
    using assms by (auto simp: wdt_tick_entry_def Let_def wdt_due_def wdt_fire_def prv_default_timeout_handler_def upd_entry_def upd_wdt_def
        word_neq_0_conv not_less)
  then show ?thesis using assms(2) by (simp add: os_wdt_tick_def) (subst wdt_tick_from.simps, simp add: word_neq_0_conv)
qed

definition demo_wdt :: os where
  "demo_wdt = demo\<lparr>wdt := (wdt demo)\<lparr>wdt_count := 2, wdt_table := (wdt_table (wdt demo))
     (0 := \<lparr>wdt_tcb = tRun, wdt_deadline = 50, wdt_remaining = 1, wdt_callback = 0x8000700, wdt_cb_param = 7, wdt_paused = False\<rparr>,
      1 := \<lparr>wdt_tcb = tReady, wdt_deadline = 60, wdt_remaining = 9, wdt_callback = 0x8000700, wdt_cb_param = 8, wdt_paused = False\<rparr>)\<rparr>\<rparr>"

theorem os_wdt_tick_correct_witness:
  "\<exists>s'. os_wdt_tick (demo_env\<lparr>call_wdt := (\<lambda>cb h p s. Some (s\<lparr>yield_pending := p\<rparr>))\<rparr>) demo_wdt = Some s' \<and> yield_pending s' = 7
     \<and> wdt_remaining (wdt_table (wdt s') 0) = 50 \<and> wdt_remaining (wdt_table (wdt s') 1) = 8"
proof -
  let ?e = "demo_env\<lparr>call_wdt := (\<lambda>cb h p s. Some (s\<lparr>yield_pending := p\<rparr>))\<rparr>" let ?r = "\<lambda>a s. s\<lparr>yield_pending := snd (snd a)\<rparr>"
  have cb: "wdt_callbacks ?e ?r" by (simp add: wdt_callbacks_def)
  have w: "wdt_count (wdt demo_wdt) = 2" "wdt_table (wdt demo_wdt) 0 = \<lparr>wdt_tcb = tRun, wdt_deadline = 50, wdt_remaining = 1, wdt_callback = 0x8000700, wdt_cb_param = 7, wdt_paused = False\<rparr>"
    "wdt_table (wdt demo_wdt) 1 = \<lparr>wdt_tcb = tReady, wdt_deadline = 60, wdt_remaining = 9, wdt_callback = 0x8000700, wdt_cb_param = 8, wdt_paused = False\<rparr>"
    by (simp_all add: demo_wdt_def)
  have "\<forall>i < unat (wdt_count (wdt demo_wdt)). wdt_due (wdt_table (wdt demo_wdt) i)
     \<longrightarrow> wdt_callback (wdt_table (wdt demo_wdt) i) \<noteq> NULL \<or> wdt_default_cb (wdt demo_wdt) \<noteq> NULL"
    using w by (auto simp: less_2_cases_iff)
  moreover have "wdt_reports 0 (wdt demo_wdt) = [(0x8000700, tRun, 7)]"
    using w by (simp add: wdt_reports_def upt_rec wdt_due_def wdt_report_def word_le_nat_alt)
  ultimately show ?thesis
    using os_wdt_tick_correct [OF cb, of demo_wdt] w by (simp add: wdt_after_def wdt_ticked_def wdt_due_def word_le_nat_alt)
qed

end
