(* ===== verification/Kernel.thy ===== *)
theory Kernel
  imports Timer Watchdog
begin

unbundle bit_operations_syntax

text \<open>
  \<open>kernel/kernel.c\<close>, the statistics and system information of \<open>kernel/stats.c\<close> and
  \<open>kernel/sysinfo.c\<close>, \<open>os_sched_start\<close> of \<open>kernel/scheduler.c\<close> and the SysTick
  handler of \<open>port/port.c\<close>.

  In an interrupt handler a pended PendSV waits until the handler has returned, so the
  \<open>switch\<close> of the environment is the identity there (\<open>isr\<close>).
\<close>

section \<open>Boot\<close>

definition isr :: "env \<Rightarrow> env" where "isr e = e\<lparr>switch := Some\<rparr>"

definition os_kernel_init :: "env \<Rightarrow> os \<Rightarrow> os option" where
  "os_kernel_init e s =
     (if kernel_initialized s then Some s
      else do {
        r \<leftarrow> os_port_nvic_set_priority_init (periph s);
        let s = s\<lparr>periph := r\<rparr>;
        let s = s\<lparr>heap := os_heap_init (uc_heap e) (heap s)\<rparr>;
        let s = os_task_init_ready_list s;
        let s = os_sched_init s;
        (_, s) \<leftarrow> os_timer_init e s;
        let s = os_trace_init s;
        let s = os_wdt_init s;
        Some (s\<lparr>kernel_initialized := True\<rparr>)
      })"

text \<open>Up to the jump into the first task, which \<open>Context_Switch\<close> models.\<close>

definition os_sched_start :: "env \<Rightarrow> os \<Rightarrow> os option" where
  "os_sched_start e s =
     do {
       s \<leftarrow> os_task_create_idle e s;
       os_sched_select_next (s\<lparr>scheduler_running := True\<rparr>)
     }"

definition os_kernel_start :: "env \<Rightarrow> os \<Rightarrow> os option" where
  "os_kernel_start e s =
     (if \<not> kernel_initialized s then Some s
      else os_sched_start e (s\<lparr>periph := os_port_systick_init OS_CONFIG_TICK_RATE_HZ (periph s)\<rparr>))"

section \<open>The tick\<close>

partial_function (option) tick_hooks_from :: "env \<Rightarrow> u32 \<Rightarrow> os \<Rightarrow> os option" where
  "tick_hooks_from e i s =
     (if i < tick_hook_count s
      then do {
        s \<leftarrow> (if tick_hooks s (unat i) \<noteq> NULL then call_tick_hook e (tick_hooks s (unat i)) s else Some s);
        tick_hooks_from e (i + 1) s
      }
      else Some s)"

definition os_kernel_tick_increment :: "env \<Rightarrow> os \<Rightarrow> os option" where
  "os_kernel_tick_increment e s =
     do {
       let s = s\<lparr>system_tick := system_tick s + 1\<rparr>;
       s \<leftarrow> tick_hooks_from e 0 s;
       s \<leftarrow> os_task_tick e s;
       s \<leftarrow> os_timer_tick e s;
       s \<leftarrow> os_wdt_tick e s;
       os_sched_select_next s
     }"

definition SysTick_Handler :: "env \<Rightarrow> os \<Rightarrow> os option" where
  "SysTick_Handler e s = do { s \<leftarrow> os_kernel_tick_increment (isr e) s; Some (os_port_yield s) }"

definition os_kernel_get_version :: string where
  "os_kernel_get_version = ''MiniOS v0.9.1''"

section \<open>Tick hooks\<close>

definition os_kernel_register_tick_hook :: "ptr \<Rightarrow> os \<Rightarrow> os_status \<times> os" where
  "os_kernel_register_tick_hook hook s =
     (if hook = NULL then (OS_ERR_PARAM, s)
      else let s = os_sched_enter_critical s in
        if tick_hook_count s \<ge> OS_CONFIG_MAX_TICK_HOOKS then (OS_ERR_FULL, os_sched_exit_critical s)
        else if hook_index (tick_hooks s) (tick_hook_count s) hook \<noteq> None
        then (OS_ERR_STATE, os_sched_exit_critical s)
        else let s = s\<lparr>tick_hooks := (tick_hooks s)(unat (tick_hook_count s) := hook),
                       tick_hook_count := tick_hook_count s + 1\<rparr>
             in (OS_OK, os_sched_exit_critical s))"

definition os_kernel_unregister_tick_hook :: "ptr \<Rightarrow> os \<Rightarrow> os_status \<times> os" where
  "os_kernel_unregister_tick_hook hook s =
     (if hook = NULL then (OS_ERR_PARAM, s)
      else let s = os_sched_enter_critical s in
        case hook_index (tick_hooks s) (tick_hook_count s) hook of
          None \<Rightarrow> (OS_ERR_PARAM, os_sched_exit_critical s)
        | Some i \<Rightarrow>
            let s = s\<lparr>tick_hooks := hook_shift i (tick_hook_count s) (tick_hooks s)\<rparr>;
                s = s\<lparr>tick_hook_count := tick_hook_count s - 1\<rparr>;
                s = s\<lparr>tick_hooks := (tick_hooks s)(unat (tick_hook_count s) := NULL)\<rparr>
            in (OS_OK, os_sched_exit_critical s))"

section \<open>Statistics and system information\<close>

text \<open>The product is taken in 64 bits, the quotient cut back to 32.\<close>

definition os_stats_get_cpu_usage :: "ptr \<Rightarrow> os \<Rightarrow> u32 option" where
  "os_stats_get_cpu_usage tcb s =
     (if tcb = NULL then Some 0
      else let uptime = os_kernel_get_tick s in
        if uptime = 0 then Some 0
        else do {
          c \<leftarrow> get_tcb tcb s;
          Some (ucast ((ucast (run_time_ticks c) * 100) div (ucast uptime :: 64 word)))
        })"

definition os_stats_get_run_time :: "ptr \<Rightarrow> os \<Rightarrow> u32 option" where
  "os_stats_get_run_time tcb s =
     (if tcb = NULL then Some 0 else do { c \<leftarrow> get_tcb tcb s; Some (run_time_ticks c) })"

partial_function (option) stats_reset_from :: "u32 \<Rightarrow> os \<Rightarrow> os option" where
  "stats_reset_from i s =
     (let tcb = os_task_get_by_index i s in
      if tcb = NULL then Some s
      else do {
        s \<leftarrow> upd_tcb tcb (\<lambda>c. c\<lparr>run_time_ticks := 0\<rparr>) s;
        stats_reset_from (i + 1) s
      })"

definition os_stats_reset :: "os \<Rightarrow> os option" where
  "os_stats_reset s = stats_reset_from 0 s"

record os_sysinfo =
  si_task_count :: u32
  si_heap_free :: u32
  si_heap_min_free :: u32
  si_heap_largest :: u32
  si_uptime :: u32
  si_version :: string
  si_tick_rate :: u32

text \<open>Nothing is written for a null \<open>info\<close> (\<open>wants\<close> false).\<close>

definition os_sysinfo_get :: "bool \<Rightarrow> os \<Rightarrow> os_sysinfo option option" where
  "os_sysinfo_get wants s =
     (if \<not> wants then Some None
      else do {
       largest \<leftarrow> os_heap_get_largest_free_block (heap s);
       Some (Some \<lparr>si_task_count = os_task_get_count s, si_heap_free = os_heap_get_free_size (heap s),
             si_heap_min_free = os_heap_get_min_free_size (heap s), si_heap_largest = largest,
             si_uptime = os_kernel_get_tick s, si_version = os_kernel_get_version,
             si_tick_rate = OS_CONFIG_TICK_RATE_HZ\<rparr>)
     })"

text \<open>
  The name as it arrives in a buffer of \<open>bufsz\<close> bytes (0 also for a null buffer), the state, the priority, the stack
  used and the stack size; \<open>None\<close> inside for a null handle, where nothing is written.
\<close>

definition os_task_get_info ::
    "ptr \<Rightarrow> u32 \<Rightarrow> os \<Rightarrow> (string option \<times> os_task_state \<times> u32 \<times> u32 \<times> u32) option option" where
  "os_task_get_info tcb bufsz s =
     (if tcb = NULL then Some None
      else do {
        c \<leftarrow> get_tcb tcb s;
        used \<leftarrow> os_task_get_stack_high_water tcb s;
        Some (Some (if bufsz > 0 then Some (take (unat (bufsz - 1)) (tcb_name c)) else None,
                    tcb_state c, priority c, used, stack_size c))
      })"

section \<open>The state after boot\<close>

text \<open>The state the start-up code leaves: no task, no waiter, nothing initialized.\<close>

definition reset_state :: "os \<Rightarrow> bool" where
  "reset_state s \<longleftrightarrow> tcbs s = Map.empty \<and> no_waiters s \<and> \<not> kernel_initialized s \<and> \<not> timer_initialized s
     \<and> malloc_failed_hook (heap s) = NULL"

text \<open>What the linker must provide: room for the heap, and addresses of the static objects.\<close>

definition linked :: "env \<Rightarrow> bool" where
  "linked e \<longleftrightarrow> 0 < unat (uc_heap e) \<and> unat (uc_heap e) + 10256 < 2 ^ 32 \<and> timer_service_func e \<noteq> NULL
     \<and> timer_task_stack e \<noteq> NULL \<and> timer_sem e \<noteq> NULL"

lemma empty_rep:
  assumes "no_waiters s" "tcbs s = Map.empty" "\<forall>p < 8. ready_list s p = \<lparr>rl_head = NULL, rl_tail = NULL, rl_count = 0\<rparr>"
    "ready_bitmap s = 0" "blocked_list s = NULL" "deferred_delete_list s = NULL"
  shows "rep s (\<lambda>_. []) Map.empty"
proof -
  have rl: "ready_list s p = \<lparr>rl_head = NULL, rl_tail = NULL, rl_count = 0\<rparr>" for p
    using assms(1,3) by (cases "p < 8") (simp_all add: no_waiters_def)
  have "list_head s l = NULL" for l
    using assms by (cases l) (simp_all add: rl no_waiters_def)
  then have "list_ok (\<lambda>_. []) s" by (simp add: list_ok_def seg_def)
  moreover have "ready_ok (\<lambda>_. []) s" using assms(4) by (simp add: ready_ok_def rl)
  ultimately show ?thesis using assms(2) by (simp add: rep_def links_ok_def view_def)
qed

text \<open>
  While the system boots, nothing is freed: the heap is a sequence of live blocks that ends in one free
  block of \<open>k\<close> bytes, and the control blocks are among the live ones.
\<close>

definition bump :: "nat \<Rightarrow> nat \<Rightarrow> heap4 \<Rightarrow> (ptr \<rightharpoonup> os_tcb) \<Rightarrow> bool" where
  "bump start k h V \<longleftrightarrow> (\<exists>us. heap_ok start h (us @ [(k, False)]) \<and> (\<forall>b \<in> set us. snd b)
     \<and> (\<forall>t. V t \<noteq> None \<longrightarrow> (\<exists>p n. t = adr p \<and> (p, n) \<in> set (live start us))))"

lemma bump_alloc:
  assumes h: "bump start k (heap s) V" and sz: "sz \<noteq> 0" "unat sz + 8 \<le> 2 ^ 32" and n: "(unat sz + 7) div 8 * 8 = n" "n + 20 \<le> k"
  shows "\<exists>p h'. kmalloc e sz s = Some (p, s\<lparr>heap := h'\<rparr>) \<and> p \<noteq> NULL \<and> V p = None
     \<and> bump start (k - n - 12) h' V \<and> bump start (k - n - 12) h' (V(p \<mapsto> d)) \<and> malloc_failed_hook h' = malloc_failed_hook (heap s)"
proof -
  obtain us where us: "heap_ok start (heap s) (us @ [(k, False)])" "\<forall>b \<in> set us. snd b"
    "\<forall>t. V t \<noteq> None \<longrightarrow> (\<exists>p n. t = adr p \<and> (p, n) \<in> set (live start us))"
    using h by (auto simp: bump_def)
  let ?p = "start + tot us + 12" let ?us = "us @ [(n, True)]"
  have "unat (ALIGN_UP sz) = n" using ALIGN_UP_unat [OF sz(2)] n(1) by simp
  then obtain h' where h': "os_heap_alloc (call_malloc_failed e) sz (heap s) = Some (adr ?p, h')"
    "heap_ok start h' (us @ carve n k @ [])" "malloc_failed_hook h' = malloc_failed_hook (heap s)"
    using os_heap_alloc_hit [of start "heap s" us k "[]" n sz "call_malloc_failed e"] us(1,2) n(2) sz(1) by (auto simp: fits_def)
  have c: "heap_ok start h' (?us @ [(k - n - 12, False)])" using h'(2) n(2) by (simp add: carve_def)
  have bd: "0 < start" "start + 10240 < 2 ^ 32" "tot us + 12 + k = 10240" using us(1) by (auto simp: heap_ok_def)
  have fresh: "V (adr ?p) = None"
  proof (rule ccontr)
    assume "V (adr ?p) \<noteq> None"
    then obtain q m where q: "adr ?p = adr q" "(q, m) \<in> set (live start us)" using us(3) by blast
    then show False using live_bounds [OF q(2)] adr_eq_iff [of ?p q] bd n(2) by simp
  qed
  have "adr ?p \<noteq> NULL" using adr_eq_iff [of ?p 0] bd n(2) by (simp add: adr_def)
  moreover have "\<forall>t. V t \<noteq> None \<longrightarrow> (\<exists>p n. t = adr p \<and> (p, n) \<in> set (live start ?us))"
    using us(3) by (auto simp: live_append)
  moreover have "(?p, n) \<in> set (live start ?us)" by (simp add: live_append)
  ultimately show ?thesis using h'(1,3) c us(2) fresh unfolding bump_def
    by (intro exI [of _ "adr ?p"] exI [of _ h'] conjI exI [of _ ?us]) (auto simp: kmalloc_def)
qed

lemma static_create:
  assumes r: "rep s A V" and ok: "states_ok A V" and h: "bump start k (heap s) V" "116 \<le> k"
    and a: "func \<noteq> NULL" "prio < 8" "task_count s < 16" "128 \<le> sz" "buf \<noteq> NULL"
  shows "\<exists>t s' d. os_task_create e func nm param prio buf sz wants s = Some (OS_OK, if wants then t else NULL, s') \<and> created t d s A V s'
     \<and> d = new_tcb func nm param prio buf sz (fst (os_port_stack_init func param buf sz (mem32 s)))
     \<and> bump start (k - 108) (heap s') (V(t \<mapsto> d)) \<and> malloc_failed_hook (heap s') = malloc_failed_hook (heap s)
     \<and> frame (s\<lparr>heap := heap s', mem32 := mem32 s', task_table := task_table s', task_count := task_count s', trace := trace s'\<rparr>) s'"
proof -
  have tz: "sizeof_tcb \<noteq> 0" "unat sizeof_tcb + 8 \<le> 2 ^ 32" "(unat sizeof_tcb + 7) div 8 * 8 = 96" by (simp_all add: sizeof_tcb_def)
  let ?d = "new_tcb func nm param prio buf sz (fst (os_port_stack_init func param buf sz (mem32 s)))"
  obtain t h1 where t: "kmalloc e sizeof_tcb s = Some (t, s\<lparr>heap := h1\<rparr>)" "t \<noteq> NULL" "V t = None"
    "bump start (k - 108) h1 (V(t \<mapsto> ?d))" "malloc_failed_hook h1 = malloc_failed_hook (heap s)"
    using bump_alloc [OF h(1) tz, of e ?d] h(2) by auto
  let ?s = "s\<lparr>heap := h1\<rparr>"
  have rb: "rep ?s A V" using r by simp
  obtain s' where s': "finish_create func nm param prio buf sz t ?s = Some s'" "created t ?d ?s A V s'" "heap s' = h1"
    "frame (?s\<lparr>mem32 := mem32 s', task_table := task_table s', task_count := task_count s', trace := trace s'\<rparr>) s'"
    using finish_create_rep [OF rb ok t(3,2) a(2) refl, of func nm param buf sz "mem32 s"] by auto
  have "os_task_create e func nm param prio buf sz wants s = Some (OS_OK, if wants then t else NULL, s')"
    using a t(1,2) s'(1) by (simp add: os_task_create_def not_le not_less)
  moreover have "created t ?d s A V s'" using s'(2) by (simp add: created_def crit_same_def)
  ultimately show ?thesis using t(4,5) s'(3,4) by auto
qed

text \<open>What a state of the boot sequence satisfies, between \<open>os_kernel_init\<close> and \<open>os_kernel_start\<close>.\<close>

definition boot_ok :: "nat \<Rightarrow> nat \<Rightarrow> os \<Rightarrow> tlists \<Rightarrow> (ptr \<rightharpoonup> os_tcb) \<Rightarrow> bool" where
  "boot_ok start k s A V \<longleftrightarrow> rep s A V \<and> states_ok A V \<and> bump start k (heap s) V
     \<and> current_task_ptr s = NULL \<and> \<not> scheduler_running s \<and> critical_nesting s = 0 \<and> kernel_initialized s
     \<and> (\<forall>l. (\<forall>p. l \<noteq> Ready p) \<longrightarrow> A l = [])
     \<and> (\<forall>t d. V t = Some d \<longrightarrow> tcb_state d = OS_TASK_READY \<and> blocked_on d = NULL)"

lemma boot_okD:
  assumes "boot_ok start k s A V"
  shows "rep s A V" "states_ok A V" "bump start k (heap s) V" "current_task_ptr s = NULL" "\<not> scheduler_running s"
    "critical_nesting s = 0" "kernel_initialized s" "(\<And>p. l \<noteq> Ready p) \<Longrightarrow> A l = []"
    "V t = Some d \<Longrightarrow> tcb_state d = OS_TASK_READY" "V t = Some d \<Longrightarrow> blocked_on d = NULL"
  using assms by (auto simp: boot_ok_def)

lemma kernel_init_run:
  assumes s: "reset_state s" and e: "linked e"
  shows "\<exists>s' t d. os_kernel_init e s = Some s' \<and> boot_ok (unat (ALIGN_UP (uc_heap e))) 10120 s' ((\<lambda>_. [])(Ready 6 := [t])) [t \<mapsto> d]
     \<and> t \<noteq> NULL \<and> timer_task_handle s' = t \<and> entry_func d = timer_service_func e \<and> priority d = 6 \<and> task_count s' = 1
     \<and> idle_hook_count s' = 0 \<and> tick_hook_count s' = tick_hook_count s \<and> active_timer_list s' = active_timer_list s
     \<and> wdt_count (wdt s') = 0"
proof -
  obtain r where r: "os_port_nvic_set_priority_init (periph s) = Some r"
    by (simp add: os_port_nvic_set_priority_init_def os_port_nvic_set_priority_def Let_def)
  let ?s1 = "os_sched_init (os_task_init_ready_list (s\<lparr>periph := r, heap := os_heap_init (uc_heap e) (heap s)\<rparr>))"
  let ?s2 = "upd_sem (timer_sem e) (\<lambda>x. x\<lparr>sem_count := 0, max_count := 1, sem_wait_list := NULL\<rparr>) ?s1"
  note sc = os_sched_init_def os_task_init_ready_list_def upd_sem_def
  have r2: "rep ?s2 (\<lambda>_. []) Map.empty"
    using s by (intro empty_rep) (simp_all add: sc reset_state_def no_waiters_def)
  have h2: "bump (unat (ALIGN_UP (uc_heap e))) 10228 (heap ?s2) Map.empty"
    using heap_ok_init e unfolding bump_def by (intro exI [of _ "[]"]) (simp add: sc linked_def)
  have a2: "timer_service_func e \<noteq> NULL" "(6 :: u32) < 8" "task_count ?s2 < 16" "(128 :: u32) \<le> 256" "timer_task_stack e \<noteq> NULL"
    using e by (simp_all add: linked_def sc)
  obtain t s3 d where c: "os_task_create e (timer_service_func e) (Some ''TMR'') NULL 6 (timer_task_stack e) 256 True ?s2 = Some (OS_OK, t, s3)"
    "created t d ?s2 (\<lambda>_. []) Map.empty s3" "bump (unat (ALIGN_UP (uc_heap e))) 10120 (heap s3) [t \<mapsto> d]"
    "d = new_tcb (timer_service_func e) (Some ''TMR'') NULL 6 (timer_task_stack e) 256
           (fst (os_port_stack_init (timer_service_func e) NULL (timer_task_stack e) 256 (mem32 ?s2)))"
    and f: "frame (?s2\<lparr>heap := heap s3, mem32 := mem32 s3, task_table := task_table s3, task_count := task_count s3, trace := trace s3\<rparr>) s3"
    using static_create [OF r2 states_ok_empty h2 _ a2, of e "Some ''TMR''" NULL True] by auto
  let ?s4 = "(os_wdt_init (os_trace_init (s3\<lparr>timer_task_handle := t, timer_initialized := True\<rparr>)))\<lparr>kernel_initialized := True\<rparr>"
  have init: "os_timer_init e ?s1 = Some (OS_OK, s3\<lparr>timer_task_handle := t, timer_initialized := True\<rparr>)"
    using s e c(1) by (simp add: os_timer_init_def os_sem_create_binary_def reset_state_def linked_def) (simp add: sc)
  have run: "os_kernel_init e s = Some ?s4"
    using s r init by (simp add: os_kernel_init_def reset_state_def Let_def)
  have dd: "entry_func d = timer_service_func e" "priority d = 6" "tcb_state d = OS_TASK_READY" "blocked_on d = NULL" by (simp_all add: c(4) new_tcb_def)
  have cr: "rep s3 ((\<lambda>_. [])(Ready 6 := [t])) [t \<mapsto> d]" "states_ok ((\<lambda>_. [])(Ready 6 := [t])) [t \<mapsto> d]" "t \<noteq> NULL"
    "current_task_ptr s3 = NULL" "\<not> scheduler_running s3" "critical_nesting s3 = 0" "task_count s3 = 1"
    using c(2) unfolding created_def by (simp_all add: dd(2) crit_same_def) (simp_all add: sc)
  have g: "idle_hook_count s3 = 0" "tick_hook_count s3 = tick_hook_count s" "active_timer_list s3 = active_timer_list s"
    using frame_os(8,19) [OF f] frame_tick_hooks [OF f] by (simp_all add: sc)
  note nf = os_wdt_init_def upd_wdt_def os_trace_init_def trace_record_nf
  have "boot_ok (unat (ALIGN_UP (uc_heap e))) 10120 ?s4 ((\<lambda>_. [])(Ready 6 := [t])) [t \<mapsto> d]"
    using cr c(3) dd(3,4) by (auto simp: boot_ok_def nf)
  then show ?thesis using run cr(3,7) dd(1,2) g by (intro exI [of _ ?s4] exI [of _ t] exI [of _ d]) (simp add: nf)
qed

text \<open>
  C18. \<open>os_kernel_init\<close> establishes the kernel's invariant. From the state the start-up code leaves
  it returns with the heap set up and one task, the timer service, ready at priority 6 with its entry
  point, all other lists empty, no task running and no critical section open: lists, states and the
  current task are consistent. A second call changes nothing.
\<close>

theorem os_kernel_init_establishes_invariant:
  assumes s: "reset_state s" and e: "linked e"
  shows "\<exists>s' t d. os_kernel_init e s = Some s' \<and> os_kernel_init e s' = Some s'
     \<and> rep s' ((\<lambda>_. [])(Ready 6 := [t])) [t \<mapsto> d] \<and> states_ok ((\<lambda>_. [])(Ready 6 := [t])) [t \<mapsto> d] \<and> current_ok s' [t \<mapsto> d]
     \<and> timer_task_handle s' = t \<and> entry_func d = timer_service_func e \<and> priority d = 6 \<and> tcb_state d = OS_TASK_READY
     \<and> kernel_initialized s' \<and> \<not> scheduler_running s' \<and> critical_nesting s' = 0 \<and> task_count s' = 1"
proof -
  obtain s' t d where i: "os_kernel_init e s = Some s'" "boot_ok (unat (ALIGN_UP (uc_heap e))) 10120 s' ((\<lambda>_. [])(Ready 6 := [t])) [t \<mapsto> d]"
    "timer_task_handle s' = t" "entry_func d = timer_service_func e" "priority d = 6" "task_count s' = 1"
    using kernel_init_run [OF assms] by blast
  note b = boot_okD [OF i(2)]
  have "tcb_state d = OS_TASK_READY" using b(9) by simp
  moreover have "current_ok s' [t \<mapsto> d]" using b(4) calculation by (simp add: current_ok_def)
  moreover have "os_kernel_init e s' = Some s'" using b(7) by (simp add: os_kernel_init_def)
  ultimately show ?thesis using i b(1,2,5-7) by blast
qed

theorem os_kernel_init_establishes_invariant_witness:
  "\<exists>s' t d. os_kernel_init demo_env blank = Some s' \<and> rep s' ((\<lambda>_. [])(Ready 6 := [t])) [t \<mapsto> d] \<and> entry_func d = 0x8000300"
proof -
  have "reset_state blank" by (simp add: reset_state_def blank_def os_task_init_ready_list_def no_waiters_def demo_def
        boot_heap_def os_heap_init_def zero_heap_def upd_hdr_def Let_def)
  moreover have "linked demo_env" by (simp add: linked_def demo_env_def)
  ultimately show ?thesis using os_kernel_init_establishes_invariant [of blank demo_env] by (auto simp: demo_env_def)
qed

end
