(* ===== verification/System.thy ===== *)
theory System
  imports Kernel_Inv Kernel
begin

unbundle bit_operations_syntax

text \<open>
  The kernel as one transition system: the tick interrupt of \<open>kernel.c\<close> and \<open>port.c\<close> with its hooks, timers and
  watchdog, the scheduler, and every call of \<open>Kernel_Inv\<close>.
\<close>

section \<open>The tick interrupt\<close>

text \<open>
  What the parts of the tick before the scheduling decision keep: the invariant, the current task, its state and its canary, and the saved stack
  pointers. \<open>hooks_ok\<close> asks it of the callbacks that run in the tick, the tick hooks and the timeout callbacks of
  the watchdog: in an interrupt handler they may not block, and must leave the kernel consistent.
\<close>

definition kept :: "os \<Rightarrow> os \<Rightarrow> bool" where
  "kept s s' \<longleftrightarrow> (\<forall>D. kernel_inv D s \<longrightarrow> kernel_inv D s' \<and> same_stacks s s' \<and> current_task_ptr s' = current_task_ptr s
     \<and> (task_running s \<longrightarrow> task_running s')
     \<and> (os_task_check_stack_overflow s = Some () \<longrightarrow> os_task_check_stack_overflow s' = Some ()))"

definition hooks_ok :: "env \<Rightarrow> bool" where
  "hooks_ok e \<longleftrightarrow> (\<forall>h s s'. call_tick_hook e h s = Some s' \<longrightarrow> kept s s') \<and> (\<forall>cb t p s s'. call_wdt e cb t p s = Some s' \<longrightarrow> kept s s')"

lemma keptD:
  assumes "kept s s'" "kernel_inv D s"
  shows "kernel_inv D s'" "same_stacks s s'" "current_task_ptr s' = current_task_ptr s" "task_running s \<Longrightarrow> task_running s'"
    "os_task_check_stack_overflow s = Some () \<Longrightarrow> os_task_check_stack_overflow s' = Some ()"
  using assms unfolding kept_def by blast+

lemma kept_refl: "kept s s"
  by (simp add: kept_def same_stacks_def)

lemma kept_trans: "kept s s1 \<Longrightarrow> kept s1 s2 \<Longrightarrow> kept s s2"
  unfolding kept_def by (metis same_stacks_trans)

lemma kept_same:
  assumes "\<And>A V. rep s' A V = rep s A V" "crit_same s s'" "tcbs s' = tcbs s" "current_task_ptr s' = current_task_ptr s" "mem32 s' = mem32 s"
  shows "kept s s'"
proof -
  have "kernel_inv D s'" if inv: "kernel_inv D s" for D
  proof -
    obtain A V where k: "kernel_ok D s A V" using kernel_okE [OF inv] .
    then show ?thesis by (rule kernel_ok_same) (use assms kernel_okD(1) [OF k] in auto)
  qed
  then show ?thesis using assms(3-5)
    by (simp add: kept_def same_stacks_def task_running_def get_tcb_def os_task_check_stack_overflow_def Let_def)
qed

lemma hooks_ok_isr: "hooks_ok (isr e) = hooks_ok e"
  by (simp add: hooks_ok_def isr_def)

subsection \<open>Hooks, timers and watchdog\<close>

lemma tick_hooks_kept:
  assumes "hooks_ok e" "tick_hooks_from e i s = Some s'" shows "kept s s'"
proof -
  have "hooks_ok e \<longrightarrow> kept s s'"
  proof (rule tick_hooks_from.raw_induct [OF _ assms(2), of "\<lambda>e i s s'. hooks_ok e \<longrightarrow> kept s s'"], intro impI)
    fix F e i s s'
    assume IH: "\<And>e i s s'. F e i s = Some s' \<Longrightarrow> hooks_ok e \<longrightarrow> kept s s'" and e: "hooks_ok e"
      and F: "(if i < tick_hook_count s then (if tick_hooks s (unat i) \<noteq> NULL then call_tick_hook e (tick_hooks s (unat i)) s else Some s) \<bind> F e (i + 1)
         else Some s) = Some s'"
    show "kept s s'"
    proof (cases "i < tick_hook_count s")
      case True
      then obtain s1 where s1: "(if tick_hooks s (unat i) \<noteq> NULL then call_tick_hook e (tick_hooks s (unat i)) s else Some s) = Some s1" "F e (i + 1) s1 = Some s'"
        using F by (auto simp: bind_eq_Some_conv)
      have "kept s s1" using s1(1) e by (auto simp: hooks_ok_def kept_refl split: if_splits)
      from IH [OF s1(2)] e kept_trans [OF this] show ?thesis by blast
    next
      case False
      then show ?thesis using F by (simp add: kept_refl)
    qed
  qed
  then show ?thesis using assms(1) by blast
qed

lemma upd_entry_kept: "kept s (upd_entry i f s)"
  by (rule kept_same, rule rep_cong, simp_all add: upd_entry_def upd_wdt_def crit_same_def) (rule list_head_cong, simp_all)

lemma wdt_entry_kept:
  assumes e: "hooks_ok e" and s': "wdt_tick_entry e i s = Some s'" shows "kept s s'"
proof (cases "wdt_paused (wdt_table (wdt s) i) \<or> wdt_tcb (wdt_table (wdt s) i) = NULL")
  case True
  then show ?thesis using s' by (simp add: wdt_tick_entry_def Let_def kept_refl)
next
  case False
  define s1 where "s1 = (if wdt_remaining (wdt_table (wdt s) i) > 0 then upd_entry i (\<lambda>x. x\<lparr>wdt_remaining := wdt_remaining x - 1\<rparr>) s else s)"
  have 1: "kept s s1" by (simp add: s1_def upd_entry_kept kept_refl)
  have f: "kept s1 s2" if "wdt_fire e x s1 = Some s2" for x s2
    using that e by (auto simp: wdt_fire_def hooks_ok_def prv_default_timeout_handler_def OS_ASSERT_def split: if_splits)
  have "(if wdt_remaining (wdt_table (wdt s1) i) = 0
      then wdt_fire e (wdt_table (wdt s1) i) s1 \<bind> (\<lambda>s. Some (upd_entry i (\<lambda>x. x\<lparr>wdt_remaining := wdt_deadline x\<rparr>) s)) else Some s1) = Some s'"
    using s' False unfolding wdt_tick_entry_def Let_def s1_def by simp
  then consider "s' = s1" | s2 where "wdt_fire e (wdt_table (wdt s1) i) s1 = Some s2" "s' = upd_entry i (\<lambda>x. x\<lparr>wdt_remaining := wdt_deadline x\<rparr>) s2"
    by (auto simp: bind_eq_Some_conv split: if_splits)
  then show ?thesis
  proof cases
    case 2
    show ?thesis unfolding 2(2) by (rule kept_trans [OF kept_trans [OF 1 f [OF 2(1)]] upd_entry_kept])
  qed (simp add: 1)
qed

lemma wdt_tick_kept:
  assumes "hooks_ok e" "wdt_tick_from e i s = Some s'" shows "kept s s'"
proof -
  have "hooks_ok e \<longrightarrow> kept s s'"
  proof (rule wdt_tick_from.raw_induct [OF _ assms(2), of "\<lambda>e i s s'. hooks_ok e \<longrightarrow> kept s s'"], intro impI)
    fix F e i s s'
    assume IH: "\<And>e i s s'. F e i s = Some s' \<Longrightarrow> hooks_ok e \<longrightarrow> kept s s'" and e: "hooks_ok e"
      and F: "(if i < wdt_count (wdt s) then wdt_tick_entry e (unat i) s \<bind> F e (i + 1) else Some s) = Some s'"
    show "kept s s'"
    proof (cases "i < wdt_count (wdt s)")
      case True
      then obtain s1 where s1: "wdt_tick_entry e (unat i) s = Some s1" "F e (i + 1) s1 = Some s'" using F by (auto simp: bind_eq_Some_conv)
      from IH [OF s1(2)] e kept_trans [OF wdt_entry_kept [OF e s1(1)]] show ?thesis by blast
    next
      case False
      then show ?thesis using F by (simp add: kept_refl)
    qed
  qed
  then show ?thesis using assms(1) by blast
qed

text \<open>Before it signals the service task, the timers' part of the tick changes nothing but the timers.\<close>

definition but_timers :: "os \<Rightarrow> os" where
  "but_timers s = s\<lparr>timers := undefined, active_timer_list := NULL, expired_list := NULL\<rparr>"

lemma but_timers_upd [simp]:
  "but_timers (upd_tm x f s) = but_timers s" "but_timers (s\<lparr>active_timer_list := a\<rparr>) = but_timers s" "but_timers (s\<lparr>expired_list := a\<rparr>) = but_timers s"
  by (simp_all add: but_timers_def upd_tm_def)

lemma but_timers_sel:
  "tcbs (but_timers s) = tcbs s" "ready_list (but_timers s) = ready_list s" "ready_bitmap (but_timers s) = ready_bitmap s"
  "current_task_ptr (but_timers s) = current_task_ptr s" "mem32 (but_timers s) = mem32 s" "critical_nesting (but_timers s) = critical_nesting s"
  "primask (but_timers s) = primask s" "saved_mask (but_timers s) = saved_mask s" "list_head (but_timers s) l = list_head s l"
  by (simp_all add: but_timers_def) (rule list_head_cong, simp_all)

lemma but_timers_kept:
  assumes "but_timers s' = but_timers s" shows "kept s s'"
proof -
  note b = but_timers_sel [of s] but_timers_sel [of s']
  have "tcbs s' = tcbs s" "ready_list s' = ready_list s" "ready_bitmap s' = ready_bitmap s" "current_task_ptr s' = current_task_ptr s" "mem32 s' = mem32 s"
    "critical_nesting s' = critical_nesting s" "primask s' = primask s" "saved_mask s' = saved_mask s" "\<And>l. list_head s' l = list_head s l"
    using b assms by metis+
  then show ?thesis by (intro kept_same rep_cong) (simp_all add: crit_same_def)
qed

lemma insert_sorted_but: "prv_timer_insert_sorted x s = Some s' \<Longrightarrow> but_timers s' = but_timers s"
  by (auto simp: prv_timer_insert_sorted_def Let_def bind_eq_Some_conv split: if_splits)

lemma expire_first_but: "expire_first s = Some s' \<Longrightarrow> but_timers s' = but_timers s"
  by (auto simp: expire_first_def Let_def bind_eq_Some_conv dest!: insert_sorted_but split: if_splits)

lemma expire_loop_but:
  assumes "expire_loop b s = Some (b', s')" shows "but_timers s' = but_timers s"
proof -
  have "but_timers (snd r) = but_timers s" if "expire_loop b s = Some r" for r
  proof (rule expire_loop.raw_induct [OF _ that, of "\<lambda>b s r. but_timers (snd r) = but_timers s"])
    fix F b s r assume IH: "\<And>b s r. F b s = Some r \<Longrightarrow> but_timers (snd r) = but_timers s"
      and F: "(if active_timer_list s \<noteq> NULL \<and> tm_remaining (timers s (active_timer_list s)) = 0
        then expire_first s \<bind> F True else Some (b, s)) = Some r"
    show "but_timers (snd r) = but_timers s"
    proof (cases "active_timer_list s \<noteq> NULL \<and> tm_remaining (timers s (active_timer_list s)) = 0")
      case True
      then obtain s1 where s1: "expire_first s = Some s1" "F True s1 = Some r" using F by (auto simp: bind_eq_Some_conv)
      show ?thesis using IH [OF s1(2)] expire_first_but [OF s1(1)] by simp
    next
      case False
      then show ?thesis using F by auto
    qed
  qed
  from this [OF assms] show ?thesis by simp
qed

lemma sem_give_kept:
  assumes "switch e = Some" "kernel_inv D s" "task_running s" "os_sem_give e x s = Some (st, s')"
  shows "kernel_inv D s' \<and> same_stacks s s' \<and> current_task_ptr s' = current_task_ptr s"
proof (cases "x = NULL")
  case True
  then show ?thesis using assms by (simp add: os_sem_give_def same_stacks_def)
next
  case x: False
  have "switch_ok e" using assms(1) by (simp add: switch_ok_def)
  then have inv: "kernel_inv D s'" using sem_give_ok [OF assms(2,3), of e x] assms(4) by (auto simp: returns_def)
  obtain A V d where k: "kernel_ok D s A V" and d: "V (current_task_ptr s) = Some d" "runnable d" using callerE [OF assms(2,3)] by metis
  note i = kernel_okD [OF k] and c = kernel_okD_crit [OF k]
  show ?thesis
  proof (cases "A (SemW x)")
    case Nil
    from sem_give_counts [OF i(1) c x Nil, of e] assms(4) obtain "rep s' A V" "current_task_ptr s' = current_task_ptr s" by auto
    then show ?thesis using inv same_stacks_rep [OF i(1), of s' A V] by simp
  next
    case (Cons t ts)
    obtain s1 d1 where s1: "V t = Some d1"
      "os_sem_give e x s = map_option (Pair OS_OK) (if priority d1 < priority d then os_sched_yield e s1 else Some s1)"
      "rep s1 (to_ready (SemW x) t (unat (priority d1)) A) (V(t \<mapsto> woken_tcb d1))" "current_task_ptr s1 = current_task_ptr s"
      using sem_give_wakes [OF i(1,2) c x d Cons, of e] by (elim exE conjE) (rule that)
    have "same_stacks s s1" by (rule same_stacks_rep [OF i(1) s1(3)]) (use s1(1) in \<open>simp add: woken_tcb_def released_def\<close>)
    moreover have "tcbs s' = tcbs s1" "current_task_ptr s' = current_task_ptr s1"
      using assms(1,4) s1(2) by (auto simp: os_sched_yield_def os_port_yield_def split: if_splits)
    ultimately show ?thesis using inv s1(4) by (simp add: same_stacks_def)
  qed
qed

lemma timer_tick_kept:
  assumes "switch e = Some" "kernel_inv D s" "task_running s" "os_timer_tick e s = Some s'"
  shows "kernel_inv D s' \<and> same_stacks s s' \<and> current_task_ptr s' = current_task_ptr s"
proof (cases "active_timer_list s = NULL")
  case True
  then show ?thesis using assms by (simp add: os_timer_tick_def same_stacks_def)
next
  case False
  let ?s = "upd_tm (active_timer_list s) (\<lambda>x. x\<lparr>tm_remaining := tm_remaining x - 1\<rparr>) s"
  obtain b s1 where s1: "expire_loop False ?s = Some (b, s1)"
    and s': "(if b then os_sem_give e (timer_sem e) s1 \<bind> (\<lambda>(_, s). Some s) else Some s1) = Some s'"
    using assms(4) False by (auto simp: os_timer_tick_def Let_def bind_eq_Some_conv)
  have "kept s s1" by (rule but_timers_kept) (use expire_loop_but [OF s1] in simp)
  note k = keptD [OF this assms(2)]
  show ?thesis
  proof (cases b)
    case True
    then obtain st where "os_sem_give e (timer_sem e) s1 = Some (st, s')" using s' by (auto simp: bind_eq_Some_conv)
    from sem_give_kept [OF assms(1) k(1) k(4) [OF assms(3)] this] k(3) same_stacks_trans [OF k(2)] show ?thesis by simp
  next
    case False
    then show ?thesis using s' k by simp
  qed
qed

subsection \<open>The handler\<close>

lemma tick_body_inv:
  assumes "hooks_ok e" "switch e = Some" "kernel_inv D s" "task_running s" "os_task_check_stack_overflow s = Some ()"
    "do { s \<leftarrow> os_task_tick e s; s \<leftarrow> os_timer_tick e s; s \<leftarrow> os_wdt_tick e s; os_sched_select_next s } = Some s'"
  shows "kernel_inv D s' \<and> same_stacks s s' \<and> (task_running s' \<or> current_task_ptr s' = current_task_ptr s)"
proof -
  obtain s1 s2 s3 where s: "os_task_tick e s = Some s1" "os_timer_tick e s1 = Some s2" "os_wdt_tick e s2 = Some s3" "os_sched_select_next s3 = Some s'"
    using assms(6) by (auto simp: bind_eq_Some_conv)
  have 1: "kernel_inv D s1" "task_running s1" "same_stacks s s1" "current_task_ptr s1 = current_task_ptr s" using tick_ok [OF assms(3-5), of e] s(1) by auto
  have 2: "kernel_inv D s2" "same_stacks s1 s2" "current_task_ptr s2 = current_task_ptr s1" using timer_tick_kept [OF assms(2) 1(1,2) s(2)] by simp_all
  have "kept s2 s3" using wdt_tick_kept [OF assms(1)] s(3) by (simp add: os_wdt_tick_def)
  note 3 = keptD [OF this 2(1)]
  have "kernel_inv D s'" "same_stacks s3 s'" "task_running s' \<or> s' = s3" using schedule_ok [OF 3(1)] s(4) by auto
  moreover have "current_task_ptr s3 = current_task_ptr s" using 1(4) 2(3) 3(3) by simp
  ultimately show ?thesis using same_stacks_trans [OF same_stacks_trans [OF same_stacks_trans [OF 1(3) 2(2)] 3(2)]] by blast
qed

lemma systick_inv:
  assumes "hooks_ok e" "kernel_inv D s" "task_running s" "os_task_check_stack_overflow s = Some ()" "SysTick_Handler e s = Some s'"
  shows "kernel_inv D s' \<and> same_stacks s s' \<and> (task_running s' \<or> current_task_ptr s' = current_task_ptr s)"
proof -
  let ?s = "s\<lparr>system_tick := system_tick s + 1\<rparr>"
  have "kept s ?s" by (rule kept_same, rule rep_cong, simp_all add: crit_same_def) (rule list_head_cong, simp_all)
  note 0 = keptD [OF this assms(2)]
  obtain s1 s2 where s: "tick_hooks_from (isr e) 0 ?s = Some s1" "s' = os_port_yield s2"
    "do { s \<leftarrow> os_task_tick (isr e) s1; s \<leftarrow> os_timer_tick (isr e) s; s \<leftarrow> os_wdt_tick (isr e) s; os_sched_select_next s } = Some s2"
    using assms(5) by (auto simp: SysTick_Handler_def os_kernel_tick_increment_def bind_eq_Some_conv)
  have e: "hooks_ok (isr e)" "switch (isr e) = Some" using assms(1) by (simp_all only: hooks_ok_isr) (simp add: isr_def)
  note 1 = keptD [OF tick_hooks_kept [OF e(1) s(1)] 0(1)]
  have 2: "kernel_inv D s2" "same_stacks s1 s2" "task_running s2 \<or> current_task_ptr s2 = current_task_ptr s1"
    using tick_body_inv [OF e 1(1) 1(4) [OF 0(4) [OF assms(3)]] 1(5) [OF 0(5) [OF assms(4)]] s(3)] by simp_all
  have "kept s2 s'" unfolding s(2) by (rule kept_same) (simp_all add: os_port_yield_def crit_same_def)
  note 3 = keptD [OF this 2(1)]
  have "task_running s' \<or> current_task_ptr s' = current_task_ptr s" using 2(3) 3(3,4) 0(3) 1(3) by auto
  then show ?thesis using 3(1) same_stacks_trans [OF same_stacks_trans [OF same_stacks_trans [OF 0(2) 1(2)] 2(2)] 3(2)] by blast
qed

section \<open>The transition system\<close>

text \<open>
  The calls, with their arguments; \<open>perform\<close> runs one of them, dropping its status. \<open>Tick\<close> is the
  whole interrupt handler: hooks, \<open>os_task_tick\<close>, timers, watchdog, scheduling decision. A call is
  \<open>enabled\<close> when a task runs to make it (interrupt handlers, the resuming of a task and the scheduler need none) and the
  handles it passes are control blocks. The guards exclude four situations in which the code itself does not keep the invariant, or stops the system:

  \<^item> a change of the priority of the running task, which stays in the ready list of the old one
    (\<open>os_task_set_priority_running_breaks\<close> in \<open>Task\<close>);

  \<^item> the last unlock of a mutex by an owner whose priority is not the remembered one, as after
    inheritance (\<open>os_mutex_unlock_boosted_breaks\<close> in \<open>Mutex\<close>);

  \<^item> a change of the priority of a task in the wait list of an object, be it by \<open>os_task_set_priority\<close> or by the
    inheritance in \<open>os_mutex_lock\<close>: the list is not sorted again (\<open>set_priority_unsorts\<close> in \<open>Task\<close>);

  \<^item> a tick that finds no running task or finds its canary damaged, which \<open>os_task_tick\<close> answers with an assertion.
\<close>

datatype kernel_call =
  Schedule | Tick | Delay u32 | Suspend ptr | Resume ptr | SetPriority ptr u32
| SemTake ptr u32 | SemGive ptr | SemTakeISR ptr | SemGiveISR ptr
| QueueSend ptr ptr u32 | QueueReceive ptr ptr u32 | QueueSendISR ptr ptr | QueueReceiveISR ptr ptr
| MailboxSend ptr ptr u32 | MailboxReceive ptr ptr u32
| MutexLock ptr u32 | MutexUnlock ptr
| SetBits ptr u32 | WaitBits ptr u32 u32 u32
| Notify ptr u32 | NotifyWait bool u32

fun perform :: "env \<Rightarrow> kernel_call \<Rightarrow> os \<Rightarrow> os option" where
  "perform e Schedule s = os_sched_select_next s"
| "perform e Tick s = SysTick_Handler e s"
| "perform e (Delay n) s = map_option snd (os_task_delay e n s)"
| "perform e (Suspend t) s = map_option snd (os_task_suspend e t s)"
| "perform e (Resume t) s = map_option snd (os_task_resume t s)"
| "perform e (SetPriority t q) s = map_option snd (os_task_set_priority t q s)"
| "perform e (SemTake x n) s = map_option snd (os_sem_take e x n s)"
| "perform e (SemGive x) s = map_option snd (os_sem_give e x s)"
| "perform e (SemTakeISR x) s = Some (snd (os_sem_take_from_isr x s))"
| "perform e (SemGiveISR x) s = map_option snd (os_sem_give_from_isr x s)"
| "perform e (QueueSend q i n) s = map_option snd (os_queue_send e q i n s)"
| "perform e (QueueReceive q i n) s = map_option snd (os_queue_receive e q i n s)"
| "perform e (QueueSendISR q i) s = map_option snd (os_queue_send_from_isr q i s)"
| "perform e (QueueReceiveISR q i) s = map_option snd (os_queue_receive_from_isr q i s)"
| "perform e (MailboxSend q i n) s = map_option snd (os_mailbox_send e q i n s)"
| "perform e (MailboxReceive q i n) s = map_option snd (os_mailbox_receive e q i n s)"
| "perform e (MutexLock x n) s = map_option snd (os_mutex_lock e x n s)"
| "perform e (MutexUnlock x) s = map_option snd (os_mutex_unlock e x s)"
| "perform e (SetBits x b) s = map_option snd (os_eventgroup_set_bits e x b s)"
| "perform e (WaitBits x b opt n) s = map_option snd (os_eventgroup_wait_bits e x b opt n s)"
| "perform e (Notify t v) s = map_option snd (os_task_notify e t v s)"
| "perform e (NotifyWait w n) s = map_option (snd \<circ> snd) (os_task_notify_wait e w n s)"

definition handle_ok :: "ptr \<Rightarrow> os \<Rightarrow> bool" where
  "handle_ok t s \<longleftrightarrow> t = NULL \<or> tcbs s t \<noteq> None"

definition keeps_order :: "ptr \<Rightarrow> u32 \<Rightarrow> os \<Rightarrow> bool" where
  "keeps_order t q s \<longleftrightarrow> (case tcbs s t of Some c \<Rightarrow> priority c = q \<or> tcb_state c \<noteq> OS_TASK_RUNNING \<and> \<not> on_object c | None \<Rightarrow> False)"

definition may_boost :: "ptr \<Rightarrow> os \<Rightarrow> bool" where
  "may_boost w s \<longleftrightarrow> (case (tcbs s w, tcbs s (current_task_ptr s)) of
     (Some c, Some c0) \<Rightarrow> priority c \<le> priority c0 \<or> \<not> on_object c | _ \<Rightarrow> False)"

fun enabled :: "kernel_call \<Rightarrow> os \<Rightarrow> bool" where
  "enabled Schedule s \<longleftrightarrow> True"
| "enabled Tick s \<longleftrightarrow> task_running s \<and> os_task_check_stack_overflow s = Some ()"
| "enabled (Suspend t) s \<longleftrightarrow> handle_ok t s"
| "enabled (Resume t) s \<longleftrightarrow> handle_ok t s"
| "enabled (SetPriority t q) s \<longleftrightarrow> t = NULL \<or> OS_CONFIG_NUM_PRIORITIES \<le> q \<or> keeps_order t q s"
| "enabled (SemTakeISR x) s \<longleftrightarrow> True"
| "enabled (SemGiveISR x) s \<longleftrightarrow> True"
| "enabled (QueueSendISR q i) s \<longleftrightarrow> True"
| "enabled (QueueReceiveISR q i) s \<longleftrightarrow> True"
| "enabled (MutexLock x n) s \<longleftrightarrow> task_running s \<and>
     (let w = mutex_owner (mutexes s x) in w = NULL \<or> w = current_task_ptr s \<or> may_boost w s)"
| "enabled (MutexUnlock x) s \<longleftrightarrow> task_running s \<and> (mutex_owner (mutexes s x) = current_task_ptr s \<and> lock_count (mutexes s x) = 1 \<longrightarrow>
     map_option priority (get_tcb (current_task_ptr s) s) = Some (original_prio (mutexes s x))
     \<or> OS_CONFIG_NUM_PRIORITIES \<le> original_prio (mutexes s x))"
| "enabled (Notify t v) s \<longleftrightarrow> task_running s \<and> handle_ok t s"
| "enabled c s \<longleftrightarrow> task_running s"

inductive kernel_step :: "env \<Rightarrow> os \<Rightarrow> os \<Rightarrow> bool" for e where
  call: "enabled c s \<Longrightarrow> perform e c s = Some s' \<Longrightarrow> kernel_step e s s'"

inductive_cases kernel_stepE: "kernel_step e s s'"

lemma returns_iff: "(\<exists>s'. (\<exists>st. r = Some (st, s')) \<and> kernel_inv D s') \<longleftrightarrow> returns D r"
  by (auto simp: returns_def)

lemmas call_ok = delay_ok suspend_ok resume_ok sem_take_ok sem_give_ok sem_give_isr_ok queue_send_ok queue_receive_ok queue_isr_ok
  mailbox_ok mutex_unlock_ok set_bits_ok notify_ok

lemma perform_ok:
  assumes "kernel_inv D s" "switch_ok e" "enabled c s" "c \<noteq> Tick" shows "\<exists>s'. perform e c s = Some s' \<and> kernel_inv D s'"
proof (cases c)
  case Schedule
  then show ?thesis using schedule_ok [OF assms(1)] by auto
next
  case (SetPriority t q)
  then show ?thesis using set_priority_ok [OF assms(1), of t q] assms(3) by (auto simp: keeps_order_def returns_def split: option.splits)
next
  case (MutexLock x n)
  then show ?thesis using mutex_lock_ok [OF assms(1) _ assms(2), of x n] assms(3)
    by (auto simp: may_boost_def Let_def returns_def split: option.splits)
next
  case (SemTakeISR x)
  then show ?thesis using sem_take_isr_ok [OF assms(1)] by simp
next
  case (WaitBits x b opt n)
  then show ?thesis using wait_bits_ok [OF assms(1) _ assms(2), of x b opt n] assms(3) by auto
next
  case (NotifyWait w n)
  then show ?thesis using notify_wait_ok [OF assms(1) _ assms(2), of w n] assms(3) by auto
qed (use assms in \<open>simp_all add: handle_ok_def returns_iff call_ok\<close>)

lemma step_inv:
  assumes "kernel_inv D s" "switch_ok e" "hooks_ok e" "kernel_step e s s'" shows "kernel_inv D s'"
proof -
  obtain c where c: "enabled c s" "perform e c s = Some s'" using assms(4) by (rule kernel_stepE)
  show ?thesis
  proof (cases "c = Tick")
    case True
    then show ?thesis using systick_inv [OF assms(3,1), of s'] c by simp
  next
    case False
    then show ?thesis using perform_ok [OF assms(1,2) c(1)] c(2) by auto
  qed
qed

lemma reachable_inv:
  assumes "(kernel_step e)\<^sup>*\<^sup>* s0 s" "kernel_inv D s0" "switch_ok e" "hooks_ok e" shows "kernel_inv D s"
  using assms(1,2)
proof (induction rule: rtranclp_induct)
  case (step y z)
  then show ?case using step_inv [OF _ assms(3,4)] by blast
qed

section \<open>Properties\<close>

text \<open>
  C2. The kernel invariant holds in every state reachable by steps of \<open>kernel_step\<close>: scheduling decisions, complete tick
  interrupts that return, and the calls of \<open>kernel_call\<close> by tasks and interrupt handlers, in any order in which each is
  \<open>enabled\<close>. So every task is in the list its state says and in
  no other, the tasks stay the same, the wait lists are in priority order, a task waits in the list of the object its control
  block names, at most the current task runs, and critical sections are balanced. In every such state
  every enabled call other than the tick returns, so no list walk diverges and no invalid control block is used. \<open>enabled\<close>
  excludes the calls by which the code itself breaks the order of its lists: changing the priority of the running task or of
  a task in the wait list of an object, also by inheritance, and the last unlock by an owner of a changed priority. A tick may
  fail to return (\<open>auto_reload_starved\<close> in \<open>Timer_Tick\<close>). The callbacks of the tick are assumed to keep the invariant.
\<close>

theorem kernel_reachable_inv:
  assumes "(kernel_step e)\<^sup>*\<^sup>* s0 s" "kernel_inv D s0" "switch_ok e" "hooks_ok e"
  shows "kernel_inv D s \<and> (\<forall>c. enabled c s \<and> c \<noteq> Tick \<longrightarrow> (\<exists>s'. perform e c s = Some s' \<and> kernel_inv D s'))"
  using reachable_inv [OF assms] perform_ok [OF _ assms(3)] by blast

lemma demo_kernel_ok: "kernel_ok (dom demo_tcbs) demo demo_lists demo_tcbs"
proof -
  have l: "demo_lists l = [] \<or> l = Blocked \<and> demo_lists l = [tDelayed] \<or> l = SemW aSem \<and> demo_lists l = [tSem]" if "wait_list l" for l
    using that by (auto simp: demo_lists_def wait_list_def)
  have "waits_on l d" if "demo_tcbs t = Some d" "object_list l" "t \<in> set (demo_lists l)" for t d l
    using l [of l] that by (auto simp: object_list_def demo_tcbs_def)
  moreover have "blocked_on d = NULL" if "demo_tcbs t = Some d" "\<And>l. object_list l \<Longrightarrow> t \<notin> set (demo_lists l)" for t d
  proof (cases "t = tSem")
    case True
    then show ?thesis using that(2) [of "SemW aSem"] by (simp add: demo_lists_def)
  next
    case False
    then show ?thesis using that(1) by (auto simp: demo_tcbs_def demo_tcb_def split: if_splits)
  qed
  ultimately have "waits_ok demo_lists demo_tcbs" by (auto simp: waits_ok_def)
  moreover have "shallow demo" "demo_lists Deferred = []" by (simp_all add: shallow_def demo_def demo_lists_def)
  ultimately show ?thesis using demo_rep demo_states_ok demo_current_ok unfolding kernel_ok_def by blast
qed

lemma demo_kernel_inv: "kernel_inv (dom demo_tcbs) demo"
  using demo_kernel_ok unfolding kernel_inv_def by blast

lemma demo_switch_ok: "switch_ok demo_env" "hooks_ok demo_env"
  by (simp_all add: switch_ok_def hooks_ok_def demo_env_def kept_refl)

theorem kernel_reachable_inv_witness:
  "\<exists>s s'. perform demo_env Schedule demo = Some s \<and> current_task_ptr s = tReady \<and> kernel_inv (dom demo_tcbs) s
     \<and> perform demo_env (SemTake aSem 20) s = Some s' \<and> kernel_inv (dom demo_tcbs) s'"
proof -
  have "rotated 2 (current_task_ptr demo) demo_lists (Ready 2) = [tReady, tRun]" by (simp add: rotated_def demo_run demo_head)
  then obtain s A V where s: "os_sched_select_next demo = Some s" "current_task_ptr s = tReady" "rep s A V"
    "map_option tcb_state (V (current_task_ptr s)) = Some OS_TASK_RUNNING"
    using select_next_rep [OF demo_rep demo_states_ok demo_current_ok demo_top_level] by force
  have "enabled (SemTake aSem 20) s" using running_rep_iff [OF s(3)] s(2,4) by simp
  moreover have "(kernel_step demo_env)\<^sup>*\<^sup>* demo s" using s(1) kernel_step.call [of Schedule demo demo_env s] by auto
  ultimately show ?thesis using kernel_reachable_inv [OF _ demo_kernel_inv demo_switch_ok] s(1,2) by fastforce
qed

end
