(* ===== verification/App.thy ===== *)
theory App
  imports System Kernel
begin

unbundle bit_operations_syntax

text \<open>
  The demonstration application, \<open>app/main.c\<close>: its hooks and callbacks, the turns of its five
  tasks, and \<open>main\<close>, the boot sequence that composes every component of the kernel.

  Variables of the application are cells of \<open>mem8\<close>, four bytes each, low byte first. The record
  \<open>app\<close> holds the addresses the linker assigns to them and to the functions: \<open>at_x\<close> is
  \<open>&x\<close>, \<open>fn_f\<close> is the function \<open>f\<close>. The endless loop of a task is one turn.
\<close>

section \<open>Variables\<close>

record app =
  at_shared_counter :: ptr
  at_malloc_fail_count :: ptr
  at_tick_hook_count :: ptr
  at_overflow_detected :: ptr
  at_task_delete_count :: ptr
  at_demo_queue :: ptr
  at_data_ready_sem :: ptr
  at_counter_mutex :: ptr
  at_heartbeat_timer :: ptr
  at_heartbeat_count :: ptr
  at_demo_events :: ptr
  at_sensor_task_handle :: ptr
  at_monitor_task_handle :: ptr
  at_producer_task_handle :: ptr
  at_consumer_task_handle :: ptr
  at_alarm_mailbox :: ptr
  at_idle_tick_count :: ptr
  at_task1_stack :: ptr
  at_task2_stack :: ptr
  at_task3_stack :: ptr
  at_task4_stack :: ptr
  at_task5_stack :: ptr
  \<comment> \<open>the local variables whose address is taken\<close>
  at_value :: ptr
  at_alarm_code :: ptr
  at_received :: ptr
  at_alarm :: ptr
  \<comment> \<open>functions\<close>
  fn_my_task_delete_hook :: ptr
  fn_heartbeat_callback :: ptr
  fn_my_idle_hook :: ptr
  fn_my_malloc_failed_hook :: ptr
  fn_my_stack_overflow_hook :: ptr
  fn_my_tick_hook :: ptr
  fn_producer_task :: ptr
  fn_consumer_task :: ptr
  fn_event_waiter_task :: ptr
  fn_sensor_task :: ptr
  fn_monitor_task :: ptr

definition load32 :: "ptr \<Rightarrow> os \<Rightarrow> u32" where
  "load32 p s = ucast (mem8 s p) OR push_bit 8 (ucast (mem8 s (p + 1)))
     OR push_bit 16 (ucast (mem8 s (p + 2))) OR push_bit 24 (ucast (mem8 s (p + 3)))"

definition store32 :: "ptr \<Rightarrow> u32 \<Rightarrow> os \<Rightarrow> os" where
  "store32 p v s = s\<lparr>mem8 := (mem8 s)(p := ucast v, p + 1 := ucast (drop_bit 8 v),
     p + 2 := ucast (drop_bit 16 v), p + 3 := ucast (drop_bit 24 v))\<rparr>"

definition bump32 :: "ptr \<Rightarrow> os \<Rightarrow> os" where
  "bump32 p s = store32 p (load32 p s + 1) s"

section \<open>Hooks and callbacks\<close>

definition my_task_delete_hook :: "app \<Rightarrow> ptr \<Rightarrow> os \<Rightarrow> os" where
  "my_task_delete_hook a handle s = bump32 (at_task_delete_count a) s"

definition heartbeat_callback :: "app \<Rightarrow> ptr \<Rightarrow> os \<Rightarrow> os" where
  "heartbeat_callback a timer s = bump32 (at_heartbeat_count a) s"

definition my_idle_hook :: "app \<Rightarrow> os \<Rightarrow> os" where
  "my_idle_hook a s = bump32 (at_idle_tick_count a) s"

definition my_malloc_failed_hook :: "app \<Rightarrow> u32 \<Rightarrow> os \<Rightarrow> os" where
  "my_malloc_failed_hook a sz s = bump32 (at_malloc_fail_count a) s"

text \<open>It sets its flag, prints, and waits for interrupts for ever: it never returns.\<close>

definition my_stack_overflow_hook :: "app \<Rightarrow> ptr \<Rightarrow> os \<Rightarrow> os option" where
  "my_stack_overflow_hook a handle s = (let s = store32 (at_overflow_detected a) 1 s in None)"

definition my_tick_hook :: "app \<Rightarrow> os \<Rightarrow> os" where
  "my_tick_hook a s = bump32 (at_tick_hook_count a) s"

text \<open>
  The environment of the kernel in which a function pointer of the application runs that function. The
  callback of the heap sees the heap only, so \<open>my_malloc_failed_hook\<close> leaves it as it is.
\<close>

definition app_env :: "app \<Rightarrow> env \<Rightarrow> env" where
  "app_env a e = e\<lparr>
     call_malloc_failed := (\<lambda>f n h. if f = fn_my_malloc_failed_hook a then h else call_malloc_failed e f n h),
     call_delete_hook := (\<lambda>f t s. if f = fn_my_task_delete_hook a then Some (my_task_delete_hook a t s) else call_delete_hook e f t s),
     call_tick_hook := (\<lambda>f s. if f = fn_my_tick_hook a then Some (my_tick_hook a s) else call_tick_hook e f s),
     call_idle_hook := (\<lambda>f s. if f = fn_my_idle_hook a then Some (my_idle_hook a s) else call_idle_hook e f s),
     call_timer := (\<lambda>f t s. if f = fn_heartbeat_callback a then Some (heartbeat_callback a t s) else call_timer e f t s)\<rparr>"

section \<open>Tasks\<close>

abbreviation (input) OS_EVENT_WAIT_ANY :: u32 where "OS_EVENT_WAIT_ANY \<equiv> 0"
abbreviation (input) EVT_SENSOR_READY :: u32 where "EVT_SENSOR_READY \<equiv> 1"
abbreviation (input) EVT_DATA_PROCESSED :: u32 where "EVT_DATA_PROCESSED \<equiv> 2"
abbreviation (input) EVT_ALL_DONE :: u32 where "EVT_ALL_DONE \<equiv> 4"

definition OS_DELAY_MS :: "env \<Rightarrow> u32 \<Rightarrow> os \<Rightarrow> (os_status \<times> os) option" where
  "OS_DELAY_MS e ms s = os_task_delay e (ms * OS_CONFIG_TICK_RATE_HZ div 1000) s"

definition OS_DELAY_SEC :: "env \<Rightarrow> u32 \<Rightarrow> os \<Rightarrow> (os_status \<times> os) option" where
  "OS_DELAY_SEC e sec s = os_task_delay e (sec * OS_CONFIG_TICK_RATE_HZ) s"

definition producer_task :: "app \<Rightarrow> env \<Rightarrow> os \<Rightarrow> os option" where
  "producer_task a e s =
     do {
       let s = bump32 (at_value a) s;
       (_, s) \<leftarrow> os_queue_send e (at_demo_queue a) (at_value a) OS_WAIT_FOREVER s;
       (_, s) \<leftarrow> os_sem_give e (at_data_ready_sem a) s;
       (_, s) \<leftarrow> os_task_notify e (load32 (at_sensor_task_handle a) s) (load32 (at_value a) s) s;
       (_, s) \<leftarrow> (if load32 (at_value a) s mod 10 = 0
                  then os_mailbox_send e (at_alarm_mailbox a) (at_alarm_code a) OS_WAIT_NONE
                         (store32 (at_alarm_code a) (0xA000 OR load32 (at_value a) s) s)
                  else Some (OS_OK, s));
       let (_, s) = os_wdt_feed s;
       (_, s) \<leftarrow> OS_DELAY_MS e 200 s;
       Some s
     }"

definition consumer_task :: "app \<Rightarrow> env \<Rightarrow> os \<Rightarrow> os option" where
  "consumer_task a e s =
     do {
       (_, s) \<leftarrow> os_sem_take e (at_data_ready_sem a) OS_WAIT_FOREVER s;
       (st, s) \<leftarrow> os_queue_receive e (at_demo_queue a) (at_received a) OS_WAIT_FOREVER s;
       s \<leftarrow> (if st = OS_OK
             then do {
               (_, s) \<leftarrow> os_mutex_lock e (at_counter_mutex a) OS_WAIT_FOREVER s;
               let s = store32 (at_shared_counter a) (load32 (at_shared_counter a) s + load32 (at_received a) s) s;
               (_, s) \<leftarrow> os_mutex_unlock e (at_counter_mutex a) s;
               (_, s) \<leftarrow> os_eventgroup_set_bits e (at_demo_events a) EVT_DATA_PROCESSED s;
               Some (os_trace_record (OS_TRACE_USER_EVENT 1) (load32 (at_received a) s) (load32 (at_shared_counter a) s) s)
             }
             else Some s);
       (st, s) \<leftarrow> os_mailbox_receive e (at_alarm_mailbox a) (at_alarm a) OS_WAIT_NONE s;
       let s = (if st = OS_OK then os_trace_record (OS_TRACE_USER_EVENT 4) (load32 (at_alarm a) s) 0 s else s);
       let (_, s) = os_wdt_feed s;
       Some s
     }"

definition event_waiter_task :: "app \<Rightarrow> env \<Rightarrow> os \<Rightarrow> os option" where
  "event_waiter_task a e s =
     do {
       (_, s) \<leftarrow> os_eventgroup_set_bits e (at_demo_events a) EVT_SENSOR_READY s;
       (_, s) \<leftarrow> os_eventgroup_wait_bits e (at_demo_events a) EVT_DATA_PROCESSED
                   (OS_EVENT_WAIT_ANY OR OS_EVENT_CLEAR_ON_EXIT) OS_WAIT_FOREVER s;
       (_, s) \<leftarrow> os_eventgroup_set_bits e (at_demo_events a) EVT_ALL_DONE s;
       (_, s) \<leftarrow> OS_DELAY_SEC e 1 s;
       Some s
     }"

definition sensor_task :: "app \<Rightarrow> env \<Rightarrow> u32 \<Rightarrow> os \<Rightarrow> (u32 \<times> os) option" where
  "sensor_task a e notify_val s =
     do {
       (st, v, s) \<leftarrow> os_task_notify_wait e True OS_WAIT_FOREVER s;
       let notify_val = (case v of None \<Rightarrow> notify_val | Some v \<Rightarrow> v);
       Some (notify_val, if st = OS_OK then os_trace_record (OS_TRACE_USER_EVENT 2) notify_val 0 s else s)
     }"

definition monitor_task :: "app \<Rightarrow> env \<Rightarrow> os \<Rightarrow> os option" where
  "monitor_task a e s =
     do {
       info \<leftarrow> os_sysinfo_get True s;
       sysinfo \<leftarrow> info;
       cpu_sensor \<leftarrow> os_stats_get_cpu_usage (load32 (at_sensor_task_handle a) s) s;
       let s = os_trace_record (OS_TRACE_USER_EVENT 3) (si_heap_free sysinfo) cpu_sensor s;
       (_, s) \<leftarrow> OS_DELAY_SEC e 3 s;
       Some s
     }"

section \<open>The boot sequence\<close>

definition main_hooks :: "app \<Rightarrow> os \<Rightarrow> os" where
  "main_hooks a s =
     (let (_, s) = os_task_register_idle_hook (fn_my_idle_hook a) s;
          s = s\<lparr>heap := os_heap_set_malloc_failed_hook (fn_my_malloc_failed_hook a) (heap s)\<rparr>;
          s = os_task_set_stack_overflow_hook (fn_my_stack_overflow_hook a) s;
          (_, s) = os_kernel_register_tick_hook (fn_my_tick_hook a) s
      in os_task_set_delete_hook (fn_my_task_delete_hook a) s)"

definition main_sync_objects :: "app \<Rightarrow> env \<Rightarrow> os \<Rightarrow> os option" where
  "main_sync_objects a e s =
     do {
       (_, s) \<leftarrow> os_queue_create e (at_demo_queue a) 4 10 s;
       let (_, s) = os_sem_create_binary (at_data_ready_sem a) s;
       let (_, s) = os_mutex_create (at_counter_mutex a) s;
       let (_, s) = os_eventgroup_create (at_demo_events a) s;
       (_, s) \<leftarrow> os_mailbox_create e (at_alarm_mailbox a) 4 s;
       Some s
     }"

definition main_timer :: "app \<Rightarrow> os \<Rightarrow> os option" where
  "main_timer a s =
     do {
       (_, s) \<leftarrow> os_timer_create (at_heartbeat_timer a) (Some ''HB'') OS_CONFIG_TICK_RATE_HZ OS_TIMER_AUTO_RELOAD
                   (fn_heartbeat_callback a) s;
       (_, s) \<leftarrow> os_timer_start (at_heartbeat_timer a) OS_WAIT_NONE s;
       Some s
     }"

text \<open>\<open>os_task_create\<close> stores the handle through its last argument when it succeeds.\<close>

definition create_task :: "env \<Rightarrow> ptr \<Rightarrow> string \<Rightarrow> u32 \<Rightarrow> ptr \<Rightarrow> ptr \<Rightarrow> os \<Rightarrow> os option" where
  "create_task e func nm prio stack handle s =
     do {
       (st, h, s) \<leftarrow> os_task_create e func (Some nm) NULL prio stack 256 (handle \<noteq> NULL) s;
       Some (if st = OS_OK \<and> handle \<noteq> NULL then store32 handle h s else s)
     }"

definition main_tasks :: "app \<Rightarrow> env \<Rightarrow> os \<Rightarrow> os option" where
  "main_tasks a e s =
     do {
       s \<leftarrow> create_task e (fn_producer_task a) ''PROD'' 2 (at_task1_stack a) (at_producer_task_handle a) s;
       s \<leftarrow> create_task e (fn_consumer_task a) ''CONS'' 3 (at_task2_stack a) (at_consumer_task_handle a) s;
       s \<leftarrow> create_task e (fn_event_waiter_task a) ''EVT'' 4 (at_task3_stack a) NULL s;
       s \<leftarrow> create_task e (fn_sensor_task a) ''SENS'' 3 (at_task4_stack a) (at_sensor_task_handle a) s;
       create_task e (fn_monitor_task a) ''MON'' 6 (at_task5_stack a) (at_monitor_task_handle a) s
     }"

definition main_watchdogs :: "app \<Rightarrow> os \<Rightarrow> os" where
  "main_watchdogs a s =
     (let (_, s) = os_wdt_register (load32 (at_producer_task_handle a) s) 5000 NULL NULL s;
          (_, s) = os_wdt_register (load32 (at_consumer_task_handle a) s) 5000 NULL NULL s
      in s)"

text \<open>Up to the jump into the first task, as \<open>os_kernel_start\<close>.\<close>

definition main :: "app \<Rightarrow> env \<Rightarrow> os \<Rightarrow> os option" where
  "main a e s =
     do {
       s \<leftarrow> os_kernel_init e s;
       let s = main_hooks a s;
       s \<leftarrow> main_sync_objects a e s;
       s \<leftarrow> main_timer a s;
       s \<leftarrow> main_tasks a e s;
       let s = main_watchdogs a s;
       os_kernel_start e s
     }"

section \<open>Cells\<close>

definition cell :: "ptr \<Rightarrow> ptr set" where
  "cell p = {p, p + 1, p + 2, p + 3}"

lemma load32_store32 [simp]: "load32 p (store32 p v s) = v"
proof (rule bit_word_eqI)
  fix n assume "n < LENGTH(32)"
  have ne: "p + 1 \<noteq> p" "p + 2 \<noteq> p" "p + 3 \<noteq> p" "p + 2 \<noteq> p + 1" "p + 3 \<noteq> p + 1" "p + 3 \<noteq> p + 2" by simp_all
  show "bit (load32 p (store32 p v s)) n = bit v n"
    using \<open>n < LENGTH(32)\<close> ne linorder_not_less [of n 24]
    by (auto simp: load32_def store32_def bit_or_iff bit_push_bit_iff bit_ucast_iff bit_drop_bit_eq not_le)
qed

lemma load32_other [simp]:
  assumes "cell p \<inter> cell q = {}" shows "load32 p (store32 q v s) = load32 p s"
  using assms by (auto simp: load32_def store32_def cell_def)

lemma load32_cong: "mem8 s' = mem8 s \<Longrightarrow> load32 p s' = load32 p s"
  by (simp add: load32_def)

lemma store32_rep [simp]: "rep (store32 p v s) A V = rep s A V"
  by (simp add: store32_def)

end
