(* ===== verification/Boot.thy ===== *)
theory Boot
  imports App
begin

unbundle bit_operations_syntax

text \<open>
  The boot sequence of \<open>app/main.c\<close> from reset to the first task: every call succeeds, and the
  kernel invariant of \<open>System\<close> holds when the scheduler has made its first choice.
\<close>

section \<open>Steps of the boot sequence\<close>

lemma boot_ok_store [simp]: "boot_ok start k (store32 p v s) A V = boot_ok start k s A V"
  by (simp add: boot_ok_def) (simp add: store32_def)

lemma boot_ok_same:
  assumes "boot_ok start k s A V" "rep s' A V" "bump start j (heap s') V" "current_task_ptr s' = current_task_ptr s"
    "scheduler_running s' = scheduler_running s" "critical_nesting s' = critical_nesting s" "kernel_initialized s' = kernel_initialized s"
  shows "boot_ok start j s' A V"
  using assms by (auto simp: boot_ok_def)

lemma bump_hook: "bump start k (h\<lparr>malloc_failed_hook := x\<rparr>) V = bump start k h V"
  by (simp add: bump_def heap_ok_def)

text \<open>What creating tasks leaves alone.\<close>

definition created_frame :: "os \<Rightarrow> os \<Rightarrow> bool" where
  "created_frame s s' \<longleftrightarrow> frame (s\<lparr>heap := heap s', mem8 := mem8 s', mem32 := mem32 s', task_table := task_table s',
     task_count := task_count s', trace := trace s'\<rparr>) s'"

lemma created_frame_trans:
  assumes "created_frame s s1" "created_frame s1 s2" shows "created_frame s s2"
proof -
  have "frame (s\<lparr>heap := heap s2, mem8 := mem8 s2, mem32 := mem32 s2, task_table := task_table s2, task_count := task_count s2, trace := trace s2\<rparr>)
     (s1\<lparr>heap := heap s2, mem8 := mem8 s2, mem32 := mem32 s2, task_table := task_table s2, task_count := task_count s2, trace := trace s2\<rparr>)"
    using assms(1) unfolding created_frame_def frame_def strip_lists_def by (cases s; cases s1) simp
  then show ?thesis using assms(2) unfolding created_frame_def by (rule frame_trans)
qed

lemma created_frame_store [simp]: "created_frame s (store32 p v s') = created_frame s s'"
  by (simp add: created_frame_def frame_def strip_lists_def store32_def) (cases s; cases s'; simp)

definition adds :: "ptr \<Rightarrow> nat \<Rightarrow> tlists \<Rightarrow> tlists" where
  "adds t p A = A(Ready p := A (Ready p) @ [t])"

lemma create_task_boot:
  assumes b: "boot_ok start k s A V" and k: "116 \<le> k" and a: "func \<noteq> NULL" "prio < 8" "task_count s < 16" "stack \<noteq> NULL"
  shows "\<exists>t s' d. create_task e func nm prio stack handle s = Some s'
     \<and> boot_ok start (k - 108) s' (adds t (unat prio) A) (V(t \<mapsto> d)) \<and> t \<noteq> NULL \<and> V t = None \<and> entry_func d = func \<and> priority d = prio
     \<and> task_count s' = task_count s + 1 \<and> created_frame s s' \<and> (handle \<noteq> NULL \<longrightarrow> load32 handle s' = t)
     \<and> (\<forall>p. handle = NULL \<or> cell p \<inter> cell handle = {} \<longrightarrow> load32 p s' = load32 p s)"
proof -
  note i = boot_okD [OF b]
  obtain t s' d where c: "os_task_create e func (Some nm) NULL prio stack 256 (handle \<noteq> NULL) s = Some (OS_OK, if handle \<noteq> NULL then t else NULL, s')"
    "created t d s A V s'" "d = new_tcb func (Some nm) NULL prio stack 256 (fst (os_port_stack_init func NULL stack 256 (mem32 s)))"
    "bump start (k - 108) (heap s') (V(t \<mapsto> d))"
    "frame (s\<lparr>heap := heap s', mem32 := mem32 s', task_table := task_table s', task_count := task_count s', trace := trace s'\<rparr>) s'"
    using static_create [OF i(1-3) k a(1-3) _ a(4), of 256 e "Some nm" NULL "handle \<noteq> NULL"] by auto
  have d: "entry_func d = func" "priority d = prio" "tcb_state d = OS_TASK_READY" "blocked_on d = NULL" by (simp_all add: c(3) new_tcb_def)
  have m: "mem8 s' = mem8 s" using frame_os(2) [OF c(5)] by simp
  have g: "rep s' (adds t (unat prio) A) (V(t \<mapsto> d))" "states_ok (adds t (unat prio) A) (V(t \<mapsto> d))" "t \<noteq> NULL" "V t = None"
    "task_count s' = task_count s + 1" "current_task_ptr s' = NULL" "\<not> scheduler_running s'" "critical_nesting s' = 0"
    using c(2) i(4-6) unfolding created_def adds_def by (auto simp: d crit_same_def)
  have "kernel_initialized s'" using frame_tick_hooks(3) [OF c(5)] i(7) by simp
  then have bo: "boot_ok start (k - 108) s' (adds t (unat prio) A) (V(t \<mapsto> d))"
    using b c(4) g d by (auto simp: boot_ok_def adds_def)
  have "s\<lparr>mem8 := mem8 s'\<rparr> = s" using m by simp
  then have cf: "created_frame s s'" using c(5) m by (simp add: created_frame_def frame_def strip_lists_def)
  let ?s = "if handle \<noteq> NULL then store32 handle t s' else s'"
  have "create_task e func nm prio stack handle s = Some ?s" using c(1) by (simp add: create_task_def)
  moreover have "task_count ?s = task_count s + 1" using g(5) by (simp add: store32_def)
  moreover have "load32 p ?s = load32 p s" if "handle = NULL \<or> cell p \<inter> cell handle = {}" for p
    using that load32_cong [OF m] by auto
  ultimately show ?thesis using bo cf g(3,4) d(1,2) by (intro exI [of _ t] exI [of _ ?s] exI [of _ d]) auto
qed

section \<open>Hooks and objects\<close>

text \<open>What the linker provides for the application: distinct, non-null addresses.\<close>

definition app_linked :: "app \<Rightarrow> bool" where
  "app_linked a \<longleftrightarrow> NULL \<notin> set [at_demo_queue a, at_data_ready_sem a, at_counter_mutex a, at_heartbeat_timer a, at_demo_events a,
       at_alarm_mailbox a, at_task1_stack a, at_task2_stack a, at_task3_stack a, at_task4_stack a, at_task5_stack a,
       at_producer_task_handle a, at_consumer_task_handle a, at_sensor_task_handle a, at_monitor_task_handle a,
       fn_heartbeat_callback a, fn_my_idle_hook a, fn_my_tick_hook a, fn_producer_task a, fn_consumer_task a,
       fn_event_waiter_task a, fn_sensor_task a, fn_monitor_task a]
     \<and> at_demo_queue a \<noteq> at_alarm_mailbox a
     \<and> sorted_wrt (\<lambda>p q. cell p \<inter> cell q = {})
         [at_producer_task_handle a, at_consumer_task_handle a, at_sensor_task_handle a, at_monitor_task_handle a]"

definition hooks_ready :: "app \<Rightarrow> os \<Rightarrow> bool" where
  "hooks_ready a s \<longleftrightarrow> idle_hook_count s = 1 \<and> idle_hooks s 0 = fn_my_idle_hook a \<and> tick_hook_count s = 1 \<and> tick_hooks s 0 = fn_my_tick_hook a
     \<and> task_delete_hook s = fn_my_task_delete_hook a \<and> stack_overflow_hook s = fn_my_stack_overflow_hook a"

definition hook_vars :: "os \<Rightarrow> u32 \<times> (nat \<Rightarrow> ptr) \<times> u32 \<times> (nat \<Rightarrow> ptr) \<times> ptr \<times> ptr" where
  "hook_vars s = (idle_hook_count s, idle_hooks s, tick_hook_count s, tick_hooks s, task_delete_hook s, stack_overflow_hook s)"

lemma hooks_ready_cong: "hook_vars s' = hook_vars s \<Longrightarrow> hooks_ready a s' = hooks_ready a s"
  by (simp add: hook_vars_def hooks_ready_def)

definition sync_ready :: "app \<Rightarrow> os \<Rightarrow> bool" where
  "sync_ready a s \<longleftrightarrow>
     (let q = queues s (at_demo_queue a) in item_size q = 4 \<and> max_items q = 10 \<and> q_count q = 0 \<and> q_head q = 0 \<and> q_tail q = 0 \<and> q_buffer q \<noteq> NULL)
   \<and> (let q = queues s (at_alarm_mailbox a) in item_size q = 4 \<and> max_items q = 1 \<and> q_count q = 0 \<and> q_head q = 0 \<and> q_tail q = 0 \<and> q_buffer q \<noteq> NULL)
   \<and> sem_count (sems s (at_data_ready_sem a)) = 0 \<and> max_count (sems s (at_data_ready_sem a)) = 1
   \<and> mutex_owner (mutexes s (at_counter_mutex a)) = NULL \<and> eg_bits (eventgroups s (at_demo_events a)) = 0"

definition timer_ready :: "app \<Rightarrow> os \<Rightarrow> bool" where
  "timer_ready a s \<longleftrightarrow> active_timer_list s = at_heartbeat_timer a
   \<and> (let t = timers s (at_heartbeat_timer a) in tm_active t \<and> tm_remaining t = 1000 \<and> tm_period t = 1000 \<and> tm_next t = NULL
        \<and> tm_type t = OS_TIMER_AUTO_RELOAD \<and> tm_callback t = fn_heartbeat_callback a)"

definition objects_ready :: "app \<Rightarrow> os \<Rightarrow> bool" where
  "objects_ready a s \<longleftrightarrow> sync_ready a s \<and> timer_ready a s"

lemmas ready_defs = objects_ready_def sync_ready_def timer_ready_def hook_vars_def

lemma main_hooks_boot:
  assumes b: "boot_ok start k s A V" and z: "idle_hook_count s = 0" "tick_hook_count s = 0" and l: "app_linked a"
  shows "boot_ok start k (main_hooks a s) A V \<and> hooks_ready a (main_hooks a s) \<and> task_count (main_hooks a s) = task_count s
     \<and> active_timer_list (main_hooks a s) = active_timer_list s \<and> wdt (main_hooks a s) = wdt s"
proof -
  have f: "fn_my_idle_hook a \<noteq> NULL" "fn_my_tick_hook a \<noteq> NULL" using l by (auto simp: app_linked_def)
  note defs = main_hooks_def os_task_register_idle_hook_def os_kernel_register_tick_hook_def os_task_set_stack_overflow_hook_def
    os_task_set_delete_hook_def os_heap_set_malloc_failed_hook_def hook_index_def crit_simps
  have n: "critical_nesting s = 0" using boot_okD(6) [OF b] .
  have "boot_ok start k (main_hooks a s) A V"
    by (rule boot_ok_same [OF b]) (use boot_okD(1,3) [OF b] f z n in \<open>simp_all add: defs bump_hook\<close>)
  moreover have "hooks_ready a (main_hooks a s)" using f z n by (simp add: hooks_ready_def defs)
  ultimately show ?thesis using f z n by (simp add: defs)
qed

text \<open>While the system boots, nothing waits, so an object may be initialized.\<close>

lemma boot_heads:
  assumes "boot_ok start k s A V" "\<And>p. l \<noteq> Ready p" shows "list_head s l = NULL"
proof -
  have "A l = []" using boot_okD(8) [OF assms(1)] assms(2) by blast
  then show ?thesis using rep_list_ok [OF boot_okD(1) [OF assms(1)]] by (simp add: list_ok_def)
qed

lemma boot_rep:
  assumes b: "boot_ok start k s A V" and s: "tcbs s' = tcbs s" "ready_list s' = ready_list s" "ready_bitmap s' = ready_bitmap s"
    and "\<And>l. (\<And>p. l \<noteq> Ready p) \<Longrightarrow> list_head s' l = NULL"
  shows "rep s' A V"
proof -
  have "list_head s' l = list_head s l" for l
    using assms(5) [of l] boot_heads [OF b, of l] s(2) by (cases l) auto
  then show ?thesis using rep_cong [OF s] boot_okD(1) [OF b] by simp
qed

lemma boot_ok_objects:
  assumes b: "boot_ok start k s A V" and s': "s' = s\<lparr>queues := q, sems := x, mutexes := m, eventgroups := g\<rparr>"
    and w: "\<forall>i. send_wait_list (q i) = NULL \<and> recv_wait_list (q i) = NULL \<and> sem_wait_list (x i) = NULL \<and> mutex_wait_list (m i) = NULL
       \<and> eg_wait_list (g i) = NULL"
  shows "boot_ok start k s' A V"
proof -
  have "list_head s' l = NULL" if "\<And>p. l \<noteq> Ready p" for l
    using that w boot_heads [OF b, of Blocked] boot_heads [OF b, of Deferred] by (cases l) (auto simp: s')
  then have "rep s' A V" by (intro boot_rep [OF b]) (simp_all add: s')
  then show ?thesis using boot_okD(3) [OF b] by (intro boot_ok_same [OF b]) (simp_all add: s')
qed

lemma boot_no_waiters:
  assumes "boot_ok start k s A V"
  shows "send_wait_list (queues s i) = NULL" "recv_wait_list (queues s i) = NULL" "sem_wait_list (sems s i) = NULL"
    "mutex_wait_list (mutexes s i) = NULL" "eg_wait_list (eventgroups s i) = NULL"
  using boot_heads [OF assms, of "QSend i"] boot_heads [OF assms, of "QRecv i"] boot_heads [OF assms, of "SemW i"]
    boot_heads [OF assms, of "MutexW i"] boot_heads [OF assms, of "EventW i"] by simp_all

lemma queue_create_boot:
  assumes b: "boot_ok start k s A V" and q: "q \<noteq> NULL" "isz \<noteq> 0" "maxn \<noteq> 0" and n: "isz * maxn \<noteq> 0" "unat (isz * maxn) + 8 \<le> 2 ^ 32"
    "(unat (isz * maxn) + 7) div 8 * 8 = n" "n + 20 \<le> k"
  shows "\<exists>s' h x. os_queue_create e q isz maxn s = Some (OS_OK, s') \<and> s' = s\<lparr>heap := h, queues := (queues s)(q := x)\<rparr>
     \<and> boot_ok start (k - n - 12) s' A V \<and> item_size x = isz \<and> max_items x = maxn \<and> q_count x = 0 \<and> q_head x = 0 \<and> q_tail x = 0
     \<and> q_buffer x \<noteq> NULL"
proof -
  let ?s1 = "upd_q q (\<lambda>x. x\<lparr>buf_size := isz * maxn\<rparr>) s"
  have h: "bump start k (heap ?s1) V" using boot_okD(3) [OF b] by (simp add: upd_q_def)
  obtain p h' where p: "kmalloc e (isz * maxn) ?s1 = Some (p, ?s1\<lparr>heap := h'\<rparr>)" "p \<noteq> NULL" "bump start (k - n - 12) h' V"
    using bump_alloc [OF h n(1-4), of e] by blast
  define x where "x = (queues s q)\<lparr>buf_size := isz * maxn, q_buffer := p, item_size := isz, max_items := maxn, q_count := 0, q_head := 0,
    q_tail := 0, send_wait_list := NULL, recv_wait_list := NULL\<rparr>"
  let ?s2 = "s\<lparr>heap := h', queues := (queues s)(q := x)\<rparr>"
  have "os_queue_create e q isz maxn s = Some (OS_OK, ?s2)"
    using p(1,2) q by (simp add: os_queue_create_def upd_q_def x_def)
  moreover have "boot_ok start (k - n - 12) ?s2 A V"
  proof (rule boot_ok_same)
    show bq: "boot_ok start k (s\<lparr>queues := (queues s)(q := x), sems := sems s, mutexes := mutexes s, eventgroups := eventgroups s\<rparr>) A V"
      by (rule boot_ok_objects [OF b refl]) (use boot_no_waiters [OF b] in \<open>simp add: x_def\<close>)
    have "?s2 = s\<lparr>queues := (queues s)(q := x)\<rparr>\<lparr>heap := h'\<rparr>" by (cases s) simp
    moreover have "rep (s\<lparr>queues := (queues s)(q := x)\<rparr>) A V" using boot_okD(1) [OF bq] by simp
    ultimately show "rep ?s2 A V" by (simp only: rep_other(1))
  qed (use p(3) in simp_all)
  ultimately show ?thesis using p(2) by (intro exI [of _ ?s2] exI [of _ h'] exI [of _ x]) (simp add: x_def)
qed

lemma timer_start_boot:
  assumes b: "boot_ok start k s A V" and t: "t \<noteq> NULL" "active_timer_list s = NULL" and y: "\<not> tm_active (timers s t)" "tm_next (timers s t) = NULL"
  shows "\<exists>s'. os_timer_start t w s = Some (OS_OK, s')
     \<and> s' = s\<lparr>timers := (timers s)(t := (timers s t)\<lparr>tm_remaining := tm_period (timers s t), tm_active := True\<rparr>), active_timer_list := t,
         saved_mask := saved_mask s'\<rparr> \<and> boot_ok start k s' A V"
proof -
  have z: "critical_nesting s = 0" using boot_okD(6) [OF b] .
  let ?s' = "s\<lparr>timers := (timers s)(t := (timers s t)\<lparr>tm_remaining := tm_period (timers s t), tm_active := True\<rparr>), active_timer_list := t,
    saved_mask := (saved_mask s)(0 := primask s)\<rparr>"
  have "(timers s t)\<lparr>tm_remaining := n, tm_active := True, tm_next := NULL\<rparr> = (timers s t)\<lparr>tm_remaining := n, tm_active := True\<rparr>" for n
    using y(2) by (cases "timers s t") simp
  then have "os_timer_start t w s = Some (OS_OK, ?s')"
    using t z y(1) by (simp add: os_timer_start_def in_critical_def timer_start_body_def prv_timer_insert_sorted_def crit_simps timer_pos.simps upd_tm_def)
  moreover have "boot_ok start k ?s' A V"
    by (rule boot_ok_same [OF b]) (use boot_okD(1,3) [OF b] in simp_all)
  ultimately show ?thesis by (intro exI [of _ ?s']) simp
qed

lemma main_sync_objects_boot:
  assumes b: "boot_ok start k s A V" and l: "app_linked a" and k: "200 \<le> k"
  shows "\<exists>s'. main_sync_objects a e s = Some s' \<and> boot_ok start (k - 72) s' A V \<and> sync_ready a s' \<and> hook_vars s' = hook_vars s
     \<and> task_count s' = task_count s \<and> wdt s' = wdt s \<and> active_timer_list s' = active_timer_list s"
proof -
  have n: "at_demo_queue a \<noteq> NULL" "at_data_ready_sem a \<noteq> NULL" "at_counter_mutex a \<noteq> NULL" "at_demo_events a \<noteq> NULL"
    "at_alarm_mailbox a \<noteq> NULL" "at_demo_queue a \<noteq> at_alarm_mailbox a"
    using l by (auto simp: app_linked_def)
  obtain s1 h1 q1 where 1: "os_queue_create e (at_demo_queue a) 4 10 s = Some (OS_OK, s1)" "s1 = s\<lparr>heap := h1, queues := (queues s)(at_demo_queue a := q1)\<rparr>"
    "boot_ok start (k - 52) s1 A V" "item_size q1 = 4" "max_items q1 = 10" "q_count q1 = 0" "q_head q1 = 0" "q_tail q1 = 0" "q_buffer q1 \<noteq> NULL"
    using queue_create_boot [OF b n(1), of 4 10 40 e] k by auto
  define x where "x = (sems s1)(at_data_ready_sem a := (sems s1 (at_data_ready_sem a))\<lparr>sem_count := 0, max_count := 1, sem_wait_list := NULL\<rparr>)"
  define m where "m = (mutexes s1)(at_counter_mutex a := (mutexes s1 (at_counter_mutex a))\<lparr>mutex_owner := NULL, lock_count := 0, original_prio := 0, mutex_wait_list := NULL\<rparr>)"
  define g where "g = (eventgroups s1)(at_demo_events a := (eventgroups s1 (at_demo_events a))\<lparr>eg_bits := 0, eg_wait_list := NULL\<rparr>)"
  define s2 where "s2 = s1\<lparr>queues := queues s1, sems := x, mutexes := m, eventgroups := g\<rparr>"
  have 2: "snd (os_eventgroup_create (at_demo_events a) (snd (os_mutex_create (at_counter_mutex a) (snd (os_sem_create_binary (at_data_ready_sem a) s1))))) = s2"
    using n by (simp add: os_eventgroup_create_def os_mutex_create_def os_sem_create_binary_def upd_eg_def upd_mutex_def upd_sem_def s2_def x_def m_def g_def)
  have b2: "boot_ok start (k - 52) s2 A V"
    by (rule boot_ok_objects [OF 1(3) s2_def]) (use boot_no_waiters [OF 1(3)] in \<open>simp add: x_def m_def g_def\<close>)
  have k8: "28 \<le> k - 52" using k by simp
  obtain s3 h3 q3 where 3: "os_queue_create e (at_alarm_mailbox a) 4 1 s2 = Some (OS_OK, s3)" "s3 = s2\<lparr>heap := h3, queues := (queues s2)(at_alarm_mailbox a := q3)\<rparr>"
    "boot_ok start (k - 72) s3 A V" "item_size q3 = 4" "max_items q3 = 1" "q_count q3 = 0" "q_head q3 = 0" "q_tail q3 = 0" "q_buffer q3 \<noteq> NULL"
    using queue_create_boot [OF b2 n(5), of 4 1 8 e] k8 by auto
  have run: "main_sync_objects a e s = Some s3"
    using 1(1) 2 3(1) n(5) by (simp add: main_sync_objects_def os_mailbox_create_def split_def)
  have q: "queues s3 = (queues s)(at_demo_queue a := q1, at_alarm_mailbox a := q3)" by (simp add: 3(2) s2_def 1(2))
  have "sync_ready a s3"
    using n(6) 1(4-9) 3(4-9) by (simp add: sync_ready_def q) (simp add: 3(2) s2_def x_def m_def g_def)
  then show ?thesis using run 3(3) by (intro exI [of _ s3]) (simp add: 3(2) s2_def 1(2) hook_vars_def)
qed

text \<open>The heartbeat timer, however its control block was filled in.\<close>

lemma heartbeat_boot:
  assumes b: "boot_ok start k s A V" and l: "app_linked a" and z: "active_timer_list s = NULL"
    and y: "s1 = s\<lparr>timers := (timers s)(at_heartbeat_timer a := y)\<rparr>" "\<not> tm_active y" "tm_next y = NULL" "tm_period y = 1000"
      "tm_type y = OS_TIMER_AUTO_RELOAD" "tm_callback y = fn_heartbeat_callback a" and o: "sync_ready a s"
  shows "\<exists>s'. os_timer_start (at_heartbeat_timer a) w s1 = Some (OS_OK, s') \<and> boot_ok start k s' A V \<and> objects_ready a s'
     \<and> hook_vars s' = hook_vars s \<and> task_count s' = task_count s \<and> wdt s' = wdt s"
proof -
  have b1: "boot_ok start k s1 A V" unfolding y(1) by (rule boot_ok_same [OF b]) (use boot_okD(1,3) [OF b] in simp_all)
  have t: "at_heartbeat_timer a \<noteq> NULL" using l by (auto simp: app_linked_def)
  have y1: "timers s1 (at_heartbeat_timer a) = y" "active_timer_list s1 = NULL" using z by (simp_all add: y(1))
  obtain s' where s': "os_timer_start (at_heartbeat_timer a) w s1 = Some (OS_OK, s')" "boot_ok start k s' A V"
    "s' = s1\<lparr>timers := (timers s1)(at_heartbeat_timer a := y\<lparr>tm_remaining := tm_period y, tm_active := True\<rparr>),
       active_timer_list := at_heartbeat_timer a, saved_mask := saved_mask s'\<rparr>"
    using timer_start_boot [OF b1 t y1(2), of w] y(2,3) unfolding y1(1) by blast
  have f: "queues s' = queues s" "sems s' = sems s" "mutexes s' = mutexes s" "eventgroups s' = eventgroups s" "hook_vars s' = hook_vars s"
    "task_count s' = task_count s" "wdt s' = wdt s" "active_timer_list s' = at_heartbeat_timer a"
    "timers s' (at_heartbeat_timer a) = y\<lparr>tm_remaining := tm_period y, tm_active := True\<rparr>"
    by (subst s'(3); simp add: y(1) hook_vars_def)+
  have "objects_ready a s'" using o y(3-6) by (simp add: objects_ready_def sync_ready_def timer_ready_def f)
  then show ?thesis using s'(1,2) f(5-7) by blast
qed

lemma main_timer_boot:
  assumes b: "boot_ok start k s A V" and l: "app_linked a" and z: "active_timer_list s = NULL" and o: "sync_ready a s"
  shows "\<exists>s'. main_timer a s = Some s' \<and> boot_ok start k s' A V \<and> objects_ready a s'
     \<and> hook_vars s' = hook_vars s \<and> task_count s' = task_count s \<and> wdt s' = wdt s"
proof -
  define y where "y = \<lparr>tm_callback = fn_heartbeat_callback a, tm_period = 1000, tm_remaining = 0, tm_type = OS_TIMER_AUTO_RELOAD,
    tm_active = False, tm_name = strncpy_name ''HB'', tm_next = NULL\<rparr>"
  have n: "at_heartbeat_timer a \<noteq> NULL" "fn_heartbeat_callback a \<noteq> NULL" using l by (auto simp: app_linked_def)
  have "os_timer_create (at_heartbeat_timer a) (Some ''HB'') 1000 OS_TIMER_AUTO_RELOAD (fn_heartbeat_callback a) s
      = Some (OS_OK, s\<lparr>timers := (timers s)(at_heartbeat_timer a := y)\<rparr>)"
    using n by (simp add: os_timer_create_def upd_tm_def y_def)
  then show ?thesis using heartbeat_boot [OF b l z refl _ _ _ _ _ o, of y 0] by (auto simp: main_timer_def y_def)
qed

section \<open>Tasks\<close>

text \<open>\<open>task_is V t f p\<close>: task \<open>t\<close> was created with entry point \<open>f\<close> and priority \<open>p\<close>.\<close>

definition task_is :: "(ptr \<rightharpoonup> os_tcb) \<Rightarrow> ptr \<Rightarrow> ptr \<Rightarrow> u32 \<Rightarrow> bool" where
  "task_is V t f p \<longleftrightarrow> (\<exists>d. V t = Some d \<and> entry_func d = f \<and> priority d = p)"

lemma task_is_dom: "task_is V t f p \<Longrightarrow> t \<in> dom V"
  by (auto simp: task_is_def)

lemma create_task_step:
  assumes "boot_ok start k s A V" "116 \<le> k" "func \<noteq> NULL" "prio < 8" "task_count s < 16" "stack \<noteq> NULL"
  shows "\<exists>t s' V'. create_task e func nm prio stack handle s = Some s'
     \<and> boot_ok start (k - 108) s' (adds t (unat prio) A) V' \<and> t \<noteq> NULL \<and> t \<notin> dom V \<and> dom V' = insert t (dom V) \<and> task_is V' t func prio
     \<and> (\<forall>t f p. task_is V t f p \<longrightarrow> task_is V' t f p)
     \<and> task_count s' = task_count s + 1 \<and> created_frame s s' \<and> (handle \<noteq> NULL \<longrightarrow> load32 handle s' = t)
     \<and> (\<forall>p. handle = NULL \<or> cell p \<inter> cell handle = {} \<longrightarrow> load32 p s' = load32 p s)"
proof -
  obtain t s' d where c: "create_task e func nm prio stack handle s = Some s'"
     "boot_ok start (k - 108) s' (adds t (unat prio) A) (V(t \<mapsto> d))" "t \<noteq> NULL" "V t = None" "entry_func d = func" "priority d = prio"
     "task_count s' = task_count s + 1" "created_frame s s'" "handle \<noteq> NULL \<longrightarrow> load32 handle s' = t"
     "\<forall>p. handle = NULL \<or> cell p \<inter> cell handle = {} \<longrightarrow> load32 p s' = load32 p s"
    using create_task_boot [OF assms, of e nm handle] by blast
  then show ?thesis
    by (intro exI [of _ t] exI [of _ s'] exI [of _ "V(t \<mapsto> d)"]) (auto simp: task_is_def)
qed

text \<open>Several creations in a row, described by their arguments.\<close>

record task_desc =
  td_func :: ptr
  td_name :: string
  td_prio :: u32
  td_stack :: ptr
  td_handle :: ptr

primrec create_tasks :: "env \<Rightarrow> task_desc list \<Rightarrow> os \<Rightarrow> os option" where
  "create_tasks e [] s = Some s"
| "create_tasks e (x # xs) s =
     do { s \<leftarrow> create_task e (td_func x) (td_name x) (td_prio x) (td_stack x) (td_handle x) s; create_tasks e xs s }"

definition desc_ok :: "task_desc \<Rightarrow> bool" where
  "desc_ok x \<longleftrightarrow> td_func x \<noteq> NULL \<and> td_prio x < 8 \<and> td_stack x \<noteq> NULL"

definition apart_from :: "ptr \<Rightarrow> task_desc \<Rightarrow> bool" where
  "apart_from p x \<longleftrightarrow> td_handle x = NULL \<or> cell p \<inter> cell (td_handle x) = {}"

definition handle_apart :: "task_desc \<Rightarrow> task_desc \<Rightarrow> bool" where
  "handle_apart x y \<longleftrightarrow> td_handle x = NULL \<or> apart_from (td_handle x) y"

definition enters :: "task_desc \<times> ptr \<Rightarrow> tlists \<Rightarrow> tlists" where
  "enters x = adds (snd x) (unat (td_prio (fst x)))"

lemma create_tasks_boot:
  assumes "boot_ok start k s A V" "8 + 108 * length xs \<le> k" "\<forall>x \<in> set xs. desc_ok x" "unat (task_count s) + length xs \<le> 16"
    "sorted_wrt handle_apart xs"
  shows "\<exists>s' ts V'. create_tasks e xs s = Some s' \<and> boot_ok start (k - 108 * length xs) s' (fold enters (zip xs ts) A) V'
     \<and> distinct ts \<and> set ts \<inter> dom V = {} \<and> NULL \<notin> set ts \<and> dom V' = set ts \<union> dom V
     \<and> list_all2 (\<lambda>x t. task_is V' t (td_func x) (td_prio x)) xs ts
     \<and> list_all2 (\<lambda>x t. td_handle x \<noteq> NULL \<longrightarrow> load32 (td_handle x) s' = t) xs ts
     \<and> (\<forall>t f p. task_is V t f p \<longrightarrow> task_is V' t f p) \<and> (\<forall>p. (\<forall>x \<in> set xs. apart_from p x) \<longrightarrow> load32 p s' = load32 p s)
     \<and> created_frame s s' \<and> task_count s' = task_count s + of_nat (length xs)"
  using assms
proof (induction xs arbitrary: k s A V)
  case Nil
  have "created_frame s s" by (simp add: created_frame_def)
  then show ?case using Nil by (intro exI [of _ s] exI [of _ "[]"] exI [of _ V]) simp
next
  case (Cons x xs)
  have x: "td_func x \<noteq> NULL" "td_prio x < 8" "td_stack x \<noteq> NULL" using Cons.prems(3) by (simp_all add: desc_ok_def)
  have "unat (task_count s) < 16" using Cons.prems(4) by simp
  then have c: "116 \<le> k" "task_count s < 16" using Cons.prems(2) by (simp_all add: word_less_nat_alt)
  obtain t s1 V1 where 1: "create_task e (td_func x) (td_name x) (td_prio x) (td_stack x) (td_handle x) s = Some s1"
    "boot_ok start (k - 108) s1 (adds t (unat (td_prio x)) A) V1" "t \<noteq> NULL" "t \<notin> dom V" "dom V1 = insert t (dom V)"
    "task_is V1 t (td_func x) (td_prio x)" "\<forall>t f p. task_is V t f p \<longrightarrow> task_is V1 t f p" "task_count s1 = task_count s + 1"
    "created_frame s s1" "td_handle x \<noteq> NULL \<longrightarrow> load32 (td_handle x) s1 = t"
    "\<forall>p. td_handle x = NULL \<or> cell p \<inter> cell (td_handle x) = {} \<longrightarrow> load32 p s1 = load32 p s"
    using create_task_step [OF Cons.prems(1) c(1) x(1,2) c(2) x(3), of e "td_name x" "td_handle x"] by blast
  have "unat (task_count s1) = unat (task_count s) + 1" using c(2) by (simp add: 1(8) word_less_nat_alt unat_word_ariths)
  then have n: "8 + 108 * length xs \<le> k - 108" "unat (task_count s1) + length xs \<le> 16" using Cons.prems(2,4) by simp_all
  have h: "\<forall>x \<in> set xs. desc_ok x" "sorted_wrt handle_apart xs" "\<forall>y \<in> set xs. handle_apart x y" using Cons.prems(3,5) by simp_all
  obtain s' ts V' where 2: "create_tasks e xs s1 = Some s'" "boot_ok start (k - 108 - 108 * length xs) s' (fold enters (zip xs ts) (adds t (unat (td_prio x)) A)) V'"
     "distinct ts" "set ts \<inter> dom V1 = {}" "NULL \<notin> set ts" "dom V' = set ts \<union> dom V1"
     "list_all2 (\<lambda>x t. task_is V' t (td_func x) (td_prio x)) xs ts" "list_all2 (\<lambda>x t. td_handle x \<noteq> NULL \<longrightarrow> load32 (td_handle x) s' = t) xs ts"
     "\<forall>t f p. task_is V1 t f p \<longrightarrow> task_is V' t f p" "\<forall>p. (\<forall>x \<in> set xs. apart_from p x) \<longrightarrow> load32 p s' = load32 p s1"
     "created_frame s1 s'" "task_count s' = task_count s1 + of_nat (length xs)"
    using Cons.IH [OF 1(2) n(1) h(1) n(2) h(2)] by blast
  have "k - 108 - 108 * length xs = k - 108 * length (x # xs)" by simp
  then have b: "boot_ok start (k - 108 * length (x # xs)) s' (fold enters (zip (x # xs) (t # ts)) A) V'" using 2(2) by (simp add: enters_def)
  have "td_handle x \<noteq> NULL \<longrightarrow> load32 (td_handle x) s' = t" using 1(10) 2(10) h(3) by (auto simp: handle_apart_def)
  then have hs: "list_all2 (\<lambda>x t. td_handle x \<noteq> NULL \<longrightarrow> load32 (td_handle x) s' = t) (x # xs) (t # ts)" using 2(8) by simp
  have ts: "list_all2 (\<lambda>x t. task_is V' t (td_func x) (td_prio x)) (x # xs) (t # ts)" using 1(6) 2(7,9) by simp
  have lo: "\<forall>p. (\<forall>x \<in> set (x # xs). apart_from p x) \<longrightarrow> load32 p s' = load32 p s" using 1(11) 2(10) by (auto simp: apart_from_def)
  have "distinct (t # ts)" "set (t # ts) \<inter> dom V = {}" "NULL \<notin> set (t # ts)" "dom V' = set (t # ts) \<union> dom V"
    using 1(3-5) 2(3-6) by auto
  moreover have "create_tasks e (x # xs) s = Some s'" using 1(1) 2(1) by simp
  moreover have "task_count s' = task_count s + of_nat (length (x # xs))" using 1(8) 2(12) by simp
  moreover have "\<forall>t f p. task_is V t f p \<longrightarrow> task_is V' t f p" using 1(7) 2(9) by blast
  ultimately show ?case using b hs ts lo created_frame_trans [OF 1(9) 2(11)] by blast
qed

text \<open>The five tasks of the application.\<close>

definition app_descs :: "app \<Rightarrow> task_desc list" where
  "app_descs a =
     [\<lparr>td_func = fn_producer_task a, td_name = ''PROD'', td_prio = 2, td_stack = at_task1_stack a, td_handle = at_producer_task_handle a\<rparr>,
      \<lparr>td_func = fn_consumer_task a, td_name = ''CONS'', td_prio = 3, td_stack = at_task2_stack a, td_handle = at_consumer_task_handle a\<rparr>,
      \<lparr>td_func = fn_event_waiter_task a, td_name = ''EVT'', td_prio = 4, td_stack = at_task3_stack a, td_handle = NULL\<rparr>,
      \<lparr>td_func = fn_sensor_task a, td_name = ''SENS'', td_prio = 3, td_stack = at_task4_stack a, td_handle = at_sensor_task_handle a\<rparr>,
      \<lparr>td_func = fn_monitor_task a, td_name = ''MON'', td_prio = 6, td_stack = at_task5_stack a, td_handle = at_monitor_task_handle a\<rparr>]"

lemma main_tasks_descs: "main_tasks a e s = create_tasks e (app_descs a) s"
  by (simp add: main_tasks_def app_descs_def)

definition boot_lists :: "ptr \<Rightarrow> ptr \<Rightarrow> ptr \<Rightarrow> ptr \<Rightarrow> ptr \<Rightarrow> ptr \<Rightarrow> tlists" where
  "boot_lists tmr tp tc te ts tm = (\<lambda>_. [])(Ready 2 := [tp], Ready 3 := [tc, ts], Ready 4 := [te], Ready 6 := [tmr, tm])"

definition app_tasks :: "app \<Rightarrow> (ptr \<rightharpoonup> os_tcb) \<Rightarrow> ptr \<Rightarrow> ptr \<Rightarrow> ptr \<Rightarrow> ptr \<Rightarrow> ptr \<Rightarrow> bool" where
  "app_tasks a V tp tc te ts tm \<longleftrightarrow> task_is V tp (fn_producer_task a) 2 \<and> task_is V tc (fn_consumer_task a) 3
     \<and> task_is V te (fn_event_waiter_task a) 4 \<and> task_is V ts (fn_sensor_task a) 3 \<and> task_is V tm (fn_monitor_task a) 6"

definition app_handles :: "app \<Rightarrow> os \<Rightarrow> ptr \<Rightarrow> ptr \<Rightarrow> ptr \<Rightarrow> ptr \<Rightarrow> bool" where
  "app_handles a s tp tc ts tm \<longleftrightarrow> load32 (at_producer_task_handle a) s = tp \<and> load32 (at_consumer_task_handle a) s = tc
     \<and> load32 (at_sensor_task_handle a) s = ts \<and> load32 (at_monitor_task_handle a) s = tm"

lemma main_tasks_boot:
  assumes b: "boot_ok start k s ((\<lambda>_. [])(Ready 6 := [tmr])) V" and l: "app_linked a" and k: "700 \<le> k" and n: "task_count s = 1"
  shows "\<exists>s' V' tp tc te ts tm. main_tasks a e s = Some s' \<and> boot_ok start (k - 540) s' (boot_lists tmr tp tc te ts tm) V'
     \<and> distinct [tp, tc, te, ts, tm] \<and> set [tp, tc, te, ts, tm] \<inter> dom V = {} \<and> NULL \<notin> set [tp, tc, te, ts, tm]
     \<and> dom V' = set [tp, tc, te, ts, tm] \<union> dom V \<and> app_tasks a V' tp tc te ts tm \<and> (\<forall>t f p. task_is V t f p \<longrightarrow> task_is V' t f p)
     \<and> app_handles a s' tp tc ts tm \<and> created_frame s s' \<and> task_count s' = 6"
proof -
  have len: "length (app_descs a) = 5" by (simp add: app_descs_def)
  have d: "\<forall>x \<in> set (app_descs a). desc_ok x" using l by (auto simp: app_descs_def desc_ok_def app_linked_def)
  have h: "sorted_wrt handle_apart (app_descs a)" using l by (simp add: app_descs_def handle_apart_def apart_from_def app_linked_def)
  obtain s' ts V' where c: "create_tasks e (app_descs a) s = Some s'" "boot_ok start (k - 540) s' (fold enters (zip (app_descs a) ts) ((\<lambda>_. [])(Ready 6 := [tmr]))) V'"
     "distinct ts" "set ts \<inter> dom V = {}" "NULL \<notin> set ts" "dom V' = set ts \<union> dom V"
     "list_all2 (\<lambda>x t. task_is V' t (td_func x) (td_prio x)) (app_descs a) ts"
     "list_all2 (\<lambda>x t. td_handle x \<noteq> NULL \<longrightarrow> load32 (td_handle x) s' = t) (app_descs a) ts"
     "\<forall>t f p. task_is V t f p \<longrightarrow> task_is V' t f p" "created_frame s s'" "task_count s' = 6"
    using create_tasks_boot [OF b _ d _ h, of e] k n unfolding len by auto
  have "length ts = Suc (Suc (Suc (Suc (Suc 0))))" using list_all2_lengthD [OF c(7)] len by simp
  then obtain tp tc te tse tm where ts: "ts = [tp, tc, te, tse, tm]" by (auto simp: length_Suc_conv)
  have "fold enters (zip (app_descs a) ts) ((\<lambda>_. [])(Ready 6 := [tmr])) = boot_lists tmr tp tc te tse tm"
    by (auto simp: ts app_descs_def enters_def adds_def boot_lists_def fun_eq_iff)
  moreover have "app_tasks a V' tp tc te tse tm" using c(7) by (simp add: ts app_descs_def app_tasks_def)
  moreover have "app_handles a s' tp tc tse tm" using c(8) l by (auto simp: ts app_descs_def app_handles_def app_linked_def)
  ultimately show ?thesis using c(1-6,9-11) unfolding ts main_tasks_descs by (metis (no_types))
qed

section \<open>The first task\<close>

lemma frame_ready:
  assumes "frame s s'" shows "objects_ready a s' = objects_ready a s" "hook_vars s' = hook_vars s"
  by (simp_all add: ready_defs Let_def frame_objects [OF assms] frame_os [OF assms] frame_tick_hooks [OF assms])

lemma created_frame_ready:
  assumes "created_frame s s'" shows "objects_ready a s' = objects_ready a s" "hook_vars s' = hook_vars s" "wdt s' = wdt s"
  using frame_ready [OF assms [unfolded created_frame_def]] frame_os(22) [OF assms [unfolded created_frame_def]]
  by (simp_all add: ready_defs)

lemma switch_frame_ready:
  assumes "switch_frame s s'" shows "objects_ready a s' = objects_ready a s" "hook_vars s' = hook_vars s" "wdt s' = wdt s"
  using frame_ready [OF assms [unfolded switch_frame_def]] frame_os(22) [OF assms [unfolded switch_frame_def]]
  by (simp_all add: ready_defs)

definition watched :: "os \<Rightarrow> ptr list \<Rightarrow> bool" where
  "watched s ts \<longleftrightarrow> wdt_count (wdt s) = of_nat (length ts) \<and> (\<forall>i < length ts. let x = wdt_table (wdt s) i in
     wdt_tcb x = ts ! i \<and> wdt_deadline x = 5000 \<and> wdt_remaining x = 5000 \<and> \<not> wdt_paused x)"

lemma wdt_register_boot:
  assumes "critical_nesting s = 0" "h \<noteq> NULL" "dl \<noteq> 0" "wdt_count (wdt s) = of_nat n" "n < 16" "\<forall>i < n. wdt_tcb (wdt_table (wdt s) i) \<noteq> h"
  shows "os_wdt_register h dl cb p s = (OS_OK, s\<lparr>saved_mask := (saved_mask s)(0 := primask s), wdt := (wdt s)\<lparr>wdt_table :=
     (wdt_table (wdt s))(n := \<lparr>wdt_tcb = h, wdt_deadline = dl, wdt_remaining = dl, wdt_callback = cb, wdt_cb_param = p, wdt_paused = False\<rparr>),
     wdt_count := of_nat n + 1\<rparr>\<rparr>)"
proof -
  have n: "unat (of_nat n :: u32) = n" "\<not> (16 :: u32) \<le> of_nat n" using assms(5) by (simp_all add: not_le word_less_nat_alt unat_of_nat take_bit_eq_mod)
  have "List.find (\<lambda>i. wdt_tcb (wdt_table (wdt s) i) = h) [0..<n] = None" using assms(6) by (simp add: find_None_iff)
  then show ?thesis using assms(1-4) n by (simp add: os_wdt_register_def prv_find_entry_def upd_entry_def upd_wdt_def crit_simps)
qed

lemma main_watchdogs_boot:
  assumes b: "boot_ok start k s A V" and w: "wdt_count (wdt s) = 0" and h: "app_handles a s tp tc ts tm" "tp \<noteq> NULL" "tc \<noteq> NULL" "tp \<noteq> tc"
  shows "\<exists>m w. main_watchdogs a s = s\<lparr>saved_mask := m, wdt := w\<rparr> \<and> boot_ok start k (main_watchdogs a s) A V \<and> watched (main_watchdogs a s) [tp, tc]"
proof -
  have z: "critical_nesting s = 0" using boot_okD(6) [OF b] .
  obtain m1 w1 where 1: "os_wdt_register tp 5000 NULL NULL s = (OS_OK, s\<lparr>saved_mask := m1, wdt := w1\<rparr>)" "wdt_count w1 = 1"
    "wdt_table w1 0 = \<lparr>wdt_tcb = tp, wdt_deadline = 5000, wdt_remaining = 5000, wdt_callback = NULL, wdt_cb_param = NULL, wdt_paused = False\<rparr>"
    using wdt_register_boot [OF z h(2), of 5000 0 NULL NULL] w by simp
  let ?s1 = "s\<lparr>saved_mask := m1, wdt := w1\<rparr>"
  have z1: "critical_nesting ?s1 = 0" using z by simp
  obtain m2 w2 where 2: "os_wdt_register tc 5000 NULL NULL ?s1 = (OS_OK, s\<lparr>saved_mask := m2, wdt := w2\<rparr>)" "wdt_count w2 = 2"
    "wdt_table w2 0 = wdt_table w1 0"
    "wdt_table w2 1 = \<lparr>wdt_tcb = tc, wdt_deadline = 5000, wdt_remaining = 5000, wdt_callback = NULL, wdt_cb_param = NULL, wdt_paused = False\<rparr>"
    using wdt_register_boot [OF z1 h(3), of 5000 1 NULL NULL] 1(2,3) h(4) by simp
  have l: "load32 (at_producer_task_handle a) s = tp" "load32 (at_consumer_task_handle a) ?s1 = tc"
    using h(1) by (simp_all add: app_handles_def load32_def)
  have m: "main_watchdogs a s = s\<lparr>saved_mask := m2, wdt := w2\<rparr>"
    unfolding main_watchdogs_def l(1) 1(1) Let_def prod.case l(2) 2(1) by simp
  have "watched (main_watchdogs a s) [tp, tc]" unfolding m using 1(3) 2(2-4) by (auto simp: watched_def less_Suc_eq)
  moreover have "boot_ok start k (main_watchdogs a s) A V"
    unfolding m by (rule boot_ok_same [OF b]) (use boot_okD(1,3) [OF b] in simp_all)
  ultimately show ?thesis using m by blast
qed

text \<open>A boot state becomes one of the running kernel when the scheduler makes its first choice.\<close>

lemma boot_waits_ok:
  assumes b: "boot_ok start k s A V" and u: "\<forall>t. map_option unscheduled (V' t) = map_option unscheduled (V t)"
  shows "waits_ok A V'"
proof -
  have "blocked_on d = NULL" if d: "V' t = Some d" for t d
  proof -
    obtain d0 where "V t = Some d0" "unscheduled d0 = unscheduled d" using u [rule_format, of t] d by (cases "V t") auto
    then show ?thesis using boot_okD(10) [OF b] unscheduled_sel(1) by metis
  qed
  moreover have "A l = []" if "object_list l" for l using boot_okD(8) [OF b, of l] that by (cases l) auto
  ultimately show ?thesis by (auto simp: waits_ok_def)
qed

lemma task_is_unscheduled:
  assumes "\<forall>t. map_option unscheduled (V' t) = map_option unscheduled (V t)" "task_is V t f p" shows "task_is V' t f p"
proof -
  obtain d where d: "V t = Some d" "entry_func d = f" "priority d = p" using assms(2) by (auto simp: task_is_def)
  then obtain d' where d': "V' t = Some d'" "unscheduled d' = unscheduled d" using assms(1) [rule_format, of t] by (cases "V' t") auto
  have "entry_func d' = entry_func (unscheduled d')" "priority d' = priority (unscheduled d')"
    "entry_func d = entry_func (unscheduled d)" "priority d = priority (unscheduled d)" by (simp_all add: unscheduled_def)
  then show ?thesis using d d' by (simp add: task_is_def)
qed

lemma first_choice:
  assumes b: "boot_ok start k s A V" and p: "top_level p A"
  shows "\<exists>s' V'. os_sched_select_next (s\<lparr>scheduler_running := True\<rparr>) = Some s' \<and> kernel_ok (dom V) s' A V'
     \<and> current_task_ptr s' = hd (A (Ready p)) \<and> task_running s' \<and> (\<forall>t f p. task_is V t f p \<longrightarrow> task_is V' t f p)
     \<and> switch_frame (s\<lparr>scheduler_running := True\<rparr>) s'"
proof -
  note i = boot_okD [OF b]
  let ?s = "s\<lparr>scheduler_running := True\<rparr>"
  have r: "rep ?s A V" and cur: "current_ok ?s V" using i(1,4) boot_okD(9) [OF b] by (auto simp: current_ok_def)
  have "hd (A (Ready p)) \<noteq> NULL" using rep_member(1) [OF i(1), of _ "Ready p"] p by (auto simp: top_level_def)
  then have rot: "rotated p (current_task_ptr ?s) A = A" using i(4) by (simp add: rotated_def)
  obtain s' V' where s': "os_sched_select_next ?s = Some s'" "rep s' A V'" "states_ok A V'" "current_ok s' V'" "switch_frame ?s s'"
     "current_task_ptr s' = hd (A (Ready p))" "map_option tcb_state (V' (current_task_ptr s')) = Some OS_TASK_RUNNING"
     "\<forall>t. map_option unscheduled (V' t) = map_option unscheduled (V t)"
    using select_next_rep [OF r i(2) cur p] unfolding rot by blast
  have "shallow s'" using switch_frame_crit [OF s'(5)] i(6) by (simp add: crit_same_def shallow_def)
  moreover have "dom V' = dom V" using s'(8) by (metis (no_types) domIff map_option_is_None subsetI subset_antisym)
  moreover have "A Deferred = []" using boot_okD(8) [OF b] by simp
  ultimately have "kernel_ok (dom V) s' A V'" using s'(2-4) boot_waits_ok [OF b s'(8)] by (intro kernel_okI)
  moreover have "task_running s'"
    using running_rep_iff [OF s'(2)] s'(6,7) \<open>hd (A (Ready p)) \<noteq> NULL\<close> by simp
  ultimately show ?thesis using s'(1,5,6) task_is_unscheduled [OF s'(8)] by blast
qed

lemma kernel_start_boot:
  assumes b: "boot_ok start k s (boot_lists tmr tp tc te ts tm) V" and k: "116 \<le> k" and n: "task_count s < 16"
    and e: "idle_task_func e \<noteq> NULL" "idle_task_stack e \<noteq> NULL"
  shows "\<exists>s' V' ti. os_kernel_start e s = Some s' \<and> ti \<notin> dom V
     \<and> kernel_ok (insert ti (dom V)) s' ((boot_lists tmr tp tc te ts tm)(Ready 7 := [ti])) V' \<and> current_task_ptr s' = tp \<and> task_running s'
     \<and> scheduler_running s' \<and> task_is V' ti (idle_task_func e) 7 \<and> (\<forall>t f p. task_is V t f p \<longrightarrow> task_is V' t f p)
     \<and> (\<forall>p. load32 p s' = load32 p s) \<and> wdt s' = wdt s \<and> objects_ready a s' = objects_ready a s \<and> hook_vars s' = hook_vars s"
proof -
  let ?A = "boot_lists tmr tp tc te ts tm"
  let ?s1 = "s\<lparr>periph := os_port_systick_init OS_CONFIG_TICK_RATE_HZ (periph s)\<rparr>"
  have b1: "boot_ok start k ?s1 ?A V" by (rule boot_ok_same [OF b]) (use boot_okD(1,3) [OF b] in simp_all)
  obtain ti s2 V2 where 2: "create_task e (idle_task_func e) ''IDLE'' 7 (idle_task_stack e) NULL ?s1 = Some s2"
    "boot_ok start (k - 108) s2 (adds ti 7 ?A) V2" "ti \<notin> dom V" "dom V2 = insert ti (dom V)" "task_is V2 ti (idle_task_func e) 7"
    "\<forall>t f p. task_is V t f p \<longrightarrow> task_is V2 t f p" "created_frame ?s1 s2" "\<forall>p. load32 p s2 = load32 p ?s1"
    using create_task_step [OF b1 k e(1) _ _ e(2), of 7 e "''IDLE''" NULL] n by auto
  have A: "adds ti 7 ?A = ?A(Ready 7 := [ti])" by (simp add: adds_def boot_lists_def)
  have top: "top_level 2 (adds ti 7 ?A)" "hd (adds ti 7 ?A (Ready 2)) = tp" by (simp_all add: top_level_def A) (simp_all add: boot_lists_def)
  obtain s3 V3 where 3: "os_sched_select_next (s2\<lparr>scheduler_running := True\<rparr>) = Some s3" "kernel_ok (dom V2) s3 (adds ti 7 ?A) V3"
    "current_task_ptr s3 = tp" "task_running s3" "\<forall>t f p. task_is V2 t f p \<longrightarrow> task_is V3 t f p" "switch_frame (s2\<lparr>scheduler_running := True\<rparr>) s3"
    using first_choice [OF 2(2) top(1)] unfolding top(2) by blast
  have idle: "os_task_create_idle e ?s1 = Some s2" using 2(1) by (simp add: os_task_create_idle_def create_task_def split_def)
  have run: "os_kernel_start e s = Some s3"
    using idle 3(1) boot_okD(7) [OF b] by (simp add: os_kernel_start_def os_sched_start_def)
  have "load32 p s3 = load32 p s" for p
    using 2(8) switch_frame_objects(3) [OF 3(6)] by (simp add: load32_def)
  moreover have "wdt s3 = wdt s" "objects_ready a s3 = objects_ready a s" "hook_vars s3 = hook_vars s" "scheduler_running s3"
    using created_frame_ready [OF 2(7)] switch_frame_ready [OF 3(6)] switch_frame_objects(6) [OF 3(6)]
    by (simp_all add: ready_defs)
  ultimately show ?thesis using run 2(3-6) 3(2-5) unfolding A by (metis (no_types, lifting))
qed

section \<open>Properties\<close>

definition started :: "app \<Rightarrow> env \<Rightarrow> os \<Rightarrow> ptr set \<Rightarrow> bool" where
  "started a e s D \<longleftrightarrow> (\<exists>V tmr tp tc te ts tm ti. D = set [tmr, tp, tc, te, ts, tm, ti] \<and> distinct [tmr, tp, tc, te, ts, tm, ti]
     \<and> kernel_ok D s ((boot_lists tmr tp tc te ts tm)(Ready 7 := [ti])) V \<and> current_task_ptr s = tp \<and> task_running s \<and> scheduler_running s
     \<and> app_tasks a V tp tc te ts tm \<and> task_is V tmr (timer_service_func e) 6 \<and> task_is V ti (idle_task_func e) 7
     \<and> app_handles a s tp tc ts tm \<and> watched s [tp, tc] \<and> objects_ready a s)"

lemma started_inv: "started a e s D \<Longrightarrow> kernel_inv D s" and started_card: "started a e s D \<Longrightarrow> card D = 7"
  unfolding started_def kernel_inv_def by (blast, elim exE conjE, simp)

text \<open>The rest of \<open>main\<close> once hooks and objects are there.\<close>

definition main_rest :: "app \<Rightarrow> env \<Rightarrow> os \<Rightarrow> os option" where
  "main_rest a e s = do { s \<leftarrow> main_tasks a e s; let s = main_watchdogs a s; os_kernel_start e s }"

lemma main_rest_run:
  assumes b: "boot_ok start 10048 s3 ((\<lambda>_. [])(Ready 6 := [tmr])) [tmr \<mapsto> d]" and a: "app_linked a"
    and e: "idle_task_func e \<noteq> NULL" "idle_task_stack e \<noteq> NULL" and d: "entry_func d = timer_service_func e" "priority d = 6"
    and s: "objects_ready a s3" "task_count s3 = 1" "wdt_count (wdt s3) = 0"
  shows "\<exists>s' D. main_rest a e s3 = Some s' \<and> started a e s' D \<and> hook_vars s' = hook_vars s3"
proof -
  obtain s4 V4 tp tc te ts tm where 4: "main_tasks a e s3 = Some s4" "boot_ok start 9508 s4 (boot_lists tmr tp tc te ts tm) V4"
     "distinct [tp, tc, te, ts, tm]" "set [tp, tc, te, ts, tm] \<inter> {tmr} = {}" "NULL \<notin> set [tp, tc, te, ts, tm]"
     "dom V4 = set [tp, tc, te, ts, tm] \<union> {tmr}" "app_tasks a V4 tp tc te ts tm" "\<forall>t f p. task_is [tmr \<mapsto> d] t f p \<longrightarrow> task_is V4 t f p"
     "app_handles a s4 tp tc ts tm" "created_frame s3 s4" "task_count s4 = 6"
    using main_tasks_boot [OF b a _ s(2), of e] by auto
  have w4: "wdt_count (wdt s4) = 0" using created_frame_ready(3) [OF 4(10)] s(3) by simp
  let ?s5 = "main_watchdogs a s4"
  obtain m w where 5: "?s5 = s4\<lparr>saved_mask := m, wdt := w\<rparr>" "boot_ok start 9508 ?s5 (boot_lists tmr tp tc te ts tm) V4" "watched ?s5 [tp, tc]"
    using main_watchdogs_boot [OF 4(2) w4 4(9)] 4(3,5) by auto
  have 6: "task_count ?s5 < 16" "objects_ready a ?s5" "hook_vars ?s5 = hook_vars s3" "app_handles a ?s5 tp tc ts tm"
    using 4(9,11) s(1) created_frame_ready(1,2) [OF 4(10)]
    by (simp_all add: 5(1) ready_defs app_handles_def load32_def)
  obtain s7 V7 ti where 7: "os_kernel_start e ?s5 = Some s7" "ti \<notin> dom V4"
     "kernel_ok (insert ti (dom V4)) s7 ((boot_lists tmr tp tc te ts tm)(Ready 7 := [ti])) V7" "current_task_ptr s7 = tp" "task_running s7"
     "scheduler_running s7" "task_is V7 ti (idle_task_func e) 7" "\<forall>t f p. task_is V4 t f p \<longrightarrow> task_is V7 t f p"
     "\<forall>p. load32 p s7 = load32 p ?s5" "wdt s7 = wdt ?s5" "objects_ready a s7" "hook_vars s7 = hook_vars s3"
    using kernel_start_boot [OF 5(2) _ 6(1) e, of a] 6(2,3) by auto
  have run: "main_rest a e s3 = Some s7" using 4(1) 7(1) by (simp add: main_rest_def)
  have "task_is [tmr \<mapsto> d] tmr (timer_service_func e) 6" using d by (simp add: task_is_def)
  then have "task_is V7 tmr (timer_service_func e) 6" using 4(8) 7(8) by blast
  moreover have "app_tasks a V7 tp tc te ts tm" using 4(7) 7(8) by (simp add: app_tasks_def)
  moreover have "app_handles a s7 tp tc ts tm" using 6(4) 7(9) by (simp add: app_handles_def)
  moreover have "watched s7 [tp, tc]" using 5(3) 7(10) by (simp add: watched_def)
  moreover have "insert ti (dom V4) = set [tmr, tp, tc, te, ts, tm, ti]" "distinct [tmr, tp, tc, te, ts, tm, ti]" using 4(3,4,6) 7(2) by auto
  ultimately have "started a e s7 (insert ti (dom V4))" unfolding started_def using 7(3-7,11) by blast
  then show ?thesis using run 7(12) by blast
qed

definition booted :: "app \<Rightarrow> env \<Rightarrow> os \<Rightarrow> ptr set \<Rightarrow> bool" where
  "booted a e s D \<longleftrightarrow> started a e s D \<and> hooks_ready a s"

lemma main_run:
  assumes s: "reset_state s" "tick_hook_count s = 0" "active_timer_list s = NULL"
    and e: "linked e" "idle_task_func e \<noteq> NULL" "idle_task_stack e \<noteq> NULL" and a: "app_linked a"
  shows "\<exists>s' D. main a e s = Some s' \<and> booted a e s' D"
proof -
  obtain s1 tmr d where 1: "os_kernel_init e s = Some s1" "boot_ok (unat (ALIGN_UP (uc_heap e))) 10120 s1 ((\<lambda>_. [])(Ready 6 := [tmr])) [tmr \<mapsto> d]"
    "entry_func d = timer_service_func e" "priority d = 6" "task_count s1 = 1" "idle_hook_count s1 = 0" "tick_hook_count s1 = 0"
    "active_timer_list s1 = NULL" "wdt_count (wdt s1) = 0"
    using kernel_init_run [OF s(1) e(1)] s(2,3) by auto
  let ?start = "unat (ALIGN_UP (uc_heap e))"
  let ?s2 = "main_hooks a s1"
  have 2: "boot_ok ?start 10120 ?s2 ((\<lambda>_. [])(Ready 6 := [tmr])) [tmr \<mapsto> d]" "hooks_ready a ?s2" "task_count ?s2 = 1"
    "active_timer_list ?s2 = NULL" "wdt_count (wdt ?s2) = 0"
    using main_hooks_boot [OF 1(2,6,7) a] 1(5,8,9) by simp_all
  obtain s3 where 3: "main_sync_objects a e ?s2 = Some s3" "boot_ok ?start 10048 s3 ((\<lambda>_. [])(Ready 6 := [tmr])) [tmr \<mapsto> d]"
    "sync_ready a s3" "hook_vars s3 = hook_vars ?s2" "task_count s3 = 1" "wdt_count (wdt s3) = 0" "active_timer_list s3 = NULL"
    using main_sync_objects_boot [OF 2(1) a, of e] 2(3-5) by auto
  obtain s4 where 4: "main_timer a s3 = Some s4" "boot_ok ?start 10048 s4 ((\<lambda>_. [])(Ready 6 := [tmr])) [tmr \<mapsto> d]"
    "objects_ready a s4" "hook_vars s4 = hook_vars ?s2" "task_count s4 = 1" "wdt_count (wdt s4) = 0"
    using main_timer_boot [OF 3(2) a 3(7,3)] 3(4-6) by auto
  obtain s5 D where 5: "main_rest a e s4 = Some s5" "started a e s5 D" "hook_vars s5 = hook_vars ?s2"
    using main_rest_run [OF 4(2) a e(2,3) 1(3,4) 4(3,5,6)] 4(4) by auto
  have "main a e s = Some s5" using 1(1) 3(1) 4(1) 5(1) by (simp add: main_def main_rest_def)
  moreover have "hooks_ready a s5" using hooks_ready_cong [OF 5(3)] 2(2) by simp
  ultimately show ?thesis using 5(2) unfolding booted_def by blast
qed

text \<open>A concrete link map, for the witnesses.\<close>

definition demo_app :: app where
  "demo_app = \<lparr>at_shared_counter = 0x20006000, at_malloc_fail_count = 0x20006004, at_tick_hook_count = 0x20006008,
     at_overflow_detected = 0x2000600C, at_task_delete_count = 0x20006010, at_demo_queue = 0x20006100, at_data_ready_sem = 0x20006200,
     at_counter_mutex = 0x20006300, at_heartbeat_timer = 0x20006400, at_heartbeat_count = 0x20006014, at_demo_events = 0x20006500,
     at_sensor_task_handle = 0x20006020, at_monitor_task_handle = 0x20006024, at_producer_task_handle = 0x20006028,
     at_consumer_task_handle = 0x2000602C, at_alarm_mailbox = 0x20006600, at_idle_tick_count = 0x20006018,
     at_task1_stack = 0x20007000, at_task2_stack = 0x20007100, at_task3_stack = 0x20007200, at_task4_stack = 0x20007300,
     at_task5_stack = 0x20007400, at_value = 0x20007080, at_alarm_code = 0x20007084, at_received = 0x20007180, at_alarm = 0x20007184,
     fn_my_task_delete_hook = 0x8001000, fn_heartbeat_callback = 0x8001100, fn_my_idle_hook = 0x8001200, fn_my_malloc_failed_hook = 0x8001300,
     fn_my_stack_overflow_hook = 0x8001400, fn_my_tick_hook = 0x8001500, fn_producer_task = 0x8001600, fn_consumer_task = 0x8001700,
     fn_event_waiter_task = 0x8001800, fn_sensor_task = 0x8001900, fn_monitor_task = 0x8001A00\<rparr>"

lemma demo_app_linked: "app_linked demo_app"
  by (simp add: app_linked_def demo_app_def cell_def)

lemma blank_reset: "reset_state blank" "tick_hook_count blank = 0" "active_timer_list blank = NULL"
  by (simp_all add: reset_state_def blank_def os_task_init_ready_list_def no_waiters_def demo_def boot_heap_def os_heap_init_def zero_heap_def
      upd_hdr_def Let_def)

lemma demo_linked: "linked demo_env" "idle_task_func demo_env \<noteq> NULL" "idle_task_stack demo_env \<noteq> NULL"
  by (simp_all add: linked_def demo_env_def)

text \<open>
  C3. The demonstration application boots. From the state the start-up code leaves, every call of
  \<open>main\<close> succeeds up to the jump into the first task. Then there are exactly seven tasks, the five of
  the application, the timer service and the idle task, each created with its entry point and priority
  and ready in the list of that priority in the order of creation; the producer, which has the highest
  priority, is the running one; the handles hold the tasks; queue, mailbox, semaphore, mutex and event
  group are empty and free; the heartbeat timer is due in 1000 ticks; the watchdog watches producer and
  consumer; the hooks are registered. The kernel invariant holds.
\<close>

theorem main_boots:
  assumes "reset_state s" "tick_hook_count s = 0" "active_timer_list s = NULL"
    "linked e" "idle_task_func e \<noteq> NULL" "idle_task_stack e \<noteq> NULL" "app_linked a"
  shows "\<exists>s' V tmr tp tc te ts tm ti. main a e s = Some s' \<and> distinct [tmr, tp, tc, te, ts, tm, ti]
     \<and> kernel_ok {tmr, tp, tc, te, ts, tm, ti} s'
         ((\<lambda>_. [])(Ready 2 := [tp], Ready 3 := [tc, ts], Ready 4 := [te], Ready 6 := [tmr, tm], Ready 7 := [ti])) V
     \<and> current_task_ptr s' = tp \<and> task_running s' \<and> scheduler_running s'
     \<and> app_tasks a V tp tc te ts tm \<and> task_is V tmr (timer_service_func e) 6 \<and> task_is V ti (idle_task_func e) 7
     \<and> app_handles a s' tp tc ts tm \<and> watched s' [tp, tc] \<and> objects_ready a s' \<and> hooks_ready a s'"
proof -
  obtain s' D where "main a e s = Some s'" "booted a e s' D" using main_run [OF assms] by blast
  then show ?thesis unfolding booted_def started_def boot_lists_def by (elim exE conjE) (intro exI conjI; (assumption | simp))
qed

theorem main_boots_witness:
  "\<exists>s' tp. main demo_app demo_env blank = Some s' \<and> current_task_ptr s' = tp \<and> task_running s' \<and> load32 0x20006028 s' = tp
     \<and> active_timer_list s' = 0x20006400 \<and> q_count (queues s' 0x20006100) = 0 \<and> max_items (queues s' 0x20006100) = 10"
proof -
  obtain s' tp tc ts tm where m: "main demo_app demo_env blank = Some s'" "current_task_ptr s' = tp" "task_running s'"
    "app_handles demo_app s' tp tc ts tm" "objects_ready demo_app s'"
    using main_boots [OF blank_reset demo_linked demo_app_linked] by blast
  have d: "at_producer_task_handle demo_app = 0x20006028" "at_heartbeat_timer demo_app = 0x20006400" "at_demo_queue demo_app = 0x20006100"
    by (simp_all add: demo_app_def)
  show ?thesis using m by (intro exI [of _ s'] exI [of _ tp]) (simp add: app_handles_def ready_defs d Let_def)
qed

text \<open>The hooks of the application satisfy what the tick asks of its callbacks: they count in variables of their own.\<close>

lemma store32_kept: "kept s (store32 p v s)"
  by (rule kept_same, rule rep_cong, simp_all add: store32_def crit_same_def) (rule list_head_cong, simp_all)

lemma app_env_ok:
  "hooks_ok e \<Longrightarrow> hooks_ok (app_env a e)" "switch_ok (app_env a e) = switch_ok e" "linked (app_env a e) = linked e"
  "idle_task_func (app_env a e) = idle_task_func e" "idle_task_stack (app_env a e) = idle_task_stack e"
  by (simp_all add: hooks_ok_def app_env_def switch_ok_def linked_def my_tick_hook_def bump32_def store32_kept)

text \<open>
  C1. The booted application keeps the kernel invariant. \<open>main\<close>, with its own hooks installed, boots; from the state it leaves,
  in every state reached by scheduling decisions, complete tick interrupts that return, and the kernel calls of tasks and interrupt handlers
  that \<open>kernel_call\<close> lists, in any order in which each is \<open>enabled\<close>, the
  invariant holds for the seven tasks there were after boot, and every enabled call other than the tick returns. Excluded by
  \<open>enabled\<close> are the calls by which the code breaks its own lists: changing the priority of the running task
  or of a task in the wait list of an object, also by inheritance, and the last unlock by an owner of a changed priority. A tick with an auto-reload
  timer that the service task has not served may fail to return (\<open>auto_reload_starved\<close> in \<open>Timer_Tick\<close>); no state follows it.
\<close>

theorem system_inv:
  assumes "reset_state s" "tick_hook_count s = 0" "active_timer_list s = NULL"
    "linked e" "idle_task_func e \<noteq> NULL" "idle_task_stack e \<noteq> NULL" "app_linked a" "switch_ok e" "hooks_ok e"
  shows "\<exists>s0 D. main a (app_env a e) s = Some s0 \<and> card D = 7 \<and> (\<forall>s1. (kernel_step (app_env a e))\<^sup>*\<^sup>* s0 s1 \<longrightarrow> kernel_inv D s1
     \<and> (\<forall>c. enabled c s1 \<and> c \<noteq> Tick \<longrightarrow> (\<exists>s2. perform (app_env a e) c s1 = Some s2 \<and> kernel_inv D s2)))"
proof -
  let ?e = "app_env a e"
  have e: "linked ?e" "idle_task_func ?e \<noteq> NULL" "idle_task_stack ?e \<noteq> NULL" "switch_ok ?e" "hooks_ok ?e" using assms(4-6,8,9) app_env_ok by simp_all
  obtain s0 D where m: "main a ?e s = Some s0" "booted a ?e s0 D" using main_run [OF assms(1-3) e(1-3) assms(7)] by blast
  have c: "card D = 7" and "kernel_inv D s0" using m(2) started_card started_inv unfolding booted_def by blast+
  then show ?thesis using m(1) c reachable_inv [OF _ _ e(4,5)] perform_ok [OF _ e(4)] by blast
qed

theorem system_inv_witness:
  "\<exists>s0 s1 D. main demo_app (app_env demo_app demo_env) blank = Some s0 \<and> card D = 7
     \<and> perform (app_env demo_app demo_env) Schedule s0 = Some s1 \<and> kernel_inv D s1"
proof -
  let ?e = "app_env demo_app demo_env"
  obtain s0 D where m: "main demo_app ?e blank = Some s0" "card D = 7"
    "\<forall>s1. (kernel_step ?e)\<^sup>*\<^sup>* s0 s1 \<longrightarrow> kernel_inv D s1 \<and> (\<forall>c. enabled c s1 \<and> c \<noteq> Tick \<longrightarrow> (\<exists>s2. perform ?e c s1 = Some s2 \<and> kernel_inv D s2))"
    using system_inv [OF blank_reset demo_linked demo_app_linked demo_switch_ok] by blast
  have "enabled Schedule s0 \<and> Schedule \<noteq> Tick" by simp
  then have "\<exists>s2. perform ?e Schedule s0 = Some s2 \<and> kernel_inv D s2" using m(3) by blast
  then show ?thesis using m(1,2) by blast
qed

end
