(* ===== verification/App_Turn.thy ===== *)
theory App_Turn
  imports Boot
begin

unbundle bit_operations_syntax

text \<open>
  A turn of the consumer of \<open>app/main.c\<close> when nothing makes it wait: semaphore, queue, mutex, event group,
  mailbox and watchdog work together so that the number at the head of the queue is added to the counter.
\<close>

section \<open>Calls that find nobody waiting\<close>

text \<open>Up to the interrupt masks saved and the trace, such a call is an update of its own object.\<close>

definition noted :: "os \<Rightarrow> os \<Rightarrow> bool" where
  "noted s s' \<longleftrightarrow> s' = s\<lparr>saved_mask := saved_mask s', trace := trace s'\<rparr>"

lemma noted_sel:
  assumes "noted s s'"
  shows "mem8 s' = mem8 s" "queues s' = queues s" "sems s' = sems s" "mutexes s' = mutexes s" "eventgroups s' = eventgroups s"
    "tcbs s' = tcbs s" "current_task_ptr s' = current_task_ptr s" "critical_nesting s' = critical_nesting s" "wdt s' = wdt s"
  by (subst assms [unfolded noted_def], simp)+

lemma sem_take_free:
  assumes "critical_nesting s = 0" "x \<noteq> NULL" "0 < sem_count (sems s x)"
  shows "\<exists>s'. os_sem_take e x n s = Some (OS_OK, s') \<and> noted (upd_sem x (\<lambda>y. y\<lparr>sem_count := sem_count y - 1\<rparr>) s) s'"
  using assms by (simp add: os_sem_take_def crit_simps upd_sem_def Let_def noted_def)

lemma queue_receive_free:
  assumes "critical_nesting s = 0" "q \<noteq> NULL" "item \<noteq> NULL" "0 < q_count (queues s q)" "send_wait_list (queues s q) = NULL"
  shows "\<exists>s'. os_queue_receive e q item n s = Some (OS_OK, s') \<and> noted (ring_get q item s) s'"
  using assms by (simp add: os_queue_receive_def crit_simps queue_wake_task_def wake_task_def preempt_running_def ring_get_def ring_peek_def upd_q_def Let_def noted_def)

lemma mutex_lock_free:
  assumes "critical_nesting s = 0" "x \<noteq> NULL" "mutex_owner (mutexes s x) = NULL" "tcbs s (current_task_ptr s) = Some c" "current_task_ptr s \<noteq> NULL"
  shows "\<exists>s'. os_mutex_lock e x n s = Some (OS_OK, s') \<and> noted (upd_mutex x (\<lambda>y. y\<lparr>mutex_owner := current_task_ptr s, lock_count := 1,
     original_prio := priority c\<rparr>) s) s'"
  using assms by (simp add: os_mutex_lock_def crit_simps os_task_get_current_def get_tcb_def upd_mutex_def Let_def noted_def)

lemma mutex_unlock_free:
  assumes s: "critical_nesting s = 0" "x \<noteq> NULL" "mutex_owner (mutexes s x) = current_task_ptr s" "lock_count (mutexes s x) = 1"
    "mutex_wait_list (mutexes s x) = NULL" "tcbs s (current_task_ptr s) = Some c" "current_task_ptr s \<noteq> NULL" "tcb_state c = OS_TASK_RUNNING"
    "original_prio (mutexes s x) = priority c" "priority c < 8"
  shows "\<exists>s'. os_mutex_unlock e x s = Some (OS_OK, s') \<and> noted (upd_mutex x (\<lambda>y. y\<lparr>lock_count := 0, mutex_owner := NULL\<rparr>) s) s'"
proof -
  let ?s1 = "upd_mutex x (\<lambda>y. y\<lparr>lock_count := lock_count y - 1\<rparr>) (os_sched_enter_critical s)"
  have "os_task_set_priority (current_task_ptr s) (priority c) ?s1 = Some (OS_OK, os_sched_exit_critical (os_sched_enter_critical ?s1))"
    by (rule set_priority_same) (use s in \<open>simp_all add: crit_simps upd_mutex_def\<close>)
  then have "prv_restore_priority x ?s1 = Some (os_sched_exit_critical (os_sched_enter_critical ?s1))"
    using s by (simp add: prv_restore_priority_def upd_mutex_def crit_simps)
  then show ?thesis
    using s by (simp add: os_mutex_unlock_def crit_simps os_task_get_current_def prv_wake_and_transfer_def wake_task_def yield_if_higher_def upd_mutex_def Let_def noted_def)
qed

lemma set_bits_free:
  assumes "critical_nesting s = 0" "x \<noteq> NULL" "eg_wait_list (eventgroups s x) = NULL"
  shows "\<exists>s'. os_eventgroup_set_bits e x b s = Some (OS_OK, s') \<and> noted (upd_eg x (\<lambda>y. y\<lparr>eg_bits := eg_bits y OR b\<rparr>) s) s'"
  using assms by (simp add: os_eventgroup_set_bits_def crit_simps set_bits_walk.simps upd_eg_def Let_def noted_def)

lemma mailbox_receive_empty:
  assumes "critical_nesting s = 0" "q \<noteq> NULL" "item \<noteq> NULL" "q_count (queues s q) = 0"
  shows "\<exists>s'. os_mailbox_receive e q item 0 s = Some (OS_ERR_EMPTY, s') \<and> noted s s'"
  using assms by (simp add: os_mailbox_receive_def os_queue_receive_def crit_simps Let_def noted_def)

lemma wdt_feed_sel:
  "mem8 (snd (os_wdt_feed s)) = mem8 s" "queues (snd (os_wdt_feed s)) = queues s" "sems (snd (os_wdt_feed s)) = sems s"
  "mutexes (snd (os_wdt_feed s)) = mutexes s" "eventgroups (snd (os_wdt_feed s)) = eventgroups s"
  by (simp_all add: os_wdt_feed_def os_wdt_feed_task_def upd_entry_def upd_wdt_def split: option.splits)

section \<open>Numbers in the queue\<close>

definition word_of :: "u8 list \<Rightarrow> u32" where
  "word_of bs = ucast (bs ! 0) OR push_bit 8 (ucast (bs ! 1)) OR push_bit 16 (ucast (bs ! 2)) OR push_bit 24 (ucast (bs ! 3))"

lemma load32_bytes: "load32 p s = word_of (bytes (mem8 s) p 4)"
  by (simp add: load32_def word_of_def bytes_def eval_nat_numeral)

lemma bytes_store32:
  assumes "apart a n p 4" shows "bytes (mem8 (store32 p v s)) a n = bytes (mem8 s) a n"
proof -
  have h: "a + of_nat i \<noteq> p + of_nat j" if "i < n" "j < 4" for i j using assms that by (simp add: apart_def)
  have "a + of_nat i \<noteq> p" "a + of_nat i \<noteq> p + 1" "a + of_nat i \<noteq> p + 2" "a + of_nat i \<noteq> p + 3" if "i < n" for i
    using h [OF that, of 0] h [OF that, of 1] h [OF that, of 2] h [OF that, of 3] by simp_all
  then show ?thesis by (auto simp: bytes_def store32_def)
qed

lemma contents_store32:
  assumes "queue_ok x" "outside p x" "item_size x = 4"
  shows "contents (mem8 (store32 p v s)) x = contents (mem8 s) x"
proof -
  have "bytes (mem8 (store32 p v s)) (slot x (k mod unat (max_items x))) 4 = bytes (mem8 s) (slot x (k mod unat (max_items x))) 4" for k
    using assms by (intro bytes_store32) (simp add: outside_def queue_ok_def)
  then show ?thesis using assms(3) by (simp add: contents_def)
qed

section \<open>The consumer\<close>

text \<open>
  The state in which a turn of the consumer never waits: an item is signalled and in the queue, and nobody
  uses the other objects. The variables are apart from each other and from the buffer of the queue.
\<close>

definition consumer_ready :: "app \<Rightarrow> os \<Rightarrow> bool" where
  "consumer_ready a s \<longleftrightarrow>
     critical_nesting s = 0 \<and> current_task_ptr s \<noteq> NULL
     \<and> (case tcbs s (current_task_ptr s) of None \<Rightarrow> False | Some c \<Rightarrow> tcb_state c = OS_TASK_RUNNING \<and> priority c < 8)
     \<and> 0 < sem_count (sems s (at_data_ready_sem a))
     \<and> (let x = queues s (at_demo_queue a) in queue_ok x \<and> item_size x = 4 \<and> 0 < q_count x \<and> send_wait_list x = NULL
          \<and> outside (at_received a) x \<and> outside (at_shared_counter a) x)
     \<and> mutex_owner (mutexes s (at_counter_mutex a)) = NULL \<and> mutex_wait_list (mutexes s (at_counter_mutex a)) = NULL
     \<and> eg_wait_list (eventgroups s (at_demo_events a)) = NULL \<and> q_count (queues s (at_alarm_mailbox a)) = 0
     \<and> at_received a \<noteq> NULL \<and> at_alarm a \<noteq> NULL \<and> apart (at_shared_counter a) 4 (at_received a) 4"

lemma ring_get_other:
  "tcbs (ring_get q i s) = tcbs s" "current_task_ptr (ring_get q i s) = current_task_ptr s" "critical_nesting (ring_get q i s) = critical_nesting s"
  "mutexes (ring_get q i s) = mutexes s" "eventgroups (ring_get q i s) = eventgroups s" "sems (ring_get q i s) = sems s"
  "q' \<noteq> q \<Longrightarrow> queues (ring_get q i s) q' = queues s q'"
  by (simp_all add: ring_get_def ring_peek_def upd_q_def Let_def)

lemma store32_sel:
  "tcbs (store32 p v s) = tcbs s" "current_task_ptr (store32 p v s) = current_task_ptr s" "critical_nesting (store32 p v s) = critical_nesting s"
  "mutexes (store32 p v s) = mutexes s" "eventgroups (store32 p v s) = eventgroups s" "sems (store32 p v s) = sems s" "queues (store32 p v s) = queues s"
  "scheduler_running (store32 p v s) = scheduler_running s"
  by (simp_all add: store32_def)

text \<open>The number taken out of the queue is the one its head held, and the counter is not overwritten.\<close>

lemma ring_get_number:
  assumes "queue_ok (queues s q)" "outside i (queues s q)" "item_size (queues s q) = 4" "0 < q_count (queues s q)" "apart p 4 i 4"
  shows "\<exists>item rest. contents (mem8 s) (queues s q) = item # rest \<and> contents (mem8 (ring_get q i s)) (queues (ring_get q i s) q) = rest
     \<and> queue_ok (queues (ring_get q i s) q) \<and> load32 i (ring_get q i s) = word_of item \<and> load32 p (ring_get q i s) = load32 p s"
proof -
  have "contents (mem8 s) (queues s q) \<noteq> []"
    using assms(4) length_contents [of "mem8 s" "queues s q"] by (metis list.size(3) word_gt_0_unat less_irrefl)
  then have "queue_ok (queues (ring_get q i s) q)"
    "contents (mem8 s) (queues s q) = bytes (mem8 (ring_get q i s)) i 4 # contents (mem8 (ring_get q i s)) (queues (ring_get q i s) q)"
    using ring.get [of s q i] assms(1-3) by (simp_all add: ring_get_sel(1))
  moreover have "load32 p (ring_get q i s) = load32 p s"
    using bytes_memcpy_apart [of i 4 p 4] apart_sym [OF assms(5)] assms(3) by (simp add: load32_bytes ring_get_sel(2))
  ultimately show ?thesis by (simp add: load32_bytes)
qed

lemma consumer_steps:
  assumes l: "app_linked a" and r: "consumer_ready a s" and R: "R = ring_get (at_demo_queue a) (at_received a) s"
  shows "\<exists>s'. consumer_task a e s = Some s' \<and> queues s' = queues R
     \<and> mem8 s' = mem8 (store32 (at_shared_counter a) (load32 (at_shared_counter a) R + load32 (at_received a) R) R)
     \<and> sems s' = sems (upd_sem (at_data_ready_sem a) (\<lambda>y. y\<lparr>sem_count := sem_count y - 1\<rparr>) s)
     \<and> mutex_owner (mutexes s' (at_counter_mutex a)) = NULL
     \<and> eventgroups s' = eventgroups (upd_eg (at_demo_events a) (\<lambda>y. y\<lparr>eg_bits := eg_bits y OR EVT_DATA_PROCESSED\<rparr>) s)"
proof -
  let ?q = "at_demo_queue a" and ?x = "at_data_ready_sem a" and ?m = "at_counter_mutex a" and ?g = "at_demo_events a"
  have n: "?q \<noteq> NULL" "?x \<noteq> NULL" "?m \<noteq> NULL" "?g \<noteq> NULL" "at_alarm_mailbox a \<noteq> NULL" "?q \<noteq> at_alarm_mailbox a"
    using l by (auto simp: app_linked_def)
  obtain c where c: "tcbs s (current_task_ptr s) = Some c" "tcb_state c = OS_TASK_RUNNING" "priority c < 8"
    using r by (auto simp: consumer_ready_def split: option.splits)
  note z = r [unfolded consumer_ready_def Let_def]
  note sel = store32_sel ring_get_other upd_sem_def upd_mutex_def upd_eg_def trace_record_nf
  obtain t1 where 1: "os_sem_take e ?x OS_WAIT_FOREVER s = Some (OS_OK, t1)" "noted (upd_sem ?x (\<lambda>y. y\<lparr>sem_count := sem_count y - 1\<rparr>) s) t1"
    using sem_take_free [of s ?x e] n(2) z by blast
  note n1 = noted_sel [OF 1(2)]
  obtain t2 where 2: "os_queue_receive e ?q (at_received a) OS_WAIT_FOREVER t1 = Some (OS_OK, t2)" "noted (ring_get ?q (at_received a) t1) t2"
    using queue_receive_free [of t1 ?q "at_received a" e] n(1) z by (auto simp: n1 sel)
  note n2 = noted_sel [OF 2(2)]
  obtain t3 where 3: "os_mutex_lock e ?m OS_WAIT_FOREVER t2 = Some (OS_OK, t3)"
    "noted (upd_mutex ?m (\<lambda>y. y\<lparr>mutex_owner := current_task_ptr t2, lock_count := 1, original_prio := priority c\<rparr>) t2) t3"
    using mutex_lock_free [of t2 ?m c e OS_WAIT_FOREVER] n(3) z c by (auto simp: n1 n2 sel)
  note n3 = noted_sel [OF 3(2)]
  let ?s4 = "store32 (at_shared_counter a) (load32 (at_shared_counter a) t3 + load32 (at_received a) t3) t3"
  obtain t5 where 5: "os_mutex_unlock e ?m ?s4 = Some (OS_OK, t5)" "noted (upd_mutex ?m (\<lambda>y. y\<lparr>lock_count := 0, mutex_owner := NULL\<rparr>) ?s4) t5"
    using mutex_unlock_free [of ?s4 ?m c e] n(3) z c by (auto simp: n1 n2 n3 sel)
  note n5 = noted_sel [OF 5(2)]
  obtain t6 where 6: "os_eventgroup_set_bits e ?g EVT_DATA_PROCESSED t5 = Some (OS_OK, t6)"
    "noted (upd_eg ?g (\<lambda>y. y\<lparr>eg_bits := eg_bits y OR EVT_DATA_PROCESSED\<rparr>) t5) t6"
    using set_bits_free [of t5 ?g e EVT_DATA_PROCESSED] n(4) z by (auto simp: n1 n2 n3 n5 sel)
  note n6 = noted_sel [OF 6(2)]
  let ?t6 = "os_trace_record (OS_TRACE_USER_EVENT 1) (load32 (at_received a) t6) (load32 (at_shared_counter a) t6) t6"
  obtain t7 where 7: "os_mailbox_receive e (at_alarm_mailbox a) (at_alarm a) OS_WAIT_NONE ?t6 = Some (OS_ERR_EMPTY, t7)" "noted ?t6 t7"
    using mailbox_receive_empty [of ?t6 "at_alarm_mailbox a" "at_alarm a" e] n(5,6) z by (auto simp: n1 n2 n3 n5 n6 sel)
  note n7 = noted_sel [OF 7(2)]
  have run: "consumer_task a e s = Some (snd (os_wdt_feed t7))"
    using 1(1) 2(1) 3(1) 5(1) 6(1) 7(1) by (simp add: consumer_task_def split_def)
  have e1: "mem8 t1 = mem8 s" "queues t1 = queues s" by (simp_all add: n1 sel)
  have Rt: "mem8 (ring_get ?q (at_received a) t1) = mem8 R" "queues (ring_get ?q (at_received a) t1) = queues R"
    by (simp_all add: R ring_get_def ring_peek_def upd_q_def e1 Let_def)
  have t3: "mem8 t3 = mem8 R" by (simp add: n3 n2 Rt sel)
  have "mem8 ?s4 = mem8 (store32 (at_shared_counter a) (load32 (at_shared_counter a) R + load32 (at_received a) R) R)"
    using load32_cong [OF t3] t3 by (simp add: store32_def)
  then show ?thesis using run
    by (intro exI [of _ "snd (os_wdt_feed t7)"]) (simp add: wdt_feed_sel n7 n6 n5 n3 n2 n1 Rt sel)
qed

section \<open>The turn\<close>

text \<open>
  A turn of the consumer task that does not have to wait takes the number at the head of the queue and
  adds it to the shared counter: it returns, the queue holds the remaining items in order, the counter
  has grown by exactly that number (modulo \<open>2 ^ 32\<close>), the semaphore is lowered by one, the mutex is
  free again and the event is set.
\<close>

lemma consumer_task_adds:
  assumes l: "app_linked a" and r: "consumer_ready a s"
  shows "\<exists>s' item rest. consumer_task a e s = Some s'
     \<and> contents (mem8 s) (queues s (at_demo_queue a)) = item # rest \<and> contents (mem8 s') (queues s' (at_demo_queue a)) = rest
     \<and> queue_ok (queues s' (at_demo_queue a)) \<and> load32 (at_shared_counter a) s' = load32 (at_shared_counter a) s + word_of item
     \<and> sem_count (sems s' (at_data_ready_sem a)) = sem_count (sems s (at_data_ready_sem a)) - 1
     \<and> mutex_owner (mutexes s' (at_counter_mutex a)) = NULL
     \<and> eg_bits (eventgroups s' (at_demo_events a)) = eg_bits (eventgroups s (at_demo_events a)) OR EVT_DATA_PROCESSED"
proof -
  let ?q = "at_demo_queue a" and ?c = "at_shared_counter a"
  define R where "R = ring_get ?q (at_received a) s"
  note z = r [unfolded consumer_ready_def Let_def]
  obtain s' where s': "consumer_task a e s = Some s'" "queues s' = queues R" "mem8 s' = mem8 (store32 ?c (load32 ?c R + load32 (at_received a) R) R)"
     "sems s' = sems (upd_sem (at_data_ready_sem a) (\<lambda>y. y\<lparr>sem_count := sem_count y - 1\<rparr>) s)"
     "mutex_owner (mutexes s' (at_counter_mutex a)) = NULL"
     "eventgroups s' = eventgroups (upd_eg (at_demo_events a) (\<lambda>y. y\<lparr>eg_bits := eg_bits y OR EVT_DATA_PROCESSED\<rparr>) s)"
    using consumer_steps [OF l r R_def, of e] by blast
  obtain item rest where it: "contents (mem8 s) (queues s ?q) = item # rest" "contents (mem8 R) (queues R ?q) = rest" "queue_ok (queues R ?q)"
    "load32 (at_received a) R = word_of item" "load32 ?c R = load32 ?c s"
    using ring_get_number [of s ?q "at_received a" ?c] z unfolding R_def by blast
  have "outside ?c (queues R ?q)" "item_size (queues R ?q) = 4" using z by (simp_all add: R_def ring_get_sel(1))
  then have "contents (mem8 s') (queues s' ?q) = rest" using contents_store32 [OF it(3)] it(2) s'(2,3) by simp
  moreover have "load32 ?c s' = load32 ?c s + word_of item" using load32_cong [OF s'(3)] it(4,5) by simp
  ultimately show ?thesis using s'(1,2,4-6) it(1,3) by (auto simp: upd_sem_def upd_eg_def)
qed

definition demo_turn :: os where
  "demo_turn = demo\<lparr>mem8 := (\<lambda>_. 0)(0x20005000 := 7, 0x20006000 := 35),
     sems := (sems demo)(0x20006200 := \<lparr>sem_count = 1, max_count = 1, sem_wait_list = NULL\<rparr>),
     queues := (queues demo)(0x20006100 := \<lparr>q_buffer = 0x20005000, item_size = 4, max_items = 10, q_count = 1, q_head = 0, q_tail = 4,
       buf_size = 40, send_wait_list = NULL, recv_wait_list = NULL\<rparr>)\<rparr>"

lemma demo_turn_ready: "consumer_ready demo_app demo_turn"
proof -
  let ?x = "queues demo_turn 0x20006100"
  have "queue_ok ?x" by (simp add: demo_turn_def queue_ok_def first_slot_def)
  moreover have "outside 0x20007180 ?x" "outside 0x20006000 ?x" by (rule outside_beyond; simp add: demo_turn_def)+
  moreover have "apart 0x20006000 4 0x20007180 (4 :: nat)"
    unfolding apart_def
  proof (intro allI impI)
    fix i j :: nat assume "i < 4" "j < 4"
    then have "i = 0 \<or> i = 1 \<or> i = 2 \<or> i = 3" "j = 0 \<or> j = 1 \<or> j = 2 \<or> j = 3" by auto
    then show "0x20006000 + of_nat i \<noteq> (0x20007180 :: ptr) + of_nat j" by auto
  qed
  ultimately show ?thesis
    by (simp add: consumer_ready_def demo_app_def) (simp add: demo_turn_def demo_def demo_tcb_def)
qed

theorem consumer_task_adds_witness:
  "\<exists>s'. consumer_task demo_app demo_env demo_turn = Some s' \<and> load32 0x20006000 s' = 42 \<and> sem_count (sems s' 0x20006200) = 0
     \<and> contents (mem8 s') (queues s' 0x20006100) = []"
proof -
  have "contents (mem8 demo_turn) (queues demo_turn 0x20006100) = [[7, 0, 0, 0]]"
    by (simp add: contents_def slot_def first_slot_def bytes_def demo_turn_def upt_rec)
  moreover have "load32 0x20006000 demo_turn = 35" by (simp add: load32_def demo_turn_def)
  moreover have "word_of [7, 0, 0, 0] = 7" by (simp add: word_of_def)
  moreover have "at_demo_queue demo_app = 0x20006100" "at_shared_counter demo_app = 0x20006000" "at_data_ready_sem demo_app = 0x20006200"
    by (simp_all add: demo_app_def)
  moreover have "sem_count (sems demo_turn 0x20006200) = 1" by (simp add: demo_turn_def)
  ultimately show ?thesis using consumer_task_adds [OF demo_app_linked demo_turn_ready, of demo_env] by auto
qed

end
