(* ===== verification/Pipeline.thy ===== *)
theory Pipeline
  imports App_Turn
begin

unbundle bit_operations_syntax

text \<open>
  The way of a number through the application of \<open>app/main.c\<close>: a turn of the producer puts it into the
  queue, signals the semaphore, notifies the sensor and sleeps; the scheduler then brings up the
  consumer, whose turn adds the number to the shared counter.
\<close>

section \<open>Calls of the producer that find nobody waiting\<close>

lemma queue_send_free:
  assumes "critical_nesting s = 0" "q \<noteq> NULL" "item \<noteq> NULL" "q_count (queues s q) < max_items (queues s q)" "recv_wait_list (queues s q) = NULL"
  shows "\<exists>s'. os_queue_send e q item n s = Some (OS_OK, s') \<and> noted (ring_put q item s) s'"
  using assms by (simp add: os_queue_send_def crit_simps queue_wake_task_def wake_task_def preempt_running_def ring_put_def upd_q_def Let_def noted_def)

lemma sem_give_free:
  assumes "critical_nesting s = 0" "x \<noteq> NULL" "sem_count (sems s x) < max_count (sems s x)" "sem_wait_list (sems s x) = NULL"
  shows "\<exists>s'. os_sem_give e x s = Some (OS_OK, s') \<and> noted (upd_sem x (\<lambda>y. y\<lparr>sem_count := sem_count y + 1\<rparr>) s) s'"
  using assms by (simp add: os_sem_give_def crit_simps upd_sem_def Let_def noted_def)

abbreviation notified_with :: "u32 \<Rightarrow> os_tcb \<Rightarrow> os_tcb" where
  "notified_with v c \<equiv> c\<lparr>notify_value := v, notify_pending := 1\<rparr>"

lemma notify_free:
  assumes "critical_nesting s = 0" "h \<noteq> NULL" "tcbs s h = Some c" "tcb_state c \<noteq> OS_TASK_BLOCKED"
  shows "\<exists>s'. os_task_notify e h v s = Some (OS_OK, s') \<and> noted (s\<lparr>tcbs := (tcbs s)(h \<mapsto> notified_with v c)\<rparr>) s'"
  using assms by (simp add: os_task_notify_def post_notification_def upd_tcb_def get_tcb_def crit_simps Let_def noted_def)

lemma noted_rep: "noted s s' \<Longrightarrow> rep s' A V = rep s A V"
  by (subst noted_def [THEN iffD1], assumption) simp

lemma noted_running: "noted s s' \<Longrightarrow> scheduler_running s' = scheduler_running s"
  by (subst noted_def [THEN iffD1], assumption) simp

lemma ring_put_rep: "rep (ring_put q i s) A V = rep s A V"
  unfolding ring_put_def Let_def by (subst upd_q_rep) simp_all

lemma ring_put_other:
  "tcbs (ring_put q i s) = tcbs s" "current_task_ptr (ring_put q i s) = current_task_ptr s" "critical_nesting (ring_put q i s) = critical_nesting s"
  "mutexes (ring_put q i s) = mutexes s" "eventgroups (ring_put q i s) = eventgroups s" "sems (ring_put q i s) = sems s"
  "scheduler_running (ring_put q i s) = scheduler_running s"
  "q' \<noteq> q \<Longrightarrow> queues (ring_put q i s) q' = queues s q'"
  by (simp_all add: ring_put_def upd_q_def Let_def)

lemma wdt_feed_rest:
  "tcbs (snd (os_wdt_feed s)) = tcbs s" "current_task_ptr (snd (os_wdt_feed s)) = current_task_ptr s"
  "critical_nesting (snd (os_wdt_feed s)) = critical_nesting s" "rep (snd (os_wdt_feed s)) A V = rep s A V"
  "scheduler_running (snd (os_wdt_feed s)) = scheduler_running s"
  by (simp_all add: os_wdt_feed_def os_wdt_feed_task_def upd_entry_def upd_wdt_def split: option.splits)

section \<open>The data of the objects\<close>

text \<open>The byte memory and the objects without their wait lists: what switches and delays leave alone.\<close>

definition shared :: "os \<Rightarrow> mem \<times> (ptr \<Rightarrow> os_queue) \<times> (ptr \<Rightarrow> os_sem) \<times> (ptr \<Rightarrow> os_mutex) \<times> (ptr \<Rightarrow> os_eventgroup)" where
  "shared s = (mem8 s, \<lambda>q. (queues s q)\<lparr>send_wait_list := NULL, recv_wait_list := NULL\<rparr>, \<lambda>x. (sems s x)\<lparr>sem_wait_list := NULL\<rparr>,
     \<lambda>x. (mutexes s x)\<lparr>mutex_wait_list := NULL\<rparr>, \<lambda>x. (eventgroups s x)\<lparr>eg_wait_list := NULL\<rparr>)"

lemma frame_shared:
  assumes "frame s s'" shows "shared s' = shared s"
proof -
  have e: "strip_lists s' = strip_lists s" using assms by (simp add: frame_def)
  have "mem8 (strip_lists s') = mem8 (strip_lists s)" "queues (strip_lists s') = queues (strip_lists s)" "sems (strip_lists s') = sems (strip_lists s)"
    "mutexes (strip_lists s') = mutexes (strip_lists s)" "eventgroups (strip_lists s') = eventgroups (strip_lists s)" by (simp_all only: e)
  then show ?thesis by (simp add: shared_def strip_lists_def)
qed

definition core :: "os_queue \<Rightarrow> os_queue" where "core x = x\<lparr>send_wait_list := NULL, recv_wait_list := NULL\<rparr>"

lemma core_sel:
  assumes "core x = core y"
  shows "queue_ok x = queue_ok y" "contents m x = contents m y" "outside p x = outside p y" "item_size x = item_size y" "q_count x = q_count y"
    "max_items x = max_items y"
proof -
  have "queue_ok (core z) = queue_ok z" "contents m (core z) = contents m z" "outside p (core z) = outside p z" "item_size (core z) = item_size z"
    "q_count (core z) = q_count z" "max_items (core z) = max_items z" for z
    by (simp_all add: core_def queue_ok_def contents_def outside_def first_slot_def slot_def)
  then show "queue_ok x = queue_ok y" "contents m x = contents m y" "outside p x = outside p y" "item_size x = item_size y" "q_count x = q_count y"
    "max_items x = max_items y" using assms by metis+
qed

lemma shared_sel:
  assumes "shared s' = shared s"
  shows "mem8 s' = mem8 s" "core (queues s' q) = core (queues s q)" "sem_count (sems s' x) = sem_count (sems s x)"
    "mutex_owner (mutexes s' x) = mutex_owner (mutexes s x)"
proof -
  note h = assms [unfolded shared_def prod.inject fun_eq_iff]
  show "mem8 s' = mem8 s" "core (queues s' q) = core (queues s q)" using h by (auto simp: core_def fun_eq_iff)
  show "sem_count (sems s' x) = sem_count (sems s x)" using h by (metis os_sem.select_convs(1) os_sem.surjective os_sem.update_convs(3))
  show "mutex_owner (mutexes s' x) = mutex_owner (mutexes s x)"
    using h by (metis os_mutex.select_convs(1) os_mutex.surjective os_mutex.update_convs(4))
qed

section \<open>The producer\<close>

text \<open>
  The state in which a number can travel without a wait: queue and mailbox are empty, the semaphore is not
  signalled, the mutex is free, nobody waits, and the next number is not one that raises an alarm. The
  variables are apart from each other and from the buffer of the queue.
\<close>

definition pipeline_idle :: "app \<Rightarrow> os \<Rightarrow> bool" where
  "pipeline_idle a s \<longleftrightarrow> critical_nesting s = 0 \<and> scheduler_running s
     \<and> (let x = queues s (at_demo_queue a) in queue_ok x \<and> item_size x = 4 \<and> q_count x = 0 \<and> send_wait_list x = NULL \<and> recv_wait_list x = NULL
          \<and> outside (at_value a) x \<and> outside (at_received a) x \<and> outside (at_shared_counter a) x \<and> outside (at_sensor_task_handle a) x)
     \<and> (let x = sems s (at_data_ready_sem a) in sem_count x = 0 \<and> 0 < max_count x \<and> sem_wait_list x = NULL)
     \<and> mutex_owner (mutexes s (at_counter_mutex a)) = NULL \<and> mutex_wait_list (mutexes s (at_counter_mutex a)) = NULL
     \<and> eg_wait_list (eventgroups s (at_demo_events a)) = NULL \<and> q_count (queues s (at_alarm_mailbox a)) = 0
     \<and> (let h = load32 (at_sensor_task_handle a) s in h \<noteq> NULL
          \<and> (case tcbs s h of None \<Rightarrow> False | Some c \<Rightarrow> tcb_state c \<noteq> OS_TASK_BLOCKED))
     \<and> (load32 (at_value a) s + 1) mod 10 \<noteq> 0 \<and> at_value a \<noteq> NULL \<and> at_received a \<noteq> NULL \<and> at_alarm a \<noteq> NULL
     \<and> apart (at_sensor_task_handle a) 4 (at_value a) 4 \<and> apart (at_shared_counter a) 4 (at_value a) 4
     \<and> apart (at_shared_counter a) 4 (at_received a) 4"

lemma load32_apart: "apart p 4 q 4 \<Longrightarrow> load32 p (store32 q v s) = load32 p s"
  by (simp add: load32_bytes bytes_store32)

lemma ring_put_number:
  assumes "queue_ok (queues s q)" "item_size (queues s q) = 4" "q_count (queues s q) = 0" "outside p (queues s q)" "P = ring_put q p (store32 p v s)"
  shows "contents (mem8 P) (queues P q) = [bytes (mem8 P) p 4] \<and> load32 p P = v \<and> queue_ok (queues P q)
     \<and> (\<forall>i. outside i (queues P q) = outside i (queues s q)) \<and> item_size (queues P q) = 4 \<and> q_count (queues P q) = 1
     \<and> (\<forall>i. outside i (queues s q) \<and> apart i 4 p 4 \<longrightarrow> load32 i P = load32 i s)"
proof -
  let ?s = "store32 p v s"
  have q: "queues ?s = queues s" by (simp add: store32_def)
  have e: "contents (mem8 ?s) (queues ?s q) = []" using assms(3) by (simp add: contents_def q)
  have "0 < unat (max_items (queues s q))" using assms(1) by (simp add: queue_ok_def)
  then have P: "queue_ok (queues P q)" "contents (mem8 P) (queues P q) = [bytes (mem8 ?s) p 4]" "\<forall>i. outside i (queues P q) = outside i (queues s q)"
    "\<forall>i. outside i (queues s q) \<longrightarrow> bytes (mem8 P) i (unat (item_size (queues P q))) = bytes (mem8 ?s) i 4"
    using ring.put [of ?s q p] assms(1-4) e unfolding assms(5) by (simp_all add: q)
  have s: "item_size (queues P q) = 4" "q_count (queues P q) = 1" using assms(2,3) by (simp_all add: assms(5) ring_put_sel q)
  have b: "bytes (mem8 P) i 4 = bytes (mem8 ?s) i 4" if "outside i (queues s q)" for i using P(4) that s(1) by simp
  have "load32 p P = v" using b [OF assms(4)] load32_store32 [of p v s] by (simp add: load32_bytes)
  moreover have "load32 i P = load32 i s" if "outside i (queues s q)" "apart i 4 p 4" for i
    using b [OF that(1)] load32_apart [OF that(2), of v s] by (simp add: load32_bytes)
  ultimately show ?thesis using P(1-3) s b [OF assms(4)] by simp
qed

lemma producer_steps:
  assumes l: "app_linked a" and r: "pipeline_idle a s" and R: "rep s A V"
    and P: "P = ring_put (at_demo_queue a) (at_value a) (bump32 (at_value a) s)" and h: "h = load32 (at_sensor_task_handle a) s"
  shows "\<exists>s' d. producer_task a e s = do { (_, s1) \<leftarrow> os_task_delay e 200 s'; Some s1 } \<and> V h = Some d
     \<and> rep s' A (V(h \<mapsto> notified_with (load32 (at_value a) s + 1) d))
     \<and> mem8 s' = mem8 P \<and> queues s' = queues P \<and> sems s' = sems (upd_sem (at_data_ready_sem a) (\<lambda>y. y\<lparr>sem_count := sem_count y + 1\<rparr>) s)
     \<and> mutexes s' = mutexes s \<and> eventgroups s' = eventgroups s \<and> current_task_ptr s' = current_task_ptr s \<and> critical_nesting s' = 0
     \<and> scheduler_running s'"
proof -
  let ?q = "at_demo_queue a" and ?x = "at_data_ready_sem a" and ?v = "at_value a" and ?n = "load32 (at_value a) s + 1"
  have n: "?q \<noteq> NULL" "?x \<noteq> NULL" using l by (auto simp: app_linked_def)
  note z = r [unfolded pipeline_idle_def Let_def]
  obtain c where c: "tcbs s h = Some c" "tcb_state c \<noteq> OS_TASK_BLOCKED" "h \<noteq> NULL" using z h by (auto split: option.splits)
  have b: "bump32 ?v s = store32 ?v ?n s" by (simp add: bump32_def)
  have ld: "load32 ?v P = ?n" "load32 (at_sensor_task_handle a) P = h"
    using ring_put_number [of s ?q ?v P ?n] z P b h by auto
  note sel = store32_sel ring_put_other upd_sem_def
  have pos: "q_count (queues s ?q) < max_items (queues s ?q)" using z by (simp add: queue_ok_def word_less_nat_alt)
  obtain t1 where 1: "os_queue_send e ?q ?v OS_WAIT_FOREVER (bump32 ?v s) = Some (OS_OK, t1)" "noted P t1"
    using queue_send_free [of "bump32 ?v s" ?q ?v e OS_WAIT_FOREVER] n(1) z pos P by (auto simp: b sel)
  note n1 = noted_sel [OF 1(2)]
  obtain t2 where 2: "os_sem_give e ?x t1 = Some (OS_OK, t2)" "noted (upd_sem ?x (\<lambda>y. y\<lparr>sem_count := sem_count y + 1\<rparr>) t1) t2"
    using sem_give_free [of t1 ?x e] n(2) z by (auto simp: n1 P b sel)
  note n2 = noted_sel [OF 2(2)]
  have m2: "load32 p t2 = load32 p P" for p by (rule load32_cong) (simp add: n2 n1 sel)
  obtain t3 where 3: "os_task_notify e h ?n t2 = Some (OS_OK, t3)" "noted (t2\<lparr>tcbs := (tcbs t2)(h \<mapsto> notified_with ?n c)\<rparr>) t3"
    using notify_free [of t2 h c e ?n] c z by (auto simp: n2 n1 P b sel)
  note n3 = noted_sel [OF 3(2)]
  have m3: "load32 ?v t3 = ?n" using load32_cong [of t3 P ?v] ld(1) by (simp add: n3 n2 n1 sel)
  let ?s' = "snd (os_wdt_feed t3)"
  have run: "producer_task a e s = do { (_, s1) \<leftarrow> os_task_delay e 200 ?s'; Some s1 }"
    using 1(1) 2(1) 3(1) z by (simp add: producer_task_def m2 ld m3 OS_DELAY_MS_def split_def)
  obtain d where d: "V h = Some d" using R c(1) by (auto simp: rep_def view_def)
  have R2: "rep t2 A V"
    using R unfolding noted_rep [OF 2(2)] by (simp add: noted_rep [OF 1(2)] P ring_put_rep b)
  obtain t where t: "upd_tcb h (notified_with ?n) t2 = Some t" "rep t A (V(h \<mapsto> notified_with ?n d))"
    using upd_tcb_rep [OF R2 c(3) d, of "notified_with ?n"] by (auto simp: data_upd_def)
  have "t = t2\<lparr>tcbs := (tcbs t2)(h \<mapsto> notified_with ?n c)\<rparr>"
    using t(1) c(1,3) by (simp add: upd_tcb_def get_tcb_def n2 n1 P b sel)
  then have R3: "rep ?s' A (V(h \<mapsto> notified_with ?n d))" using t(2) noted_rep [OF 3(2)] by (simp add: wdt_feed_rest)
  have "scheduler_running t3" using z by (simp add: noted_running [OF 3(2)] noted_running [OF 2(2)] noted_running [OF 1(2)] P b sel)
  then show ?thesis using run d R3 z
    by (intro exI [of _ ?s'] exI [of _ d]) (simp add: wdt_feed_sel wdt_feed_rest n3 n2 n1 sel P b)
qed

section \<open>From one task to the next\<close>

lemma rep_empty:
  assumes "rep s A V" "l \<noteq> Deferred" shows "list_head s l = NULL \<longleftrightarrow> A l = []"
  using rep_list(3) [OF assms] rep_member(1) [OF assms(1), of "hd (A l)" l] by (cases "A l") simp_all

lemma shared_masks: "shared (s\<lparr>trace := t, primask := m, saved_mask := k, critical_nesting := n\<rparr>) = shared s"
  and shared_yield: "shared (os_port_yield (s\<lparr>yield_pending := y\<rparr>)) = shared s"
  and shared_switch: "shared (s\<lparr>last_switch_tick := x, trace := t, current_task_ptr := c\<rparr>) = shared s"
  by (simp_all add: shared_def os_port_yield_def)

lemma yield_sel:
  "rep (os_port_yield (s\<lparr>yield_pending := y\<rparr>)) A V = rep s A V" "current_task_ptr (os_port_yield (s\<lparr>yield_pending := y\<rparr>)) = current_task_ptr s"
  "crit_same s (os_port_yield (s\<lparr>yield_pending := y\<rparr>))"
  by (simp_all add: os_port_yield_def crit_same_def)

text \<open>The running task goes to sleep and the processor goes to the head of the highest level left.\<close>

lemma delay_switch:
  assumes r: "rep s A V" and ok: "states_ok A V" "current_ok s V" "crit_ok s" "scheduler_running s"
    and t: "current_task_ptr s = t" "t \<in> set (A (Ready p))" and n: "n \<noteq> 0"
    and B: "B = A(Ready p := remove1 t (A (Ready p)), Blocked := t # A Blocked)" and q: "top_level q B"
  shows "\<exists>s1 s2 V2. os_task_delay e n s = map_option (Pair OS_OK) (switch e s1) \<and> os_sched_select_next s1 = Some s2 \<and> rep s2 B V2
     \<and> states_ok B V2 \<and> current_ok s2 V2 \<and> shared s2 = shared s \<and> crit_same s s2 \<and> current_task_ptr s2 = hd (B (Ready q))
     \<and> map_option tcb_state (V2 (hd (B (Ready q)))) = Some OS_TASK_RUNNING"
proof -
  obtain d where d: "V t = Some d" using rep_member(2) [OF r t(2)] by blast
  let ?V = "V(t \<mapsto> d\<lparr>tcb_state := OS_TASK_BLOCKED, delay_ticks := n\<rparr>)"
  obtain s1 where s1: "os_task_delay e n s = map_option (Pair OS_OK) (os_sched_yield e s1)" "rep s1 B ?V" "crit_same s s1" "current_task_ptr s1 = t"
    "frame (s\<lparr>trace := trace s1, primask := primask s1, saved_mask := saved_mask s1, critical_nesting := critical_nesting s1\<rparr>) s1"
    using delay_rep [OF r t d n ok(3), of e] unfolding B by blast
  let ?y = "os_port_yield (s1\<lparr>yield_pending := 1\<rparr>)"
  have "scheduler_running s1" using frame_os(14) [OF s1(5)] ok(4) by simp
  then have y: "os_sched_yield e s1 = switch e ?y" by (simp add: os_sched_yield_def)
  have sh: "shared ?y = shared s" using frame_shared [OF s1(5)] by (simp add: shared_masks shared_yield)
  have so: "states_ok B ?V" unfolding B by (rule states_ok_block [OF ok(1) d r t(2)]) (simp_all add: wait_list_def)
  have co: "current_ok ?y ?V" using ok(2) t(1) s1(4) by (auto simp: current_ok_def yield_sel)
  have "B Blocked = t # A Blocked" by (simp add: B)
  then have "t \<notin> set (B (Ready q))" using rep_disjoint_lists [OF s1(2), of t Blocked "Ready q"] by simp
  then have "hd (B (Ready q)) \<noteq> t" using q by (metis hd_in_set top_level_def)
  then have rot: "rotated q (current_task_ptr ?y) B = B" by (simp add: rotated_def yield_sel s1(4))
  have ry: "rep ?y B ?V" using s1(2) by (simp add: yield_sel)
  obtain s2 V2 where s2: "os_sched_select_next ?y = Some s2" "rep s2 B V2" "states_ok B V2" "current_ok s2 V2" "switch_frame ?y s2"
    "current_task_ptr s2 = hd (B (Ready q))" "map_option tcb_state (V2 (current_task_ptr s2)) = Some OS_TASK_RUNNING"
    using select_next_rep [OF ry so co q] unfolding rot by blast
  have "shared s2 = shared s" using frame_shared [OF s2(5) [unfolded switch_frame_def]] sh by (simp add: shared_switch)
  moreover have "crit_same s s2" using crit_same_trans [OF crit_same_trans [OF s1(3) yield_sel(3)] switch_frame_crit [OF s2(5)]] .
  ultimately show ?thesis using s1(1) y s2 by (intro exI [of _ ?y] exI [of _ s2] exI [of _ V2]) simp
qed

text \<open>After the switch the consumer finds what the producer left, and need not wait.\<close>

lemma consumer_after_producer:
  assumes r: "pipeline_idle a s" and P: "P = ring_put (at_demo_queue a) (at_value a) (bump32 (at_value a) s)"
    and p: "mem8 u = mem8 P" "queues u = queues P" "sems u = sems (upd_sem (at_data_ready_sem a) (\<lambda>y. y\<lparr>sem_count := sem_count y + 1\<rparr>) s)"
      "mutexes u = mutexes s"
    and s: "shared s2 = shared u" "critical_nesting s2 = 0" "rep s2 B W" "states_ok B W" "W (current_task_ptr s2) = Some d"
      "tcb_state d = OS_TASK_RUNNING" "current_ok s2 W"
    and f: "B (QSend (at_demo_queue a)) = []" "B (MutexW (at_counter_mutex a)) = []" "B (EventW (at_demo_events a)) = []"
    and m: "at_alarm_mailbox a \<noteq> at_demo_queue a"
  shows "consumer_ready a s2 \<and> sem_count (sems s2 (at_data_ready_sem a)) = 1 \<and> load32 (at_shared_counter a) s2 = load32 (at_shared_counter a) s
     \<and> contents (mem8 s2) (queues s2 (at_demo_queue a)) = [bytes (mem8 P) (at_value a) 4]
     \<and> word_of (bytes (mem8 P) (at_value a) 4) = load32 (at_value a) s + 1"
proof -
  let ?q = "at_demo_queue a" and ?x = "queues s2 (at_demo_queue a)"
  note z = r [unfolded pipeline_idle_def Let_def] and S = shared_sel [OF s(1)]
  have b: "bump32 (at_value a) s = store32 (at_value a) (load32 (at_value a) s + 1) s" by (simp add: bump32_def)
  have N: "contents (mem8 P) (queues P ?q) = [bytes (mem8 P) (at_value a) 4]" "load32 (at_value a) P = load32 (at_value a) s + 1"
    "queue_ok (queues P ?q)" "\<And>i. outside i (queues P ?q) = outside i (queues s ?q)" "item_size (queues P ?q) = 4" "q_count (queues P ?q) = 1"
    "\<And>i. outside i (queues s ?q) \<Longrightarrow> apart i 4 (at_value a) 4 \<Longrightarrow> load32 i P = load32 i s"
    using ring_put_number [of s ?q "at_value a" P "load32 (at_value a) s + 1"] z P b by auto
  note C = core_sel [OF S(2) [of ?q]]
  have q: "queue_ok ?x" "item_size ?x = 4" "q_count ?x = 1" "outside (at_received a) ?x" "outside (at_shared_counter a) ?x"
    "contents (mem8 s2) ?x = [bytes (mem8 P) (at_value a) 4]"
    using N z by (simp_all add: C p S(1))
  have mb: "q_count (queues s2 (at_alarm_mailbox a)) = 0"
    using z m by (simp add: core_sel(5) [OF S(2)] p(2) P b ring_put_other store32_sel)
  have lists: "send_wait_list ?x = NULL" "mutex_wait_list (mutexes s2 (at_counter_mutex a)) = NULL" "eg_wait_list (eventgroups s2 (at_demo_events a)) = NULL"
    using rep_empty [OF s(3), of "QSend ?q"] rep_empty [OF s(3), of "MutexW (at_counter_mutex a)"] rep_empty [OF s(3), of "EventW (at_demo_events a)"] f by simp_all
  obtain c where c: "tcbs s2 (current_task_ptr s2) = Some c" "d = erase c" using s(5) rep_view [OF s(3)] by (auto simp: view_def)
  have cr: "current_task_ptr s2 \<noteq> NULL" "tcb_state c = OS_TASK_RUNNING" "priority c < 8"
    using s(6,7) s(5) c states_okD(1) [OF s(4,5)] by (auto simp: current_ok_def erase_def)
  have sc: "sem_count (sems s2 (at_data_ready_sem a)) = 1" using z by (simp add: S(3) p(3) upd_sem_def)
  have "load32 (at_shared_counter a) s2 = load32 (at_shared_counter a) s"
    using N(7) [of "at_shared_counter a"] load32_cong [of s2 P "at_shared_counter a"] z by (simp add: S(1) p(1))
  moreover have "consumer_ready a s2"
    unfolding consumer_ready_def Let_def using q mb lists cr c(1) sc s(2) z by (simp add: S(4) p(4))
  ultimately show ?thesis using sc q(6) N(2) by (simp add: load32_bytes)
qed

section \<open>Properties\<close>

text \<open>
  C4. A number gets from the producer to the counter: in an idle pipeline, a turn of the producer increments its
  number, sends it, signals and goes to sleep; the scheduler then brings up the head of the highest ready
  level, and when that task performs a turn of the consumer, the turn does not wait and the shared counter
  has grown by exactly the new number (modulo \<open>2 ^ 32\<close>). The queue is empty again, the semaphore is back at zero
  and the mutex is free.
\<close>

theorem message_delivered:
  assumes l: "app_linked a" and i: "pipeline_idle a s" and R: "rep s A V" and ok: "states_ok A V" "current_ok s V"
    and t: "current_task_ptr s = t" "t \<in> set (A (Ready p))"
    and B: "B = A(Ready p := remove1 t (A (Ready p)), Blocked := t # A Blocked)" and q: "top_level q B"
  shows "\<exists>s1 s2 s3. producer_task a e s = switch e s1 \<and> os_sched_select_next s1 = Some s2 \<and> current_task_ptr s2 = hd (B (Ready q))
     \<and> consumer_task a e s2 = Some s3 \<and> load32 (at_shared_counter a) s3 = load32 (at_shared_counter a) s + (load32 (at_value a) s + 1)
     \<and> contents (mem8 s3) (queues s3 (at_demo_queue a)) = [] \<and> sem_count (sems s3 (at_data_ready_sem a)) = 0
     \<and> mutex_owner (mutexes s3 (at_counter_mutex a)) = NULL"
proof -
  note z = i [unfolded pipeline_idle_def Let_def]
  define P where "P = ring_put (at_demo_queue a) (at_value a) (bump32 (at_value a) s)"
  define h where "h = load32 (at_sensor_task_handle a) s"
  obtain u d where u: "producer_task a e s = do { (_, s1) \<leftarrow> os_task_delay e 200 u; Some s1 }" "V h = Some d"
     "rep u A (V(h \<mapsto> notified_with (load32 (at_value a) s + 1) d))" "mem8 u = mem8 P" "queues u = queues P"
     "sems u = sems (upd_sem (at_data_ready_sem a) (\<lambda>y. y\<lparr>sem_count := sem_count y + 1\<rparr>) s)"
     "mutexes u = mutexes s" "current_task_ptr u = current_task_ptr s" "critical_nesting u = 0" "scheduler_running u"
    using producer_steps [OF l i R P_def h_def, of e] by blast
  let ?V = "V(h \<mapsto> notified_with (load32 (at_value a) s + 1) d)"
  have uok: "states_ok A ?V" "current_ok u ?V" "crit_ok u" "current_task_ptr u = t"
    using states_ok_data [OF ok(1) u(2), of "notified_with (load32 (at_value a) s + 1) d"] ok(2) u(2,8,9) t(1)
    by (auto simp: runnable_def current_ok_def crit_ok_def)
  obtain s1 s2 W where s2: "os_task_delay e 200 u = map_option (Pair OS_OK) (switch e s1)" "os_sched_select_next s1 = Some s2" "rep s2 B W"
    "states_ok B W" "current_ok s2 W" "shared s2 = shared u" "crit_same u s2" "current_task_ptr s2 = hd (B (Ready q))"
    "map_option tcb_state (W (hd (B (Ready q)))) = Some OS_TASK_RUNNING"
    using delay_switch [OF u(3) uok(1-3) u(10) uok(4) t(2) _ B q, of 200 e] by auto
  obtain c where c: "W (current_task_ptr s2) = Some c" "tcb_state c = OS_TASK_RUNNING" using s2(8,9) by auto
  have e: "B (QSend (at_demo_queue a)) = []" "B (MutexW (at_counter_mutex a)) = []" "B (EventW (at_demo_events a)) = []"
    using rep_empty [OF R, of "QSend (at_demo_queue a)"] rep_empty [OF R, of "MutexW (at_counter_mutex a)"]
      rep_empty [OF R, of "EventW (at_demo_events a)"] z by (simp_all add: B)
  have n: "critical_nesting s2 = 0" using s2(7) u(9) by (simp add: crit_same_def)
  have m: "at_alarm_mailbox a \<noteq> at_demo_queue a" using l by (auto simp: app_linked_def)
  note k = consumer_after_producer [OF i P_def u(4-7) s2(6) n s2(3,4) c s2(5) e m]
  obtain s3 item rest where s3: "consumer_task a e s2 = Some s3" "contents (mem8 s2) (queues s2 (at_demo_queue a)) = item # rest"
    "contents (mem8 s3) (queues s3 (at_demo_queue a)) = rest" "load32 (at_shared_counter a) s3 = load32 (at_shared_counter a) s2 + word_of item"
    "sem_count (sems s3 (at_data_ready_sem a)) = sem_count (sems s2 (at_data_ready_sem a)) - 1" "mutex_owner (mutexes s3 (at_counter_mutex a)) = NULL"
    using consumer_task_adds [OF l, of s2 e] k by blast
  have "producer_task a e s = switch e s1" using u(1) s2(1) by (cases "switch e s1") auto
  then show ?thesis using s2(2,8) s3 k by (intro exI [of _ s1] exI [of _ s2] exI [of _ s3]) auto
qed

definition demo_pipe :: os where
  "demo_pipe = demo\<lparr>scheduler_running := True, mem8 := (\<lambda>_. 0)(0x20007080 := 6, 0x20006000 := 35, 0x20006021 := 4, 0x20006023 := 0x20),
     queues := (queues demo)(0x20006100 := \<lparr>q_buffer = 0x20005000, item_size = 4, max_items = 10, q_count = 0, q_head = 0, q_tail = 0,
       buf_size = 40, send_wait_list = NULL, recv_wait_list = NULL\<rparr>)\<rparr>"

lemma apart_words:
  assumes "unat p + 4 \<le> unat q" "unat q + 4 \<le> 2 ^ 32" shows "apart p 4 q 4"
  unfolding apart_def
proof (intro allI impI)
  fix i j :: nat assume "i < 4" "j < 4"
  then have "unat (p + of_nat i) = unat p + i" "unat (q + of_nat j) = unat q + j"
    using assms by (simp_all add: unat_add_lem [THEN iffD1] unat_of_nat)
  then have "unat (p + of_nat i) \<noteq> unat (q + of_nat j)" using assms(1) \<open>i < 4\<close> by linarith
  then show "p + of_nat i \<noteq> q + of_nat j" by auto
qed

lemma demo_pipe_idle: "pipeline_idle demo_app demo_pipe"
proof -
  let ?x = "queues demo_pipe 0x20006100"
  have q: "queue_ok ?x" by (simp add: demo_pipe_def queue_ok_def first_slot_def)
  have o: "outside 0x20007080 ?x" "outside 0x20007180 ?x" "outside 0x20006000 ?x" "outside 0x20006020 ?x"
    by (rule outside_beyond; simp add: demo_pipe_def)+
  have a: "apart 0x20006020 4 0x20007080 4" "apart 0x20006000 4 0x20007080 4" "apart 0x20006000 4 0x20007180 4"
    by (rule apart_words; simp)+
  have m: "load32 0x20006020 demo_pipe = tSusp" "load32 0x20007080 demo_pipe = 6" by (simp_all add: load32_def demo_pipe_def)
  show ?thesis
    using q o a m by (simp add: pipeline_idle_def demo_app_def) (simp add: demo_pipe_def demo_def demo_tcbs_def demo_tcb_def)
qed

lemma demo_pipe_rep: "rep demo_pipe demo_lists demo_tcbs"
proof -
  have "list_head demo_pipe l = list_head demo l" for l by (cases l) (simp_all add: demo_pipe_def demo_def)
  then have "rep demo_pipe demo_lists demo_tcbs = rep demo demo_lists demo_tcbs" by (intro rep_cong) (simp_all add: demo_pipe_def)
  then show ?thesis using demo_rep by simp
qed

theorem message_delivered_witness:
  "\<exists>s1 s2 s3. producer_task demo_app demo_env demo_pipe = Some s1 \<and> os_sched_select_next s1 = Some s2 \<and> current_task_ptr s2 = tReady
     \<and> consumer_task demo_app demo_env s2 = Some s3 \<and> load32 0x20006000 s3 = 42 \<and> sem_count (sems s3 0x20006200) = 0"
proof -
  let ?B = "demo_lists(Ready 2 := remove1 tRun (demo_lists (Ready 2)), Blocked := tRun # demo_lists Blocked)"
  have c: "current_ok demo_pipe demo_tcbs" "current_task_ptr demo_pipe = tRun"
    using demo_current_ok by (simp_all add: current_ok_def demo_pipe_def demo_def)
  have t: "tRun \<in> set (demo_lists (Ready 2))" "top_level 2 ?B" "hd (?B (Ready 2)) = tReady"
    by (auto simp: demo_lists_def top_level_def)
  have m: "load32 0x20006000 demo_pipe = 35" "load32 0x20007080 demo_pipe = 6" by (simp_all add: load32_def demo_pipe_def)
  have d: "at_value demo_app = 0x20007080" "at_shared_counter demo_app = 0x20006000" "at_data_ready_sem demo_app = 0x20006200"
    "switch demo_env = Some" by (simp_all add: demo_app_def demo_env_def)
  show ?thesis
    using message_delivered [OF demo_app_linked demo_pipe_idle demo_pipe_rep demo_states_ok c t(1) refl t(2), of demo_env]
    unfolding t(3) d m by auto
qed

end
