(* ===== verification/Deletion.thy ===== *)
theory Deletion
  imports Wait_Lists
begin

text \<open>
  Task deletion, \<open>os_task_delete\<close> of \<open>kernel/task.c\<close>: a ready task is removed at once, the
  running task goes to the deferred list and is freed by a later tick, and what happens to a task
  that waits.
\<close>

section \<open>Forgetting a control block\<close>

lemma rep_forget:
  assumes "rep s A V" "nowhere A t"
  shows "rep (s\<lparr>heap := h, tcbs := (tcbs s)(t := None)\<rparr>) A (V(t := None))"
proof -
  let ?s = "s\<lparr>heap := h, tcbs := (tcbs s)(t := None)\<rparr>"
  have nt: "t \<notin> set (A l)" for l using assms(2) by (simp add: nowhere_def)
  have so: "same_outside {t} (tcbs s) (tcbs ?s)" by (simp add: same_outside_def)
  have "seg l (tcbs ?s) (A l) = seg l (tcbs s) (A l)" for l
    using nt dseg_same_outside [OF _ so] sseg_same_outside [OF _ so] by (simp add: seg_def)
  moreover have "list_head ?s l = list_head s l" for l by (rule list_head_cong) simp_all
  ultimately have "list_ok A ?s" using rep_list_ok [OF assms(1)] by (simp add: list_ok_def)
  moreover have v: "view (tcbs ?s) = V(t := None)" using rep_view [OF assms(1)] by (auto simp: view_def)
  moreover have "ready_ok A ?s"
  proof -
    have "x \<in> set (A (Ready p)) \<Longrightarrow> x \<noteq> t" for x p using nt by auto
    then show ?thesis using rep_ready_ok [OF assms(1)] rep_view [OF assms(1)] v by (simp add: ready_ok_view)
  qed
  ultimately show ?thesis by (simp add: rep_def links_ok_def)
qed

lemma states_ok_forget:
  assumes "states_ok A V" "nowhere A t" shows "states_ok A (V(t := None))"
proof -
  have nt: "t \<notin> set (A l)" for l using assms(2) by (simp add: nowhere_def)
  have "prio_sorted (V(t := None)) (A l) = prio_sorted V (A l)" for l
    using nt [of l] by (intro prio_sorted_cong) (auto simp: prio_of_def)
  then show ?thesis using assms(1) by (auto simp: states_ok_def)
qed

text \<open>
  The two heap areas of a task that was created without a stack of its own: the control block and
  the stack. The stack of the idle task is exempt from deletion.
\<close>

definition owns :: "env \<Rightarrow> (nat \<times> nat) set \<Rightarrow> ptr \<Rightarrow> os_tcb \<Rightarrow> nat \<times> nat \<Rightarrow> nat \<times> nat \<Rightarrow> bool" where
  "owns e L t d a b \<longleftrightarrow> a \<in> L \<and> b \<in> L \<and> a \<noteq> b \<and> t = adr (fst a) \<and> stack_base d = adr (fst b) \<and> stack_base d \<noteq> idle_task_stack e"

lemma free_task_heap:
  assumes t: "tcbs s t = Some c" "t \<noteq> NULL" and h: "heap_rep start (heap s) L" "owns e L t c a b"
  shows "\<exists>h'. free_task e t s = Some (s\<lparr>heap := h', tcbs := (tcbs s)(t := None)\<rparr>) \<and> heap_rep start h' (L - {a, b})"
proof -
  obtain p n q m where ab: "a = (p, n)" "b = (q, m)" by (cases a; cases b) auto
  obtain h1 where h1: "os_heap_free (adr q) (heap s) = Some h1" "heap_rep start h1 (L - {b})"
    using heap_rep_free [OF h(1), of q m] h(2) ab by (auto simp: owns_def)
  obtain h2 where h2: "os_heap_free (adr p) h1 = Some h2" "heap_rep start h2 (L - {b} - {a})"
    using heap_rep_free [OF h1(2), of p n] h(2) ab by (auto simp: owns_def)
  have "L - {b} - {a} = L - {a, b}" by blast
  then show ?thesis using t h(2) ab h1 h2
    by (auto simp: free_task_def kfree_def kfree_tcb_def get_tcb_def owns_def)
qed

lemma owns_erase [simp]: "owns e L t (erase c) a b = owns e L t c a b"
  by (simp add: owns_def)

section \<open>A ready task\<close>

lemma delete_ready_rep:
  assumes r: "rep s A V" and ok: "states_ok A V" and c: "crit_ok s" and t: "t \<noteq> current_task_ptr s" "V t = Some d" "tcb_state d = OS_TASK_READY"
    and hk: "task_delete_hook s = NULL" and h: "heap_rep start (heap s) L" "owns e L t d a b" and p: "p = unat (priority d)"
  shows "\<exists>s'. os_task_delete e t s = Some (OS_OK, s') \<and> rep s' (A(Ready p := remove1 t (A (Ready p)))) (V(t := None))
     \<and> states_ok (A(Ready p := remove1 t (A (Ready p)))) (V(t := None)) \<and> heap_rep start (heap s') (L - {a, b})
     \<and> crit_same s s' \<and> task_count s' = task_count s"
proof -
  let ?s = "os_sched_enter_critical s" let ?A = "A(Ready p := remove1 t (A (Ready p)))" let ?f = "\<lambda>c. c\<lparr>tcb_state := OS_TASK_DELETED\<rparr>"
  have tr: "t \<in> set (A (Ready p))" using states_okD(2) [OF ok t(2)] t(3) p by (simp add: runnable_def)
  have tz: "t \<noteq> NULL" using rep_member(1) [OF r tr] .
  have r0: "rep ?s A V" using r by simp
  obtain c0 where c0: "tcbs ?s t = Some c0" "erase c0 = d" using rep_Some [OF r0 t(2)] by blast
  obtain s1 where s1: "os_task_remove_from_ready t ?s = Some s1" "rep s1 ?A V" "frame ?s s1" using remove_from_ready_rep [OF r0 tr] by blast
  obtain s2 where s2: "upd_tcb t ?f s1 = Some s2" "rep s2 ?A (V(t \<mapsto> ?f d))" "frame s1 s2"
    using upd_tcb_rep [OF s1(2) tz t(2), of ?f] by (auto simp: data_upd_def)
  note f = frame_os [OF frame_trans [OF s1(3) s2(3)]]
  let ?s3 = "os_trace_record OS_TRACE_TASK_DELETE t 0 s2"
  have nw: "nowhere ?A t" using nowhere_remove1 [OF r tr] by simp
  obtain c3 where c3: "tcbs ?s3 t = Some c3" "erase c3 = ?f d" using rep_Some [OF s2(2), of t] by (auto simp: crit_simps)
  have o3: "owns e L t c3 a b" using h(2) arg_cong [OF c3(2), of stack_base] by (auto simp: owns_def)
  have hp: "heap ?s3 = heap s" using f(1) by (simp add: crit_simps)
  obtain h' where h': "free_task e t ?s3 = Some (?s3\<lparr>heap := h', tcbs := (tcbs ?s3)(t := None)\<rparr>)" "heap_rep start h' (L - {a, b})"
    using free_task_heap [OF c3(1) tz _ o3] h(1) hp by auto
  let ?s4 = "?s3\<lparr>heap := h', tcbs := (tcbs ?s3)(t := None)\<rparr>"
  have hk2: "task_delete_hook s2 = NULL" using f(9) hk by (simp add: crit_simps)
  have "os_task_delete e t s = Some (OS_OK, os_sched_exit_critical ?s4)"
    using tz t(1,3) c0 s1(1) s2(1) h'(1) hk2 by (auto simp: os_task_delete_def get_tcb_def run_delete_hook_def Let_def)
  moreover have "rep (os_sched_exit_critical ?s4) ?A (V(t := None))"
    using rep_forget [of ?s3 ?A "V(t \<mapsto> ?f d)" t h'] s2(2) nw by simp
  moreover have "states_ok ?A (V(t := None))"
    using states_ok_forget [OF states_ok_leave [OF ok t(2) r tr, of "?f d"] nw] by simp
  moreover have "crit_same s (os_sched_exit_critical ?s4)"
    by (rule section_crit_same [OF c frame_trans [OF s1(3) s2(3)]]) (simp_all add: crit_simps)
  moreover have "heap (os_sched_exit_critical ?s4) = h'" "task_count (os_sched_exit_critical ?s4) = task_count s"
    using f(6) by (simp_all add: crit_simps)
  ultimately show ?thesis using h'(2) by auto
qed

section \<open>The running task\<close>

lemma push_deferred_rep:
  assumes r: "rep s A V" and t: "nowhere A t" "t \<noteq> NULL" "V t = Some d"
  shows "\<exists>s'. upd_tcb t (\<lambda>c. c\<lparr>tcb_next := deferred_delete_list s\<rparr>) s = Some s'
     \<and> rep (s'\<lparr>deferred_delete_list := t\<rparr>) (A(Deferred := t # A Deferred)) V \<and> frame s (s'\<lparr>deferred_delete_list := t\<rparr>)"
proof -
  obtain c where c: "tcbs s t = Some c" "erase c = d" using rep_Some [OF r t(3)] by blast
  let ?c = "c\<lparr>tcb_next := deferred_delete_list s\<rparr>" let ?s1 = "s\<lparr>tcbs := (tcbs s)(t \<mapsto> ?c)\<rparr>" let ?s = "?s1\<lparr>deferred_delete_list := t\<rparr>"
  have r1: "rep ?s1 A (V(t \<mapsto> erase ?c))" by (rule rep_upd_nowhere [OF r t(1)])
  have "erase ?c = d" using c(2) by (simp add: erase_def)
  then have v: "V(t \<mapsto> erase ?c) = V" using t(3) by auto
  have tl: "t \<notin> set (A l)" for l using t(1) by (simp add: nowhere_def)
  have hd: "list_head ?s l = (if l = Deferred then t else list_head ?s1 l)" for l by (cases l) simp_all
  have "sseg (tcbs ?s1) (A Deferred)" "deferred_delete_list s = first_ptr NULL (A Deferred)" "distinct (A Deferred)"
    using rep_list_ok [OF r1] rep_Deferred [OF r] by (auto simp: list_ok_def seg_def)
  then have "seg Deferred (tcbs ?s) (t # A Deferred)" using t(2) by (simp add: seg_def)
  moreover have "distinct (t # A Deferred)" using \<open>distinct (A Deferred)\<close> tl by simp
  ultimately have "list_ok (A(Deferred := t # A Deferred)) ?s"
    using hd tl by (intro list_ok_update [OF rep_list_ok [OF r1], where S = "{}" and t = t]) (auto simp: same_outside_def)
  moreover have "ready_ok (A(Deferred := t # A Deferred)) ?s" using rep_ready_ok [OF r1] by (simp add: ready_ok_def)
  ultimately have "rep ?s (A(Deferred := t # A Deferred)) V" using rep_view [OF r1] v by (simp add: rep_def links_ok_def)
  moreover have "frame s ?s" by (simp add: frame_def strip_lists_def)
  ultimately show ?thesis using c(1) t(2) by (simp add: upd_tcb_def get_tcb_def)
qed

lemma delete_self_rep:
  assumes r: "rep s A V" and ok: "states_ok A V" and c: "crit_ok s" and t: "t = current_task_ptr s" "V t = Some d" "runnable d"
    and hk: "task_delete_hook s = NULL" and p: "p = unat (priority d)"
    and A1: "A1 = A(Ready p := remove1 t (A (Ready p)), Deferred := t # A Deferred)"
    and V1: "V1 = V(t \<mapsto> d\<lparr>tcb_state := OS_TASK_DELETED, pending_delete := 1\<rparr>)"
  shows "\<exists>s1. os_task_delete e NULL s = map_option (Pair OS_OK) (os_sched_yield e s1) \<and> rep s1 A1 V1 \<and> states_ok A1 V1
     \<and> crit_same s s1 \<and> heap s1 = heap s \<and> current_task_ptr s1 = t"
proof -
  let ?s = "os_sched_enter_critical s" let ?A = "A(Ready p := remove1 t (A (Ready p)))"
  let ?f = "\<lambda>c. c\<lparr>tcb_state := OS_TASK_DELETED, pending_delete := 1\<rparr>"
  have tr: "t \<in> set (A (Ready p))" using states_okD(2) [OF ok t(2)] t(3) p by simp
  have tz: "t \<noteq> NULL" using rep_member(1) [OF r tr] .
  have r0: "rep ?s A V" using r by simp
  obtain s1 where s1: "os_task_remove_from_ready t ?s = Some s1" "rep s1 ?A V" "frame ?s s1" using remove_from_ready_rep [OF r0 tr] by blast
  obtain s2 where s2: "upd_tcb t ?f s1 = Some s2" "rep s2 ?A V1" "frame s1 s2"
    using upd_tcb_rep [OF s1(2) tz t(2), of ?f] by (auto simp: data_upd_def V1)
  have nw: "nowhere ?A t" using nowhere_remove1 [OF r tr] by simp
  obtain s3 where s3: "upd_tcb t (\<lambda>c. c\<lparr>tcb_next := deferred_delete_list s2\<rparr>) s2 = Some s3"
    "rep (s3\<lparr>deferred_delete_list := t\<rparr>) (?A(Deferred := t # ?A Deferred)) V1" "frame s2 (s3\<lparr>deferred_delete_list := t\<rparr>)"
    using push_deferred_rep [OF s2(2) nw tz] by (auto simp: V1)
  have fr: "frame ?s (s3\<lparr>deferred_delete_list := t\<rparr>)" using frame_trans [OF frame_trans [OF s1(3) s2(3)] s3(3)] .
  let ?s4 = "os_sched_exit_critical (os_trace_record OS_TRACE_TASK_DELETE t 0 (s3\<lparr>deferred_delete_list := t\<rparr>))"
  have hk2: "task_delete_hook s2 = NULL" using frame_os(9) [OF frame_trans [OF s1(3) s2(3)]] hk by (simp add: crit_simps)
  have "os_task_delete e NULL s = map_option (Pair OS_OK) (os_sched_yield e ?s4)"
    using tz t(1) s1(1) s2(1) s3(1) hk2
    by (simp add: os_task_delete_def os_task_delete_self_def run_delete_hook_def Let_def map_conv_bind_option comp_def)
  moreover have "rep ?s4 A1 V1" using s3(2) by (simp add: A1)
  moreover have "states_ok A1 V1"
  proof -
    have o: "states_ok ?A V1" unfolding V1 by (rule states_ok_leave [OF ok t(2) r tr]) simp_all
    have v: "V1 = V1(t \<mapsto> ?f d)" by (simp add: V1)
    show ?thesis unfolding A1 by (subst v, rule states_ok_move [OF o])
      (use states_okD [OF o, of t "?f d"] states_ok_sorted [OF o] v in \<open>auto simp: wait_list_def V1\<close>)
  qed
  moreover have "crit_same s ?s4" by (rule section_crit_same [OF c fr]) (simp_all add: crit_simps)
  moreover have "heap ?s4 = heap s" "current_task_ptr ?s4 = t" using frame_os(1,10) [OF fr] t(1) by (simp_all add: crit_simps)
  ultimately show ?thesis by blast
qed

text \<open>
  The walk over the detached deferred list frees every task on it. \<open>ar\<close> gives the two areas of
  a task.
\<close>

definition areas :: "(ptr \<Rightarrow> (nat \<times> nat) \<times> (nat \<times> nat)) \<Rightarrow> ptr list \<Rightarrow> (nat \<times> nat) list" where
  "areas ar ts = concat (map (\<lambda>t. [fst (ar t), snd (ar t)]) ts)"

lemma deferred_walk_rep:
  assumes "rep s A V" "states_ok A V" "sseg (tcbs s) ts" "\<And>t. t \<in> set ts \<Longrightarrow> nowhere A t" "distinct ts"
    "heap_rep start (heap s) L" "distinct (areas ar ts)"
    "\<And>t d. t \<in> set ts \<Longrightarrow> V t = Some d \<Longrightarrow> owns e L t d (fst (ar t)) (snd (ar t))"
  shows "\<exists>h' m'. deferred_walk e (first_ptr NULL ts) s = Some (s\<lparr>heap := h', tcbs := m'\<rparr>)
     \<and> rep (s\<lparr>heap := h', tcbs := m'\<rparr>) A (V |` (- set ts)) \<and> states_ok A (V |` (- set ts)) \<and> heap_rep start h' (L - set (areas ar ts))"
  using assms
proof (induction ts arbitrary: s V L)
  case Nil
  have "s\<lparr>heap := heap s, tcbs := tcbs s\<rparr> = s" by simp
  then show ?case using Nil.prems by (intro exI [of _ "heap s"] exI [of _ "tcbs s"]) (simp add: deferred_walk.simps areas_def)
next
  case (Cons t ts)
  obtain c where c: "tcbs s t = Some c" "tcb_next c = first_ptr NULL ts" "t \<noteq> NULL" "sseg (tcbs s) ts" using Cons.prems(3) by auto
  have v: "V t = Some (erase c)" using rep_view [OF Cons.prems(1)] c(1) by (auto simp: view_def)
  let ?a = "fst (ar t)" and ?b = "snd (ar t)"
  have o: "owns e L t c ?a ?b" using Cons.prems(8) [OF _ v] by simp
  have nw: "nowhere A t" using Cons.prems(4) by simp
  obtain h1 where h1: "free_task e t s = Some (s\<lparr>heap := h1, tcbs := (tcbs s)(t := None)\<rparr>)" "heap_rep start h1 (L - {?a, ?b})"
    using free_task_heap [OF c(1,3) Cons.prems(6) o] by blast
  let ?s1 = "s\<lparr>heap := h1, tcbs := (tcbs s)(t := None)\<rparr>"
  have nt: "t \<notin> set ts" using Cons.prems(5) by simp
  have sg: "sseg (tcbs ?s1) ts" using c(4) sseg_same_outside [of ts "{t}" "tcbs s" "tcbs ?s1"] nt by (simp add: same_outside_def)
  have ow: "owns e (L - {?a, ?b}) u d (fst (ar u)) (snd (ar u))" if "u \<in> set ts" "(V(t := None)) u = Some d" for u d
  proof -
    have "fst (ar u) \<notin> {?a, ?b}" "snd (ar u) \<notin> {?a, ?b}" using Cons.prems(7) that(1) by (auto simp: areas_def)
    then show ?thesis using Cons.prems(8) [of u d] that by (auto simp: owns_def split: if_splits)
  qed
  have hr: "heap_rep start (heap ?s1) (L - {?a, ?b})" using h1(2) by simp
  have di: "distinct ts" "distinct (areas ar ts)" "\<And>u. u \<in> set ts \<Longrightarrow> nowhere A u" using Cons.prems(4,5,7) by (simp_all add: areas_def)
  obtain h' m' where w: "deferred_walk e (first_ptr NULL ts) ?s1 = Some (?s1\<lparr>heap := h', tcbs := m'\<rparr>)"
    "rep (?s1\<lparr>heap := h', tcbs := m'\<rparr>) A (V(t := None) |` (- set ts))" "states_ok A (V(t := None) |` (- set ts))"
    "heap_rep start h' (L - {?a, ?b} - set (areas ar ts))"
    using Cons.IH [OF rep_forget [OF Cons.prems(1) nw] states_ok_forget [OF Cons.prems(2) nw] sg di(3,1) hr di(2) ow] by blast
  have "V(t := None) |` (- set ts) = V |` (- set (t # ts))" by (auto simp: restrict_map_def)
  moreover have "L - {?a, ?b} - set (areas ar ts) = L - set (areas ar (t # ts))" by (auto simp: areas_def)
  moreover have "deferred_walk e (first_ptr NULL (t # ts)) s = Some (s\<lparr>heap := h', tcbs := m'\<rparr>)"
    using c w(1) h1(1) by (simp add: deferred_walk.simps [of e t] get_tcb_def)
  ultimately show ?case using w(2-4) by (intro exI [of _ h'] exI [of _ m']) simp
qed

lemma detach_rep:
  assumes "rep s A V" shows "rep (s\<lparr>deferred_delete_list := NULL\<rparr>) (A(Deferred := [])) V"
proof -
  let ?s = "s\<lparr>deferred_delete_list := NULL\<rparr>"
  have "list_head ?s l = (if l = Deferred then NULL else list_head s l)" for l by (cases l) simp_all
  then have "list_ok (A(Deferred := [])) ?s" using rep_list_ok [OF assms] by (auto simp: list_ok_def seg_def)
  moreover have "ready_ok (A(Deferred := [])) ?s" using rep_ready_ok [OF assms] by (simp add: ready_ok_def)
  ultimately show ?thesis using rep_view [OF assms] by (simp add: rep_def links_ok_def)
qed

section \<open>Properties\<close>

text \<open>
  C21. \<open>os_task_delete\<close> of another task that is ready, with control block and stack in the heap:
  the call succeeds, the task leaves its ready list and no other list changes, its control block is
  gone, and exactly its two areas are given back to the heap. The task count stays: the slot in the
  task table is not given back.
\<close>

theorem os_task_delete_ready:
  assumes "rep s A V" "states_ok A V" "crit_ok s" "t \<noteq> current_task_ptr s" "V t = Some d" "tcb_state d = OS_TASK_READY"
    "task_delete_hook s = NULL" "heap_rep start (heap s) L" "owns e L t d a b" "A1 = A(Ready (unat (priority d)) := remove1 t (A (Ready (unat (priority d)))))"
  shows "\<exists>s'. os_task_delete e t s = Some (OS_OK, s') \<and> rep s' A1 (V(t := None)) \<and> states_ok A1 (V(t := None))
     \<and> heap_rep start (heap s') (L - {a, b}) \<and> crit_same s s' \<and> task_count s' = task_count s"
  unfolding assms(10) by (rule delete_ready_rep [OF assms(1-9) refl])

text \<open>A heap that holds the control blocks and stacks of two of the tasks of the example.\<close>

definition demo_heap :: heap4 where
  "demo_heap = boot_heap\<lparr>px_block_list := 0x200001F4,
     hdrs := (\<lambda>_. \<lparr>hdr_next = 0, hdr_size = 0, hdr_allocated = 0\<rparr>)(
       0x200001F4 := \<lparr>hdr_next = 0x200002F4, hdr_size = enc_size 244 True, hdr_allocated = 1\<rparr>,
       0x200002F4 := \<lparr>hdr_next = 0x200011F4, hdr_size = enc_size 3828 True, hdr_allocated = 1\<rparr>,
       0x200011F4 := \<lparr>hdr_next = 0x200013F4, hdr_size = enc_size 500 True, hdr_allocated = 1\<rparr>,
       0x200013F4 := \<lparr>hdr_next = 0, hdr_size = enc_size 5620 True, hdr_allocated = 1\<rparr>)\<rparr>"

definition demo_live :: "(nat \<times> nat) set" where
  "demo_live = {(0x20000200, 244), (0x20000300, 3828), (0x20001200, 500), (0x20001400, 5620)}"

lemma demo_heap_rep: "heap_rep 0x200001F4 demo_heap demo_live"
proof -
  have "heap_ok 0x200001F4 demo_heap [(244, True), (3828, True), (500, True), (5620, True)]"
    using boot_heap_ok by (simp add: heap_ok_def demo_heap_def adr_def hfirst_def)
  then show ?thesis unfolding heap_rep_def by (intro exI conjI) (assumption, simp add: demo_live_def)
qed

definition demo_del :: os where
  "demo_del = demo\<lparr>heap := demo_heap\<rparr>"

lemma demo_del_state:
  "rep demo_del demo_lists demo_tcbs" "crit_ok demo_del" "task_delete_hook demo_del = NULL" "heap demo_del = demo_heap" "current_task_ptr demo_del = tRun"
  "rep (demo_del\<lparr>current_task_ptr := tReady\<rparr>) demo_lists demo_tcbs" "crit_ok (demo_del\<lparr>current_task_ptr := tReady\<rparr>)"
proof -
  show "rep demo_del demo_lists demo_tcbs" "rep (demo_del\<lparr>current_task_ptr := tReady\<rparr>) demo_lists demo_tcbs"
    using demo_rep by (simp_all add: demo_del_def)
qed (simp_all add: demo_del_def crit_ok_def demo_def)

lemma demo_owns:
  "owns demo_env demo_live tReady (demo_tcb 0x20001200 p st k) (0x20000200, 244) (0x20001200, 500)"
  "owns demo_env demo_live tDelayed (demo_tcb 0x20001400 p st k) (0x20000300, 3828) (0x20001400, 5620)"
  by (simp_all add: owns_def demo_live_def demo_tcb_def demo_env_def adr_def)

theorem os_task_delete_ready_witness:
  "\<exists>s'. os_task_delete demo_env tReady demo_del = Some (OS_OK, s') \<and> rep s' (demo_lists(Ready 2 := [tRun])) (demo_tcbs(tReady := None))
     \<and> heap_rep 0x200001F4 (heap s') {(0x20000300, 3828), (0x20001400, 5620)}"
proof -
  let ?d = "demo_tcb 0x20001200 2 OS_TASK_READY 0"
  have d: "demo_tcbs tReady = Some ?d" "tcb_state ?d = OS_TASK_READY" "tReady \<noteq> current_task_ptr demo_del" "priority ?d = 2"
    by (simp_all add: demo_tcbs_def demo_tcb_def demo_del_state)
  have h: "heap_rep 0x200001F4 (heap demo_del) demo_live" using demo_heap_rep by (simp add: demo_del_state)
  have "demo_lists(Ready (unat (priority ?d)) := remove1 tReady (demo_lists (Ready (unat (priority ?d))))) = demo_lists(Ready 2 := [tRun])"
    by (simp add: d(4) demo_lists_def)
  moreover have "demo_live - {(0x20000200, 244), (0x20001200, 500)} = {(0x20000300, 3828), (0x20001400, 5620)}" by (auto simp: demo_live_def)
  ultimately show ?thesis
    using os_task_delete_ready [OF demo_del_state(1) demo_states_ok demo_del_state(2) d(3,1,2) demo_del_state(3) h demo_owns(1) refl] by auto
qed

text \<open>
  C22. Deferred deletion ends and is complete: \<open>os_task_process_deferred_delete\<close>, which the tick
  calls, frees control block and stack of every task on the deferred list, however long it is,
  empties the list, and leaves all other tasks, lists and heap areas as they were.
\<close>

theorem deferred_delete_complete:
  assumes "rep s A V" "states_ok A V" "heap_rep start (heap s) L" "distinct (areas ar (A Deferred))"
    "\<forall>t \<in> set (A Deferred). \<forall>d. V t = Some d \<longrightarrow> owns e L t d (fst (ar t)) (snd (ar t))"
  shows "\<exists>s'. os_task_process_deferred_delete e s = Some s' \<and> rep s' (A(Deferred := [])) (V |` (- set (A Deferred)))
     \<and> states_ok (A(Deferred := [])) (V |` (- set (A Deferred))) \<and> heap_rep start (heap s') (L - set (areas ar (A Deferred)))"
proof -
  let ?s = "os_sched_exit_critical ((os_sched_enter_critical s)\<lparr>deferred_delete_list := NULL\<rparr>)" let ?A = "A(Deferred := [])"
  have r: "rep ?s ?A V" using detach_rep [of "os_sched_enter_critical s" A V] assms(1) by simp
  have wl: "wait_list l \<and> t \<in> set (?A l) \<longleftrightarrow> wait_list l \<and> t \<in> set (A l)" "prio_sorted V (A l) \<Longrightarrow> prio_sorted V (?A l)" for l t
    by (auto simp: wait_list_def prio_sorted_def)
  have ok: "states_ok ?A V" using assms(2) wl(2) unfolding states_ok_def wl(1) by auto
  have l: "sseg (tcbs s) (A Deferred)" "distinct (A Deferred)" using rep_list_ok [OF assms(1)] by (auto simp: list_ok_def seg_def)
  have nw: "nowhere ?A t" if "t \<in> set (A Deferred)" for t using rep_disjoint_lists [OF assms(1) that] by (auto simp: nowhere_def)
  have s: "sseg (tcbs ?s) (A Deferred)" "heap_rep start (heap ?s) L" "deferred_delete_list (os_sched_enter_critical s) = first_ptr NULL (A Deferred)"
    using l(1) assms(3) rep_Deferred [OF assms(1)] by (simp_all add: crit_simps)
  obtain h' m' where w: "deferred_walk e (first_ptr NULL (A Deferred)) ?s = Some (?s\<lparr>heap := h', tcbs := m'\<rparr>)"
    "rep (?s\<lparr>heap := h', tcbs := m'\<rparr>) ?A (V |` (- set (A Deferred)))" "states_ok ?A (V |` (- set (A Deferred)))"
    "heap_rep start h' (L - set (areas ar (A Deferred)))"
    using deferred_walk_rep [OF r ok s(1) nw l(2) s(2) assms(4)] assms(5) by blast
  then show ?thesis using s(3) by (simp add: os_task_process_deferred_delete_def Let_def)
qed

theorem deferred_delete_complete_witness:
  "\<exists>s1 s2. os_task_delete demo_env NULL (demo_del\<lparr>current_task_ptr := tReady\<rparr>) = Some (OS_OK, s1)
     \<and> os_task_process_deferred_delete demo_env s1 = Some s2 \<and> tcbs s2 tReady = None
     \<and> heap_rep 0x200001F4 (heap s2) {(0x20000300, 3828), (0x20001400, 5620)}"
proof -
  let ?s = "demo_del\<lparr>current_task_ptr := tReady\<rparr>" let ?d = "demo_tcb 0x20001200 2 OS_TASK_READY 0"
  let ?A = "demo_lists(Ready 2 := remove1 tReady (demo_lists (Ready 2)), Deferred := tReady # demo_lists Deferred)"
  let ?V = "demo_tcbs(tReady \<mapsto> ?d\<lparr>tcb_state := OS_TASK_DELETED, pending_delete := 1\<rparr>)"
  have d: "demo_tcbs tReady = Some ?d" "runnable ?d" "tReady = current_task_ptr ?s" "2 = unat (priority ?d)" "task_delete_hook ?s = NULL"
    by (simp_all add: demo_tcbs_def demo_tcb_def runnable_def demo_del_state)
  obtain s1 where s1: "os_task_delete demo_env NULL ?s = map_option (Pair OS_OK) (os_sched_yield demo_env s1)" "rep s1 ?A ?V" "states_ok ?A ?V" "heap s1 = heap ?s"
    using delete_self_rep [OF demo_del_state(6) demo_states_ok demo_del_state(7) d(3,1,2,5,4) refl refl, of demo_env] by (elim exE conjE) (rule that)
  obtain s2 where s2: "os_sched_yield demo_env s1 = Some s2" "rep s2 ?A ?V" "heap s2 = heap s1"
  proof -
    have "switch demo_env = Some" by (simp add: demo_env_def)
    then have "\<exists>s2. os_sched_yield demo_env s1 = Some s2 \<and> (\<forall>A V. rep s2 A V = rep s1 A V) \<and> heap s2 = heap s1"
      by (simp add: os_sched_yield_def os_port_yield_def)
    then show thesis using that s1(2) by blast
  qed
  have df: "?A Deferred = [tReady]" by (simp add: demo_lists_def)
  let ?ar = "\<lambda>_ :: ptr. ((0x20000200, 244), (0x20001200, 500)) :: (nat \<times> nat) \<times> (nat \<times> nat)"
  have h: "heap_rep 0x200001F4 (heap s2) demo_live" using demo_heap_rep s2(3) s1(4) by (simp add: demo_del_state)
  have ow: "\<forall>t \<in> set (?A Deferred). \<forall>x. ?V t = Some x \<longrightarrow> owns demo_env demo_live t x (fst (?ar t)) (snd (?ar t))"
    using demo_owns(1) [of 2 OS_TASK_READY 0] unfolding df by (auto simp: owns_def)
  have "distinct (areas ?ar (?A Deferred))" unfolding df by (simp add: areas_def)
  from deferred_delete_complete [OF s2(2) s1(3) h this ow]
  obtain s3 where s3: "os_task_process_deferred_delete demo_env s2 = Some s3" "rep s3 (?A(Deferred := [])) (?V |` (- set (?A Deferred)))"
    "heap_rep 0x200001F4 (heap s3) (demo_live - set (areas ?ar (?A Deferred)))" by (elim exE conjE) (rule that)
  have "demo_live - set (areas ?ar (?A Deferred)) = {(0x20000300, 3828), (0x20001400, 5620)}" unfolding df by (auto simp: demo_live_def areas_def)
  moreover have "tcbs s3 tReady = None" using rep_view [OF s3(2)] unfolding df by (metis view_None restrict_out ComplD list.set_intros(1))
  ultimately show ?thesis using s1(1) s2(1) s3(1,3) by simp
qed

text \<open>
  C39. Deleting a task that is delayed leaves a dangling entry: the call frees the control block and
  reports success, but the task stays at the head of the list of blocked tasks, and the next tick
  reads the freed control block.
\<close>

theorem os_task_delete_blocked_dangles:
  assumes "rep s A V" "states_ok A V" "t \<noteq> current_task_ptr s" "A Blocked = t # ts" "V t = Some d"
    "task_delete_hook s = NULL" "heap_rep start (heap s) L" "owns e L t d a b"
  shows "\<exists>s'. os_task_delete e t s = Some (OS_OK, s') \<and> blocked_list s' = t \<and> tcbs s' t = None \<and> os_task_tick e s' = None"
proof -
  let ?s = "os_sched_enter_critical s" let ?f = "\<lambda>c. c\<lparr>tcb_state := OS_TASK_DELETED\<rparr>"
  have tb: "t \<in> set (A Blocked)" using assms(4) by simp
  have tz: "t \<noteq> NULL" using rep_member(1) [OF assms(1) tb] .
  obtain c where c: "tcbs s t = Some c" "erase c = d" using rep_Some [OF assms(1,5)] by blast
  have st: "tcb_state c \<noteq> OS_TASK_READY" using states_okD(3) [OF assms(2,5)] tb c(2) wait_list_simps(1) by force
  have bl: "blocked_list s = t" using rep_blocked_list [OF assms(1)] assms(4) by simp
  let ?s2 = "os_trace_record OS_TRACE_TASK_DELETE t 0 (?s\<lparr>tcbs := (tcbs ?s)(t \<mapsto> ?f c)\<rparr>)"
  have o: "owns e L t (?f c) a b" using assms(8) arg_cong [OF c(2), of stack_base] by (auto simp: owns_def)
  obtain h' where h': "free_task e t ?s2 = Some (?s2\<lparr>heap := h', tcbs := (tcbs ?s2)(t := None)\<rparr>)"
    using free_task_heap [of ?s2 t "?f c" start L e a b] tz o assms(7) by (auto simp: crit_simps)
  let ?s3 = "os_sched_exit_critical (?s2\<lparr>heap := h', tcbs := (tcbs ?s2)(t := None)\<rparr>)"
  have "os_task_delete e t s = Some (OS_OK, ?s3)"
    using tz assms(3,6) c(1) st h' by (simp add: os_task_delete_def get_tcb_def upd_tcb_def run_delete_hook_def Let_def crit_simps)
  moreover have "blocked_list ?s3 = t" "tcbs ?s3 t = None" using bl by (simp_all add: crit_simps)
  moreover have "os_task_tick e ?s3 = None"
    using calculation(2,3) tz by (simp add: os_task_tick_def tick_walk.simps [of t] get_tcb_def)
  ultimately show ?thesis by blast
qed

theorem os_task_delete_blocked_dangles_witness:
  "\<exists>s'. os_task_delete demo_env tDelayed demo_del = Some (OS_OK, s') \<and> blocked_list s' = tDelayed \<and> os_task_tick demo_env s' = None"
proof -
  let ?d = "demo_tcb 0x20001400 1 OS_TASK_BLOCKED 3"
  have d: "demo_tcbs tDelayed = Some ?d" "tDelayed \<noteq> current_task_ptr demo_del" "demo_lists Blocked = [tDelayed]"
    by (simp_all add: demo_tcbs_def demo_lists_def demo_del_state)
  have h: "heap_rep 0x200001F4 (heap demo_del) demo_live" using demo_heap_rep by (simp add: demo_del_state)
  show ?thesis
    using os_task_delete_blocked_dangles [OF demo_del_state(1) demo_states_ok d(2,3,1) demo_del_state(3) h demo_owns(2)] by blast
qed

end
