(* ===== verification/Creation.thy ===== *)
theory Creation
  imports Task
begin

unbundle bit_operations_syntax

text \<open>
  What creating a task does to the heap: \<open>os_task_create\<close> of \<open>kernel/task.c\<close> takes the stack, unless the caller supplies one, and the
  control block from the allocator of \<open>kernel/heap4.c\<close>, whose search for the first block that fits is stated here as a function of the
  list of blocks.
\<close>

section \<open>First fit on the list of blocks\<close>

fun fit_in :: "nat \<Rightarrow> blocks \<Rightarrow> blocks option" where
  "fit_in n [] = None"
| "fit_in n (b # bs) = (if fits n b then Some (carve n (fst b) @ bs) else map_option ((#) b) (fit_in n bs))"

fun fit_at :: "nat \<Rightarrow> nat \<Rightarrow> blocks \<Rightarrow> nat" where
  "fit_at a n [] = a"
| "fit_at a n (b # bs) = (if fits n b then a + 12 else fit_at (a + 12 + fst b) n bs)"

lemma fit_none: "fit_in n bs = None \<longleftrightarrow> (\<forall>b \<in> set bs. \<not> fits n b)"
  by (induction bs) auto

lemma fit_skip:
  "\<forall>b \<in> set xs. \<not> fits n b \<Longrightarrow> n \<le> k \<Longrightarrow> fit_in n (xs @ (k, False) # ys) = Some (xs @ carve n k @ ys)"
  "\<forall>b \<in> set xs. \<not> fits n b \<Longrightarrow> n \<le> k \<Longrightarrow> fit_at a n (xs @ (k, False) # ys) = a + tot xs + 12"
  by (induction xs arbitrary: a) (auto simp: fits_def tot.simps)

text \<open>The allocator refines the search.\<close>

lemma alloc_fit:
  assumes ok: "heap_ok start h bs" and sz: "sz \<noteq> 0" "unat sz + 8 \<le> 2 ^ 32" and n: "n = (unat sz + 7) div 8 * 8"
  shows "case fit_in n bs of
      None \<Rightarrow> malloc_failed_hook h = NULL \<longrightarrow> os_heap_alloc hook sz h = Some (NULL, h)
    | Some bs' \<Rightarrow> \<exists>h' k. os_heap_alloc hook sz h = Some (adr (fit_at start n bs), h') \<and> heap_ok start h' bs' \<and> adr (fit_at start n bs) \<noteq> NULL
        \<and> malloc_failed_hook h' = malloc_failed_hook h \<and> n \<le> k \<and> set (live start bs') = insert (fit_at start n bs, k) (set (live start bs))
        \<and> (\<forall>m. (fit_at start n bs, m) \<notin> set (live start bs))"
proof -
  have al: "unat (ALIGN_UP sz) = n" using ALIGN_UP_unat [OF sz(2)] n by simp
  show ?thesis
  proof (cases rule: first_fit_cases [of bs n])
    case none
    then show ?thesis using os_heap_alloc_miss [OF ok _ sz(1), of hook] fit_none [of n bs] al by auto
  next
    case (some xs k ys)
    note f = fit_skip(1) [OF some(2,3), of ys, folded some(1)] fit_skip(2) [OF some(2,3), of start ys, folded some(1)]
    obtain h' where h': "os_heap_alloc hook sz h = Some (adr (start + tot xs + 12), h')" "heap_ok start h' (xs @ carve n k @ ys)"
      "malloc_failed_hook h' = malloc_failed_hook h"
      using os_heap_alloc_hit [OF ok [unfolded some(1)] some(2,3) sz(1) al, of hook] by blast
    have st: "0 < start" "start + 10240 < 2 ^ 32" "tot xs + 12 + k + tot ys = 10240" using ok unfolding some(1) by (auto simp: heap_ok_def)
    then have "adr (start + tot xs + 12) \<noteq> NULL" using adr_eq_iff [of "start + tot xs + 12" 0] by (simp add: adr_def)
    moreover have "(start + tot xs + 12, m) \<notin> set (live start bs)" for m
      unfolding some(1) using live_bounds [of _ m start xs] live_bounds [of _ m _ ys] by fastforce
    ultimately show ?thesis
      using h' set_live_carve [of start xs n k ys] some(1,3) unfolding f option.case
      by (intro exI [of _ h'] exI [of _ "if n + 20 \<le> k then n else k"]) auto
  qed
qed

lemma kmalloc_fit:
  assumes "heap_ok start (heap s) bs" "malloc_failed_hook (heap s) = NULL" "sz \<noteq> 0" "unat sz + 8 \<le> 2 ^ 32" "n = (unat sz + 7) div 8 * 8"
  shows "case fit_in n bs of
      None \<Rightarrow> kmalloc e sz s = Some (NULL, s)
    | Some bs' \<Rightarrow> \<exists>h' k. kmalloc e sz s = Some (adr (fit_at start n bs), s\<lparr>heap := h'\<rparr>) \<and> heap_ok start h' bs' \<and> adr (fit_at start n bs) \<noteq> NULL
        \<and> malloc_failed_hook h' = NULL \<and> n \<le> k \<and> set (live start bs') = insert (fit_at start n bs, k) (set (live start bs))
        \<and> (\<forall>m. (fit_at start n bs, m) \<notin> set (live start bs)) \<and> (\<exists>h''. os_heap_free (adr (fit_at start n bs)) h' = Some h'' \<and> heap_ok start h'' bs)"
proof (cases "fit_in n bs")
  case None
  then show ?thesis using alloc_fit [OF assms(1,3-5), of "call_malloc_failed e"] assms(2) by (simp add: kmalloc_def)
next
  case (Some bs')
  let ?p = "fit_at start n bs"
  obtain h' k where h': "os_heap_alloc (call_malloc_failed e) sz (heap s) = Some (adr ?p, h')" "heap_ok start h' bs'" "adr ?p \<noteq> NULL"
    "malloc_failed_hook h' = NULL" "n \<le> k" "set (live start bs') = insert (?p, k) (set (live start bs))" "\<forall>m. (?p, m) \<notin> set (live start bs)"
    using alloc_fit [OF assms(1,3-5), of "call_malloc_failed e"] assms(2) unfolding Some option.case by auto
  moreover obtain h'' where "os_heap_free (adr ?p) h' = Some h''" "heap_ok start h'' bs" using alloc_free_blocks [OF assms(1,3) h'(1,3)] by blast
  moreover have "kmalloc e sz s = Some (adr ?p, s\<lparr>heap := h'\<rparr>)" using h'(1) by (simp add: kmalloc_def)
  ultimately show ?thesis unfolding Some option.case by (intro exI [of _ h'] exI [of _ k]) blast
qed

section \<open>Creation\<close>

text \<open>The control blocks of the tasks are live areas of the heap.\<close>

definition tcbs_live :: "nat \<Rightarrow> blocks \<Rightarrow> (ptr \<rightharpoonup> os_tcb) \<Rightarrow> bool" where
  "tcbs_live start bs V \<longleftrightarrow> (\<forall>t. V t \<noteq> None \<longrightarrow> (\<exists>p n. t = adr p \<and> (p, n) \<in> set (live start bs)))"

lemma tcbs_live_mono: "tcbs_live start bs V \<Longrightarrow> set (live start bs) \<subseteq> set (live start bs') \<Longrightarrow> tcbs_live start bs' V"
  unfolding tcbs_live_def by blast

lemma live_small: "heap_ok start h bs \<Longrightarrow> (p, n) \<in> set (live start bs) \<Longrightarrow> p < 2 ^ 32"
  using live_bounds [of p n start bs] by (auto simp: heap_ok_def)

lemma fresh_tcb:
  assumes "tcbs_live start bs V" "heap_ok start h bs" "heap_ok start h' bs'" "(p, k) \<in> set (live start bs')" "\<forall>m. (p, m) \<notin> set (live start bs)"
  shows "V (adr p) = None"
proof (rule ccontr)
  assume "V (adr p) \<noteq> None"
  then obtain q m where q: "adr p = adr q" "(q, m) \<in> set (live start bs)" using assms(1) by (auto simp: tcbs_live_def)
  then show False using adr_eq_iff [of p q] live_small [OF assms(2) q(2)] live_small [OF assms(3,4)] assms(5) by auto
qed

lemma create_with_stack:
  assumes r: "rep s A V" "states_ok A V" and h: "heap_ok start (heap s) bs" "malloc_failed_hook (heap s) = NULL" "tcbs_live start bs V" and p: "prio < 8"
    and b: "fit_in 96 bs = Some bs'" and t: "t = adr (fit_at start 96 bs)"
    and d: "d = new_tcb func nm param prio stack sz (fst (os_port_stack_init func param stack sz (mem32 s)))"
  shows "\<exists>s' s1 k. kmalloc e sizeof_tcb s = Some (t, s1) \<and> finish_create func nm param prio stack sz t s1 = Some s' \<and> created t d s A V s'
     \<and> heap_ok start (heap s') bs' \<and> 96 \<le> k \<and> set (live start bs') = insert (fit_at start 96 bs, k) (set (live start bs)) \<and> tcbs_live start bs' (V(t \<mapsto> d))"
proof -
  have tz: "sizeof_tcb \<noteq> 0" "unat sizeof_tcb + 8 \<le> 2 ^ 32" "96 = (unat sizeof_tcb + 7) div 8 * 8" by (simp_all add: sizeof_tcb_def)
  obtain h' k where h': "kmalloc e sizeof_tcb s = Some (t, s\<lparr>heap := h'\<rparr>)" "heap_ok start h' bs'" "t \<noteq> NULL" "96 \<le> k"
    "set (live start bs') = insert (fit_at start 96 bs, k) (set (live start bs))" "\<forall>m. (fit_at start 96 bs, m) \<notin> set (live start bs)"
    using kmalloc_fit [OF h(1,2) tz, of e] unfolding b option.case t by blast
  have nt: "V t = None" using fresh_tcb [OF h(3,1) h'(2) _ h'(6), of k] h'(5) t by simp
  have r1: "rep (s\<lparr>heap := h'\<rparr>) A V" using r(1) by simp
  obtain s' where s': "finish_create func nm param prio stack sz t (s\<lparr>heap := h'\<rparr>) = Some s'" "created t d (s\<lparr>heap := h'\<rparr>) A V s'" "heap s' = h'"
    using finish_create_rep [OF r1 r(2) nt h'(3) p d] by auto
  have "created t d s A V s'" using s'(2) by (simp add: created_def crit_same_def)
  moreover have "tcbs_live start bs' (V(t \<mapsto> d))" using h(3) h'(5) t unfolding tcbs_live_def by auto
  ultimately show ?thesis using h' s' by blast
qed

text \<open>
  C17. \<open>os_task_create\<close> with valid arguments, on a well-formed heap given by its list of blocks. The stack is the caller's buffer or the first free
  block that fits the rounded size; if there is none, the call reports \<open>OS_ERR_NOMEM\<close> and changes nothing. The control block is then the first
  free block of at least 96 bytes; if there is none, the call reports \<open>OS_ERR_NOMEM\<close>, and a stack it had taken is given back, so that the heap
  has the blocks it had. Otherwise it reports \<open>OS_OK\<close>: exactly these areas have become live, each large enough and apart from
  all others, the task is new and ready at the tail of the list of its priority and in the task table, its fields
  are initialized and the initial frame is on its stack.
\<close>

theorem os_task_create_correct:
  assumes r: "rep s A V" "states_ok A V" and h: "heap_ok start (heap s) bs" "malloc_failed_hook (heap s) = NULL" "tcbs_live start bs V"
    and a: "func \<noteq> NULL" "prio < 8" "task_count s < 16" "128 \<le> sz" "unat sz + 8 \<le> 2 ^ 32" and n: "n = (unat sz + 7) div 8 * 8"
  shows "case (if buf = NULL then fit_in n bs else Some bs) of
      None \<Rightarrow> os_task_create e func nm param prio buf sz wants s = Some (OS_ERR_NOMEM, NULL, s)
    | Some bs1 \<Rightarrow> (case fit_in 96 bs1 of
        None \<Rightarrow> \<exists>h'. os_task_create e func nm param prio buf sz wants s = Some (OS_ERR_NOMEM, NULL, s\<lparr>heap := h'\<rparr>) \<and> heap_ok start h' bs
      | Some bs2 \<Rightarrow> \<exists>s' stack t d j k. os_task_create e func nm param prio buf sz wants s = Some (OS_OK, if wants then t else NULL, s')
          \<and> stack = (if buf = NULL then adr (fit_at start n bs) else buf) \<and> t = adr (fit_at start 96 bs1)
          \<and> d = new_tcb func nm param prio stack sz (fst (os_port_stack_init func param stack sz (mem32 s))) \<and> created t d s A V s'
          \<and> heap_ok start (heap s') bs2 \<and> tcbs_live start bs2 (V(t \<mapsto> d))
          \<and> (buf = NULL \<longrightarrow> unat sz \<le> j \<and> set (live start bs1) = insert (fit_at start n bs, j) (set (live start bs)))
          \<and> 96 \<le> k \<and> set (live start bs2) = insert (fit_at start 96 bs1, k) (set (live start bs1)))"
proof -
  have tz: "sizeof_tcb \<noteq> 0" "unat sizeof_tcb + 8 \<le> 2 ^ 32" "96 = (unat sizeof_tcb + 7) div 8 * 8" by (simp_all add: sizeof_tcb_def)
  have g: "sz \<noteq> 0" "\<not> sz < 128" "\<not> 8 \<le> prio" "\<not> 16 \<le> task_count s" using a by (auto simp: not_le not_less)
  have body: "os_task_create e func nm param prio buf sz wants s =
      do { (tcb, s1) \<leftarrow> kmalloc e sizeof_tcb s0;
           if tcb = NULL then do { s1 \<leftarrow> (if buf = NULL then kfree stack s1 else Some s1); Some (OS_ERR_NOMEM, NULL, s1) }
           else do { s1 \<leftarrow> finish_create func nm param prio stack sz tcb s1; Some (OS_OK, if wants then tcb else NULL, s1) } }"
    if "(if buf = NULL then prv_allocate_stack e sz s else Some (buf, s)) = Some (stack, s0)" "stack \<noteq> NULL" for stack s0
    using that a(1) g by (simp add: os_task_create_def)
  show ?thesis
  proof (cases "if buf = NULL then fit_in n bs else Some bs")
    case None
    then have b: "buf = NULL" "fit_in n bs = None" by (auto split: if_splits)
    then have "kmalloc e sz s = Some (NULL, s)" using kmalloc_fit [OF h(1,2) g(1) a(5) n, of e] by simp
    then show ?thesis using a(1) g b by (simp add: os_task_create_def prv_allocate_stack_def)
  next
    case (Some bs1)
    define stack where "stack = (if buf = NULL then adr (fit_at start n bs) else buf)"
    obtain h1 j where st: "(if buf = NULL then prv_allocate_stack e sz s else Some (buf, s)) = Some (stack, s\<lparr>heap := h1\<rparr>)" "stack \<noteq> NULL"
      "heap_ok start h1 bs1" "malloc_failed_hook h1 = NULL" "buf = NULL \<longrightarrow> unat sz \<le> j \<and> set (live start bs1) = insert (fit_at start n bs, j) (set (live start bs))"
      "set (live start bs) \<subseteq> set (live start bs1)" "buf = NULL \<longrightarrow> (\<exists>h''. os_heap_free stack h1 = Some h'' \<and> heap_ok start h'' bs)"
    proof (cases "buf = NULL")
      case True
      then have f: "fit_in n bs = Some bs1" using Some by simp
      have sn: "unat sz \<le> n" unfolding n by simp
      obtain h1 k where "kmalloc e sz s = Some (stack, s\<lparr>heap := h1\<rparr>)" "heap_ok start h1 bs1" "stack \<noteq> NULL" "malloc_failed_hook h1 = NULL" "n \<le> k"
        "set (live start bs1) = insert (fit_at start n bs, k) (set (live start bs))" "\<exists>h''. os_heap_free stack h1 = Some h'' \<and> heap_ok start h'' bs"
        using kmalloc_fit [OF h(1,2) g(1) a(5) n, of e] unfolding f option.case stack_def if_P [OF True] by blast
      then show ?thesis using that [of h1 k] True sn by (auto simp: prv_allocate_stack_def)
    next
      case False
      then show ?thesis using Some h that [of "heap s"] by (simp add: stack_def)
    qed
    let ?s = "s\<lparr>heap := h1\<rparr>"
    have k: "rep ?s A V" "heap_ok start (heap ?s) bs1" "malloc_failed_hook (heap ?s) = NULL" "tcbs_live start bs1 V"
      using r(1) st(3,4) tcbs_live_mono [OF h(3) st(6)] by simp_all
    show ?thesis
    proof (cases "fit_in 96 bs1")
      case None
      then have m: "kmalloc e sizeof_tcb ?s = Some (NULL, ?s)" using kmalloc_fit [OF k(2,3) tz, of e] by simp
      have "\<exists>h'. os_task_create e func nm param prio buf sz wants s = Some (OS_ERR_NOMEM, NULL, s\<lparr>heap := h'\<rparr>) \<and> heap_ok start h' bs"
        using body [OF st(1,2)] m st(3,7) Some by (auto simp: kfree_def)
      then show ?thesis unfolding Some option.case None .
    next
      case f: (Some bs2)
      let ?t = "adr (fit_at start 96 bs1)" let ?d = "new_tcb func nm param prio stack sz (fst (os_port_stack_init func param stack sz (mem32 s)))"
      obtain s' s1 i where c: "kmalloc e sizeof_tcb ?s = Some (?t, s1)" "finish_create func nm param prio stack sz ?t s1 = Some s'" "created ?t ?d ?s A V s'"
        "heap_ok start (heap s') bs2" "96 \<le> i" "set (live start bs2) = insert (fit_at start 96 bs1, i) (set (live start bs1))" "tcbs_live start bs2 (V(?t \<mapsto> ?d))"
        using create_with_stack [OF k(1) r(2) k(2-4) a(2) f refl, of ?d func nm param stack sz e] by auto
      have cr: "created ?t ?d s A V s'" "?t \<noteq> NULL" using c(3) by (simp_all add: created_def crit_same_def)
      have "os_task_create e func nm param prio buf sz wants s = Some (OS_OK, if wants then ?t else NULL, s')"
        using body [OF st(1,2)] c(1,2) cr(2) by simp
      then show ?thesis unfolding Some option.case f using stack_def cr(1) c(4-7) st(5)
        by (intro exI [of _ s'] exI [of _ stack] exI [of _ ?t] exI [of _ ?d] exI [of _ j] exI [of _ i]) simp
    qed
  qed
qed

theorem os_task_create_correct_witness:
  "\<exists>s' d t. os_task_create demo_env 0x8000100 (Some ''worker'') 0 3 NULL 512 True blank = Some (OS_OK, t, s') \<and> t = 0x20000218
     \<and> created t d blank (\<lambda>_. []) Map.empty s' \<and> tcb_name d = ''worker'' \<and> stack_base d = 0x2000000C \<and> stack_size d = 512"
proof -
  have h: "heap_ok 0x20000000 (heap blank) [(10228, False)]" "malloc_failed_hook (heap blank) = NULL" "tcbs_live 0x20000000 [(10228, False)] Map.empty"
    using boot_heap_ok heap_tasks_boot by (simp_all add: blank_sel tcbs_live_def heap_tasks_def)
  have n: "tcb_name (new_tcb f (Some ''worker'') pa pr st z sp) = ''worker''" "stack_base (new_tcb f nm pa pr st z sp) = st"
    "stack_size (new_tcb f nm pa pr st z sp) = z" for f nm pa pr st z sp
    by (simp_all add: new_tcb_def strncpy_name_def)
  have a: "task_count blank < 16" "(0x8000100 :: ptr) \<noteq> NULL" "(3 :: u32) < 8" "(128 :: u32) \<le> 512" "unat (512 :: u32) + 8 \<le> 2 ^ 32"
    "512 = (unat (512 :: u32) + 7) div 8 * 8" by (simp_all add: blank_sel)
  have f: "fit_in 512 [(10228, False)] = Some [(512, True), (9704, False)]" "fit_in 96 [(512, True), (9704, False)] = Some [(512, True), (96, True), (9596, False)]"
    "adr (fit_at 0x20000000 512 [(10228, False)]) = 0x2000000C" "adr (fit_at 0x20000000 96 [(512, True), (9704, False)]) = 0x20000218"
    by (simp_all add: fits_def carve_def adr_def)
  show ?thesis
    using os_task_create_correct [OF blank_rep states_ok_empty h a(2,3,1,4,5,6), where buf = NULL and e = demo_env and nm = "Some ''worker''" and param = 0 and wants = True]
    unfolding if_P [OF refl] f option.case by (elim exE conjE) (force simp: n)
qed

end
