(* ===== verification/Timer_Tick.thy ===== *)
theory Timer_Tick
  imports Timer
begin

text \<open>
  The tick of the software timers and the service that runs their callbacks, \<open>kernel/timer.c\<close>:
  one-shot timers expire at their time and in order, an auto-reload timer that is alone and served in time
  is periodic, and one that is not served in time makes the tick loop for ever.
\<close>

section \<open>One-shot timers\<close>

definition one_shot :: "(ptr \<Rightarrow> os_timer) \<Rightarrow> ptr list \<Rightarrow> bool" where
  "one_shot ts xs \<longleftrightarrow> (\<forall>x \<in> set xs. tm_type (ts x) = OS_TIMER_ONE_SHOT)"

text \<open>What a run of the expiry loop does to the timers \<open>zs\<close> that are due.\<close>

definition expired :: "ptr list \<Rightarrow> ptr list \<Rightarrow> os \<Rightarrow> ptr list \<Rightarrow> os \<Rightarrow> bool" where
  "expired zs ys s es s' \<longleftrightarrow> tseg (timers s') (active_timer_list s') ys NULL \<and> tseg (timers s') (expired_list s') (rev zs @ es) NULL
     \<and> (\<forall>x. tm_active (timers s' x) = (x \<notin> set zs \<and> tm_active (timers s x)) \<and> tm_remaining (timers s' x) = tm_remaining (timers s x)
            \<and> tm_period (timers s' x) = tm_period (timers s x) \<and> tm_callback (timers s' x) = tm_callback (timers s x)
            \<and> tm_type (timers s' x) = tm_type (timers s x))
     \<and> s' = s\<lparr>timers := timers s', active_timer_list := active_timer_list s', expired_list := expired_list s'\<rparr>"

lemma tseg_upd [simp]: "x \<notin> set xs \<Longrightarrow> tseg (ts(x := v)) p xs q = tseg ts p xs q"
  by (rule tseg_cong) auto

lemma expired_none: "tseg (timers s) (active_timer_list s) ys NULL \<Longrightarrow> tseg (timers s) (expired_list s) es NULL \<Longrightarrow> expired [] ys s es s"
  by (simp add: expired_def)

lemma expire_first_one_shot:
  assumes "active_timer_list s = x" "tm_type (timers s x) = OS_TIMER_ONE_SHOT"
  shows "expire_first s = Some (s\<lparr>timers := (timers s)(x := (timers s x)\<lparr>tm_active := False, tm_next := expired_list s\<rparr>),
     active_timer_list := tm_next (timers s x), expired_list := x\<rparr>)"
  using assms by (simp add: expire_first_def upd_tm_def Let_def)

lemma expire_loop_one_shot:
  assumes "tseg (timers s) (active_timer_list s) xs NULL" "tseg (timers s) (expired_list s) es NULL" "distinct (xs @ es)" "one_shot (timers s) xs"
  shows "\<exists>s'. expire_loop b s = Some (b \<or> takeWhile (\<lambda>x. tm_remaining (timers s x) = 0) xs \<noteq> [], s')
     \<and> expired (takeWhile (\<lambda>x. tm_remaining (timers s x) = 0) xs) (dropWhile (\<lambda>x. tm_remaining (timers s x) = 0) xs) s es s'"
  using assms
proof (induction xs arbitrary: s es b)
  case Nil
  then show ?case by (subst expire_loop.simps) (simp add: expired_none)
next
  case (Cons x xs)
  have x: "active_timer_list s = x" "x \<noteq> NULL" "tseg (timers s) (tm_next (timers s x)) xs NULL" using Cons.prems(1) by simp_all
  show ?case
  proof (cases "tm_remaining (timers s x) = 0")
    case False
    then show ?thesis using x Cons.prems(1,2) by (subst expire_loop.simps) (simp add: expired_none)
  next
    case True
    let ?s = "s\<lparr>timers := (timers s)(x := (timers s x)\<lparr>tm_active := False, tm_next := expired_list s\<rparr>),
       active_timer_list := tm_next (timers s x), expired_list := x\<rparr>"
    have "tm_type (timers s x) = OS_TIMER_ONE_SHOT" using Cons.prems(4) by (simp add: one_shot_def)
    then have step: "expire_loop b s = expire_loop True ?s"
      using expire_first_one_shot [OF x(1)] True x(1,2) by (subst expire_loop.simps) simp
    have xn: "x \<notin> set xs" "x \<notin> set es" using Cons.prems(3) by auto
    have t: "tseg (timers ?s) (active_timer_list ?s) xs NULL" "tseg (timers ?s) (expired_list ?s) (x # es) NULL"
      using x(2,3) Cons.prems(2) xn by simp_all
    have rr: "tm_remaining (timers ?s y) = tm_remaining (timers s y)" for y by simp
    have r: "takeWhile (\<lambda>y. tm_remaining (timers ?s y) = 0) xs = takeWhile (\<lambda>y. tm_remaining (timers s y) = 0) xs"
      "dropWhile (\<lambda>y. tm_remaining (timers ?s y) = 0) xs = dropWhile (\<lambda>y. tm_remaining (timers s y) = 0) xs"
      by (simp_all only: rr)
    have d: "distinct (xs @ x # es)" "one_shot (timers ?s) xs" using Cons.prems(3,4) by (auto simp: one_shot_def)
    obtain s' where s': "expire_loop True ?s = Some (True, s')"
      "expired (takeWhile (\<lambda>y. tm_remaining (timers s y) = 0) xs) (dropWhile (\<lambda>y. tm_remaining (timers s y) = 0) xs) ?s (x # es) s'"
      using Cons.IH [OF t d, of True] unfolding r by auto
    let ?zs = "takeWhile (\<lambda>y. tm_remaining (timers s y) = 0) xs"
    have "expired (x # ?zs) (dropWhile (\<lambda>y. tm_remaining (timers s y) = 0) xs) s es s'"
      using s'(2) unfolding expired_def by (intro conjI allI) (simp_all split: if_splits)
    then show ?thesis using step s'(1) True by auto
  qed
qed

subsection \<open>Expiry times\<close>

lemma expiry_ge: "p \<in> set (expiry ts a xs) \<Longrightarrow> a \<le> snd p"
  by (induction xs arbitrary: a) (auto simp: Let_def dest: add_leD1)

lemma expiry_due:
  "map fst (filter (\<lambda>p. snd p = 0) (expiry ts 0 xs)) = takeWhile (\<lambda>x. tm_remaining (ts x) = 0) xs"
  "filter (\<lambda>p. snd p \<noteq> 0) (expiry ts 0 xs) = expiry ts 0 (dropWhile (\<lambda>x. tm_remaining (ts x) = 0) xs)"
proof (induction xs)
  case (Cons x xs)
  have pos: "snd p \<noteq> 0" if "p \<in> set (expiry ts (unat (tm_remaining (ts x))) xs)" "tm_remaining (ts x) \<noteq> 0" for p
    using expiry_ge [OF that(1)] that(2) by (simp add: unat_gt_0 [symmetric] word_neq_0_conv [symmetric])
  {
    case 1
    then show ?case using Cons(1) pos by (cases "tm_remaining (ts x) = 0") (auto simp: Let_def unat_eq_0 filter_empty_conv)
  next
    case 2
    then show ?case using Cons(2) pos by (cases "tm_remaining (ts x) = 0") (auto simp: Let_def unat_eq_0 filter_id_conv)
  }
qed simp_all

text \<open>The tick decrements the first timer, which counts every timer down.\<close>

lemma expiry_countdown:
  assumes "distinct (x # xs)" "0 < tm_remaining (ts x)"
  shows "expiry ts 0 (x # xs) = map (\<lambda>(y, t). (y, t + 1)) (expiry (ts(x := (ts x)\<lparr>tm_remaining := tm_remaining (ts x) - 1\<rparr>)) 0 (x # xs))"
proof -
  let ?ts = "ts(x := (ts x)\<lparr>tm_remaining := tm_remaining (ts x) - 1\<rparr>)"
  have "unat (tm_remaining (ts x)) = unat (tm_remaining (ts x) - 1) + 1" using assms(2) by (simp add: unat_minus_one_u32 unat_gt_0)
  moreover have "expiry ?ts a xs = expiry ts a xs" for a using assms(1) by (intro expiry_cong) auto
  ultimately show ?thesis using expiry_shift [of 1 ts _ xs] by (simp add: Let_def)
qed

lemma timer_tick_run:
  assumes ok: "timers_ok s xs" and o: "one_shot (timers s) xs" and es: "tseg (timers s) (expired_list s) es NULL" "distinct (xs @ es)"
    and p: "xs \<noteq> [] \<longrightarrow> 0 < tm_remaining (timers s (hd xs))"
    and zs: "zs = map fst (filter (\<lambda>p. snd p = 1) (expiry (timers s) 0 xs))"
    and rs: "rs = map fst (filter (\<lambda>p. snd p \<noteq> 1) (expiry (timers s) 0 xs))"
  shows "\<exists>s1. os_timer_tick e s = (if zs = [] then Some s1 else map_option snd (os_sem_give e (timer_sem e) s1))
     \<and> timers_ok s1 rs \<and> expiry (timers s1) 0 rs = map (\<lambda>(x, t). (x, t - 1)) (filter (\<lambda>p. snd p \<noteq> 1) (expiry (timers s) 0 xs))
     \<and> tseg (timers s1) (expired_list s1) (rev zs @ es) NULL
     \<and> (\<forall>x. tm_active (timers s1 x) = (x \<notin> set zs \<and> tm_active (timers s x)))
     \<and> (rs \<noteq> [] \<longrightarrow> 0 < tm_remaining (timers s1 (hd rs)))
     \<and> s1 = s\<lparr>timers := timers s1, active_timer_list := active_timer_list s1, expired_list := expired_list s1\<rparr>"
proof (cases xs)
  case Nil
  then have "active_timer_list s = NULL" using ok by (simp add: timers_ok_def)
  then show ?thesis using Nil ok es by (intro exI [of _ s]) (simp add: os_timer_tick_def zs rs)
next
  case (Cons x ys)
  let ?ts = "(timers s)(x := (timers s x)\<lparr>tm_remaining := tm_remaining (timers s x) - 1\<rparr>)"
  let ?s = "s\<lparr>timers := ?ts\<rparr>"
  let ?z = "takeWhile (\<lambda>y. tm_remaining (?ts y) = 0) xs" let ?r = "dropWhile (\<lambda>y. tm_remaining (?ts y) = 0) xs"
  have a: "active_timer_list s = x" "x \<noteq> NULL" "distinct (x # ys)" "0 < tm_remaining (timers s x)"
    using ok p Cons by (simp_all add: timers_ok_def)
  have eq: "filter (\<lambda>p. snd p = 1) (expiry (timers s) 0 xs) = map (\<lambda>(y, t). (y, t + 1)) (filter (\<lambda>p. snd p = 0) (expiry ?ts 0 xs))"
    "filter (\<lambda>p. snd p \<noteq> 1) (expiry (timers s) 0 xs) = map (\<lambda>(y, t). (y, t + 1)) (filter (\<lambda>p. snd p \<noteq> 0) (expiry ?ts 0 xs))"
    unfolding Cons expiry_countdown [where ts = "timers s", OF a(3,4)] by (simp_all add: filter_map o_def split_def)
  have fs: "fst \<circ> (\<lambda>(y, t). (y, t + 1 :: nat)) = fst" by (auto simp: fun_eq_iff)
  have dr: "zs = ?z" "rs = ?r"
    unfolding zs rs eq map_map fs using expiry_due [of ?ts xs] expiry_fst [of ?ts 0 ?r] by simp_all
  have t: "tseg (timers ?s) (active_timer_list ?s) xs NULL" "tseg (timers ?s) (expired_list ?s) es NULL" "one_shot (timers ?s) xs"
    using ok es(1) o tseg_cong [of xs "timers ?s" "timers s"] tseg_cong [of es "timers ?s" "timers s"] by (auto simp: timers_ok_def one_shot_def)
  obtain s1 where l: "expire_loop False ?s = Some (zs \<noteq> [], s1)" "expired zs rs ?s es s1"
    using expire_loop_one_shot [OF t(1,2) es(2) t(3), of False] unfolding dr by auto
  have rem: "tm_remaining (timers s1 y) = tm_remaining (?ts y)" for y using l(2) by (simp add: expired_def)
  have "os_timer_tick e s = (if zs = [] then Some s1 else map_option snd (os_sem_give e (timer_sem e) s1))"
    using a(1,2) l(1) by (simp add: os_timer_tick_def upd_tm_def split_def map_option_case bind_eq_Some_conv split: option.splits)
  moreover have "expiry (timers s1) 0 rs = map (\<lambda>(x, t). (x, t - 1)) (filter (\<lambda>p. snd p \<noteq> 1) (expiry (timers s) 0 xs))"
    unfolding eq(2) using expiry_due(2) [of ?ts xs] expiry_cong [of rs "timers s1" ?ts 0] rem by (simp add: dr(2) split_def o_def)
  moreover have "ticks_of (timers s1) rs \<le> ticks_of (timers s) xs"
  proof -
    have "ticks_of (timers s1) rs = ticks_of ?ts ?r" by (simp add: ticks_of_def rem dr(2))
    also have "\<dots> \<le> ticks_of ?ts (?z @ ?r)" by (simp only: ticks_of_def map_append sum_list_append)
    also have "\<dots> \<le> ticks_of (timers s) xs" unfolding takeWhile_dropWhile_id ticks_of_def
      using a(4) by (intro sum_list_mono) (auto simp: unat_minus_one_u32 word_neq_0_conv)
    finally show ?thesis .
  qed
  moreover have "distinct rs" using ok by (simp add: dr(2) timers_ok_def)
  moreover have "0 < tm_remaining (timers s1 (hd rs))" if "rs \<noteq> []"
    using that hd_dropWhile [of "\<lambda>y. tm_remaining (?ts y) = 0" xs] by (simp add: rem dr(2) word_neq_0_conv)
  ultimately show ?thesis using l(2) ok by (intro exI [of _ s1]) (auto simp: expired_def timers_ok_def)
qed

section \<open>Auto-reload timers\<close>

lemma expire_first_auto_alone:
  assumes "active_timer_list s = t" "tm_next (timers s t) = NULL" "tm_type (timers s t) = OS_TIMER_AUTO_RELOAD"
  shows "expire_first s = Some (s\<lparr>timers := (timers s)(t := (timers s t)\<lparr>tm_remaining := tm_period (timers s t), tm_next := expired_list s\<rparr>),
     active_timer_list := t, expired_list := t\<rparr>)"
  using assms by (simp add: expire_first_def prv_timer_insert_sorted_def timer_pos.simps upd_tm_def Let_def)

text \<open>A timer whose successor is itself is re-inserted behind itself, with no time left.\<close>

lemma expire_first_self_loop:
  assumes "active_timer_list s = t" "t \<noteq> NULL" "tm_next (timers s t) = t" "tm_type (timers s t) = OS_TIMER_AUTO_RELOAD"
    "expired_list s = t" "tm_remaining (timers s t) = 0"
  shows "expire_first s = Some s"
proof -
  let ?s = "upd_tm t (\<lambda>x. x\<lparr>tm_next := NULL\<rparr>) (upd_tm t (\<lambda>x. x\<lparr>tm_remaining := tm_period x, tm_next := NULL\<rparr>) (s\<lparr>active_timer_list := t\<rparr>))"
  have "timer_pos (timers ?s) t NULL t = Some (t, NULL)"
    using assms(2) by (subst timer_pos.simps, subst timer_pos.simps) (simp add: upd_tm_def)
  moreover have "(timers s t)\<lparr>tm_remaining := 0, tm_next := t\<rparr> = timers s t" using assms(3,6) by (cases "timers s t") simp
  then have "s\<lparr>active_timer_list := t, timers := (timers s)(t := (timers s t)\<lparr>tm_remaining := 0, tm_next := t\<rparr>), expired_list := t\<rparr> = s"
    using assms(1,5) by (cases s) (simp add: fun_upd_idem)
  ultimately show ?thesis
    using assms by (simp add: expire_first_def prv_timer_insert_sorted_def upd_tm_def Let_def)
qed

lemma expire_loop_hangs:
  assumes "active_timer_list s = t" "t \<noteq> NULL" "tm_next (timers s t) = t" "tm_type (timers s t) = OS_TIMER_AUTO_RELOAD"
    "expired_list s = t" "tm_remaining (timers s t) = 0"
  shows "expire_loop b s = None"
proof -
  have "s' \<noteq> s" if "expire_loop b s' = Some r" for b s' r
  proof (rule expire_loop.raw_induct [OF _ that, of "\<lambda>b s' r. s' \<noteq> s"])
    fix loop b s' r
    assume h: "\<And>b s' r. loop b s' = Some r \<Longrightarrow> s' \<noteq> s"
      "(if active_timer_list s' \<noteq> NULL \<and> tm_remaining (timers s' (active_timer_list s')) = 0
        then do { s \<leftarrow> expire_first s'; loop True s } else Some (b, s')) = Some r"
    then have "s' = s \<Longrightarrow> loop True s = Some r" using expire_first_self_loop [OF assms] assms by simp
    then show "s' \<noteq> s" using h(1) by blast
  qed
  then show ?thesis by (cases "expire_loop b s") auto
qed

text \<open>The state in which the only active timer has been put on the list of expired timers.\<close>

definition fired :: "ptr \<Rightarrow> os \<Rightarrow> os" where
  "fired t s = s\<lparr>timers := (timers s)(t := (timers s t)\<lparr>tm_remaining := tm_period (timers s t), tm_next := expired_list s\<rparr>), expired_list := t\<rparr>"

lemma auto_reload_tick:
  assumes t: "active_timer_list s = t" "t \<noteq> NULL" "tm_next (timers s t) = NULL" "tm_type (timers s t) = OS_TIMER_AUTO_RELOAD"
    and p: "tm_period (timers s t) \<noteq> 0" "tm_remaining (timers s t) \<noteq> 0"
  shows "os_timer_tick e s =
     (if tm_remaining (timers s t) = 1 then map_option snd (os_sem_give e (timer_sem e) (fired t s))
      else Some (upd_tm t (\<lambda>x. x\<lparr>tm_remaining := tm_remaining x - 1\<rparr>) s))"
proof -
  let ?s = "upd_tm t (\<lambda>x. x\<lparr>tm_remaining := tm_remaining x - 1\<rparr>) s"
  have a: "active_timer_list ?s = t" "tm_next (timers ?s t) = NULL" "tm_type (timers ?s t) = OS_TIMER_AUTO_RELOAD"
    using t by (simp_all add: upd_tm_def)
  show ?thesis
  proof (cases "tm_remaining (timers s t) = 1")
    case False
    then have "expire_loop False ?s = Some (False, ?s)" using t(1) by (subst expire_loop.simps) (simp add: upd_tm_def)
    then show ?thesis using t(1,2) False by (simp add: os_timer_tick_def)
  next
    case True
    have f: "expire_first ?s = Some (fired t s)"
      using expire_first_auto_alone [OF a] t(1) by (simp add: fired_def upd_tm_def)
    have "expire_loop True (fired t s) = Some (True, fired t s)"
      using t(1) p(1) by (subst expire_loop.simps) (simp add: fired_def)
    then have "expire_loop False ?s = Some (True, fired t s)"
      using f t(1,2) True by (subst expire_loop.simps) (simp add: upd_tm_def)
    then show ?thesis using t(1,2) True by (simp add: os_timer_tick_def split_def map_option_case bind_eq_Some_conv split: option.splits)
  qed
qed

section \<open>Properties\<close>

text \<open>
  C19. The tick of one-shot timers. \<open>os_timer_tick\<close> returns; exactly the timers whose time is one tick
  away become inactive and are put on the list of expired timers, and the service task is signalled if and
  only if there is one; every other timer stays in the list in its place and is one tick nearer
  to its expiry. The expiry loop ends, and the first timer of the list has time left, so that the next
  tick counts down as well.
\<close>

theorem os_timer_tick_one_shot:
  assumes "timers_ok s xs" "one_shot (timers s) xs" "tseg (timers s) (expired_list s) es NULL" "distinct (xs @ es)"
    "xs \<noteq> [] \<longrightarrow> 0 < tm_remaining (timers s (hd xs))"
    "zs = map fst (filter (\<lambda>p. snd p = 1) (expiry (timers s) 0 xs))" "rs = map fst (filter (\<lambda>p. snd p \<noteq> 1) (expiry (timers s) 0 xs))"
  shows "\<exists>s1. os_timer_tick e s = (if zs = [] then Some s1 else map_option snd (os_sem_give e (timer_sem e) s1))
     \<and> timers_ok s1 rs \<and> expiry (timers s1) 0 rs = map (\<lambda>(x, t). (x, t - 1)) (filter (\<lambda>p. snd p \<noteq> 1) (expiry (timers s) 0 xs))
     \<and> tseg (timers s1) (expired_list s1) (rev zs @ es) NULL
     \<and> (\<forall>x. tm_active (timers s1 x) = (x \<notin> set zs \<and> tm_active (timers s x)))
     \<and> (rs \<noteq> [] \<longrightarrow> 0 < tm_remaining (timers s1 (hd rs)))
     \<and> s1 = s\<lparr>timers := timers s1, active_timer_list := active_timer_list s1, expired_list := expired_list s1\<rparr>"
  by (rule timer_tick_run [OF assms])

definition demo_due :: os where
  "demo_due = demo\<lparr>active_timer_list := 0x100, timers := (timers demo)
     (0x100 := demo_timer 1 0x200, 0x200 := demo_timer 0 0x300, 0x300 := demo_timer 5 NULL)\<rparr>"

theorem os_timer_tick_one_shot_witness:
  "\<exists>s1. os_timer_tick demo_env demo_due = map_option snd (os_sem_give demo_env 0x20002400 s1)
     \<and> expiry (timers s1) 0 [0x300] = [(0x300, 5)] \<and> tseg (timers s1) (expired_list s1) [0x200, 0x100] NULL"
proof -
  have e: "expiry (timers demo_due) 0 [0x100, 0x200, 0x300] = [(0x100, 1), (0x200, 1), (0x300, 6)]"
    by (simp add: demo_due_def demo_timer_def)
  have a: "timers_ok demo_due [0x100, 0x200, 0x300]" "one_shot (timers demo_due) [0x100, 0x200, 0x300]" "tseg (timers demo_due) (expired_list demo_due) [] NULL"
    "distinct ([0x100, 0x200, 0x300 :: ptr] @ [])" "[0x100, 0x200, 0x300 :: ptr] \<noteq> [] \<longrightarrow> 0 < tm_remaining (timers demo_due (hd [0x100, 0x200, 0x300]))"
    by (simp_all add: timers_ok_def demo_due_def demo_timer_def ticks_of_def one_shot_def) (simp add: demo_def)
  have "timer_sem demo_env = 0x20002400" by (simp add: demo_env_def)
  then show ?thesis using os_timer_tick_one_shot [OF a refl refl, of demo_env] unfolding e by auto
qed

text \<open>
  An auto-reload timer that is the only active timer and is served in time is periodic. Each tick counts
  it down; the tick at which its time ends puts it on the list of expired timers, reloads its full period
  and signals the service task; the service then runs its callback exactly once and leaves the timer as
  the tick left it, so that the next expiry is one period later.
\<close>

theorem auto_reload_served:
  assumes t: "active_timer_list s = t" "t \<noteq> NULL" "tm_next (timers s t) = NULL" "tm_type (timers s t) = OS_TIMER_AUTO_RELOAD"
    and p: "tm_period (timers s t) \<noteq> 0" "tm_remaining (timers s t) \<noteq> 0" and x: "expired_list s = NULL" "tm_callback (timers s t) \<noteq> NULL"
  shows "if tm_remaining (timers s t) \<noteq> 1 then os_timer_tick e s = Some (upd_tm t (\<lambda>x. x\<lparr>tm_remaining := tm_remaining x - 1\<rparr>) s)
     else \<exists>s1. os_timer_tick e s = map_option snd (os_sem_give e (timer_sem e) s1)
       \<and> s1 = s\<lparr>timers := (timers s)(t := (timers s t)\<lparr>tm_remaining := tm_period (timers s t)\<rparr>), expired_list := t\<rparr>
       \<and> (\<forall>s2. timers s2 t = timers s1 t \<longrightarrow> run_expired e t s2 = call_timer e (tm_callback (timers s t)) t s2)"
proof (cases "tm_remaining (timers s t) = 1")
  case False
  then show ?thesis using auto_reload_tick [OF t p] by simp
next
  case True
  let ?s1 = "s\<lparr>timers := (timers s)(t := (timers s t)\<lparr>tm_remaining := tm_period (timers s t)\<rparr>), expired_list := t\<rparr>"
  have "fired t s = ?s1" using t(3) x(1) by (cases "timers s t") (simp add: fired_def)
  moreover have "run_expired e t s2 = call_timer e (tm_callback (timers s t)) t s2" if s2: "timers s2 t = timers ?s1 t" for s2
  proof -
    have n: "tm_next (timers s2 t) = NULL" "tm_callback (timers s2 t) = tm_callback (timers s t)" using s2 t(3) by simp_all
    then have "upd_tm t (\<lambda>x. x\<lparr>tm_next := NULL\<rparr>) s2 = s2" by (cases "timers s2 t"; cases s2) (simp add: upd_tm_def fun_upd_idem)
    moreover have "run_expired e NULL = Some" by (rule ext) (simp add: run_expired.simps)
    ultimately show ?thesis using n t(2) x(2) by (subst run_expired.simps) simp
  qed
  ultimately show ?thesis using auto_reload_tick [OF t p, of e] True by auto
qed

definition demo_beat :: "u32 \<Rightarrow> ptr \<Rightarrow> os" where
  "demo_beat r x = demo\<lparr>active_timer_list := 0x100, expired_list := x,
     timers := (timers demo)(0x100 := (demo_timer r NULL)\<lparr>tm_type := OS_TIMER_AUTO_RELOAD\<rparr>)\<rparr>"

lemma demo_beat_sel:
  "active_timer_list (demo_beat r x) = 0x100" "expired_list (demo_beat r x) = x" "tm_next (timers (demo_beat r x) 0x100) = NULL"
  "tm_type (timers (demo_beat r x) 0x100) = OS_TIMER_AUTO_RELOAD" "tm_period (timers (demo_beat r x) 0x100) = 30"
  "tm_remaining (timers (demo_beat r x) 0x100) = r" "tm_callback (timers (demo_beat r x) 0x100) = 0x8000800"
  by (simp_all add: demo_beat_def demo_timer_def)

theorem auto_reload_served_witness:
  "\<exists>s1. os_timer_tick demo_env (demo_beat 1 NULL) = map_option snd (os_sem_give demo_env 0x20002400 s1)
     \<and> tm_remaining (timers s1 0x100) = 30 \<and> run_expired demo_env 0x100 s1 = Some s1"
proof -
  have a: "(0x100 :: ptr) \<noteq> NULL" "tm_period (timers (demo_beat 1 NULL) 0x100) \<noteq> 0" "tm_remaining (timers (demo_beat 1 NULL) 0x100) \<noteq> 0"
    "tm_callback (timers (demo_beat 1 NULL) 0x100) \<noteq> NULL" by (simp_all add: demo_beat_sel)
  have "timer_sem demo_env = 0x20002400" "call_timer demo_env f t s = Some s" for f t s by (simp_all add: demo_env_def)
  then show ?thesis
    using auto_reload_served [OF demo_beat_sel(1) a(1) demo_beat_sel(3,4) a(2,3) demo_beat_sel(2) a(4), of demo_env] by (auto simp: demo_beat_sel)
qed

text \<open>
  C20. An auto-reload timer that is not served in time hangs the tick. When its second expiry finds it still
  on the list of expired timers, the tick makes it its own successor; when a third expiry follows before
  the service task has run, the expiry loop re-inserts it with no time left for ever: the tick handler
  does not return.
\<close>

theorem auto_reload_starved:
  assumes t: "active_timer_list s = t" "t \<noteq> NULL" "tm_next (timers s t) = NULL" "tm_type (timers s t) = OS_TIMER_AUTO_RELOAD"
    and p: "tm_period (timers s t) \<noteq> 0" "tm_remaining (timers s t) = 1" and x: "expired_list s = t"
  shows "\<exists>s1. os_timer_tick e s = map_option snd (os_sem_give e (timer_sem e) s1) \<and> tm_next (timers s1 t) = t \<and> active_timer_list s1 = t
     \<and> (\<forall>s2. timers s2 t = (timers s1 t)\<lparr>tm_remaining := 1\<rparr> \<and> active_timer_list s2 = t \<and> expired_list s2 = t \<longrightarrow> os_timer_tick e s2 = None)"
proof -
  have "os_timer_tick e s2 = None" if s2: "timers s2 t = (timers (fired t s) t)\<lparr>tm_remaining := 1\<rparr>" "active_timer_list s2 = t" "expired_list s2 = t" for s2
  proof -
    let ?s = "upd_tm t (\<lambda>x. x\<lparr>tm_remaining := tm_remaining x - 1\<rparr>) s2"
    have "expire_loop False ?s = None"
      by (rule expire_loop_hangs [of _ t]) (use s2 t x in \<open>simp_all add: upd_tm_def fired_def\<close>)
    then show ?thesis using s2(2) t(2) by (simp add: os_timer_tick_def)
  qed
  then show ?thesis using auto_reload_tick [OF t p(1), of e] p(2) t(1) x by (intro exI [of _ "fired t s"]) (simp add: fired_def)
qed

theorem auto_reload_starved_witness:
  "\<exists>s1. os_timer_tick demo_env (demo_beat 1 0x100) = map_option snd (os_sem_give demo_env 0x20002400 s1)
     \<and> os_timer_tick demo_env (upd_tm 0x100 (\<lambda>x. x\<lparr>tm_remaining := 1\<rparr>) (s1\<lparr>expired_list := 0x100\<rparr>)) = None"
proof -
  have a: "(0x100 :: ptr) \<noteq> NULL" "tm_period (timers (demo_beat 1 0x100) 0x100) \<noteq> 0" by (simp_all add: demo_beat_sel)
  obtain s1 where s1: "os_timer_tick demo_env (demo_beat 1 0x100) = map_option snd (os_sem_give demo_env (timer_sem demo_env) s1)" "active_timer_list s1 = 0x100"
    "\<forall>s2. timers s2 0x100 = (timers s1 0x100)\<lparr>tm_remaining := 1\<rparr> \<and> active_timer_list s2 = 0x100 \<and> expired_list s2 = 0x100 \<longrightarrow> os_timer_tick demo_env s2 = None"
    using auto_reload_starved [OF demo_beat_sel(1) a(1) demo_beat_sel(3,4) a(2) demo_beat_sel(6,2), of demo_env] by blast
  have "timer_sem demo_env = 0x20002400" by (simp add: demo_env_def)
  moreover have "os_timer_tick demo_env (upd_tm 0x100 (\<lambda>x. x\<lparr>tm_remaining := 1\<rparr>) (s1\<lparr>expired_list := 0x100\<rparr>)) = None"
    by (rule s1(3) [rule_format]) (simp add: upd_tm_def s1(2))
  ultimately show ?thesis using s1(1) by auto
qed

text \<open>
  With another timer behind it and a period shorter than the time of that timer, an auto-reload timer is
  re-inserted in front of it, and linking it into the list of expired timers cuts the active list: the
  other timer stays active but is no longer in the list, and never expires.
\<close>

lemma auto_reload_cuts_list:
  assumes t: "active_timer_list s = t" "t \<noteq> NULL" "tm_next (timers s t) = y" "y \<noteq> NULL" "y \<noteq> t" "tm_type (timers s t) = OS_TIMER_AUTO_RELOAD"
    and p: "tm_remaining (timers s t) = 1" "tm_period (timers s t) \<noteq> 0" "tm_period (timers s t) < tm_remaining (timers s y)" and x: "expired_list s = NULL"
  shows "\<exists>s1. os_timer_tick e s = map_option snd (os_sem_give e (timer_sem e) s1) \<and> tseg (timers s1) (active_timer_list s1) [t] NULL
     \<and> tm_active (timers s1 y) = tm_active (timers s y)"
proof -
  let ?s = "upd_tm t (\<lambda>x. x\<lparr>tm_remaining := tm_remaining x - 1\<rparr>) s"
  let ?p = "tm_period (timers s t)"
  let ?s1 = "s\<lparr>timers := (timers s)(y := (timers s y)\<lparr>tm_remaining := tm_remaining (timers s y) - ?p\<rparr>,
     t := (timers s t)\<lparr>tm_remaining := ?p, tm_next := NULL\<rparr>), expired_list := t\<rparr>"
  have f: "expire_first ?s = Some ?s1"
    using t p x by (simp add: expire_first_def prv_timer_insert_sorted_def timer_pos.simps upd_tm_def Let_def fun_upd_twist)
  have "expire_loop True ?s1 = Some (True, ?s1)" using t(1,5) p(2) by (subst expire_loop.simps) simp
  then have "expire_loop False ?s = Some (True, ?s1)" using f t(1,2) p(1) by (subst expire_loop.simps) (simp add: upd_tm_def)
  then have "os_timer_tick e s = map_option snd (os_sem_give e (timer_sem e) ?s1)"
    using t(1,2) by (simp add: os_timer_tick_def split_def map_option_case bind_eq_Some_conv split: option.splits)
  then show ?thesis using t by (intro exI [of _ ?s1]) simp
qed

end
