(* ===== verification/Context_Switch.thy ===== *)
theory Context_Switch
  imports Kernel
begin

unbundle bit_operations_syntax

text \<open>
  The context switch of \<open>port/port.c\<close> (Cortex-M3): the software half of the PendSV handler,
  which saves R4 to R11 on the outgoing task's stack, asks the scheduler for the next task and
  restores R4 to R11 from that task's stack, and the jump into the first task. The frame that the
  exception hardware stacks itself is untouched by the handler; it holds R0 to R3 and R12, which the
  handler and the scheduler it calls use as scratch registers and the exception return reloads.
\<close>

record cpu =
  reg :: "nat \<Rightarrow> u32"
  psp :: ptr
  lr :: u32
  pc :: u32
  control :: u32

definition store_words :: "ptr \<Rightarrow> u32 list \<Rightarrow> (ptr \<Rightarrow> u32) \<Rightarrow> ptr \<Rightarrow> u32" where
  "store_words p vs m = fold (\<lambda>(i, v) m. m(word_at p i := v)) (zip [0..<length vs] vs) m"

definition load_words :: "ptr \<Rightarrow> nat \<Rightarrow> (ptr \<Rightarrow> u32) \<Rightarrow> u32 list" where
  "load_words p n m = map (\<lambda>i. m (word_at p i)) [0..<n]"

definition set_regs :: "nat \<Rightarrow> u32 list \<Rightarrow> (nat \<Rightarrow> u32) \<Rightarrow> nat \<Rightarrow> u32" where
  "set_regs k vs r i = (if k \<le> i \<and> i < k + length vs then vs ! (i - k) else r i)"

text \<open>
  What the handlers take from outside the sources: the address the linker gives the variable
  \<open>current_task_ptr\<close>, and what the compiled \<open>os_sched_select_next\<close> leaves in the registers R0 to R3 and
  R12, which the procedure call standard lets a function overwrite; it preserves R4 to R11. The handler itself uses R0
  for the stack pointer, R1 for the address of the variable and R2 for the task.
\<close>

record asm =
  at_current_task_ptr :: ptr
  scratch :: "nat \<Rightarrow> u32"

definition after_call :: "asm \<Rightarrow> (nat \<Rightarrow> u32) \<Rightarrow> nat \<Rightarrow> u32" where
  "after_call w r i = (if i \<in> {0, 1, 2, 3, 12} then scratch w i else r i)"

text \<open>\<open>stmdb r0!, {r4-r11}\<close> and \<open>ldmia r0!, {r4-r11}\<close>: the lowest register at the lowest address.\<close>

definition PendSV_Handler :: "asm \<Rightarrow> cpu \<times> os \<Rightarrow> (cpu \<times> os) option" where
  "PendSV_Handler w cs =
     (let (c, s) = cs in
      do {
        let s = s\<lparr>primask := 1\<rparr>;
        let r0 = psp c - 32;
        let s = s\<lparr>mem32 := store_words r0 (map (reg c) [4..<12]) (mem32 s)\<rparr>;
        let c = c\<lparr>reg := (reg c)(0 := r0, 1 := at_current_task_ptr w, 2 := current_task_ptr s)\<rparr>;
        s \<leftarrow> upd_tcb (current_task_ptr s) (\<lambda>t. t\<lparr>stack_ptr := r0\<rparr>) s;
        s \<leftarrow> os_sched_select_next s;
        let c = c\<lparr>reg := (after_call w (reg c))(1 := at_current_task_ptr w, 2 := current_task_ptr s)\<rparr>;
        t \<leftarrow> get_tcb (current_task_ptr s) s;
        let r0 = stack_ptr t;
        let c = c\<lparr>reg := set_regs 4 (load_words r0 8 (mem32 s)) ((reg c)(0 := r0 + 32)), psp := r0 + 32\<rparr>;
        Some (c, s\<lparr>primask := 0\<rparr>)
      })"

text \<open>
  With CONTROL.SPSEL set the \<open>pop\<close> instructions use PSP. The last word of the initial frame, the
  xPSR, stays on the stack.
\<close>

definition os_port_start_first_task :: "cpu \<times> os \<Rightarrow> (cpu \<times> os) option" where
  "os_port_start_first_task cs =
     (let (c, s) = cs; tcb = os_task_get_current s in
      if tcb = NULL then Some (c, s)
      else do {
        t \<leftarrow> get_tcb tcb s;
        let sp = stack_ptr t;
        let w = (\<lambda>i. mem32 s (word_at sp i));
        let r = set_regs 0 [w 8, w 9, w 10, w 11] (set_regs 4 (load_words sp 8 (mem32 s)) (reg c));
        let r = r(12 := w 12);
        Some (c\<lparr>reg := r, control := 2, lr := w 13, pc := w 14, psp := sp + 60\<rparr>, s)
      })"

section \<open>Saved registers\<close>

text \<open>The words of a save area of \<open>n\<close> words, at most a whole address space of them.\<close>

definition area :: "ptr \<Rightarrow> nat \<Rightarrow> ptr set" where
  "area p n = word_at p ` {0..<n}"

lemma word_at_inj:
  assumes "i < 2 ^ 30" "j < 2 ^ 30" "word_at p i = word_at p j"
  shows "i = j"
proof -
  have *: "unat (word_at p k - p) = 4 * k" if "k < 2 ^ 30" for k
  proof -
    have "word_at p k - p = of_nat (4 * k)" by (simp add: word_at_def)
    then show ?thesis using that by (simp only: unat_of_nat) simp
  qed
  have "4 * i = 4 * j" unfolding * [OF assms(1), symmetric] * [OF assms(2), symmetric] assms(3) ..
  then show ?thesis by simp
qed

lemma store_words_Suc: "store_words p (vs @ [v]) m = (store_words p vs m)(word_at p (length vs) := v)"
  by (simp add: store_words_def)

lemma store_words_other: "a \<notin> area p (length vs) \<Longrightarrow> store_words p vs m a = m a"
proof (induction vs rule: rev_induct)
  case (snoc v vs)
  then show ?case unfolding store_words_Suc by (auto simp: area_def atLeast0_lessThan_Suc)
qed (simp add: store_words_def)

lemma load_words_Suc: "load_words p (Suc n) m = load_words p n m @ [m (word_at p n)]"
  by (simp add: load_words_def)

lemma load_store:
  assumes "length vs \<le> 2 ^ 30"
  shows "load_words p (length vs) (store_words p vs m) = vs"
  using assms
proof (induction vs rule: rev_induct)
  case (snoc v vs)
  have "load_words p (length vs) (store_words p (vs @ [v]) m) = load_words p (length vs) (store_words p vs m)"
  proof -
    have "word_at p i \<noteq> word_at p (length vs)" if "i < length vs" for i
      using word_at_inj [of i "length vs" p] snoc.prems that by fastforce
    then show ?thesis unfolding store_words_Suc load_words_def by simp
  qed
  moreover have "store_words p (vs @ [v]) m (word_at p (length vs)) = v" by (simp add: store_words_Suc)
  ultimately show ?case using snoc by (simp add: load_words_Suc)
qed (simp add: load_words_def)

lemma load_stored: "length vs = n \<Longrightarrow> n \<le> 2 ^ 30 \<Longrightarrow> load_words p n (store_words p vs m) = vs"
  using load_store by blast

lemma load_words_cong: "\<forall>a\<in>area p n. m a = m' a \<Longrightarrow> load_words p n m = load_words p n m'"
  by (simp add: load_words_def area_def)

lemma set_regs_nth: "map (set_regs k vs r) [k..<k + length vs] = vs"
  by (rule nth_equalityI) (auto simp: set_regs_def)

lemma load_words_length [simp]: "length (load_words p n m) = n"
  by (simp add: load_words_def)

text \<open>The scratch registers after a switch to task \<open>t\<close> with the stack pointer \<open>sp\<close>.\<close>

definition scratched :: "asm \<Rightarrow> ptr \<Rightarrow> ptr \<Rightarrow> (nat \<Rightarrow> u32) \<Rightarrow> nat \<Rightarrow> u32" where
  "scratched w t sp r = (after_call w r)(1 := at_current_task_ptr w, 2 := t, 0 := sp)"

lemma after_call_upd [simp]: "after_call w (r(0 := x, Suc 0 := y, 2 := z)) = after_call w r"
  by (auto simp: after_call_def)

lemma set_regs_r0 [simp]: "(set_regs 4 vs r)(0 := x) = set_regs 4 vs (r(0 := x))"
  by (auto simp: set_regs_def)

text \<open>The registers the handler saves.\<close>

definition r4_r11 :: "cpu \<Rightarrow> u32 list" where "r4_r11 c = map (reg c) [4..<12]"

lemma r4_r11_length [simp]: "length (r4_r11 c) = 8"
  by (simp add: r4_r11_def)

lemma r4_r11_restored: "length vs = 8 \<Longrightarrow> r4_r11 (c\<lparr>reg := set_regs 4 vs r, psp := x\<rparr>) = vs"
  using set_regs_nth [of 4 vs r] by (simp add: r4_r11_def)

section \<open>The PendSV handler\<close>

lemma current_ok_upd [simp]:
  "current_ok (s\<lparr>mem32 := m\<rparr>) V = current_ok s V" "current_ok (s\<lparr>primask := x\<rparr>) V = current_ok s V"
  by (simp_all add: current_ok_def)

lemma current_running_not_null:
  assumes "current_ok s V" "map_option tcb_state (V (current_task_ptr s)) = Some OS_TASK_RUNNING"
  shows "current_task_ptr s \<noteq> NULL"
proof -
  obtain e where "V (current_task_ptr s) = Some e" "tcb_state e = OS_TASK_RUNNING" using assms(2) by auto
  then show ?thesis using assms(1) unfolding current_ok_def by blast
qed

lemma switch_frame_mem32: "switch_frame s s' \<Longrightarrow> mem32 s' = mem32 s"
  unfolding switch_frame_def using frame_os(3) by fastforce

text \<open>
  The part every port's handler shares: store the outgoing stack pointer, let the scheduler choose,
  read the incoming stack pointer.
\<close>

lemma exchange_rep:
  assumes r: "rep s A V" and ok: "states_ok A V" and cur: "current_ok s V" and p: "top_level p A"
    and nz: "current_task_ptr s \<noteq> NULL"
  shows "\<exists>s2 s3 V3 t. upd_tcb (current_task_ptr s) (\<lambda>t. t\<lparr>stack_ptr := x\<rparr>) s = Some s2 \<and> os_sched_select_next s2 = Some s3
     \<and> get_tcb (current_task_ptr s3) s3 = Some t \<and> rep s3 (rotated p (current_task_ptr s) A) V3
     \<and> states_ok (rotated p (current_task_ptr s) A) V3 \<and> current_ok s3 V3
     \<and> current_task_ptr s3 = hd (rotated p (current_task_ptr s) A (Ready p)) \<and> mem32 s3 = mem32 s
     \<and> (\<forall>y. map_option stack_ptr (V3 y) = (if y = current_task_ptr s then Some x else map_option stack_ptr (V y)))
     \<and> map_option stack_ptr (V3 (current_task_ptr s3)) = Some (stack_ptr t)"
proof -
  let ?cur = "current_task_ptr s"
  obtain d where d: "V ?cur = Some d" using cur nz by (auto simp: current_ok_def)
  let ?d = "d\<lparr>stack_ptr := x\<rparr>" let ?V = "V(?cur \<mapsto> ?d)"
  obtain s2 where s2: "upd_tcb ?cur (\<lambda>t. t\<lparr>stack_ptr := x\<rparr>) s = Some s2" "rep s2 A ?V" "frame s s2"
    using upd_tcb_rep [OF r nz d, of "\<lambda>t. t\<lparr>stack_ptr := x\<rparr>"] by (auto simp: data_upd_def)
  have c2: "current_task_ptr s2 = ?cur" "mem32 s2 = mem32 s" using frame_os(3,10) [OF s2(3)] by simp_all
  have ok2: "states_ok A ?V" using states_ok_data [OF ok d, of ?d] by (auto simp: runnable_def)
  have cur2: "current_ok s2 ?V" using cur d c2(1) by (auto simp: current_ok_def)
  obtain s3 V3 where s3: "os_sched_select_next s2 = Some s3" "rep s3 (rotated p ?cur A) V3" "states_ok (rotated p ?cur A) V3"
    "current_ok s3 V3" "switch_frame s2 s3" "current_task_ptr s3 = hd (rotated p ?cur A (Ready p))"
    "map_option tcb_state (V3 (current_task_ptr s3)) = Some OS_TASK_RUNNING"
    "\<forall>t. map_option stack_ptr (V3 t) = map_option stack_ptr (?V t)"
    using select_next_rep [OF s2(2) ok2 cur2 p] unfolding c2(1) by (elim exE conjE) (rule that)
  obtain e where e: "V3 (current_task_ptr s3) = Some e" using s3(7) by auto
  obtain t where t: "tcbs s3 (current_task_ptr s3) = Some t" "erase t = e" using rep_Some [OF s3(2) e] by blast
  have "get_tcb (current_task_ptr s3) s3 = Some t" using current_running_not_null [OF s3(4,7)] t(1) by simp
  moreover have "stack_ptr t = stack_ptr e" using t(2) by auto
  moreover have "map_option stack_ptr (V3 y) = (if y = ?cur then Some x else map_option stack_ptr (V y))" for y
    using s3(8) by simp
  ultimately show ?thesis
    using s2(1) s3(1-4,6) e switch_frame_mem32 [OF s3(5)] c2(2)
    by (intro exI [of _ s2] exI [of _ s3] exI [of _ V3] exI [of _ t]) simp
qed

lemma pendsv_rep:
  assumes r: "rep s A V" and ok: "states_ok A V" and cur: "current_ok s V" and p: "top_level p A"
    and nz: "current_task_ptr s \<noteq> NULL"
  shows "\<exists>c' s' V' sp. PendSV_Handler w (c, s) = Some (c', s') \<and> rep s' (rotated p (current_task_ptr s) A) V'
     \<and> states_ok (rotated p (current_task_ptr s) A) V' \<and> current_ok s' V'
     \<and> current_task_ptr s' = hd (rotated p (current_task_ptr s) A (Ready p))
     \<and> mem32 s' = store_words (psp c - 32) (r4_r11 c) (mem32 s)
     \<and> (\<forall>t. map_option stack_ptr (V' t) = (if t = current_task_ptr s then Some (psp c - 32) else map_option stack_ptr (V t)))
     \<and> map_option stack_ptr (V' (current_task_ptr s')) = Some sp
     \<and> c' = c\<lparr>reg := set_regs 4 (load_words sp 8 (mem32 s')) (scratched w (current_task_ptr s') (sp + 32) (reg c)), psp := sp + 32\<rparr> \<and> primask s' = 0"
proof -
  note PendSV_nf = PendSV_Handler_def [folded r4_r11_def]
  let ?s1 = "s\<lparr>primask := 1, mem32 := store_words (psp c - 32) (r4_r11 c) (mem32 s)\<rparr>"
  have a: "rep ?s1 A V" "current_ok ?s1 V" "current_task_ptr ?s1 \<noteq> NULL" "current_task_ptr ?s1 = current_task_ptr s"
    using r cur nz by simp_all
  obtain s2 s3 V3 t where x: "upd_tcb (current_task_ptr s) (\<lambda>t. t\<lparr>stack_ptr := psp c - 32\<rparr>) ?s1 = Some s2" "os_sched_select_next s2 = Some s3"
    "get_tcb (current_task_ptr s3) s3 = Some t" "rep s3 (rotated p (current_task_ptr s) A) V3"
    "states_ok (rotated p (current_task_ptr s) A) V3" "current_ok s3 V3"
    "current_task_ptr s3 = hd (rotated p (current_task_ptr s) A (Ready p))" "mem32 s3 = mem32 ?s1"
    "\<forall>y. map_option stack_ptr (V3 y) = (if y = current_task_ptr s then Some (psp c - 32) else map_option stack_ptr (V y))"
    "map_option stack_ptr (V3 (current_task_ptr s3)) = Some (stack_ptr t)"
    using exchange_rep [OF a(1) ok a(2) p a(3), of "psp c - 32"] unfolding a(4) by (elim exE conjE) (rule that)
  let ?c = "c\<lparr>reg := set_regs 4 (load_words (stack_ptr t) 8 (mem32 s3)) (scratched w (current_task_ptr s3) (stack_ptr t + 32) (reg c)), psp := stack_ptr t + 32\<rparr>"
  have "PendSV_Handler w (c, s) = Some (?c, s3\<lparr>primask := 0\<rparr>)"
    using x(1-3) by (simp add: PendSV_nf scratched_def Let_def del: get_tcb_Some)
  then show ?thesis using x(4-10)
    by (intro exI [of _ ?c] exI [of _ "s3\<lparr>primask := 0\<rparr>"] exI [of _ V3] exI [of _ "stack_ptr t"]) simp
qed

lemma rep_stack_ptr: "rep s A V \<Longrightarrow> map_option stack_ptr (tcbs s t) = map_option stack_ptr (V t)"
  by (auto simp: rep_def view_def option.map_comp comp_def erase_def)

text \<open>
  C7. The PendSV handler switches contexts. From a consistent state with a current task it returns,
  with R4 to R11 of the outgoing task stored in the eight words below its process stack pointer and
  that address in its control block. The processor then has R4 to R11 of the task the scheduler chose,
  read from that task's save area, and its process stack pointer just above it; LR, PC and CONTROL are
  unchanged, whatever the call leaves in R0 to R3 and R12. No other stack pointer
  and no other word of memory changes, interrupts are enabled, and lists and states stay consistent.
\<close>

theorem PendSV_Handler_correct:
  assumes "rep s A V" "states_ok A V" "current_ok s V" "top_level p A" "current_task_ptr s \<noteq> NULL"
  shows "\<exists>c' s' V' sp. PendSV_Handler w (c, s) = Some (c', s') \<and> rep s' (rotated p (current_task_ptr s) A) V'
     \<and> states_ok (rotated p (current_task_ptr s) A) V' \<and> current_ok s' V'
     \<and> current_task_ptr s' = hd (rotated p (current_task_ptr s) A (Ready p))
     \<and> load_words (psp c - 32) 8 (mem32 s') = r4_r11 c
     \<and> (\<forall>a. a \<notin> area (psp c - 32) 8 \<longrightarrow> mem32 s' a = mem32 s a)
     \<and> (\<forall>t. map_option stack_ptr (tcbs s' t)
            = (if t = current_task_ptr s then Some (psp c - 32) else map_option stack_ptr (tcbs s t)))
     \<and> map_option stack_ptr (tcbs s' (current_task_ptr s')) = Some sp
     \<and> r4_r11 c' = load_words sp 8 (mem32 s') \<and> psp c' = sp + 32
     \<and> lr c' = lr c \<and> pc c' = pc c \<and> control c' = control c \<and> primask s' = 0"
proof -
  obtain c' s' V' sp where h: "PendSV_Handler w (c, s) = Some (c', s')" "rep s' (rotated p (current_task_ptr s) A) V'"
    "states_ok (rotated p (current_task_ptr s) A) V'" "current_ok s' V'"
    "current_task_ptr s' = hd (rotated p (current_task_ptr s) A (Ready p))"
    "mem32 s' = store_words (psp c - 32) (r4_r11 c) (mem32 s)"
    "\<forall>t. map_option stack_ptr (V' t) = (if t = current_task_ptr s then Some (psp c - 32) else map_option stack_ptr (V t))"
    "map_option stack_ptr (V' (current_task_ptr s')) = Some sp"
    "c' = c\<lparr>reg := set_regs 4 (load_words sp 8 (mem32 s')) (scratched w (current_task_ptr s') (sp + 32) (reg c)), psp := sp + 32\<rparr>" "primask s' = 0"
    using pendsv_rep [OF assms, of w c] by (elim exE conjE) (rule that)
  have "load_words (psp c - 32) 8 (mem32 s') = r4_r11 c"
    unfolding h(6) by (rule load_stored) simp_all
  moreover have "\<forall>a. a \<notin> area (psp c - 32) 8 \<longrightarrow> mem32 s' a = mem32 s a"
    unfolding h(6) by (simp add: store_words_other)
  moreover have "r4_r11 c' = load_words sp 8 (mem32 s')"
    unfolding h(9) by (rule r4_r11_restored) simp
  moreover have "lr c' = lr c" "pc c' = pc c" "control c' = control c" unfolding h(9) by simp_all
  moreover have "psp c' = sp + 32" unfolding h(9) by simp
  ultimately show ?thesis
    using h(1-5,7,8,10) rep_stack_ptr [OF h(2)] rep_stack_ptr [OF assms(1)]
    by (intro exI [of _ c'] exI [of _ s'] exI [of _ V'] exI [of _ sp]) (simp only: simp_thms)
qed

definition demo_cpu :: cpu where
  "demo_cpu = \<lparr>reg = of_nat, psp = 0x20001100, lr = 0xFFFFFFFD, pc = 0x8000400, control = 2\<rparr>"

definition demo_asm :: asm where
  "demo_asm = \<lparr>at_current_task_ptr = 0x20000000, scratch = (\<lambda>_. 0xDEADBEEF)\<rparr>"

lemma demo_ok: "rep demo demo_lists demo_tcbs" "states_ok demo_lists demo_tcbs" "current_ok demo demo_tcbs"
  "top_level 2 demo_lists" "current_task_ptr demo \<noteq> NULL"
  by (rule demo_rep demo_states_ok demo_current_ok demo_top_level)+ (simp add: demo_def)

theorem PendSV_Handler_correct_witness:
  "\<exists>c' s'. PendSV_Handler demo_asm (demo_cpu, demo) = Some (c', s') \<and> current_task_ptr s' = tReady
     \<and> load_words 0x200010E0 8 (mem32 s') = [4, 5, 6, 7, 8, 9, 10, 11]"
proof -
  have "hd (rotated 2 (current_task_ptr demo) demo_lists (Ready 2)) = tReady" by (simp add: rotated_def demo_lists_def demo_def)
  moreover have "r4_r11 demo_cpu = [4, 5, 6, 7, 8, 9, 10, 11]" "psp demo_cpu - 32 = 0x200010E0"
    by (simp_all add: r4_r11_def demo_cpu_def upt_rec)
  ultimately show ?thesis using PendSV_Handler_correct [OF demo_ok, of demo_asm demo_cpu] by auto
qed


text \<open>
  C9. A task gets its context back. Let the PendSV handler take the processor from task t. When, any
  time later, the handler runs on behalf of another task and the scheduler chooses t, and meanwhile
  nobody changed the save area of t or its saved stack pointer and the other task's save area is
  elsewhere, then t resumes with the R4 to R11 and the process stack pointer it was interrupted with.
\<close>

theorem context_restored:
  assumes out: "rep s A V" "states_ok A V" "current_ok s V" "top_level p A" "current_task_ptr s = t" "t \<noteq> NULL"
      "PendSV_Handler w (c, s) = Some (c1, s1)"
    and again: "rep s2 A2 V2" "states_ok A2 V2" "current_ok s2 V2" "top_level q A2" "current_task_ptr s2 \<noteq> NULL"
      "hd (rotated q (current_task_ptr s2) A2 (Ready q)) = t" "current_task_ptr s2 \<noteq> t"
    and kept: "\<forall>a\<in>area (psp c - 32) 8. mem32 s2 a = mem32 s1 a"
      "map_option stack_ptr (tcbs s2 t) = map_option stack_ptr (tcbs s1 t)"
      "area (psp c2 - 32) 8 \<inter> area (psp c - 32) 8 = {}"
  shows "\<exists>c3 s3. PendSV_Handler w' (c2, s2) = Some (c3, s3) \<and> current_task_ptr s3 = t
     \<and> r4_r11 c3 = r4_r11 c \<and> psp c3 = psp c"
proof -
  let ?sp = "psp c - 32" let ?rs = "r4_r11 c"
  have nz: "current_task_ptr s \<noteq> NULL" using out(5,6) by simp
  obtain c' s' V1 where o': "PendSV_Handler w (c, s) = Some (c', s')" "rep s' (rotated p t A) V1" "mem32 s' = store_words ?sp ?rs (mem32 s)"
      "\<forall>x. map_option stack_ptr (V1 x) = (if x = t then Some ?sp else map_option stack_ptr (V x))"
    using pendsv_rep [OF out(1-4) nz, of w c] unfolding out(5) by (elim exE conjE) (rule that)
  have "s' = s1" using o'(1) out(7) by simp
  note o = o'(2,3) [unfolded this] spec [OF o'(4), of t]
  obtain c3 s3 V3 sp where b: "PendSV_Handler w' (c2, s2) = Some (c3, s3)" "current_task_ptr s3 = t" "rep s3 (rotated q (current_task_ptr s2) A2) V3"
    "mem32 s3 = store_words (psp c2 - 32) (r4_r11 c2) (mem32 s2)"
    "\<forall>x. map_option stack_ptr (V3 x) = (if x = current_task_ptr s2 then Some (psp c2 - 32) else map_option stack_ptr (V2 x))"
    "map_option stack_ptr (V3 (current_task_ptr s3)) = Some sp"
    "c3 = c2\<lparr>reg := set_regs 4 (load_words sp 8 (mem32 s3)) (scratched w' (current_task_ptr s3) (sp + 32) (reg c2)), psp := sp + 32\<rparr>"
    using pendsv_rep [OF again(1-5), of w' c2] unfolding again(6) by (elim exE conjE) (rule that)
  have "map_option stack_ptr (V2 t) = Some ?sp"
    using kept(2) o(3) unfolding rep_stack_ptr [OF again(1)] rep_stack_ptr [OF o(1)] by (simp only: if_True simp_thms)
  then have sp: "sp = ?sp" using b(5,6) b(2) again(7) by auto
  have "mem32 s3 a = mem32 s1 a" if "a \<in> area ?sp 8" for a
    using store_words_other [of a "psp c2 - 32" "r4_r11 c2" "mem32 s2"] kept(1,3) that unfolding b(4) by auto
  then have "load_words ?sp 8 (mem32 s3) = load_words ?sp 8 (mem32 s1)" by (intro load_words_cong) blast
  also have "\<dots> = ?rs" unfolding o(2) by (rule load_stored) simp_all
  finally have "r4_r11 c3 = ?rs" unfolding b(7) sp by (simp add: r4_r11_restored)
  moreover have "psp c3 = psp c" unfolding b(7) sp by simp
  ultimately show ?thesis using b(1,2) by blast
qed

theorem context_restored_witness:
  "\<exists>c1 s1 c3 s3. PendSV_Handler demo_asm (demo_cpu, demo) = Some (c1, s1) \<and> current_task_ptr s1 = tReady
     \<and> PendSV_Handler demo_asm (c1, s1) = Some (c3, s3) \<and> current_task_ptr s3 = tRun
     \<and> r4_r11 c3 = r4_r11 demo_cpu \<and> psp c3 = psp demo_cpu"
proof -
  let ?A = "demo_lists(Ready 2 := [tReady, tRun])"
  have cur: "current_task_ptr demo = tRun" by (simp add: demo_def)
  have rot: "rotated 2 tRun demo_lists = ?A" "hd (rotated 2 tReady ?A (Ready 2)) = tRun" "hd (?A (Ready 2)) = tReady"
    by (simp_all add: rotated_def demo_lists_def)
  obtain c1 s1 V1 sp where h: "PendSV_Handler demo_asm (demo_cpu, demo) = Some (c1, s1)" "rep s1 ?A V1" "states_ok ?A V1" "current_ok s1 V1"
    "current_task_ptr s1 = tReady"
    "\<forall>t. map_option stack_ptr (V1 t) = (if t = tRun then Some (psp demo_cpu - 32) else map_option stack_ptr (demo_tcbs t))"
    "map_option stack_ptr (V1 (current_task_ptr s1)) = Some sp"
    "c1 = demo_cpu\<lparr>reg := set_regs 4 (load_words sp 8 (mem32 s1)) (scratched demo_asm (current_task_ptr s1) (sp + 32) (reg demo_cpu)), psp := sp + 32\<rparr>"
    using pendsv_rep [OF demo_ok, of demo_asm demo_cpu] unfolding cur rot by (elim exE conjE) (rule that)
  have tl: "top_level 2 ?A" by (auto simp: top_level_def demo_lists_def)
  have "sp = 0x20001280" using h(5,6,7) by (simp add: demo_tcbs_def demo_tcb_def)
  then have p: "psp c1 - 32 = 0x20001280" "psp demo_cpu - 32 = 0x200010E0" unfolding h(8) by (simp_all add: demo_cpu_def)
  have dis: "area (psp c1 - 32) 8 \<inter> area (psp demo_cpu - 32) 8 = {}"
    unfolding p area_def atLeastLessThan_upt by (simp add: upt_rec word_at_def del: set_upt)
  have nz: "tRun \<noteq> NULL" "current_task_ptr s1 \<noteq> NULL" "current_task_ptr s1 \<noteq> tRun" using h(5) by simp_all
  show ?thesis
    using context_restored [OF demo_ok(1-4) cur nz(1) h(1) h(2-4) tl nz(2) _ nz(3) _ _ dis] rot h(1,5) by auto
qed

section \<open>The first task\<close>

lemma frame_words:
  assumes f: "os_port_stack_init func param base sz m0 = (sp, m)"
  shows "map (\<lambda>i. m (word_at sp i)) [0..<16]
       = [0x04040404, 0x05050505, 0x06060606, 0x07070707, 0x08080808, 0x09090909, 0x10101010, 0x11111111,
          param, 0x01010101, 0x02020202, 0x03030303, 0x12121212, 0xFFFFFFFE, func, 0x01000000] \<and> sp AND 7 = 0"
proof -
  have 1: "[0..<16] = [0, 1, 2, 3, 4, 5, 6, 7, 8, 9, 10, 11, 12, 13, 14, 15 :: nat]" by (simp add: upt_rec)
  show ?thesis
    using f and_7_minus_64 [OF word_8_align, of "base + sz + 7"] unfolding stack_init_unfold Let_def 1
    by (auto simp: word_at_def INITIAL_XPSR_def)
qed

lemma first_task_rep:
  assumes t: "current_task_ptr s \<noteq> NULL" "tcbs s (current_task_ptr s) = Some k"
    and f: "os_port_stack_init func param base sz m0 = (stack_ptr k, m)"
    and m: "\<forall>a\<in>area (stack_ptr k) 16. mem32 s a = m a"
  shows "\<exists>c'. os_port_start_first_task (c, s) = Some (c', s) \<and> pc c' = func \<and> reg c' 0 = param \<and> control c' = 2
     \<and> lr c' = 0xFFFFFFFE \<and> psp c' AND 7 = 4
     \<and> map (reg c') [4..<12] = [0x04040404, 0x05050505, 0x06060606, 0x07070707, 0x08080808, 0x09090909, 0x10101010, 0x11111111]"
proof -
  let ?w = "\<lambda>i. mem32 s (word_at (stack_ptr k) i)"
  have "map ?w [0..<16] = map (\<lambda>i. m (word_at (stack_ptr k) i)) [0..<16]" using m by (simp add: area_def)
  note w = trans [OF this conjunct1 [OF frame_words [OF f]]]
  have 1: "[0..<16] = [0, 1, 2, 3, 4, 5, 6, 7, 8, 9, 10, 11, 12, 13, 14, 15 :: nat]" "[0..<8] = [0, 1, 2, 3, 4, 5, 6, 7 :: nat]"
    "[4..<12] = [4, 5, 6, 7, 8, 9, 10, 11 :: nat]" by (simp_all add: upt_rec)
  have a: "(stack_ptr k + 60) AND 7 = 4"
    using conjunct2 [OF frame_words [OF f]] and_7_add [of "stack_ptr k" 60]
    by (simp add: unat_and_7 and_7_eq_iff mod_add_left_eq [symmetric, of "unat (stack_ptr k)"])
  show ?thesis
    using t w a unfolding os_port_start_first_task_def os_task_get_current_def 1
    by (simp add: get_tcb_def Let_def load_words_def set_regs_def 1)
qed

text \<open>
  Creating a task and starting it fit together. When \<open>os_task_create\<close> has succeeded for a task
  of higher priority than every other ready task and no task is running yet, the scheduler chooses
  it, and \<open>os_port_start_first_task\<close> selects the process stack and jumps to the task's function
  with its parameter in R0 and the register patterns of the initial frame in R4 to R11. The stack
  pointer is then 4 modulo 8, because the xPSR word of the frame is never popped.
\<close>

theorem created_task_starts:
  assumes s: "rep s A V" "states_ok A V" "heap_tasks start (heap s) L V" "current_task_ptr s = NULL" "current_ok s V"
    and a: "func \<noteq> NULL" "prio < 8" "task_count s < 16" "128 \<le> sz" "unat sz + 8 \<le> 2 ^ 32"
    and c: "os_task_create e func nm param prio buf sz True s = Some (OS_OK, t, s1)"
    and top: "\<forall>q \<le> unat prio. A (Ready q) = []"
  shows "\<exists>s2 c'. os_sched_select_next s1 = Some s2 \<and> current_task_ptr s2 = t
     \<and> os_port_start_first_task (c, s2) = Some (c', s2) \<and> pc c' = func \<and> reg c' 0 = param \<and> control c' = 2
     \<and> psp c' AND 7 = 4
     \<and> r4_r11 c' = [0x04040404, 0x05050505, 0x06060606, 0x07070707, 0x08080808, 0x09090909, 0x10101010, 0x11111111]"
proof -
  let ?A = "A(Ready (unat prio) := [t])"
  obtain d stk sp where d: "d = new_tcb func nm param prio stk sz sp" and cr: "created t d s A V s1"
    using task_create_rep [OF s(1-3) a, of e nm param buf True] unfolding c by auto
  have dd: "priority d = prio" "tcb_state d = OS_TASK_READY" "entry_func d = func" "tcb_param d = param" "stack_base d = stk" "stack_size d = sz"
    by (simp_all add: d new_tcb_def)
  have k: "t \<noteq> NULL" "rep s1 ?A (V(t \<mapsto> d))" "states_ok ?A (V(t \<mapsto> d))" "current_task_ptr s1 = NULL"
    "os_port_stack_init func param stk sz (prv_fill_stack stk sz (mem32 s)) = (stack_ptr d, mem32 s1)"
    using cr top s(4) unfolding created_def dd by simp_all
  have cur: "current_ok s1 (V(t \<mapsto> d))" using s(4,5) k(4) dd(2) by (auto simp: current_ok_def)
  have tl: "top_level (unat prio) ?A" using top by (auto simp: top_level_def)
  have rot: "rotated (unat prio) NULL ?A = ?A" "hd (?A (Ready (unat prio))) = t" using k(1) by (auto simp: rotated_def)
  obtain s2 V2 where s2: "os_sched_select_next s1 = Some s2" "rep s2 ?A V2" "switch_frame s1 s2" "current_task_ptr s2 = t"
    "\<forall>x. map_option stack_ptr (V2 x) = map_option stack_ptr ((V(t \<mapsto> d)) x)"
    using select_next_rep [OF k(2,3) cur tl] unfolding k(4) rot by (elim exE conjE) (rule that)
  have "map_option stack_ptr (tcbs s2 t) = Some (stack_ptr d)" unfolding rep_stack_ptr [OF s2(2)] using s2(5) by simp
  then obtain b where b: "tcbs s2 t = Some b" "stack_ptr b = stack_ptr d" by auto
  show ?thesis
    using first_task_rep [of s2 b func param stk sz "prv_fill_stack stk sz (mem32 s)" "mem32 s1" c] b k(1,5) s2(1,4)
      switch_frame_mem32 [OF s2(3)] unfolding r4_r11_def by auto
qed

theorem created_task_starts_witness:
  "\<exists>t s1 s2 c'. os_task_create demo_env 0x8000100 None 42 3 0x20008000 512 True blank = Some (OS_OK, t, s1)
     \<and> os_sched_select_next s1 = Some s2 \<and> os_port_start_first_task (demo_cpu, s2) = Some (c', s2)
     \<and> pc c' = 0x8000100 \<and> reg c' 0 = 42"
proof -
  have h: "heap_tasks 0x20000000 (heap blank) {} Map.empty" using heap_tasks_boot by (simp add: blank_sel)
  have a: "task_count blank < 16" "(0x8000100 :: ptr) \<noteq> NULL" "(3 :: u32) < 8" "(128 :: u32) \<le> 512" "unat (512 :: u32) + 8 \<le> 2 ^ 32"
    "current_task_ptr blank = NULL" "current_ok blank Map.empty" "\<forall>q \<le> unat (3 :: u32). (\<lambda>_. []) (Ready q) = ([] :: ptr list)"
    by (simp_all add: blank_sel) (simp_all add: blank_def os_task_init_ready_list_def current_ok_def)
  have b: "bump 0x20000000 10228 (heap blank) Map.empty"
    unfolding bump_def using boot_heap_ok by (intro exI [of _ "[]"]) (simp add: blank_sel)
  obtain t s1 where "os_task_create demo_env 0x8000100 None 42 3 0x20008000 512 True blank = Some (OS_OK, t, s1)"
    using static_create [OF blank_rep states_ok_empty b _ a(2,3,1,4), of "0x20008000" demo_env None 42 True] by auto
  then show ?thesis
    using created_task_starts [OF blank_rep states_ok_empty h a(6,7) a(2,3,1,4,5) _ a(8), of demo_env None 42 "0x20008000" t s1 demo_cpu]
    by auto
qed

end
