(* ===== verification/Systick.thy ===== *)
theory Systick
  imports System Timer_Tick Context_Switch
begin

unbundle bit_operations_syntax

text \<open>
  The tick interrupt together with the context switch it pends, and when the tick returns.
\<close>

section \<open>A tick with nothing but tasks\<close>

lemma quiet_tick:
  assumes "tick_hook_count s = 0" "active_timer_list s = NULL" "wdt_count (wdt s) = 0"
    and t: "os_task_tick (isr e) (s\<lparr>system_tick := system_tick s + 1\<rparr>) = Some s1" "active_timer_list s1 = NULL" "wdt_count (wdt s1) = 0"
  shows "SysTick_Handler e s = map_option os_port_yield (os_sched_select_next s1)"
proof -
  have "tick_hooks_from (isr e) 0 (s\<lparr>system_tick := system_tick s + 1\<rparr>) = Some (s\<lparr>system_tick := system_tick s + 1\<rparr>)"
    by (subst tick_hooks_from.simps) (simp add: assms(1))
  moreover have "os_timer_tick (isr e) s1 = Some s1" using t(2) by (simp add: os_timer_tick_def)
  moreover have "os_wdt_tick (isr e) s1 = Some s1" unfolding os_wdt_tick_def by (subst wdt_tick_from.simps) (simp add: t(3))
  ultimately show ?thesis
    using t(1) by (simp add: SysTick_Handler_def os_kernel_tick_increment_def map_conv_bind_option comp_def)
qed

definition quiet :: "os \<Rightarrow> bool" where
  "quiet s \<longleftrightarrow> tick_hook_count s = 0 \<and> active_timer_list s = NULL \<and> wdt_count (wdt s) = 0"

text \<open>The lists after a tick: the delayed tasks that are due have joined the ready lists.\<close>

definition ticked_lists :: "(ptr \<rightharpoonup> os_tcb) \<Rightarrow> tlists \<Rightarrow> tlists" where
  "ticked_lists V A l = (case l of
     Blocked \<Rightarrow> filter (\<lambda>t. \<not> due V t) (A Blocked)
   | Ready p \<Rightarrow> A (Ready p) @ filter (\<lambda>t. due V t \<and> unat (prio_of V t) = p) (A Blocked)
   | _ \<Rightarrow> A l)"

lemma quiet_tick_chooses:
  assumes k: "kernel_ok D s A V" "task_running s" "os_task_check_stack_overflow s = Some ()" and q: "quiet s"
    and p: "top_level p (ticked_lists V A)"
  shows "\<exists>s1. SysTick_Handler e s = Some s1 \<and> current_task_ptr s1 = hd (rotated p (current_task_ptr s) (ticked_lists V A) (Ready p))"
proof -
  let ?s = "s\<lparr>system_tick := system_tick s + 1\<rparr>"
  note i = kernel_okD [OF k(1)]
  have inv: "kernel_inv D s" using k(1) by (auto simp: kernel_inv_def)
  have kp: "kept s ?s" by (rule kept_same, rule rep_cong, simp_all add: crit_same_def) (rule list_head_cong, simp_all)
  note k0 = keptD [OF kp inv]
  have r: "rep ?s A V" using i(1) rep_cong [of ?s s A V] list_head_cong [of ?s s] by simp
  obtain d where d: "V (current_task_ptr s) = Some d" "runnable d" "current_task_ptr s \<noteq> NULL" using running_rep [OF i(1) k(2)] by blast
  obtain c0 where c0: "tcbs s (current_task_ptr s) = Some c0" "erase c0 = d" using rep_Some [OF i(1) d(1)] by blast
  have can: "canary_ok ?s d" using k(3) d(3) c0
    by (auto simp: os_task_check_stack_overflow_def get_tcb_def canary_ok_def OS_ASSERT_def split: if_splits)
  have cs: "current_task_ptr ?s = current_task_ptr s" by simp
  obtain s1 A1 V1 s2 where s1: "os_task_tick (isr e) ?s = Some s1" "rep s1 A1 V1" "states_ok A1 V1" "A1 Blocked = filter (\<lambda>t. \<not> due V t) (A Blocked)"
    "\<forall>p. A1 (Ready p) = A (Ready p) @ filter (\<lambda>t. due V t \<and> unat (prio_of V t) = p) (A Blocked)"
    "\<forall>l. wait_list l \<and> l \<noteq> Blocked \<or> l = Deferred \<longrightarrow> A1 l = A l"
    "current_task_ptr s1 = current_task_ptr s" "frame ?s s2" "s1 = os_sched_exit_critical (os_sched_enter_critical s2)"
    using os_task_tick_rep [OF r i(2,6) cs d(1,2) can, of "isr e"] by (elim exE conjE) (rule that)
  have A1: "A1 = ticked_lists V A" using s1(4-6) by (auto simp: fun_eq_iff ticked_lists_def wait_list_def split: lid.splits)
  have f: "active_timer_list s1 = NULL" "wdt_count (wdt s1) = 0"
    using frame_os [OF s1(8)] q unfolding s1(9) quiet_def by (simp_all add: crit_simps)
  have "kernel_inv D s1" using tick_ok [OF k0(1) k0(4) [OF k(2)] k0(5) [OF k(3)], of "isr e"] s1(1) by auto
  then obtain A2 V2 where "kernel_ok D s1 A2 V2" by (rule kernel_okE)
  then have "rep s1 A2 V2" "current_ok s1 V2" by (rule kernel_okD)+
  then have ck: "current_ok s1 V1" using rep_view [OF s1(2)] rep_view [of s1 A2 V2] by simp
  obtain s3 where "os_sched_select_next s1 = Some s3" "current_task_ptr s3 = hd (rotated p (current_task_ptr s) (ticked_lists V A) (Ready p))"
    using select_next_rep [OF s1(2,3) ck p [folded A1]] unfolding A1 s1(7) by blast
  then show ?thesis using quiet_tick [of s e s1, OF _ _ _ s1(1) f] q by (auto simp: quiet_def os_port_yield_def)
qed

section \<open>The context switch after a tick\<close>

text \<open>
  The PendSV handler after a tick that has changed the current task from t to x takes the registers of t for those of x.
\<close>

lemma pendsv_after_tick:
  assumes s: "kernel_inv D s" "task_running s" "os_task_check_stack_overflow s = Some ()" "hooks_ok e" "current_task_ptr s = t"
    and s1: "SysTick_Handler e s = Some s1" "current_task_ptr s1 = x" "x \<noteq> t"
  shows "\<exists>c' s'. icsr s1 AND SCB_ICSR_PENDSVSET = SCB_ICSR_PENDSVSET \<and> PendSV_Handler w (c, s1) = Some (c', s')
     \<and> map_option stack_ptr (tcbs s' x) = Some (psp c - 32)
     \<and> map_option stack_ptr (tcbs s' t) = map_option stack_ptr (tcbs s t)"
proof -
  have i: "kernel_inv D s1" "same_stacks s s1" "task_running s1" using systick_inv [OF s(4,1-3) s1(1)] s(5) s1(2,3) by auto
  obtain A V d where k: "kernel_ok D s1 A V" and d: "V (current_task_ptr s1) = Some d" "runnable d" "current_task_ptr s1 \<noteq> NULL"
    using callerE [OF i(1,3)] by metis
  note r = kernel_okD [OF k]
  have ex: "\<exists>p. A (Ready p) \<noteq> []" using runnable_ready [OF r(2) d(1,2)] by (metis empty_iff list.set(1))
  define p where "p = (LEAST p. A (Ready p) \<noteq> [])"
  have tl: "top_level p A" using LeastI_ex [OF ex] not_less_Least unfolding top_level_def p_def by blast
  obtain c' s' V' where h: "PendSV_Handler w (c, s1) = Some (c', s')" "rep s' (rotated p x A) V'"
    "\<forall>y. map_option stack_ptr (V' y) = (if y = x then Some (psp c - 32) else map_option stack_ptr (V y))"
    using pendsv_rep [OF r(1-3) tl d(3), of w c] unfolding s1(2) by (elim exE conjE) (rule that)
  have "map_option stack_ptr (tcbs s' x) = Some (psp c - 32)" unfolding rep_stack_ptr [OF h(2)] using h(3) by (simp only: if_True simp_thms)
  moreover have "map_option stack_ptr (tcbs s' t) = map_option stack_ptr (tcbs s1 t)"
    unfolding rep_stack_ptr [OF h(2)] rep_stack_ptr [OF r(1)] using h(3) not_sym [OF s1(3)] by (simp only: if_False)
  moreover have "icsr s1 AND SCB_ICSR_PENDSVSET = SCB_ICSR_PENDSVSET" using s1(1) by (auto simp: SysTick_Handler_def bind_eq_Some_conv os_port_yield_def bit_eq_iff bit_simps)
  ultimately show ?thesis using h(1) i(2) by (auto simp: same_stacks_def)
qed

text \<open>
  C33. A tick that changes tasks corrupts two contexts. Let task t run, with intact canary, in a state that satisfies the kernel invariant. Whenever
  the tick interrupt returns with another task x as the current one, the
  PendSV that its handler has pended takes the registers of t for those of x: it stores the address of t's
  registers, on t's stack, as the stack pointer of x, whose own saved context is lost, while t keeps
  the stack pointer of an earlier switch. And the tick does change the current task: with no tick hook, timer or watchdog entry it returns with
  the task that \<open>os_sched_select_next\<close> takes from the lists in which the delayed tasks that are due have become ready, be it the
  next one of the same priority or a woken one of a higher priority.
\<close>

theorem tick_switch_corrupts_contexts:
  assumes "kernel_ok D s A V" "task_running s" "os_task_check_stack_overflow s = Some ()" "hooks_ok e" "current_task_ptr s = t"
  shows "(\<forall>s1 x c. SysTick_Handler e s = Some s1 \<and> current_task_ptr s1 = x \<and> x \<noteq> t \<longrightarrow>
      (\<exists>c' s'. icsr s1 AND SCB_ICSR_PENDSVSET = SCB_ICSR_PENDSVSET \<and> PendSV_Handler w (c, s1) = Some (c', s')
        \<and> map_option stack_ptr (tcbs s' x) = Some (psp c - 32)
        \<and> map_option stack_ptr (tcbs s' t) = map_option stack_ptr (tcbs s t)))
    \<and> (\<forall>p. quiet s \<and> top_level p (ticked_lists V A) \<longrightarrow>
      (\<exists>s1. SysTick_Handler e s = Some s1 \<and> current_task_ptr s1 = hd (rotated p t (ticked_lists V A) (Ready p))))"
proof -
  have k: "kernel_inv D s" using assms(1) by (auto simp: kernel_inv_def)
  show ?thesis using pendsv_after_tick [OF k assms(2-5)] quiet_tick_chooses [OF assms(1-3), of _ e] unfolding assms(5) by blast
qed

theorem tick_switch_corrupts_contexts_witness:
  "\<exists>s1 c' s'. SysTick_Handler demo_env demo = Some s1 \<and> PendSV_Handler demo_asm (demo_cpu, s1) = Some (c', s')
     \<and> map_option stack_ptr (tcbs s' tReady) = Some 0x200010E0 \<and> map_option stack_ptr (tcbs s' tRun) = Some 0x20001080"
proof -
  obtain A V where k: "kernel_ok (dom demo_tcbs) demo A V" "A = demo_lists" "V = demo_tcbs"
    using demo_kernel_ok by blast
  have d: "task_running demo" "os_task_check_stack_overflow demo = Some ()" "current_task_ptr demo = tRun" "psp demo_cpu - 32 = 0x200010E0"
    "map_option stack_ptr (tcbs demo tRun) = Some 0x20001080" "quiet demo"
    by (simp_all add: task_running_def get_tcb_def os_task_check_stack_overflow_def OS_ASSERT_def demo_def demo_tcb_def demo_cpu_def quiet_def)
  have "\<not> due demo_tcbs tDelayed" by (simp add: due_def demo_tcbs_def demo_tcb_def)
  then have R: "ticked_lists V A (Ready p) = (if p = 2 then [tRun, tReady] else [])" for p by (simp add: k(2,3) ticked_lists_def demo_lists_def)
  then have "top_level 2 (ticked_lists V A)" "hd (rotated 2 tRun (ticked_lists V A) (Ready 2)) = tReady" by (auto simp: top_level_def rotated_def)
  note t = tick_switch_corrupts_contexts [OF k(1) d(1,2) demo_switch_ok(2) d(3), of demo_asm] this
  obtain s1 where s1: "SysTick_Handler demo_env demo = Some s1" "current_task_ptr s1 = tReady" using t d(6) by auto
  have "tReady \<noteq> tRun" by simp
  then obtain c' s' where "PendSV_Handler demo_asm (demo_cpu, s1) = Some (c', s')" "map_option stack_ptr (tcbs s' tReady) = Some (psp demo_cpu - 32)"
    "map_option stack_ptr (tcbs s' tRun) = map_option stack_ptr (tcbs demo tRun)"
    using conjunct1 [OF t(1)] s1 by blast
  then show ?thesis using s1(1) d(4,5) by auto
qed

section \<open>When a tick returns\<close>

text \<open>
  The callbacks of the tick return and leave alone what its loops walk over: the table of hooks, the timers and the
  table of the watchdog. \<open>wdt_answered\<close>: every watched task has a callback, its own or the default one; without one the
  watchdog stops the system.
\<close>

definition tick_data :: "os \<Rightarrow> u32 \<times> (ptr \<Rightarrow> os_timer) \<times> ptr \<times> ptr \<times> wdt_state" where
  "tick_data s = (tick_hook_count s, timers s, active_timer_list s, expired_list s, wdt s)"

definition callbacks_return :: "env \<Rightarrow> bool" where
  "callbacks_return e \<longleftrightarrow> (\<forall>h s. \<exists>s'. call_tick_hook e h s = Some s' \<and> kept s s' \<and> tick_data s' = tick_data s)
     \<and> (\<forall>cb t p s. \<exists>s'. call_wdt e cb t p s = Some s' \<and> kept s s' \<and> tick_data s' = tick_data s)"

definition wdt_answered :: "wdt_state \<Rightarrow> bool" where
  "wdt_answered v \<longleftrightarrow> (\<forall>i < unat (wdt_count v). wdt_callback (wdt_table v i) \<noteq> NULL \<or> wdt_default_cb v \<noteq> NULL)"

lemma callbacks_hooks_ok:
  assumes "callbacks_return e" shows "hooks_ok e"
proof -
  have "\<exists>s'. call_tick_hook e h s = Some s' \<and> kept s s'" "\<exists>s'. call_wdt e cb t p s = Some s' \<and> kept s s'" for h cb t p s
    using assms unfolding callbacks_return_def by blast+
  then show ?thesis unfolding hooks_ok_def by (metis option.inject)
qed

lemma unat_succ_below: "i < n \<Longrightarrow> unat (i + 1) = unat i + 1" for i n :: u32
  using unat_lt_u32 [of n] by (intro unat_plus_one_u32) (simp add: word_less_nat_alt)

lemma tick_hooks_return:
  assumes e: "callbacks_return e" shows "\<exists>s'. tick_hooks_from e i s = Some s' \<and> tick_data s' = tick_data s"
proof (induction "unat (tick_hook_count s) - unat i" arbitrary: i s rule: less_induct)
  case less
  show ?case
  proof (cases "i < tick_hook_count s")
    case True
    obtain s1 where s1: "(if tick_hooks s (unat i) \<noteq> NULL then call_tick_hook e (tick_hooks s (unat i)) s else Some s) = Some s1" "tick_data s1 = tick_data s"
      using e unfolding callbacks_return_def by (cases "tick_hooks s (unat i) = NULL") (simp, metis)
    have "unat (i + 1) = unat i + 1" by (rule unat_succ_below [OF True])
    moreover have "unat i < unat (tick_hook_count s)" using True by (simp add: word_less_nat_alt)
    moreover have c: "tick_hook_count s1 = tick_hook_count s" using s1(2) by (simp add: tick_data_def)
    ultimately have "unat (tick_hook_count s1) - unat (i + 1) < unat (tick_hook_count s) - unat i" unfolding c by linarith
    from less [OF this] obtain s' where "tick_hooks_from e (i + 1) s1 = Some s'" "tick_data s' = tick_data s1" by blast
    then show ?thesis using True s1 by (subst tick_hooks_from.simps) simp
  next
    case False
    then show ?thesis by (subst tick_hooks_from.simps) simp
  qed
qed

lemma wdt_entry_returns:
  assumes e: "callbacks_return e" and w: "wdt_answered (wdt s)" and i: "i < unat (wdt_count (wdt s))"
  shows "\<exists>s'. wdt_tick_entry e i s = Some s' \<and> wdt_answered (wdt s') \<and> wdt_count (wdt s') = wdt_count (wdt s)"
proof -
  define s1 where "s1 = (if wdt_remaining (wdt_table (wdt s) i) > 0 then upd_entry i (\<lambda>x. x\<lparr>wdt_remaining := wdt_remaining x - 1\<rparr>) s else s)"
  have up: "wdt_answered (wdt (upd_entry j (\<lambda>x. x\<lparr>wdt_remaining := f x\<rparr>) r)) = wdt_answered (wdt r)"
    "wdt_count (wdt (upd_entry j (\<lambda>x. x\<lparr>wdt_remaining := f x\<rparr>) r)) = wdt_count (wdt r)" for j f r
    by (auto simp: wdt_answered_def upd_entry_def upd_wdt_def)
  have w1: "wdt_answered (wdt s1)" "wdt_count (wdt s1) = wdt_count (wdt s)" using w by (simp_all add: s1_def up)
  have "\<exists>s2. wdt_fire e (wdt_table (wdt s1) i) s1 = Some s2 \<and> wdt s2 = wdt s1"
  proof -
    have "wdt_callback (wdt_table (wdt s1) i) \<noteq> NULL \<or> wdt_default_cb (wdt s1) \<noteq> NULL" using w1 i by (simp add: wdt_answered_def)
    moreover have "\<exists>s2. call_wdt e cb t p s1 = Some s2 \<and> wdt s2 = wdt s1" for cb t p
      using e unfolding callbacks_return_def tick_data_def by (metis prod.inject)
    ultimately show ?thesis by (auto simp: wdt_fire_def)
  qed
  then obtain s2 where s2: "wdt_fire e (wdt_table (wdt s1) i) s1 = Some s2" "wdt s2 = wdt s1" by blast
  have "wdt_tick_entry e i s = (if wdt_paused (wdt_table (wdt s) i) \<or> wdt_tcb (wdt_table (wdt s) i) = NULL then Some s
      else if wdt_remaining (wdt_table (wdt s1) i) = 0 then Some (upd_entry i (\<lambda>x. x\<lparr>wdt_remaining := wdt_deadline x\<rparr>) s2) else Some s1)"
    using s2(1) unfolding wdt_tick_entry_def Let_def s1_def by simp
  then show ?thesis using w w1 s2(2) by (simp add: up)
qed

lemma wdt_tick_returns:
  assumes e: "callbacks_return e" and w: "wdt_answered (wdt s)" shows "\<exists>s'. wdt_tick_from e i s = Some s'"
  using w
proof (induction "unat (wdt_count (wdt s)) - unat i" arbitrary: i s rule: less_induct)
  case less
  show ?case
  proof (cases "i < wdt_count (wdt s)")
    case True
    then have i: "unat i < unat (wdt_count (wdt s))" by (simp add: word_less_nat_alt)
    obtain s1 where s1: "wdt_tick_entry e (unat i) s = Some s1" "wdt_answered (wdt s1)" "wdt_count (wdt s1) = wdt_count (wdt s)"
      using wdt_entry_returns [OF e less.prems i] by blast
    have "unat (i + 1) = unat i + 1" by (rule unat_succ_below [OF True])
    then have "unat (wdt_count (wdt s1)) - unat (i + 1) < unat (wdt_count (wdt s)) - unat i"
      using i unfolding s1(3) by linarith
    from less.hyps [OF this s1(2)] obtain s' where "wdt_tick_from e (i + 1) s1 = Some s'" by blast
    then show ?thesis using True s1(1) by (subst wdt_tick_from.simps) simp
  next
    case False
    then show ?thesis by (subst wdt_tick_from.simps) simp
  qed
qed

lemma sem_give_wdt:
  assumes e: "switch e = Some" and k: "kernel_inv D s" "task_running s"
  shows "\<exists>st s'. os_sem_give e x s = Some (st, s') \<and> kernel_inv D s' \<and> wdt s' = wdt s"
proof -
  have "switch_ok e" using e by (simp add: switch_ok_def)
  then obtain st s' where g: "os_sem_give e x s = Some (st, s')" "kernel_inv D s'" using sem_give_ok [OF k, of e x] by (auto simp: returns_def)
  obtain A V where ok: "kernel_ok D s A V" using kernel_okE [OF k(1)] .
  let ?s = "os_sched_enter_critical s"
  have r: "rep ?s A V" using kernel_okD(1) [OF ok] by simp
  have f: "wdt s1 = wdt s" if "sem_wake_task x ?s = Some (t, s1)" for t s1
  proof (cases "A (SemW x)")
    case Nil
    then show ?thesis using wake_task_none [OF r, of "SemW x"] that by (auto simp: sem_wake_task_def wait_list_def crit_simps)
  next
    case (Cons u us)
    obtain d where d: "V u = Some d" using rep_member(2) [OF r, of u "SemW x"] Cons by auto
    from wake_task_some [OF r Cons d] states_okD(1) [OF kernel_okD(2) [OF ok] d] that frame_os(22) [of ?s s1]
    show ?thesis by (auto simp: sem_wake_task_def wait_list_def crit_simps)
  qed
  have y: "wdt s2 = wdt s1" if "yield_if_higher e t c s1 = Some s2" for t c s1 s2
    using that e by (auto simp: yield_if_higher_def os_sched_yield_def os_port_yield_def bind_eq_Some_conv split: if_splits)
  have "wdt s' = wdt s" using g(1) f y
    by (fastforce simp: os_sem_give_def Let_def bind_eq_Some_conv crit_simps upd_sem_def split: if_splits)
  then show ?thesis using g by blast
qed

lemma task_tick_data:
  assumes "kernel_inv D s" "task_running s" "os_task_check_stack_overflow s = Some ()"
  shows "\<exists>s'. os_task_tick e s = Some s' \<and> kernel_inv D s' \<and> task_running s' \<and> tick_data s' = tick_data s"
proof -
  obtain A V d where k: "kernel_ok D s A V" and d: "V (current_task_ptr s) = Some d" "runnable d" "current_task_ptr s \<noteq> NULL"
    using callerE [OF assms(1,2)] by metis
  note i = kernel_okD [OF k]
  obtain c0 where c0: "tcbs s (current_task_ptr s) = Some c0" "erase c0 = d" using rep_Some [OF i(1) d(1)] by blast
  have can: "canary_ok s d" using assms(3) d(3) c0
    by (auto simp: os_task_check_stack_overflow_def get_tcb_def canary_ok_def OS_ASSERT_def split: if_splits)
  obtain s' s2 where s': "os_task_tick e s = Some s'" "frame s s2" "s' = os_sched_exit_critical (os_sched_enter_critical s2)"
    using os_task_tick_rep [OF i(1,2,6) refl d(1,2) can, of e] by (elim exE conjE) (rule that)
  have "tick_data s' = tick_data s2" unfolding s'(3) by (simp add: tick_data_def crit_simps)
  also have "\<dots> = tick_data s" using frame_os [OF s'(2)] frame_tick_hooks [OF s'(2)] by (simp add: tick_data_def)
  finally show ?thesis using tick_ok [OF assms, of e] s'(1) by auto
qed

lemma timer_tick_returns:
  assumes e: "switch e = Some" and k: "kernel_inv D s" "task_running s"
    and t: "timers_ok s xs" "one_shot (timers s) xs" "tseg (timers s) (expired_list s) es NULL" "distinct (xs @ es)"
      "xs \<noteq> [] \<longrightarrow> 0 < tm_remaining (timers s (hd xs))"
  shows "\<exists>s'. os_timer_tick e s = Some s' \<and> kernel_inv D s' \<and> wdt s' = wdt s"
proof -
  define zs where "zs = map fst (filter (\<lambda>p. snd p = 1) (expiry (timers s) 0 xs))"
  obtain s1 where s1: "os_timer_tick e s = (if zs = [] then Some s1 else map_option snd (os_sem_give e (timer_sem e) s1))"
    "s1 = s\<lparr>timers := timers s1, active_timer_list := active_timer_list s1, expired_list := expired_list s1\<rparr>"
    using timer_tick_run [OF t zs_def refl, of e] by blast
  have "but_timers s1 = but_timers s" by (subst s1(2)) (simp add: but_timers_def)
  note k1 = keptD [OF but_timers_kept [OF this] k(1)]
  have w: "wdt s1 = wdt s" by (subst s1(2)) simp
  obtain st s' where "os_sem_give e (timer_sem e) s1 = Some (st, s')" "kernel_inv D s'" "wdt s' = wdt s1"
    using sem_give_wdt [OF e k1(1) k1(4) [OF k(2)]] by blast
  then show ?thesis using s1(1) k1(1) w by (cases "zs = []") auto
qed

text \<open>
  C26. The tick interrupt returns. In a state that satisfies the kernel invariant, with a running task whose canary is
  intact, one-shot timers only in a well-formed list, callbacks that return and leave the tables of the tick alone, and
  a callback for every watched task, \<open>SysTick_Handler\<close> returns: none of its loops (hooks, delayed tasks,
  deferred deletions, expired timers, watchdog entries, ready levels) runs forever and it uses no invalid control block. It leaves the
  invariant, every saved stack pointer, and either a running task or the current one as it was. Auto-reload timers are excluded: with
  one that is not served in time the tick does not return (\<open>auto_reload_starved\<close> in \<open>Timer_Tick\<close>).
\<close>

theorem systick_returns:
  assumes k: "kernel_inv D s" "task_running s" "os_task_check_stack_overflow s = Some ()" and e: "callbacks_return e"
    and t: "timers_ok s xs" "one_shot (timers s) xs" "tseg (timers s) (expired_list s) es NULL" "distinct (xs @ es)"
      "xs \<noteq> [] \<longrightarrow> 0 < tm_remaining (timers s (hd xs))"
    and w: "wdt_answered (wdt s)"
  shows "\<exists>s'. SysTick_Handler e s = Some s' \<and> kernel_inv D s' \<and> same_stacks s s' \<and> (task_running s' \<or> current_task_ptr s' = current_task_ptr s)"
proof -
  let ?e = "isr e" let ?s = "s\<lparr>system_tick := system_tick s + 1\<rparr>"
  have e1: "callbacks_return ?e" "switch ?e = Some" using e by (simp_all add: isr_def callbacks_return_def)
  have h: "hooks_ok ?e" by (rule callbacks_hooks_ok [OF e1(1)])
  have "kept s ?s" by (rule kept_same, rule rep_cong, simp_all add: crit_same_def) (rule list_head_cong, simp_all)
  note 0 = keptD [OF this k(1)]
  obtain s1 where s1: "tick_hooks_from ?e 0 ?s = Some s1" "tick_data s1 = tick_data ?s" using tick_hooks_return [OF e1(1)] by blast
  note 1 = keptD [OF tick_hooks_kept [OF h s1(1)] 0(1)]
  obtain s2 where s2: "os_task_tick ?e s1 = Some s2" "kernel_inv D s2" "task_running s2" "tick_data s2 = tick_data s1"
    using task_tick_data [OF 1(1) 1(4) [OF 0(4) [OF k(2)]] 1(5) [OF 0(5) [OF k(3)]], of ?e] by blast
  have td: "timers s2 = timers s" "active_timer_list s2 = active_timer_list s" "expired_list s2 = expired_list s" "wdt s2 = wdt s"
    using s1(2) s2(4) by (simp_all add: tick_data_def)
  have t2: "timers_ok s2 xs" "one_shot (timers s2) xs" "tseg (timers s2) (expired_list s2) es NULL" "xs \<noteq> [] \<longrightarrow> 0 < tm_remaining (timers s2 (hd xs))"
    using t by (simp_all add: timers_ok_def td)
  obtain s3 where s3: "os_timer_tick ?e s2 = Some s3" "kernel_inv D s3" "wdt s3 = wdt s2"
    using timer_tick_returns [OF e1(2) s2(2,3) t2(1-3) t(4) t2(4)] by blast
  obtain s4 where s4: "os_wdt_tick ?e s3 = Some s4" using wdt_tick_returns [OF e1(1)] w s3(3) td(4) unfolding os_wdt_tick_def by metis
  have "kept s3 s4" using wdt_tick_kept [OF h] s4 by (simp add: os_wdt_tick_def)
  from schedule_ok [OF keptD(1) [OF this s3(2)]] obtain s5 where "os_sched_select_next s4 = Some s5" by blast
  then have "SysTick_Handler e s = Some (os_port_yield s5)"
    using s1(1) s2(1) s3(1) s4 by (simp add: SysTick_Handler_def os_kernel_tick_increment_def)
  then show ?thesis using systick_inv [OF callbacks_hooks_ok [OF e] k] by blast
qed

lemma demo_due_task: "kernel_inv (dom demo_tcbs) demo_due" "task_running demo_due" "os_task_check_stack_overflow demo_due = Some ()"
proof -
  have "kept demo demo_due" by (rule but_timers_kept) (simp add: but_timers_def demo_due_def demo_def)
  note k = keptD [OF this demo_kernel_inv]
  have "task_running demo" "os_task_check_stack_overflow demo = Some ()"
    by (simp_all add: task_running_def get_tcb_def os_task_check_stack_overflow_def OS_ASSERT_def demo_def demo_tcb_def)
  then show "kernel_inv (dom demo_tcbs) demo_due" "task_running demo_due" "os_task_check_stack_overflow demo_due = Some ()" using k by blast+
qed

theorem systick_returns_witness:
  "\<exists>s'. SysTick_Handler demo_env demo_due = Some s' \<and> kernel_inv (dom demo_tcbs) s'"
proof -
  have a: "timers_ok demo_due [0x100, 0x200, 0x300]" "one_shot (timers demo_due) [0x100, 0x200, 0x300]" "tseg (timers demo_due) (expired_list demo_due) [] NULL"
    "distinct ([0x100, 0x200, 0x300 :: ptr] @ [])" "[0x100, 0x200, 0x300 :: ptr] \<noteq> [] \<longrightarrow> 0 < tm_remaining (timers demo_due (hd [0x100, 0x200, 0x300]))"
    by (simp_all add: timers_ok_def demo_due_def demo_timer_def ticks_of_def one_shot_def) (simp add: demo_def)
  have "callbacks_return demo_env" "wdt_answered (wdt demo_due)"
    by (simp_all add: callbacks_return_def demo_env_def kept_refl wdt_answered_def demo_due_def demo_def)
  then show ?thesis using systick_returns [OF demo_due_task _ a] by blast
qed

end
