(* ===== verification/Trace_Ring.thy ===== *)
theory Trace_Ring
  imports Critical Demo
begin

unbundle bit_operations_syntax

text \<open>
  The trace ring of \<open>kernel/trace.c\<close> (its operations are in \<open>Critical\<close>) against its
  specification: the log of the last 32 events.
\<close>

section \<open>The log a ring stands for\<close>

definition last_n :: "nat \<Rightarrow> 'a list \<Rightarrow> 'a list" where
  "last_n n xs = drop (length xs - n) xs"

lemma length_last_n [simp]: "length (last_n n xs) = min n (length xs)"
  by (simp add: last_n_def min_def)

lemma last_n_snoc: "0 < n \<Longrightarrow> last_n n (last_n n xs @ ys) = last_n n (xs @ ys)"
  by (cases "length xs \<le> n") (auto simp: last_n_def add.commute)

definition trace_pos :: "trace_state \<Rightarrow> nat \<Rightarrow> nat" where
  "trace_pos tr i = (if unat (trace_count tr) < 32 then i else (unat (trace_head tr) + i) mod 32)"

definition trace_log :: "trace_state \<Rightarrow> os_trace_entry list" where
  "trace_log tr = map (\<lambda>i. trace_buffer tr (trace_pos tr i)) [0..<unat (trace_count tr)]"

definition trace_ok :: "trace_state \<Rightarrow> bool" where
  "trace_ok tr \<longleftrightarrow> unat (trace_head tr) < 32 \<and> unat (trace_count tr) \<le> 32
     \<and> (unat (trace_count tr) < 32 \<longrightarrow> trace_head tr = trace_count tr)"

lemma trace_log_length [simp]: "length (trace_log tr) = unat (trace_count tr)"
  by (simp add: trace_log_def)

lemma trace_log_nth: "j < unat (trace_count tr) \<Longrightarrow> trace_log tr ! j = trace_buffer tr (trace_pos tr j)"
  by (simp add: trace_log_def)

lemma ring_moves_on: "h < 32 \<Longrightarrow> j < 31 \<Longrightarrow> (h + 1 + j) mod 32 \<noteq> (h :: nat)"
  by (cases "h + 1 + j < 32") (simp_all add: le_mod_geq)

lemma trace_push_log:
  assumes ok: "trace_ok tr" and i: "trace_initialized tr"
    and tr': "tr' = trace_push now ev a b tr" and e: "e = \<lparr>te_timestamp = now, te_event = ev, te_param1 = a, te_param2 = b\<rparr>"
  shows "trace_ok tr' \<and> trace_initialized tr' \<and> trace_log tr' = last_n 32 (trace_log tr @ [e])"
proof -
  let ?h = "unat (trace_head tr)" let ?c = "unat (trace_count tr)"
  have h: "?h < 32" "?c \<le> 32" using ok by (simp_all add: trace_ok_def)
  have u: "unat (trace_head tr + 1) = ?h + 1" "?c < 32 \<Longrightarrow> unat (trace_count tr + 1) = ?c + 1"
    using h unat_plus_one_u32 [of "trace_head tr"] unat_plus_one_u32 [of "trace_count tr"] by auto
  have head': "unat (trace_head tr') = (?h + 1) mod 32" using i u(1) by (simp add: tr' trace_push_def unat_mod)
  have lt: "trace_count tr < 32 \<longleftrightarrow> ?c < 32" by (simp add: word_less_nat_alt)
  have count': "unat (trace_count tr') = min 32 (?c + 1)" using i u(2) h(2) lt by (auto simp: tr' trace_push_def)
  have buf': "trace_buffer tr' = (trace_buffer tr)(?h := e)" "trace_initialized tr'" using i by (simp_all add: tr' trace_push_def e)
  show ?thesis
  proof (cases "?c < 32")
    case True
    then have hc: "?h = ?c" using ok by (simp add: trace_ok_def)
    have pos: "trace_pos tr' j = j" if "j < ?c + 1" for j
      using that True head' count' hc by (cases "?c + 1 = 32") (auto simp: trace_pos_def)
    have "trace_log tr' = map (\<lambda>j. ((trace_buffer tr)(?c := e)) j) [0..<?c + 1]"
      unfolding trace_log_def count' buf'(1) hc using True pos by simp
    also have "\<dots> = trace_log tr @ [e]" using True by (simp add: trace_log_def trace_pos_def)
    finally have "trace_log tr' = last_n 32 (trace_log tr @ [e])" using True by (simp add: last_n_def)
    moreover have "trace_ok tr'" using True head' count' hc by (simp add: trace_ok_def word_unat_eq_iff)
    ultimately show ?thesis using buf'(2) by simp
  next
    case False
    then have c: "?c = 32" using h(2) by simp
    have "trace_log tr' = tl (trace_log tr) @ [e]"
    proof (rule nth_equalityI)
      show "length (trace_log tr') = length (tl (trace_log tr) @ [e])" using count' c by simp
      fix j assume "j < length (trace_log tr')"
      then have j: "j < 32" using count' c by simp
      have p: "trace_pos tr' j = (?h + 1 + j) mod 32" using count' c head' by (simp add: trace_pos_def mod_add_left_eq)
      have l: "trace_log tr' ! j = ((trace_buffer tr)(?h := e)) ((?h + 1 + j) mod 32)"
        using trace_log_nth [of j tr'] j count' c unfolding p buf'(1) by simp
      show "trace_log tr' ! j = (tl (trace_log tr) @ [e]) ! j"
      proof (cases "j = 31")
        case True
        then have "(?h + 1 + j) mod 32 = ?h" using h(1) by simp
        then show ?thesis using l True c by (simp add: nth_append)
      next
        case False
        then have "(?h + 1 + j) mod 32 \<noteq> ?h" using ring_moves_on [OF h(1), of j] j by simp
        then have "trace_log tr' ! j = trace_buffer tr ((?h + 1 + j) mod 32)" using l by simp
        also have "\<dots> = trace_log tr ! Suc j" using trace_log_nth [of "Suc j" tr] False j c by (simp add: trace_pos_def)
        finally show ?thesis using False j c by (simp add: nth_append nth_tl)
      qed
    qed
    moreover have "trace_ok tr'" using count' c head' by (simp add: trace_ok_def)
    ultimately show ?thesis using buf'(2) c by (simp add: last_n_def drop_Suc)
  qed
qed


section \<open>Records and reads\<close>

definition entry_of :: "os \<Rightarrow> os_trace_event \<times> u32 \<times> u32 \<Rightarrow> os_trace_entry" where
  "entry_of s r = \<lparr>te_timestamp = system_tick s, te_event = fst r, te_param1 = fst (snd r), te_param2 = snd (snd r)\<rparr>"

definition record_all :: "(os_trace_event \<times> u32 \<times> u32) list \<Rightarrow> os \<Rightarrow> os" where
  "record_all rs s = fold (\<lambda>(ev, a, b). os_trace_record ev a b) rs s"

lemma record_all_log:
  assumes "trace_ok (trace s)" "trace_initialized (trace s)"
  shows "trace_ok (trace (record_all rs s)) \<and> trace_initialized (trace (record_all rs s)) \<and> system_tick (record_all rs s) = system_tick s
    \<and> trace_log (trace (record_all rs s)) = last_n 32 (trace_log (trace s) @ map (entry_of s) rs)"
proof (induction rs rule: rev_induct)
  case Nil
  have "length (trace_log (trace s)) \<le> 32" using assms(1) by (simp add: trace_ok_def)
  then show ?case using assms by (simp add: record_all_def last_n_def)
next
  case (snoc r rs)
  obtain ev a b where r: "r = (ev, a, b)" by (cases r)
  let ?s = "record_all rs s"
  have s': "record_all (rs @ [r]) s = ?s\<lparr>trace := trace_push (system_tick ?s) ev a b (trace ?s)\<rparr>"
    by (simp add: record_all_def r trace_record_nf)
  have "trace_ok (trace ?s)" "trace_initialized (trace ?s)" and l: "trace_log (trace ?s) = last_n 32 (trace_log (trace s) @ map (entry_of s) rs)"
    and t: "system_tick ?s = system_tick s" using snoc by simp_all
  moreover have e: "\<lparr>te_timestamp = system_tick ?s, te_event = ev, te_param1 = a, te_param2 = b\<rparr> = entry_of s r"
    using t by (simp add: entry_of_def r)
  ultimately show ?case
    unfolding s' using trace_push_log [of "trace ?s" _ "system_tick ?s" ev a b "entry_of s r", OF _ _ refl e [symmetric]]
      last_n_snoc [of 32 "trace_log (trace s) @ map (entry_of s) rs" "[entry_of s r]"] by simp
qed

lemma trace_read_log:
  assumes "trace_ok (trace s)"
  shows "os_trace_read i True s = (if unat i < length (trace_log (trace s)) then (OS_OK, Some (trace_log (trace s) ! unat i)) else (OS_ERR_PARAM, None))"
proof (cases "unat i < unat (trace_count (trace s))")
  case True
  let ?tr = "trace s"
  have h: "unat (trace_head ?tr) < 32" "unat (trace_count ?tr) \<le> 32" using assms by (simp_all add: trace_ok_def)
  have "unat (trace_head ?tr + i) = unat (trace_head ?tr) + unat i" using h True by (simp add: unat_word_ariths)
  then have "unat (if trace_count ?tr < 32 then i else (trace_head ?tr + i) mod 32) = trace_pos ?tr (unat i)"
    by (simp add: trace_pos_def unat_mod word_less_nat_alt)
  then show ?thesis
    using True trace_log_nth [OF True] by (cases "trace_count ?tr < 32") (simp_all add: os_trace_read_def Let_def word_le_nat_alt not_le)
next
  case False
  then show ?thesis by (simp add: os_trace_read_def word_le_nat_alt not_le)
qed

text \<open>
  C36. The trace ring is the log of the last 32 events. From a well-formed initialized ring, after any
  number of calls of \<open>os_trace_record\<close>, \<open>os_trace_read\<close> with index i returns the i-th
  oldest of the last 32 entries of the old log followed by the new records, with their time stamps and
  parameters, and \<open>OS_ERR_PARAM\<close> for every index past them, however often the ring has wrapped
  around; \<open>os_trace_get_count\<close> is the length of that list.
\<close>

theorem trace_ring_is_log:
  assumes "trace_ok (trace s)" "trace_initialized (trace s)"
    and log: "L = last_n 32 (trace_log (trace s) @ map (entry_of s) rs)"
  shows "unat (os_trace_get_count (record_all rs s)) = length L
    \<and> os_trace_read i True (record_all rs s) = (if unat i < length L then (OS_OK, Some (L ! unat i)) else (OS_ERR_PARAM, None))"
proof -
  note r = record_all_log [OF assms(1,2), of rs]
  have "trace_log (trace (record_all rs s)) = L" using r log by simp
  then show ?thesis
    using r trace_read_log [of "record_all rs s" i] trace_log_length [of "trace (record_all rs s)"] by (simp add: os_trace_get_count_def)
qed

theorem trace_ring_is_log_witness:
  "os_trace_read 0 True (record_all (map (\<lambda>i. (OS_TRACE_USER, of_nat i, 0)) [0..<40]) demo)
     = (OS_OK, Some \<lparr>te_timestamp = 0, te_event = OS_TRACE_USER, te_param1 = 8, te_param2 = 0\<rparr>)"
proof -
  let ?rs = "map (\<lambda>i. (OS_TRACE_USER, of_nat i, 0)) [0..<40]"
  have d: "trace_ok (trace demo)" "trace_initialized (trace demo)" "trace_log (trace demo) = []" "system_tick demo = 0"
    by (simp_all add: demo_def trace_ok_def trace_log_def)
  have "last_n 32 (map (entry_of demo) ?rs) = map (entry_of demo \<circ> (\<lambda>i. (OS_TRACE_USER, of_nat i, 0))) [8..<40]"
    by (simp add: last_n_def drop_map)
  then show ?thesis using trace_ring_is_log [OF d(1,2) refl, of ?rs 0] d(3,4) by (simp add: entry_of_def upt_conv_Cons)
qed

end
