(* ===== verification/Nesting.thy ===== *)
theory Nesting
  imports Kernel
begin

unbundle bit_operations_syntax

text \<open>
  The build with \<open>OS_CONFIG_USE_INTERRUPT_NESTING\<close> set to 1: the BASEPRI critical sections of
  \<open>port/port.c\<close>, the interrupt depth counter of \<open>kernel/scheduler.c\<close> with the PendSV request
  at the exit of the outermost handler, and the tick, which then leaves the choice of the next task to
  PendSV. The repository's configuration compiles the PRIMASK variants of \<open>Critical\<close> and
  \<open>Kernel\<close> instead. The two variables that exist only in this build are in the record
  \<open>irq\<close>, beside the kernel state.
\<close>

section \<open>Operations\<close>

record irq =
  irq_nesting_depth :: u32
  basepri :: u32

definition OS_CONFIG_NVIC_PRIO_BITS :: nat where "OS_CONFIG_NVIC_PRIO_BITS = 4"
definition OS_CONFIG_MAX_SYSCALL_INTERRUPT_PRIORITY :: u32 where "OS_CONFIG_MAX_SYSCALL_INTERRUPT_PRIORITY = 5"
definition BASEPRI_SHIFT :: nat where "BASEPRI_SHIFT = 8 - OS_CONFIG_NVIC_PRIO_BITS"

definition os_port_enter_critical_basepri :: "irq \<Rightarrow> u32 \<times> irq" where
  "os_port_enter_critical_basepri q =
     (let threshold = push_bit BASEPRI_SHIFT OS_CONFIG_MAX_SYSCALL_INTERRUPT_PRIORITY AND 0xFF
      in (basepri q, q\<lparr>basepri := threshold\<rparr>))"

definition os_port_exit_critical_basepri :: "u32 \<Rightarrow> irq \<Rightarrow> irq" where
  "os_port_exit_critical_basepri m q = q\<lparr>basepri := m\<rparr>"

definition os_sched_init_nesting :: "irq \<times> os \<Rightarrow> irq \<times> os" where
  "os_sched_init_nesting qs = (let (q, s) = qs in (q\<lparr>irq_nesting_depth := 0\<rparr>, os_sched_init s))"

definition os_sched_consume_yield_pending :: "os \<Rightarrow> bool \<times> os" where
  "os_sched_consume_yield_pending s =
     (if yield_pending s \<noteq> 0 then (True, s\<lparr>yield_pending := 0\<rparr>) else (False, s))"

definition os_sched_isr_enter :: "irq \<times> os \<Rightarrow> irq \<times> os" where
  "os_sched_isr_enter qs = (let (q, s) = qs in (q\<lparr>irq_nesting_depth := irq_nesting_depth q + 1\<rparr>, s))"

definition os_sched_isr_exit :: "irq \<times> os \<Rightarrow> irq \<times> os" where
  "os_sched_isr_exit qs =
     (let (q, s) = qs in
      if irq_nesting_depth q > 0
      then let q = q\<lparr>irq_nesting_depth := irq_nesting_depth q - 1\<rparr> in
           if irq_nesting_depth q = 0
           then let (b, s) = os_sched_consume_yield_pending s in (q, if b then os_port_yield s else s)
           else (q, s)
      else (q, s))"

definition os_port_isr_enter :: "irq \<times> os \<Rightarrow> irq \<times> os" where
  "os_port_isr_enter qs = os_sched_isr_enter qs"

definition os_port_isr_exit :: "irq \<times> os \<Rightarrow> irq \<times> os" where
  "os_port_isr_exit qs = os_sched_isr_exit qs"

definition os_kernel_tick_increment_nesting :: "env \<Rightarrow> os \<Rightarrow> os option" where
  "os_kernel_tick_increment_nesting e s =
     do {
       let s = s\<lparr>system_tick := system_tick s + 1\<rparr>;
       s \<leftarrow> tick_hooks_from e 0 s;
       s \<leftarrow> os_task_tick e s;
       s \<leftarrow> os_timer_tick e s;
       os_wdt_tick e s
     }"

definition SysTick_Handler_nesting :: "env \<Rightarrow> irq \<times> os \<Rightarrow> (irq \<times> os) option" where
  "SysTick_Handler_nesting e qs =
     (let (q, s) = os_port_isr_enter qs in
      do { s \<leftarrow> os_kernel_tick_increment_nesting (isr e) s; Some (os_port_isr_exit (q, s)) })"

section \<open>Nested handlers\<close>










end
