(* ===== verification/Port_M0.thy ===== *)
theory Port_M0
  imports Context_Switch Nesting
begin

unbundle bit_operations_syntax

text \<open>
  The port for the Cortex-M0, \<open>port/cortex_m0/port_m0.c\<close>: only PRIMASK critical sections, an
  NVIC with 32 interrupts and two declared \<open>SHPR\<close> registers, and a PendSV handler that moves R8
  to R11 through the low registers, because the core cannot store them directly. The names carry the
  suffix \<open>_m0\<close>. A shift by 32 or more, which C leaves undefined, and an index outside a
  register array are \<open>None\<close>.
\<close>

section \<open>Constants\<close>

definition INITIAL_XPSR_m0 :: u32 where "INITIAL_XPSR_m0 = 0x01000000"
definition SYSTICK_LOAD_MAX_m0 :: u32 where "SYSTICK_LOAD_MAX_m0 = 0x00FFFFFF"
definition SYSTICK_CTRL_ENABLE_m0 :: u32 where "SYSTICK_CTRL_ENABLE_m0 = push_bit 0 1"
definition SYSTICK_CTRL_TICKINT_m0 :: u32 where "SYSTICK_CTRL_TICKINT_m0 = push_bit 1 1"
definition SYSTICK_CTRL_CLKSOURCE_m0 :: u32 where "SYSTICK_CTRL_CLKSOURCE_m0 = push_bit 2 1"
definition SCB_ICSR_PENDSVSET_m0 :: u32 where "SCB_ICSR_PENDSVSET_m0 = push_bit 28 1"
definition SCB_AIRCR_VECTKEY_m0 :: u32 where "SCB_AIRCR_VECTKEY_m0 = 0x05FA0000"
definition SCB_AIRCR_PRIGROUP_MASK_m0 :: u32 where "SCB_AIRCR_PRIGROUP_MASK_m0 = 0x00000700"

section \<open>Stack initialization\<close>

definition os_port_stack_init_m0 ::
    "ptr \<Rightarrow> ptr \<Rightarrow> ptr \<Rightarrow> u32 \<Rightarrow> (ptr \<Rightarrow> u32) \<Rightarrow> ptr \<times> (ptr \<Rightarrow> u32)" where
  "os_port_stack_init_m0 func param base sz m =
     (let sp = ((base + sz) + 7) AND NOT 7;
          st = (sp, m);
          st = push INITIAL_XPSR_m0 st;
          st = push func st;
          st = push 0xFFFFFFFE st;
          st = push 0x12121212 st;
          st = push 0x03030303 st;
          st = push 0x02020202 st;
          st = push 0x01010101 st;
          st = push param st;
          st = push 0x11111111 st;
          st = push 0x10101010 st;
          st = push 0x09090909 st;
          st = push 0x08080808 st;
          st = push 0x07070707 st;
          st = push 0x06060606 st;
          st = push 0x05050505 st
      in push 0x04040404 st)"

section \<open>Critical sections\<close>

definition os_port_enter_critical_m0 :: "os \<Rightarrow> u32 \<times> os" where
  "os_port_enter_critical_m0 s = (primask s, s\<lparr>primask := 1\<rparr>)"

definition os_port_exit_critical_m0 :: "u32 \<Rightarrow> os \<Rightarrow> os" where
  "os_port_exit_critical_m0 pm s = s\<lparr>primask := pm\<rparr>"

section \<open>PendSV request, SysTick and NVIC\<close>

definition os_port_yield_m0 :: "os \<Rightarrow> os" where
  "os_port_yield_m0 s = s\<lparr>icsr := icsr s OR SCB_ICSR_PENDSVSET_m0\<rparr>"

definition os_port_systick_init_m0 :: "u32 \<Rightarrow> periph \<Rightarrow> periph" where
  "os_port_systick_init_m0 freq_hz r =
     (let reload = OS_CONFIG_CPU_CLOCK_HZ div freq_hz;
          reload = (if reload > SYSTICK_LOAD_MAX_m0 then SYSTICK_LOAD_MAX_m0 else reload)
      in r\<lparr>syst_load := reload - 1, syst_val := 0,
           syst_ctrl := SYSTICK_CTRL_ENABLE_m0 OR SYSTICK_CTRL_TICKINT_m0 OR SYSTICK_CTRL_CLKSOURCE_m0\<rparr>)"

definition os_port_nvic_set_priority_group_m0 :: "u32 \<Rightarrow> periph \<Rightarrow> periph" where
  "os_port_nvic_set_priority_group_m0 grp r =
     (let aircr = scb_aircr r;
          aircr = aircr AND NOT (SCB_AIRCR_PRIGROUP_MASK_m0 OR 0xFFFF);
          aircr = aircr OR (SCB_AIRCR_VECTKEY_m0 OR push_bit 8 grp)
      in r\<lparr>scb_aircr := aircr\<rparr>)"

definition os_port_nvic_set_priority_m0 :: "u32 \<Rightarrow> u32 \<Rightarrow> periph \<Rightarrow> periph option" where
  "os_port_nvic_set_priority_m0 irqn p r =
     (let prio = push_bit (8 - OS_CONFIG_NVIC_PRIO_BITS) p AND 0xFF in
      if 0 \<le> sint irqn
      then if unat irqn < 8 then Some (r\<lparr>nvic_ip := (nvic_ip r)(unat irqn := prio)\<rparr>) else None
      else let pos = (if - 11 \<le> sint irqn \<and> sint irqn \<le> - 4 then Some (0, nat (- sint irqn - 4) * 8)
                      else if - 14 \<le> sint irqn \<and> sint irqn \<le> - 12 then Some (1, nat (- sint irqn - 12) * 8)
                      else if sint irqn = - 1 then Some (1, 24)
                      else None)
           in case pos of
                None \<Rightarrow> Some r
              | Some (idx, shift) \<Rightarrow>
                  if shift < 32
                  then Some (r\<lparr>scb_shpr := (scb_shpr r)(idx := (scb_shpr r idx AND NOT (push_bit shift 0xFF)) OR push_bit shift prio)\<rparr>)
                  else None)"

definition os_port_nvic_enable_irq_m0 :: "u32 \<Rightarrow> periph \<Rightarrow> periph option" where
  "os_port_nvic_enable_irq_m0 irqn r =
     (if 0 \<le> sint irqn
      then if unat irqn < 32 then Some (r\<lparr>nvic_iser := (nvic_iser r)(0 := push_bit (unat irqn) 1)\<rparr>) else None
      else Some r)"

definition os_port_nvic_disable_irq_m0 :: "u32 \<Rightarrow> periph \<Rightarrow> periph option" where
  "os_port_nvic_disable_irq_m0 irqn r =
     (if 0 \<le> sint irqn
      then if unat irqn < 32 then Some (r\<lparr>nvic_icer := (nvic_icer r)(0 := push_bit (unat irqn) 1)\<rparr>) else None
      else Some r)"

definition os_port_nvic_set_priority_init_m0 :: "periph \<Rightarrow> periph option" where
  "os_port_nvic_set_priority_init_m0 r =
     do {
       r \<leftarrow> os_port_nvic_set_priority_m0 (- 14) OS_CONFIG_PENDSV_PRIORITY r;
       os_port_nvic_set_priority_m0 (- 1) OS_CONFIG_SYSTICK_PRIORITY r
     }"

section \<open>Newlib stubs\<close>

definition newlib_kill_m0 :: "u32 \<Rightarrow> u32 \<Rightarrow> u32" where "newlib_kill_m0 pid sig = - 1"

definition newlib_getpid_m0 :: u32 where "newlib_getpid_m0 = 1"

text \<open>The state of \<open>_sbrk\<close> is \<open>heap_end\<close>; \<open>ebss\<close> is the linker's symbol.\<close>

definition newlib_sbrk_m0 :: "ptr \<Rightarrow> u32 \<Rightarrow> ptr \<Rightarrow> ptr \<times> ptr" where
  "newlib_sbrk_m0 ebss incr heap_end =
     (let heap_end = (if heap_end = NULL then ebss else heap_end) in (heap_end, heap_end + incr))"

section \<open>Context switch\<close>

text \<open>
  \<open>mov r8, r4\<close> to \<open>mov r11, r7\<close>, and the moves back. R0 to R3 are scratch registers of the
  handler (\<open>asm\<close> in \<open>Context_Switch\<close>); the exception return reloads them.
\<close>

definition low_to_high_m0 :: "(nat \<Rightarrow> u32) \<Rightarrow> nat \<Rightarrow> u32" where
  "low_to_high_m0 r = r(8 := r 4, 9 := r 5, 10 := r 6, 11 := r 7)"

definition high_to_low_m0 :: "(nat \<Rightarrow> u32) \<Rightarrow> nat \<Rightarrow> u32" where
  "high_to_low_m0 r = r(4 := r 8, 5 := r 9, 6 := r 10, 7 := r 11)"

definition PendSV_Handler_m0 :: "asm \<Rightarrow> cpu \<times> os \<Rightarrow> (cpu \<times> os) option" where
  "PendSV_Handler_m0 w cs =
     (let (c, s) = cs in
      do {
        let s = s\<lparr>primask := 1\<rparr>;
        let r0 = psp c;
        let r3 = r0 - 32;
        let s = s\<lparr>mem32 := store_words r3 (map (reg c) [4..<8]) (mem32 s)\<rparr>;
        let r3 = r3 + 16;
        let c = c\<lparr>reg := high_to_low_m0 (reg c)\<rparr>;
        let s = s\<lparr>mem32 := store_words r3 (map (reg c) [4..<8]) (mem32 s)\<rparr>;
        let r3 = r3 + 16;
        let r0 = r0 - 32;
        let c = c\<lparr>reg := (reg c)(0 := r0, 1 := at_current_task_ptr w, 2 := current_task_ptr s, 3 := r3)\<rparr>;
        s \<leftarrow> upd_tcb (current_task_ptr s) (\<lambda>t. t\<lparr>stack_ptr := r0\<rparr>) s;
        s \<leftarrow> os_sched_select_next s;
        let c = c\<lparr>reg := (after_call w (reg c))(1 := at_current_task_ptr w, 2 := current_task_ptr s)\<rparr>;
        t \<leftarrow> get_tcb (current_task_ptr s) s;
        let r0 = stack_ptr t;
        let c = c\<lparr>reg := set_regs 4 (load_words r0 4 (mem32 s)) (reg c)\<rparr>;
        let r0 = r0 + 16;
        let c = c\<lparr>reg := low_to_high_m0 (reg c)\<rparr>;
        let c = c\<lparr>reg := set_regs 4 (load_words r0 4 (mem32 s)) (reg c)\<rparr>;
        let r0 = r0 + 16;
        Some (c\<lparr>reg := (reg c)(0 := r0), psp := r0\<rparr>, s\<lparr>primask := 0\<rparr>)
      })"

definition os_task_set_current_m0 :: "ptr \<Rightarrow> os \<Rightarrow> os" where
  "os_task_set_current_m0 t s = s\<lparr>current_task_ptr := t\<rparr>"

definition os_task_get_current_m0 :: "os \<Rightarrow> ptr" where
  "os_task_get_current_m0 s = current_task_ptr s"

definition os_port_start_first_task_m0 :: "cpu \<times> os \<Rightarrow> (cpu \<times> os) option" where
  "os_port_start_first_task_m0 cs =
     (let (c, s) = cs; tcb = os_task_get_current_m0 s in
      if tcb = NULL then Some (c, s)
      else do {
        t \<leftarrow> get_tcb tcb s;
        let sp = stack_ptr t;
        let w = (\<lambda>i. mem32 s (word_at sp i));
        let r = set_regs 4 [w 0, w 1, w 2, w 3] (reg c);
        let r = low_to_high_m0 r;
        let r = set_regs 4 [w 4, w 5, w 6, w 7] r;
        let r = set_regs 0 [w 8, w 9, w 10, w 11] r;
        let r = r(12 := w 12);
        Some (c\<lparr>reg := r, control := 2, lr := w 13, pc := w 14, psp := sp + 60\<rparr>, s)
      })"

definition SysTick_Handler_m0 :: "env \<Rightarrow> os \<Rightarrow> os option" where
  "SysTick_Handler_m0 e s = do { s \<leftarrow> os_kernel_tick_increment (isr e) s; Some (os_port_yield_m0 s) }"

section \<open>The context switch against that of the Cortex-M3\<close>

text \<open>R4 to R7 exchanged with R8 to R11.\<close>

definition swap_banks :: "(nat \<Rightarrow> u32) \<Rightarrow> nat \<Rightarrow> u32" where
  "swap_banks r i = (if i \<in> {4..<8} then r (i + 4) else if i \<in> {8..<12} then r (i - 4) else r i)"

lemma store_two:
  "store_words (p + 16) [e, f, g, h] (store_words p [a, b, c, d] m) = store_words p [a, b, c, d, e, f, g, h] m"
  by (simp add: store_words_def word_at_def upt_rec numeral_eq_Suc add.commute [of _ p])

lemma load_two: "load_words p 8 m = load_words p 4 m @ load_words (p + 16) 4 m"
  by (simp add: load_words_def word_at_def upt_rec add.assoc)

lemma restored_m0:
  assumes "length xs = 4" "length ys = 4"
  shows "set_regs 4 ys (low_to_high_m0 (set_regs 4 xs (high_to_low_m0 r))) = swap_banks (set_regs 4 (xs @ ys) r)"
proof
  fix i :: nat
  consider "i < 4" | "4 \<le> i \<and> i < 8" | "i = 8" | "i = 9" | "i = 10" | "i = 11" | "12 \<le> i" by linarith
  then show "set_regs 4 ys (low_to_high_m0 (set_regs 4 xs (high_to_low_m0 r))) i = swap_banks (set_regs 4 (xs @ ys) r) i"
    using assms by cases (auto simp: set_regs_def low_to_high_m0_def high_to_low_m0_def swap_banks_def nth_append)
qed

lemma banks_r0: "(low_to_high_m0 r)(0 := x) = low_to_high_m0 (r(0 := x))"
  by (auto simp: low_to_high_m0_def)

lemma after_call_m0:
  "(after_call w ((high_to_low_m0 r)(0 := a, Suc 0 := b, 2 := c, 3 := d)))(Suc 0 := e, 2 := f, 0 := g)
     = high_to_low_m0 ((after_call w r)(Suc 0 := e, 2 := f, 0 := g))"
  by (auto simp: after_call_def high_to_low_m0_def)

text \<open>
  The PendSV handler of the Cortex-M0 port saves the same frame and makes the same scheduling
  decision as that of the Cortex-M3 port, but restores the two halves of the frame into the wrong
  registers: the incoming task finds in R4 to R7 what it had in R8 to R11, and the other way round.
\<close>

theorem pendsv_m0_swaps_register_banks:
  "PendSV_Handler_m0 w (c, s) = map_option (\<lambda>(c', s'). (c'\<lparr>reg := swap_banks (reg c')\<rparr>, s')) (PendSV_Handler w (c, s))"
proof -
  have st: "store_words (psp c - 16) [high_to_low_m0 (reg c) 4, high_to_low_m0 (reg c) 5, high_to_low_m0 (reg c) 6, high_to_low_m0 (reg c) 7]
       (store_words (psp c - 32) [reg c 4, reg c 5, reg c 6, reg c 7] m) = store_words (psp c - 32) (map (reg c) [4..<12]) m" for m
    using store_two [of "psp c - 32"] by (simp add: high_to_low_m0_def upt_rec)
  have rg: "set_regs 4 (load_words (16 + p) 4 m) (low_to_high_m0 (set_regs 4 (load_words p 4 m) (high_to_low_m0 r)))
      = swap_banks (set_regs 4 (load_words p 8 m) r)" for p m r
    using restored_m0 [of "load_words p 4 m" "load_words (p + 16) 4 m" r] by (simp add: load_two add.commute [of 16])
  have mb: "map_option g (Option.bind x f) = Option.bind x (\<lambda>y. map_option g (f y))" for g :: "'x \<Rightarrow> 'y" and x :: "'z option" and f
    by (cases x) simp_all
  have sw: "c\<lparr>psp := a, reg := b\<rparr> = c\<lparr>reg := b, psp := a\<rparr>" for a b by (cases c) simp
  show ?thesis
    by (simp add: PendSV_Handler_m0_def PendSV_Handler_def Let_def st after_call_m0 banks_r0 rg mb add.commute [of _ 16] add.commute [of _ 32] del: get_tcb_Some)
      (simp only: sw)
qed

text \<open>The rest of the port agrees with that of the Cortex-M3.\<close>

lemma common_m0:
  "os_port_stack_init_m0 = os_port_stack_init" "os_port_systick_init_m0 = os_port_systick_init"
  "os_port_nvic_set_priority_group_m0 = os_port_nvic_set_priority_group" "os_port_yield_m0 = os_port_yield"
  "os_port_enter_critical_m0 = os_port_enter_critical" "os_port_exit_critical_m0 = os_port_exit_critical"
  "SysTick_Handler_m0 = SysTick_Handler"
  by (simp_all add: fun_eq_iff os_port_stack_init_m0_def os_port_stack_init_def initial_frame_def INITIAL_XPSR_m0_def
      INITIAL_XPSR_def Let_def os_port_systick_init_m0_def os_port_systick_init_def SYSTICK_LOAD_MAX_m0_def SYSTICK_LOAD_MAX_def
      SYSTICK_CTRL_ENABLE_m0_def SYSTICK_CTRL_ENABLE_def SYSTICK_CTRL_TICKINT_m0_def SYSTICK_CTRL_TICKINT_def
      SYSTICK_CTRL_CLKSOURCE_m0_def SYSTICK_CTRL_CLKSOURCE_def os_port_nvic_set_priority_group_m0_def
      os_port_nvic_set_priority_group_def SCB_AIRCR_VECTKEY_m0_def SCB_AIRCR_VECTKEY_def SCB_AIRCR_PRIGROUP_MASK_m0_def
      SCB_AIRCR_PRIGROUP_MASK_def os_port_yield_m0_def os_port_yield_def SCB_ICSR_PENDSVSET_m0_def SCB_ICSR_PENDSVSET_def
      os_port_enter_critical_m0_def os_port_enter_critical_def os_port_exit_critical_m0_def os_port_exit_critical_def
      SysTick_Handler_m0_def SysTick_Handler_def)

text \<open>
  The boot code writes both priorities into \<open>SHPR[1]\<close>, the register at \<open>0xE000ED1C\<close> (SVCall);
  the priorities of PendSV and SysTick are in the next one, which the structure does not declare.
\<close>

lemma nvic_init_m0:
  "\<exists>r'. os_port_nvic_set_priority_init_m0 r = Some r' \<and> (\<forall>i. i \<noteq> 1 \<longrightarrow> scb_shpr r' i = scb_shpr r i)
     \<and> nvic_ip r' = nvic_ip r"
  by (simp add: os_port_nvic_set_priority_init_m0_def os_port_nvic_set_priority_m0_def Let_def)

text \<open>Exceptions -8 to -11 name a byte that is not in the register: the shift is 32 or more.\<close>

lemma nvic_set_priority_m0_undefined:
  "os_port_nvic_set_priority_m0 (- 8) p r = None" "os_port_nvic_set_priority_m0 (- 11) p r = None"
  by (simp_all add: os_port_nvic_set_priority_m0_def Let_def)

end
