(* ===== verification/Port_M4.thy ===== *)
theory Port_M4
  imports Context_Switch Nesting
begin

unbundle bit_operations_syntax

text \<open>
  The port for the Cortex-M4, \<open>port/cortex_m4/port_m4.c\<close>: the operations of the Cortex-M3 port
  again, the FPU enable, and a PendSV handler that also saves S16 to S31 when bit 4 of the
  \<open>EXC_RETURN\<close> value in R14 says that the interrupted task used the FPU. The names carry the
  suffix \<open>_m4\<close>.
\<close>

section \<open>Registers\<close>

record periph_m4 = periph +
  scb_cpacr :: u32

record cpu_m4 = cpu +
  sreg :: "nat \<Rightarrow> u32"

definition SCB_CPACR_CP10_FULL_m4 :: u32 where "SCB_CPACR_CP10_FULL_m4 = push_bit 20 3"
definition SCB_CPACR_CP11_FULL_m4 :: u32 where "SCB_CPACR_CP11_FULL_m4 = push_bit 22 3"
definition INITIAL_XPSR_m4 :: u32 where "INITIAL_XPSR_m4 = 0x01000000"
definition SYSTICK_LOAD_MAX_m4 :: u32 where "SYSTICK_LOAD_MAX_m4 = 0x00FFFFFF"
definition SYSTICK_CTRL_ENABLE_m4 :: u32 where "SYSTICK_CTRL_ENABLE_m4 = push_bit 0 1"
definition SYSTICK_CTRL_TICKINT_m4 :: u32 where "SYSTICK_CTRL_TICKINT_m4 = push_bit 1 1"
definition SYSTICK_CTRL_CLKSOURCE_m4 :: u32 where "SYSTICK_CTRL_CLKSOURCE_m4 = push_bit 2 1"
definition SCB_ICSR_PENDSVSET_m4 :: u32 where "SCB_ICSR_PENDSVSET_m4 = push_bit 28 1"
definition BASEPRI_SHIFT_m4 :: nat where "BASEPRI_SHIFT_m4 = 8 - OS_CONFIG_NVIC_PRIO_BITS"
definition SCB_AIRCR_VECTKEY_m4 :: u32 where "SCB_AIRCR_VECTKEY_m4 = 0x05FA0000"
definition SCB_AIRCR_PRIGROUP_MASK_m4 :: u32 where "SCB_AIRCR_PRIGROUP_MASK_m4 = 0x00000700"

definition prv_fpu_enable_m4 :: "periph_m4 \<Rightarrow> periph_m4" where
  "prv_fpu_enable_m4 r = r\<lparr>scb_cpacr := scb_cpacr r OR (SCB_CPACR_CP10_FULL_m4 OR SCB_CPACR_CP11_FULL_m4)\<rparr>"

section \<open>Stack initialization\<close>

definition os_port_stack_init_m4 ::
    "ptr \<Rightarrow> ptr \<Rightarrow> ptr \<Rightarrow> u32 \<Rightarrow> (ptr \<Rightarrow> u32) \<Rightarrow> ptr \<times> (ptr \<Rightarrow> u32)" where
  "os_port_stack_init_m4 func param base sz m =
     (let sp = ((base + sz) + 7) AND NOT 7;
          st = (sp, m);
          st = push INITIAL_XPSR_m4 st;
          st = push func st;
          st = push 0xFFFFFFFE st;
          st = push 0x12121212 st;
          st = push 0x03030303 st;
          st = push 0x02020202 st;
          st = push 0x01010101 st;
          st = push param st;
          st = push 0x11111111 st;
          st = push 0x10101010 st;
          st = push 0x09090909 st;
          st = push 0x08080808 st;
          st = push 0x07070707 st;
          st = push 0x06060606 st;
          st = push 0x05050505 st
      in push 0x04040404 st)"

section \<open>Critical sections\<close>

text \<open>With interrupt nesting BASEPRI is raised to the threshold, without it PRIMASK is set.\<close>

definition os_port_enter_critical_basepri_m4 :: "irq \<Rightarrow> u32 \<times> irq" where
  "os_port_enter_critical_basepri_m4 q =
     (let threshold = push_bit BASEPRI_SHIFT_m4 OS_CONFIG_MAX_SYSCALL_INTERRUPT_PRIORITY AND 0xFF
      in (basepri q, q\<lparr>basepri := threshold\<rparr>))"

definition os_port_exit_critical_basepri_m4 :: "u32 \<Rightarrow> irq \<Rightarrow> irq" where
  "os_port_exit_critical_basepri_m4 pm q = q\<lparr>basepri := pm\<rparr>"

definition os_port_enter_critical_m4 :: "os \<Rightarrow> u32 \<times> os" where
  "os_port_enter_critical_m4 s = (primask s, s\<lparr>primask := 1\<rparr>)"

definition os_port_exit_critical_m4 :: "u32 \<Rightarrow> os \<Rightarrow> os" where
  "os_port_exit_critical_m4 pm s = s\<lparr>primask := pm\<rparr>"

definition os_port_isr_enter_m4 :: "irq \<times> os \<Rightarrow> irq \<times> os" where
  "os_port_isr_enter_m4 qs = os_sched_isr_enter qs"

definition os_port_isr_exit_m4 :: "irq \<times> os \<Rightarrow> irq \<times> os" where
  "os_port_isr_exit_m4 qs = os_sched_isr_exit qs"

section \<open>PendSV request, SysTick and NVIC\<close>

definition os_port_yield_m4 :: "os \<Rightarrow> os" where
  "os_port_yield_m4 s = s\<lparr>icsr := icsr s OR SCB_ICSR_PENDSVSET_m4\<rparr>"

definition os_port_systick_init_m4 :: "u32 \<Rightarrow> periph \<Rightarrow> periph" where
  "os_port_systick_init_m4 freq_hz r =
     (let reload = OS_CONFIG_CPU_CLOCK_HZ div freq_hz;
          reload = (if reload > SYSTICK_LOAD_MAX_m4 then SYSTICK_LOAD_MAX_m4 else reload)
      in r\<lparr>syst_load := reload - 1, syst_val := 0,
           syst_ctrl := SYSTICK_CTRL_ENABLE_m4 OR SYSTICK_CTRL_TICKINT_m4 OR SYSTICK_CTRL_CLKSOURCE_m4\<rparr>)"

definition os_port_nvic_set_priority_group_m4 :: "u32 \<Rightarrow> periph \<Rightarrow> periph" where
  "os_port_nvic_set_priority_group_m4 grp r =
     (let aircr = scb_aircr r;
          aircr = aircr AND NOT (SCB_AIRCR_PRIGROUP_MASK_m4 OR 0xFFFF);
          aircr = aircr OR (SCB_AIRCR_VECTKEY_m4 OR push_bit 8 grp)
      in r\<lparr>scb_aircr := aircr\<rparr>)"

definition os_port_nvic_set_priority_m4 :: "u32 \<Rightarrow> u32 \<Rightarrow> periph \<Rightarrow> periph option" where
  "os_port_nvic_set_priority_m4 irqn p r =
     (let prio = push_bit (8 - OS_CONFIG_NVIC_PRIO_BITS) p AND 0xFF in
      if 0 \<le> sint irqn
      then if unat irqn < 240 then Some (r\<lparr>nvic_ip := (nvic_ip r)(unat irqn := prio)\<rparr>) else None
      else let idx = unat (((irqn AND 0xF) - 4) div 4);
               shift = unat ((((irqn AND 0xF) - 4) mod 4) * 8);
               v = scb_shpr r idx AND NOT (push_bit shift 0xFF)
           in if idx < 3 then Some (r\<lparr>scb_shpr := (scb_shpr r)(idx := v OR push_bit shift prio)\<rparr>) else None)"

definition os_port_nvic_enable_irq_m4 :: "u32 \<Rightarrow> periph \<Rightarrow> periph option" where
  "os_port_nvic_enable_irq_m4 irqn r =
     (if 0 \<le> sint irqn
      then if unat (drop_bit 5 irqn) < 8
           then Some (r\<lparr>nvic_iser := (nvic_iser r)(unat (drop_bit 5 irqn) := push_bit (unat (irqn AND 0x1F)) 1)\<rparr>)
           else None
      else Some r)"

definition os_port_nvic_disable_irq_m4 :: "u32 \<Rightarrow> periph \<Rightarrow> periph option" where
  "os_port_nvic_disable_irq_m4 irqn r =
     (if 0 \<le> sint irqn
      then if unat (drop_bit 5 irqn) < 8
           then Some (r\<lparr>nvic_icer := (nvic_icer r)(unat (drop_bit 5 irqn) := push_bit (unat (irqn AND 0x1F)) 1)\<rparr>)
           else None
      else Some r)"

definition os_port_nvic_set_priority_init_m4 :: "periph \<Rightarrow> periph option" where
  "os_port_nvic_set_priority_init_m4 r =
     do {
       let r = os_port_nvic_set_priority_group_m4 OS_CONFIG_NVIC_PRIGROUP r;
       r \<leftarrow> os_port_nvic_set_priority_m4 (- 6) OS_CONFIG_PENDSV_PRIORITY r;
       os_port_nvic_set_priority_m4 (- 1) OS_CONFIG_SYSTICK_PRIORITY r
     }"

section \<open>Newlib stubs\<close>

definition newlib_kill_m4 :: "u32 \<Rightarrow> u32 \<Rightarrow> u32" where "newlib_kill_m4 pid sig = - 1"

definition newlib_getpid_m4 :: u32 where "newlib_getpid_m4 = 1"

text \<open>The state of \<open>_sbrk\<close> is \<open>heap_end\<close>; \<open>ebss\<close> is the linker's symbol.\<close>

definition newlib_sbrk_m4 :: "ptr \<Rightarrow> u32 \<Rightarrow> ptr \<Rightarrow> ptr \<times> ptr" where
  "newlib_sbrk_m4 ebss incr heap_end =
     (let heap_end = (if heap_end = NULL then ebss else heap_end) in (heap_end, heap_end + incr))"

section \<open>Context switch\<close>

text \<open>\<open>tst r14, #0x10\<close> followed by \<open>it eq\<close>: the FPU frame is there when the bit is clear.\<close>

definition fpu_frame_m4 :: "u32 \<Rightarrow> bool" where
  "fpu_frame_m4 exc_return \<longleftrightarrow> exc_return AND 0x10 = 0"

definition PendSV_Handler_m4 :: "asm \<Rightarrow> cpu_m4 \<times> os \<Rightarrow> (cpu_m4 \<times> os) option" where
  "PendSV_Handler_m4 w cs =
     (let (c, s) = cs in
      do {
        let s = s\<lparr>primask := 1\<rparr>;
        let r0 = psp c;
        let (r0, s) = (if fpu_frame_m4 (lr c)
                       then (r0 - 64, s\<lparr>mem32 := store_words (r0 - 64) (map (sreg c) [16..<32]) (mem32 s)\<rparr>)
                       else (r0, s));
        let r0 = r0 - 32;
        let s = s\<lparr>mem32 := store_words r0 (map (reg c) [4..<12]) (mem32 s)\<rparr>;
        let c = c\<lparr>reg := (reg c)(0 := r0, 1 := at_current_task_ptr w, 2 := current_task_ptr s)\<rparr>;
        s \<leftarrow> upd_tcb (current_task_ptr s) (\<lambda>t. t\<lparr>stack_ptr := r0\<rparr>) s;
        s \<leftarrow> os_sched_select_next s;
        let c = c\<lparr>reg := (after_call w (reg c))(1 := at_current_task_ptr w, 2 := current_task_ptr s)\<rparr>;
        t \<leftarrow> get_tcb (current_task_ptr s) s;
        let r0 = stack_ptr t;
        let c = c\<lparr>reg := set_regs 4 (load_words r0 8 (mem32 s)) (reg c)\<rparr>;
        let r0 = r0 + 32;
        let (r0, c) = (if fpu_frame_m4 (lr c)
                       then (r0 + 64, c\<lparr>sreg := set_regs 16 (load_words r0 16 (mem32 s)) (sreg c)\<rparr>)
                       else (r0, c));
        Some (c\<lparr>reg := (reg c)(0 := r0), psp := r0\<rparr>, s\<lparr>primask := 0\<rparr>)
      })"

definition os_task_set_current_m4 :: "ptr \<Rightarrow> os \<Rightarrow> os" where
  "os_task_set_current_m4 t s = s\<lparr>current_task_ptr := t\<rparr>"

definition os_task_get_current_m4 :: "os \<Rightarrow> ptr" where
  "os_task_get_current_m4 s = current_task_ptr s"

definition os_port_start_first_task_m4 :: "cpu_m4 \<times> os \<Rightarrow> (cpu_m4 \<times> os) option" where
  "os_port_start_first_task_m4 cs =
     (let (c, s) = cs; tcb = os_task_get_current_m4 s in
      if tcb = NULL then Some (c, s)
      else do {
        t \<leftarrow> get_tcb tcb s;
        let sp = stack_ptr t;
        let w = (\<lambda>i. mem32 s (word_at sp i));
        let r = set_regs 4 (load_words sp 8 (mem32 s)) (reg c);
        let r = set_regs 0 [w 8, w 9, w 10, w 11] r;
        let r = r(12 := w 12);
        Some (c\<lparr>reg := r, control := 2, lr := w 13, pc := w 14, psp := sp + 60\<rparr>, s)
      })"

definition SysTick_Handler_m4 :: "env \<Rightarrow> os \<Rightarrow> os option" where
  "SysTick_Handler_m4 e s = do { s \<leftarrow> os_kernel_tick_increment (isr e) s; Some (os_port_yield_m4 s) }"

definition SysTick_Handler_nesting_m4 :: "env \<Rightarrow> irq \<times> os \<Rightarrow> (irq \<times> os) option" where
  "SysTick_Handler_nesting_m4 e qs =
     (let (q, s) = os_port_isr_enter_m4 qs in
      do { s \<leftarrow> os_kernel_tick_increment_nesting (isr e) s; Some (os_port_isr_exit_m4 (q, s)) })"

section \<open>Agreement with the Cortex-M3 port\<close>

lemma common_m4:
  "os_port_stack_init_m4 = os_port_stack_init" "os_port_systick_init_m4 = os_port_systick_init"
  "os_port_nvic_set_priority_group_m4 = os_port_nvic_set_priority_group"
  "os_port_nvic_set_priority_m4 = os_port_nvic_set_priority" "os_port_nvic_enable_irq_m4 = os_port_nvic_enable_irq"
  "os_port_nvic_disable_irq_m4 = os_port_nvic_disable_irq" "os_port_yield_m4 = os_port_yield"
  "os_port_enter_critical_m4 = os_port_enter_critical" "os_port_exit_critical_m4 = os_port_exit_critical"
  "os_task_get_current_m4 = os_task_get_current"
  by (simp_all add: fun_eq_iff os_port_stack_init_m4_def os_port_stack_init_def initial_frame_def INITIAL_XPSR_m4_def
      INITIAL_XPSR_def Let_def os_port_systick_init_m4_def os_port_systick_init_def SYSTICK_LOAD_MAX_m4_def SYSTICK_LOAD_MAX_def
      SYSTICK_CTRL_ENABLE_m4_def SYSTICK_CTRL_ENABLE_def SYSTICK_CTRL_TICKINT_m4_def SYSTICK_CTRL_TICKINT_def
      SYSTICK_CTRL_CLKSOURCE_m4_def SYSTICK_CTRL_CLKSOURCE_def os_port_nvic_set_priority_group_m4_def
      os_port_nvic_set_priority_group_def SCB_AIRCR_VECTKEY_m4_def SCB_AIRCR_VECTKEY_def SCB_AIRCR_PRIGROUP_MASK_m4_def
      SCB_AIRCR_PRIGROUP_MASK_def os_port_nvic_set_priority_m4_def os_port_nvic_set_priority_def prio_byte_def
      OS_CONFIG_NVIC_PRIO_BITS_def os_port_nvic_enable_irq_m4_def os_port_nvic_enable_irq_def os_port_nvic_disable_irq_m4_def
      os_port_nvic_disable_irq_def os_port_yield_m4_def os_port_yield_def SCB_ICSR_PENDSVSET_m4_def SCB_ICSR_PENDSVSET_def
      os_port_enter_critical_m4_def os_port_enter_critical_def os_port_exit_critical_m4_def os_port_exit_critical_def
      os_task_get_current_m4_def os_task_get_current_def)

text \<open>
  For tasks that do not use the FPU the Cortex-M4 port is the Cortex-M3 port: the initial stack
  frame, SysTick, the interrupt priorities and enables, the critical sections, the SysTick handler and
  the start of the first task are the same functions, and the PendSV handler, entered with bit 4 of
  EXC_RETURN set, changes registers, memory and kernel state exactly as the Cortex-M3 handler does and
  leaves the FPU registers alone.
\<close>

theorem port_m4_agrees_with_m3:
  assumes no_fpu: "\<not> fpu_frame_m4 (lr c)"
  shows "os_port_stack_init_m4 = os_port_stack_init \<and> os_port_systick_init_m4 = os_port_systick_init
   \<and> os_port_nvic_set_priority_init_m4 = os_port_nvic_set_priority_init
   \<and> os_port_nvic_enable_irq_m4 = os_port_nvic_enable_irq \<and> os_port_nvic_disable_irq_m4 = os_port_nvic_disable_irq
   \<and> os_port_enter_critical_m4 = os_port_enter_critical \<and> os_port_exit_critical_m4 = os_port_exit_critical
   \<and> SysTick_Handler_m4 = SysTick_Handler \<and> SysTick_Handler_nesting_m4 = SysTick_Handler_nesting
   \<and> os_port_start_first_task_m4 (c, s)
       = map_option (\<lambda>(c', s'). (cpu.extend c' (cpu_m4.fields (sreg c)), s')) (os_port_start_first_task (cpu.truncate c, s))
   \<and> PendSV_Handler_m4 w (c, s)
       = map_option (\<lambda>(c', s'). (cpu.extend c' (cpu_m4.fields (sreg c)), s')) (PendSV_Handler w (cpu.truncate c, s))"
proof -
  have 1: "os_port_nvic_set_priority_init_m4 = os_port_nvic_set_priority_init"
    by (simp add: fun_eq_iff os_port_nvic_set_priority_init_m4_def os_port_nvic_set_priority_init_def common_m4)
  have 2: "SysTick_Handler_m4 = SysTick_Handler" "SysTick_Handler_nesting_m4 = SysTick_Handler_nesting"
    by (simp_all add: fun_eq_iff SysTick_Handler_m4_def SysTick_Handler_def common_m4 SysTick_Handler_nesting_m4_def
        SysTick_Handler_nesting_def os_port_isr_enter_m4_def os_port_isr_enter_def os_port_isr_exit_m4_def os_port_isr_exit_def)
  have 3: "os_port_start_first_task_m4 (c, s)
       = map_option (\<lambda>(c', s'). (cpu.extend c' (cpu_m4.fields (sreg c)), s')) (os_port_start_first_task (cpu.truncate c, s))"
    by (cases "get_tcb (current_task_ptr s) s")
      (simp_all add: os_port_start_first_task_m4_def os_port_start_first_task_def common_m4 os_task_get_current_def
        cpu.defs cpu_m4.defs Let_def del: get_tcb_Some)
  have 4: "PendSV_Handler_m4 w (c, s)
       = map_option (\<lambda>(c', s'). (cpu.extend c' (cpu_m4.fields (sreg c)), s')) (PendSV_Handler w (cpu.truncate c, s))"
    using no_fpu by (simp add: PendSV_Handler_m4_def PendSV_Handler_def cpu.defs cpu_m4.defs Let_def bind_eq_None_conv
        split: Option.bind_splits del: get_tcb_Some)
  show ?thesis using 1 2 3 4 common_m4 by simp
qed


definition demo_cpu_m4 :: "u32 \<Rightarrow> cpu_m4" where
  "demo_cpu_m4 exc = \<lparr>reg = of_nat, psp = 0x20001100, lr = exc, pc = 0x8000400, control = 2, sreg = (\<lambda>i. of_nat (100 + i))\<rparr>"

theorem port_m4_agrees_with_m3_witness:
  "PendSV_Handler_m4 demo_asm (demo_cpu_m4 0xFFFFFFFD, demo)
     = map_option (\<lambda>(c', s'). (cpu.extend c' (cpu_m4.fields (\<lambda>i. of_nat (100 + i))), s'))
         (PendSV_Handler demo_asm (cpu.truncate (demo_cpu_m4 0xFFFFFFFD), demo))"
proof -
  have "\<not> fpu_frame_m4 (lr (demo_cpu_m4 0xFFFFFFFD))" by (simp add: fpu_frame_m4_def demo_cpu_m4_def)
  from port_m4_agrees_with_m3 [OF this, where s = demo and w = demo_asm] show ?thesis by (simp add: demo_cpu_m4_def)
qed

section \<open>Tasks that use the FPU\<close>

definition s16_s31 :: "cpu_m4 \<Rightarrow> u32 list" where "s16_s31 c = map (sreg c) [16..<32]"

lemma s16_s31_length [simp]: "length (s16_s31 c) = 16"
  by (simp add: s16_s31_def)

definition r4_r11_m4 :: "cpu_m4 \<Rightarrow> u32 list" where "r4_r11_m4 c = map (reg c) [4..<12]"

lemma r4_r11_m4_length [simp]: "length (r4_r11_m4 c) = 8"
  by (simp add: r4_r11_m4_def)

lemma fpu_restored:
  "length vs = 8 \<Longrightarrow> r4_r11_m4 (c\<lparr>reg := set_regs 4 vs r, sreg := f, psp := x\<rparr>) = vs"
  "length ws = 16 \<Longrightarrow> s16_s31 (c\<lparr>reg := r, sreg := set_regs 16 ws f, psp := x\<rparr>) = ws"
  using set_regs_nth [of 4 vs r] set_regs_nth [of 16 ws f] by (simp_all add: r4_r11_m4_def s16_s31_def)

text \<open>The bytes the handler saves, with or without FPU registers, and the memory with them.\<close>

definition frame_bytes :: "cpu_m4 \<Rightarrow> u32" where
  "frame_bytes c = (if fpu_frame_m4 (lr c) then 96 else 32)"

definition saved_m4 :: "cpu_m4 \<Rightarrow> (ptr \<Rightarrow> u32) \<Rightarrow> ptr \<Rightarrow> u32" where
  "saved_m4 c m = store_words (psp c - frame_bytes c) (r4_r11_m4 c)
     (if fpu_frame_m4 (lr c) then store_words (psp c - 64) (s16_s31 c) m else m)"

lemma pendsv_m4_rep:
  assumes r: "rep s A V" and ok: "states_ok A V" and cur: "current_ok s V" and p: "top_level p A"
    and nz: "current_task_ptr s \<noteq> NULL"
  shows "\<exists>c' s' V' sp. PendSV_Handler_m4 w (c, s) = Some (c', s') \<and> rep s' (rotated p (current_task_ptr s) A) V'
     \<and> states_ok (rotated p (current_task_ptr s) A) V' \<and> current_ok s' V'
     \<and> current_task_ptr s' = hd (rotated p (current_task_ptr s) A (Ready p)) \<and> mem32 s' = saved_m4 c (mem32 s)
     \<and> (\<forall>t. map_option stack_ptr (V' t) = (if t = current_task_ptr s then Some (psp c - frame_bytes c) else map_option stack_ptr (V t)))
     \<and> map_option stack_ptr (V' (current_task_ptr s')) = Some sp
     \<and> c' = c\<lparr>reg := set_regs 4 (load_words sp 8 (mem32 s')) (scratched w (current_task_ptr s') (sp + frame_bytes c) (reg c)),
              sreg := (if fpu_frame_m4 (lr c) then set_regs 16 (load_words (sp + 32) 16 (mem32 s')) (sreg c) else sreg c),
              psp := sp + frame_bytes c\<rparr>"
proof -
  let ?k = "frame_bytes c" let ?s1 = "s\<lparr>primask := 1, mem32 := saved_m4 c (mem32 s)\<rparr>"
  note nf = PendSV_Handler_m4_def [folded r4_r11_m4_def s16_s31_def]
  have a: "rep ?s1 A V" "current_ok ?s1 V" "current_task_ptr ?s1 \<noteq> NULL" "current_task_ptr ?s1 = current_task_ptr s"
    using r cur nz by simp_all
  obtain s2 s3 V3 t where x: "upd_tcb (current_task_ptr s) (\<lambda>t. t\<lparr>stack_ptr := psp c - ?k\<rparr>) ?s1 = Some s2" "os_sched_select_next s2 = Some s3"
    "get_tcb (current_task_ptr s3) s3 = Some t" "rep s3 (rotated p (current_task_ptr s) A) V3"
    "states_ok (rotated p (current_task_ptr s) A) V3" "current_ok s3 V3"
    "current_task_ptr s3 = hd (rotated p (current_task_ptr s) A (Ready p))" "mem32 s3 = mem32 ?s1"
    "\<forall>y. map_option stack_ptr (V3 y) = (if y = current_task_ptr s then Some (psp c - ?k) else map_option stack_ptr (V y))"
    "map_option stack_ptr (V3 (current_task_ptr s3)) = Some (stack_ptr t)"
    using exchange_rep [OF a(1) ok a(2) p a(3), of "psp c - ?k"] unfolding a(4) by (elim exE conjE) (rule that)
  let ?c = "c\<lparr>reg := set_regs 4 (load_words (stack_ptr t) 8 (mem32 s3)) (scratched w (current_task_ptr s3) (stack_ptr t + ?k) (reg c)),
      sreg := (if fpu_frame_m4 (lr c) then set_regs 16 (load_words (stack_ptr t + 32) 16 (mem32 s3)) (sreg c) else sreg c), psp := stack_ptr t + ?k\<rparr>"
  have "PendSV_Handler_m4 w (c, s) = Some (?c, s3\<lparr>primask := 0\<rparr>)"
    using x(1-3) by (cases "fpu_frame_m4 (lr c)"; cases c) (simp_all add: nf frame_bytes_def saved_m4_def scratched_def r4_r11_m4_def s16_s31_def Let_def add.commute [of 96] del: get_tcb_Some)
  then show ?thesis using x(4-10)
    by (intro exI [of _ ?c] exI [of _ "s3\<lparr>primask := 0\<rparr>"] exI [of _ V3] exI [of _ "stack_ptr t"]) simp
qed

lemma pendsv_m4_sp:
  assumes "rep s A V" "states_ok A V" "current_ok s V" "top_level p A" "current_task_ptr s \<noteq> NULL"
  shows "\<exists>c' s' V' sp. PendSV_Handler_m4 w (c, s) = Some (c', s') \<and> rep s' (rotated p (current_task_ptr s) A) V'
     \<and> states_ok (rotated p (current_task_ptr s) A) V' \<and> current_ok s' V'
     \<and> current_task_ptr s' = hd (rotated p (current_task_ptr s) A (Ready p))
     \<and> (\<forall>t. map_option stack_ptr (V' t) = (if t = current_task_ptr s then Some (psp c - frame_bytes c) else map_option stack_ptr (V t)))
     \<and> map_option stack_ptr (V' (current_task_ptr s')) = Some sp \<and> psp c' = sp + frame_bytes c \<and> lr c' = lr c"
  using pendsv_m4_rep [OF assms, of w c]
proof (elim exE conjE, goal_cases)
  case (1 c' s' V' sp)
  have "psp c' = sp + frame_bytes c" "lr c' = lr c" by (simp_all add: 1(9))
  then show ?case using 1(1-5,7,8) by (intro exI [of _ c'] exI [of _ s'] exI [of _ V'] exI [of _ sp]) (simp only: simp_thms)
qed

text \<open>The save area of an FPU task: eight words of core registers, then sixteen of FPU registers.\<close>

lemma word_at_word_at: "word_at (word_at p k) i = word_at p (k + i)"
  by (simp add: word_at_def)

lemma area_parts: "area p 8 \<subseteq> area p 24" "area (p + 32) 16 \<subseteq> area p 24" "area p 8 \<inter> area (p + 32) 16 = {}"
proof -
  have p: "p + 32 = word_at p 8" by (simp add: word_at_def)
  show "area p 8 \<subseteq> area p 24" by (auto simp: area_def)
  show "area (p + 32) 16 \<subseteq> area p 24" unfolding p area_def by (auto simp: word_at_word_at)
  show "area p 8 \<inter> area (p + 32) 16 = {}"
  proof (rule equals0I)
    fix a assume "a \<in> area p 8 \<inter> area (p + 32) 16"
    then have "a \<in> word_at p ` {0..<8}" "a \<in> (\<lambda>j. word_at p (8 + j)) ` {0..<16}"
      unfolding p area_def by (simp_all add: word_at_word_at image_def)
    then obtain i j where "word_at p i = word_at p (8 + j)" "i < 8" "j < 16" by auto
    then show False using word_at_inj [of i "8 + j" p] by simp
  qed
qed

abbreviation save_area :: "cpu_m4 \<Rightarrow> ptr set" where
  "save_area c \<equiv> area (psp c - frame_bytes c) (if fpu_frame_m4 (lr c) then 24 else 8)"

lemma saved_m4_words:
  "load_words (psp c - frame_bytes c) 8 (saved_m4 c m) = r4_r11_m4 c"
  "fpu_frame_m4 (lr c) \<Longrightarrow> load_words (psp c - 64) 16 (saved_m4 c m) = s16_s31 c"
  "a \<notin> save_area c \<Longrightarrow> saved_m4 c m a = m a"
proof -
  have p: "psp c - 64 = psp c - 96 + 32" by simp
  note ap = area_parts [of "psp c - 96", folded p]
  show "load_words (psp c - frame_bytes c) 8 (saved_m4 c m) = r4_r11_m4 c" unfolding saved_m4_def by (rule load_stored) simp_all
  show "load_words (psp c - 64) 16 (saved_m4 c m) = s16_s31 c" if f: "fpu_frame_m4 (lr c)"
  proof -
    have "load_words (psp c - 64) 16 (saved_m4 c m) = load_words (psp c - 64) 16 (store_words (psp c - 64) (s16_s31 c) m)"
      using ap(3) f by (intro load_words_cong ballI) (auto simp: saved_m4_def frame_bytes_def intro!: store_words_other)
    then show ?thesis by (simp add: load_stored)
  qed
  show "saved_m4 c m a = m a" if "a \<notin> save_area c"
  proof (cases "fpu_frame_m4 (lr c)")
    case True
    then have "a \<notin> area (psp c - 96) (length (r4_r11_m4 c))" "a \<notin> area (psp c - 64) (length (s16_s31 c))"
      using that ap(1,2) by (auto simp: frame_bytes_def)
    then show ?thesis using True by (simp add: saved_m4_def frame_bytes_def store_words_other)
  next
    case False
    then show ?thesis using that by (simp add: saved_m4_def frame_bytes_def store_words_other)
  qed
qed

text \<open>
  C35. How a task that uses the FPU gets its context back on the Cortex-M4. Let the PendSV handler take
  the processor from it with an FPU frame, and later give it back, its save area of 24 words being untouched
  in between and apart from that of the other task. Then R4 to R11 are always those it was interrupted with. S16 to S31
  and the process stack pointer are restored if the other task has an FPU frame as well; if it has none, the
  task goes on with the FPU registers of the other task and a stack pointer 64 bytes too low, because the handler
  tests the frame bit of the task that leaves.
\<close>

theorem fpu_context_switch_m4:
  assumes out: "rep s A V" "states_ok A V" "current_ok s V" "top_level p A" "current_task_ptr s = t" "t \<noteq> NULL"
      "fpu_frame_m4 (lr c)" "PendSV_Handler_m4 w (c, s) = Some (c1, s1)"
    and again: "rep s2 A2 V2" "states_ok A2 V2" "current_ok s2 V2" "top_level q A2" "current_task_ptr s2 \<noteq> NULL"
      "hd (rotated q (current_task_ptr s2) A2 (Ready q)) = t" "current_task_ptr s2 \<noteq> t"
    and kept: "\<forall>a\<in>save_area c. mem32 s2 a = mem32 s1 a"
      "map_option stack_ptr (tcbs s2 t) = map_option stack_ptr (tcbs s1 t)" "save_area c2 \<inter> save_area c = {}"
  shows "\<exists>c3 s3. PendSV_Handler_m4 w' (c2, s2) = Some (c3, s3) \<and> current_task_ptr s3 = t \<and> r4_r11_m4 c3 = r4_r11_m4 c
     \<and> (if fpu_frame_m4 (lr c2) then s16_s31 c3 = s16_s31 c \<and> psp c3 = psp c else s16_s31 c3 = s16_s31 c2 \<and> psp c3 = psp c - 64)"
proof -
  let ?sp = "psp c - 96"
  have k: "frame_bytes c = 96" "save_area c = area ?sp 24" and p: "psp c - 64 = ?sp + 32" using out(7) by (simp_all add: frame_bytes_def)
  have nz: "current_task_ptr s \<noteq> NULL" using out(5,6) by simp
  obtain c' s' V1 where o': "PendSV_Handler_m4 w (c, s) = Some (c', s')" "rep s' (rotated p t A) V1" "mem32 s' = saved_m4 c (mem32 s)"
      "\<forall>x. map_option stack_ptr (V1 x) = (if x = t then Some ?sp else map_option stack_ptr (V x))"
    using pendsv_m4_rep [OF out(1-4) nz, of w c] unfolding out(5) k by (elim exE conjE) (rule that)
  have "s' = s1" using o'(1) out(8) by simp
  note o = o'(2,3) [unfolded this] spec [OF o'(4), of t]
  obtain c3 s3 V3 sp where b: "PendSV_Handler_m4 w' (c2, s2) = Some (c3, s3)" "current_task_ptr s3 = t"
    "rep s3 (rotated q (current_task_ptr s2) A2) V3" "mem32 s3 = saved_m4 c2 (mem32 s2)"
    "\<forall>x. map_option stack_ptr (V3 x) = (if x = current_task_ptr s2 then Some (psp c2 - frame_bytes c2) else map_option stack_ptr (V2 x))"
    "map_option stack_ptr (V3 (current_task_ptr s3)) = Some sp"
    "c3 = c2\<lparr>reg := set_regs 4 (load_words sp 8 (mem32 s3)) (scratched w' (current_task_ptr s3) (sp + frame_bytes c2) (reg c2)),
       sreg := (if fpu_frame_m4 (lr c2) then set_regs 16 (load_words (sp + 32) 16 (mem32 s3)) (sreg c2) else sreg c2), psp := sp + frame_bytes c2\<rparr>"
    using pendsv_m4_rep [OF again(1-5), of w' c2] unfolding again(6) by (elim exE conjE) (rule that)
  have "map_option stack_ptr (V2 t) = Some ?sp"
    using kept(2) o(3) unfolding rep_stack_ptr [OF again(1)] rep_stack_ptr [OF o(1)] by (simp only: if_True simp_thms)
  then have sp: "sp = ?sp" using b(5,6) b(2) again(7) by auto
  have same: "mem32 s3 a = mem32 s1 a" if "a \<in> area ?sp 24" for a
    using saved_m4_words(3) [of a c2 "mem32 s2"] kept(1,3) that unfolding b(4) k(2) by auto
  have ld: "load_words ?sp 8 (mem32 s3) = r4_r11_m4 c" "load_words (?sp + 32) 16 (mem32 s3) = s16_s31 c"
    using load_words_cong [of ?sp 8 "mem32 s3" "mem32 s1"] load_words_cong [of "?sp + 32" 16 "mem32 s3" "mem32 s1"] same
      area_parts [of ?sp] saved_m4_words(1,2) [of c "mem32 s"] out(7) unfolding o(2) p k(1) by (auto simp only: subset_iff)
  have "r4_r11_m4 c3 = r4_r11_m4 c" unfolding b(7) sp ld by (rule fpu_restored(1)) simp
  moreover have "s16_s31 c3 = s16_s31 c" "psp c3 = psp c" if "fpu_frame_m4 (lr c2)"
    unfolding b(7) sp ld if_P [OF that] by (rule fpu_restored(2), simp) (use that in \<open>simp add: frame_bytes_def\<close>)
  moreover have "s16_s31 c3 = s16_s31 c2" "psp c3 = psp c - 64" if "\<not> fpu_frame_m4 (lr c2)"
    unfolding b(7) sp using that by (simp_all add: frame_bytes_def s16_s31_def)
  ultimately show ?thesis using b(1,2) by auto
qed

theorem fpu_context_switch_m4_witness:
  "\<exists>c1 s1 c2 c3 s3 d3 t3. PendSV_Handler_m4 demo_asm (demo_cpu_m4 0xFFFFFFED, demo) = Some (c1, s1) \<and> current_task_ptr s1 = tReady
     \<and> PendSV_Handler_m4 demo_asm (c1, s1) = Some (c3, s3) \<and> current_task_ptr s3 = tRun
     \<and> s16_s31 c3 = s16_s31 (demo_cpu_m4 0xFFFFFFED) \<and> psp c3 = 0x20001100
     \<and> c2 = c1\<lparr>lr := 0xFFFFFFFD\<rparr> \<and> PendSV_Handler_m4 demo_asm (c2, s1) = Some (d3, t3) \<and> psp d3 = 0x200010C0"
proof -
  let ?A = "demo_lists(Ready 2 := [tReady, tRun])" let ?c = "demo_cpu_m4 0xFFFFFFED"
  have cur: "current_task_ptr demo = tRun" and f: "fpu_frame_m4 (lr ?c)" by (simp_all add: demo_def fpu_frame_m4_def demo_cpu_m4_def)
  then have k: "frame_bytes ?c = 96" by (simp add: frame_bytes_def)
  have rot: "rotated 2 tRun demo_lists = ?A" "hd (rotated 2 tReady ?A (Ready 2)) = tRun" "hd (?A (Ready 2)) = tReady"
    by (simp_all add: rotated_def demo_lists_def)
  obtain c1 s1 V1 sp where h: "PendSV_Handler_m4 demo_asm (?c, demo) = Some (c1, s1)" "rep s1 ?A V1" "states_ok ?A V1" "current_ok s1 V1"
    "current_task_ptr s1 = tReady"
    "\<forall>t. map_option stack_ptr (V1 t) = (if t = tRun then Some (psp ?c - 96) else map_option stack_ptr (demo_tcbs t))"
    "map_option stack_ptr (V1 (current_task_ptr s1)) = Some sp" "psp c1 = sp + 96" "lr c1 = lr ?c"
    using pendsv_m4_sp [OF demo_ok, of demo_asm ?c] unfolding cur rot k by (elim exE conjE) (rule that)
  have tl: "top_level 2 ?A" by (auto simp: top_level_def demo_lists_def)
  have "sp = 0x20001280" using h(5,6,7) by (simp add: demo_tcbs_def demo_tcb_def)
  then have p: "psp c1 = 0x200012E0" "psp ?c = 0x20001100" "fpu_frame_m4 (lr c1)" using h(8,9) f by (simp_all add: demo_cpu_m4_def)
  let ?c2 = "c1\<lparr>lr := 0xFFFFFFFD\<rparr>"
  have n: "\<not> fpu_frame_m4 (lr ?c2)" by (simp add: fpu_frame_m4_def)
  have dis: "save_area c1 \<inter> save_area ?c = {}" "save_area ?c2 \<inter> save_area ?c = {}"
    unfolding if_P [OF f] if_P [OF p(3)] if_not_P [OF n] k
    by (simp_all add: area_def atLeastLessThan_upt upt_rec word_at_def frame_bytes_def p n del: set_upt)
  have nz: "tRun \<noteq> NULL" "current_task_ptr s1 \<noteq> NULL" "current_task_ptr s1 \<noteq> tRun" using h(5) by simp_all
  note sw = fpu_context_switch_m4 [OF demo_ok(1-4) cur nz(1) f h(1) h(2-4) tl nz(2) _ nz(3), where w' = demo_asm]
  have hd: "hd (rotated 2 (current_task_ptr s1) ?A (Ready 2)) = tRun" using rot(2) h(5) by simp
  obtain c3 s3 where 3: "PendSV_Handler_m4 demo_asm (c1, s1) = Some (c3, s3)" "current_task_ptr s3 = tRun" "s16_s31 c3 = s16_s31 ?c" "psp c3 = psp ?c"
    using sw [OF hd _ _ dis(1)] unfolding if_P [OF p(3)] by blast
  obtain d3 t3 where 4: "PendSV_Handler_m4 demo_asm (?c2, s1) = Some (d3, t3)" "psp d3 = psp ?c - 64"
    using sw [OF hd _ _ dis(2)] unfolding if_not_P [OF n] by blast
  show ?thesis using h(1,5) 3 4 p(2) by (intro exI conjI) (assumption | simp)+
qed

text \<open>
  The handler takes the layout of the incoming frame from R14 of the outgoing task, which the
  \<open>push\<close> and \<open>pop\<close> around the scheduler call preserve. When the outgoing task used the
  FPU and the incoming one is a new task with the initial frame, the process stack pointer ends up 32
  bytes above the top of the new task's stack instead of on its exception frame.
\<close>

lemma fpu_task_to_new_task_m4:
  assumes s: "rep s A V" "states_ok A V" "current_ok s V" "top_level p A" "current_task_ptr s \<noteq> NULL" "fpu_frame_m4 (lr c)"
    and x: "hd (rotated p (current_task_ptr s) A (Ready p)) = x" "x \<noteq> current_task_ptr s"
    and new: "map_option stack_ptr (tcbs s x) = Some (fst (os_port_stack_init_m4 func param base sz m))"
  shows "\<exists>c' s'. PendSV_Handler_m4 w (c, s) = Some (c', s') \<and> current_task_ptr s' = x
     \<and> psp c' = (((base + sz) + 7) AND NOT 7) + 32"
proof -
  obtain c' s' V' sp where h: "PendSV_Handler_m4 w (c, s) = Some (c', s')" "rep s' (rotated p (current_task_ptr s) A) V'" "current_task_ptr s' = x"
    "\<forall>t. map_option stack_ptr (V' t) = (if t = current_task_ptr s then Some (psp c - 96) else map_option stack_ptr (V t))"
    "map_option stack_ptr (V' (current_task_ptr s')) = Some sp"
    "psp c' = sp + 96"
    using pendsv_m4_sp [OF s(1-5), of w c] unfolding x(1) frame_bytes_def if_P [OF s(6)] by (elim exE conjE) (rule that)
  have "map_option stack_ptr (V' x) = Some (fst (os_port_stack_init_m4 func param base sz m))"
    using h(4) x(2) new unfolding rep_stack_ptr [OF s(1)] by (simp only: if_False)
  then have "sp = fst (os_port_stack_init_m4 func param base sz m)" using h(3,5) by auto
  then have "psp c' = (((base + sz) + 7) AND NOT 7) + 32" using h(6) by (simp add: common_m4 stack_init_unfold Let_def)
  then show ?thesis using h(1,3) by blast
qed

end
