(* ===== verification/Port_M7.thy ===== *)
theory Port_M7
  imports Context_Switch Nesting
begin

unbundle bit_operations_syntax

text \<open>
  The port for the Cortex-M7, \<open>port/cortex_m7/port_m7.c\<close>: the operations of the Cortex-M3 port
  again, the FPU enable, and a PendSV handler that saves D16 to D31, 32 words, when bit 4 of the
  \<open>EXC_RETURN\<close> value in R14 is clear. The names carry the suffix \<open>_m7\<close>. The FPU
  register file is modelled as the instructions name it: \<open>sreg_m7\<close> holds S0 to S31 (D0 to D15),
  \<open>dwords_m7\<close> the 32 words of D16 to D31.
\<close>

section \<open>Registers\<close>

record periph_m7 = periph +
  scb_cpacr_m7 :: u32

record cpu_m7 = cpu +
  sreg_m7 :: "nat \<Rightarrow> u32"
  dwords_m7 :: "nat \<Rightarrow> u32"

definition SCB_CPACR_CP10_FULL_m7 :: u32 where "SCB_CPACR_CP10_FULL_m7 = push_bit 20 3"
definition SCB_CPACR_CP11_FULL_m7 :: u32 where "SCB_CPACR_CP11_FULL_m7 = push_bit 22 3"
definition INITIAL_XPSR_m7 :: u32 where "INITIAL_XPSR_m7 = 0x01000000"
definition SYSTICK_LOAD_MAX_m7 :: u32 where "SYSTICK_LOAD_MAX_m7 = 0x00FFFFFF"
definition SYSTICK_CTRL_ENABLE_m7 :: u32 where "SYSTICK_CTRL_ENABLE_m7 = push_bit 0 1"
definition SYSTICK_CTRL_TICKINT_m7 :: u32 where "SYSTICK_CTRL_TICKINT_m7 = push_bit 1 1"
definition SYSTICK_CTRL_CLKSOURCE_m7 :: u32 where "SYSTICK_CTRL_CLKSOURCE_m7 = push_bit 2 1"
definition SCB_ICSR_PENDSVSET_m7 :: u32 where "SCB_ICSR_PENDSVSET_m7 = push_bit 28 1"
definition BASEPRI_SHIFT_m7 :: nat where "BASEPRI_SHIFT_m7 = 8 - OS_CONFIG_NVIC_PRIO_BITS"
definition SCB_AIRCR_VECTKEY_m7 :: u32 where "SCB_AIRCR_VECTKEY_m7 = 0x05FA0000"
definition SCB_AIRCR_PRIGROUP_MASK_m7 :: u32 where "SCB_AIRCR_PRIGROUP_MASK_m7 = 0x00000700"

definition prv_fpu_enable_m7 :: "periph_m7 \<Rightarrow> periph_m7" where
  "prv_fpu_enable_m7 r = r\<lparr>scb_cpacr_m7 := scb_cpacr_m7 r OR (SCB_CPACR_CP10_FULL_m7 OR SCB_CPACR_CP11_FULL_m7)\<rparr>"

section \<open>Stack initialization\<close>

definition os_port_stack_init_m7 ::
    "ptr \<Rightarrow> ptr \<Rightarrow> ptr \<Rightarrow> u32 \<Rightarrow> (ptr \<Rightarrow> u32) \<Rightarrow> ptr \<times> (ptr \<Rightarrow> u32)" where
  "os_port_stack_init_m7 func param base sz m =
     (let sp = ((base + sz) + 7) AND NOT 7;
          st = (sp, m);
          st = push INITIAL_XPSR_m7 st;
          st = push func st;
          st = push 0xFFFFFFFE st;
          st = push 0x12121212 st;
          st = push 0x03030303 st;
          st = push 0x02020202 st;
          st = push 0x01010101 st;
          st = push param st;
          st = push 0x11111111 st;
          st = push 0x10101010 st;
          st = push 0x09090909 st;
          st = push 0x08080808 st;
          st = push 0x07070707 st;
          st = push 0x06060606 st;
          st = push 0x05050505 st
      in push 0x04040404 st)"

section \<open>Critical sections\<close>

text \<open>With interrupt nesting BASEPRI is raised to the threshold, without it PRIMASK is set.\<close>

definition os_port_enter_critical_basepri_m7 :: "irq \<Rightarrow> u32 \<times> irq" where
  "os_port_enter_critical_basepri_m7 q =
     (let threshold = push_bit BASEPRI_SHIFT_m7 OS_CONFIG_MAX_SYSCALL_INTERRUPT_PRIORITY AND 0xFF
      in (basepri q, q\<lparr>basepri := threshold\<rparr>))"

definition os_port_exit_critical_basepri_m7 :: "u32 \<Rightarrow> irq \<Rightarrow> irq" where
  "os_port_exit_critical_basepri_m7 pm q = q\<lparr>basepri := pm\<rparr>"

definition os_port_enter_critical_m7 :: "os \<Rightarrow> u32 \<times> os" where
  "os_port_enter_critical_m7 s = (primask s, s\<lparr>primask := 1\<rparr>)"

definition os_port_exit_critical_m7 :: "u32 \<Rightarrow> os \<Rightarrow> os" where
  "os_port_exit_critical_m7 pm s = s\<lparr>primask := pm\<rparr>"

definition os_port_isr_enter_m7 :: "irq \<times> os \<Rightarrow> irq \<times> os" where
  "os_port_isr_enter_m7 qs = os_sched_isr_enter qs"

definition os_port_isr_exit_m7 :: "irq \<times> os \<Rightarrow> irq \<times> os" where
  "os_port_isr_exit_m7 qs = os_sched_isr_exit qs"

section \<open>PendSV request, SysTick and NVIC\<close>

definition os_port_yield_m7 :: "os \<Rightarrow> os" where
  "os_port_yield_m7 s = s\<lparr>icsr := icsr s OR SCB_ICSR_PENDSVSET_m7\<rparr>"

definition os_port_systick_init_m7 :: "u32 \<Rightarrow> periph \<Rightarrow> periph" where
  "os_port_systick_init_m7 freq_hz r =
     (let reload = OS_CONFIG_CPU_CLOCK_HZ div freq_hz;
          reload = (if reload > SYSTICK_LOAD_MAX_m7 then SYSTICK_LOAD_MAX_m7 else reload)
      in r\<lparr>syst_load := reload - 1, syst_val := 0,
           syst_ctrl := SYSTICK_CTRL_ENABLE_m7 OR SYSTICK_CTRL_TICKINT_m7 OR SYSTICK_CTRL_CLKSOURCE_m7\<rparr>)"

definition os_port_nvic_set_priority_group_m7 :: "u32 \<Rightarrow> periph \<Rightarrow> periph" where
  "os_port_nvic_set_priority_group_m7 grp r =
     (let aircr = scb_aircr r;
          aircr = aircr AND NOT (SCB_AIRCR_PRIGROUP_MASK_m7 OR 0xFFFF);
          aircr = aircr OR (SCB_AIRCR_VECTKEY_m7 OR push_bit 8 grp)
      in r\<lparr>scb_aircr := aircr\<rparr>)"

definition os_port_nvic_set_priority_m7 :: "u32 \<Rightarrow> u32 \<Rightarrow> periph \<Rightarrow> periph option" where
  "os_port_nvic_set_priority_m7 irqn p r =
     (let prio = push_bit (8 - OS_CONFIG_NVIC_PRIO_BITS) p AND 0xFF in
      if 0 \<le> sint irqn
      then if unat irqn < 240 then Some (r\<lparr>nvic_ip := (nvic_ip r)(unat irqn := prio)\<rparr>) else None
      else let idx = unat (((irqn AND 0xF) - 4) div 4);
               shift = unat ((((irqn AND 0xF) - 4) mod 4) * 8);
               v = scb_shpr r idx AND NOT (push_bit shift 0xFF)
           in if idx < 3 then Some (r\<lparr>scb_shpr := (scb_shpr r)(idx := v OR push_bit shift prio)\<rparr>) else None)"

definition os_port_nvic_enable_irq_m7 :: "u32 \<Rightarrow> periph \<Rightarrow> periph option" where
  "os_port_nvic_enable_irq_m7 irqn r =
     (if 0 \<le> sint irqn
      then if unat (drop_bit 5 irqn) < 8
           then Some (r\<lparr>nvic_iser := (nvic_iser r)(unat (drop_bit 5 irqn) := push_bit (unat (irqn AND 0x1F)) 1)\<rparr>)
           else None
      else Some r)"

definition os_port_nvic_disable_irq_m7 :: "u32 \<Rightarrow> periph \<Rightarrow> periph option" where
  "os_port_nvic_disable_irq_m7 irqn r =
     (if 0 \<le> sint irqn
      then if unat (drop_bit 5 irqn) < 8
           then Some (r\<lparr>nvic_icer := (nvic_icer r)(unat (drop_bit 5 irqn) := push_bit (unat (irqn AND 0x1F)) 1)\<rparr>)
           else None
      else Some r)"

definition os_port_nvic_set_priority_init_m7 :: "periph \<Rightarrow> periph option" where
  "os_port_nvic_set_priority_init_m7 r =
     do {
       let r = os_port_nvic_set_priority_group_m7 OS_CONFIG_NVIC_PRIGROUP r;
       r \<leftarrow> os_port_nvic_set_priority_m7 (- 6) OS_CONFIG_PENDSV_PRIORITY r;
       os_port_nvic_set_priority_m7 (- 1) OS_CONFIG_SYSTICK_PRIORITY r
     }"

section \<open>Newlib stubs\<close>

definition newlib_kill_m7 :: "u32 \<Rightarrow> u32 \<Rightarrow> u32" where "newlib_kill_m7 pid sig = - 1"

definition newlib_getpid_m7 :: u32 where "newlib_getpid_m7 = 1"

text \<open>The state of \<open>_sbrk\<close> is \<open>heap_end\<close>; \<open>ebss\<close> is the linker's symbol.\<close>

definition newlib_sbrk_m7 :: "ptr \<Rightarrow> u32 \<Rightarrow> ptr \<Rightarrow> ptr \<times> ptr" where
  "newlib_sbrk_m7 ebss incr heap_end =
     (let heap_end = (if heap_end = NULL then ebss else heap_end) in (heap_end, heap_end + incr))"

section \<open>Context switch\<close>

text \<open>\<open>tst r14, #0x10\<close> followed by \<open>it eq\<close>: the FPU frame is there when the bit is clear.\<close>

definition fpu_frame_m7 :: "u32 \<Rightarrow> bool" where
  "fpu_frame_m7 exc_return \<longleftrightarrow> exc_return AND 0x10 = 0"

definition PendSV_Handler_m7 :: "asm \<Rightarrow> cpu_m7 \<times> os \<Rightarrow> (cpu_m7 \<times> os) option" where
  "PendSV_Handler_m7 w cs =
     (let (c, s) = cs in
      do {
        let s = s\<lparr>primask := 1\<rparr>;
        let r0 = psp c;
        let (r0, s) = (if fpu_frame_m7 (lr c)
                       then (r0 - 128, s\<lparr>mem32 := store_words (r0 - 128) (map (dwords_m7 c) [0..<32]) (mem32 s)\<rparr>)
                       else (r0, s));
        let r0 = r0 - 32;
        let s = s\<lparr>mem32 := store_words r0 (map (reg c) [4..<12]) (mem32 s)\<rparr>;
        let c = c\<lparr>reg := (reg c)(0 := r0, 1 := at_current_task_ptr w, 2 := current_task_ptr s)\<rparr>;
        s \<leftarrow> upd_tcb (current_task_ptr s) (\<lambda>t. t\<lparr>stack_ptr := r0\<rparr>) s;
        s \<leftarrow> os_sched_select_next s;
        let c = c\<lparr>reg := (after_call w (reg c))(1 := at_current_task_ptr w, 2 := current_task_ptr s)\<rparr>;
        t \<leftarrow> get_tcb (current_task_ptr s) s;
        let r0 = stack_ptr t;
        let c = c\<lparr>reg := set_regs 4 (load_words r0 8 (mem32 s)) (reg c)\<rparr>;
        let r0 = r0 + 32;
        let (r0, c) = (if fpu_frame_m7 (lr c)
                       then (r0 + 128, c\<lparr>dwords_m7 := set_regs 0 (load_words r0 32 (mem32 s)) (dwords_m7 c)\<rparr>)
                       else (r0, c));
        Some (c\<lparr>reg := (reg c)(0 := r0), psp := r0\<rparr>, s\<lparr>primask := 0\<rparr>)
      })"

definition os_task_set_current_m7 :: "ptr \<Rightarrow> os \<Rightarrow> os" where
  "os_task_set_current_m7 t s = s\<lparr>current_task_ptr := t\<rparr>"

definition os_task_get_current_m7 :: "os \<Rightarrow> ptr" where
  "os_task_get_current_m7 s = current_task_ptr s"

definition os_port_start_first_task_m7 :: "cpu_m7 \<times> os \<Rightarrow> (cpu_m7 \<times> os) option" where
  "os_port_start_first_task_m7 cs =
     (let (c, s) = cs; tcb = os_task_get_current_m7 s in
      if tcb = NULL then Some (c, s)
      else do {
        t \<leftarrow> get_tcb tcb s;
        let sp = stack_ptr t;
        let w = (\<lambda>i. mem32 s (word_at sp i));
        let r = set_regs 4 (load_words sp 8 (mem32 s)) (reg c);
        let r = set_regs 0 [w 8, w 9, w 10, w 11] r;
        let r = r(12 := w 12);
        Some (c\<lparr>reg := r, control := 2, lr := w 13, pc := w 14, psp := sp + 60\<rparr>, s)
      })"

definition SysTick_Handler_m7 :: "env \<Rightarrow> os \<Rightarrow> os option" where
  "SysTick_Handler_m7 e s = do { s \<leftarrow> os_kernel_tick_increment (isr e) s; Some (os_port_yield_m7 s) }"

definition SysTick_Handler_nesting_m7 :: "env \<Rightarrow> irq \<times> os \<Rightarrow> (irq \<times> os) option" where
  "SysTick_Handler_nesting_m7 e qs =
     (let (q, s) = os_port_isr_enter_m7 qs in
      do { s \<leftarrow> os_kernel_tick_increment_nesting (isr e) s; Some (os_port_isr_exit_m7 (q, s)) })"

section \<open>Agreement with the Cortex-M3 port\<close>

lemma common_m7:
  "os_port_stack_init_m7 = os_port_stack_init" "os_port_systick_init_m7 = os_port_systick_init"
  "os_port_nvic_set_priority_group_m7 = os_port_nvic_set_priority_group"
  "os_port_nvic_set_priority_m7 = os_port_nvic_set_priority" "os_port_nvic_enable_irq_m7 = os_port_nvic_enable_irq"
  "os_port_nvic_disable_irq_m7 = os_port_nvic_disable_irq" "os_port_yield_m7 = os_port_yield"
  "os_port_enter_critical_m7 = os_port_enter_critical" "os_port_exit_critical_m7 = os_port_exit_critical"
  "os_task_get_current_m7 = os_task_get_current"
  by (simp_all add: fun_eq_iff os_port_stack_init_m7_def os_port_stack_init_def initial_frame_def INITIAL_XPSR_m7_def
      INITIAL_XPSR_def Let_def os_port_systick_init_m7_def os_port_systick_init_def SYSTICK_LOAD_MAX_m7_def SYSTICK_LOAD_MAX_def
      SYSTICK_CTRL_ENABLE_m7_def SYSTICK_CTRL_ENABLE_def SYSTICK_CTRL_TICKINT_m7_def SYSTICK_CTRL_TICKINT_def
      SYSTICK_CTRL_CLKSOURCE_m7_def SYSTICK_CTRL_CLKSOURCE_def os_port_nvic_set_priority_group_m7_def
      os_port_nvic_set_priority_group_def SCB_AIRCR_VECTKEY_m7_def SCB_AIRCR_VECTKEY_def SCB_AIRCR_PRIGROUP_MASK_m7_def
      SCB_AIRCR_PRIGROUP_MASK_def os_port_nvic_set_priority_m7_def os_port_nvic_set_priority_def prio_byte_def
      OS_CONFIG_NVIC_PRIO_BITS_def os_port_nvic_enable_irq_m7_def os_port_nvic_enable_irq_def os_port_nvic_disable_irq_m7_def
      os_port_nvic_disable_irq_def os_port_yield_m7_def os_port_yield_def SCB_ICSR_PENDSVSET_m7_def SCB_ICSR_PENDSVSET_def
      os_port_enter_critical_m7_def os_port_enter_critical_def os_port_exit_critical_m7_def os_port_exit_critical_def
      os_task_get_current_m7_def os_task_get_current_def)

text \<open>
  For tasks that do not use the FPU the Cortex-M7 port is the Cortex-M3 port.
\<close>

lemma port_m7_agrees_with_m3:
  assumes no_fpu: "\<not> fpu_frame_m7 (lr c)"
  shows "os_port_stack_init_m7 = os_port_stack_init \<and> os_port_systick_init_m7 = os_port_systick_init
   \<and> os_port_nvic_set_priority_init_m7 = os_port_nvic_set_priority_init
   \<and> os_port_nvic_enable_irq_m7 = os_port_nvic_enable_irq \<and> os_port_nvic_disable_irq_m7 = os_port_nvic_disable_irq
   \<and> os_port_enter_critical_m7 = os_port_enter_critical \<and> os_port_exit_critical_m7 = os_port_exit_critical
   \<and> SysTick_Handler_m7 = SysTick_Handler \<and> SysTick_Handler_nesting_m7 = SysTick_Handler_nesting
   \<and> os_port_start_first_task_m7 (c, s)
       = map_option (\<lambda>(c', s'). (cpu.extend c' (cpu_m7.fields (sreg_m7 c) (dwords_m7 c)), s')) (os_port_start_first_task (cpu.truncate c, s))
   \<and> PendSV_Handler_m7 w (c, s)
       = map_option (\<lambda>(c', s'). (cpu.extend c' (cpu_m7.fields (sreg_m7 c) (dwords_m7 c)), s')) (PendSV_Handler w (cpu.truncate c, s))"
proof -
  have 1: "os_port_nvic_set_priority_init_m7 = os_port_nvic_set_priority_init"
    by (simp add: fun_eq_iff os_port_nvic_set_priority_init_m7_def os_port_nvic_set_priority_init_def common_m7)
  have 2: "SysTick_Handler_m7 = SysTick_Handler" "SysTick_Handler_nesting_m7 = SysTick_Handler_nesting"
    by (simp_all add: fun_eq_iff SysTick_Handler_m7_def SysTick_Handler_def common_m7 SysTick_Handler_nesting_m7_def
        SysTick_Handler_nesting_def os_port_isr_enter_m7_def os_port_isr_enter_def os_port_isr_exit_m7_def os_port_isr_exit_def)
  have 3: "os_port_start_first_task_m7 (c, s)
       = map_option (\<lambda>(c', s'). (cpu.extend c' (cpu_m7.fields (sreg_m7 c) (dwords_m7 c)), s')) (os_port_start_first_task (cpu.truncate c, s))"
    by (cases "get_tcb (current_task_ptr s) s")
      (simp_all add: os_port_start_first_task_m7_def os_port_start_first_task_def common_m7 os_task_get_current_def
        cpu.defs cpu_m7.defs Let_def del: get_tcb_Some)
  have 4: "PendSV_Handler_m7 w (c, s)
       = map_option (\<lambda>(c', s'). (cpu.extend c' (cpu_m7.fields (sreg_m7 c) (dwords_m7 c)), s')) (PendSV_Handler w (cpu.truncate c, s))"
    using no_fpu by (simp add: PendSV_Handler_m7_def PendSV_Handler_def cpu.defs cpu_m7.defs Let_def bind_eq_None_conv
        split: Option.bind_splits del: get_tcb_Some)
  show ?thesis using 1 2 3 4 common_m7 by simp
qed


text \<open>
  The callee-saved FPU registers of a task, S16 to S31, are neither saved nor restored: after a switch
  they hold what the outgoing task had in them.
\<close>

lemma pendsv_m7_ignores_s_registers:
  assumes "PendSV_Handler_m7 w (c, s) = Some (c', s')"
  shows "sreg_m7 c' = sreg_m7 c"
  using assms by (auto simp: PendSV_Handler_m7_def Let_def bind_eq_Some_conv simp del: get_tcb_Some split: if_splits)

end
