(* ===== verification/Branch_V05.thy ===== *)
theory Branch_V05
  imports Boot Port_M0 Port_M4 Port_M7
begin

unbundle bit_operations_syntax

text \<open>
  The snapshot \<open>branches/feature-unit-tests\<close>, version 0.5.0 of the kernel. Most of its functions are
  those of the present version, line by line. Modelled here are the ones that differ (no malloc-failed,
  task-deletion and tick hooks, timers without a name, a clock constant in every port) and the ones that
  call them, down to \<open>main\<close>, with the suffix \<open>_v05\<close>. The state is the record \<open>os\<close>; this version
  has no variables for those hooks and no timer names, and its functions do not look at those fields.

  The theorems relate the two versions: the old kernel is the present one linked with hooks that do
  nothing, so what holds of the present kernel for all hooks holds of the old one.
\<close>

section \<open>The heap\<close>

definition os_heap_alloc_v05 :: "u32 \<Rightarrow> heap4 \<Rightarrow> (ptr \<times> heap4) option" where
  "os_heap_alloc_v05 sz h =
     (if sz = 0 \<or> heap_initialized h = 0 then Some (NULL, h)
      else do {
        let sz = ALIGN_UP sz;
        block \<leftarrow> find_fit h sz (px_block_list h);
        if block = NULL then Some (NULL, h)
        else do {
          let block_size = prv_block_get_size block h;
          let h = (if block_size \<ge> sz + sizeof_block_header + OS_CONFIG_HEAP_ALIGNMENT
                   then let new_block = BLOCK_DATA block + sz;
                            h = upd_hdr new_block
                                  (\<lambda>c. c\<lparr>hdr_size := block_size - sz - sizeof_block_header,
                                         hdr_allocated := 0,
                                         hdr_next := hdr_next (hdrs h block)\<rparr>) h;
                            h = upd_hdr block (\<lambda>c. c\<lparr>hdr_size := sz, hdr_next := new_block\<rparr>) h
                        in h\<lparr>free_bytes_remaining :=
                               free_bytes_remaining h - (sz + sizeof_block_header)\<rparr>
                   else h\<lparr>free_bytes_remaining := free_bytes_remaining h - block_size\<rparr>);
          let h = prv_block_set_allocated block h;
          let h = (if free_bytes_remaining h < min_free_bytes_ever h
                   then h\<lparr>min_free_bytes_ever := free_bytes_remaining h\<rparr> else h);
          Some (BLOCK_DATA block, h)
        }
      })"

definition os_heap_calloc_v05 :: "u32 \<Rightarrow> u32 \<Rightarrow> heap4 \<Rightarrow> mem \<Rightarrow> (ptr \<times> heap4 \<times> mem) option" where
  "os_heap_calloc_v05 count sz h m =
     do {
       let total = count * sz;
       (p, h) \<leftarrow> os_heap_alloc_v05 total h;
       Some (p, h, if p \<noteq> NULL then memset p 0 (unat total) m else m)
     }"

definition os_heap_realloc_v05 :: "ptr \<Rightarrow> u32 \<Rightarrow> heap4 \<Rightarrow> mem \<Rightarrow> (ptr \<times> heap4 \<times> mem) option" where
  "os_heap_realloc_v05 p new_size h m =
     (if p = NULL then do { (q, h) \<leftarrow> os_heap_alloc_v05 new_size h; Some (q, h, m) }
      else if new_size = 0 then do { h \<leftarrow> os_heap_free p h; Some (NULL, h, m) }
      else let block = DATA_BLOCK p;
               old_size = prv_block_get_size block h;
               new_size = ALIGN_UP new_size
           in if new_size \<le> old_size then Some (p, h, m)
              else do {
                (new_ptr, h) \<leftarrow> os_heap_alloc_v05 new_size h;
                if new_ptr \<noteq> NULL
                then do {
                  let m = memcpy new_ptr p (unat old_size) m;
                  h \<leftarrow> os_heap_free p h;
                  Some (new_ptr, h, m)
                }
                else Some (new_ptr, h, m)
              })"

definition kmalloc_v05 :: "u32 \<Rightarrow> os \<Rightarrow> (ptr \<times> os) option" where
  "kmalloc_v05 n s = do { (p, h) \<leftarrow> os_heap_alloc_v05 n (heap s); Some (p, s\<lparr>heap := h\<rparr>) }"

section \<open>Tasks\<close>

definition prv_allocate_stack_v05 :: "u32 \<Rightarrow> os \<Rightarrow> (ptr \<times> os) option" where
  "prv_allocate_stack_v05 n s = kmalloc_v05 n s"

definition os_task_create_v05 ::
    "ptr \<Rightarrow> string option \<Rightarrow> ptr \<Rightarrow> u32 \<Rightarrow> ptr \<Rightarrow> u32 \<Rightarrow> bool \<Rightarrow> os \<Rightarrow> (os_status \<times> ptr \<times> os) option" where
  "os_task_create_v05 func nm param prio stack_buf sz wants s =
     (if func = NULL \<or> prio \<ge> OS_CONFIG_NUM_PRIORITIES then Some (OS_ERR_PARAM, NULL, s)
      else if task_count s \<ge> OS_CONFIG_MAX_TASKS then Some (OS_ERR_FULL, NULL, s)
      else if sz < 128 then Some (OS_ERR_PARAM, NULL, s)
      else do {
        (stack, s) \<leftarrow> (if stack_buf = NULL then prv_allocate_stack_v05 sz s else Some (stack_buf, s));
        if stack = NULL then Some (OS_ERR_NOMEM, NULL, s)
        else do {
          (tcb, s) \<leftarrow> kmalloc_v05 sizeof_tcb s;
          if tcb = NULL
          then do {
            s \<leftarrow> (if stack_buf = NULL then kfree stack s else Some s);
            Some (OS_ERR_NOMEM, NULL, s)
          }
          else do {
            s \<leftarrow> finish_create func nm param prio stack sz tcb s;
            Some (OS_OK, if wants then tcb else NULL, s)
          }
        }
      })"

definition os_task_create_idle_v05 :: "env \<Rightarrow> os \<Rightarrow> os option" where
  "os_task_create_idle_v05 e s =
     do {
       (_, _, s) \<leftarrow> os_task_create_v05 (idle_task_func e) (Some ''IDLE'') NULL OS_PRIO_LOWEST
                      (idle_task_stack e) OS_CONFIG_IDLE_STACK_SIZE False s;
       Some s
     }"

definition os_task_create_suspended_v05 ::
    "env \<Rightarrow> ptr \<Rightarrow> string option \<Rightarrow> ptr \<Rightarrow> u32 \<Rightarrow> ptr \<Rightarrow> u32 \<Rightarrow> bool \<Rightarrow> os \<Rightarrow> (os_status \<times> ptr \<times> os) option" where
  "os_task_create_suspended_v05 e func nm param prio stack_buf sz wants s =
     do {
       (ret, h, s) \<leftarrow> os_task_create_v05 func nm param prio stack_buf sz wants s;
       if ret \<noteq> OS_OK then Some (ret, h, s)
       else do {
         s \<leftarrow> (if wants then do { (_, s) \<leftarrow> os_task_suspend e h s; Some s } else Some s);
         Some (OS_OK, h, s)
       }
     }"

definition os_task_delete_self_v05 :: "env \<Rightarrow> os \<Rightarrow> (os_status \<times> os) option" where
  "os_task_delete_self_v05 e s =
     (let tcb = current_task_ptr s in
      if tcb = NULL then Some (OS_ERR_PARAM, s)
      else do {
        let s = os_sched_enter_critical s;
        s \<leftarrow> os_task_remove_from_ready tcb s;
        s \<leftarrow> upd_tcb tcb (\<lambda>c. c\<lparr>tcb_state := OS_TASK_DELETED, pending_delete := 1\<rparr>) s;
        s \<leftarrow> upd_tcb tcb (\<lambda>c. c\<lparr>tcb_next := deferred_delete_list s\<rparr>) s;
        let s = s\<lparr>deferred_delete_list := tcb\<rparr>;
        let s = os_trace_record OS_TRACE_TASK_DELETE tcb 0 s;
        let s = os_sched_exit_critical s;
        s \<leftarrow> os_sched_yield e s;
        Some (OS_OK, s)
      })"

definition os_task_delete_v05 :: "env \<Rightarrow> ptr \<Rightarrow> os \<Rightarrow> (os_status \<times> os) option" where
  "os_task_delete_v05 e tcb s =
     (if tcb = NULL \<or> tcb = current_task_ptr s then os_task_delete_self_v05 e s
      else do {
        let s = os_sched_enter_critical s;
        c \<leftarrow> get_tcb tcb s;
        s \<leftarrow> (if tcb_state c = OS_TASK_READY then os_task_remove_from_ready tcb s else Some s);
        s \<leftarrow> upd_tcb tcb (\<lambda>c. c\<lparr>tcb_state := OS_TASK_DELETED\<rparr>) s;
        let s = os_trace_record OS_TRACE_TASK_DELETE tcb 0 s;
        s \<leftarrow> free_task e tcb s;
        Some (OS_OK, os_sched_exit_critical s)
      })"

text \<open>
  One turn of the idle task, with tickless idle compiled out. \<open>wfi\<close> is what happens while the core
  waits for an interrupt; this version waits only when no hook is registered.
\<close>

definition idle_task_turn_v05 :: "(os \<Rightarrow> os option) \<Rightarrow> env \<Rightarrow> os \<Rightarrow> os option" where
  "idle_task_turn_v05 wfi e s = (if idle_hook_count s > 0 then idle_hooks_from e 0 s else wfi s)"

section \<open>Queues and timers\<close>

definition os_queue_create_v05 :: "ptr \<Rightarrow> u32 \<Rightarrow> u32 \<Rightarrow> os \<Rightarrow> (os_status \<times> os) option" where
  "os_queue_create_v05 q isz maxn s =
     (if q = NULL \<or> isz = 0 \<or> maxn = 0 then Some (OS_ERR_PARAM, s)
      else do {
        let s = upd_q q (\<lambda>x. x\<lparr>buf_size := isz * maxn\<rparr>) s;
        (p, s) \<leftarrow> kmalloc_v05 (buf_size (queues s q)) s;
        let s = upd_q q (\<lambda>x. x\<lparr>q_buffer := p\<rparr>) s;
        if p = NULL then Some (OS_ERR_NOMEM, s)
        else Some (OS_OK, upd_q q (\<lambda>x. x\<lparr>item_size := isz, max_items := maxn, q_count := 0, q_head := 0,
                                       q_tail := 0, send_wait_list := NULL, recv_wait_list := NULL\<rparr>) s)
      })"

definition os_mailbox_create_v05 :: "ptr \<Rightarrow> u32 \<Rightarrow> os \<Rightarrow> (os_status \<times> os) option" where
  "os_mailbox_create_v05 mb isz s =
     (if mb = NULL \<or> isz = 0 then Some (OS_ERR_PARAM, s) else os_queue_create_v05 mb isz 1 s)"

definition os_timer_init_v05 :: "env \<Rightarrow> os \<Rightarrow> (os_status \<times> os) option" where
  "os_timer_init_v05 e s =
     (if timer_initialized s then Some (OS_OK, s)
      else do {
        let (_, s) = os_sem_create_binary (timer_sem e) s;
        (ret, h, s) \<leftarrow> os_task_create_v05 (timer_service_func e) (Some ''TMR'') NULL (OS_PRIO_LOWEST - 1)
                         (timer_task_stack e) OS_CONFIG_TIMER_SERVICE_STACK True s;
        if ret \<noteq> OS_OK then Some (ret, s)
        else Some (OS_OK, s\<lparr>timer_task_handle := h, timer_initialized := True\<rparr>)
      })"

text \<open>The name is not stored, and may be null.\<close>

definition os_timer_create_v05 ::
    "ptr \<Rightarrow> string option \<Rightarrow> u32 \<Rightarrow> os_timer_type \<Rightarrow> ptr \<Rightarrow> os \<Rightarrow> os_status \<times> os" where
  "os_timer_create_v05 timer nm period ty callback s =
     (if timer = NULL \<or> callback = NULL \<or> period = 0 then (OS_ERR_PARAM, s)
      else (OS_OK, upd_tm timer (\<lambda>x. x\<lparr>tm_callback := callback, tm_period := period, tm_remaining := 0,
                                      tm_type := ty, tm_active := False, tm_next := NULL\<rparr>) s))"

section \<open>Ports\<close>

definition os_port_systick_init_v05 :: "u32 \<Rightarrow> periph \<Rightarrow> periph" where
  "os_port_systick_init_v05 freq_hz r =
     (let reload = 72000000 div freq_hz;
          reload = (if reload > SYSTICK_LOAD_MAX then SYSTICK_LOAD_MAX else reload)
      in r\<lparr>syst_load := reload - 1, syst_val := 0,
           syst_ctrl := SYSTICK_CTRL_ENABLE OR SYSTICK_CTRL_TICKINT OR SYSTICK_CTRL_CLKSOURCE\<rparr>)"

definition os_port_systick_init_m0_v05 :: "u32 \<Rightarrow> periph \<Rightarrow> periph" where
  "os_port_systick_init_m0_v05 freq_hz r =
     (let reload = 48000000 div freq_hz;
          reload = (if reload > SYSTICK_LOAD_MAX_m0 then SYSTICK_LOAD_MAX_m0 else reload)
      in r\<lparr>syst_load := reload - 1, syst_val := 0,
           syst_ctrl := SYSTICK_CTRL_ENABLE_m0 OR SYSTICK_CTRL_TICKINT_m0 OR SYSTICK_CTRL_CLKSOURCE_m0\<rparr>)"

definition os_port_systick_init_m4_v05 :: "u32 \<Rightarrow> periph \<Rightarrow> periph" where
  "os_port_systick_init_m4_v05 freq_hz r =
     (let reload = 168000000 div freq_hz;
          reload = (if reload > SYSTICK_LOAD_MAX_m4 then SYSTICK_LOAD_MAX_m4 else reload)
      in r\<lparr>syst_load := reload - 1, syst_val := 0,
           syst_ctrl := SYSTICK_CTRL_ENABLE_m4 OR SYSTICK_CTRL_TICKINT_m4 OR SYSTICK_CTRL_CLKSOURCE_m4\<rparr>)"

definition os_port_systick_init_m7_v05 :: "u32 \<Rightarrow> periph \<Rightarrow> periph" where
  "os_port_systick_init_m7_v05 freq_hz r =
     (let reload = 216000000 div freq_hz;
          reload = (if reload > SYSTICK_LOAD_MAX_m7 then SYSTICK_LOAD_MAX_m7 else reload)
      in r\<lparr>syst_load := reload - 1, syst_val := 0,
           syst_ctrl := SYSTICK_CTRL_ENABLE_m7 OR SYSTICK_CTRL_TICKINT_m7 OR SYSTICK_CTRL_CLKSOURCE_m7\<rparr>)"

section \<open>The kernel\<close>

definition os_kernel_init_v05 :: "env \<Rightarrow> os \<Rightarrow> os option" where
  "os_kernel_init_v05 e s =
     (if kernel_initialized s then Some s
      else do {
        r \<leftarrow> os_port_nvic_set_priority_init (periph s);
        let s = s\<lparr>periph := r\<rparr>;
        let s = s\<lparr>heap := os_heap_init (uc_heap e) (heap s)\<rparr>;
        let s = os_task_init_ready_list s;
        let s = os_sched_init s;
        (_, s) \<leftarrow> os_timer_init_v05 e s;
        let s = os_trace_init s;
        let s = os_wdt_init s;
        Some (s\<lparr>kernel_initialized := True\<rparr>)
      })"

definition os_sched_start_v05 :: "env \<Rightarrow> os \<Rightarrow> os option" where
  "os_sched_start_v05 e s =
     do {
       s \<leftarrow> os_task_create_idle_v05 e s;
       os_sched_select_next (s\<lparr>scheduler_running := True\<rparr>)
     }"

definition os_kernel_start_v05 :: "env \<Rightarrow> os \<Rightarrow> os option" where
  "os_kernel_start_v05 e s =
     (if \<not> kernel_initialized s then Some s
      else os_sched_start_v05 e (s\<lparr>periph := os_port_systick_init_v05 OS_CONFIG_TICK_RATE_HZ (periph s)\<rparr>))"

definition os_kernel_tick_increment_v05 :: "env \<Rightarrow> os \<Rightarrow> os option" where
  "os_kernel_tick_increment_v05 e s =
     do {
       let s = s\<lparr>system_tick := system_tick s + 1\<rparr>;
       s \<leftarrow> os_task_tick e s;
       s \<leftarrow> os_timer_tick e s;
       s \<leftarrow> os_wdt_tick e s;
       os_sched_select_next s
     }"

definition SysTick_Handler_v05 :: "env \<Rightarrow> os \<Rightarrow> os option" where
  "SysTick_Handler_v05 e s = do { s \<leftarrow> os_kernel_tick_increment_v05 (isr e) s; Some (os_port_yield s) }"

definition os_kernel_get_version_v05 :: string where
  "os_kernel_get_version_v05 = ''MiniOS v0.5.0''"

definition os_sysinfo_get_v05 :: "bool \<Rightarrow> os \<Rightarrow> os_sysinfo option option" where
  "os_sysinfo_get_v05 wants s =
     (if \<not> wants then Some None
      else do {
       largest \<leftarrow> os_heap_get_largest_free_block (heap s);
       Some (Some \<lparr>si_task_count = os_task_get_count s, si_heap_free = os_heap_get_free_size (heap s),
             si_heap_min_free = os_heap_get_min_free_size (heap s), si_heap_largest = largest,
             si_uptime = os_kernel_get_tick s, si_version = os_kernel_get_version_v05,
             si_tick_rate = OS_CONFIG_TICK_RATE_HZ\<rparr>)
     })"

section \<open>The application\<close>

text \<open>
  \<open>app/main.c\<close> of this version has fewer variables and hooks than the record \<open>app\<close> lists. The
  producer, the consumer, the event waiter and the sensor are those of the present version.
\<close>

definition my_idle_hook_v05 :: "(os \<Rightarrow> os option) \<Rightarrow> app \<Rightarrow> os \<Rightarrow> os option" where
  "my_idle_hook_v05 wfi a s = wfi (bump32 (at_idle_tick_count a) s)"

definition monitor_task_v05 :: "app \<Rightarrow> env \<Rightarrow> os \<Rightarrow> os option" where
  "monitor_task_v05 a e s =
     do {
       info \<leftarrow> os_sysinfo_get_v05 True s;
       sysinfo \<leftarrow> info;
       cpu_sensor \<leftarrow> os_stats_get_cpu_usage (load32 (at_sensor_task_handle a) s) s;
       let s = os_trace_record (OS_TRACE_USER_EVENT 3) (si_heap_free sysinfo) cpu_sensor s;
       (_, s) \<leftarrow> OS_DELAY_SEC e 3 s;
       Some s
     }"

definition main_sync_objects_v05 :: "app \<Rightarrow> os \<Rightarrow> os option" where
  "main_sync_objects_v05 a s =
     do {
       (_, s) \<leftarrow> os_queue_create_v05 (at_demo_queue a) 4 10 s;
       let (_, s) = os_sem_create_binary (at_data_ready_sem a) s;
       let (_, s) = os_mutex_create (at_counter_mutex a) s;
       let (_, s) = os_eventgroup_create (at_demo_events a) s;
       (_, s) \<leftarrow> os_mailbox_create_v05 (at_alarm_mailbox a) 4 s;
       Some s
     }"

definition main_timer_v05 :: "app \<Rightarrow> os \<Rightarrow> os option" where
  "main_timer_v05 a s =
     do {
       let (_, s) = os_timer_create_v05 (at_heartbeat_timer a) (Some ''HB'') OS_CONFIG_TICK_RATE_HZ OS_TIMER_AUTO_RELOAD
                      (fn_heartbeat_callback a) s;
       (_, s) \<leftarrow> os_timer_start (at_heartbeat_timer a) OS_WAIT_NONE s;
       Some s
     }"

definition create_task_v05 :: "ptr \<Rightarrow> string \<Rightarrow> u32 \<Rightarrow> ptr \<Rightarrow> ptr \<Rightarrow> os \<Rightarrow> os option" where
  "create_task_v05 func nm prio stack handle s =
     do {
       (st, h, s) \<leftarrow> os_task_create_v05 func (Some nm) NULL prio stack 256 (handle \<noteq> NULL) s;
       Some (if st = OS_OK \<and> handle \<noteq> NULL then store32 handle h s else s)
     }"

definition main_tasks_v05 :: "app \<Rightarrow> os \<Rightarrow> os option" where
  "main_tasks_v05 a s =
     do {
       s \<leftarrow> create_task_v05 (fn_producer_task a) ''PROD'' 2 (at_task1_stack a) (at_producer_task_handle a) s;
       s \<leftarrow> create_task_v05 (fn_consumer_task a) ''CONS'' 3 (at_task2_stack a) (at_consumer_task_handle a) s;
       s \<leftarrow> create_task_v05 (fn_event_waiter_task a) ''EVT'' 4 (at_task3_stack a) NULL s;
       s \<leftarrow> create_task_v05 (fn_sensor_task a) ''SENS'' 3 (at_task4_stack a) (at_sensor_task_handle a) s;
       create_task_v05 (fn_monitor_task a) ''MON'' 6 (at_task5_stack a) (at_monitor_task_handle a) s
     }"

definition main_v05 :: "app \<Rightarrow> env \<Rightarrow> os \<Rightarrow> os option" where
  "main_v05 a e s =
     do {
       s \<leftarrow> os_kernel_init_v05 e s;
       let (_, s) = os_task_register_idle_hook (fn_my_idle_hook a) s;
       s \<leftarrow> main_sync_objects_v05 a s;
       s \<leftarrow> main_timer_v05 a s;
       s \<leftarrow> main_tasks_v05 a s;
       let s = main_watchdogs a s;
       os_kernel_start_v05 e s
     }"

section \<open>The old kernel is the present one without hooks\<close>

definition hookless :: "env \<Rightarrow> env" where
  "hookless e = e\<lparr>call_malloc_failed := (\<lambda>_ _ h. h), call_delete_hook := (\<lambda>_ _ s. Some s), call_tick_hook := (\<lambda>_ s. Some s)\<rparr>"

lemma hookless_fields [simp]:
  "uc_heap (hookless e) = uc_heap e" "idle_task_stack (hookless e) = idle_task_stack e" "idle_task_func (hookless e) = idle_task_func e"
  "timer_task_stack (hookless e) = timer_task_stack e" "timer_service_func (hookless e) = timer_service_func e"
  "timer_sem (hookless e) = timer_sem e" "call_wdt (hookless e) = call_wdt e" "switch (hookless e) = switch e"
  "call_malloc_failed (hookless e) f n h = h" "call_delete_hook (hookless e) f t s = Some s" "call_tick_hook (hookless e) f s = Some s"
  by (simp_all add: hookless_def)

lemma isr_hookless: "isr (hookless e) = hookless (isr e)"
  by (cases e) (simp add: isr_def hookless_def)

lemma os_heap_alloc_v05: "os_heap_alloc_v05 sz h = os_heap_alloc (call_malloc_failed (hookless e)) sz h"
proof -
  have h: "call_malloc_failed (hookless e) = (\<lambda>_ _ h. h)" by (simp add: hookless_def)
  show ?thesis unfolding os_heap_alloc_v05_def os_heap_alloc_def h if_cancel ..
qed

lemma heap_v05:
  "os_heap_calloc_v05 n sz h m = os_heap_calloc (call_malloc_failed (hookless e)) n sz h m"
  "os_heap_realloc_v05 p sz h m = os_heap_realloc (call_malloc_failed (hookless e)) p sz h m"
  unfolding os_heap_calloc_v05_def os_heap_calloc_def os_heap_realloc_v05_def os_heap_realloc_def os_heap_alloc_v05 [where e = e]
  by (rule refl)+

lemma kmalloc_v05: "kmalloc_v05 n s = kmalloc (hookless e) n s"
  by (simp add: kmalloc_v05_def kmalloc_def os_heap_alloc_v05 [where e = e])

lemma os_task_create_v05: "os_task_create_v05 f nm p prio b sz w s = os_task_create (hookless e) f nm p prio b sz w s"
  unfolding os_task_create_v05_def os_task_create_def prv_allocate_stack_v05_def prv_allocate_stack_def kmalloc_v05 [where e = e] ..

lemma os_queue_create_v05: "os_queue_create_v05 q isz n s = os_queue_create (hookless e) q isz n s"
  unfolding os_queue_create_v05_def os_queue_create_def kmalloc_v05 [where e = e] ..

lemma tick_hooks_hookless: "tick_hooks_from (hookless e) i s = Some s"
proof (induction "unat (tick_hook_count s) - unat i" arbitrary: i rule: less_induct)
  case less
  show ?case
  proof (cases "i < tick_hook_count s")
    case True
    then have i: "unat i < unat (tick_hook_count s)" by (simp add: word_less_nat_alt)
    then have "unat (i + 1) = unat i + 1" using unat_lt_u32 [of "tick_hook_count s"] by (intro unat_plus_one_u32) simp
    then have "tick_hooks_from (hookless e) (i + 1) s = Some s" using i by (intro less) simp
    then show ?thesis by (subst tick_hooks_from.simps) (simp add: True)
  qed (subst tick_hooks_from.simps, simp)
qed

lemma free_task_hookless: "free_task (hookless e) = free_task e"
  by (simp add: fun_eq_iff free_task_def)

text \<open>A loop over an environment depends only on what its body reads.\<close>

lemma deferred_walk_le:
  assumes "free_task e = free_task e'" "deferred_walk e t s = Some r" shows "deferred_walk e' t s = Some r"
proof -
  have "free_task e = free_task e' \<longrightarrow> deferred_walk e' t s = Some r"
  proof (rule deferred_walk.raw_induct [OF _ assms(2), of "\<lambda>e t s r. free_task e = free_task e' \<longrightarrow> deferred_walk e' t s = Some r"], intro impI)
    fix walk e t s r
    assume h: "\<And>e t s r. walk e t s = Some r \<Longrightarrow> free_task e = free_task e' \<longrightarrow> deferred_walk e' t s = Some r"
      "(if t = NULL then Some s else do { c \<leftarrow> get_tcb t s; s \<leftarrow> free_task e t s; walk e (tcb_next c) s }) = Some r"
      "free_task e = free_task e'"
    then show "deferred_walk e' t s = Some r"
      by (subst deferred_walk.simps) (auto simp: bind_Some_iff split: if_splits)
  qed
  then show ?thesis using assms(1) by blast
qed

lemma wdt_tick_from_le:
  assumes "wdt_tick_entry e = wdt_tick_entry e'" "wdt_tick_from e i s = Some r" shows "wdt_tick_from e' i s = Some r"
proof -
  have "wdt_tick_entry e = wdt_tick_entry e' \<longrightarrow> wdt_tick_from e' i s = Some r"
  proof (rule wdt_tick_from.raw_induct [OF _ assms(2), of "\<lambda>e i s r. wdt_tick_entry e = wdt_tick_entry e' \<longrightarrow> wdt_tick_from e' i s = Some r"], intro impI)
    fix walk e i s r
    assume h: "\<And>e i s r. walk e i s = Some r \<Longrightarrow> wdt_tick_entry e = wdt_tick_entry e' \<longrightarrow> wdt_tick_from e' i s = Some r"
      "(if i < wdt_count (wdt s) then do { s \<leftarrow> wdt_tick_entry e (unat i) s; walk e (i + 1) s } else Some s) = Some r"
      "wdt_tick_entry e = wdt_tick_entry e'"
    then show "wdt_tick_from e' i s = Some r"
      by (subst wdt_tick_from.simps) (auto simp: bind_Some_iff split: if_splits)
  qed
  then show ?thesis using assms(1) by blast
qed

lemma option_eq_le: "(\<And>r. x = Some r \<Longrightarrow> y = Some r) \<Longrightarrow> (\<And>r. y = Some r \<Longrightarrow> x = Some r) \<Longrightarrow> x = y"
  by (cases x; cases y) auto

lemma deferred_walk_hookless: "deferred_walk (hookless e) t s = deferred_walk e t s"
  by (rule option_eq_le) (erule deferred_walk_le [rotated], simp add: free_task_hookless)+

lemma wdt_tick_from_hookless: "wdt_tick_from (hookless e) i s = wdt_tick_from e i s"
proof -
  have w: "wdt_tick_entry (hookless e) = wdt_tick_entry e" unfolding fun_eq_iff wdt_tick_entry_def wdt_fire_def hookless_fields by simp
  show ?thesis by (rule option_eq_le) (erule wdt_tick_from_le [rotated], simp add: w)+
qed

lemma tick_parts_hookless:
  "os_sched_yield (hookless e) = os_sched_yield e" "os_task_suspend (hookless e) = os_task_suspend e"
  "os_task_tick (hookless e) = os_task_tick e" "os_timer_tick (hookless e) = os_timer_tick e" "os_wdt_tick (hookless e) = os_wdt_tick e"
proof -
  show y: "os_sched_yield (hookless e) = os_sched_yield e" unfolding fun_eq_iff os_sched_yield_def hookless_fields by simp
  show "os_task_suspend (hookless e) = os_task_suspend e" unfolding fun_eq_iff os_task_suspend_def y by simp
  show "os_task_tick (hookless e) = os_task_tick e"
    unfolding fun_eq_iff os_task_tick_def os_task_process_deferred_delete_def deferred_walk_hookless by simp
  show "os_timer_tick (hookless e) = os_timer_tick e"
    unfolding fun_eq_iff os_timer_tick_def os_sem_give_def yield_if_higher_def y hookless_fields by simp
  show "os_wdt_tick (hookless e) = os_wdt_tick e" unfolding fun_eq_iff os_wdt_tick_def wdt_tick_from_hookless by simp
qed

lemma run_delete_hook_hookless: "run_delete_hook (hookless e) t s = Some s"
  by (simp add: run_delete_hook_def)

lemma os_task_delete_v05: "os_task_delete_v05 e t s = os_task_delete (hookless e) t s"
  unfolding os_task_delete_v05_def os_task_delete_def os_task_delete_self_v05_def os_task_delete_self_def run_delete_hook_hookless
    tick_parts_hookless free_task_hookless Option.bind.simps ..

lemma os_kernel_tick_increment_v05: "os_kernel_tick_increment_v05 e s = os_kernel_tick_increment (hookless e) s"
  unfolding os_kernel_tick_increment_v05_def os_kernel_tick_increment_def tick_hooks_hookless tick_parts_hookless Option.bind.simps Let_def ..

lemma os_kernel_init_v05: "os_kernel_init_v05 e s = os_kernel_init (hookless e) s"
  unfolding os_kernel_init_v05_def os_kernel_init_def os_timer_init_v05_def os_timer_init_def os_task_create_v05 [where e = e] hookless_fields ..

lemma os_port_systick_init_v05: "os_port_systick_init_v05 = os_port_systick_init"
  unfolding fun_eq_iff os_port_systick_init_v05_def os_port_systick_init_def by simp

lemma os_kernel_start_v05: "os_kernel_start_v05 e s = os_kernel_start (hookless e) s"
  unfolding os_kernel_start_v05_def os_kernel_start_def os_sched_start_v05_def os_sched_start_def os_task_create_idle_v05_def
    os_task_create_idle_def os_task_create_v05 [where e = e] os_port_systick_init_v05 hookless_fields ..

lemma main_parts_v05:
  "main_sync_objects_v05 a s = main_sync_objects a (hookless e) s" "main_tasks_v05 a s = main_tasks a (hookless e) s"
  unfolding main_sync_objects_v05_def main_sync_objects_def os_mailbox_create_v05_def os_mailbox_create_def os_queue_create_v05 [where e = e]
    main_tasks_v05_def main_tasks_def create_task_v05_def create_task_def os_task_create_v05 [where e = e]
  by (rule refl)+

section \<open>The boot of the old version\<close>

lemma idle_hook_boot:
  assumes b: "boot_ok start k s A V" and z: "idle_hook_count s = 0" and l: "app_linked a"
  shows "\<exists>s'. os_task_register_idle_hook (fn_my_idle_hook a) s = (OS_OK, s') \<and> boot_ok start k s' A V
     \<and> idle_hook_count s' = 1 \<and> idle_hooks s' 0 = fn_my_idle_hook a \<and> task_count s' = task_count s
     \<and> active_timer_list s' = active_timer_list s \<and> wdt s' = wdt s"
proof -
  have f: "fn_my_idle_hook a \<noteq> NULL" using l by (auto simp: app_linked_def)
  obtain st s' where r: "os_task_register_idle_hook (fn_my_idle_hook a) s = (st, s')" by (rule prod.exhaust)
  note defs = os_task_register_idle_hook_def hook_index_def crit_simps
  have n: "critical_nesting s = 0" using boot_okD(6) [OF b] .
  have "boot_ok start k s' A V"
    by (rule boot_ok_same [OF b]) (use boot_okD(1,3) [OF b] f z n r in \<open>auto simp: defs\<close>)
  then show ?thesis using f z n r by (intro exI [of _ s']) (auto simp: defs)
qed

lemma main_timer_v05_boot:
  assumes b: "boot_ok start k s A V" and l: "app_linked a" and z: "active_timer_list s = NULL" and o: "sync_ready a s"
  shows "\<exists>s'. main_timer_v05 a s = Some s' \<and> boot_ok start k s' A V \<and> objects_ready a s'
     \<and> hook_vars s' = hook_vars s \<and> task_count s' = task_count s \<and> wdt s' = wdt s"
proof -
  define y where "y = (timers s (at_heartbeat_timer a))\<lparr>tm_callback := fn_heartbeat_callback a, tm_period := 1000, tm_remaining := 0,
    tm_type := OS_TIMER_AUTO_RELOAD, tm_active := False, tm_next := NULL\<rparr>"
  have n: "at_heartbeat_timer a \<noteq> NULL" "fn_heartbeat_callback a \<noteq> NULL" using l by (auto simp: app_linked_def)
  have "os_timer_create_v05 (at_heartbeat_timer a) (Some ''HB'') 1000 OS_TIMER_AUTO_RELOAD (fn_heartbeat_callback a) s
      = (OS_OK, s\<lparr>timers := (timers s)(at_heartbeat_timer a := y)\<rparr>)"
    using n by (simp add: os_timer_create_v05_def upd_tm_def y_def)
  then show ?thesis using heartbeat_boot [OF b l z refl _ _ _ _ _ o, of y 0] by (auto simp: main_timer_v05_def y_def)
qed

lemma main_v05_run:
  assumes s: "reset_state s" "active_timer_list s = NULL"
    and e: "linked e" "idle_task_func e \<noteq> NULL" "idle_task_stack e \<noteq> NULL" and a: "app_linked a"
  shows "\<exists>s' D. main_v05 a e s = Some s' \<and> started a e s' D \<and> idle_hook_count s' = 1 \<and> idle_hooks s' 0 = fn_my_idle_hook a"
proof -
  have l: "linked (hookless e)" using e(1) by (simp add: linked_def)
  obtain s1 tmr d where 1: "os_kernel_init (hookless e) s = Some s1" "boot_ok (unat (ALIGN_UP (uc_heap e))) 10120 s1 ((\<lambda>_. [])(Ready 6 := [tmr])) [tmr \<mapsto> d]"
    "entry_func d = timer_service_func e" "priority d = 6" "task_count s1 = 1" "idle_hook_count s1 = 0"
    "active_timer_list s1 = NULL" "wdt_count (wdt s1) = 0"
    using kernel_init_run [OF s(1) l] s(2) by auto
  let ?start = "unat (ALIGN_UP (uc_heap e))"
  obtain s2 where 2: "os_task_register_idle_hook (fn_my_idle_hook a) s1 = (OS_OK, s2)"
    "boot_ok ?start 10120 s2 ((\<lambda>_. [])(Ready 6 := [tmr])) [tmr \<mapsto> d]" "idle_hook_count s2 = 1" "idle_hooks s2 0 = fn_my_idle_hook a"
    "task_count s2 = 1" "active_timer_list s2 = NULL" "wdt_count (wdt s2) = 0"
    using idle_hook_boot [OF 1(2,6) a] 1(5,7,8) by auto
  obtain s3 where 3: "main_sync_objects a (hookless e) s2 = Some s3" "boot_ok ?start 10048 s3 ((\<lambda>_. [])(Ready 6 := [tmr])) [tmr \<mapsto> d]"
    "sync_ready a s3" "hook_vars s3 = hook_vars s2" "task_count s3 = 1" "wdt_count (wdt s3) = 0" "active_timer_list s3 = NULL"
    using main_sync_objects_boot [OF 2(2) a, of "hookless e"] 2(5-7) by auto
  obtain s4 where 4: "main_timer_v05 a s3 = Some s4" "boot_ok ?start 10048 s4 ((\<lambda>_. [])(Ready 6 := [tmr])) [tmr \<mapsto> d]"
    "objects_ready a s4" "hook_vars s4 = hook_vars s2" "task_count s4 = 1" "wdt_count (wdt s4) = 0"
    using main_timer_v05_boot [OF 3(2) a 3(7,3)] 3(4-6) by auto
  have ef: "idle_task_func (hookless e) \<noteq> NULL" "idle_task_stack (hookless e) \<noteq> NULL" "entry_func d = timer_service_func (hookless e)"
    using e(2,3) 1(3) by simp_all
  obtain s5 D where 5: "main_rest a (hookless e) s4 = Some s5" "started a (hookless e) s5 D" "hook_vars s5 = hook_vars s2"
    using main_rest_run [OF 4(2) a ef 1(4) 4(3,5,6)] 4(4) by auto
  have "main_v05 a e s = Some s5"
    using 1(1) 2(1) 3(1) 4(1) 5(1)
    by (simp add: main_v05_def main_rest_def os_kernel_init_v05 main_parts_v05 [where e = e] os_kernel_start_v05)
  moreover have "started a e s5 D" using 5(2) by (simp add: started_def)
  moreover have "idle_hook_count s5 = 1" "idle_hooks s5 0 = fn_my_idle_hook a" using 5(3) 2(3,4) by (simp_all add: hook_vars_def)
  ultimately show ?thesis by blast
qed

section \<open>Compatibility\<close>

lemma alloc_unhooked: "malloc_failed_hook h = NULL \<Longrightarrow> os_heap_alloc hook sz h = os_heap_alloc_v05 sz h"
  by (simp add: os_heap_alloc_def os_heap_alloc_v05_def Let_def)

lemma alloc_keeps_hook: "os_heap_alloc_v05 sz h = Some (p, h') \<Longrightarrow> malloc_failed_hook h' = malloc_failed_hook h"
  by (auto simp: os_heap_alloc_v05_def Let_def bind_Some_iff upd_hdr_def prv_block_set_allocated_def split: if_splits)

lemma kmalloc_unhooked: "malloc_failed_hook (heap s) = NULL \<Longrightarrow> kmalloc e n s = kmalloc_v05 n s"
  by (simp add: kmalloc_def kmalloc_v05_def alloc_unhooked)

lemma kmalloc_keeps_hook: "kmalloc_v05 n s = Some (p, s') \<Longrightarrow> malloc_failed_hook (heap s') = malloc_failed_hook (heap s)"
  by (auto simp: kmalloc_v05_def bind_Some_iff dest: alloc_keeps_hook)

lemma upd_tcb_keeps_hook: "upd_tcb t f s = Some s' \<Longrightarrow> task_delete_hook s' = task_delete_hook s"
  by (auto simp: upd_tcb_def bind_Some_iff)

lemma upd_rl_keeps_hook [simp]: "task_delete_hook (upd_rl p f s) = task_delete_hook s"
  by (simp add: upd_rl_def)

lemma remove_from_ready_keeps_hook:
  assumes "os_task_remove_from_ready t s = Some s'" shows "task_delete_hook s' = task_delete_hook s"
proof -
  have k: "task_delete_hook s2 = task_delete_hook s1"
    if "(if b then upd_tcb u f s1 else Some (upd_rl p g s1)) = Some s2" for b u f p g s1 s2
    using that by (auto simp: split: if_splits dest: upd_tcb_keeps_hook)
  have e: "task_delete_hook s2 = task_delete_hook s1"
    if "Some (if b then (upd_rl p g s1)\<lparr>ready_bitmap := w\<rparr> else upd_rl p g s1) = Some s2" for b p g w s1 s2
    using that by (auto split: if_splits)
  show ?thesis
    using assms unfolding os_task_remove_from_ready_def bind_Some_iff Let_def
    by (elim exE conjE) (drule k, drule k, drule e, drule upd_tcb_keeps_hook, simp)
qed

lemma os_task_create_unhooked:
  assumes "malloc_failed_hook (heap s) = NULL" shows "os_task_create e f nm p prio b sz w s = os_task_create_v05 f nm p prio b sz w s"
proof -
  have "malloc_failed_hook (heap s1) = NULL" if "(if b = NULL then prv_allocate_stack_v05 sz s else Some (b, s)) = Some (k, s1)" for k s1
    using that assms kmalloc_keeps_hook by (auto simp: prv_allocate_stack_v05_def split: if_splits)
  then show ?thesis
    unfolding os_task_create_def os_task_create_v05_def prv_allocate_stack_def prv_allocate_stack_v05_def kmalloc_unhooked [OF assms]
    by (auto simp: kmalloc_unhooked prv_allocate_stack_v05_def intro!: Option.bind_cong)
qed

lemma os_task_delete_unhooked:
  assumes "task_delete_hook s = NULL" shows "os_task_delete e t s = os_task_delete_v05 e t s"
proof -
  have h: "run_delete_hook e u s = Some s" if "task_delete_hook s = NULL" for u s using that by (simp add: run_delete_hook_def)
  have k: "task_delete_hook (os_sched_enter_critical s) = NULL" using assms by (simp add: enter_critical_nf)
  have b: "upd_tcb u f s1 \<bind> (\<lambda>s2. run_delete_hook e u s2 \<bind> g) = upd_tcb u f s1 \<bind> g" if "task_delete_hook s1 = NULL" for u f s1 g
    using that by (cases "upd_tcb u f s1") (simp_all add: h upd_tcb_keeps_hook)
  have self: "os_task_delete_self e s = os_task_delete_self_v05 e s"
    unfolding os_task_delete_self_def os_task_delete_self_v05_def Let_def
    by (rule if_cong [OF refl refl], rule Option.bind_cong [OF refl], rule b) (simp add: remove_from_ready_keeps_hook k)
  have rm: "task_delete_hook s1 = NULL"
    if "(if r then os_task_remove_from_ready t (os_sched_enter_critical s) else Some (os_sched_enter_critical s)) = Some s1" for r s1
    using that k remove_from_ready_keeps_hook by (auto split: if_splits)
  show ?thesis unfolding os_task_delete_def os_task_delete_v05_def Let_def
    by (rule if_cong [OF refl self], rule Option.bind_cong [OF refl], rule Option.bind_cong [OF refl], rule b, erule rm)
qed

lemma os_kernel_tick_increment_unhooked:
  assumes "tick_hook_count s = 0" shows "os_kernel_tick_increment e s = os_kernel_tick_increment_v05 e s"
proof -
  have "tick_hooks_from e 0 (s\<lparr>system_tick := system_tick s + 1\<rparr>) = Some (s\<lparr>system_tick := system_tick s + 1\<rparr>)"
    by (subst tick_hooks_from.simps) (simp add: assms)
  then show ?thesis by (simp add: os_kernel_tick_increment_def os_kernel_tick_increment_v05_def)
qed

section \<open>Properties\<close>

text \<open>
  C24. The hooks are a compatible extension: in a state where no malloc-failed, task-deletion or tick hook
  is registered, the present version of every function that can call one (allocation, the creation of
  tasks and queues, the deletion of a task, the tick and its interrupt handler) does exactly what version
  0.5.0 of that function does, whatever the environment would do in a hook.
\<close>

theorem unhooked_kernel_is_v05:
  assumes h: "malloc_failed_hook (heap s) = NULL" "task_delete_hook s = NULL" "tick_hook_count s = 0"
  shows "os_heap_alloc (call_malloc_failed e) sz (heap s) = os_heap_alloc_v05 sz (heap s)
     \<and> os_task_create e f nm p prio b sz w s = os_task_create_v05 f nm p prio b sz w s
     \<and> os_queue_create e q isz n s = os_queue_create_v05 q isz n s
     \<and> os_task_delete e t s = os_task_delete_v05 e t s
     \<and> os_kernel_tick_increment e s = os_kernel_tick_increment_v05 e s \<and> SysTick_Handler e s = SysTick_Handler_v05 e s"
proof -
  have "malloc_failed_hook (heap (upd_q q g s)) = NULL" for g using h(1) by (simp add: upd_q_def)
  then have "os_queue_create e q isz n s = os_queue_create_v05 q isz n s"
    unfolding os_queue_create_def os_queue_create_v05_def Let_def by (simp add: kmalloc_unhooked)
  then show ?thesis
    using h by (simp add: alloc_unhooked os_task_create_unhooked os_task_delete_unhooked os_kernel_tick_increment_unhooked
        SysTick_Handler_def SysTick_Handler_v05_def)
qed

theorem unhooked_kernel_is_v05_witness:
  "os_task_delete demo_env tReady demo = os_task_delete_v05 demo_env tReady demo
   \<and> os_kernel_tick_increment demo_env demo = os_kernel_tick_increment_v05 demo_env demo"
proof -
  have "malloc_failed_hook (heap demo) = NULL" "task_delete_hook demo = NULL" "tick_hook_count demo = 0"
    by (simp_all add: demo_def zero_heap_def)
  then show ?thesis using unhooked_kernel_is_v05 [of demo demo_env] by blast
qed

text \<open>
  The kernel of version 0.5.0 as a transition system: its tick runs no hooks; the other calls are those of the present version.
\<close>

definition perform_v05 :: "env \<Rightarrow> kernel_call \<Rightarrow> os \<Rightarrow> os option" where
  "perform_v05 e c s = (if c = Tick then SysTick_Handler_v05 e s else perform e c s)"

inductive kernel_step_v05 :: "env \<Rightarrow> os \<Rightarrow> os \<Rightarrow> bool" for e where
  call_v05: "enabled c s \<Longrightarrow> perform_v05 e c s = Some s' \<Longrightarrow> kernel_step_v05 e s s'"

inductive_cases kernel_step_v05E: "kernel_step_v05 e s s'"

lemma systick_v05_inv:
  assumes "hooks_ok e" "kernel_inv D s" "task_running s" "os_task_check_stack_overflow s = Some ()" "SysTick_Handler_v05 e s = Some s'"
  shows "kernel_inv D s'"
proof -
  let ?s = "s\<lparr>system_tick := system_tick s + 1\<rparr>"
  have "kept s ?s" by (rule kept_same, rule rep_cong, simp_all add: crit_same_def) (rule list_head_cong, simp_all)
  note 0 = keptD [OF this assms(2)]
  obtain s2 where s: "s' = os_port_yield s2"
    "do { s \<leftarrow> os_task_tick (isr e) ?s; s \<leftarrow> os_timer_tick (isr e) s; s \<leftarrow> os_wdt_tick (isr e) s; os_sched_select_next s } = Some s2"
    using assms(5) by (auto simp: SysTick_Handler_v05_def os_kernel_tick_increment_v05_def bind_eq_Some_conv)
  have e: "hooks_ok (isr e)" using assms(1) by (simp only: hooks_ok_isr)
  have "switch (isr e) = Some" by (simp add: isr_def)
  then have 2: "kernel_inv D s2" using tick_body_inv [OF e _ 0(1) 0(4) [OF assms(3)] 0(5) [OF assms(4)] s(2)] by blast
  have "kept s2 s'" unfolding s(1) by (rule kept_same) (simp_all add: os_port_yield_def crit_same_def)
  from keptD(1) [OF this 2] show ?thesis .
qed

lemma reachable_v05_inv:
  assumes "(kernel_step_v05 e)\<^sup>*\<^sup>* s0 s" "kernel_inv D s0" "switch_ok e" "hooks_ok e" shows "kernel_inv D s"
  using assms(1,2)
proof (induction rule: rtranclp_induct)
  case (step y z)
  obtain c where c: "enabled c y" "perform_v05 e c y = Some z" using step.hyps(2) by (rule kernel_step_v05E)
  note k = step.IH [OF step.prems]
  show ?case
  proof (cases "c = Tick")
    case True
    then show ?thesis using systick_v05_inv [OF assms(4) k] c by (simp add: perform_v05_def)
  next
    case False
    then show ?thesis using perform_ok [OF k assms(3) c(1)] c(2) by (auto simp: perform_v05_def)
  qed
qed

text \<open>
  C25. Version 0.5.0 boots and keeps the kernel invariant. From the reset state every call of its
  \<open>main\<close> succeeds; then its seven tasks are ready in the order of their priorities with the producer
  running, the objects, the heartbeat timer and the watchdog entries are set up and the idle hook is
  registered. In every state reached from there by scheduling decisions, complete tick interrupts of that version that return, and the kernel
  calls of \<open>kernel_call\<close>, in any order in which each is \<open>enabled\<close>, the invariant holds, and every enabled call other than the tick
  returns. \<open>enabled\<close> excludes, as in the present version, changing the priority of the running task or of a task in the wait list of an object,
  also by inheritance, and the last unlock by an owner of a changed priority.
\<close>

theorem main_v05_system:
  assumes "reset_state s" "active_timer_list s = NULL" "linked e" "idle_task_func e \<noteq> NULL" "idle_task_stack e \<noteq> NULL"
    "app_linked a" "switch_ok e" "hooks_ok e"
  shows "\<exists>s0 D. main_v05 a e s = Some s0 \<and> card D = 7 \<and> started a e s0 D
     \<and> idle_hook_count s0 = 1 \<and> idle_hooks s0 0 = fn_my_idle_hook a
     \<and> (\<forall>s1. (kernel_step_v05 e)\<^sup>*\<^sup>* s0 s1 \<longrightarrow> kernel_inv D s1
          \<and> (\<forall>c. enabled c s1 \<and> c \<noteq> Tick \<longrightarrow> (\<exists>s2. perform_v05 e c s1 = Some s2 \<and> kernel_inv D s2)))"
proof -
  obtain s0 D where m: "main_v05 a e s = Some s0" "started a e s0 D" "idle_hook_count s0 = 1" "idle_hooks s0 0 = fn_my_idle_hook a"
    using main_v05_run [OF assms(1-6)] by blast
  have "\<exists>s2. perform_v05 e c s1 = Some s2 \<and> kernel_inv D s2" if "kernel_inv D s1" "enabled c s1 \<and> c \<noteq> Tick" for c s1
    using perform_ok [OF that(1) assms(7), of c] that(2) by (simp add: perform_v05_def)
  then show ?thesis
    using m started_card [OF m(2)] reachable_v05_inv [OF _ started_inv [OF m(2)] assms(7,8)] by blast
qed

theorem main_v05_system_witness:
  "\<exists>s0 D. main_v05 demo_app demo_env blank = Some s0 \<and> started demo_app demo_env s0 D \<and> kernel_inv D s0"
  using main_v05_system [OF blank_reset(1,3) demo_linked demo_app_linked demo_switch_ok] by blast

text \<open>
  The present SysTick set-up of three ports is wrong by the ratio of their clock to 72 MHz. Version
  0.5.0 computes the reload value from the clock of the core, 48 MHz on the Cortex-M0, 168 MHz on the M4
  and 216 MHz on the M7, so that a tick lasts a millisecond; the present version divides
  \<open>OS_CONFIG_CPU_CLOCK_HZ\<close>, 72 MHz, on each of them. On those cores a tick then lasts 1.5 ms, 3/7 ms
  and 1/3 ms. The port of the M3, whose clock is 72 MHz, is the same in both versions.
\<close>

theorem systick_clock_regression:
  "unat (syst_load (os_port_systick_init_m0_v05 1000 r)) + 1 = 48000 \<and> unat (syst_load (os_port_systick_init_m0 1000 r)) + 1 = 72000
   \<and> unat (syst_load (os_port_systick_init_m4_v05 1000 r)) + 1 = 168000 \<and> unat (syst_load (os_port_systick_init_m4 1000 r)) + 1 = 72000
   \<and> unat (syst_load (os_port_systick_init_m7_v05 1000 r)) + 1 = 216000 \<and> unat (syst_load (os_port_systick_init_m7 1000 r)) + 1 = 72000
   \<and> os_port_systick_init_v05 1000 r = os_port_systick_init 1000 r"
  by (simp add: os_port_systick_init_m0_v05_def os_port_systick_init_m0_def SYSTICK_LOAD_MAX_m0_def
      os_port_systick_init_m4_v05_def os_port_systick_init_m4_def SYSTICK_LOAD_MAX_m4_def
      os_port_systick_init_m7_v05_def os_port_systick_init_m7_def SYSTICK_LOAD_MAX_m7_def os_port_systick_init_v05)

text \<open>The other differences: the wait of the idle task, the timer's name, the version string.\<close>

lemma idle_task_turn_v05:
  "idle_task_turn_v05 wfi e s = (if idle_hook_count s = 0 then wfi s else idle_task_turn e s)"
  by (simp add: idle_task_turn_v05_def idle_task_turn_def word_gt_0)

lemma os_timer_create_v05_named:
  assumes "os_timer_create_v05 t nm n ty cb s = (st, s')" and "os_timer_create t (Some x) n ty cb s = Some (st2, s2)"
  shows "st2 = st \<and> (st = OS_OK \<longrightarrow> s2 = upd_tm t (\<lambda>y. y\<lparr>tm_name := strncpy_name x\<rparr>) s')"
  using assms by (cases "timers s t") (auto simp: os_timer_create_v05_def os_timer_create_def upd_tm_def split: if_splits)

lemma os_sysinfo_get_v05:
  "os_sysinfo_get_v05 w s = map_option (map_option (\<lambda>i. i\<lparr>si_version := ''MiniOS v0.5.0''\<rparr>)) (os_sysinfo_get w s)"
  by (cases "os_heap_get_largest_free_block (heap s)")
    (simp_all add: os_sysinfo_get_v05_def os_sysinfo_get_def os_kernel_get_version_v05_def)

lemma monitor_task_v05: "monitor_task_v05 a e s = monitor_task a e s"
  by (cases "os_heap_get_largest_free_block (heap s)")
    (simp_all add: monitor_task_v05_def monitor_task_def os_sysinfo_get_v05_def os_sysinfo_get_def)

end
