(* ===== verification/Mempool.thy ===== *)
theory Mempool
  imports Os_State
begin

unbundle bit_operations_syntax

text \<open>
  The fixed-size block allocator, \<open>kernel/mempool.c\<close>. It is independent of the kernel: its
  state is the control blocks and the word memory of the pools, where each free block holds the
  pointer to the next one in its first word.
\<close>

section \<open>Operations\<close>

record os_mempool =
  pool_start :: ptr
  pool_end :: ptr
  mp_block_size :: u32
  total_blocks :: u32
  free_count :: u32
  min_free_count :: u32
  free_list :: ptr

record mp_state =
  mempools :: "ptr \<Rightarrow> os_mempool"
  words :: "ptr \<Rightarrow> u32"

definition MIN_BLOCK_SIZE :: u32 where "MIN_BLOCK_SIZE = 4"

definition POOL_ALIGN_SIZE :: "u32 \<Rightarrow> u32" where
  "POOL_ALIGN_SIZE n = ((n + 4) - 1) AND NOT (4 - 1)"

definition prv_calc_stride :: "u32 \<Rightarrow> u32" where
  "prv_calc_stride bs =
     (let stride = POOL_ALIGN_SIZE bs in if stride < MIN_BLOCK_SIZE then MIN_BLOCK_SIZE else stride)"

definition upd_pool :: "ptr \<Rightarrow> (os_mempool \<Rightarrow> os_mempool) \<Rightarrow> mp_state \<Rightarrow> mp_state" where
  "upd_pool p f s = s\<lparr>mempools := (mempools s)(p := f (mempools s p))\<rparr>"

definition push_block :: "ptr \<Rightarrow> ptr \<Rightarrow> mp_state \<Rightarrow> mp_state" where
  "push_block pool block s =
     (let s = s\<lparr>words := (words s)(block := free_list (mempools s pool))\<rparr>
      in upd_pool pool (\<lambda>p. p\<lparr>free_list := block\<rparr>) s)"

definition os_mempool_create :: "ptr \<Rightarrow> ptr \<Rightarrow> u32 \<Rightarrow> u32 \<Rightarrow> mp_state \<Rightarrow> os_status \<times> mp_state" where
  "os_mempool_create pool buf bufsz bs s =
     (if pool = NULL \<or> buf = NULL \<or> bufsz = 0 \<or> bs = 0 then (OS_ERR_PARAM, s)
      else let aligned = POOL_ALIGN_SIZE buf;
               aligned = (if aligned < buf then aligned + 4 else aligned);
               usable = bufsz - (aligned - buf)
           in if usable < MIN_BLOCK_SIZE then (OS_ERR_NOMEM, s)
              else let stride = prv_calc_stride bs;
                       num_blocks = usable div stride
                   in if num_blocks = 0 then (OS_ERR_NOMEM, s)
                      else let s = upd_pool pool (\<lambda>p. p\<lparr>pool_start := aligned,
                                     pool_end := aligned + num_blocks * stride, mp_block_size := bs,
                                     total_blocks := num_blocks, free_count := num_blocks,
                                     min_free_count := num_blocks, free_list := NULL\<rparr>) s
                           in (OS_OK, fold (\<lambda>i. push_block pool (aligned + of_nat i * stride))
                                        [0..<unat num_blocks] s))"

definition os_mempool_alloc :: "ptr \<Rightarrow> mp_state \<Rightarrow> ptr \<times> mp_state" where
  "os_mempool_alloc pool s =
     (if pool = NULL \<or> free_count (mempools s pool) = 0 then (NULL, s)
      else let block = free_list (mempools s pool);
               s = upd_pool pool (\<lambda>p. p\<lparr>free_list := words s block, free_count := free_count p - 1\<rparr>) s;
               s = upd_pool pool (\<lambda>p. if free_count p < min_free_count p
                                      then p\<lparr>min_free_count := free_count p\<rparr> else p) s
           in (block, s))"

definition os_mempool_free :: "ptr \<Rightarrow> ptr \<Rightarrow> mp_state \<Rightarrow> os_status \<times> mp_state" where
  "os_mempool_free pool p s =
     (if pool = NULL \<or> p = NULL then (OS_ERR_PARAM, s)
      else if p < pool_start (mempools s pool) \<or> p \<ge> pool_end (mempools s pool) then (OS_ERR_PARAM, s)
      else let offset = p - pool_start (mempools s pool);
               stride = prv_calc_stride (mp_block_size (mempools s pool))
           in if offset mod stride \<noteq> 0 then (OS_ERR_PARAM, s)
              else (OS_OK, upd_pool pool (\<lambda>x. x\<lparr>free_count := free_count x + 1\<rparr>) (push_block pool p s)))"

definition os_mempool_get_free_count :: "ptr \<Rightarrow> mp_state \<Rightarrow> u32" where
  "os_mempool_get_free_count pool s = (if pool = NULL then 0 else free_count (mempools s pool))"

definition os_mempool_get_min_free_count :: "ptr \<Rightarrow> mp_state \<Rightarrow> u32" where
  "os_mempool_get_min_free_count pool s = (if pool = NULL then 0 else min_free_count (mempools s pool))"

definition os_mempool_get_total_count :: "ptr \<Rightarrow> mp_state \<Rightarrow> u32" where
  "os_mempool_get_total_count pool s = (if pool = NULL then 0 else total_blocks (mempools s pool))"

definition os_mempool_owns :: "ptr \<Rightarrow> ptr \<Rightarrow> mp_state \<Rightarrow> bool" where
  "os_mempool_owns pool p s =
     (if pool = NULL \<or> p = NULL then False
      else p \<ge> pool_start (mempools s pool) \<and> p < pool_end (mempools s pool))"

section \<open>A pool as a list of free blocks\<close>

fun chain :: "(ptr \<Rightarrow> u32) \<Rightarrow> ptr list \<Rightarrow> bool" where
  "chain w [] \<longleftrightarrow> True"
| "chain w (b # bs) \<longleftrightarrow> b \<noteq> NULL \<and> w b = first_ptr NULL bs \<and> chain w bs"

definition stride_of :: "os_mempool \<Rightarrow> nat" where
  "stride_of x = unat (prv_calc_stride (mp_block_size x))"

definition block :: "os_mempool \<Rightarrow> nat \<Rightarrow> ptr" where
  "block x i = pool_start x + of_nat i * prv_calc_stride (mp_block_size x)"

definition pool_ok :: "ptr \<Rightarrow> mp_state \<Rightarrow> ptr list \<Rightarrow> bool" where
  "pool_ok p s fs \<longleftrightarrow> (let x = mempools s p; n = unat (total_blocks x) in
     p \<noteq> NULL \<and> 0 < unat (pool_start x) \<and> 0 < stride_of x \<and> unat (pool_start x) + n * stride_of x < 2 ^ 32
     \<and> unat (pool_end x) = unat (pool_start x) + n * stride_of x
     \<and> distinct fs \<and> set fs \<subseteq> block x ` {0..<n} \<and> unat (free_count x) = length fs
     \<and> free_list x = first_ptr NULL fs \<and> chain (words s) fs)"

lemma chain_upd: "b \<notin> set bs \<Longrightarrow> chain (w(b := v)) bs = chain w bs"
  by (induction bs) auto

lemma unat_add_u32: "unat (a :: u32) + unat b < 2 ^ 32 \<Longrightarrow> unat (a + b) = unat a + unat b"
  by (simp add: unat_word_ariths)

lemma unat_block:
  assumes "unat (pool_start x) + n * stride_of x < 2 ^ 32" "i < n"
  shows "unat (block x i) = unat (pool_start x) + i * stride_of x" "unat (block x i - pool_start x) = i * stride_of x"
proof -
  have "i * stride_of x \<le> n * stride_of x" using assms(2) by (intro mult_le_mono1) simp
  then have l: "unat (pool_start x) + i * stride_of x < 2 ^ 32" using assms(1) by linarith
  have m: "block x i - pool_start x = of_nat (i * stride_of x)" by (simp add: block_def stride_of_def)
  show u: "unat (block x i - pool_start x) = i * stride_of x" unfolding m using l by (simp only: unat_of_nat) simp
  have "unat (pool_start x) + unat (block x i - pool_start x) < 2 ^ 32" using l u by simp
  moreover have "block x i = pool_start x + (block x i - pool_start x)" by simp
  ultimately show "unat (block x i) = unat (pool_start x) + i * stride_of x"
    using u unat_add_u32 by metis
qed


lemma block_inj:
  assumes "unat (pool_start x) + n * stride_of x < 2 ^ 32" "0 < stride_of x" "i < n" "j < n" "block x i = block x j"
  shows "i = j"
proof -
  have "i * stride_of x = j * stride_of x" using unat_block(2) [OF assms(1,3)] unat_block(2) [OF assms(1,4)] assms(5) by metis
  then show ?thesis using assms(2) by simp
qed

lemma block_inj_on:
  "unat (pool_start x) + n * stride_of x < 2 ^ 32 \<Longrightarrow> 0 < stride_of x \<Longrightarrow> inj_on (block x) {0..<n}"
  unfolding inj_on_def by (intro ballI impI) (rule block_inj, auto)

lemma block_same [simp]:
  "block (x\<lparr>free_list := a, free_count := b\<rparr>) = block x" "block (x\<lparr>free_count := b\<rparr>) = block x" "block (x\<lparr>free_list := a\<rparr>) = block x"
  "block (x\<lparr>min_free_count := b\<rparr>) = block x"
  "stride_of (x\<lparr>free_list := a, free_count := b\<rparr>) = stride_of x" "stride_of (x\<lparr>free_count := b\<rparr>) = stride_of x"
  "stride_of (x\<lparr>free_list := a\<rparr>) = stride_of x" "stride_of (x\<lparr>min_free_count := b\<rparr>) = stride_of x"
  by (simp_all add: block_def stride_of_def fun_eq_iff)

lemma pool_alloc_none: "pool_ok p s [] \<Longrightarrow> os_mempool_alloc p s = (NULL, s)"
  by (simp add: pool_ok_def os_mempool_alloc_def Let_def unat_eq_0)

lemma pool_alloc_some:
  assumes ok: "pool_ok p s (b # bs)"
  shows "\<exists>s'. os_mempool_alloc p s = (b, s') \<and> pool_ok p s' bs \<and> b \<noteq> NULL \<and> os_mempool_owns p b s"
proof -
  let ?x = "mempools s p" let ?n = "unat (total_blocks ?x)"
  have o: "p \<noteq> NULL" "unat (free_count ?x) = Suc (length bs)" "free_list ?x = b" "words s b = first_ptr NULL bs" "b \<noteq> NULL"
    using ok unfolding pool_ok_def Let_def by simp_all
  have ge: "unat (pool_start ?x) + ?n * stride_of ?x < 2 ^ 32" "0 < stride_of ?x" "unat (pool_end ?x) = unat (pool_start ?x) + ?n * stride_of ?x"
    using ok unfolding pool_ok_def Let_def by blast+
  have "b \<in> block ?x ` {0..<?n}" using ok unfolding pool_ok_def Let_def by simp
  then obtain i where i: "i < ?n" "b = block ?x i" by auto
  have "i * stride_of ?x < ?n * stride_of ?x" using i(1) ge(2) by simp
  then have own: "os_mempool_owns p b s"
    using o(1,5) unat_block(1) [OF ge(1) i(1)] i(2) ge(3) by (simp add: os_mempool_owns_def word_le_nat_alt word_less_nat_alt)
  have nz: "free_count ?x \<noteq> 0" using o(2) by auto
  then have fc: "unat (free_count ?x - 1) = length bs" using o(2) by (simp add: unat_minus_one)
  let ?s = "snd (os_mempool_alloc p s)"
  have run: "os_mempool_alloc p s = (b, ?s)" using o(1,3) nz by (simp add: os_mempool_alloc_def Let_def)
  have w: "words ?s = words s" using o(1) nz by (simp add: os_mempool_alloc_def upd_pool_def Let_def)
  have x': "mempools ?s p = ?x\<lparr>free_list := first_ptr NULL bs, free_count := free_count ?x - 1,
      min_free_count := (if free_count ?x - 1 < min_free_count ?x then free_count ?x - 1 else min_free_count ?x)\<rparr>"
    using o nz by (simp add: os_mempool_alloc_def upd_pool_def Let_def)
  have "pool_ok p ?s bs" using ok fc by (simp add: pool_ok_def Let_def x' w)
  then show ?thesis using run own o(5) by blast
qed

lemma pool_free_block:
  assumes ok: "pool_ok p s fs" and i: "i < unat (total_blocks (mempools s p))" "block (mempools s p) i \<notin> set fs"
  shows "\<exists>s'. os_mempool_free p (block (mempools s p) i) s = (OS_OK, s') \<and> pool_ok p s' (block (mempools s p) i # fs)"
proof -
  let ?x = "mempools s p" let ?n = "unat (total_blocks ?x)" let ?b = "block ?x i"
  have ge: "p \<noteq> NULL" "unat (pool_start ?x) + ?n * stride_of ?x < 2 ^ 32" "0 < stride_of ?x" "0 < unat (pool_start ?x)"
    "unat (pool_end ?x) = unat (pool_start ?x) + ?n * stride_of ?x" using ok by (auto simp: pool_ok_def Let_def)
  note u = unat_block [OF ge(2) i(1)]
  have bz: "?b \<noteq> NULL" using u(1) ge(4) by auto
  have "i * stride_of ?x < ?n * stride_of ?x" using i(1) ge(3) by simp
  then have rng: "\<not> ?b < pool_start ?x" "\<not> pool_end ?x \<le> ?b" using u(1) ge(5) by (simp_all add: word_le_nat_alt word_less_nat_alt)
  have "unat ((?b - pool_start ?x) mod prv_calc_stride (mp_block_size ?x)) = 0" using u(2) by (simp add: unat_mod stride_of_def)
  then have md: "(?b - pool_start ?x) mod prv_calc_stride (mp_block_size ?x) = 0" by (simp add: unat_eq_0)
  let ?s = "upd_pool p (\<lambda>x. x\<lparr>free_count := free_count x + 1\<rparr>) (push_block p ?b s)"
  have run: "os_mempool_free p ?b s = (OS_OK, ?s)" using ge(1) bz rng md by (simp add: os_mempool_free_def Let_def)
  have x': "mempools ?s p = ?x\<lparr>free_list := ?b, free_count := free_count ?x + 1\<rparr>" "words ?s = (words s)(?b := free_list ?x)"
    by (simp_all add: upd_pool_def push_block_def Let_def)
  have "card (set fs) \<le> card (block ?x ` {0..<?n} - {?b})"
    using ok i(2) by (intro card_mono) (auto simp: pool_ok_def Let_def)
  also have "\<dots> < card (block ?x ` {0..<?n})" using i(1) by (intro psubset_card_mono) auto
  also have "\<dots> \<le> ?n" by (metis card_atLeastLessThan card_image_le diff_zero finite_atLeastLessThan)
  finally have "length fs < ?n" using ok by (simp add: pool_ok_def Let_def distinct_card)
  then have "unat (free_count ?x + 1) = Suc (length fs)"
    using ok unat_lt_u32 [of "total_blocks ?x"] unat_plus_one_u32 [of "free_count ?x"] by (simp add: pool_ok_def Let_def)
  then have "pool_ok p ?s (?b # fs)" using ok i bz by (simp add: pool_ok_def Let_def x' chain_upd)
  then show ?thesis using run by blast
qed


section \<open>Creation\<close>

lemma push_block_sel [simp]:
  "mempools (push_block p b s) p = (mempools s p)\<lparr>free_list := b\<rparr>"
  "words (push_block p b s) = (words s)(b := free_list (mempools s p))"
  by (simp_all add: push_block_def upd_pool_def Let_def)

lemma push_blocks:
  assumes "\<And>i. i < k \<Longrightarrow> f i \<noteq> NULL" "inj_on f {0..<k}" "free_list (mempools s p) = NULL"
    and s': "s' = fold (\<lambda>i. push_block p (f i)) [0..<k] s"
  shows "mempools s' p = (mempools s p)\<lparr>free_list := first_ptr NULL (rev (map f [0..<k]))\<rparr> \<and> chain (words s') (rev (map f [0..<k]))"
  using assms(1,2) unfolding s'
proof (induction k)
  case 0
  then show ?case using assms(3) by (cases "mempools s p") simp
next
  case (Suc k)
  let ?s = "fold (\<lambda>i. push_block p (f i)) [0..<k] s"
  have ih: "mempools ?s p = (mempools s p)\<lparr>free_list := first_ptr NULL (rev (map f [0..<k]))\<rparr>" "chain (words ?s) (rev (map f [0..<k]))"
    using Suc.IH [OF _ inj_on_subset [OF Suc.prems(2)]] Suc.prems(1) by auto
  have "f k \<notin> set (rev (map f [0..<k]))" using Suc.prems(2) by (force simp: inj_on_def)
  then show ?case using ih Suc.prems(1) by (simp add: chain_upd del: fun_upd_apply) simp
qed

lemma unat_align_up4: "unat (n :: u32) + 3 < 2 ^ 32 \<Longrightarrow> unat (POOL_ALIGN_SIZE n) = (unat n + 3) div 4 * 4"
proof -
  assume n: "unat n + 3 < 2 ^ 32"
  have "unat (n + 3) = unat n + 3" using n by (simp add: unat_word_ariths)
  moreover have "POOL_ALIGN_SIZE n = (n + 3) AND - 4" by (simp add: POOL_ALIGN_SIZE_def add_diff_eq [symmetric])
  ultimately show ?thesis by (simp add: unat_align4)
qed

lemma unat_stride:
  assumes "unat bs + 3 < 2 ^ 32" "bs \<noteq> 0"
  shows "unat (prv_calc_stride bs) = (unat bs + 3) div 4 * 4"
proof -
  have "0 < unat bs" using assms(2) by (simp add: unat_gt_0)
  then have "4 \<le> unat (POOL_ALIGN_SIZE bs)" using unat_align_up4 [OF assms(1)] by simp
  then have "\<not> POOL_ALIGN_SIZE bs < MIN_BLOCK_SIZE" by (simp add: MIN_BLOCK_SIZE_def word_less_nat_alt)
  then show ?thesis using unat_align_up4 [OF assms(1)] by (simp add: prv_calc_stride_def Let_def)
qed

text \<open>The geometry of a pool: the alignment gap, the stride, the number of blocks.\<close>

definition pool_gap :: "u32 \<Rightarrow> nat" where "pool_gap buf = (unat buf + 3) div 4 * 4 - unat buf"

definition pool_blocks :: "u32 \<Rightarrow> u32 \<Rightarrow> u32 \<Rightarrow> nat" where
  "pool_blocks buf bufsz bs = (unat bufsz - pool_gap buf) div ((unat bs + 3) div 4 * 4)"



lemma pool_blocks_fit:
  assumes "0 < pool_blocks buf bufsz bs" "bs \<noteq> 0"
  shows "pool_gap buf + pool_blocks buf bufsz bs * ((unat bs + 3) div 4 * 4) \<le> unat bufsz"
    "4 \<le> (unat bs + 3) div 4 * 4" "pool_gap buf + 4 \<le> unat bufsz"
proof -
  let ?st = "(unat bs + 3) div 4 * 4" let ?d = "unat bufsz - pool_gap buf"
  have "0 < unat bs" using assms(2) by (simp add: unat_gt_0)
  then show st: "4 \<le> ?st" by simp
  have "?st \<le> ?d" using assms(1) by (metis pool_blocks_def div_less gr_implies_not0 not_le)
  moreover have "pool_blocks buf bufsz bs * ?st \<le> ?d" unfolding pool_blocks_def by (rule div_times_less_eq_dividend)
  ultimately show "pool_gap buf + pool_blocks buf bufsz bs * ?st \<le> unat bufsz" "pool_gap buf + 4 \<le> unat bufsz"
    using st by linarith+
qed

text \<open>What \<open>os_mempool_create\<close> computes when the buffer holds at least one block.\<close>

lemma pool_create_geometry:
  assumes p: "buf \<noteq> NULL" "bs \<noteq> 0" "unat buf + unat bufsz < 2 ^ 32" "unat bs + 3 < 2 ^ 32"
    and n: "0 < pool_blocks buf bufsz bs"
  defines "al \<equiv> POOL_ALIGN_SIZE buf" and "us \<equiv> bufsz - (POOL_ALIGN_SIZE buf - buf)"
  shows "unat al = unat buf + pool_gap buf" "\<not> al < buf" "\<not> us < MIN_BLOCK_SIZE"
    "unat (us div prv_calc_stride bs) = pool_blocks buf bufsz bs" "us div prv_calc_stride bs \<noteq> 0"
    "unat (al + us div prv_calc_stride bs * prv_calc_stride bs) = unat al + pool_blocks buf bufsz bs * unat (prv_calc_stride bs)"
    "unat al + pool_blocks buf bufsz bs * unat (prv_calc_stride bs) \<le> unat buf + unat bufsz"
proof -
  let ?st = "prv_calc_stride bs" let ?n = "pool_blocks buf bufsz bs"
  note f = pool_blocks_fit [OF n p(2)] and st = unat_stride [OF p(4,2)]
  have b3: "unat buf + 3 < 2 ^ 32" using f(3) p(3) by linarith
  have ge: "unat buf \<le> (unat buf + 3) div 4 * 4" by presburger
  show al: "unat al = unat buf + pool_gap buf"
    unfolding al_def using unat_align_up4 [OF b3] ge by (simp add: pool_gap_def)
  then have le: "buf \<le> al" by (simp add: word_le_nat_alt)
  then show "\<not> al < buf" by simp
  have gap: "unat (al - buf) = pool_gap buf" using al le by (simp add: unat_sub)
  then have us: "unat us = unat bufsz - pool_gap buf"
    using f(3) unfolding us_def al_def [symmetric] by (simp add: unat_sub word_le_nat_alt)
  then show "\<not> us < MIN_BLOCK_SIZE" using f(3) by (simp add: MIN_BLOCK_SIZE_def word_less_nat_alt)
  show nb: "unat (us div ?st) = ?n" by (simp add: unat_div us st pool_blocks_def)
  then show "us div ?st \<noteq> 0" using n by auto
  show fit: "unat al + ?n * unat ?st \<le> unat buf + unat bufsz" using f(1) al by (simp add: st)
  have ns: "us div ?st * ?st = of_nat (?n * unat ?st)" by (simp add: nb [symmetric])
  have "?n * unat ?st < 2 ^ 32" using fit p(3) by linarith
  then have "unat (us div ?st * ?st) = ?n * unat ?st" unfolding ns by (simp only: unat_of_nat) simp
  moreover from this have "unat al + unat (us div ?st * ?st) < 2 ^ 32" using fit p(3) by linarith
  ultimately show "unat (al + us div ?st * ?st) = unat al + ?n * unat ?st" using unat_add_u32 by metis
qed

lemma pool_create_rep:
  assumes p: "p \<noteq> NULL" "buf \<noteq> NULL" "bs \<noteq> 0" "unat buf + unat bufsz < 2 ^ 32" "unat bs + 3 < 2 ^ 32"
    and n: "0 < pool_blocks buf bufsz bs"
  shows "\<exists>s'. os_mempool_create p buf bufsz bs s = (OS_OK, s')
     \<and> pool_ok p s' (rev (map (block (mempools s' p)) [0..<pool_blocks buf bufsz bs]))
     \<and> unat (total_blocks (mempools s' p)) = pool_blocks buf bufsz bs
     \<and> unat buf \<le> unat (pool_start (mempools s' p)) \<and> unat (pool_end (mempools s' p)) \<le> unat buf + unat bufsz
     \<and> stride_of (mempools s' p) = (unat bs + 3) div 4 * 4"
proof -
  let ?al = "POOL_ALIGN_SIZE buf" let ?n = "pool_blocks buf bufsz bs" let ?st = "prv_calc_stride bs"
  let ?nb = "(bufsz - (?al - buf)) div ?st"
  note g = pool_create_geometry [OF p(2-5) n] and st = unat_stride [OF p(5,3)] and f = pool_blocks_fit [OF n p(3)]
  have bz: "bufsz \<noteq> 0" using f(3) by auto
  let ?u = "\<lambda>x. x\<lparr>pool_start := ?al, pool_end := ?al + ?nb * ?st, mp_block_size := bs, total_blocks := ?nb,
      free_count := ?nb, min_free_count := ?nb, free_list := NULL\<rparr>"
  define s1 where "s1 = upd_pool p ?u s"
  define s' where "s' = fold (\<lambda>i. push_block p (?al + of_nat i * ?st)) [0..<unat ?nb] s1"
  have run: "os_mempool_create p buf bufsz bs s = (OS_OK, s')"
    unfolding os_mempool_create_def s'_def s1_def using p(1-3) bz g(2,3,5) by (simp only: Let_def if_False simp_thms)
  define y where "y = mempools s1 p"
  have y: "pool_start y = ?al" "pool_end y = ?al + ?nb * ?st" "mp_block_size y = bs" "total_blocks y = ?nb" "free_count y = ?nb" "free_list y = NULL"
    unfolding y_def s1_def upd_pool_def by simp_all
  have yb: "block y = (\<lambda>i. ?al + of_nat i * ?st)" "stride_of y = unat ?st" by (simp_all add: block_def stride_of_def fun_eq_iff y)
  have fits: "unat ?al + ?n * unat ?st < 2 ^ 32" using g(7) p(4) by linarith
  have pos: "0 < unat ?al" using p(2) g(1) by (simp add: unat_gt_0)
  have spos: "0 < unat ?st" using f(2) st by simp
  have yf: "unat (pool_start y) + ?n * stride_of y < 2 ^ 32" using fits unfolding y yb .
  have nz: "block y i \<noteq> NULL" if "i < ?n" for i using unat_block(1) [OF yf that] pos by (auto simp: y)
  have inj: "inj_on (block y) {0..<?n}" using block_inj_on [OF yf] spos unfolding yb(2) .
  let ?B = "rev (map (block y) [0..<?n])"
  have s': "s' = fold (\<lambda>i. push_block p (block y i)) [0..<?n] s1" unfolding s'_def yb(1) g(4) ..
  note build = push_blocks [where f = "block y" and k = ?n, OF nz inj y(6) [unfolded y_def] s']
  define x where "x = mempools s' p"
  have x: "x = y\<lparr>free_list := first_ptr NULL ?B\<rparr>" using build unfolding x_def y_def by blast
  have xs: "block x = block y" "stride_of x = unat ?st" "pool_start x = ?al" "pool_end x = ?al + ?nb * ?st"
    "total_blocks x = ?nb" "free_count x = ?nb" "free_list x = first_ptr NULL ?B" by (simp_all add: x y yb)
  have "pool_ok p s' ?B"
    unfolding pool_ok_def Let_def x_def [symmetric] xs g(4,6) using p(1) pos spos fits inj build
    by (simp add: distinct_map)
  then show ?thesis using run g(1,4,6,7) st xs unfolding x_def by (intro exI [of _ s']) simp
qed

lemma pool_free_reject:
  assumes ok: "pool_ok p s fs" and q: "q \<notin> block (mempools s p) ` {0..<unat (total_blocks (mempools s p))}"
  shows "os_mempool_free p q s = (OS_ERR_PARAM, s)"
proof (rule ccontr)
  let ?x = "mempools s p" let ?n = "unat (total_blocks ?x)" let ?o = "unat (q - pool_start ?x)"
  have ge: "0 < stride_of ?x" "unat (pool_end ?x) = unat (pool_start ?x) + ?n * stride_of ?x"
    using ok unfolding pool_ok_def Let_def by blast+
  assume "os_mempool_free p q s \<noteq> (OS_ERR_PARAM, s)"
  then have a: "pool_start ?x \<le> q" "q < pool_end ?x" "(q - pool_start ?x) mod prv_calc_stride (mp_block_size ?x) = 0"
    by (auto simp: os_mempool_free_def Let_def split: if_splits)
  have "?o mod stride_of ?x = 0" using arg_cong [OF a(3), of unat] by (simp add: unat_mod stride_of_def)
  then have o: "?o = ?o div stride_of ?x * stride_of ?x" by (metis add.right_neutral div_mult_mod_eq)
  have "?o < ?n * stride_of ?x" using a(1,2) ge(2) by (simp add: unat_sub word_le_nat_alt word_less_nat_alt)
  then have "?o div stride_of ?x < ?n" using ge(1) by (simp add: less_mult_imp_div_less)
  moreover have "q = block ?x (?o div stride_of ?x)"
  proof -
    have "of_nat ?o = (of_nat (?o div stride_of ?x) * prv_calc_stride (mp_block_size ?x) :: u32)"
      by (subst o) (simp add: stride_of_def)
    then show ?thesis by (simp add: block_def)
  qed
  ultimately show False using q by (metis imageI atLeastLessThan_iff le0)
qed

section \<open>A free list as an interface\<close>

text \<open>Consecutive allocations.\<close>

primrec alloc_many :: "('s \<Rightarrow> 'b \<times> 's) \<Rightarrow> nat \<Rightarrow> 's \<Rightarrow> 'b list \<times> 's" where
  "alloc_many alloc 0 s = ([], s)"
| "alloc_many alloc (Suc n) s = (let (b, s1) = alloc s; (bs, s2) = alloc_many alloc n s1 in (b # bs, s2))"

text \<open>
  What an allocator of equal blocks promises: its state stands for the list of its free blocks,
  allocation takes the first, or fails when there is none, and freeing puts a block back in front.
\<close>

locale free_list_pool =
  fixes ok :: "'s \<Rightarrow> 'b list \<Rightarrow> bool"
    and owns :: "'s \<Rightarrow> 'b \<Rightarrow> bool"
    and alloc :: "'s \<Rightarrow> 'b \<times> 's"
    and release :: "'b \<Rightarrow> 's \<Rightarrow> 'r \<times> 's"
    and null :: 'b
    and accepted :: 'r
  assumes alloc_empty: "ok s [] \<Longrightarrow> alloc s = (null, s)"
    and alloc_first: "ok s (b # bs) \<Longrightarrow> \<exists>s'. alloc s = (b, s') \<and> ok s' bs \<and> owns s' = owns s"
    and release_front: "ok s bs \<Longrightarrow> owns s b \<Longrightarrow> b \<notin> set bs \<Longrightarrow> \<exists>s'. release b s = (accepted, s') \<and> ok s' (b # bs)"
    and free_distinct: "ok s bs \<Longrightarrow> distinct bs \<and> list_all (owns s) bs"
begin

lemma alloc_prefix: "ok s bs \<Longrightarrow> n \<le> length bs \<Longrightarrow> \<exists>s'. alloc_many alloc n s = (take n bs, s') \<and> ok s' (drop n bs)"
proof (induction n arbitrary: s bs)
  case (Suc n)
  obtain b cs where bs: "bs = b # cs" using Suc.prems(2) by (cases bs) auto
  obtain s1 where a: "alloc s = (b, s1)" "ok s1 cs" using alloc_first Suc.prems(1) unfolding bs by blast
  obtain s2 where "alloc_many alloc n s1 = (take n cs, s2)" "ok s2 (drop n cs)"
    using Suc.IH [OF a(2)] Suc.prems(2) bs by auto
  then show ?case using a(1) bs by simp
qed simp

lemma alloc_then_release: "ok s (b # bs) \<Longrightarrow> \<exists>s' s''. alloc s = (b, s') \<and> release b s' = (accepted, s'') \<and> ok s'' (b # bs)"
proof -
  assume s: "ok s (b # bs)"
  obtain s' where a: "alloc s = (b, s')" "ok s' bs" "owns s' = owns s" using alloc_first [OF s] by blast
  have "owns s b" "b \<notin> set bs" using free_distinct [OF s] by simp_all
  then show ?thesis using release_front [OF a(2)] a by metis
qed

end


definition pool_owns :: "ptr \<Rightarrow> mp_state \<Rightarrow> ptr \<Rightarrow> bool" where
  "pool_owns p s b \<longleftrightarrow> b \<in> block (mempools s p) ` {0..<unat (total_blocks (mempools s p))}"

interpretation pool: free_list_pool "pool_ok p" "pool_owns p" "os_mempool_alloc p" "os_mempool_free p" NULL OS_OK for p
proof unfold_locales
  fix s b bs
  show "pool_ok p s [] \<Longrightarrow> os_mempool_alloc p s = (NULL, s)" by (rule pool_alloc_none)
  show "pool_ok p s bs \<Longrightarrow> pool_owns p s b \<Longrightarrow> b \<notin> set bs \<Longrightarrow> \<exists>s'. os_mempool_free p b s = (OS_OK, s') \<and> pool_ok p s' (b # bs)"
    using pool_free_block by (auto simp: pool_owns_def)
  show "pool_ok p s bs \<Longrightarrow> distinct bs \<and> list_all (pool_owns p s) bs"
    by (auto simp: pool_ok_def pool_owns_def Let_def list_all_iff)
  assume ok: "pool_ok p s (b # bs)"
  have "pool_owns p (snd (os_mempool_alloc p s)) = pool_owns p s"
    unfolding os_mempool_alloc_def pool_owns_def fun_eq_iff upd_pool_def Let_def by (simp add: block_def)
  then show "\<exists>s'. os_mempool_alloc p s = (b, s') \<and> pool_ok p s' bs \<and> pool_owns p s' = pool_owns p s"
    using pool_alloc_some [OF ok] by (metis snd_conv)
qed

text \<open>
  C32. A memory pool behaves as the list of its free blocks. \<open>os_mempool_alloc\<close> returns the first
  block of the list, a block of the pool, and leaves the rest, or returns the null pointer and changes
  nothing when the list is empty. \<open>os_mempool_free\<close> of an allocated block puts it in front of the
  list; an address that is not the start of a block of the pool is refused with \<open>OS_ERR_PARAM\<close> and
  nothing changes.
\<close>

theorem os_mempool_refines_free_list:
  assumes "pool_ok p s fs"
  shows "(case fs of
        [] \<Rightarrow> os_mempool_alloc p s = (NULL, s)
      | b # bs \<Rightarrow> b \<noteq> NULL \<and> os_mempool_owns p b s \<and> (\<exists>s'. os_mempool_alloc p s = (b, s') \<and> pool_ok p s' bs))
    \<and> (if pool_owns p s q
       then q \<notin> set fs \<longrightarrow> (\<exists>s'. os_mempool_free p q s = (OS_OK, s') \<and> pool_ok p s' (q # fs))
       else os_mempool_free p q s = (OS_ERR_PARAM, s))"
proof
  show "case fs of [] \<Rightarrow> os_mempool_alloc p s = (NULL, s)
      | b # bs \<Rightarrow> b \<noteq> NULL \<and> os_mempool_owns p b s \<and> (\<exists>s'. os_mempool_alloc p s = (b, s') \<and> pool_ok p s' bs)"
    using assms pool.alloc_empty pool_alloc_some by (fastforce split: list.splits)
  show "if pool_owns p s q then q \<notin> set fs \<longrightarrow> (\<exists>s'. os_mempool_free p q s = (OS_OK, s') \<and> pool_ok p s' (q # fs))
       else os_mempool_free p q s = (OS_ERR_PARAM, s)"
    using pool.release_front [OF assms] pool_free_reject [OF assms] by (simp add: pool_owns_def)
qed

text \<open>Two blocks of a pool are at least a stride apart.\<close>

lemma blocks_apart:
  assumes "unat (pool_start x) + n * stride_of x < 2 ^ 32" "i < n" "j < n" "block x i \<noteq> block x j"
  shows "unat (block x i) + stride_of x \<le> unat (block x j) \<or> unat (block x j) + stride_of x \<le> unat (block x i)"
proof -
  have *: "a * stride_of x + stride_of x \<le> b * stride_of x" if "a < b" for a b
    using mult_le_mono1 [of "Suc a" b "stride_of x"] that by simp
  have "i < j \<or> j < i" using assms(4) by (cases i j rule: linorder_cases) auto
  then show ?thesis using * unat_block(1) [OF assms(1,2)] unat_block(1) [OF assms(1,3)] by fastforce
qed

lemma block_inside:
  assumes ok: "pool_ok p s fs" and b: "pool_owns p s b"
  shows "unat (pool_start (mempools s p)) \<le> unat b" "unat b + stride_of (mempools s p) \<le> unat (pool_end (mempools s p))"
proof -
  let ?x = "mempools s p" let ?n = "unat (total_blocks ?x)"
  have fit: "unat (pool_start ?x) + ?n * stride_of ?x < 2 ^ 32" and e: "unat (pool_end ?x) = unat (pool_start ?x) + ?n * stride_of ?x"
    using ok unfolding pool_ok_def Let_def by blast+
  obtain i where i: "i < ?n" "b = block ?x i" using b by (auto simp: pool_owns_def)
  show "unat (pool_start ?x) \<le> unat b" using unat_block(1) [OF fit i(1)] i(2) by simp
  show "unat b + stride_of ?x \<le> unat (pool_end ?x)"
    using unat_block(1) [OF fit i(1)] i(2) e mult_le_mono1 [of "Suc i" ?n "stride_of ?x"] i(1) by simp
qed

text \<open>
  A created pool can be used up exactly: \<open>os_mempool_create\<close> on a buffer that holds
  N \<ge> 1 blocks (after aligning its start and rounding the block size up to words) succeeds, the
  next N calls of \<open>os_mempool_alloc\<close> return N different blocks, each with room for
  \<open>block_size\<close> bytes inside the buffer and none overlapping another, and the call after them
  returns the null pointer.
\<close>

theorem os_mempool_create_correct:
  assumes p: "p \<noteq> NULL" "buf \<noteq> NULL" "bs \<noteq> 0" "unat buf + unat bufsz < 2 ^ 32" "unat bs + 3 < 2 ^ 32"
    and n: "0 < pool_blocks buf bufsz bs"
  shows "\<exists>s1 s2 bl. os_mempool_create p buf bufsz bs s = (OS_OK, s1)
     \<and> alloc_many (os_mempool_alloc p) (pool_blocks buf bufsz bs) s1 = (bl, s2) \<and> os_mempool_alloc p s2 = (NULL, s2)
     \<and> distinct bl \<and> length bl = pool_blocks buf bufsz bs
     \<and> (\<forall>b\<in>set bl. unat buf \<le> unat b \<and> unat b + unat bs \<le> unat buf + unat bufsz)
     \<and> (\<forall>b\<in>set bl. \<forall>c\<in>set bl. b \<noteq> c \<longrightarrow> unat b + unat bs \<le> unat c \<or> unat c + unat bs \<le> unat b)"
proof -
  let ?n = "pool_blocks buf bufsz bs"
  obtain s1 where c: "os_mempool_create p buf bufsz bs s = (OS_OK, s1)"
    "pool_ok p s1 (rev (map (block (mempools s1 p)) [0..<?n]))" "unat (total_blocks (mempools s1 p)) = ?n"
    "unat buf \<le> unat (pool_start (mempools s1 p))" "unat (pool_end (mempools s1 p)) \<le> unat buf + unat bufsz"
    "stride_of (mempools s1 p) = (unat bs + 3) div 4 * 4"
    using pool_create_rep [OF p n, of s] by (elim exE conjE) (rule that)
  let ?x = "mempools s1 p" let ?bl = "rev (map (block ?x) [0..<?n])"
  obtain s2 where a: "alloc_many (os_mempool_alloc p) ?n s1 = (?bl, s2)" "pool_ok p s2 []"
    using pool.alloc_prefix [OF c(2), of ?n] by auto
  note d = pool.free_distinct [OF c(2)]
  have st: "unat bs \<le> stride_of ?x" unfolding c(6) by presburger
  have ins: "unat buf \<le> unat b \<and> unat b + unat bs \<le> unat buf + unat bufsz" if "b \<in> set ?bl" for b
    using block_inside [OF c(2), of b] d that c(4,5) st unfolding list_all_iff by (meson add_le_mono le_trans order_refl)
  have fit: "unat (pool_start ?x) + ?n * stride_of ?x < 2 ^ 32" using c(2) unfolding pool_ok_def Let_def c(3) by blast
  have ap: "unat b + unat bs \<le> unat e \<or> unat e + unat bs \<le> unat b" if be: "b \<in> set ?bl" "e \<in> set ?bl" "b \<noteq> e" for b e
  proof -
    obtain i j where "i < ?n" "j < ?n" "b = block ?x i" "e = block ?x j" using be(1,2) by auto
    then show ?thesis using blocks_apart [OF fit] be(3) st by (meson add_le_mono le_trans order_refl)
  qed
  show ?thesis
    using c(1) a(1) pool.alloc_empty [OF a(2)] d ins ap by (intro exI [of _ s1] exI [of _ s2] exI [of _ ?bl]) simp
qed

definition blank_pools :: mp_state where
  "blank_pools = \<lparr>mempools = (\<lambda>_. \<lparr>pool_start = 0, pool_end = 0, mp_block_size = 0, total_blocks = 0,
     free_count = 0, min_free_count = 0, free_list = 0\<rparr>), words = (\<lambda>_. 0)\<rparr>"

definition demo_pools :: mp_state where
  "demo_pools = snd (os_mempool_create 0x100 0x2001 30 6 blank_pools)"

theorem os_mempool_create_correct_witness:
  "\<exists>s1 s2 bl. os_mempool_create 0x100 0x2001 30 6 blank_pools = (OS_OK, s1)
     \<and> alloc_many (os_mempool_alloc 0x100) 3 s1 = (bl, s2) \<and> length bl = 3 \<and> distinct bl"
proof -
  have "pool_blocks 0x2001 30 6 = 3" by (simp add: pool_blocks_def pool_gap_def)
  then show ?thesis using os_mempool_create_correct [of "0x100" "0x2001" 6 30 blank_pools] by auto
qed

theorem os_mempool_refines_free_list_witness:
  "pool_ok 0x100 demo_pools [0x2014, 0x200C, 0x2004]
   \<and> (\<exists>s'. os_mempool_alloc 0x100 demo_pools = (0x2014, s') \<and> pool_ok 0x100 s' [0x200C, 0x2004])
   \<and> os_mempool_free 0x100 0x2006 demo_pools = (OS_ERR_PARAM, demo_pools)"
proof -
  have sel: "mempools demo_pools 0x100 = \<lparr>pool_start = 0x2004, pool_end = 0x201C, mp_block_size = 6, total_blocks = 3,
     free_count = 3, min_free_count = 3, free_list = 0x2014\<rparr>"
    "words demo_pools 0x2014 = 0x200C" "words demo_pools 0x200C = 0x2004" "words demo_pools 0x2004 = 0"
    by code_simp+
  have st: "prv_calc_stride 6 = 8" by code_simp
  have "[0x2014, 0x200C, 0x2004] = map (block (mempools demo_pools 0x100)) [2, 1, 0]" by (simp add: block_def sel st)
  then have "set [0x2014, 0x200C, 0x2004] \<subseteq> block (mempools demo_pools 0x100) ` {0..<3}" by (simp only: set_map image_mono) auto
  then have ok: "pool_ok 0x100 demo_pools [0x2014, 0x200C, 0x2004]"
    by (simp add: pool_ok_def Let_def sel stride_of_def st)
  have own: "\<not> pool_owns 0x100 demo_pools 0x2006"
  proof -
    have u: "{0..<3} = {0, 1, 2 :: nat}" by auto
    show ?thesis by (simp add: pool_owns_def sel block_def st u)
  qed
  show ?thesis
    using ok os_mempool_refines_free_list [OF ok, of "0x2006"] own by simp
qed

end
