(* ===== verification/Tickless.thy ===== *)
theory Tickless
  imports Port
begin

unbundle bit_operations_syntax

text \<open>
  Tickless idle, \<open>kernel/tickless.c\<close>. The repository's configuration leaves it out
  (\<open>OS_CONFIG_USE_TICKLESS_IDLE\<close> is 0); the code is modelled as it stands. The sleep itself is
  the parameter \<open>wfi\<close>: what the core and its timer do to the SysTick registers between the
  instruction and the wake-up.
\<close>

record tickless =
  tickless_active :: bool
  tickless_reload :: u32
  tickless_saved_load :: u32

definition SYSTICK_CTRL_COUNTFLAG :: u32 where "SYSTICK_CTRL_COUNTFLAG = push_bit 16 1"
definition OS_TICKLESS_MIN_IDLE_TICKS :: u32 where "OS_TICKLESS_MIN_IDLE_TICKS = 5"

definition prv_start_one_shot :: "u32 \<Rightarrow> periph \<Rightarrow> periph" where
  "prv_start_one_shot cycles r =
     (let r = r\<lparr>syst_ctrl := 0\<rparr>; r = r\<lparr>syst_load := cycles - 1\<rparr>; r = r\<lparr>syst_val := 0\<rparr>
      in r\<lparr>syst_ctrl := SYSTICK_CTRL_ENABLE OR SYSTICK_CTRL_CLKSOURCE\<rparr>)"

definition prv_stop_one_shot :: "periph \<Rightarrow> u32 \<times> periph" where
  "prv_stop_one_shot r = (syst_val r, r\<lparr>syst_ctrl := 0\<rparr>)"

definition os_tickless_init :: "tickless \<Rightarrow> tickless" where
  "os_tickless_init k =
     (let reload = 72000000 div OS_CONFIG_TICK_RATE_HZ
      in k\<lparr>tickless_active := False,
           tickless_reload := (if reload > SYSTICK_LOAD_MAX then SYSTICK_LOAD_MAX else reload)\<rparr>)"

definition sleep_cycles :: "u32 \<Rightarrow> u32 \<Rightarrow> u32 \<Rightarrow> u32" where
  "sleep_cycles expected remaining reload =
     (let total = (if expected > 1 then remaining + (expected - 1) * reload else remaining)
      in if total > SYSTICK_LOAD_MAX then SYSTICK_LOAD_MAX else total)"

definition os_tickless_idle_enter ::
    "(periph \<Rightarrow> periph) \<Rightarrow> u32 \<Rightarrow> tickless \<times> periph \<Rightarrow> tickless \<times> periph" where
  "os_tickless_idle_enter wfi expected st =
     (let (k, r) = st in
      if expected < OS_TICKLESS_MIN_IDLE_TICKS then (k, r)
      else let k = k\<lparr>tickless_saved_load := syst_load r\<rparr>;
               remaining = syst_val r;
               r = r\<lparr>syst_ctrl := 0\<rparr>;
               total = sleep_cycles expected remaining (tickless_reload k);
               k = k\<lparr>tickless_active := True\<rparr>
           in (k, wfi (prv_start_one_shot total r)))"

definition os_tickless_idle_exit :: "tickless \<times> periph \<Rightarrow> u32 \<times> tickless \<times> periph" where
  "os_tickless_idle_exit st =
     (let (k, r) = st in
      if \<not> tickless_active k then (0, k, r)
      else let (remaining, r) = prv_stop_one_shot r;
               total = (if syst_ctrl r AND SYSTICK_CTRL_COUNTFLAG \<noteq> 0 then syst_load r + 1 else syst_load r + 1);
               elapsed_cycles = total - remaining;
               elapsed_ticks = elapsed_cycles div tickless_reload k;
               elapsed_ticks = (if elapsed_ticks = 0 then 1 else elapsed_ticks);
               r = r\<lparr>syst_load := tickless_saved_load k, syst_val := 0,
                     syst_ctrl := SYSTICK_CTRL_ENABLE OR SYSTICK_CTRL_TICKINT OR SYSTICK_CTRL_CLKSOURCE\<rparr>
           in (elapsed_ticks, k\<lparr>tickless_active := False\<rparr>, r))"

definition os_tickless_is_active :: "tickless \<Rightarrow> bool" where
  "os_tickless_is_active k = tickless_active k"

section \<open>The ticks a sleep accounts for\<close>

text \<open>
  A sleep that leaves the counter at \<open>v\<close> accounts for the whole ticks among the cycles it counted, at
  least one, and restores the periodic timer. After the full time, in which \<open>n\<close> tick boundaries passed,
  \<open>n - 1\<close> ticks are reported: the rest of the tick in which the sleep began is lost.
\<close>

theorem tickless_sleep:
  assumes k: "tickless_reload k = 72000" and n: "5 \<le> n" "unat n * 72000 < 2 ^ 24" and r: "syst_val r < 72000"
    and v: "unat v \<le> unat (syst_val r) + (unat n - 1) * 72000"
  shows "\<exists>t k' r'. os_tickless_idle_exit (os_tickless_idle_enter (\<lambda>r. r\<lparr>syst_val := v\<rparr>) n (k, r)) = (t, k', r')
     \<and> unat t = max 1 ((unat (syst_val r) + (unat n - 1) * 72000 - unat v) div 72000)
     \<and> (v = 0 \<longrightarrow> unat t = unat n - 1) \<and> \<not> tickless_active k' \<and> syst_load r' = syst_load r
     \<and> syst_ctrl r' = SYSTICK_CTRL_ENABLE OR SYSTICK_CTRL_TICKINT OR SYSTICK_CTRL_CLKSOURCE"
proof -
  define w where "w = n - 1"
  let ?t = "syst_val r + w * 72000"
  have "n \<noteq> 0" using n(1) by auto
  then have u: "unat n \<le> 233" "5 \<le> unat n" "unat (syst_val r) < 72000" "unat w = unat n - 1"
    using n r by (simp_all add: w_def word_le_nat_alt word_less_nat_alt unat_minus_one_u32)
  have m: "unat (w * 72000) = unat w * 72000" using u by (simp add: unat_word_ariths)
  have t: "unat ?t = unat (syst_val r) + (unat n - 1) * 72000" using u m by (simp add: unat_word_ariths)
  then have le: "?t \<le> SYSTICK_LOAD_MAX" "v \<le> ?t" using u v by (simp_all add: word_le_nat_alt SYSTICK_LOAD_MAX_def)
  have "1 < n" using n(1) by (simp add: word_less_nat_alt word_le_nat_alt)
  then have s: "sleep_cycles n (syst_val r) 72000 = ?t"
    using le(1) unfolding sleep_cycles_def w_def [symmetric] by (auto simp: Let_def)
  have d: "unat ((?t - v) div 72000) = (unat ?t - unat v) div 72000" using le(2) by (simp add: unat_div unat_sub)
  have z: "unat ?t div 72000 = unat n - 1" using u(3) by (simp add: t)
  show ?thesis
    using n(1) k s d z u
    by (auto simp: os_tickless_idle_enter_def os_tickless_idle_exit_def prv_start_one_shot_def prv_stop_one_shot_def OS_TICKLESS_MIN_IDLE_TICKS_def
        Let_def not_less t unat_eq_0 [symmetric] max_def)
qed

theorem tickless_sleep_witness:
  "\<exists>t k' r'. os_tickless_idle_exit (os_tickless_idle_enter (\<lambda>r. r\<lparr>syst_val := 0\<rparr>) 10
     (\<lparr>tickless_active = False, tickless_reload = 72000, tickless_saved_load = 0\<rparr>,
      \<lparr>scb_aircr = 0, scb_shpr = (\<lambda>_. 0), syst_ctrl = 7, syst_load = 71999, syst_val = 40000,
       nvic_iser = (\<lambda>_. 0), nvic_icer = (\<lambda>_. 0), nvic_ip = (\<lambda>_. 0)\<rparr>)) = (t, k', r') \<and> unat t = 9 \<and> syst_load r' = 71999"
  using tickless_sleep [of "\<lparr>tickless_active = False, tickless_reload = 72000, tickless_saved_load = 0\<rparr>" 10
      "\<lparr>scb_aircr = 0, scb_shpr = (\<lambda>_. 0), syst_ctrl = 7, syst_load = 71999, syst_val = 40000,
       nvic_iser = (\<lambda>_. 0), nvic_icer = (\<lambda>_. 0), nvic_ip = (\<lambda>_. 0)\<rparr>" 0] by auto

end
