(* ===== verification/Tickless_Idle.thy ===== *)
theory Tickless_Idle
  imports Kernel Tickless
begin

unbundle bit_operations_syntax

text \<open>
  The idle task with \<open>OS_CONFIG_USE_TICKLESS_IDLE\<close>: \<open>prv_get_next_wake_ticks\<close> and the tickless
  branch of \<open>idle_task_func\<close> in \<open>kernel/task.c\<close>, and \<open>os_kernel_init\<close> with the call that
  this build adds. The static data of \<open>tickless.c\<close> stand beside the kernel state; the SysTick
  registers are those of \<open>periph\<close>.
\<close>

section \<open>Operations\<close>

partial_function (option) next_wake_walk :: "os \<Rightarrow> ptr \<Rightarrow> u32 \<Rightarrow> u32 option" where
  "next_wake_walk s tcb min_ticks =
     (if tcb = NULL then Some min_ticks
      else do {
        c \<leftarrow> get_tcb tcb s;
        next_wake_walk s (tcb_next c)
          (if delay_ticks c > 0 \<and> delay_ticks c < min_ticks then delay_ticks c else min_ticks)
      })"

definition prv_get_next_wake_ticks :: "os \<Rightarrow> u32 option" where
  "prv_get_next_wake_ticks s = next_wake_walk s (blocked_list s) OS_WAIT_FOREVER"

definition os_kernel_init_tickless :: "env \<Rightarrow> tickless \<times> os \<Rightarrow> (tickless \<times> os) option" where
  "os_kernel_init_tickless e st =
     (let (k, s) = st in
      if kernel_initialized s then Some (k, s)
      else do {
        r \<leftarrow> os_port_nvic_set_priority_init (periph s);
        let s = s\<lparr>periph := r\<rparr>;
        let s = s\<lparr>heap := os_heap_init (uc_heap e) (heap s)\<rparr>;
        let s = os_task_init_ready_list s;
        let s = os_sched_init s;
        (_, s) \<leftarrow> os_timer_init e s;
        let k = os_tickless_init k;
        let s = os_trace_init s;
        let s = os_wdt_init s;
        Some (k, s\<lparr>kernel_initialized := True\<rparr>)
      })"

text \<open>The sleep, inside its critical section; the result begins with the ticks that elapsed.\<close>

definition idle_sleep :: "(periph \<Rightarrow> periph) \<Rightarrow> u32 \<Rightarrow> tickless \<times> os \<Rightarrow> u32 \<times> tickless \<times> os" where
  "idle_sleep wfi idle_ticks st =
     (let (k, s) = st;
          s = os_sched_enter_critical s;
          (elapsed, k, r) = os_tickless_idle_exit (os_tickless_idle_enter wfi idle_ticks (k, periph s));
          s = os_sched_exit_critical (s\<lparr>periph := r\<rparr>)
      in (elapsed, k, s))"

primrec kernel_ticks :: "env \<Rightarrow> nat \<Rightarrow> os \<Rightarrow> os option" where
  "kernel_ticks e 0 s = Some s"
| "kernel_ticks e (Suc n) s = do { s \<leftarrow> os_kernel_tick_increment e s; kernel_ticks e n s }"

definition idle_task_turn_tickless :: "(periph \<Rightarrow> periph) \<Rightarrow> env \<Rightarrow> tickless \<times> os \<Rightarrow> (tickless \<times> os) option" where
  "idle_task_turn_tickless wfi e st =
     (let (k, s) = st in
      do {
        idle_ticks \<leftarrow> prv_get_next_wake_ticks s;
        (k, s) \<leftarrow> (if idle_ticks \<ge> OS_TICKLESS_MIN_IDLE_TICKS
                   then let (elapsed, k, s) = idle_sleep wfi idle_ticks (k, s)
                        in do { s \<leftarrow> kernel_ticks e (unat elapsed) s; Some (k, s) }
                   else Some (k, s));
        s \<leftarrow> idle_task_turn e s;
        Some (k, s)
      })"

section \<open>The next wake-up\<close>

text \<open>The wake-up times of the delayed tasks, as far as they are positive.\<close>

definition wake_times :: "(ptr \<rightharpoonup> os_tcb) \<Rightarrow> ptr list \<Rightarrow> u32 set" where
  "wake_times V ts = {delay_ticks d | t d. t \<in> set ts \<and> V t = Some d \<and> delay_ticks d > 0}"

lemma wake_times_Cons:
  "V t = Some d \<Longrightarrow> wake_times V (t # ts) = (if delay_ticks d > 0 then {delay_ticks d} else {}) \<union> wake_times V ts"
  by (auto simp: wake_times_def)

lemma wake_times_Nil [simp]: "wake_times V [] = {}"
  by (simp add: wake_times_def)

lemma finite_wake_times [simp]: "finite (wake_times V ts)"
  by (rule finite_subset [of _ "(\<lambda>t. delay_ticks (the (V t))) ` set ts"]) (force simp: wake_times_def)+

lemma next_wake_walk_Min:
  assumes "dseg (tcbs s) p ts NULL" "view (tcbs s) = V"
  shows "next_wake_walk s (first_ptr NULL ts) m = Some (Min (insert m (wake_times V ts)))"
  using assms(1)
proof (induction ts arbitrary: p m)
  case Nil
  then show ?case by (subst next_wake_walk.simps) simp
next
  case (Cons t ts)
  from Cons.prems obtain c where c: "t \<noteq> NULL" "tcbs s t = Some c" "tcb_next c = first_ptr NULL ts" "dseg (tcbs s) t ts NULL"
    by (auto simp: link_Some)
  have V: "V t = Some (erase c)" using assms(2) c(2) by (auto simp: view_def)
  let ?m = "if delay_ticks c > 0 \<and> delay_ticks c < m then delay_ticks c else m"
  have "next_wake_walk s t m = next_wake_walk s (first_ptr NULL ts) ?m"
    by (subst next_wake_walk.simps) (simp add: c get_tcb_def)
  also have "\<dots> = Some (Min (insert ?m (wake_times V ts)))" using Cons.IH [OF c(4)] .
  also have "Min (insert ?m (wake_times V ts)) = Min (insert m (wake_times V (t # ts)))"
    by (cases "wake_times V ts = {}") (auto simp: wake_times_Cons [of V t "erase c"] V erase_def min_def)
  finally show ?case by simp
qed

lemma next_wake_Min:
  assumes "rep s A V" shows "prv_get_next_wake_ticks s = Some (Min (insert OS_WAIT_FOREVER (wake_times V (A Blocked))))"
  using next_wake_walk_Min [OF rep_list(1) [OF assms] rep_view [OF assms], of Blocked] rep_list(3) [OF assms, of Blocked]
  by (simp add: prv_get_next_wake_ticks_def)

section \<open>The length of a sleep\<close>

text \<open>
  What the SysTick hardware promises of a sleep: the reload register keeps the lower 24 bits, and the
  counter never exceeds it.
\<close>

definition systick_hw :: "(periph \<Rightarrow> periph) \<Rightarrow> bool" where
  "systick_hw wfi \<longleftrightarrow> (\<forall>r. syst_load (wfi r) = take_bit 24 (syst_load r) \<and> syst_val (wfi r) \<le> syst_load (wfi r))"

lemma unat_take_bit_24: "unat (take_bit 24 (w :: u32)) < 2 ^ 24"
  using take_bit_nat_less_exp [of 24 "unat w"] by (simp add: unsigned_take_bit_eq)

text \<open>However the product wraps, the programmed period is shorter than \<open>n\<close> ticks.\<close>

lemma one_shot_bound:
  assumes v: "v < 72000" and n: "5 \<le> n"
  shows "unat (take_bit 24 (sleep_cycles n v 72000 - 1)) + 1 < unat n * 72000"
proof (cases "unat n < 234")
  case True
  have u: "unat v < 72000" "5 \<le> unat n" using assms by (simp_all add: word_less_nat_alt word_le_nat_alt)
  define w where "w = n - 1"
  have w: "unat w = unat n - 1" unfolding w_def using u(2) by (intro unat_minus_one_u32) auto
  have m: "unat (w * 72000) = (unat n - 1) * 72000" using True w by (simp add: unat_word_ariths)
  have t: "unat (v + w * 72000) = unat v + (unat n - 1) * 72000" using True u(1) m by (simp add: unat_word_ariths)
  have "unat v + (unat n - 1) * 72000 \<le> 71999 + 232 * 72000" using True u(1) by (intro add_mono mult_le_mono1) simp_all
  then have s: "sleep_cycles n v 72000 = v + w * 72000"
    using t u(2) unfolding sleep_cycles_def w_def [symmetric] by (simp add: SYSTICK_LOAD_MAX_def word_less_nat_alt)
  have "unat (take_bit 24 (sleep_cycles n v 72000 - 1)) \<le> unat (sleep_cycles n v 72000 - 1)" by (simp add: unsigned_take_bit_eq)
  also have "\<dots> = unat v + (unat n - 1) * 72000 - 1"
    using t u(2) unfolding s by (subst unat_minus_one_u32) (auto simp: unat_eq_0 [symmetric])
  finally show ?thesis using u by (cases "unat n") auto
next
  case False
  then show ?thesis using unat_take_bit_24 [of "sleep_cycles n v 72000 - 1"] by simp
qed

lemma sleep_elapsed:
  assumes hw: "systick_hw wfi" and k: "tickless_reload k = 72000" and r: "syst_val r < 72000" and n: "5 \<le> n"
  shows "\<exists>t k' r'. os_tickless_idle_exit (os_tickless_idle_enter wfi n (k, r)) = (t, k', r') \<and> 0 < t \<and> t < n
     \<and> \<not> tickless_active k' \<and> tickless_reload k' = 72000 \<and> syst_load r' = syst_load r
     \<and> syst_ctrl r' = SYSTICK_CTRL_ENABLE OR SYSTICK_CTRL_TICKINT OR SYSTICK_CTRL_CLKSOURCE"
proof -
  let ?c = "sleep_cycles n (syst_val r) 72000"
  let ?r = "wfi (prv_start_one_shot ?c (r\<lparr>syst_ctrl := 0\<rparr>))"
  have l: "syst_load ?r = take_bit 24 (?c - 1)" using hw by (simp add: systick_hw_def prv_start_one_shot_def)
  have le: "syst_val ?r \<le> syst_load ?r" using hw unfolding systick_hw_def by blast
  let ?e = "(syst_load ?r + 1 - syst_val ?r) div 72000"
  have "unat (syst_load ?r) < 2 ^ 24" unfolding l by (rule unat_take_bit_24)
  then have p: "unat (syst_load ?r + 1) = unat (syst_load ?r) + 1" by (intro unat_plus_one_u32) simp
  have "unat (syst_load ?r + 1 - syst_val ?r) \<le> unat (syst_load ?r) + 1"
    using le p by (simp add: unat_sub word_le_nat_alt)
  also have "\<dots> < unat n * 72000" using one_shot_bound [OF r n] l by simp
  finally have "unat ?e < unat n" by (simp add: unat_div less_mult_imp_div_less)
  then have e: "?e < n" by (simp add: word_less_nat_alt)
  have n1: "1 < n" "\<not> n < 5" using n by (simp_all add: word_less_nat_alt word_le_nat_alt)
  show ?thesis using e n1 k
    by (auto simp: os_tickless_idle_enter_def os_tickless_idle_exit_def prv_stop_one_shot_def OS_TICKLESS_MIN_IDLE_TICKS_def Let_def
        word_gt_0)
qed

section \<open>Properties\<close>

text \<open>
  C23. Tickless idle oversleeps no task. When every delayed task has five or more ticks to go, the idle
  task sleeps, whatever wakes it and however the 32-bit cycle count wraps, and then accounts for a
  positive number of ticks that is smaller than the remaining delay of every delayed task; lists, tasks
  and interrupt mask are as before the sleep and the periodic timer runs again with the reload value it
  had. When some task is due sooner, it does not sleep.
\<close>

theorem tickless_idle_no_oversleep:
  assumes r: "rep s A V" and hw: "systick_hw wfi" and k: "tickless_reload k = 72000" and v: "syst_val (periph s) < 72000"
    and z: "critical_nesting s = 0"
  shows "if \<forall>n \<in> wake_times V (A Blocked). 5 \<le> n
     then \<exists>t k' s'. idle_task_turn_tickless wfi e (k, s)
            = do { s1 \<leftarrow> kernel_ticks e (unat t) s'; s2 \<leftarrow> idle_task_turn e s1; Some (k', s2) }
          \<and> 0 < t \<and> (\<forall>n \<in> wake_times V (A Blocked). t < n) \<and> rep s' A V \<and> primask s' = primask s \<and> critical_nesting s' = 0
          \<and> \<not> tickless_active k' \<and> tickless_reload k' = 72000 \<and> syst_load (periph s') = syst_load (periph s)
     else idle_task_turn_tickless wfi e (k, s) = do { s1 \<leftarrow> idle_task_turn e s; Some (k, s1) }"
proof -
  let ?n = "Min (insert OS_WAIT_FOREVER (wake_times V (A Blocked)))"
  have nx: "prv_get_next_wake_ticks s = Some ?n" by (rule next_wake_Min [OF r])
  show ?thesis
  proof (cases "\<forall>n \<in> wake_times V (A Blocked). 5 \<le> n")
    case True
    then have n: "5 \<le> ?n" by simp
    obtain t k' r' where x: "os_tickless_idle_exit (os_tickless_idle_enter wfi ?n (k, periph s)) = (t, k', r')" "0 < t" "t < ?n"
      "\<not> tickless_active k'" "tickless_reload k' = 72000" "syst_load r' = syst_load (periph s)"
      using sleep_elapsed [OF hw k v n] by blast
    let ?s = "os_sched_exit_critical ((os_sched_enter_critical s)\<lparr>periph := r'\<rparr>)"
    have "idle_sleep wfi ?n (k, s) = (t, k', ?s)" using x(1) by (simp add: idle_sleep_def enter_critical_nf)
    then have "idle_task_turn_tickless wfi e (k, s) = do { s1 \<leftarrow> kernel_ticks e (unat t) ?s; s2 \<leftarrow> idle_task_turn e s1; Some (k', s2) }"
      using nx n by (simp add: idle_task_turn_tickless_def OS_TICKLESS_MIN_IDLE_TICKS_def)
    moreover have "rep ?s A V" "primask ?s = primask s" "critical_nesting ?s = 0" "syst_load (periph ?s) = syst_load (periph s)"
      using r z x(6) by (simp_all add: crit_simps)
    moreover have "\<forall>n \<in> wake_times V (A Blocked). t < n" using x(3) by simp
    ultimately show ?thesis unfolding if_P [OF True] using x(2,4,5) by (intro exI [of _ t] exI [of _ k'] exI [of _ ?s]) simp
  next
    case False
    then have "?n < 5" by (auto simp: not_le Min_less_iff)
    then obtain n where n: "prv_get_next_wake_ticks s = Some n" "\<not> 5 \<le> n" by (metis nx not_le)
    then show ?thesis unfolding if_not_P [OF False] by (simp add: idle_task_turn_tickless_def OS_TICKLESS_MIN_IDLE_TICKS_def)
  qed
qed

definition demo_idle :: os where
  "demo_idle = demo\<lparr>tcbs := (tcbs demo)(tDelayed \<mapsto> demo_tcb 0x20001400 1 OS_TASK_BLOCKED 100),
     periph := (periph demo)\<lparr>syst_load := 71999, syst_val := 40000\<rparr>\<rparr>"

lemma demo_idle_rep: "rep demo_idle demo_lists (demo_tcbs(tDelayed \<mapsto> demo_tcb 0x20001400 1 OS_TASK_BLOCKED 100))"
proof -
  let ?f = "\<lambda>c. c\<lparr>delay_ticks := 100\<rparr>"
  have b: "demo_tcbs tDelayed = Some (demo_tcb 0x20001400 1 OS_TASK_BLOCKED 3)" by (simp add: demo_tcbs_def)
  have t: "upd_tcb tDelayed ?f demo = Some (demo\<lparr>tcbs := (tcbs demo)(tDelayed \<mapsto> demo_tcb 0x20001400 1 OS_TASK_BLOCKED 100)\<rparr>)"
    by (simp add: upd_tcb_def get_tcb_def demo_def demo_tcbs_def demo_tcb_def)
  show ?thesis using upd_tcb_rep [OF demo_rep _ b, of ?f] t
    by (auto simp: data_upd_def demo_idle_def demo_tcb_def erase_def)
qed

theorem tickless_idle_no_oversleep_witness:
  "\<exists>(t :: u32) k' s'. idle_task_turn_tickless (\<lambda>r. r\<lparr>syst_load := take_bit 24 (syst_load r), syst_val := 0\<rparr>) demo_env
       (\<lparr>tickless_active = False, tickless_reload = 72000, tickless_saved_load = 0\<rparr>, demo_idle)
       = do { s1 \<leftarrow> kernel_ticks demo_env (unat t) s'; s2 \<leftarrow> idle_task_turn demo_env s1; Some (k', s2) }
     \<and> 0 < t \<and> t < 100 \<and> syst_load (periph s') = 71999"
proof -
  let ?k = "\<lparr>tickless_active = False, tickless_reload = 72000, tickless_saved_load = 0\<rparr>"
  have w: "wake_times (demo_tcbs(tDelayed \<mapsto> demo_tcb 0x20001400 1 OS_TASK_BLOCKED 100)) (demo_lists Blocked) = {100}"
    by (auto simp: wake_times_def demo_lists_def demo_tcb_def)
  have hw: "systick_hw (\<lambda>r. r\<lparr>syst_load := take_bit 24 (syst_load r), syst_val := 0\<rparr>)" by (simp add: systick_hw_def)
  have d: "syst_val (periph demo_idle) < 72000" "critical_nesting demo_idle = 0" "syst_load (periph demo_idle) = 71999"
    by (simp_all add: demo_idle_def demo_def)
  have k: "tickless_reload ?k = 72000" by simp
  have t: "\<forall>n \<in> {100 :: u32}. 5 \<le> n" by simp
  show ?thesis
    using tickless_idle_no_oversleep [OF demo_idle_rep hw k d(1,2), of demo_env, unfolded w if_P [OF t] d(3)]
    by simp blast
qed

text \<open>
  Only delayed tasks bound a sleep: software timers and watchdog entries do not. With no delayed task an
  undisturbed sleep takes the longest period of the hardware timer and accounts for 233 ticks, whatever
  timer is due before.
\<close>

lemma forever_cycles:
  assumes "v < 72000" shows "sleep_cycles OS_WAIT_FOREVER v 72000 = SYSTICK_LOAD_MAX"
proof -
  have "unat v < 72000" using assms by (simp add: word_less_nat_alt)
  then have "unat (v + 309237645168000) = unat v + 4294823296" by (simp add: unat_word_ariths)
  then show ?thesis by (simp add: sleep_cycles_def SYSTICK_LOAD_MAX_def word_less_nat_alt Let_def)
qed

theorem tickless_sleeps_past_timers:
  assumes b: "blocked_list s = NULL" and k: "tickless_reload k = 72000" and v: "syst_val (periph s) < 72000"
  shows "\<exists>k' s'. idle_task_turn_tickless (\<lambda>r. r\<lparr>syst_val := 0\<rparr>) e (k, s)
       = do { s1 \<leftarrow> kernel_ticks e 233 s'; s2 \<leftarrow> idle_task_turn e s1; Some (k', s2) }
     \<and> active_timer_list s' = active_timer_list s \<and> timers s' = timers s \<and> wdt s' = wdt s"
proof -
  have n: "prv_get_next_wake_ticks s = Some OS_WAIT_FOREVER"
    unfolding prv_get_next_wake_ticks_def b by (subst next_wake_walk.simps) simp
  obtain k' r' where x: "os_tickless_idle_exit (os_tickless_idle_enter (\<lambda>r. r\<lparr>syst_val := 0\<rparr>) OS_WAIT_FOREVER (k, periph s)) = (233, k', r')"
    using k forever_cycles [OF v]
    by (simp add: os_tickless_idle_enter_def os_tickless_idle_exit_def prv_start_one_shot_def prv_stop_one_shot_def
        OS_TICKLESS_MIN_IDLE_TICKS_def SYSTICK_LOAD_MAX_def Let_def)
  let ?s = "os_sched_exit_critical ((os_sched_enter_critical s)\<lparr>periph := r'\<rparr>)"
  have "idle_sleep (\<lambda>r. r\<lparr>syst_val := 0\<rparr>) OS_WAIT_FOREVER (k, s) = (233, k', ?s)" using x by (simp add: idle_sleep_def enter_critical_nf)
  then have "idle_task_turn_tickless (\<lambda>r. r\<lparr>syst_val := 0\<rparr>) e (k, s)
      = do { s1 \<leftarrow> kernel_ticks e 233 ?s; s2 \<leftarrow> idle_task_turn e s1; Some (k', s2) }"
    using n by (simp add: idle_task_turn_tickless_def OS_TICKLESS_MIN_IDLE_TICKS_def)
  then show ?thesis by (intro exI [of _ k'] exI [of _ ?s]) (simp add: crit_simps)
qed

text \<open>Initializing the kernel of this build initializes the kernel of the other and the tickless data.\<close>

lemma os_kernel_init_tickless_correct:
  "os_kernel_init_tickless e (k, s) =
     (if kernel_initialized s then Some (k, s) else map_option (Pair (os_tickless_init k)) (os_kernel_init e s))"
  by (auto simp: os_kernel_init_tickless_def os_kernel_init_def Let_def split: Option.bind_splits)

end
