(* ===== verification/Spec2Isabelle.thy ===== *)
theory Spec2Isabelle
  imports Pipeline Deletion Creation Systick Trace_Ring Branch_V05 Mempool Tickless_Idle
begin

text \<open>
  MiniRTOS, a small preemptive kernel for ARM Cortex-M microcontrollers: a model of its C code under
  \<open>src/kernel\<close> and \<open>src/port\<close>, and the theorems that hold of it.

  \<^bold>\<open>The program and its parts.\<close> The application calls \<open>os_kernel_init\<close>, creates tasks and
  calls \<open>os_kernel_start\<close>. A task control block (\<open>os_tcb\<close>) comes from the heap
  (\<open>heap4.c\<close>) and is linked into exactly one list: the ready list of its priority, the list of
  delayed tasks, or the wait list of the queue, semaphore, mutex or event group it waits for. The
  SysTick interrupt calls \<open>os_kernel_tick_increment\<close>, which counts delays, software timers and
  watchdogs down. A switch is requested by pending PendSV, whose handler saves the registers of the
  current task, calls \<open>os_sched_select_next\<close> and restores the registers of the task chosen.

  \<^bold>\<open>State.\<close> The record \<open>os\<close> of \<open>Os_State\<close> has one field per static variable of
  the C files, and the memory those variables point to, split by type: \<open>tcbs\<close> is a partial map,
  because control blocks are allocated and freed, so that a null or dangling dereference is
  \<open>None\<close>; the control blocks of queues, semaphores, mutexes, event groups and timers belong to the
  caller and are total maps; \<open>mem8\<close> holds queue buffers, \<open>mem32\<close> task stacks. Machine integers
  are \<open>32 word\<close> and wrap around as in C. An operation maps a state to \<open>Some\<close> of its
  results and the new state, or to \<open>None\<close> when it does not return (failed assertion, undefined
  access, endless walk). Status codes are the values of \<open>os_status\<close>. The record \<open>env\<close> holds
  what is outside the sources: addresses the linker assigns, the application's callbacks, and
  \<open>switch\<close>, what the other tasks do while the caller is not running.

  \<^bold>\<open>Theories and sources.\<close>
  \<^item> \<open>Prelude\<close>: word types, collections of facts, generic lemmas on words, lists and pointers.
  \<^item> \<open>Heap4\<close> (\<open>kernel/heap4.c\<close>): the first-fit allocator. \<open>heap_ok\<close> says that a list of
    blocks tiles the heap; allocation, freeing with coalescing and reallocation are proved against
    that list, and the locale \<open>block_allocator\<close> states the contract that the clients use.
  \<^item> \<open>Os_State\<close> (\<open>common/os_types.h\<close>, \<open>config/os_config.h\<close>, the headers): types,
    constants, state. \<open>Critical\<close> (\<open>scheduler.c\<close>, \<open>port.c\<close>, \<open>trace.c\<close>): interrupt
    masking, nested critical sections, the yield, the trace operations; \<open>Trace_Ring\<close>: the ring is
    the log of the last 32 events.
  \<^item> \<open>Task_Lists\<close>, \<open>Task_State\<close>: the intrusive lists as paths through the store of control
    blocks. \<open>rep s A V\<close> says that state \<open>s\<close> holds the lists \<open>A\<close> and the task data
    \<open>V\<close>, \<open>states_ok A V\<close> that task states, priorities and list membership agree, \<open>frame\<close>
    that nothing else changed. Every operation on tasks is proved as a step from one such pair to
    another. \<open>Demo\<close> is a concrete state for the witnesses.
  \<^item> \<open>Task\<close> (\<open>kernel/task.c\<close>): creation, deletion, suspension, delays, priorities, the tick.
    \<open>Creation\<close>: which blocks of the heap a new task takes, and when there are none.
    \<open>Scheduler\<close> (\<open>kernel/scheduler.c\<close>): the choice of the next task, round robin.
  \<^item> \<open>Wait_Lists\<close>: the parts that queues, semaphores, mutexes and event groups share. Its locales
    \<open>wait_object\<close> and \<open>wake_object\<close> state what blocking on and waking from an object do; they
    are interpreted for the objects of \<open>Semaphore\<close>, \<open>Queue\<close>, \<open>Mutex\<close> and
    \<open>Eventgroup\<close> (the C files of these names). \<open>Semaphore\<close> adds the transition system of tasks and
    interrupt handlers that interleave, \<open>Queue\<close> the refinement of a bounded first-in first-out list
    by the ring buffer (locale \<open>bounded_fifo\<close>), \<open>Mutex\<close> priority inheritance,
    \<open>Eventgroup\<close> the equivalence of the wake-up walk with a scan of the waiters.
  \<^item> \<open>Mailbox\<close> (\<open>mailbox.c\<close>): overwriting keeps the latest value. \<open>Tickless\<close> (\<open>tickless.c\<close>): the
    ticks a sleep accounts for; \<open>Tickless_Idle\<close> (\<open>kernel.c\<close>): the idle task of the tickless build, which
    never sleeps past the wake-up of a delayed task, but ignores software timers.
    \<open>Notify\<close> (\<open>notify.c\<close>): delivery of a notification. \<open>Timer\<close> (\<open>timer.c\<close>): the list of relative times against
    expiry times; \<open>Timer_Tick\<close>: the tick, expiry and service of timers. \<open>Watchdog\<close> (\<open>watchdog.c\<close>): a tick as a function of the table.
    \<open>Mempool\<close> (\<open>mempool.c\<close>): a pool is the list of its free blocks (locale
    \<open>free_list_pool\<close>).
  \<^item> \<open>Kernel\<close> (\<open>kernel.c\<close>, \<open>stats.c\<close>, \<open>sysinfo.c\<close>): boot, tick, hooks, statistics;
    initialization establishes the invariants.
  \<^item> \<open>Deletion\<close>: what deleting a task does to lists and heap, at once and deferred to the tick.
    \<open>Kernel_Inv\<close>: \<open>kernel_inv\<close> joins the invariants of lists, states, current task, waiting objects and critical sections;
    every call keeps it. \<open>System\<close>: the kernel as one transition system. A step of \<open>kernel_step\<close> is a scheduling decision, a whole
    SysTick interrupt (hooks, delays, timers, watchdog, decision), or a call of a task or an interrupt handler, each under the guard
    \<open>enabled\<close>; \<open>switch_ok\<close> is what a blocked call relies on from the rest of the system, \<open>hooks_ok\<close> what the tick
    relies on from its callbacks. \<open>enabled\<close> excludes the calls by which the code breaks its own lists: a change of the priority of the
    running task or of a task in the wait list of an object, also by inheritance, and the last unlock by an owner of a changed priority.
    \<open>Systick\<close>: when a tick returns, and what it does to the contexts of the tasks it changes.
  \<^item> \<open>App\<close> (\<open>app/main.c\<close>): the demonstration application, its hooks, one turn of each of its tasks, and
    \<open>main\<close>. \<open>Boot\<close>: \<open>main\<close> runs from reset to the first task and establishes
    \<open>kernel_inv\<close>. \<open>App_Turn\<close>: the data that a turn of the consumer moves. \<open>Pipeline\<close>: a number
    on its way from the producer over queue, semaphore and scheduler to the counter of the consumer.
  \<^item> \<open>Port\<close> (\<open>port/port.c\<close>): initial stack frame, SysTick, NVIC. \<open>Context_Switch\<close>: the
    PendSV handler and the start of the first task; what the call of the scheduler leaves in the scratch registers R0 to R3 and R12
    is a parameter (\<open>asm\<close>) of the handlers. \<open>Nesting\<close>: the build with interrupt nesting.
    \<open>Port_M4\<close>, \<open>Port_M7\<close>, \<open>Port_M0\<close> (\<open>port/cortex_m*/\<close>): the other ports, each
    compared with that of the Cortex-M3.
  \<^item> \<open>Branch_V05\<close> (\<open>branches/feature-unit-tests\<close>): version 0.5.0. The functions that differ from the present
    ones and their callers are modelled again (suffix \<open>_v05\<close>) and related to them: without hooks both
    versions do the same, version 0.5.0 boots into the same invariant, and its ports set SysTick by the
    clock of their core.

  \<^bold>\<open>What the theorems show.\<close> The properties are numbered C1 to C40 where they stand. The
  first say that the application boots into the kernel invariant and that no enabled step leaves it. The others cover
  the scheduler's choice and its fairness; the tick; context switches, from the creation of a task to
  its first instruction and from being preempted to being resumed; the behaviour of semaphores, mutexes,
  queues, event groups and notifications on their success, refusal and blocking branches; the allocators; the boot
  sequence; timers, watchdog and trace; that a tick returns. Where the code does not do what it is meant to, the theorem
  states what it does: a tick that switches tasks corrupts contexts, waits on synchronization objects
  never time out, a blocked queue operation transfers nothing, deleting a delayed task leaves a
  dangling list entry, an auto-reload timer that is not served hangs the tick, and others beside the
  operations they concern.

  \<^bold>\<open>Loops.\<close> Walks over pointer lists are \<open>partial_function (option)\<close>, so that a cyclic list
  is \<open>None\<close>. The theorems conclude \<open>Some\<close>, hence that the walk ends, by induction on the list
  the state represents. There is no fuel. The endless loops of the idle task, the timer service and
  the tasks of the application are modelled as one turn.

  \<^bold>\<open>Configuration.\<close> The options are those of \<open>config/os_config.h\<close>; code they compile out is
  modelled in \<open>Nesting\<close>, \<open>Tickless\<close> and \<open>Tickless_Idle\<close> only.

  \<^bold>\<open>Not modelled.\<close> The hardware's part of exception entry and return (it is not in the sources);
  the start-up code and linker scripts, whose results are the hypotheses \<open>reset_state\<close> and
  \<open>linked\<close> of the boot theorem; the host tests, which only call the kernel; of version 0.5.0
  the functions whose text is that of the present version, for which the definitions of the present one stand.
\<close>

end
